(* ===== verification/Prelude.thy ===== *)
theory Prelude
  imports Complex_Main
begin

text \<open>
  Shared vocabulary of the development. A fallible C++ function returns
  \<^verbatim>\<open>support::Expected<T>\<close>; here it returns a sum whose left side is the error and
  whose right side is the value. The theory fixes the error-monad plumbing (sequencing,
  running a list of steps until the first failure), a few facts on lists that several
  components need, and the collections of rewrite rules the component theories extend.
\<close>

named_theorems result_simps \<open>unfolding rules of the error-sum plumbing\<close>
named_theorems path_simps \<open>facts on reading and writing nested JSON values\<close>
named_theorems storage_simps \<open>field-wise effect of the storage operations\<close>

type_synonym ('e, 'a) result = "'e + 'a"

definition bind_r :: "('e, 'a) result \<Rightarrow> ('a \<Rightarrow> ('e, 'b) result) \<Rightarrow> ('e, 'b) result" where
  "bind_r r f = (case r of Inl e \<Rightarrow> Inl e | Inr x \<Rightarrow> f x)"

definition is_ok :: "('e, 'a) result \<Rightarrow> bool" where
  "is_ok r = (case r of Inl _ \<Rightarrow> False | Inr _ \<Rightarrow> True)"

text \<open>A step function run over a list, stopping at the first error.\<close>

fun fold_r :: "('s \<Rightarrow> 'x \<Rightarrow> ('e, 's) result) \<Rightarrow> 's \<Rightarrow> 'x list \<Rightarrow> ('e, 's) result" where
  "fold_r f s [] = Inr s"
| "fold_r f s (x # xs) = (case f s x of Inl e \<Rightarrow> Inl e | Inr s' \<Rightarrow> fold_r f s' xs)"

text \<open>A check run over a list, reporting the first failure.\<close>

fun check_r :: "('x \<Rightarrow> ('e, unit) result) \<Rightarrow> 'x list \<Rightarrow> ('e, unit) result" where
  "check_r f [] = Inr ()"
| "check_r f (x # xs) = (case f x of Inl e \<Rightarrow> Inl e | Inr _ \<Rightarrow> check_r f xs)"

text \<open>A conversion run over a list, stopping at the first error.\<close>

fun map_r :: "('x \<Rightarrow> ('e, 'y) result) \<Rightarrow> 'x list \<Rightarrow> ('e, 'y list) result" where
  "map_r f [] = Inr []"
| "map_r f (x # xs) =
     (case f x of Inl e \<Rightarrow> Inl e
      | Inr y \<Rightarrow> (case map_r f xs of Inl e \<Rightarrow> Inl e | Inr ys \<Rightarrow> Inr (y # ys)))"

lemma bind_r_simps [simp, result_simps]:
  "bind_r (Inl e) f = Inl e"
  "bind_r (Inr x) f = f x"
  by (simp_all add: bind_r_def)

lemma is_ok_simps [simp, result_simps]:
  "\<not> is_ok (Inl e)"
  "is_ok (Inr x)"
  by (simp_all add: is_ok_def)

lemma is_ok_iff: "is_ok r \<longleftrightarrow> (\<exists>x. r = Inr x)"
  by (cases r) auto

lemma bind_r_eq_Inr [simp]: "bind_r r f = Inr y \<longleftrightarrow> (\<exists>x. r = Inr x \<and> f x = Inr y)"
  by (cases r) auto

lemma bind_r_cong [fundef_cong]:
  "r = r' \<Longrightarrow> (\<And>x. r' = Inr x \<Longrightarrow> f x = g x) \<Longrightarrow> bind_r r f = bind_r r' g"
  by (cases r') auto

lemma map_r_cong [fundef_cong]:
  "xs = ys \<Longrightarrow> (\<And>x. x \<in> set ys \<Longrightarrow> f x = g x) \<Longrightarrow> map_r f xs = map_r g ys"
  by (induction ys arbitrary: xs) (auto split: sum.splits)

lemma check_r_ok: "check_r f xs = Inr u \<longleftrightarrow> (\<forall>x\<in>set xs. is_ok (f x))"
  by (induction xs) (auto split: sum.splits)

lemma map_r_ok: "map_r f xs = Inr ys \<longleftrightarrow> length ys = length xs \<and> (\<forall>i<length xs. f (xs ! i) = Inr (ys ! i))"
proof (induction xs arbitrary: ys)
  case Nil
  then show ?case by auto
next
  case (Cons x xs)
  show ?case
  proof (cases ys)
    case Nil
    then show ?thesis by (auto split: sum.splits)
  next
    case (Cons y ys')
    have "(\<forall>i<length (x # xs). f ((x # xs) ! i) = Inr ((y # ys') ! i)) \<longleftrightarrow>
        f x = Inr y \<and> (\<forall>i<length xs. f (xs ! i) = Inr (ys' ! i))"
      by (auto simp: nth_Cons less_Suc_eq_0_disj split: nat.splits)
    then show ?thesis using Cons.IH [of ys'] Cons by (auto split: sum.splits)
  qed
qed

subsection \<open>Step functions as an interface\<close>

text \<open>
  Several components are state machines driven by a list of fallible steps: operations
  applied to a JSON value, batches replayed onto a document, writes of one storage commit.
  The locale holds what they share. A provider names its step function and the invariant
  each step keeps; the clients get the facts on whole runs.
\<close>

locale fallible_steps =
  fixes step :: "'s \<Rightarrow> 'x \<Rightarrow> ('e, 's) result"
    and inv :: "'s \<Rightarrow> bool"
    and admissible :: "'x \<Rightarrow> bool"
  assumes step_keeps: "inv s \<Longrightarrow> admissible x \<Longrightarrow> step s x = Inr s' \<Longrightarrow> inv s'"
begin

lemma run_append:
  "fold_r step s (xs @ ys) = bind_r (fold_r step s xs) (\<lambda>s'. fold_r step s' ys)"
  by (induction xs arbitrary: s) (auto split: sum.splits)

lemma run_snoc:
  "fold_r step s (xs @ [x]) = bind_r (fold_r step s xs) (\<lambda>s'. step s' x)"
  by (auto simp: run_append bind_r_def split: sum.splits)

lemma run_keeps:
  "inv s \<Longrightarrow> (\<And>x. x \<in> set xs \<Longrightarrow> admissible x) \<Longrightarrow> fold_r step s xs = Inr s' \<Longrightarrow> inv s'"
  by (induction xs arbitrary: s) (auto split: sum.splits dest: step_keeps)

lemma run_prefix:
  assumes "fold_r step s (xs @ ys) = Inr s'"
  shows "\<exists>m. fold_r step s xs = Inr m \<and> fold_r step m ys = Inr s'"
  using assms by (simp add: run_append)

lemma run_concat:
  "fold_r (\<lambda>s xs. fold_r step s xs) s xss = fold_r step s (concat xss)"
  by (induction xss arbitrary: s) (auto simp: run_append bind_r_def split: sum.splits)

end

subsection \<open>Lists\<close>

lemma take_Suc_nth: "i < length xs \<Longrightarrow> take (Suc i) xs = take i xs @ [xs ! i]"
  by (rule take_Suc_conv_app_nth)

lemma list_all_take: "list_all P xs \<Longrightarrow> list_all P (take i xs)"
  by (meson in_set_takeD list_all_iff)

lemma list_all_drop: "list_all P xs \<Longrightarrow> list_all P (drop i xs)"
  by (meson in_set_dropD list_all_iff)

text \<open>The last element of a list that satisfies a test.\<close>

fun find_last :: "('a \<Rightarrow> bool) \<Rightarrow> 'a list \<Rightarrow> 'a option" where
  "find_last P [] = None"
| "find_last P (x # xs) =
     (case find_last P xs of Some y \<Rightarrow> Some y | None \<Rightarrow> if P x then Some x else None)"

lemma find_last_mem: "find_last P xs = Some x \<Longrightarrow> x \<in> set xs \<and> P x"
  by (induction xs) (auto split: option.splits if_splits)

lemma find_append: "find P (xs @ ys) = (case find P xs of None \<Rightarrow> find P ys | Some x \<Rightarrow> Some x)"
  by (induction xs) auto

lemma find_concat:
  "find P (concat xss) = Option.bind (find (\<lambda>xs. \<exists>x\<in>set xs. P x) xss) (find P)"
proof (induction xss)
  case (Cons xs xss)
  show ?case
  proof (cases "\<exists>x\<in>set xs. P x")
    case True
    then have "find P xs \<noteq> None" by (auto simp: find_None_iff)
    then show ?thesis using True by (auto simp: find_append)
  next
    case False
    then have "find P xs = None" by (auto simp: find_None_iff)
    then show ?thesis using False Cons by (simp add: find_append)
  qed
qed simp

lemma set_map_filter: "y \<in> set (List.map_filter f xs) \<longleftrightarrow> (\<exists>x\<in>set xs. f x = Some y)"
  by (induction xs) (auto simp: map_filter_simps split: option.splits)

subsection \<open>Numerals\<close>

text \<open>The number a string of decimal digits stands for.\<close>

definition digits_value :: "string \<Rightarrow> nat" where
  "digits_value ds = foldl (\<lambda>a c. 10 * a + (of_char c - 48)) 0 ds"

text \<open>The decimal digits of a number, most significant first.\<close>

fun nat_digits :: "nat \<Rightarrow> string" where
  "nat_digits n =
     (if n < 10 then [char_of (48 + n)] else nat_digits (n div 10) @ [char_of (48 + n mod 10)])"

declare nat_digits.simps [simp del]

lemma nat_digits_value: "digits_value (nat_digits n) = n"
proof (induction n rule: nat_digits.induct)
  case (1 n)
  then show ?case
    by (subst nat_digits.simps) (simp add: digits_value_def)
qed

lemma nat_digits_chars: "c \<in> set (nat_digits n) \<Longrightarrow> 48 \<le> (of_char c :: nat) \<and> (of_char c :: nat) < 58"
proof (induction n rule: nat_digits.induct)
  case (1 n)
  have "48 \<le> 48 + n mod 10 \<and> 48 + n mod 10 < 58" by simp
  then show ?case
    using 1 by (subst (asm) nat_digits.simps) (auto split: if_splits)
qed

lemma nat_digits_inject: "nat_digits m = nat_digits n \<longleftrightarrow> m = n"
  by (metis nat_digits_value)

end
