(* ===== verification/Json_Object.thy ===== *)
theory Json_Object
  imports Prelude
begin

text \<open>
  \<^verbatim>\<open>src/src/support/include/cch/support/JsonObject.hpp\<close>: a JSON object as an
  insertion-ordered sequence of members with unique keys. The vector \<^verbatim>\<open>members_\<close>
  is a list of pairs; every operation of the class is a function of that list. The
  interface the rest of the program relies on (what a lookup returns after an insertion or
  an erasure) is the locale \<open>member_map\<close>, interpreted on these operations.
\<close>

type_synonym 'v members = "(string \<times> 'v) list"

section \<open>The class\<close>

text \<open>\<open>index_of\<close>: the position of a key, the number of members when it is absent.\<close>

fun index_of :: "'v members \<Rightarrow> string \<Rightarrow> nat" where
  "index_of [] key = 0"
| "index_of (m # ms) key = (if fst m = key then 0 else Suc (index_of ms key))"

text \<open>\<open>find\<close>: the member an iterator other than \<open>end()\<close> points at.\<close>

definition find_member :: "'v members \<Rightarrow> string \<Rightarrow> 'v option" where
  "find_member ms key =
     (let position = index_of ms key
      in if position = length ms then None else Some (snd (ms ! position)))"

definition contains_key :: "'v members \<Rightarrow> string \<Rightarrow> bool" where
  "contains_key ms key \<longleftrightarrow> index_of ms key \<noteq> length ms"

text \<open>\<open>at\<close>: a missing key terminates the process, which is \<open>None\<close> here.\<close>

definition at_key :: "'v members \<Rightarrow> string \<Rightarrow> 'v option" where
  "at_key ms key =
     (let position = index_of ms key
      in if position = length ms then None else Some (snd (ms ! position)))"

text \<open>\<open>emplace\<close>: an existing key keeps its position and its value.\<close>

definition emplace :: "'v members \<Rightarrow> string \<Rightarrow> 'v \<Rightarrow> 'v members \<times> bool" where
  "emplace ms key val =
     (let position = index_of ms key
      in if position \<noteq> length ms then (ms, False) else (ms @ [(key, val)], True))"

text \<open>\<open>insert_or_assign\<close>: an existing key keeps its position and gets the new value.\<close>

definition insert_or_assign :: "'v members \<Rightarrow> string \<Rightarrow> 'v \<Rightarrow> 'v members" where
  "insert_or_assign ms key val =
     (let position = index_of ms key
      in if position \<noteq> length ms then ms[position := (fst (ms ! position), val)]
         else ms @ [(key, val)])"

definition erase_at :: "'v members \<Rightarrow> nat \<Rightarrow> 'v members" where
  "erase_at ms position = take position ms @ drop (Suc position) ms"

definition erase_key :: "'v members \<Rightarrow> string \<Rightarrow> 'v members \<times> nat" where
  "erase_key ms key =
     (let position = index_of ms key
      in if position = length ms then (ms, 0) else (erase_at ms position, 1))"

text \<open>\<open>operator[]\<close>: inserts the default value of the mapped type when absent.\<close>

definition subscript :: "'v \<Rightarrow> 'v members \<Rightarrow> string \<Rightarrow> 'v members \<times> 'v" where
  "subscript dflt ms key =
     (let position = index_of ms key
      in if position \<noteq> length ms then (ms, snd (ms ! position))
         else (ms @ [(key, dflt)], dflt))"

text \<open>\<open>deduplicate\<close>: the first value of a repeated key wins.\<close>

definition deduplicate :: "'v members \<Rightarrow> 'v members" where
  "deduplicate ms =
     fold (\<lambda>member unique.
        if (\<exists>existing\<in>set unique. fst existing = fst member) then unique else unique @ [member]) ms []"

text \<open>\<open>operator==\<close>: equality by key and value, not by position.\<close>

definition members_eq :: "('v \<Rightarrow> 'v \<Rightarrow> bool) \<Rightarrow> 'v members \<Rightarrow> 'v members \<Rightarrow> bool" where
  "members_eq eq ms other \<longleftrightarrow>
     length ms = length other \<and>
     list_all (\<lambda>(key, val).
        let position = index_of other key
        in position \<noteq> length other \<and> eq (snd (other ! position)) val) ms"

text \<open>The class invariant: no key occurs twice.\<close>

definition unique_keys :: "'v members \<Rightarrow> bool" where
  "unique_keys ms \<longleftrightarrow> distinct (map fst ms)"

section \<open>Lookup\<close>

lemma index_of_le: "index_of ms key \<le> length ms"
  by (induction ms) auto

lemma index_of_found: "index_of ms key < length ms \<longleftrightarrow> key \<in> fst ` set ms"
  by (induction ms) auto

lemma index_of_missing: "index_of ms key = length ms \<longleftrightarrow> key \<notin> fst ` set ms"
  using index_of_found [of ms key] index_of_le [of ms key] by (metis le_neq_implies_less less_irrefl)

lemma index_of_key: "index_of ms key < length ms \<Longrightarrow> fst (ms ! index_of ms key) = key"
  by (induction ms) auto

lemma find_member_map_of: "find_member ms key = map_of ms key"
proof (induction ms)
  case Nil
  then show ?case by (simp add: find_member_def)
next
  case (Cons m ms)
  then show ?case by (cases m) (auto simp: find_member_def Let_def)
qed

lemma find_member_Nil [simp]: "find_member [] key = None"
  by (simp add: find_member_map_of)

lemma find_member_Cons [simp]:
  "find_member ((k, v) # ms) key = (if k = key then Some v else find_member ms key)"
  by (simp add: find_member_map_of)

lemma find_member_None: "find_member ms key = None \<longleftrightarrow> key \<notin> fst ` set ms"
  by (simp add: find_member_map_of map_of_eq_None_iff)

lemma find_member_in: "find_member ms key = Some v \<Longrightarrow> (key, v) \<in> set ms"
  by (simp add: find_member_map_of map_of_SomeD)

lemma contains_key_iff: "contains_key ms key \<longleftrightarrow> find_member ms key \<noteq> None"
  by (simp add: contains_key_def index_of_missing find_member_None)

lemma at_key_find: "at_key ms key = find_member ms key"
  by (simp add: at_key_def find_member_def)

section \<open>Insertion and erasure\<close>

lemma insert_or_assign_Nil [simp]: "insert_or_assign [] key v = [(key, v)]"
  by (simp add: insert_or_assign_def)

lemma insert_or_assign_Cons [simp]:
  "insert_or_assign ((k, w) # ms) key v =
     (if k = key then (k, v) # ms else (k, w) # insert_or_assign ms key v)"
  by (auto simp: insert_or_assign_def Let_def)

lemma keys_insert_or_assign:
  "map fst (insert_or_assign ms key v) =
     (if key \<in> fst ` set ms then map fst ms else map fst ms @ [key])"
  by (induction ms) (auto simp: rev_image_eqI)

lemma unique_insert_or_assign: "unique_keys ms \<Longrightarrow> unique_keys (insert_or_assign ms key v)"
  by (auto simp: unique_keys_def keys_insert_or_assign)

lemma find_insert_or_assign:
  "find_member (insert_or_assign ms key v) k = (if k = key then Some v else find_member ms k)"
  by (induction ms) auto

lemma insert_or_assign_absent:
  "key \<notin> fst ` set ms \<Longrightarrow> insert_or_assign ms key v = ms @ [(key, v)]"
  by (induction ms) auto

lemma erase_at_0 [simp]: "erase_at (m # ms) 0 = ms"
  by (simp add: erase_at_def)

lemma erase_at_Suc [simp]: "erase_at (m # ms) (Suc i) = m # erase_at ms i"
  by (simp add: erase_at_def)

lemma erase_key_Nil [simp]: "erase_key [] key = ([], 0)"
  by (simp add: erase_key_def)

lemma erase_key_Cons [simp]:
  "erase_key ((k, w) # ms) key =
     (if k = key then (ms, 1) else ((k, w) # fst (erase_key ms key), snd (erase_key ms key)))"
  by (auto simp: erase_key_def Let_def)

lemma keys_erase_key: "map fst (fst (erase_key ms key)) = remove1 key (map fst ms)"
  by (induction ms) auto

lemma unique_erase_key: "unique_keys ms \<Longrightarrow> unique_keys (fst (erase_key ms key))"
  by (simp add: unique_keys_def keys_erase_key)

lemma find_erase_key:
  "unique_keys ms \<Longrightarrow>
   find_member (fst (erase_key ms key)) k = (if k = key then None else find_member ms k)"
  by (induction ms) (auto simp: unique_keys_def find_member_None rev_image_eqI split: if_splits)

lemma set_erase_key: "set (fst (erase_key ms key)) \<subseteq> set ms"
  by (induction ms) (auto split: if_splits)

lemma erase_key_count: "snd (erase_key ms key) = (if key \<in> fst ` set ms then 1 else 0)"
  by (simp add: erase_key_def index_of_missing)

section \<open>The interface\<close>

text \<open>
  What the users of a member container rely on. \<open>lookup\<close> after \<open>put\<close> and
  \<open>del\<close> behaves as function update on the abstract map.
\<close>

locale member_map =
  fixes lookup :: "'m \<Rightarrow> string \<Rightarrow> 'v option"
    and put :: "'m \<Rightarrow> string \<Rightarrow> 'v \<Rightarrow> 'm"
    and del :: "'m \<Rightarrow> string \<Rightarrow> 'm"
    and ok :: "'m \<Rightarrow> bool"
  assumes lookup_put: "ok m \<Longrightarrow> lookup (put m k v) = (lookup m)(k := Some v)"
    and lookup_del: "ok m \<Longrightarrow> lookup (del m k) = (lookup m)(k := None)"
    and ok_put: "ok m \<Longrightarrow> ok (put m k v)"
    and ok_del: "ok m \<Longrightarrow> ok (del m k)"
begin

lemma put_put_same: "ok m \<Longrightarrow> lookup (put (put m k v) k w) = lookup (put m k w)"
  by (simp add: lookup_put ok_put)

lemma put_put_swap:
  "ok m \<Longrightarrow> k \<noteq> l \<Longrightarrow> lookup (put (put m k v) l w) = lookup (put (put m l w) k v)"
  by (simp add: lookup_put ok_put fun_upd_twist)

lemma del_put_same: "ok m \<Longrightarrow> lookup (del (put m k v) k) = lookup (del m k)"
  by (simp add: lookup_put lookup_del ok_put)

lemma put_del_same: "ok m \<Longrightarrow> lookup (put (del m k) k v) = lookup (put m k v)"
  by (simp add: lookup_put lookup_del ok_del)

lemma del_put_swap:
  "ok m \<Longrightarrow> k \<noteq> l \<Longrightarrow> lookup (del (put m k v) l) = lookup (put (del m l) k v)"
  by (simp add: lookup_put lookup_del ok_put ok_del fun_upd_twist)

end

interpretation obj: member_map find_member insert_or_assign "\<lambda>ms k. fst (erase_key ms k)" unique_keys
  by unfold_locales
    (auto simp: fun_eq_iff find_insert_or_assign find_erase_key unique_insert_or_assign unique_erase_key)

section \<open>Construction and equality\<close>

lemma deduplicate_fold:
  "distinct (map fst acc) \<Longrightarrow>
   distinct (map fst (fold (\<lambda>member unique.
      if (\<exists>existing\<in>set unique. fst existing = fst member) then unique else unique @ [member]) ms acc))"
proof (induction ms arbitrary: acc)
  case (Cons m ms)
  show ?case
  proof (cases "fst m \<in> fst ` set acc")
    case True
    then have "\<exists>existing\<in>set acc. fst existing = fst m" by (metis imageE)
    then show ?thesis using Cons by simp
  next
    case False
    then have "\<not> (\<exists>existing\<in>set acc. fst existing = fst m)" by (metis imageI)
    moreover have "distinct (map fst (acc @ [m]))" using False Cons.prems by auto
    ultimately show ?thesis using Cons.IH [of "acc @ [m]"] by simp
  qed
qed simp

lemma unique_deduplicate: "unique_keys (deduplicate ms)"
  by (simp add: unique_keys_def deduplicate_def deduplicate_fold)

lemma find_deduplicate_fold:
  "find_member (fold (\<lambda>member unique.
      if (\<exists>existing\<in>set unique. fst existing = fst member) then unique else unique @ [member]) ms acc) k =
   (case find_member acc k of Some v \<Rightarrow> Some v | None \<Rightarrow> find_member ms k)"
proof (induction ms arbitrary: acc)
  case Nil
  then show ?case by (simp split: option.splits)
next
  case (Cons m ms)
  show ?case
  proof (cases "\<exists>existing\<in>set acc. fst existing = fst m")
    case True
    then have "find_member acc (fst m) \<noteq> None"
      unfolding find_member_None by (metis imageI)
    then show ?thesis using True Cons.IH [of acc]
      by (cases m) (auto split: option.splits)
  next
    case False
    then have "find_member acc (fst m) = None"
      unfolding find_member_None by (metis imageE)
    then show ?thesis using False Cons.IH [of "acc @ [m]"]
      by (cases m) (auto simp: find_member_map_of map_add_def split: option.splits)
  qed
qed

lemma find_deduplicate: "find_member (deduplicate ms) k = find_member ms k"
  by (simp add: deduplicate_def find_deduplicate_fold)

lemma members_eq_find:
  "members_eq eq ms other \<longleftrightarrow>
     length ms = length other \<and>
     (\<forall>(key, val)\<in>set ms. \<exists>w. find_member other key = Some w \<and> eq w val)"
  by (auto simp: members_eq_def list_all_iff find_member_def Let_def split: prod.splits)

lemma members_eq_cong [fundef_cong]:
  assumes "ms = ms'" "other = other'"
    and "\<And>k v w. (k, v) \<in> set ms' \<Longrightarrow> find_member other' k = Some w \<Longrightarrow> eq w v = eq' w v"
  shows "members_eq eq ms other = members_eq eq' ms' other'"
  using assms by (fastforce simp: members_eq_find)

section \<open>Properties\<close>

text \<open>
  The object class is a finite map in insertion order: after \<open>insert_or_assign\<close> a
  lookup sees the new value at its key and the old ones elsewhere, after \<open>erase_key\<close>
  the key is gone and nothing else changed, the reported count says whether it was there,
  and both keep the keys unique.
\<close>

theorem json_object_is_map:
  assumes "unique_keys ms"
  shows "find_member (insert_or_assign ms key v) = (find_member ms)(key := Some v) \<and>
    find_member (fst (erase_key ms key)) = (find_member ms)(key := None) \<and>
    (snd (erase_key ms key) = 1 \<longleftrightarrow> find_member ms key \<noteq> None) \<and>
    unique_keys (insert_or_assign ms key v) \<and> unique_keys (fst (erase_key ms key))"
  using obj.lookup_put [OF assms] obj.lookup_del [OF assms] obj.ok_put [OF assms] obj.ok_del [OF assms]
  by (simp add: erase_key_count find_member_None)

theorem json_object_is_map_witness:
  "find_member (insert_or_assign [(''a'', 1), (''b'', 2 :: nat)] ''b'' 7) =
     (find_member [(''a'', 1), (''b'', 2)])(''b'' := Some 7) \<and>
   find_member (fst (erase_key [(''a'', 1), (''b'', 2 :: nat)] ''b'')) =
     (find_member [(''a'', 1), (''b'', 2)])(''b'' := None)"
  using json_object_is_map [of "[(''a'', 1), (''b'', 2 :: nat)]" "''b''" 7]
  by (simp add: unique_keys_def)

end
