(* ===== verification/Chord_Json.thy ===== *)
theory Chord_Json
  imports Json_Object
begin

text \<open>
  \<^verbatim>\<open>src/src/chord/Json.cpp\<close>, \<^verbatim>\<open>src/src/chord/include/cch/chord/Json.hpp\<close>,
  \<^verbatim>\<open>src/src/chord/StrictJson.cpp\<close> and the value type of
  \<^verbatim>\<open>src/src/support/include/cch/support/JsonValue.hpp\<close>: the immutable JSON value every
  later component stores, its equality, and the conversions to and from the shared JSON
  value. Sharing of containers through \<^verbatim>\<open>shared_ptr<const ...>\<close> is not observable for
  immutable values, except through \<^verbatim>\<open>shares_container_with\<close>, which is not modelled.
\<close>

section \<open>Numbers\<close>

text \<open>
  A C++ \<^verbatim>\<open>double\<close>, up to what the program does with one: test it for being finite and
  integral, compare it, and convert it to an unsigned integer. Finite non-zero values and
  positive zero are their exact rational value; the zero with a sign, the infinities and
  not-a-number are constructors of their own. Every IEEE double has exactly one
  representation here.
\<close>

datatype dbl = DNaN | DInf bool | DNegZero | DFin rat

fun dbl_value :: "dbl \<Rightarrow> rat option" where
  "dbl_value DNaN = None"
| "dbl_value (DInf _) = None"
| "dbl_value DNegZero = Some 0"
| "dbl_value (DFin q) = Some q"

definition isfinite :: "dbl \<Rightarrow> bool" where
  "isfinite d \<longleftrightarrow> dbl_value d \<noteq> None"

text \<open>\<open>operator==\<close> on doubles: not-a-number differs from itself, the two zeros agree.\<close>

fun dbl_eq :: "dbl \<Rightarrow> dbl \<Rightarrow> bool" where
  "dbl_eq DNaN _ = False"
| "dbl_eq _ DNaN = False"
| "dbl_eq (DInf a) (DInf b) = (a = b)"
| "dbl_eq (DInf _) _ = False"
| "dbl_eq _ (DInf _) = False"
| "dbl_eq x y = (dbl_value x = dbl_value y)"

lemma dbl_eq_refl: "dbl_eq d d \<longleftrightarrow> d \<noteq> DNaN"
  by (cases d) auto

lemma dbl_eq_sym: "dbl_eq x y = dbl_eq y x"
  by (cases x; cases y) auto

lemma dbl_eq_trans: "dbl_eq x y \<Longrightarrow> dbl_eq y z \<Longrightarrow> dbl_eq x z"
  by (cases x; cases y; cases z) auto

section \<open>Values\<close>

datatype json =
    JNull
  | JBool bool
  | JNum dbl
  | JStr string
  | JArr "json list"
  | JObj "(string \<times> json) list"

text \<open>The accessors of \<^verbatim>\<open>chord::Json\<close>: a null pointer is \<open>None\<close>.\<close>

definition is_null :: "json \<Rightarrow> bool" where
  "is_null j \<longleftrightarrow> (case j of JNull \<Rightarrow> True | _ \<Rightarrow> False)"

definition as_boolean :: "json \<Rightarrow> bool option" where
  "as_boolean j = (case j of JBool b \<Rightarrow> Some b | _ \<Rightarrow> None)"

definition as_number :: "json \<Rightarrow> dbl option" where
  "as_number j = (case j of JNum d \<Rightarrow> Some d | _ \<Rightarrow> None)"

definition as_string :: "json \<Rightarrow> string option" where
  "as_string j = (case j of JStr s \<Rightarrow> Some s | _ \<Rightarrow> None)"

definition as_array :: "json \<Rightarrow> json list option" where
  "as_array j = (case j of JArr a \<Rightarrow> Some a | _ \<Rightarrow> None)"

definition as_object :: "json \<Rightarrow> json members option" where
  "as_object j = (case j of JObj ob \<Rightarrow> Some ob | _ \<Rightarrow> None)"

lemma as_string_simps [simp]:
  "as_string (JStr s) = Some s" "as_string JNull = None" "as_string (JBool b) = None"
  "as_string (JNum d) = None" "as_string (JArr a) = None" "as_string (JObj ob) = None"
  by (simp_all add: as_string_def)

lemma as_array_simps [simp]:
  "as_array (JArr a) = Some a" "as_array JNull = None" "as_array (JBool b) = None"
  "as_array (JNum d) = None" "as_array (JStr s) = None" "as_array (JObj ob) = None"
  by (simp_all add: as_array_def)

lemma as_object_simps [simp]:
  "as_object (JObj ob) = Some ob" "as_object JNull = None" "as_object (JBool b) = None"
  "as_object (JNum d) = None" "as_object (JStr s) = None" "as_object (JArr a) = None"
  by (simp_all add: as_object_def)

lemma as_number_simps [simp]:
  "as_number (JNum d) = Some d" "as_number JNull = None" "as_number (JBool b) = None"
  "as_number (JObj ob) = None" "as_number (JStr s) = None" "as_number (JArr a) = None"
  by (simp_all add: as_number_def)

lemma as_string_Some: "as_string j = Some s \<longleftrightarrow> j = JStr s"
  by (cases j) auto

lemma as_array_Some: "as_array j = Some a \<longleftrightarrow> j = JArr a"
  by (cases j) auto

lemma as_object_Some: "as_object j = Some ob \<longleftrightarrow> j = JObj ob"
  by (cases j) auto

lemma as_number_Some: "as_number j = Some d \<longleftrightarrow> j = JNum d"
  by (cases j) auto

lemmas as_Some = as_string_Some as_array_Some as_object_Some as_number_Some

text \<open>Every object inside a value has unique keys: the invariant of the object class.\<close>

fun json_wf :: "json \<Rightarrow> bool" where
  "json_wf (JArr a) = list_all json_wf a"
| "json_wf (JObj ob) = (unique_keys ob \<and> list_all (\<lambda>m. json_wf (snd m)) ob)"
| "json_wf _ = True"

lemma json_wf_find: "json_wf (JObj ob) \<Longrightarrow> find_member ob k = Some v \<Longrightarrow> json_wf v"
  by (auto dest!: find_member_in simp: list_all_iff)

lemma json_wf_nth: "json_wf (JArr a) \<Longrightarrow> i < length a \<Longrightarrow> json_wf (a ! i)"
  by (simp add: list_all_length)

section \<open>Equality\<close>

lemma size_find_member [termination_simp]:
  "find_member ob k = Some v \<Longrightarrow> size v < size_list (size_prod (\<lambda>_. 0) size) ob"
  by (induction ob) (auto split: if_splits)

lemma size_member [termination_simp]:
  "(k, v) \<in> set ob \<Longrightarrow> size v < size_list (size_prod (\<lambda>_. 0) size) ob"
  by (induction ob) auto

lemma size_zip_member [termination_simp]:
  "(x, y) \<in> set (zip a b) \<Longrightarrow> size x + size y < size_list size a + size_list size b"
proof (induction a arbitrary: b)
  case (Cons u a)
  then show ?case by (cases b) fastforce+
qed simp

text \<open>\<open>operator==\<close>: arrays element-wise in order, objects by key.\<close>

function (sequential) json_eq :: "json \<Rightarrow> json \<Rightarrow> bool" where
  "json_eq JNull JNull = True"
| "json_eq (JBool a) (JBool b) = (a = b)"
| "json_eq (JNum a) (JNum b) = dbl_eq a b"
| "json_eq (JStr a) (JStr b) = (a = b)"
| "json_eq (JArr a) (JArr b) =
     (length a = length b \<and> list_all (\<lambda>(x, y). json_eq x y) (zip a b))"
| "json_eq (JObj a) (JObj b) = members_eq json_eq a b"
| "json_eq _ _ = False"
  by pat_completeness auto
termination
  by (relation "measure (\<lambda>(a, b). size a + size b)")
    (auto simp: size_zip_member less_SucI add_less_mono size_find_member size_member add.commute)

text \<open>Values without not-a-number, on which equality is reflexive.\<close>

fun nan_free :: "json \<Rightarrow> bool" where
  "nan_free (JNum d) = (d \<noteq> DNaN)"
| "nan_free (JArr a) = list_all nan_free a"
| "nan_free (JObj ob) = list_all (\<lambda>m. nan_free (snd m)) ob"
| "nan_free _ = True"

lemma json_eq_refl: "json_wf a \<Longrightarrow> nan_free a \<Longrightarrow> json_eq a a"
proof (induction a)
  case (JArr a)
  then show ?case by (auto simp: list_all_iff in_set_zip)
next
  case (JObj ob)
  have "\<exists>w. find_member ob k = Some w \<and> json_eq w v" if "(k, v) \<in> set ob" for k v
  proof (intro exI conjI)
    show "find_member ob k = Some v"
      using that JObj.prems by (simp add: find_member_map_of unique_keys_def)
    show "json_eq v v"
      using that JObj.prems JObj.IH [of "(k, v)" v] by (force simp: list_all_iff)
  qed
  then show ?case by (auto simp: members_eq_find)
qed (auto simp: dbl_eq_refl)

lemma members_eq_keys:
  assumes "unique_keys a" "unique_keys b" "members_eq eq a b"
  shows "fst ` set b = fst ` set a"
proof (rule card_seteq [symmetric])
  show "fst ` set a \<subseteq> fst ` set b"
  proof
    fix k
    assume "k \<in> fst ` set a"
    then obtain v where "(k, v) \<in> set a" by (metis imageE prod.collapse)
    then have "find_member b k \<noteq> None" using assms(3) by (fastforce simp: members_eq_find)
    then show "k \<in> fst ` set b" by (simp add: find_member_None)
  qed
  have "card (fst ` set xs) = length xs" if "unique_keys xs" for xs :: "'a members"
    using that distinct_card [of "map fst xs"] by (simp add: unique_keys_def)
  then show "card (fst ` set b) \<le> card (fst ` set a)"
    using assms by (simp add: members_eq_def)
qed simp

lemma members_eq_swap:
  assumes "unique_keys a" "unique_keys b" "members_eq eq a b"
    and sym: "\<And>k v w. (k, v) \<in> set a \<Longrightarrow> (k, w) \<in> set b \<Longrightarrow> eq w v \<Longrightarrow> eq v w"
  shows "members_eq eq b a"
proof -
  have "\<exists>v. find_member a k = Some v \<and> eq v w" if "(k, w) \<in> set b" for k w
  proof -
    have "k \<in> fst ` set a" using members_eq_keys [OF assms(1-3)] that by force
    then obtain v where v: "(k, v) \<in> set a" by force
    then have fa: "find_member a k = Some v"
      using assms(1) by (simp add: find_member_map_of unique_keys_def)
    have "find_member b k = Some w"
      using assms(2) that by (simp add: find_member_map_of unique_keys_def)
    then have "eq w v" using assms(3) v by (fastforce simp: members_eq_find)
    then show ?thesis using fa sym v that by blast
  qed
  then show ?thesis using assms(3) by (auto simp: members_eq_find)
qed

lemma json_eq_sym_imp: "json_wf a \<Longrightarrow> json_wf b \<Longrightarrow> json_eq a b \<Longrightarrow> json_eq b a"
proof (induction a b rule: json_eq.induct)
  case (5 a b)
  have "json_eq (b ! i) (a ! i)" if "i < length a" for i
  proof -
    have in_zip: "(a ! i, b ! i) \<in> set (zip a b)"
      using that "5.prems" by (auto simp: in_set_zip)
    moreover have "json_eq (a ! i) (b ! i)"
      using in_zip "5.prems" by (auto simp: list_all_iff)
    ultimately show ?thesis
      using "5.IH" [OF in_zip refl] that "5.prems" by (auto simp: list_all_length)
  qed
  then show ?case using "5.prems" by (auto simp: list_all_length)
next
  case (6 a b)
  show ?case unfolding json_eq.simps
  proof (rule members_eq_swap)
    show "unique_keys a" "unique_keys b" "members_eq json_eq a b" using "6.prems" by auto
  next
    fix k v w
    assume v: "(k, v) \<in> set a" and w: "(k, w) \<in> set b" and eq: "json_eq w v"
    have "find_member b k = Some w"
      using w "6.prems" by (simp add: find_member_map_of unique_keys_def)
    then show "json_eq v w" using "6.IH" [OF v] v w eq "6.prems" by (fastforce simp: list_all_iff)
  qed
qed (auto simp: dbl_eq_sym)

lemma json_eq_sym: "json_wf a \<Longrightarrow> json_wf b \<Longrightarrow> json_eq a b = json_eq b a"
  using json_eq_sym_imp by blast

lemma json_eq_trans:
  "json_wf a \<Longrightarrow> json_wf b \<Longrightarrow> json_wf c \<Longrightarrow> json_eq a b \<Longrightarrow> json_eq b c \<Longrightarrow> json_eq a c"
proof (induction a arbitrary: b c)
  case (JArr a)
  obtain b' c' where b: "b = JArr b'" and c: "c = JArr c'"
    using JArr.prems by (cases b; cases c) auto
  have "json_eq (a ! i) (c' ! i)" if "i < length a" for i
    using that JArr.prems JArr.IH [of "a ! i" "b' ! i" "c' ! i"] unfolding b c
    by (auto simp: list_all_length)
  then show ?case using JArr.prems unfolding b c by (auto simp: list_all_length)
next
  case (JObj a)
  obtain b' c' where b: "b = JObj b'" and c: "c = JObj c'"
    using JObj.prems by (cases b; cases c) auto
  have "\<exists>w. find_member c' k = Some w \<and> json_eq w v" if v: "(k, v) \<in> set a" for k v
  proof -
    obtain u where u: "find_member b' k = Some u" and uv: "json_eq u v"
      using v JObj.prems(4) unfolding b by (fastforce simp: members_eq_find)
    then obtain w where w: "find_member c' k = Some w" and wu: "json_eq w u"
      using find_member_in [OF u] JObj.prems(5) unfolding b c by (fastforce simp: members_eq_find)
    have wf: "json_wf u" "json_wf w" "json_wf v"
      using json_wf_find [OF _ u] json_wf_find [OF _ w] JObj.prems(1-3) v unfolding b c
      by (force simp: list_all_iff)+
    have "json_eq v w"
      using JObj.IH [of "(k, v)" v u w] v wf uv wu json_eq_sym by auto
    then show ?thesis using w wf json_eq_sym by blast
  qed
  then show ?case using JObj.prems unfolding b c by (auto simp: members_eq_find)
next
  case (JNum d)
  then show ?case by (cases b; cases c) (auto dest: dbl_eq_trans)
qed (rename_tac b c, case_tac b; case_tac c; auto)+

section \<open>Conversion to and from the shared JSON value\<close>

text \<open>\<^verbatim>\<open>support::JsonValue\<close>, the passive value the other packages exchange.\<close>

datatype support_json =
    SNull
  | SNum dbl
  | SStr string
  | SBool bool
  | SArr "support_json list"
  | SObj "(string \<times> support_json) list"

datatype json_error = NonFiniteNumber

fun support_wf :: "support_json \<Rightarrow> bool" where
  "support_wf (SArr a) = list_all support_wf a"
| "support_wf (SObj ob) = (unique_keys ob \<and> list_all (\<lambda>m. support_wf (snd m)) ob)"
| "support_wf _ = True"

text \<open>Objects are rebuilt member by member with \<open>emplace\<close>.\<close>

definition emplace_all :: "'v members \<Rightarrow> 'v members" where
  "emplace_all ms = fold (\<lambda>(k, v) acc. fst (emplace acc k v)) ms []"

definition sequence_members :: "(string \<times> ('e, 'v) result) list \<Rightarrow> ('e, 'v members) result" where
  "sequence_members ms = map_r (\<lambda>(k, r). bind_r r (\<lambda>v. Inr (k, v))) ms"

fun from_support :: "support_json \<Rightarrow> (json_error, json) result" where
  "from_support (SNum d) = (if isfinite d then Inr (JNum d) else Inl NonFiniteNumber)"
| "from_support (SStr s) = Inr (JStr s)"
| "from_support (SBool b) = Inr (JBool b)"
| "from_support SNull = Inr JNull"
| "from_support (SArr a) = bind_r (map_r from_support a) (\<lambda>xs. Inr (JArr xs))"
| "from_support (SObj ob) =
     bind_r (sequence_members (map (\<lambda>m. (fst m, from_support (snd m))) ob))
       (\<lambda>ms. Inr (JObj (emplace_all ms)))"

fun to_support :: "json \<Rightarrow> support_json" where
  "to_support (JNum d) = SNum d"
| "to_support (JStr s) = SStr s"
| "to_support (JBool b) = SBool b"
| "to_support JNull = SNull"
| "to_support (JArr a) = SArr (map to_support a)"
| "to_support (JObj ob) = SObj (emplace_all (map (\<lambda>m. (fst m, to_support (snd m))) ob))"

text \<open>\<open>copy_strict_json\<close> and \<open>is_strict_json_value\<close> of StrictJson.cpp.\<close>

fun copy_strict_json :: "support_json \<Rightarrow> (json_error, support_json) result" where
  "copy_strict_json (SNum d) = (if isfinite d then Inr (SNum d) else Inl NonFiniteNumber)"
| "copy_strict_json (SStr s) = Inr (SStr s)"
| "copy_strict_json (SBool b) = Inr (SBool b)"
| "copy_strict_json SNull = Inr SNull"
| "copy_strict_json (SArr a) = bind_r (map_r copy_strict_json a) (\<lambda>xs. Inr (SArr xs))"
| "copy_strict_json (SObj ob) =
     bind_r (sequence_members (map (\<lambda>m. (fst m, copy_strict_json (snd m))) ob))
       (\<lambda>ms. Inr (SObj (emplace_all ms)))"

fun is_strict :: "support_json \<Rightarrow> bool" where
  "is_strict (SNum d) = isfinite d"
| "is_strict (SArr a) = list_all is_strict a"
| "is_strict (SObj ob) = list_all (\<lambda>m. is_strict (snd m)) ob"
| "is_strict _ = True"

lemma emplace_all_acc:
  "distinct (map fst (acc @ ms)) \<Longrightarrow> fold (\<lambda>(k, v) acc. fst (emplace acc k v)) ms acc = acc @ ms"
proof (induction ms arbitrary: acc)
  case (Cons m ms)
  obtain k v where m: "m = (k, v)" by (cases m)
  have "k \<notin> fst ` set acc" using Cons.prems m by auto
  then have "fst (emplace acc k v) = acc @ [m]"
    by (simp add: emplace_def index_of_missing m)
  moreover have "distinct (map fst ((acc @ [m]) @ ms))" using Cons.prems by simp
  ultimately show ?case using Cons.IH [of "acc @ [m]"] m by simp
qed simp

lemma emplace_all_unique: "unique_keys ms \<Longrightarrow> emplace_all ms = ms"
  by (simp add: emplace_all_def unique_keys_def emplace_all_acc [of "[]", simplified])

lemma sequence_members_ok:
  assumes "\<And>m. m \<in> set ob \<Longrightarrow> f (snd m) = Inr (g (snd m))"
  shows "sequence_members (map (\<lambda>m. (fst m, f (snd m))) ob) = Inr (map (\<lambda>m. (fst m, g (snd m))) ob)"
  using assms by (induction ob) (auto simp: sequence_members_def)

lemma map_r_all_ok:
  assumes "\<And>x. x \<in> set xs \<Longrightarrow> f x = Inr (g x)"
  shows "map_r f xs = Inr (map g xs)"
  using assms by (induction xs) auto


lemma to_support_strict: "json_wf j \<Longrightarrow> is_strict (to_support j) \<Longrightarrow> from_support (to_support j) = Inr j"
proof (induction j)
  case (JArr a)
  then have "map_r from_support (map to_support a) = Inr a"
    by (auto simp: map_r_ok list_all_length)
  then show ?case by simp
next
  case (JObj ob)
  have uniq: "unique_keys (map (\<lambda>m. (fst m, to_support (snd m))) ob)"
    using JObj.prems by (simp add: unique_keys_def comp_def)
  have *: "from_support (to_support (snd m)) = Inr (snd m)" if "m \<in> set ob" for m
    using that JObj.prems JObj.IH [of m "snd m"]
    by (simp add: emplace_all_unique [OF uniq] list_all_iff snds.simps)
  have "sequence_members (map (\<lambda>m. (fst m, from_support (to_support (snd m)))) ob) = Inr ob"
    using * by (induction ob) (auto simp: sequence_members_def)
  then show ?case using JObj.prems by (simp add: emplace_all_unique uniq comp_def)
qed auto

lemma copy_strict_json_ok: "support_wf v \<Longrightarrow> is_strict v \<Longrightarrow> copy_strict_json v = Inr v"
proof (induction v)
  case (SArr a)
  then have "map_r copy_strict_json a = Inr a"
    by (auto simp: map_r_ok list_all_length)
  then show ?case by simp
next
  case (SObj ob)
  have *: "copy_strict_json (snd m) = Inr (snd m)" if "m \<in> set ob" for m
    using that SObj.prems SObj.IH [of m "snd m"] by (simp add: list_all_iff snds.simps)
  have "sequence_members (map (\<lambda>m. (fst m, copy_strict_json (snd m))) ob) = Inr ob"
    using * by (induction ob) (auto simp: sequence_members_def)
  then show ?case using SObj.prems by (simp add: emplace_all_unique)
qed auto

lemma map_r_is_ok: "is_ok (map_r f xs) \<longleftrightarrow> (\<forall>x\<in>set xs. is_ok (f x))"
  by (induction xs) (auto split: sum.splits)

lemma is_ok_bind_Inr [simp]: "is_ok (bind_r r (\<lambda>x. Inr (f x))) = is_ok r"
  by (cases r) auto

lemma sequence_members_is_ok:
  "is_ok (sequence_members (map (\<lambda>m. (fst m, f (snd m))) ob)) \<longleftrightarrow> (\<forall>m\<in>set ob. is_ok (f (snd m)))"
  by (simp add: sequence_members_def map_r_is_ok)

lemma copy_strict_json_is_ok: "is_ok (copy_strict_json v) = is_strict v"
  by (induction v) (auto simp: map_r_is_ok sequence_members_is_ok list_all_iff)

lemma from_support_is_ok: "is_ok (from_support v) = is_strict v"
  by (induction v) (auto simp: map_r_is_ok sequence_members_is_ok list_all_iff)

section \<open>Properties\<close>

text \<open>
  Converting a value to the support library's JSON and back yields the value, provided
  it holds no number the strict form refuses (a NaN or an infinity).
\<close>

theorem support_round_trip:
  assumes "json_wf j" "is_strict (to_support j)"
  shows "from_support (to_support j) = Inr j"
  using assms by (rule to_support_strict)

theorem support_round_trip_witness:
  "from_support (to_support (JObj [(''a'', JArr [JNull, JNum DNegZero]), (''b'', JBool True)])) =
     Inr (JObj [(''a'', JArr [JNull, JNum DNegZero]), (''b'', JBool True)])"
  by (rule support_round_trip) (simp_all add: unique_keys_def emplace_all_unique isfinite_def)

text \<open>
  Value equality, which compares objects as unordered maps, is symmetric and transitive
  on well-formed values, and reflexive on those without a NaN.
\<close>

theorem json_equality:
  assumes "json_wf a" "json_wf b" "json_wf c"
  shows "(json_eq a b \<longleftrightarrow> json_eq b a) \<and> (json_eq a b \<longrightarrow> json_eq b c \<longrightarrow> json_eq a c) \<and>
    (nan_free a \<longrightarrow> json_eq a a)"
  using assms json_eq_sym [of a b] json_eq_trans [of a b c] json_eq_refl [of a] by blast

theorem json_equality_witness:
  "json_eq (JObj [(''a'', JNull), (''b'', JBool True)]) (JObj [(''b'', JBool True), (''a'', JNull)]) \<longleftrightarrow>
   json_eq (JObj [(''b'', JBool True), (''a'', JNull)]) (JObj [(''a'', JNull), (''b'', JBool True)])"
  using json_equality [of "JObj [(''a'', JNull), (''b'', JBool True)]"
      "JObj [(''b'', JBool True), (''a'', JNull)]" JNull]
  by (simp add: unique_keys_def)

end
