(* ===== verification/Utf16.thy ===== *)
theory Utf16
  imports Prelude
begin

text \<open>
  The text layer of \<^verbatim>\<open>src/src/chord/Delta.cpp\<close>: \<open>decode_utf8\<close>, \<open>encode_utf8\<close>,
  the surrogate tests and \<open>overlap_units\<close>. A C++ string is a list of bytes; a
  \<^verbatim>\<open>u16string\<close> is a list of code units. Shifts and masks are written as division
  and remainder by the same power of two, and an \<^verbatim>\<open>|\<close> of disjoint bit fields as a
  sum. The specification both directions meet is a list of Unicode scalar values.
\<close>

section \<open>Code units and bytes\<close>

definition is_high_surrogate :: "nat \<Rightarrow> bool" where
  "is_high_surrogate u \<longleftrightarrow> 0xD800 \<le> u \<and> u \<le> 0xDBFF"

definition is_low_surrogate :: "nat \<Rightarrow> bool" where
  "is_low_surrogate u \<longleftrightarrow> 0xDC00 \<le> u \<and> u \<le> 0xDFFF"

text \<open>The lead byte: the first bits of the code point and the length of the sequence.\<close>

definition utf8_lead :: "nat \<Rightarrow> (nat \<times> nat) option" where
  "utf8_lead lead =
     (if lead < 0x80 then Some (lead, 1)
      else if lead div 32 = 6 then Some (lead mod 32, 2)
      else if lead div 16 = 14 then Some (lead mod 16, 3)
      else if lead div 8 = 30 then Some (lead mod 8, 4)
      else None)"

text \<open>The loop over the continuation bytes.\<close>

fun continuation :: "nat \<Rightarrow> nat list \<Rightarrow> nat option" where
  "continuation cp [] = Some cp"
| "continuation cp (b # bs) = (if b div 64 \<noteq> 2 then None else continuation (cp * 64 + b mod 64) bs)"

text \<open>The rejected results: overlong forms, values out of range, surrogates.\<close>

definition bad_scalar :: "nat \<Rightarrow> nat \<Rightarrow> bool" where
  "bad_scalar len cp \<longleftrightarrow>
     len = 2 \<and> cp < 0x80 \<or> len = 3 \<and> cp < 0x800 \<or> len = 4 \<and> cp < 0x10000 \<or>
     cp > 0x10FFFF \<or> 0xD800 \<le> cp \<and> cp \<le> 0xDFFF"

definition utf16_units :: "nat \<Rightarrow> nat list" where
  "utf16_units cp =
     (if cp \<le> 0xFFFF then [cp]
      else let adjusted = cp - 0x10000
           in [0xD800 + adjusted div 1024, 0xDC00 + adjusted mod 1024])"

function decode_units :: "nat list \<Rightarrow> nat list option" where
  "decode_units [] = Some []"
| "decode_units (lead # rest) =
     (case utf8_lead lead of
        None \<Rightarrow> None
      | Some (cp0, len) \<Rightarrow>
          if Suc (length rest) < len then None
          else (case continuation cp0 (take (len - 1) rest) of
                  None \<Rightarrow> None
                | Some cp \<Rightarrow>
                    if bad_scalar len cp then None
                    else map_option ((@) (utf16_units cp)) (decode_units (drop (len - 1) rest))))"
  by pat_completeness auto
termination by (relation "measure length") auto

definition utf8_bytes :: "nat \<Rightarrow> nat list" where
  "utf8_bytes cp =
     (if cp < 0x80 then [cp]
      else if cp < 0x800 then [0xC0 + cp div 64, 0x80 + cp mod 64]
      else if cp < 0x10000 then [0xE0 + cp div 4096, 0x80 + cp div 64 mod 64, 0x80 + cp mod 64]
      else [0xF0 + cp div 262144, 0x80 + cp div 4096 mod 64, 0x80 + cp div 64 mod 64, 0x80 + cp mod 64])"

fun encode_units :: "nat list \<Rightarrow> nat list option" where
  "encode_units [] = Some []"
| "encode_units (u # us) =
     (if is_high_surrogate u then
        (case us of
           [] \<Rightarrow> None
         | v # vs \<Rightarrow>
             if \<not> is_low_surrogate v then None
             else map_option ((@) (utf8_bytes (0x10000 + (u - 0xD800) * 1024 + (v - 0xDC00)))) (encode_units vs))
      else if is_low_surrogate u then None
      else map_option ((@) (utf8_bytes u)) (encode_units us))"

definition decode_utf8 :: "string \<Rightarrow> nat list option" where
  "decode_utf8 text = decode_units (map of_char text)"

definition encode_utf8 :: "nat list \<Rightarrow> string option" where
  "encode_utf8 units = map_option (map char_of) (encode_units units)"

section \<open>Scalar values: the specification\<close>

definition scalar :: "nat \<Rightarrow> bool" where
  "scalar cp \<longleftrightarrow> cp \<le> 0x10FFFF \<and> \<not> (0xD800 \<le> cp \<and> cp \<le> 0xDFFF)"

definition utf8_of :: "nat list \<Rightarrow> nat list" where
  "utf8_of cps = concat (map utf8_bytes cps)"

definition utf16_of :: "nat list \<Rightarrow> nat list" where
  "utf16_of cps = concat (map utf16_units cps)"

lemma utf8_of_simps [simp]:
  "utf8_of [] = []" "utf8_of (c # cs) = utf8_bytes c @ utf8_of cs" "utf8_of (cs @ ds) = utf8_of cs @ utf8_of ds"
  by (simp_all add: utf8_of_def)

lemma utf16_of_simps [simp]:
  "utf16_of [] = []" "utf16_of (c # cs) = utf16_units c @ utf16_of cs" "utf16_of (cs @ ds) = utf16_of cs @ utf16_of ds"
  by (simp_all add: utf16_of_def)

text \<open>One scalar value through the encoder.\<close>

lemma encode_scalar:
  assumes "scalar cp"
  shows "encode_units (utf16_units cp @ us) = map_option ((@) (utf8_bytes cp)) (encode_units us)"
proof (cases "cp \<le> 0xFFFF")
  case True
  then have "\<not> is_high_surrogate cp" "\<not> is_low_surrogate cp"
    using assms by (auto simp: scalar_def is_high_surrogate_def is_low_surrogate_def)
  then show ?thesis using True by (simp add: utf16_units_def)
next
  case False
  define a where "a = cp - 0x10000"
  have "a < 0x100000" using assms False by (simp add: a_def scalar_def)
  then have "a div 1024 < 1024" by auto
  then have hi: "is_high_surrogate (0xD800 + a div 1024)" by (simp add: is_high_surrogate_def)
  have lo: "is_low_surrogate (0xDC00 + a mod 1024)"
    using mod_less_divisor [of 1024 a] by (simp add: is_low_surrogate_def)
  have "0x10000 + a div 1024 * 1024 + a mod 1024 = cp"
    using False by (simp add: a_def)
  then show ?thesis using False hi lo by (simp add: utf16_units_def Let_def a_def [symmetric])
qed

lemma encode_utf16_of: "(\<forall>cp\<in>set cps. scalar cp) \<Longrightarrow> encode_units (utf16_of cps) = Some (utf8_of cps)"
  by (induction cps) (auto simp: encode_scalar)

text \<open>Whatever the encoder accepts is a list of scalar values.\<close>

lemma surrogate_pair:
  assumes "is_high_surrogate u" "is_low_surrogate v"
  defines "cp \<equiv> 0x10000 + (u - 0xD800) * 1024 + (v - 0xDC00)"
  shows "scalar cp" "utf16_units cp = [u, v]"
proof -
  define a b where "a = u - 0xD800" and "b = v - 0xDC00"
  have ab: "a < 1024" "b < 1024" and u: "u = 0xD800 + a" and v: "v = 0xDC00 + b"
    using assms(1,2) by (auto simp: a_def b_def is_high_surrogate_def is_low_surrogate_def)
  have cp: "cp = 0x10000 + a * 1024 + b" by (simp add: cp_def a_def b_def)
  have "cp - 0x10000 = a * 1024 + b" by (simp add: cp)
  moreover have "(a * 1024 + b) div 1024 = a" "(a * 1024 + b) mod 1024 = b" using ab by auto
  ultimately show "utf16_units cp = [u, v]" by (simp add: utf16_units_def cp u v)
  show "scalar cp" using ab by (simp add: scalar_def cp)
qed

lemma encode_units_scalars:
  assumes "encode_units us = Some bs" "\<forall>u\<in>set us. u < 0x10000"
  shows "\<exists>cps. (\<forall>cp\<in>set cps. scalar cp) \<and> us = utf16_of cps \<and> bs = utf8_of cps"
  using assms
proof (induction us arbitrary: bs rule: encode_units.induct)
  case 1
  then show ?case by (auto intro!: exI [of _ "[]"])
next
  case (2 u us)
  show ?case
  proof (cases "is_high_surrogate u")
    case True
    then obtain v vs ds where us: "us = v # vs" and v: "is_low_surrogate v"
      and ds: "encode_units vs = Some ds"
      and bs: "bs = utf8_bytes (0x10000 + (u - 0xD800) * 1024 + (v - 0xDC00)) @ ds"
      using "2.prems"(1) by (auto split: list.splits if_splits)
    obtain cps where "\<forall>cp\<in>set cps. scalar cp" "vs = utf16_of cps" "ds = utf8_of cps"
      using "2.IH"(1) [OF True us _ ds] v us "2.prems"(2) by auto
    then show ?thesis using surrogate_pair [OF True v] us bs
      by (intro exI [of _ "(0x10000 + (u - 0xD800) * 1024 + (v - 0xDC00)) # cps"]) simp
  next
    case False
    then have lo: "\<not> is_low_surrogate u" using "2.prems"(1) by (auto split: if_splits)
    then obtain ds where ds: "encode_units us = Some ds" and bs: "bs = utf8_bytes u @ ds"
      using False "2.prems"(1) by auto
    obtain cps where "\<forall>cp\<in>set cps. scalar cp" "us = utf16_of cps" "ds = utf8_of cps"
      using "2.IH"(2) [OF False lo ds] "2.prems"(2) by auto
    moreover have "scalar u" "utf16_units u = [u]"
      using False lo "2.prems"(2)
      by (auto simp: scalar_def utf16_units_def is_high_surrogate_def is_low_surrogate_def)
    ultimately show ?thesis using bs by (intro exI [of _ "u # cps"]) simp
  qed
qed

lemma add_div_mod: "(x :: nat) < m \<Longrightarrow> (k * m + x) div m = k \<and> (k * m + x) mod m = x"
  by simp

lemma div_mod_join: "(l :: nat) div m = k \<Longrightarrow> k * m + l mod m = l"
  by (metis div_mult_mod_eq)

lemma utf8_lead2: "x < 32 \<Longrightarrow> utf8_lead (0xC0 + x) = Some (x, 2)"
  using add_div_mod [of x 32 6] by (simp add: utf8_lead_def)

lemma utf8_lead3: "x < 16 \<Longrightarrow> utf8_lead (0xE0 + x) = Some (x, 3)"
  using add_div_mod [of x 16 14] add_div_mod [of x 32 7] by (simp add: utf8_lead_def)

lemma utf8_lead4: "x < 8 \<Longrightarrow> utf8_lead (0xF0 + x) = Some (x, 4)"
  using add_div_mod [of x 8 30] add_div_mod [of x 16 15] add_div_mod [of x 32 7]
  by (simp add: utf8_lead_def)

lemma continuation_byte: "x < 64 \<Longrightarrow> continuation c ((0x80 + x) # bs) = continuation (c * 64 + x) bs"
  using add_div_mod [of x 64 2] by simp

lemma div_4096: "(n :: nat) div 4096 = n div 64 div 64"
  using div_mult2_eq [of n 64 64] by simp

lemma div_262144: "(n :: nat) div 262144 = n div 64 div 64 div 64"
  using div_mult2_eq [of n 64 4096] by (simp add: div_4096)

lemma mod_64_less: "(n :: nat) mod 64 < 64"
  by simp

text \<open>One scalar value through the decoder: one case per length of the sequence.\<close>

lemma decode_scalar1:
  "cp < 0x80 \<Longrightarrow> decode_units (cp # bs) = map_option ((@) [cp]) (decode_units bs)"
  by (simp add: utf8_lead_def bad_scalar_def utf16_units_def)

lemma decode_scalar2:
  assumes "0x80 \<le> cp" "cp < 0x800"
  shows "decode_units ((0xC0 + cp div 64) # (0x80 + cp mod 64) # bs) =
    map_option ((@) (utf16_units cp)) (decode_units bs)"
proof -
  have d: "cp div 64 < 32" using assms by auto
  have "utf8_lead (0xC0 + cp div 64) = Some (cp div 64, 2)"
    using d by (rule utf8_lead2)
  moreover have "continuation (cp div 64) [0x80 + cp mod 64] = Some cp"
    by (simp only: continuation_byte [OF mod_64_less] continuation.simps(1) div_mult_mod_eq)
  ultimately show ?thesis using assms by (simp add: bad_scalar_def)
qed

lemma decode_scalar3:
  assumes "0x800 \<le> cp" "cp < 0x10000" "scalar cp"
  shows "decode_units ((0xE0 + cp div 4096) # (0x80 + cp div 64 mod 64) # (0x80 + cp mod 64) # bs) =
    map_option ((@) (utf16_units cp)) (decode_units bs)"
proof -
  have d: "cp div 4096 < 16" using assms by auto
  have "utf8_lead (0xE0 + cp div 4096) = Some (cp div 4096, 3)"
    using d by (rule utf8_lead3)
  moreover have "continuation (cp div 4096) [0x80 + cp div 64 mod 64, 0x80 + cp mod 64] = Some cp"
    by (simp only: div_4096 continuation_byte [OF mod_64_less] continuation.simps(1) div_mult_mod_eq)
  moreover have "\<not> bad_scalar 3 cp" using assms by (auto simp: bad_scalar_def scalar_def)
  ultimately show ?thesis by (simp del: continuation.simps)
qed

lemma decode_scalar4:
  assumes "0x10000 \<le> cp" "scalar cp"
  shows "decode_units ((0xF0 + cp div 262144) # (0x80 + cp div 4096 mod 64) #
      (0x80 + cp div 64 mod 64) # (0x80 + cp mod 64) # bs) =
    map_option ((@) (utf16_units cp)) (decode_units bs)"
proof -
  have d: "cp div 262144 < 8" using assms by (auto simp: scalar_def)
  have "utf8_lead (0xF0 + cp div 262144) = Some (cp div 262144, 4)"
    using d by (rule utf8_lead4)
  moreover have "continuation (cp div 262144)
      [0x80 + cp div 4096 mod 64, 0x80 + cp div 64 mod 64, 0x80 + cp mod 64] = Some cp"
    by (simp only: div_4096 div_262144 continuation_byte [OF mod_64_less] continuation.simps(1) div_mult_mod_eq)
  moreover have "\<not> bad_scalar 4 cp" using assms by (auto simp: bad_scalar_def scalar_def)
  ultimately show ?thesis by (simp del: continuation.simps)
qed

lemma decode_scalar:
  assumes "scalar cp"
  shows "decode_units (utf8_bytes cp @ bs) = map_option ((@) (utf16_units cp)) (decode_units bs)"
proof -
  consider "cp < 0x80" | "0x80 \<le> cp" "cp < 0x800" | "0x800 \<le> cp" "cp < 0x10000" | "0x10000 \<le> cp"
    by linarith
  then show ?thesis
  proof cases
    case 1
    then show ?thesis using decode_scalar1 [OF 1] by (simp add: utf8_bytes_def utf16_units_def del: decode_units.simps)
  next
    case 2
    then show ?thesis using decode_scalar2 [OF 2] by (simp add: utf8_bytes_def del: decode_units.simps)
  next
    case 3
    then show ?thesis using decode_scalar3 [OF 3 assms] by (simp add: utf8_bytes_def del: decode_units.simps)
  next
    case 4
    then show ?thesis using decode_scalar4 [OF 4 assms] by (simp add: utf8_bytes_def del: decode_units.simps)
  qed
qed

lemma decode_utf8_of: "(\<forall>cp\<in>set cps. scalar cp) \<Longrightarrow> decode_units (utf8_of cps) = Some (utf16_of cps)"
  by (induction cps) (auto simp: decode_scalar)

text \<open>Conversely, an accepted sequence is the encoding of the scalar value it yields.\<close>

lemma continuation_length1: "length cs = 1 \<Longrightarrow> continuation c cs = Some cp \<longleftrightarrow>
    (\<exists>b. cs = [b] \<and> b div 64 = 2 \<and> cp = c * 64 + b mod 64)"
  by (cases cs) auto

lemma continuation_length2: "length cs = 2 \<Longrightarrow> continuation c cs = Some cp \<longleftrightarrow>
    (\<exists>a b. cs = [a, b] \<and> a div 64 = 2 \<and> b div 64 = 2 \<and> cp = (c * 64 + a mod 64) * 64 + b mod 64)"
  by (cases cs; cases "tl cs") auto

lemma continuation_length3: "length cs = 3 \<Longrightarrow> continuation c cs = Some cp \<longleftrightarrow>
    (\<exists>a b d. cs = [a, b, d] \<and> a div 64 = 2 \<and> b div 64 = 2 \<and> d div 64 = 2 \<and>
       cp = ((c * 64 + a mod 64) * 64 + b mod 64) * 64 + d mod 64)"
  by (cases cs; cases "tl cs"; cases "tl (tl cs)") auto

lemma accepted_sequence:
  assumes lead: "utf8_lead l = Some (c, len)" and len: "length cs = len - 1"
    and cont: "continuation c cs = Some cp" and good: "\<not> bad_scalar len cp"
  shows "utf8_bytes cp = l # cs \<and> scalar cp"
proof -
  have sc: "scalar cp" using good by (auto simp: bad_scalar_def scalar_def)
  consider "l < 0x80" "c = l" "len = 1"
    | "l div 32 = 6" "c = l mod 32" "len = 2"
    | "l div 16 = 14" "c = l mod 16" "len = 3"
    | "l div 8 = 30" "c = l mod 8" "len = 4"
    using lead by (auto simp: utf8_lead_def split: if_splits)
  then have "utf8_bytes cp = l # cs"
  proof cases
    case 1
    then show ?thesis using len cont by (auto simp: utf8_bytes_def)
  next
    case 2
    then obtain b where b: "cs = [b]" "b div 64 = 2" "cp = c * 64 + b mod 64"
      using len cont by (auto simp: continuation_length1)
    have "cp div 64 = c" "cp mod 64 = b mod 64" using b(3) by auto
    moreover have "0xC0 + c = l" "0x80 + b mod 64 = b" using div_mod_join [OF 2(1)] div_mod_join [OF b(2)] 2(2) by simp_all
    moreover have "0x80 \<le> cp" "cp < 0x800" using good 2 b(3) by (auto simp: bad_scalar_def)
    ultimately show ?thesis by (simp add: utf8_bytes_def b(1))
  next
    case 3
    then obtain a b where b: "cs = [a, b]" "a div 64 = 2" "b div 64 = 2"
        "cp = (c * 64 + a mod 64) * 64 + b mod 64"
      using len cont by (auto simp: continuation_length2)
    have "cp div 64 = c * 64 + a mod 64" "cp mod 64 = b mod 64"
      unfolding b(4) using add_div_mod [OF mod_64_less] by blast+
    moreover from this have "cp div 64 mod 64 = a mod 64" "cp div 64 div 64 = c"
      using add_div_mod [OF mod_64_less] by metis+
    moreover from this have "cp div 4096 = c" by (simp only: div_4096)
    moreover have "0xE0 + c = l" "0x80 + a mod 64 = a" "0x80 + b mod 64 = b" 
      using div_mod_join [OF 3(1)] div_mod_join [OF b(2)] div_mod_join [OF b(3)] 3(2) by simp_all
    moreover have "c < 16" using 3 by simp
    moreover have "0x800 \<le> cp" "cp < 0x10000" using good 3 \<open>cp div 4096 = c\<close> \<open>c < 16\<close>
      by (auto simp: bad_scalar_def)
    ultimately show ?thesis by (simp add: utf8_bytes_def b(1))
  next
    case 4
    then obtain a b d where b: "cs = [a, b, d]" "a div 64 = 2" "b div 64 = 2" "d div 64 = 2"
        "cp = ((c * 64 + a mod 64) * 64 + b mod 64) * 64 + d mod 64"
      using len cont by (auto simp: continuation_length3)
    have q1: "cp div 64 = (c * 64 + a mod 64) * 64 + b mod 64" "cp mod 64 = d mod 64"
      unfolding b(5) using add_div_mod [OF mod_64_less] by blast+
    then have q2: "cp div 64 mod 64 = b mod 64" "cp div 64 div 64 = c * 64 + a mod 64"
      using add_div_mod [OF mod_64_less] by metis+
    then have q3: "cp div 4096 = c * 64 + a mod 64" by (simp only: div_4096)
    then have q4: "cp div 4096 mod 64 = a mod 64" "cp div 64 div 64 div 64 = c"
      unfolding div_4096 using add_div_mod [OF mod_64_less] by metis+
    then have q5: "cp div 262144 = c" by (simp only: div_262144)
    have "0xF0 + c = l" "0x80 + a mod 64 = a" "0x80 + b mod 64 = b" "0x80 + d mod 64 = d"
      using div_mod_join [OF 4(1)] div_mod_join [OF b(2)] div_mod_join [OF b(3)] div_mod_join [OF b(4)] 4(2)
      by simp_all
    moreover have "0x10000 \<le> cp" using good 4 by (auto simp: bad_scalar_def)
    ultimately show ?thesis using q1(2) q2(1) q4(1) q5 by (simp add: utf8_bytes_def b(1))
  qed
  then show ?thesis using sc by simp
qed

lemma decode_units_scalars:
  assumes "decode_units bs = Some us"
  shows "\<exists>cps. (\<forall>cp\<in>set cps. scalar cp) \<and> bs = utf8_of cps \<and> us = utf16_of cps"
  using assms
proof (induction bs arbitrary: us rule: decode_units.induct)
  case 1
  then show ?case by (auto intro!: exI [of _ "[]"])
next
  case (2 lead rest)
  obtain c len cp us' where lead: "utf8_lead lead = Some (c, len)" and len: "len \<le> Suc (length rest)"
    and cont: "continuation c (take (len - 1) rest) = Some cp" and good: "\<not> bad_scalar len cp"
    and us': "decode_units (drop (len - 1) rest) = Some us'" and us: "us = utf16_units cp @ us'"
    using "2.prems" by (auto split: option.splits if_splits)
  obtain cps where cps: "\<forall>cp\<in>set cps. scalar cp" "drop (len - 1) rest = utf8_of cps" "us' = utf16_of cps"
    using "2.IH" [OF lead refl _ cont good us'] len by auto
  have "length (take (len - 1) rest) = len - 1" using len by simp
  then have acc: "utf8_bytes cp = lead # take (len - 1) rest" "scalar cp"
    using accepted_sequence [OF lead _ cont good] by auto
  have "lead # rest = utf8_bytes cp @ drop (len - 1) rest" by (simp add: acc)
  then show ?case using cps acc(2) us by (intro exI [of _ "cp # cps"]) simp
qed

section \<open>Round trips\<close>

lemma utf8_of_bytes: "\<forall>cp\<in>set cps. scalar cp \<Longrightarrow> \<forall>b\<in>set (utf8_of cps). b < 256"
  by (induction cps) (auto simp: utf8_bytes_def scalar_def)

lemma utf16_of_units: "\<forall>cp\<in>set cps. scalar cp \<Longrightarrow> \<forall>u\<in>set (utf16_of cps). u < 0x10000"
proof (induction cps)
  case (Cons c cs)
  have "(c - 0x10000) div 1024 < 1024" if "c \<le> 0x10FFFF"
    using that by auto
  then show ?case using Cons by (auto simp: utf16_units_def scalar_def Let_def)
qed simp

lemma map_of_char_char_of: "\<forall>b\<in>set bs. b < 256 \<Longrightarrow> map of_char (map char_of bs) = (bs :: nat list)"
  by (induction bs) auto

lemma map_char_of_of_char: "map char_of (map of_char s :: nat list) = s"
  by (induction s) auto

lemma decode_utf8_spec:
  "decode_utf8 s = Some us \<longleftrightarrow>
     (\<exists>cps. (\<forall>cp\<in>set cps. scalar cp) \<and> map of_char s = utf8_of cps \<and> us = utf16_of cps)"
  by (auto simp: decode_utf8_def decode_utf8_of dest: decode_units_scalars)

lemma encode_utf8_spec:
  assumes "\<forall>u\<in>set us. u < 0x10000"
  shows "encode_utf8 us = Some s \<longleftrightarrow>
     (\<exists>cps. (\<forall>cp\<in>set cps. scalar cp) \<and> us = utf16_of cps \<and> map of_char s = utf8_of cps)"
proof
  assume "encode_utf8 us = Some s"
  then obtain bs where bs: "encode_units us = Some bs" and s: "s = map char_of bs"
    by (auto simp: encode_utf8_def)
  then show "\<exists>cps. (\<forall>cp\<in>set cps. scalar cp) \<and> us = utf16_of cps \<and> map of_char s = utf8_of cps"
    using encode_units_scalars [OF bs assms] by (metis map_of_char_char_of utf8_of_bytes)
next
  assume "\<exists>cps. (\<forall>cp\<in>set cps. scalar cp) \<and> us = utf16_of cps \<and> map of_char s = utf8_of cps"
  then obtain cps where cps: "\<forall>cp\<in>set cps. scalar cp" "us = utf16_of cps" "map of_char s = utf8_of cps"
    by blast
  then have "encode_utf8 us = Some (map char_of (map of_char s :: nat list))"
    by (simp add: encode_utf8_def encode_utf16_of)
  then show "encode_utf8 us = Some s" by (simp only: map_char_of_of_char)
qed

lemma decode_units_bounded: "decode_utf8 s = Some us \<Longrightarrow> \<forall>u\<in>set us. u < 0x10000"
  using utf16_of_units by (auto simp: decode_utf8_spec)

lemma encode_decode: "decode_utf8 s = Some us \<Longrightarrow> encode_utf8 us = Some s"
  using encode_utf8_spec [OF decode_units_bounded] by (auto simp: decode_utf8_spec)

lemma decode_encode: "\<forall>u\<in>set us. u < 0x10000 \<Longrightarrow> encode_utf8 us = Some s \<Longrightarrow> decode_utf8 s = Some us"
  by (auto simp: encode_utf8_spec decode_utf8_spec)

section \<open>Cutting code units\<close>

lemma scalar_units:
  assumes "scalar cp"
  shows "utf16_units cp = [cp] \<and> \<not> is_high_surrogate cp \<and> \<not> is_low_surrogate cp \<or>
    (\<exists>u v. utf16_units cp = [u, v] \<and> is_high_surrogate u \<and> is_low_surrogate v)"
proof (cases "cp \<le> 0xFFFF")
  case True
  then show ?thesis using assms
    by (auto simp: utf16_units_def scalar_def is_high_surrogate_def is_low_surrogate_def)
next
  case False
  define a where "a = cp - 0x10000"
  have "a < 0x100000" using assms False by (simp add: a_def scalar_def)
  then have "a div 1024 < 1024" by auto
  then show ?thesis using False mod_less_divisor [of 1024 a]
    by (auto simp: utf16_units_def Let_def a_def [symmetric] is_high_surrogate_def is_low_surrogate_def)
qed

text \<open>A cut that splits no surrogate pair is a cut between two scalar values.\<close>

definition splits_pair :: "nat list \<Rightarrow> nat \<Rightarrow> bool" where
  "splits_pair us n \<longleftrightarrow>
     0 < n \<and> n < length us \<and> is_high_surrogate (us ! (n - 1)) \<and> is_low_surrogate (us ! n)"

lemma cut_between_scalars:
  assumes "\<forall>cp\<in>set cps. scalar cp" "\<not> splits_pair (utf16_of cps) n"
  shows "\<exists>as bs. cps = as @ bs \<and> take n (utf16_of cps) = utf16_of as \<and> drop n (utf16_of cps) = utf16_of bs"
  using assms
proof (induction cps arbitrary: n)
  case Nil
  then show ?case by simp
next
  case (Cons c cs)
  show ?case
  proof (cases "n = 0")
    case True
    then show ?thesis by (intro exI [of _ "[]"] exI [of _ "c # cs"]) simp
  next
    case False
    have len: "n \<ge> length (utf16_units c)"
    proof (rule ccontr)
      assume "\<not> length (utf16_units c) \<le> n"
      then obtain u v where "utf16_units c = [u, v]" "is_high_surrogate u" "is_low_surrogate v" "n = 1"
        using scalar_units [of c] Cons.prems(1) False by (cases n) auto
      then show False using Cons.prems(2) by (simp add: splits_pair_def)
    qed
    have "\<not> splits_pair (utf16_of cs) (n - length (utf16_units c))"
    proof
      assume sp: "splits_pair (utf16_of cs) (n - length (utf16_units c))"
      then have "length (utf16_units c) < n" by (simp add: splits_pair_def)
      then have "splits_pair (utf16_of (c # cs)) n"
        using sp by (auto simp: splits_pair_def nth_append diff_commute less_diff_conv2)
      then show False using Cons.prems(2) by simp
    qed
    from Cons.IH [OF _ this] Cons.prems(1) obtain as bs where "cs = as @ bs"
        "take (n - length (utf16_units c)) (utf16_of cs) = utf16_of as"
        "drop (n - length (utf16_units c)) (utf16_of cs) = utf16_of bs"
      by auto
    then show ?thesis using len by (intro exI [of _ "c # as"] exI [of _ bs]) simp
  qed
qed

section \<open>Overlap of a suffix and a prefix\<close>

text \<open>\<^verbatim>\<open>basic_string_view::find(head, from)\<close>: the first occurrence at or after a position.\<close>

definition find_from :: "'a list \<Rightarrow> 'a list \<Rightarrow> nat \<Rightarrow> nat option" where
  "find_from txt head start =
     List.find (\<lambda>p. p + length head \<le> length txt \<and> take (length head) (drop p txt) = head)
       [start..<Suc (length txt)]"

text \<open>
  The candidate loop of \<open>overlap_units\<close>; the first argument is the number of candidates
  that may still be tried, which the source counts up to \<open>max_candidates\<close>.
\<close>

fun overlap_scan :: "nat \<Rightarrow> 'a list \<Rightarrow> 'a list \<Rightarrow> 'a list \<Rightarrow> nat \<Rightarrow> nat option" where
  "overlap_scan 0 tail b head start = None"
| "overlap_scan (Suc tries) tail b head start =
     (case find_from tail head start of
        None \<Rightarrow> None
      | Some position \<Rightarrow>
          (let len = length tail - position
           in if len \<le> length b \<and> drop position tail = take len b then Some len
              else overlap_scan tries tail b head (Suc position)))"

definition overlap_units :: "'a list \<Rightarrow> 'a list \<Rightarrow> nat \<Rightarrow> nat \<Rightarrow> nat \<Rightarrow> nat" where
  "overlap_units a b scan probe max_candidates =
     (if a = [] \<or> b = [] \<or> scan = 0 then 0
      else
        let tail = (if scan < length a then drop (length a - scan) a else a);
            first = min probe (length b);
            probed = (if first = 0 then None
                      else overlap_scan max_candidates tail b (take first b) 0)
        in (case probed of
              Some len \<Rightarrow> len
            | None \<Rightarrow>
                if first = 1 then 0
                else (case overlap_scan max_candidates tail b (take 1 b) 0 of
                        Some len \<Rightarrow> len
                      | None \<Rightarrow> 0)))"

definition overlap :: "string \<Rightarrow> string \<Rightarrow> nat \<Rightarrow> nat \<Rightarrow> nat \<Rightarrow> nat" where
  "overlap a b scan probe max_candidates =
     (if a = [] \<or> b = [] \<or> scan = 0 then 0
      else (case (decode_utf8 a, decode_utf8 b) of
              (Some a_units, Some b_units) \<Rightarrow> overlap_units a_units b_units scan probe max_candidates
            | _ \<Rightarrow> 0))"

lemma overlap_scan_sound:
  "overlap_scan tries tail b head start = Some n \<Longrightarrow>
   n \<le> length tail \<and> n \<le> length b \<and> drop (length tail - n) tail = take n b"
proof (induction tries arbitrary: start)
  case (Suc tries)
  then obtain p where p: "find_from tail head start = Some p" by (auto split: option.splits)
  then have "p \<le> length tail" by (auto simp: find_from_def find_Some_iff simp del: upt_Suc)
  then show ?case using Suc p by (auto simp: Let_def split: if_splits)
qed simp

lemma overlap_units_sound:
  assumes "overlap_units a b scan probe max_candidates = n"
  shows "n \<le> length a \<and> n \<le> length b \<and> drop (length a - n) a = take n b"
proof -
  define tail where "tail = (if scan < length a then drop (length a - scan) a else a)"
  have suffix: "length tail \<le> length a \<and> tail = drop (length a - length tail) a"
    by (simp add: tail_def)
  have lift: ?thesis if "overlap_scan max_candidates tail b head 0 = Some n" for head
  proof -
    have n: "n \<le> length tail" "n \<le> length b" "drop (length tail - n) tail = take n b"
      using overlap_scan_sound [OF that] by auto
    have "drop (length tail - n) tail = drop (length tail - n) (drop (length a - length tail) a)"
      using suffix by metis
    also have "\<dots> = drop (length a - n) a" using n(1) suffix unfolding drop_drop by (metis diff_add_assoc2 le_add_diff_inverse add.commute diff_add_inverse2 Nat.add_diff_assoc)
    finally show ?thesis using n suffix by simp
  qed
  have "?thesis" if "n = 0" using that by simp
  then show ?thesis using assms lift
    by (auto simp: overlap_units_def tail_def [symmetric] Let_def split: if_splits option.splits)
qed

section \<open>Properties\<close>

text \<open>
  The decoder accepts exactly the byte strings that are the UTF-8 form of a sequence of
  Unicode scalar values (no surrogates, nothing overlong, nothing beyond U+10FFFF), and
  returns that sequence's UTF-16 units.
\<close>

theorem decode_utf8_exact:
  "decode_utf8 s = Some us \<longleftrightarrow>
     (\<exists>cps. (list_all scalar cps) \<and> map of_char s = utf8_of cps \<and> us = utf16_of cps)"
  by (simp add: decode_utf8_spec list_all_iff)

text \<open>Decoding and encoding are inverse to each other on everything they accept.\<close>

theorem utf8_utf16_round_trip:
  "(decode_utf8 s = Some us \<longrightarrow> encode_utf8 us = Some s) \<and>
   (list_all (\<lambda>u. u < 0x10000) us \<longrightarrow> encode_utf8 us = Some s \<longrightarrow> decode_utf8 s = Some us)"
  using encode_decode [of s us] decode_encode [of us s] by (simp add: list_all_iff)

theorem utf8_utf16_round_trip_witness:
  "encode_utf8 [0x41, 0xD83D, 0xDE00] = Some (map char_of [0x41, 0xF0, 0x9F, 0x98, 0x80 :: nat]) \<and>
   decode_utf8 (map char_of [0x41, 0xF0, 0x9F, 0x98, 0x80 :: nat]) = Some [0x41, 0xD83D, 0xDE00]"
proof -
  have enc: "encode_utf8 [0x41, 0xD83D, 0xDE00] = Some (map char_of [0x41, 0xF0, 0x9F, 0x98, 0x80 :: nat])"
    by (simp add: encode_utf8_def utf8_bytes_def is_high_surrogate_def is_low_surrogate_def)
  moreover have "list_all (\<lambda>u. u < 0x10000) [0x41, 0xD83D, 0xDE00 :: nat]" by simp
  ultimately show ?thesis
    using utf8_utf16_round_trip [of "map char_of [0x41, 0xF0, 0x9F, 0x98, 0x80 :: nat]" "[0x41, 0xD83D, 0xDE00]"]
    by blast
qed

text \<open>
  The overlap search never claims more than there is: the length it returns is a
  length of both sequences, and that suffix of the first is that prefix of the second.
\<close>

theorem overlap_is_real:
  "overlap_units a b scan probe max_candidates \<le> length a \<and>
   overlap_units a b scan probe max_candidates \<le> length b \<and>
   drop (length a - overlap_units a b scan probe max_candidates) a =
     take (overlap_units a b scan probe max_candidates) b"
  using overlap_units_sound by blast

end
