(* ===== verification/Delta.thy ===== *)
theory Delta
  imports Chord_Json Utf16
begin

text \<open>
  \<^verbatim>\<open>src/src/chord/Delta.cpp\<close> with the types of \<^verbatim>\<open>Delta.hpp\<close>: paths into a JSON
  value, the seven delta operations, reading, writing and erasing at a path, validation,
  decoding of the tuple form, and the two appliers. The laws the users of path access rely
  on are the locale \<open>path_store\<close>; running a batch is an instance of the prelude's
  \<open>fallible_steps\<close>. Errors keep the source's distinctions: one constructor per message
  (or message prefix) the code builds. Indices and counts are \<^verbatim>\<open>size_t\<close>; the code never
  adds to one, so they are natural numbers, and the one conversion that saturates says so.
\<close>

section \<open>Data\<close>

datatype segment = PathKey string | PathIndex nat

type_synonym path = "segment list"

datatype op =
    ReplaceOp json
  | SetOp path json
  | DeleteOp path
  | AppendOp path string
  | TruncateOp path nat
  | SpliceOp path nat nat "json list"
  | MoveOp path "nat list"

datatype delta_error =
    UnresolvablePath path
  | UnsafeKey string
  | UnsafeIndex nat
  | UnsafeSegment json
  | PathNotArray
  | PathEmpty
  | NotBijection
  | InvalidUtf8
  | InvalidUtf16
  | SplitsSurrogatePair
  | OpNotTuple
  | UnknownVerb json
  | BadShape string
  | BatchNotArray

section \<open>Paths\<close>

definition is_reserved_segment :: "string \<Rightarrow> bool" where
  "is_reserved_segment key \<longleftrightarrow> key = ''__proto__'' \<or> key = ''constructor'' \<or> key = ''prototype''"

fun path_is_prefix :: "path \<Rightarrow> path \<Rightarrow> bool" where
  "path_is_prefix [] path = True"
| "path_is_prefix (s # prefix) [] = False"
| "path_is_prefix (s # prefix) (t # path) =
     (case (s, t) of
        (PathKey a, PathKey b) \<Rightarrow> a = b \<and> path_is_prefix prefix path
      | (PathIndex a, PathIndex b) \<Rightarrow> a = b \<and> path_is_prefix prefix path
      | _ \<Rightarrow> False)"

fun validate_segment :: "segment \<Rightarrow> (delta_error, unit) result" where
  "validate_segment (PathKey key) = (if is_reserved_segment key then Inl (UnsafeKey key) else Inr ())"
| "validate_segment (PathIndex _) = Inr ()"

definition validate_safe_path :: "path \<Rightarrow> (delta_error, unit) result" where
  "validate_safe_path path = check_r validate_segment path"

fun validate_permutation_loop :: "nat \<Rightarrow> bool list \<Rightarrow> nat list \<Rightarrow> (delta_error, unit) result" where
  "validate_permutation_loop n seen [] = Inr ()"
| "validate_permutation_loop n seen (index # rest) =
     (if n \<le> index \<or> seen ! index then Inl NotBijection
      else validate_permutation_loop n (seen[index := True]) rest)"

definition validate_permutation :: "nat list \<Rightarrow> (delta_error, unit) result" where
  "validate_permutation permutation =
     validate_permutation_loop (length permutation) (replicate (length permutation) False) permutation"

definition path_is_identity_permutation :: "nat list \<Rightarrow> bool" where
  "path_is_identity_permutation permutation \<longleftrightarrow>
     list_all (\<lambda>index. permutation ! index = index) [0..<length permutation]"

section \<open>Reading and writing at a path\<close>

fun try_get_path :: "json \<Rightarrow> path \<Rightarrow> json option" where
  "try_get_path doc [] = Some doc"
| "try_get_path doc (PathKey key # rest) =
     (case as_object doc of
        None \<Rightarrow> None
      | Some ob \<Rightarrow>
          (case find_member ob key of None \<Rightarrow> None | Some child \<Rightarrow> try_get_path child rest))"
| "try_get_path doc (PathIndex position # rest) =
     (case as_array doc of
        None \<Rightarrow> None
      | Some arr \<Rightarrow>
          if length arr \<le> position then None else try_get_path (arr ! position) rest)"

definition get_path :: "json \<Rightarrow> path \<Rightarrow> (delta_error, json) result" where
  "get_path doc path =
     (case try_get_path doc path of None \<Rightarrow> Inl (UnresolvablePath path) | Some v \<Rightarrow> Inr v)"

text \<open>
  \<open>set_path\<close> recurses with an offset into the whole path, which its errors name; here
  the whole path is the first argument and the part from the offset on the third. Storing a
  child under an existing key is \<open>insert_or_assign\<close>, which keeps the position.
\<close>

fun set_path_from :: "path \<Rightarrow> json \<Rightarrow> path \<Rightarrow> json \<Rightarrow> (delta_error, json) result" where
  "set_path_from whole doc [] v = Inr v"
| "set_path_from whole doc (PathKey key # rest) v =
     (case as_object doc of
        None \<Rightarrow> Inl (UnresolvablePath whole)
      | Some ob \<Rightarrow>
          if rest = [] then Inr (JObj (insert_or_assign ob key v))
          else (case find_member ob key of
                  None \<Rightarrow> Inl (UnresolvablePath whole)
                | Some child \<Rightarrow>
                    (case set_path_from whole child rest v of
                       Inl e \<Rightarrow> Inl e
                     | Inr child' \<Rightarrow> Inr (JObj (insert_or_assign ob key child')))))"
| "set_path_from whole doc (PathIndex position # rest) v =
     (case as_array doc of
        None \<Rightarrow> Inl (UnresolvablePath whole)
      | Some arr \<Rightarrow>
          if length arr < position then Inl (UnsafeIndex position)
          else if rest = [] then
            Inr (JArr (if position = length arr then arr @ [v] else arr[position := v]))
          else if position = length arr then Inl (UnresolvablePath whole)
          else (case set_path_from whole (arr ! position) rest v of
                  Inl e \<Rightarrow> Inl e
                | Inr child' \<Rightarrow> Inr (JArr (arr[position := child']))))"

definition set_path :: "json \<Rightarrow> path \<Rightarrow> json \<Rightarrow> (delta_error, json) result" where
  "set_path doc path v = set_path_from path doc path v"

text \<open>\<open>erase_path\<close> also reports whether anything changed.\<close>

fun erase_path_from :: "path \<Rightarrow> json \<Rightarrow> path \<Rightarrow> (delta_error, json \<times> bool) result" where
  "erase_path_from whole doc [] = Inl (UnresolvablePath whole)"
| "erase_path_from whole doc (PathKey key # rest) =
     (case as_object doc of
        None \<Rightarrow> Inl (UnresolvablePath whole)
      | Some ob \<Rightarrow>
          if rest = [] then
            (case find_member ob key of
               None \<Rightarrow> Inr (doc, False)
             | Some _ \<Rightarrow> Inr (JObj (fst (erase_key ob key)), True))
          else (case find_member ob key of
                  None \<Rightarrow> Inl (UnresolvablePath whole)
                | Some child \<Rightarrow>
                    (case erase_path_from whole child rest of
                       Inl e \<Rightarrow> Inl e
                     | Inr (child', changed) \<Rightarrow> Inr (JObj (insert_or_assign ob key child'), changed))))"
| "erase_path_from whole doc (PathIndex position # rest) =
     (case as_array doc of
        None \<Rightarrow> Inl (UnresolvablePath whole)
      | Some arr \<Rightarrow>
          if length arr \<le> position then Inl (UnresolvablePath whole)
          else if rest = [] then Inr (JArr (take position arr @ drop (Suc position) arr), True)
          else (case erase_path_from whole (arr ! position) rest of
                  Inl e \<Rightarrow> Inl e
                | Inr (child', changed) \<Rightarrow> Inr (JArr (arr[position := child']), changed)))"

definition erase_path :: "json \<Rightarrow> path \<Rightarrow> (delta_error, json \<times> bool) result" where
  "erase_path doc path = erase_path_from path doc path"

definition append_string_path :: "json \<Rightarrow> path \<Rightarrow> string \<Rightarrow> (delta_error, json) result" where
  "append_string_path doc path txt =
     (case get_path doc path of
        Inl e \<Rightarrow> Inl e
      | Inr current \<Rightarrow>
          (case as_string current of
             None \<Rightarrow> Inl (UnresolvablePath path)
           | Some str \<Rightarrow> set_path doc path (JStr (str @ txt))))"

definition truncate_front_utf16 :: "string \<Rightarrow> nat \<Rightarrow> (delta_error, string) result" where
  "truncate_front_utf16 txt count =
     (if count = 0 then Inr txt
      else (case decode_utf8 txt of
              None \<Rightarrow> Inl InvalidUtf8
            | Some units \<Rightarrow>
                if length units \<le> count then Inr []
                else if is_high_surrogate (units ! (count - 1)) \<and> is_low_surrogate (units ! count)
                then Inl SplitsSurrogatePair
                else (case encode_utf8 (drop count units) of
                        None \<Rightarrow> Inl InvalidUtf16
                      | Some encoded \<Rightarrow> Inr encoded)))"

definition truncate_string_path :: "json \<Rightarrow> path \<Rightarrow> nat \<Rightarrow> (delta_error, json) result" where
  "truncate_string_path doc path count =
     (case get_path doc path of
        Inl e \<Rightarrow> Inl e
      | Inr current \<Rightarrow>
          (case as_string current of
             None \<Rightarrow> Inl (UnresolvablePath path)
           | Some str \<Rightarrow>
               (case truncate_front_utf16 str count of
                  Inl e \<Rightarrow> Inl e
                | Inr truncated \<Rightarrow> set_path doc path (JStr truncated))))"

text \<open>The clamped splice of one array.\<close>

definition splice_list :: "'a list \<Rightarrow> nat \<Rightarrow> nat \<Rightarrow> 'a list \<Rightarrow> 'a list" where
  "splice_list arr index remove items = take index arr @ items @ drop (index + remove) arr"

definition effective_index :: "'a list \<Rightarrow> nat \<Rightarrow> nat" where
  "effective_index arr index = min index (length arr)"

definition effective_remove :: "'a list \<Rightarrow> nat \<Rightarrow> nat \<Rightarrow> nat" where
  "effective_remove arr index remove = min remove (length arr - effective_index arr index)"

text \<open>Writing the new array back: the root itself for the empty path.\<close>

definition put_array :: "json \<Rightarrow> path \<Rightarrow> json list \<Rightarrow> (delta_error, json) result" where
  "put_array doc path updated =
     (if path = [] then Inr (JArr updated) else set_path doc path (JArr updated))"

definition splice_path ::
    "json \<Rightarrow> path \<Rightarrow> nat \<Rightarrow> nat \<Rightarrow> json list \<Rightarrow> (delta_error, json \<times> nat \<times> nat) result" where
  "splice_path doc path index remove items =
     (case get_path doc path of
        Inl e \<Rightarrow> Inl e
      | Inr target \<Rightarrow>
          (case as_array target of
             None \<Rightarrow> Inl (UnresolvablePath path)
           | Some arr \<Rightarrow>
               let ei = effective_index arr index;
                   er = effective_remove arr index remove
               in (case put_array doc path (splice_list arr ei er items) of
                     Inl e \<Rightarrow> Inl e
                   | Inr doc' \<Rightarrow> Inr (doc', ei, er))))"

definition move_path :: "json \<Rightarrow> path \<Rightarrow> nat list \<Rightarrow> (delta_error, json) result" where
  "move_path doc path permutation =
     (case get_path doc path of
        Inl e \<Rightarrow> Inl e
      | Inr target \<Rightarrow>
          (case as_array target of
             None \<Rightarrow> Inl (UnresolvablePath path)
           | Some arr \<Rightarrow>
               if length arr \<noteq> length permutation then Inl (UnresolvablePath path)
               else if \<exists>index\<in>set permutation. length arr \<le> index then Inl NotBijection
               else put_array doc path (map (\<lambda>index. arr ! index) permutation)))"

section \<open>Validation and application\<close>

definition is_replace :: "op \<Rightarrow> bool" where
  "is_replace opn \<longleftrightarrow> (case opn of ReplaceOp _ \<Rightarrow> True | _ \<Rightarrow> False)"

definition is_base :: "op list \<Rightarrow> bool" where
  "is_base ops \<longleftrightarrow> ops \<noteq> [] \<and> is_replace (hd ops)"

definition validate_nonempty_path :: "path \<Rightarrow> (delta_error, unit) result" where
  "validate_nonempty_path path = (if path = [] then Inl PathEmpty else validate_safe_path path)"

fun validate_op :: "op \<Rightarrow> (delta_error, unit) result" where
  "validate_op (ReplaceOp _) = Inr ()"
| "validate_op (SpliceOp path _ _ _) = validate_safe_path path"
| "validate_op (MoveOp path permutation) =
     (case validate_safe_path path of Inl e \<Rightarrow> Inl e | Inr _ \<Rightarrow> validate_permutation permutation)"
| "validate_op (SetOp path _) = validate_nonempty_path path"
| "validate_op (DeleteOp path) = validate_nonempty_path path"
| "validate_op (AppendOp path _) = validate_nonempty_path path"
| "validate_op (TruncateOp path _) = validate_nonempty_path path"

definition validate_batch :: "op list \<Rightarrow> (delta_error, unit) result" where
  "validate_batch ops = check_r validate_op ops"

text \<open>The visitor of \<open>apply_immutable\<close>: one operation on the current root.\<close>

fun apply_op :: "json \<Rightarrow> op \<Rightarrow> (delta_error, json) result" where
  "apply_op doc (ReplaceOp v) = Inr v"
| "apply_op doc (SetOp path v) = set_path doc path v"
| "apply_op doc (DeleteOp path) = bind_r (erase_path doc path) (\<lambda>(doc', _). Inr doc')"
| "apply_op doc (AppendOp path txt) = append_string_path doc path txt"
| "apply_op doc (TruncateOp path count) = truncate_string_path doc path count"
| "apply_op doc (SpliceOp path index remove items) =
     bind_r (splice_path doc path index remove items) (\<lambda>(doc', _). Inr doc')"
| "apply_op doc (MoveOp path permutation) = move_path doc path permutation"

definition apply_immutable :: "json \<Rightarrow> op list \<Rightarrow> (delta_error, json) result" where
  "apply_immutable target ops =
     (case validate_batch ops of Inl e \<Rightarrow> Inl e | Inr _ \<Rightarrow> fold_r apply_op target ops)"

definition apply_immutable_batches :: "json \<Rightarrow> op list list \<Rightarrow> (delta_error, json) result" where
  "apply_immutable_batches target batches = fold_r apply_immutable target batches"

text \<open>
  \<open>Applier\<close>: the sequential applier behind the mutating entry points. It keeps the
  caller's value and the adopted root apart; once the root was replaced, the caller's value
  is no longer written.
\<close>

record applier =
  target :: json
  adopted :: json
  root_replaced :: bool

definition applier_init :: "json \<Rightarrow> applier" where
  "applier_init t = \<lparr>target = t, adopted = t, root_replaced = False\<rparr>"

definition applier_step :: "applier \<Rightarrow> op \<Rightarrow> (delta_error, applier) result" where
  "applier_step a opn =
     (case validate_op opn of
        Inl e \<Rightarrow> Inl e
      | Inr _ \<Rightarrow>
          (case apply_immutable (adopted a) [opn] of
             Inl e \<Rightarrow> Inl e
           | Inr next_root \<Rightarrow>
               let a' = a\<lparr>adopted := next_root\<rparr>
               in if is_replace opn then Inr (a'\<lparr>root_replaced := True\<rparr>)
                  else if \<not> root_replaced a' then Inr (a'\<lparr>target := adopted a'\<rparr>)
                  else Inr a'))"

text \<open>
  The loop of \<open>apply\<close>: it returns the outcome together with the caller's value as the
  loop leaves it, which a failure does not roll back.
\<close>

fun applier_run :: "applier \<Rightarrow> op list \<Rightarrow> (delta_error, json) result \<times> json" where
  "applier_run a [] = (Inr (adopted a), target a)"
| "applier_run a (opn # ops) =
     (case applier_step a opn of
        Inl e \<Rightarrow> (Inl e, target a)
      | Inr a' \<Rightarrow> applier_run a' ops)"

definition apply_ops :: "json \<Rightarrow> op list \<Rightarrow> (delta_error, json) result \<times> json" where
  "apply_ops t ops = applier_run (applier_init t) ops"

section \<open>The tuple form\<close>

text \<open>\<^verbatim>\<open>std::numeric_limits<std::size_t>::max()\<close>; as a double it rounds to $2^{64}$.\<close>

definition size_max :: nat where
  "size_max = 2 ^ 64 - 1"

text \<open>An index or count: any integral double at or above zero; a larger one saturates.\<close>

definition decoded_size :: "json \<Rightarrow> nat option" where
  "decoded_size v =
     (case as_number v of
        None \<Rightarrow> None
      | Some d \<Rightarrow>
          (case dbl_value d of
             None \<Rightarrow> None
           | Some q \<Rightarrow>
               if of_int \<lfloor>q\<rfloor> \<noteq> q \<or> q < 0 then None
               else if 2 ^ 64 \<le> q then Some size_max
               else Some (nat \<lfloor>q\<rfloor>)))"

definition decode_segment :: "json \<Rightarrow> (delta_error, segment) result" where
  "decode_segment segment =
     (case as_string segment of
        Some key \<Rightarrow>
          if is_reserved_segment key then Inl (UnsafeKey key) else Inr (PathKey key)
      | None \<Rightarrow>
          (case decoded_size segment of
             None \<Rightarrow> Inl (UnsafeSegment segment)
           | Some index \<Rightarrow> Inr (PathIndex index)))"

definition decode_path :: "json \<Rightarrow> bool \<Rightarrow> (delta_error, path) result" where
  "decode_path v allow_empty =
     (case as_array v of
        None \<Rightarrow> Inl PathNotArray
      | Some segments \<Rightarrow>
          if \<not> allow_empty \<and> segments = [] then Inl PathEmpty
          else map_r decode_segment segments)"

definition decode_index :: "json \<Rightarrow> (delta_error, nat) result" where
  "decode_index entry =
     (case decoded_size entry of None \<Rightarrow> Inl NotBijection | Some index \<Rightarrow> Inr index)"

text \<open>The branches of \<open>decode_op\<close> after the verb was read; \<open>parts\<close> is the whole tuple.\<close>

definition decode_replace :: "json list \<Rightarrow> (delta_error, op) result" where
  "decode_replace parts =
     (if length parts \<noteq> 2 then Inl (BadShape ''r arity'') else Inr (ReplaceOp (parts ! 1)))"

definition decode_set :: "json list \<Rightarrow> (delta_error, op) result" where
  "decode_set parts =
     (if length parts \<noteq> 3 then Inl (BadShape ''s arity'')
      else bind_r (decode_path (parts ! 1) False) (\<lambda>path. Inr (SetOp path (parts ! 2))))"

definition decode_delete :: "json list \<Rightarrow> (delta_error, op) result" where
  "decode_delete parts =
     (if length parts \<noteq> 2 then Inl (BadShape ''d arity'')
      else bind_r (decode_path (parts ! 1) False) (\<lambda>path. Inr (DeleteOp path)))"

definition decode_append :: "json list \<Rightarrow> (delta_error, op) result" where
  "decode_append parts =
     (if length parts \<noteq> 3 then Inl (BadShape ''a shape'')
      else (case as_string (parts ! 2) of
              None \<Rightarrow> Inl (BadShape ''a shape'')
            | Some txt \<Rightarrow>
                bind_r (decode_path (parts ! 1) False) (\<lambda>path. Inr (AppendOp path txt))))"

definition decode_truncate :: "json list \<Rightarrow> (delta_error, op) result" where
  "decode_truncate parts =
     (if length parts \<noteq> 3 then Inl (BadShape ''t shape'')
      else (case decoded_size (parts ! 2) of
              None \<Rightarrow> Inl (BadShape ''t shape'')
            | Some count \<Rightarrow>
                bind_r (decode_path (parts ! 1) False) (\<lambda>path. Inr (TruncateOp path count))))"

definition decode_splice :: "json list \<Rightarrow> (delta_error, op) result" where
  "decode_splice parts =
     (if length parts \<noteq> 5 then Inl (BadShape ''p arity'')
      else bind_r (decode_path (parts ! 1) True) (\<lambda>path.
        (case decoded_size (parts ! 2) of
           None \<Rightarrow> Inl (BadShape ''p index'')
         | Some index \<Rightarrow>
             (case decoded_size (parts ! 3) of
                None \<Rightarrow> Inl (BadShape ''p remove'')
              | Some remove \<Rightarrow>
                  (case as_array (parts ! 4) of
                     None \<Rightarrow> Inl (BadShape ''p items'')
                   | Some items \<Rightarrow> Inr (SpliceOp path index remove items))))))"

definition decode_move :: "json list \<Rightarrow> (delta_error, op) result" where
  "decode_move parts =
     (if length parts \<noteq> 3 then Inl (BadShape ''m arity'')
      else bind_r (decode_path (parts ! 1) True) (\<lambda>path.
        (case as_array (parts ! 2) of
           None \<Rightarrow> Inl (BadShape ''m permutation is not an array'')
         | Some encoded \<Rightarrow>
             bind_r (map_r decode_index encoded) (\<lambda>permutation.
             bind_r (validate_permutation permutation) (\<lambda>_.
             Inr (MoveOp path permutation))))))"

definition decode_op :: "json \<Rightarrow> (delta_error, op) result" where
  "decode_op tuple =
     (case as_array tuple of
        None \<Rightarrow> Inl OpNotTuple
      | Some parts \<Rightarrow>
          if parts = [] then Inl OpNotTuple
          else (case as_string (parts ! 0) of
                  None \<Rightarrow> Inl (UnknownVerb (parts ! 0))
                | Some verb \<Rightarrow>
                    if verb = ''r'' then decode_replace parts
                    else if verb = ''s'' then decode_set parts
                    else if verb = ''d'' then decode_delete parts
                    else if verb = ''a'' then decode_append parts
                    else if verb = ''t'' then decode_truncate parts
                    else if verb = ''p'' then decode_splice parts
                    else if verb = ''m'' then decode_move parts
                    else Inl (UnknownVerb (JStr verb))))"

definition decode_ops :: "json \<Rightarrow> (delta_error, op list) result" where
  "decode_ops tuples =
     (case as_array tuples of None \<Rightarrow> Inl BatchNotArray | Some entries \<Rightarrow> map_r decode_op entries)"

text \<open>The tuple entry point of \<open>apply\<close>: decode one tuple, step, decode the next.\<close>

fun applier_run_tuples :: "applier \<Rightarrow> json list \<Rightarrow> (delta_error, json) result \<times> json" where
  "applier_run_tuples a [] = (Inr (adopted a), target a)"
| "applier_run_tuples a (tuple # tuples) =
     (case decode_op tuple of
        Inl e \<Rightarrow> (Inl e, target a)
      | Inr opn \<Rightarrow>
          (case applier_step a opn of
             Inl e \<Rightarrow> (Inl e, target a)
           | Inr a' \<Rightarrow> applier_run_tuples a' tuples))"

definition apply_tuples :: "json \<Rightarrow> json \<Rightarrow> (delta_error, json) result \<times> json" where
  "apply_tuples t decoded_tuples =
     (case as_array decoded_tuples of
        None \<Rightarrow> (Inl BatchNotArray, t)
      | Some entries \<Rightarrow> applier_run_tuples (applier_init t) entries)"

section \<open>String changes\<close>

definition kMaxOverlapScan :: nat where
  "kMaxOverlapScan = 65536"

definition kOverlapProbe :: nat where
  "kOverlapProbe = 64"

definition kMaxOverlapCandidates :: nat where
  "kMaxOverlapCandidates = 8"

text \<open>
  \<open>emit_string_change\<close>: the operations that turn one string into another, appended to
  the batch under construction.
\<close>

definition emit_string_change :: "string \<Rightarrow> string \<Rightarrow> path \<Rightarrow> op list" where
  "emit_string_change before after path =
     (if take (length before) after = before then [AppendOp path (drop (length before) after)]
      else (case (decode_utf8 before, decode_utf8 after) of
              (Some before_units, Some after_units) \<Rightarrow>
                let shared = overlap_units before_units after_units
                      kMaxOverlapScan kOverlapProbe kMaxOverlapCandidates;
                    boundary = length before_units - shared
                in if shared = 0 then [SetOp path (JStr after)]
                   else if boundary \<noteq> 0 \<and> boundary < length before_units \<and>
                       is_high_surrogate (before_units ! (boundary - 1)) \<and>
                       is_low_surrogate (before_units ! boundary)
                   then [SetOp path (JStr after)]
                   else (case encode_utf8 (drop shared after_units) of
                           None \<Rightarrow> [SetOp path (JStr after)]
                         | Some suffix \<Rightarrow>
                             TruncateOp path boundary #
                             (if suffix = [] then [] else [AppendOp path suffix]))
            | _ \<Rightarrow> [SetOp path (JStr after)]))"

end
