(* ===== verification/Delta_Laws.thy ===== *)
theory Delta_Laws
  imports Delta "HOL-Library.Multiset"
begin

text \<open>
  Laws of path access and of the delta operations: what a read returns after a write, at the
  same place, below it and elsewhere; what every operation keeps of the object invariant;
  that batches compose; that the two appliers agree; that decoded operations are valid; and
  that the operations emitted for a changed string rebuild it.
\<close>

section \<open>Prefixes and permutations\<close>

lemma path_is_prefix_iff: "path_is_prefix p q \<longleftrightarrow> (\<exists>s. q = p @ s)"
proof (induction p q rule: path_is_prefix.induct)
  case (3 s p t q)
  then show ?case by (cases s; cases t) auto
qed auto

lemma validate_permutation_loop_ok:
  "length seen = n \<Longrightarrow>
   validate_permutation_loop n seen ps = Inr () \<longleftrightarrow>
     distinct ps \<and> (\<forall>i\<in>set ps. i < n \<and> \<not> seen ! i)"
proof (induction ps arbitrary: seen)
  case (Cons i ps)
  show ?case
  proof (cases "n \<le> i \<or> seen ! i")
    case True
    then show ?thesis by auto
  next
    case False
    have "(\<forall>j\<in>set ps. j < n \<and> \<not> seen[i := True] ! j) \<longleftrightarrow> i \<notin> set ps \<and> (\<forall>j\<in>set ps. j < n \<and> \<not> seen ! j)"
      using False Cons.prems by (auto simp: nth_list_update)
    then show ?thesis using False Cons.IH [of "seen[i := True]"] Cons.prems by auto
  qed
qed simp

lemma validate_permutation_ok:
  "validate_permutation ps = Inr () \<longleftrightarrow> distinct ps \<and> (\<forall>i\<in>set ps. i < length ps)"
  by (auto simp: validate_permutation_def validate_permutation_loop_ok)

lemma permutation_set:
  assumes "validate_permutation ps = Inr ()"
  shows "set ps = {..<length ps}"
proof (rule card_subset_eq)
  show "set ps \<subseteq> {..<length ps}" using assms by (auto simp: validate_permutation_ok)
  show "card (set ps) = card {..<length ps}" using assms by (simp add: validate_permutation_ok distinct_card)
qed simp

lemma validate_safe_path_ok:
  "validate_safe_path p = Inr () \<longleftrightarrow> (\<forall>k. PathKey k \<in> set p \<longrightarrow> \<not> is_reserved_segment k)"
proof -
  have "is_ok (validate_segment s) \<longleftrightarrow> (\<forall>k. s = PathKey k \<longrightarrow> \<not> is_reserved_segment k)" for s
    by (cases s) auto
  then show ?thesis by (auto simp: validate_safe_path_def check_r_ok)
qed

section \<open>Reading after writing\<close>

lemma try_get_append:
  "try_get_path r (p @ q) = Option.bind (try_get_path r p) (\<lambda>v. try_get_path v q)"
  by (induction r p rule: try_get_path.induct) (auto split: option.splits)

lemma get_path_ok: "get_path r p = Inr v \<longleftrightarrow> try_get_path r p = Some v"
  by (simp add: get_path_def split: option.splits)

lemma set_get_same: "set_path_from w r p v = Inr r' \<Longrightarrow> try_get_path r' p = Some v"
  by (induction w r p v arbitrary: r' rule: set_path_from.induct)
    (auto simp: find_insert_or_assign nth_append split: option.splits if_splits sum.splits)

lemma set_ok: "try_get_path r p = Some x \<Longrightarrow> \<exists>r'. set_path_from w r p v = Inr r'"
proof (induction r p rule: try_get_path.induct)
  case (2 r key rest)
  then obtain ob child where "as_object r = Some ob" "find_member ob key = Some child"
      "try_get_path child rest = Some x"
    by (auto split: option.splits)
  then show ?case using "2.IH" by fastforce
next
  case (3 r i rest)
  then obtain arr where "as_array r = Some arr" "i < length arr" "try_get_path (arr ! i) rest = Some x"
    by (auto split: option.splits if_splits)
  then show ?case using "3.IH" by fastforce
qed simp

lemma insert_or_assign_twice:
  "insert_or_assign (insert_or_assign ms k v) k u = insert_or_assign ms k u"
  by (induction ms) auto

lemma insert_or_assign_same:
  "find_member ms k = Some v \<Longrightarrow> insert_or_assign ms k v = ms"
  by (induction ms) auto

lemma set_set_same:
  "set_path_from w r p v = Inr r' \<Longrightarrow> set_path_from w r' p u = set_path_from w r p u"
proof (induction w r p v arbitrary: r' rule: set_path_from.induct)
  case (2 w r key rest v)
  then show ?case
    by (auto simp: find_insert_or_assign insert_or_assign_twice split: option.splits if_splits sum.splits)
next
  case (3 w r i rest v)
  then obtain arr where arr: "as_array r = Some arr" "i \<le> length arr"
    by (auto split: option.splits if_splits)
  show ?case
  proof (cases "rest = []")
    case True
    then show ?thesis using "3.prems" arr by auto
  next
    case False
    then obtain c where c: "set_path_from w (arr ! i) rest v = Inr c" "i < length arr" "r' = JArr (arr[i := c])"
      using "3.prems" arr by (auto split: if_splits sum.splits)
    moreover have "set_path_from w c rest u = set_path_from w (arr ! i) rest u"
      using "3.IH" arr c False by simp
    ultimately show ?thesis using arr False by (simp split: sum.splits)
  qed
qed simp

lemma set_get_id: "try_get_path r p = Some v \<Longrightarrow> set_path_from w r p v = Inr r"
  by (induction r p rule: try_get_path.induct)
    (auto simp: insert_or_assign_same as_Some split: option.splits if_splits)

text \<open>The error of a write names the whole path; success does not depend on it.\<close>

lemma set_path_from_whole: "set_path_from w r p v = Inr r' \<Longrightarrow> set_path_from w' r p v = Inr r'"
  by (induction w r p v arbitrary: r' rule: set_path_from.induct)
    (auto split: option.splits if_splits sum.splits)

text \<open>Two paths that part at some segment.\<close>

fun diverge :: "path \<Rightarrow> path \<Rightarrow> bool" where
  "diverge (s # p) (t # q) = (s \<noteq> t \<or> diverge p q)"
| "diverge _ _ = False"

lemma diverge_sym: "diverge p q = diverge q p"
  by (induction p q rule: diverge.induct) auto

lemma set_frame:
  "set_path_from w r p v = Inr r' \<Longrightarrow> diverge p q \<Longrightarrow> try_get_path r' q = try_get_path r q"
proof (induction w r p v arbitrary: r' q rule: set_path_from.induct)
  case (1 w r v)
  then show ?case by simp
next
  case (2 w r key rest v)
  obtain t q' where q: "q = t # q'" using "2.prems"(2) by (cases q) auto
  show ?case
  proof (cases t)
    case (PathKey k)
    then show ?thesis using 2 q
      by (auto simp: find_insert_or_assign split: option.splits if_splits sum.splits)
  next
    case (PathIndex j)
    then show ?thesis using 2 q by (auto simp: as_Some split: option.splits if_splits sum.splits)
  qed
next
  case (3 w r i rest v)
  obtain t q' where q: "q = t # q'" using "3.prems"(2) by (cases q) auto
  show ?case
  proof (cases t)
    case (PathKey k)
    then show ?thesis using 3 q by (auto simp: as_Some split: option.splits if_splits sum.splits)
  next
    case (PathIndex j)
    then show ?thesis using 3 q
      by (auto simp: nth_append nth_list_update split: option.splits if_splits sum.splits)
  qed
qed

section \<open>The interface of path access\<close>

text \<open>
  What a client of nested access relies on, for any store with partial reads and fallible
  writes. The client's facts: a write replaces an earlier one at the same place, and a
  read-modify-write can be done in two steps or in one.
\<close>

locale path_store =
  fixes get :: "'r \<Rightarrow> 'p \<Rightarrow> 'v option"
    and put :: "'r \<Rightarrow> 'p \<Rightarrow> 'v \<Rightarrow> ('e, 'r) result"
    and apart :: "'p \<Rightarrow> 'p \<Rightarrow> bool"
  assumes get_put: "put r p v = Inr r' \<Longrightarrow> get r' p = Some v"
    and put_ok: "get r p = Some x \<Longrightarrow> \<exists>r'. put r p v = Inr r'"
    and put_put: "put r p v = Inr r' \<Longrightarrow> put r' p u = put r p u"
    and put_id: "get r p = Some v \<Longrightarrow> put r p v = Inr r"
    and get_apart: "put r p v = Inr r' \<Longrightarrow> apart p q \<Longrightarrow> get r' q = get r q"
begin

lemma put_collapse:
  assumes "get r p = Some x"
  shows "bind_r (put r p v) (\<lambda>r'. put r' p u) = put r p u"
proof -
  obtain r' where r': "put r p v = Inr r'" using put_ok assms by blast
  then show ?thesis using put_put by simp
qed

lemma update_compose:
  assumes get: "get r p = Some x" and f: "f x = Inr y" and g: "g y = Inr z"
  shows "bind_r (bind_r (f x) (put r p))
           (\<lambda>r'. case get r' p of None \<Rightarrow> Inl e | Some y' \<Rightarrow> bind_r (g y') (put r' p)) = put r p z"
proof -
  obtain r' where r': "put r p y = Inr r'" using put_ok get by blast
  then show ?thesis using f g get_put [OF r'] put_put [OF r'] by simp
qed

lemma put_then_read_others:
  assumes "put r p v = Inr r'" "get r' q \<noteq> get r q"
  shows "\<not> apart p q"
  using assms get_apart by blast

end

interpretation json_path: path_store try_get_path set_path diverge
proof unfold_locales
  show "set_path r p v = Inr r' \<Longrightarrow> try_get_path r' p = Some v" for r p v r'
    by (auto simp: set_path_def dest: set_get_same)
  show "try_get_path r p = Some x \<Longrightarrow> \<exists>r'. set_path r p v = Inr r'" for r p x v
    by (auto simp: set_path_def dest: set_ok)
  show "set_path r p v = Inr r' \<Longrightarrow> set_path r' p u = set_path r p u" for r p v r' u
    by (auto simp: set_path_def dest: set_set_same)
  show "try_get_path r p = Some v \<Longrightarrow> set_path r p v = Inr r" for r p v
    by (auto simp: set_path_def dest: set_get_id)
  show "set_path r p v = Inr r' \<Longrightarrow> diverge p q \<Longrightarrow> try_get_path r' q = try_get_path r q" for r p v r' q
    by (auto simp: set_path_def dest: set_frame)
qed

text \<open>Below a written place one reads the written value.\<close>

lemma get_below_set:
  "set_path r p v = Inr r' \<Longrightarrow> try_get_path r' (p @ q) = try_get_path v q"
  by (simp add: try_get_append json_path.get_put)

section \<open>The object invariant\<close>

lemma wf_insert_or_assign:
  "json_wf (JObj ob) \<Longrightarrow> json_wf v \<Longrightarrow> json_wf (JObj (insert_or_assign ob k v))"
proof -
  have "list_all (\<lambda>m. json_wf (snd m)) ob \<Longrightarrow> json_wf v \<Longrightarrow>
      list_all (\<lambda>m. json_wf (snd m)) (insert_or_assign ob k v)"
    by (induction ob) auto
  then show "json_wf (JObj ob) \<Longrightarrow> json_wf v \<Longrightarrow> json_wf (JObj (insert_or_assign ob k v))"
    by (simp add: unique_insert_or_assign)
qed

lemma wf_list_update: "json_wf (JArr a) \<Longrightarrow> json_wf v \<Longrightarrow> json_wf (JArr (a[i := v]))"
  by (auto simp: list_all_iff dest!: set_update_subset_insert [THEN subsetD])

lemma wf_erase_key: "json_wf (JObj ob) \<Longrightarrow> json_wf (JObj (fst (erase_key ob k)))"
  using set_erase_key [of ob k] by (auto simp: list_all_iff unique_erase_key)

lemma wf_try_get: "json_wf r \<Longrightarrow> try_get_path r p = Some v \<Longrightarrow> json_wf v"
  by (induction r p rule: try_get_path.induct)
    (auto simp: as_Some not_le dest: json_wf_find json_wf_nth simp del: json_wf.simps split: option.splits if_splits)

lemma wf_set_path_from: "json_wf r \<Longrightarrow> json_wf v \<Longrightarrow> set_path_from w r p v = Inr r' \<Longrightarrow> json_wf r'"
proof (induction w r p v arbitrary: r' rule: set_path_from.induct)
  case (2 w r key rest v)
  then show ?case
    by (auto simp: as_Some wf_insert_or_assign json_wf_find simp del: json_wf.simps
        split: option.splits if_splits sum.splits)
next
  case (3 w r i rest v)
  then obtain arr where arr: "r = JArr arr" "i \<le> length arr"
    by (auto simp: as_Some split: option.splits if_splits)
  show ?case
  proof (cases "rest = []")
    case True
    then show ?thesis using "3.prems" arr wf_list_update [of arr v i] by (auto split: if_splits)
  next
    case False
    then obtain c where c: "set_path_from w (arr ! i) rest v = Inr c" "i < length arr" "r' = JArr (arr[i := c])"
      using "3.prems" arr by (auto split: if_splits sum.splits)
    moreover have "json_wf (arr ! i)" using c(2) arr "3.prems"(1) json_wf_nth by blast
    ultimately have "json_wf c" using "3.IH" [of arr c] arr False "3.prems" by simp
    then show ?thesis using c arr "3.prems" wf_list_update by blast
  qed
qed simp

lemma wf_set_path: "json_wf r \<Longrightarrow> json_wf v \<Longrightarrow> set_path r p v = Inr r' \<Longrightarrow> json_wf r'"
  unfolding set_path_def by (rule wf_set_path_from)

lemma wf_erase_path_from: "json_wf r \<Longrightarrow> erase_path_from w r p = Inr (r', c) \<Longrightarrow> json_wf r'"
proof (induction w r p arbitrary: r' c rule: erase_path_from.induct)
  case (2 w r key rest)
  then show ?case
    by (auto simp: as_Some wf_insert_or_assign json_wf_find wf_erase_key simp del: json_wf.simps
        split: option.splits if_splits sum.splits)
next
  case (3 w r i rest)
  then obtain arr where arr: "r = JArr arr" "i < length arr"
    by (auto simp: as_Some split: option.splits if_splits)
  show ?case
  proof (cases "rest = []")
    case True
    then show ?thesis using "3.prems" arr by (auto simp: list_all_take list_all_drop)
  next
    case False
    then obtain x where x: "erase_path_from w (arr ! i) rest = Inr (x, c)" "r' = JArr (arr[i := x])"
      using "3.prems" arr by (auto split: if_splits sum.splits)
    moreover have "json_wf (arr ! i)" using arr "3.prems"(1) json_wf_nth by blast
    ultimately have "json_wf x" using "3.IH" [of arr x c] arr False "3.prems" by simp
    then show ?thesis using x arr "3.prems" wf_list_update by blast
  qed
qed simp

fun op_wf :: "op \<Rightarrow> bool" where
  "op_wf (ReplaceOp v) = json_wf v"
| "op_wf (SetOp _ v) = json_wf v"
| "op_wf (SpliceOp _ _ _ items) = list_all json_wf items"
| "op_wf _ = True"

lemma wf_put_array:
  "json_wf r \<Longrightarrow> list_all json_wf xs \<Longrightarrow> put_array r p xs = Inr r' \<Longrightarrow> json_wf r'"
  by (auto simp: put_array_def split: if_splits dest: wf_set_path [of r "JArr xs", rotated 2])

lemma wf_splice_list:
  "list_all json_wf arr \<Longrightarrow> list_all json_wf items \<Longrightarrow> list_all json_wf (splice_list arr i n items)"
  by (auto simp: splice_list_def list_all_take list_all_drop)

lemma wf_apply_op: "json_wf r \<Longrightarrow> op_wf x \<Longrightarrow> apply_op r x = Inr r' \<Longrightarrow> json_wf r'"
proof (cases x)
  case (SpliceOp p i n items)
  assume r: "json_wf r" and x: "op_wf x" and ap: "apply_op r x = Inr r'"
  obtain arr where arr: "try_get_path r p = Some (JArr arr)"
      "put_array r p (splice_list arr (effective_index arr i) (effective_remove arr i n) items) = Inr r'"
    using ap SpliceOp
    by (auto simp: splice_path_def get_path_def as_Some Let_def split: option.splits sum.splits)
  then show ?thesis using r x SpliceOp wf_try_get [OF r arr(1)] by (auto intro: wf_put_array wf_splice_list)
next
  case (MoveOp p perm)
  assume r: "json_wf r" and ap: "apply_op r x = Inr r'"
  obtain arr where arr: "try_get_path r p = Some (JArr arr)" "\<forall>i\<in>set perm. i < length arr"
      "put_array r p (map (\<lambda>i. arr ! i) perm) = Inr r'"
    using ap MoveOp
    by (auto simp: move_path_def get_path_def as_Some not_le split: option.splits if_splits)
  then show ?thesis using r MoveOp wf_try_get [OF r arr(1)]
    by (auto intro!: wf_put_array [OF r _ arr(3)] simp: list_all_iff)
next
  case (SetOp p v)
  assume "json_wf r" "op_wf x" "apply_op r x = Inr r'"
  then show ?thesis using SetOp wf_set_path [of r v p r'] by simp
next
  case (DeleteOp p)
  assume r: "json_wf r" "apply_op r x = Inr r'"
  then obtain c where "erase_path_from p r p = Inr (r', c)"
    using DeleteOp by (auto simp: erase_path_def)
  then show ?thesis using r(1) wf_erase_path_from by blast
next
  case (AppendOp p t)
  assume r: "json_wf r" "apply_op r x = Inr r'"
  then obtain u where "set_path r p (JStr u) = Inr r'"
    using AppendOp by (auto simp: append_string_path_def split: sum.splits option.splits)
  then show ?thesis using r wf_set_path [of r "JStr u"] by simp
next
  case (TruncateOp p n)
  assume r: "json_wf r" "apply_op r x = Inr r'"
  then obtain u where "set_path r p (JStr u) = Inr r'"
    using TruncateOp by (auto simp: truncate_string_path_def split: sum.splits option.splits)
  then show ?thesis using r wf_set_path [of r "JStr u"] by simp
qed simp

interpretation delta: fallible_steps apply_op json_wf op_wf
  by unfold_locales (rule wf_apply_op)

section \<open>Batches\<close>

lemma apply_immutable_ok:
  "apply_immutable t ops = Inr v \<longleftrightarrow> (\<forall>x\<in>set ops. validate_op x = Inr ()) \<and> fold_r apply_op t ops = Inr v"
  by (auto simp: apply_immutable_def validate_batch_def check_r_ok is_ok_iff split: sum.splits)
    (metis check_r_ok is_ok_simps(2) sum.distinct(1))

lemma apply_immutable_append:
  "apply_immutable t (xs @ ys) = Inr v \<longleftrightarrow>
   (\<exists>m. apply_immutable t xs = Inr m \<and> apply_immutable m ys = Inr v)"
  by (auto simp: apply_immutable_ok delta.run_append)

lemma apply_immutable_Nil [simp]: "apply_immutable t [] = Inr t"
  by (simp add: apply_immutable_ok)

lemma apply_immutable_Cons:
  "apply_immutable t (x # xs) = Inr v \<longleftrightarrow>
   (\<exists>m. validate_op x = Inr () \<and> apply_op t x = Inr m \<and> apply_immutable m xs = Inr v)"
  by (auto simp: apply_immutable_ok split: sum.splits)

lemma apply_immutable_wf:
  "json_wf t \<Longrightarrow> (\<And>x. x \<in> set ops \<Longrightarrow> op_wf x) \<Longrightarrow> apply_immutable t ops = Inr v \<Longrightarrow> json_wf v"
  using delta.run_keeps by (auto simp: apply_immutable_ok)

lemma apply_batches_concat:
  "apply_immutable_batches t bs = Inr v \<longleftrightarrow> apply_immutable t (concat bs) = Inr v"
proof (induction bs arbitrary: t)
  case (Cons b bs)
  then show ?case
    by (auto simp: apply_immutable_batches_def apply_immutable_append split: sum.splits)
qed (simp add: apply_immutable_batches_def)

lemma apply_batches_snoc:
  "apply_immutable_batches t (bs @ [b]) = Inr v \<longleftrightarrow>
   (\<exists>m. apply_immutable_batches t bs = Inr m \<and> apply_immutable m b = Inr v)"
  by (simp add: apply_batches_concat apply_immutable_append)

section \<open>The sequential applier\<close>

lemma applier_step_ok:
  "applier_step a x = Inr a' \<longleftrightarrow>
     (\<exists>m. apply_immutable (adopted a) [x] = Inr m \<and>
        a' = (if is_replace x then a\<lparr>adopted := m, root_replaced := True\<rparr>
              else if root_replaced a then a\<lparr>adopted := m\<rparr>
              else a\<lparr>adopted := m, target := m\<rparr>))"
proof -
  have "apply_immutable (adopted a) [x] = Inr m \<Longrightarrow> validate_op x = Inr ()" for m
    by (simp add: apply_immutable_ok)
  then show ?thesis
    by (auto simp: applier_step_def Let_def split: sum.splits)
qed

lemma applier_run_result:
  "fst (applier_run a ops) = Inr v \<longleftrightarrow> apply_immutable (adopted a) ops = Inr v"
proof (induction ops arbitrary: a)
  case (Cons x ops)
  show ?case
  proof (cases "applier_step a x")
    case (Inl e)
    then have "\<nexists>m. apply_immutable (adopted a) [x] = Inr m"
      using applier_step_ok [of a x] by (metis sum.distinct(1))
    then show ?thesis using Inl apply_immutable_append [of "adopted a" "[x]" ops v] by simp
  next
    case (Inr a')
    then obtain m where "apply_immutable (adopted a) [x] = Inr m" "adopted a' = m"
      by (auto simp: applier_step_ok split: if_splits)
    then show ?thesis
      using Inr Cons.IH [of a'] apply_immutable_append [of "adopted a" "[x]" ops v] by simp
  qed
qed simp

lemma applier_run_replaced:
  "root_replaced a \<Longrightarrow> snd (applier_run a ops) = target a"
proof (induction ops arbitrary: a)
  case (Cons x ops)
  then show ?case by (auto simp: applier_step_ok split: sum.splits if_splits)
qed simp

lemma applier_run_target:
  "\<not> root_replaced a \<Longrightarrow> target a = adopted a \<Longrightarrow> fst (applier_run a ops) = Inr v \<Longrightarrow>
   apply_immutable (adopted a) (takeWhile (\<lambda>x. \<not> is_replace x) ops) = Inr (snd (applier_run a ops))"
proof (induction ops arbitrary: a)
  case (Cons x ops)
  then obtain a' where a': "applier_step a x = Inr a'" "fst (applier_run a' ops) = Inr v"
    by (auto split: sum.splits)
  then obtain m where m: "apply_immutable (adopted a) [x] = Inr m"
      "a' = (if is_replace x then a\<lparr>adopted := m, root_replaced := True\<rparr>
             else a\<lparr>adopted := m, target := m\<rparr>)"
    using Cons.prems(1) by (auto simp: applier_step_ok)
  show ?case
  proof (cases "is_replace x")
    case True
    then show ?thesis using a' m Cons.prems applier_run_replaced [of a' ops] by simp
  next
    case False
    then have "apply_immutable m (takeWhile (\<lambda>x. \<not> is_replace x) ops) = Inr (snd (applier_run a' ops))"
      using Cons.IH [of a'] a' m Cons.prems by simp
    then show ?thesis
      using False a' m apply_immutable_append [of "adopted a" "[x]"] by fastforce
  qed
qed simp

lemma apply_tuples_decoded:
  "map_r decode_op tuples = Inr ops \<Longrightarrow> applier_run_tuples a tuples = applier_run a ops"
  by (induction tuples arbitrary: ops a) (auto split: sum.splits)

section \<open>Decoded operations\<close>

lemma decode_path_safe:
  assumes "decode_path v allow = Inr path"
  shows "validate_safe_path path = Inr ()" "\<not> allow \<Longrightarrow> path \<noteq> []"
proof -
  obtain segs where segs: "as_array v = Some segs" "map_r decode_segment segs = Inr path"
      "\<not> allow \<Longrightarrow> segs \<noteq> []"
    using assms by (auto simp: decode_path_def split: option.splits if_splits)
  have "\<not> is_reserved_segment k" if k: "PathKey k \<in> set path" for k
  proof -
    obtain i where "i < length path" "path ! i = PathKey k" using k by (auto simp: in_set_conv_nth)
    then have "decode_segment (segs ! i) = Inr (PathKey k)" using segs(2) by (auto simp: map_r_ok)
    then show ?thesis by (auto simp: decode_segment_def split: option.splits if_splits)
  qed
  then show "validate_safe_path path = Inr ()" by (simp add: validate_safe_path_ok)
  show "\<not> allow \<Longrightarrow> path \<noteq> []" using segs by (auto simp: map_r_ok)
qed

lemma decode_splice_valid: "decode_splice parts = Inr x \<Longrightarrow> validate_op x = Inr ()"
proof -
  assume "decode_splice parts = Inr x"
  then obtain path i n items where "decode_path (parts ! 1) True = Inr path" "x = SpliceOp path i n items"
    unfolding decode_splice_def by (fastforce split: if_splits option.split_asm)
  then show ?thesis using decode_path_safe(1) by simp
qed

lemma decode_move_valid: "decode_move parts = Inr x \<Longrightarrow> validate_op x = Inr ()"
proof -
  assume "decode_move parts = Inr x"
  then obtain path perm where "decode_path (parts ! 1) True = Inr path" "x = MoveOp path perm"
      "validate_permutation perm = Inr ()"
    unfolding decode_move_def by (fastforce split: if_splits option.split_asm)
  then show ?thesis using decode_path_safe(1) by simp
qed

lemmas decode_leaf_branches = decode_replace_def decode_set_def decode_delete_def decode_append_def
  decode_truncate_def

lemma decode_op_valid: "decode_op tuple = Inr x \<Longrightarrow> validate_op x = Inr ()"
  by (auto simp: decode_op_def decode_leaf_branches validate_nonempty_path_def
      dest: decode_path_safe decode_splice_valid decode_move_valid split: option.splits if_splits)

section \<open>String changes rebuild the string\<close>

lemma encode_append:
  assumes "\<forall>c\<in>set as. scalar c" "\<forall>c\<in>set bs. scalar c"
  shows "encode_utf8 (utf16_of (as @ bs)) =
    Some (map char_of (utf8_of as) @ map char_of (utf8_of bs))"
  using encode_utf16_of [of "as @ bs"] assms by (simp add: encode_utf8_def ball_Un)

text \<open>Truncating at a cut between characters keeps the characters after the cut.\<close>

lemma truncate_front:
  assumes dec: "decode_utf8 s = Some us" and n: "n \<le> length us" and cut: "\<not> splits_pair us n"
  shows "\<exists>rest. truncate_front_utf16 s n = Inr rest \<and> encode_utf8 (drop n us) = Some rest"
proof -
  obtain cps where cps: "\<forall>c\<in>set cps. scalar c" "us = utf16_of cps"
    using dec by (auto simp: decode_utf8_spec)
  obtain as bs where parts: "cps = as @ bs" "drop n us = utf16_of bs"
    using cut_between_scalars [of cps n] cps cut by auto
  have enc: "encode_utf8 (drop n us) = Some (map char_of (utf8_of bs))"
    using encode_utf16_of [of bs] cps parts by (simp add: encode_utf8_def)
  show ?thesis
  proof (cases "n = 0")
    case True
    then show ?thesis using encode_decode [OF dec] by (simp add: truncate_front_utf16_def)
  next
    case False
    show ?thesis
    proof (cases "n = length us")
      case True
      then show ?thesis using False dec by (simp add: truncate_front_utf16_def encode_utf8_def)
    next
      case False
      then have "\<not> (is_high_surrogate (us ! (n - 1)) \<and> is_low_surrogate (us ! n))"
        using cut n \<open>n \<noteq> 0\<close> by (auto simp: splits_pair_def)
      then show ?thesis using False n dec enc \<open>n \<noteq> 0\<close> by (auto simp: truncate_front_utf16_def)
    qed
  qed
qed

lemma truncate_then_append:
  assumes before: "decode_utf8 before = Some bu" and after: "decode_utf8 after = Some au"
    and sh: "shared \<le> length bu" "shared \<le> length au" "drop (length bu - shared) bu = take shared au"
    and cut: "\<not> splits_pair bu (length bu - shared)"
    and suffix: "encode_utf8 (drop shared au) = Some suffix"
  shows "\<exists>kept. truncate_front_utf16 before (length bu - shared) = Inr kept \<and> kept @ suffix = after"
proof -
  obtain kept where kept: "truncate_front_utf16 before (length bu - shared) = Inr kept"
      "encode_utf8 (take shared au) = Some kept"
    using truncate_front [OF before _ cut] sh(3) by auto
  have bounded: "\<forall>u\<in>set au. u < 0x10000" using decode_units_bounded [OF after] .
  have bt: "\<forall>u\<in>set (take shared au). u < 0x10000" "\<forall>u\<in>set (drop shared au). u < 0x10000"
    using bounded by (auto dest: in_set_takeD in_set_dropD)
  obtain as where as: "\<forall>c\<in>set as. scalar c" "take shared au = utf16_of as" "map of_char kept = utf8_of as"
    using kept(2) encode_utf8_spec [OF bt(1)] by auto
  obtain bs where bs: "\<forall>c\<in>set bs. scalar c" "drop shared au = utf16_of bs" "map of_char suffix = utf8_of bs"
    using suffix encode_utf8_spec [OF bt(2)] by auto
  have "au = utf16_of (as @ bs)" using as(2) bs(2) by (metis append_take_drop_id utf16_of_simps(3))
  then have "encode_utf8 au = Some (kept @ suffix)"
    using encode_append [OF as(1) bs(1)] as(3) [symmetric] bs(3) [symmetric]
    by (simp only: map_char_of_of_char)
  then show ?thesis using kept(1) encode_decode [OF after] by simp
qed

lemma append_op_result:
  "try_get_path r p = Some (JStr s) \<Longrightarrow> apply_op r (AppendOp p t) = set_path r p (JStr (s @ t))"
  by (simp add: append_string_path_def get_path_def)

lemma truncate_op_result:
  "try_get_path r p = Some (JStr s) \<Longrightarrow> truncate_front_utf16 s n = Inr k \<Longrightarrow>
   apply_op r (TruncateOp p n) = set_path r p (JStr k)"
  by (simp add: truncate_string_path_def get_path_def)

lemma emit_string_change_ok:
  assumes get: "try_get_path r p = Some (JStr before)" and valid: "validate_nonempty_path p = Inr ()"
  shows "\<exists>r'. set_path r p (JStr after) = Inr r' \<and> apply_immutable r (emit_string_change before after p) = Inr r'"
proof -
  obtain r' where r': "set_path r p (JStr after) = Inr r'" using json_path.put_ok [OF get] by blast
  have whole: "apply_immutable r [SetOp p (JStr after)] = Inr r'"
    using r' valid by (simp add: apply_immutable_Cons)
  have "apply_immutable r (emit_string_change before after p) = Inr r'"
  proof (cases "take (length before) after = before")
    case True
    then have "before @ drop (length before) after = after" by (metis append_take_drop_id)
    then show ?thesis using True r' valid get
      by (simp add: emit_string_change_def apply_immutable_Cons append_op_result del: apply_op.simps)
  next
    case False
    show ?thesis
    proof (cases "\<exists>bu au. decode_utf8 before = Some bu \<and> decode_utf8 after = Some au")
      case False
      then show ?thesis using whole \<open>take (length before) after \<noteq> before\<close>
        by (auto simp: emit_string_change_def split: option.splits)
    next
      case True
      then obtain bu au where dec: "decode_utf8 before = Some bu" "decode_utf8 after = Some au" by blast
      define shared where "shared = overlap_units bu au kMaxOverlapScan kOverlapProbe kMaxOverlapCandidates"
      have sh: "shared \<le> length bu" "shared \<le> length au" "drop (length bu - shared) bu = take shared au"
        using overlap_units_sound [OF shared_def [symmetric]] by auto
      show ?thesis
      proof (cases "shared = 0 \<or> splits_pair bu (length bu - shared) \<or> encode_utf8 (drop shared au) = None")
        case True
        then have "emit_string_change before after p = [SetOp p (JStr after)]"
          using dec \<open>take (length before) after \<noteq> before\<close>
          by (auto simp: emit_string_change_def shared_def [symmetric] splits_pair_def Let_def)
        then show ?thesis using whole by simp
      next
        case False
        then obtain suffix where suffix: "encode_utf8 (drop shared au) = Some suffix" by auto
        have emit: "emit_string_change before after p = TruncateOp p (length bu - shared) #
            (if suffix = [] then [] else [AppendOp p suffix])"
          using False dec suffix \<open>take (length before) after \<noteq> before\<close>
          by (auto simp: emit_string_change_def shared_def [symmetric] splits_pair_def Let_def)
        obtain kept where kept: "truncate_front_utf16 before (length bu - shared) = Inr kept" "kept @ suffix = after"
          using truncate_then_append [OF dec sh _ suffix] False by auto
        obtain m where m: "set_path r p (JStr kept) = Inr m" using json_path.put_ok [OF get] by blast
        have gm: "try_get_path m p = Some (JStr kept)" using json_path.get_put [OF m] .
        have "set_path m p (JStr (kept @ suffix)) = Inr r'"
          using json_path.put_put [OF m] r' kept(2) by simp
        moreover have "suffix = [] \<Longrightarrow> m = r'" using m r' kept(2) by simp
        ultimately show ?thesis
          using emit valid m kept(1)
          by (simp add: apply_immutable_Cons truncate_op_result [OF get kept(1)] append_op_result [OF gm]
              del: apply_op.simps)
      qed
    qed
  qed
  then show ?thesis using r' by blast
qed

section \<open>Erasing\<close>

lemma erase_gone:
  "erase_path_from w r p = Inr (r', changed) \<Longrightarrow> json_wf r \<Longrightarrow> last p = PathKey k \<Longrightarrow> try_get_path r' p = None"
proof (induction w r p arbitrary: r' changed rule: erase_path_from.induct)
  case (2 w r key rest)
  then obtain ob where ob: "r = JObj ob" by (auto simp: as_Some split: option.splits)
  show ?case
  proof (cases "rest = []")
    case True
    then show ?thesis using 2 ob by (auto simp: find_erase_key split: option.splits)
  next
    case False
    then obtain child c' where c: "find_member ob key = Some child" "erase_path_from w child rest = Inr (c', changed)"
        "r' = JObj (insert_or_assign ob key c')"
      using "2.prems"(1) ob by (auto split: option.splits sum.splits)
    have "json_wf child" using json_wf_find "2.prems"(2) c(1) ob by blast
    then have "try_get_path c' rest = None" using "2.IH" [of ob child] False c "2.prems"(3) ob by simp
    then show ?thesis using c(3) by (simp add: find_insert_or_assign)
  qed
next
  case (3 w r i rest)
  then obtain arr where arr: "r = JArr arr" "i < length arr" by (auto simp: as_Some split: option.splits if_splits)
  have ne: "rest \<noteq> []" using "3.prems"(3) by auto
  then obtain c' where c: "erase_path_from w (arr ! i) rest = Inr (c', changed)" "r' = JArr (arr[i := c'])"
    using "3.prems"(1) arr by (auto split: sum.splits)
  have "json_wf (arr ! i)" using json_wf_nth "3.prems"(2) arr by blast
  then show ?case using "3.IH" [of arr] ne c "3.prems"(3) arr by simp
qed simp

section \<open>Properties\<close>

text \<open>
  C27. Writing at a path: reading the same path gives the written value, reading below it
  reads inside the written value, every path that parts from it reads as before, and a
  second write there replaces the first.
\<close>

theorem set_path_read_back:
  assumes "set_path doc p v = Inr doc'"
  shows "try_get_path doc' (p @ q) = try_get_path v q \<and>
    (diverge p d \<longrightarrow> try_get_path doc' d = try_get_path doc d) \<and>
    set_path doc' p u = set_path doc p u"
  using assms get_below_set [OF assms] json_path.get_apart [OF assms] json_path.put_put [OF assms] by blast

theorem set_path_read_back_witness:
  "try_get_path (JObj [(''a'', JArr [JNull, JBool True])]) ([PathKey ''a'', PathIndex 1] @ []) =
     try_get_path (JBool True) []"
  using set_path_read_back [of "JObj [(''a'', JArr [JNull])]" "[PathKey ''a'', PathIndex 1]" "JBool True"
      "JObj [(''a'', JArr [JNull, JBool True])]" "[]"]
  by (simp add: set_path_def)

text \<open>
  Every operation, on every kind of value, keeps the object invariant: the result of
  applying a batch of well-formed operations to a well-formed value has unique keys
  throughout.
\<close>

theorem apply_keeps_unique_keys:
  assumes "json_wf doc" "list_all op_wf ops" "apply_immutable doc ops = Inr doc'"
  shows "json_wf doc'"
  using assms apply_immutable_wf [of doc ops doc'] by (simp add: list_all_iff)

theorem apply_keeps_unique_keys_witness:
  "json_wf (JObj [(''b'', JNull)])"
proof (rule apply_keeps_unique_keys)
  show "json_wf (JObj [(''a'', JNull), (''b'', JNull)])" by (simp add: unique_keys_def)
  show "list_all op_wf [DeleteOp [PathKey ''a'']]" by simp
  show "apply_immutable (JObj [(''a'', JNull), (''b'', JNull)]) [DeleteOp [PathKey ''a'']] = Inr (JObj [(''b'', JNull)])"
    by (simp add: apply_immutable_Cons validate_nonempty_path_def validate_safe_path_def is_reserved_segment_def
        erase_path_def)
qed

text \<open>
  Erasing a key of an object, at any depth, leaves nothing at that path.
\<close>

theorem erase_path_gone:
  assumes "json_wf doc" "erase_path doc (p @ [PathKey k]) = Inr (doc', changed)"
  shows "try_get_path doc' (p @ [PathKey k]) = None"
  using assms erase_gone [of "p @ [PathKey k]" doc "p @ [PathKey k]" doc' changed k]
  by (simp add: erase_path_def)

theorem erase_path_gone_witness:
  "try_get_path (JArr [JObj [(''b'', JNull)]]) ([PathIndex 0] @ [PathKey ''a'']) = None"
  by (rule erase_path_gone [of "JArr [JObj [(''a'', JNull), (''b'', JNull)]]" _ _ _ True])
    (simp_all add: erase_path_def unique_keys_def)

text \<open>
  C28. Applying several batches one after the other is applying their concatenation, and the
  sequential, mutating applier agrees: it returns what the immutable one returns, and when it
  succeeds it leaves in the caller's value the effect of the operations before the first
  replacement of the root.
\<close>

theorem appliers_agree:
  "(apply_immutable_batches t bs = Inr v \<longleftrightarrow> apply_immutable t (concat bs) = Inr v) \<and>
   (fst (apply_ops t ops) = Inr v \<longleftrightarrow> apply_immutable t ops = Inr v) \<and>
   (fst (apply_ops t ops) = Inr v \<longrightarrow>
      apply_immutable t (takeWhile (\<lambda>x. \<not> is_replace x) ops) = Inr (snd (apply_ops t ops)))"
  using apply_batches_concat [of t bs v] applier_run_result [of "applier_init t" ops v]
    applier_run_target [of "applier_init t" ops v]
  by (simp add: apply_ops_def applier_init_def)

theorem appliers_agree_witness:
  "apply_immutable JNull (takeWhile (\<lambda>x. \<not> is_replace x) [ReplaceOp (JBool True)]) =
     Inr (snd (apply_ops JNull [ReplaceOp (JBool True)]))"
  using appliers_agree [of JNull "[]" "JBool True" "[ReplaceOp (JBool True)]"]
  by (simp add: apply_immutable_Cons)

text \<open>
  Whatever tuple the decoder accepts is a valid operation: its path holds no reserved
  key, it is non-empty where the operation needs it, and a move's list is a permutation.
\<close>

theorem decoded_operations_valid:
  assumes "decode_op tuple = Inr x"
  shows "validate_op x = Inr ()"
  using assms by (rule decode_op_valid)

theorem decoded_operations_valid_witness:
  "validate_op (DeleteOp [PathKey ''k'']) = Inr ()"
  by (rule decoded_operations_valid [of "JArr [JStr ''d'', JArr [JStr ''k'']]"])
    (simp add: decode_op_def decode_leaf_branches decode_path_def decode_segment_def is_reserved_segment_def)

text \<open>
  The permutation check accepts exactly the rearrangements of \<open>0..n-1\<close>, so a move
  of an array keeps every element exactly once.
\<close>

theorem move_is_rearrangement:
  assumes "validate_op (MoveOp p perm) = Inr ()" "try_get_path doc p = Some (JArr arr)"
    "apply_op doc (MoveOp p perm) = Inr doc'"
  shows "\<exists>arr'. try_get_path doc' p = Some (JArr arr') \<and> mset arr' = mset arr"
proof -
  have perm: "validate_permutation perm = Inr ()" using assms(1) by (simp split: sum.splits)
  have len: "length arr = length perm" and put: "put_array doc p (map (\<lambda>i. arr ! i) perm) = Inr doc'"
    using assms(2,3) by (auto simp: move_path_def get_path_def split: if_splits)
  have "mset perm = mset [0..<length perm]"
    using perm permutation_set [OF perm] by (intro set_eq_iff_mset_eq_distinct [THEN iffD1])
      (auto simp: validate_permutation_ok atLeast0LessThan)
  then have "mset (map (\<lambda>i. arr ! i) perm) = mset (map (\<lambda>i. arr ! i) [0..<length arr])"
    using len by (simp del: map_nth)
  then have "mset (map (\<lambda>i. arr ! i) perm) = mset arr" by (simp only: map_nth)
  moreover have "try_get_path doc' p = Some (JArr (map (\<lambda>i. arr ! i) perm))"
    using put by (auto simp: put_array_def json_path.get_put split: if_splits)
  ultimately show ?thesis by blast
qed

theorem move_is_rearrangement_witness:
  "\<exists>arr'. try_get_path (JArr [JBool True, JNull]) [] = Some (JArr arr') \<and> mset arr' = mset [JNull, JBool True]"
  by (rule move_is_rearrangement [of "[]" "[1, 0]" "JArr [JNull, JBool True]"])
    (simp_all add: validate_safe_path_def validate_permutation_def move_path_def get_path_def put_array_def)

text \<open>
  The operations emitted for a changed string (an append, or a truncation at the front
  followed by an append, or a plain set) rebuild exactly the new string when applied at its
  path, whatever the two strings are, valid UTF-8 or not.
\<close>

theorem string_change_rebuilds:
  assumes "try_get_path doc p = Some (JStr before)" "validate_nonempty_path p = Inr ()"
  shows "\<exists>doc'. apply_immutable doc (emit_string_change before after p) = Inr doc' \<and>
    set_path doc p (JStr after) = Inr doc' \<and> try_get_path doc' p = Some (JStr after)"
  using emit_string_change_ok [OF assms, of after] json_path.get_put by blast

theorem string_change_rebuilds_witness:
  "\<exists>doc'. apply_immutable (JObj [(''k'', JStr ''hello'')]) (emit_string_change ''hello'' ''lower'' [PathKey ''k'']) = Inr doc' \<and>
    set_path (JObj [(''k'', JStr ''hello'')]) [PathKey ''k''] (JStr ''lower'') = Inr doc' \<and>
    try_get_path doc' [PathKey ''k''] = Some (JStr ''lower'')"
  by (rule string_change_rebuilds)
    (simp_all add: validate_nonempty_path_def validate_safe_path_def is_reserved_segment_def)

end
