(* ===== verification/Tracker.thy ===== *)
theory Tracker
  imports Delta_Laws "HOL-Library.Word"
begin

text \<open>
  \<^verbatim>\<open>src/src/chord/Tracker.cpp\<close>: a tracked JSON value with optimistic changes. A change
  records the operations of its draft and the resulting candidate; preparing it yields a
  batch; adopting the batch installs the candidate if nothing was adopted in between. The
  C++ objects share their state through \<^verbatim>\<open>shared_ptr\<close>; here they are records in an
  explicit heap, named by numbers, and the owner and revision tokens, which the code compares
  by address, are fresh numbers. A handle without state (moved from) is a name the heap does
  not know. The revision counter is a 64-bit word and wraps.
\<close>

section \<open>State\<close>

datatype prepared_status = StPrepared | StConsumed | StAborted | StStale

record tracker_state =
  tr_owner :: nat
  tr_revision_token :: nat
  tr_value :: json
  tr_revision :: "64 word"
  tr_changes :: "nat list"

record prepared_state =
  pr_owner :: nat
  pr_base_token :: nat
  pr_base_revision :: "64 word"
  pr_base :: json
  pr_value :: json
  pr_ops :: "op list"
  pr_status :: prepared_status

record change_state =
  ch_owner :: nat
  ch_base_token :: nat
  ch_base_revision :: "64 word"
  ch_base :: json
  ch_candidate :: json
  ch_recorded :: "op list"
  ch_structural :: bool
  ch_settled :: bool
  ch_stale :: bool
  ch_prepared :: "nat option"

record heap =
  hp_trackers :: "nat \<rightharpoonup> tracker_state"
  hp_changes :: "nat \<rightharpoonup> change_state"
  hp_prepared :: "nat \<rightharpoonup> prepared_state"
  hp_fresh :: nat

datatype tracker_error =
    SettledOverlay
  | ChangeAlreadySettled
  | TrackerUnresolvable
  | ArrayHoles
  | DeltaError delta_error
  | PreparedNotReady
  | DifferentTracker
  | PreparedUsed
  | PreparedAborted
  | PreparedStale

section \<open>Collapsing the recorded operations\<close>

definition kMaxDeltaOperations :: nat where
  "kMaxDeltaOperations = 4096"

definition is_write_op :: "op \<Rightarrow> bool" where
  "is_write_op opn \<longleftrightarrow>
     (case opn of SetOp _ _ \<Rightarrow> True | AppendOp _ _ \<Rightarrow> True | TruncateOp _ _ \<Rightarrow> True | _ \<Rightarrow> False)"

fun op_path :: "op \<Rightarrow> path" where
  "op_path (ReplaceOp _) = []"
| "op_path (SetOp p _) = p"
| "op_path (DeleteOp p) = p"
| "op_path (AppendOp p _) = p"
| "op_path (TruncateOp p _) = p"
| "op_path (SpliceOp p _ _ _) = p"
| "op_path (MoveOp p _) = p"

definition has_same_path :: "path \<Rightarrow> path \<Rightarrow> bool" where
  "has_same_path left right \<longleftrightarrow> path_is_prefix left right \<and> path_is_prefix right left"

text \<open>The path of a deletion, if the operation is one.\<close>

definition deletion_path :: "op \<Rightarrow> path option" where
  "deletion_path opn = (case opn of DeleteOp p \<Rightarrow> Some p | _ \<Rightarrow> None)"

definition emit_write :: "change_state \<Rightarrow> path \<Rightarrow> op list" where
  "emit_write state path =
     (case try_get_path (ch_candidate state) path of
        None \<Rightarrow> []
      | Some candidate \<Rightarrow>
          let base = try_get_path (ch_base state) path;
              force_set = list_ex (\<lambda>recorded.
                case deletion_path recorded of
                  Some deleted \<Rightarrow> has_same_path deleted path
                | None \<Rightarrow> False) (ch_recorded state)
          in if \<not> force_set \<and> (case base of Some b \<Rightarrow> json_eq b candidate | None \<Rightarrow> False) then []
             else (case (if force_set then None else base) of
                     Some b \<Rightarrow>
                       (case (as_string b, as_string candidate) of
                          (Some before, Some after) \<Rightarrow> emit_string_change before after path
                        | _ \<Rightarrow> [SetOp path candidate])
                   | None \<Rightarrow> [SetOp path candidate]))"

definition write_indexes :: "op list \<Rightarrow> nat list" where
  "write_indexes recorded = filter (\<lambda>index. is_write_op (recorded ! index)) [0..<length recorded]"

text \<open>Does the write at position \<open>left\<close> of the write list survive the others?\<close>

definition write_survives :: "op list \<Rightarrow> nat list \<Rightarrow> nat \<Rightarrow> bool" where
  "write_survives recorded writes left =
     list_all (\<lambda>right.
       let left_path = op_path (recorded ! (writes ! left));
           right_path = op_path (recorded ! (writes ! right))
       in right = left \<or>
          \<not> (has_same_path left_path right_path \<and> left < right) \<and>
          \<not> (path_is_prefix right_path left_path \<and> length right_path < length left_path))
       [0..<length writes]"

definition write_kept :: "op list \<Rightarrow> nat \<Rightarrow> bool" where
  "write_kept recorded index =
     (let writes = write_indexes recorded
      in list_ex (\<lambda>w. writes ! w = index \<and> write_survives recorded writes w) [0..<length writes])"

definition delete_kept :: "change_state \<Rightarrow> nat \<Rightarrow> bool" where
  "delete_kept state index =
     (let recorded = ch_recorded state; writes = write_indexes recorded
      in case deletion_path (recorded ! index) of
           None \<Rightarrow> False
         | Some deleted \<Rightarrow>
             \<not> list_ex (\<lambda>w. write_survives recorded writes w \<and>
                 (let write_path = op_path (recorded ! (writes ! w))
                  in path_is_prefix write_path deleted \<and> length write_path < length deleted))
               [0..<length writes] \<and>
             try_get_path (ch_base state) deleted \<noteq> None)"

definition collapse_ops :: "change_state \<Rightarrow> op list" where
  "collapse_ops state =
     concat (map (\<lambda>index.
        if write_kept (ch_recorded state) index then emit_write state (op_path (ch_recorded state ! index))
        else if delete_kept state index then [ch_recorded state ! index]
        else []) [0..<length (ch_recorded state)])"

definition recorded_ops :: "change_state \<Rightarrow> op list" where
  "recorded_ops state =
     (if kMaxDeltaOperations < length (ch_recorded state) then [ReplaceOp (ch_candidate state)]
      else ch_recorded state)"

section \<open>Drafts\<close>

definition draft_get :: "change_state \<Rightarrow> path \<Rightarrow> (tracker_error, json option) result" where
  "draft_get c path =
     (if ch_settled c then Inl SettledOverlay
      else (case validate_safe_path path of
              Inl e \<Rightarrow> Inl (DeltaError e)
            | Inr _ \<Rightarrow>
                if path = [] then Inr (Some (ch_candidate c))
                else (case try_get_path (ch_candidate c) (butlast path) of
                        None \<Rightarrow> Inl TrackerUnresolvable
                      | Some receiver \<Rightarrow>
                          (case last path of
                             PathKey key \<Rightarrow>
                               (case as_object receiver of
                                  None \<Rightarrow> Inl TrackerUnresolvable
                                | Some ob \<Rightarrow> Inr (find_member ob key))
                           | PathIndex position \<Rightarrow>
                               (case as_array receiver of
                                  None \<Rightarrow> Inl TrackerUnresolvable
                                | Some arr \<Rightarrow>
                                    if length arr \<le> position then Inr None
                                    else Inr (Some (arr ! position)))))))"

definition record_op :: "change_state \<Rightarrow> op \<Rightarrow> json \<Rightarrow> change_state" where
  "record_op c opn updated =
     c\<lparr>ch_recorded := ch_recorded c @ [opn], ch_candidate := updated\<rparr>"

text \<open>The guard shared by the writing operations of a draft at a non-empty path.\<close>

definition draft_guard :: "change_state \<Rightarrow> path \<Rightarrow> (tracker_error, unit) result" where
  "draft_guard c path =
     (if ch_settled c then Inl SettledOverlay
      else if path = [] then Inl (DeltaError PathEmpty)
      else (case validate_safe_path path of Inl e \<Rightarrow> Inl (DeltaError e) | Inr _ \<Rightarrow> Inr ()))"

definition draft_set :: "change_state \<Rightarrow> path \<Rightarrow> json \<Rightarrow> (tracker_error, change_state) result" where
  "draft_set c path v =
     (case draft_guard c path of
        Inl e \<Rightarrow> Inl e
      | Inr _ \<Rightarrow>
          if (case try_get_path (ch_candidate c) path of Some current \<Rightarrow> json_eq current v | None \<Rightarrow> False)
          then Inr c
          else (case set_path (ch_candidate c) path v of
                  Inl e \<Rightarrow> Inl (DeltaError e)
                | Inr updated \<Rightarrow> Inr (record_op c (SetOp path v) updated)))"

definition draft_erase :: "change_state \<Rightarrow> path \<Rightarrow> (tracker_error, change_state) result" where
  "draft_erase c path =
     (case draft_guard c path of
        Inl e \<Rightarrow> Inl e
      | Inr _ \<Rightarrow>
          if (case try_get_path (ch_candidate c) (butlast path) of
                Some parent_value \<Rightarrow> as_array parent_value \<noteq> None
              | None \<Rightarrow> False)
          then Inl ArrayHoles
          else (case erase_path (ch_candidate c) path of
                  Inl e \<Rightarrow> Inl (DeltaError e)
                | Inr (updated, changed) \<Rightarrow>
                    if \<not> changed then Inr c else Inr (record_op c (DeleteOp path) updated)))"

definition draft_append_string :: "change_state \<Rightarrow> path \<Rightarrow> string \<Rightarrow> (tracker_error, change_state) result" where
  "draft_append_string c path txt =
     (case draft_guard c path of
        Inl e \<Rightarrow> Inl e
      | Inr _ \<Rightarrow>
          (case get_path (ch_candidate c) path of
             Inl e \<Rightarrow> Inl (DeltaError e)
           | Inr current \<Rightarrow>
               (case as_string current of
                  None \<Rightarrow> Inl TrackerUnresolvable
                | Some str \<Rightarrow>
                    if txt = [] then Inr c
                    else (case set_path (ch_candidate c) path (JStr (str @ txt)) of
                            Inl e \<Rightarrow> Inl (DeltaError e)
                          | Inr updated \<Rightarrow> Inr (record_op c (AppendOp path txt) updated)))))"

definition draft_truncate_string :: "change_state \<Rightarrow> path \<Rightarrow> nat \<Rightarrow> (tracker_error, change_state) result" where
  "draft_truncate_string c path amount =
     (case draft_guard c path of
        Inl e \<Rightarrow> Inl e
      | Inr _ \<Rightarrow>
          (case get_path (ch_candidate c) path of
             Inl e \<Rightarrow> Inl (DeltaError e)
           | Inr current \<Rightarrow>
               (case as_string current of
                  None \<Rightarrow> Inl TrackerUnresolvable
                | Some _ \<Rightarrow>
                    if amount = 0 then Inr c
                    else (case truncate_string_path (ch_candidate c) path amount of
                            Inl e \<Rightarrow> Inl (DeltaError e)
                          | Inr updated \<Rightarrow>
                              if json_eq updated (ch_candidate c) then Inr c
                              else Inr (record_op c (TruncateOp path amount) updated)))))"

definition draft_splice ::
    "change_state \<Rightarrow> path \<Rightarrow> nat \<Rightarrow> nat \<Rightarrow> json list \<Rightarrow> (tracker_error, change_state) result" where
  "draft_splice c path index remove items =
     (if ch_settled c then Inl SettledOverlay
      else (case validate_safe_path path of
              Inl e \<Rightarrow> Inl (DeltaError e)
            | Inr _ \<Rightarrow>
                (case get_path (ch_candidate c) path of
                   Inl e \<Rightarrow> Inl (DeltaError e)
                 | Inr tgt \<Rightarrow>
                     (case as_array tgt of
                        None \<Rightarrow> Inl TrackerUnresolvable
                      | Some arr \<Rightarrow>
                          let ei = effective_index arr index; er = effective_remove arr index remove
                          in if er = 0 \<and> items = [] then Inr c
                             else (case splice_path (ch_candidate c) path ei er items of
                                     Inl e \<Rightarrow> Inl (DeltaError e)
                                   | Inr (updated, ai, ar) \<Rightarrow>
                                       Inr (c\<lparr>ch_structural := True,
                                              ch_recorded := ch_recorded c @
                                                (if ar \<noteq> 0 then [SpliceOp path ai ar []] else []) @
                                                (if items \<noteq> [] then [SpliceOp path ai 0 items] else []),
                                              ch_candidate := updated\<rparr>))))))"

definition draft_move :: "change_state \<Rightarrow> path \<Rightarrow> nat list \<Rightarrow> (tracker_error, change_state) result" where
  "draft_move c path permutation =
     (if ch_settled c then Inl SettledOverlay
      else (case validate_safe_path path of
              Inl e \<Rightarrow> Inl (DeltaError e)
            | Inr _ \<Rightarrow>
                (case validate_permutation permutation of
                   Inl e \<Rightarrow> Inl (DeltaError e)
                 | Inr _ \<Rightarrow>
                     (case get_path (ch_candidate c) path of
                        Inl e \<Rightarrow> Inl (DeltaError e)
                      | Inr tgt \<Rightarrow>
                          (case as_array tgt of
                             None \<Rightarrow> Inl TrackerUnresolvable
                           | Some arr \<Rightarrow>
                               if length arr \<noteq> length permutation then Inl TrackerUnresolvable
                               else if path_is_identity_permutation permutation then Inr c
                               else (case move_path (ch_candidate c) path permutation of
                                       Inl e \<Rightarrow> Inl (DeltaError e)
                                     | Inr updated \<Rightarrow>
                                         Inr ((record_op c (MoveOp path permutation) updated)
                                              \<lparr>ch_structural := True\<rparr>)))))))"

section \<open>Changes, prepared batches and the tracker\<close>

text \<open>The batch and the value a settling change hands out.\<close>

definition prepared_ops :: "change_state \<Rightarrow> op list" where
  "prepared_ops c =
     (let operations = (if ch_structural c then recorded_ops c else collapse_ops c)
      in if kMaxDeltaOperations < length operations then [ReplaceOp (ch_candidate c)] else operations)"

definition prepared_of :: "change_state \<Rightarrow> prepared_state" where
  "prepared_of c =
     \<lparr>pr_owner = ch_owner c, pr_base_token = ch_base_token c, pr_base_revision = ch_base_revision c,
      pr_base = ch_base c,
      pr_value = (if prepared_ops c = [] then ch_base c else ch_candidate c),
      pr_ops = prepared_ops c, pr_status = StPrepared\<rparr>"

definition change_prepare :: "heap \<Rightarrow> nat \<Rightarrow> (tracker_error, nat) result \<times> heap" where
  "change_prepare h cid =
     (case hp_changes h cid of
        None \<Rightarrow> (Inl ChangeAlreadySettled, h)
      | Some c \<Rightarrow>
          if ch_settled c then (Inl (if ch_stale c then SettledOverlay else ChangeAlreadySettled), h)
          else let pid = hp_fresh h
               in (Inr pid,
                   h\<lparr>hp_prepared := (hp_prepared h)(pid \<mapsto> prepared_of c),
                     hp_changes := (hp_changes h)(cid \<mapsto> c\<lparr>ch_settled := True, ch_prepared := Some pid\<rparr>),
                     hp_fresh := Suc pid\<rparr>))"

definition prepared_abort :: "heap \<Rightarrow> nat \<Rightarrow> heap" where
  "prepared_abort h pid =
     (case hp_prepared h pid of
        None \<Rightarrow> h
      | Some p \<Rightarrow>
          if pr_status p = StPrepared
          then h\<lparr>hp_prepared := (hp_prepared h)(pid \<mapsto> p\<lparr>pr_status := StAborted\<rparr>)\<rparr>
          else h)"

definition change_abort :: "heap \<Rightarrow> nat \<Rightarrow> heap" where
  "change_abort h cid =
     (case hp_changes h cid of
        None \<Rightarrow> h
      | Some c \<Rightarrow>
          if \<not> ch_settled c then h\<lparr>hp_changes := (hp_changes h)(cid \<mapsto> c\<lparr>ch_settled := True\<rparr>)\<rparr>
          else (case ch_prepared c of None \<Rightarrow> h | Some pid \<Rightarrow> prepared_abort h pid))"

definition tracker_begin_change :: "heap \<Rightarrow> nat \<Rightarrow> nat option \<times> heap" where
  "tracker_begin_change h tid =
     (case hp_trackers h tid of
        None \<Rightarrow> (None, h)
      | Some t \<Rightarrow>
          let cid = hp_fresh h;
              c = \<lparr>ch_owner = tr_owner t, ch_base_token = tr_revision_token t,
                   ch_base_revision = tr_revision t, ch_base = tr_value t, ch_candidate = tr_value t,
                   ch_recorded = [], ch_structural = False, ch_settled = False, ch_stale = False,
                   ch_prepared = None\<rparr>
          in (Some cid,
              h\<lparr>hp_changes := (hp_changes h)(cid \<mapsto> c),
                hp_trackers := (hp_trackers h)(tid \<mapsto> t\<lparr>tr_changes := tr_changes t @ [cid]\<rparr>),
                hp_fresh := Suc cid\<rparr>))"

definition tracker_prepare_replace :: "heap \<Rightarrow> nat \<Rightarrow> json \<Rightarrow> nat option \<times> heap" where
  "tracker_prepare_replace h tid v =
     (case hp_trackers h tid of
        None \<Rightarrow> (None, h)
      | Some t \<Rightarrow>
          let pid = hp_fresh h;
              equal = json_eq (tr_value t) v;
              p = \<lparr>pr_owner = tr_owner t, pr_base_token = tr_revision_token t,
                   pr_base_revision = tr_revision t, pr_base = tr_value t,
                   pr_value = (if equal then tr_value t else v),
                   pr_ops = (if equal then [] else [ReplaceOp v]), pr_status = StPrepared\<rparr>
          in (Some pid, h\<lparr>hp_prepared := (hp_prepared h)(pid \<mapsto> p), hp_fresh := Suc pid\<rparr>))"

text \<open>The open changes of the tracker are settled as stale by an adoption.\<close>

definition settle_stale :: "(nat \<rightharpoonup> change_state) \<Rightarrow> nat list \<Rightarrow> (nat \<rightharpoonup> change_state)" where
  "settle_stale changes ids =
     (\<lambda>cid. case changes cid of
        None \<Rightarrow> None
      | Some c \<Rightarrow>
          if cid \<in> set ids \<and> \<not> ch_settled c then Some (c\<lparr>ch_settled := True, ch_stale := True\<rparr>)
          else Some c)"

definition tracker_adopt :: "heap \<Rightarrow> nat \<Rightarrow> nat \<Rightarrow> (tracker_error, unit) result \<times> heap" where
  "tracker_adopt h tid pid =
     (case (hp_trackers h tid, hp_prepared h pid) of
        (Some t, Some p) \<Rightarrow>
          if pr_owner p \<noteq> tr_owner t then (Inl DifferentTracker, h)
          else if pr_status p = StConsumed then (Inl PreparedUsed, h)
          else if pr_status p = StAborted then (Inl PreparedAborted, h)
          else if pr_status p = StStale then (Inl PreparedStale, h)
          else if pr_status p \<noteq> StPrepared then (Inl PreparedNotReady, h)
          else if pr_base_revision p \<noteq> tr_revision t \<or> pr_base_token p \<noteq> tr_revision_token t
          then (Inl PreparedStale,
                h\<lparr>hp_prepared := (hp_prepared h)(pid \<mapsto> p\<lparr>pr_status := StStale\<rparr>)\<rparr>)
          else let token = hp_fresh h
               in (Inr (),
                   h\<lparr>hp_trackers := (hp_trackers h)(tid \<mapsto>
                        t\<lparr>tr_value := pr_value p, tr_revision_token := token,
                          tr_revision := tr_revision t + 1, tr_changes := []\<rparr>),
                     hp_prepared := (hp_prepared h)(pid \<mapsto> p\<lparr>pr_status := StConsumed\<rparr>),
                     hp_changes := settle_stale (hp_changes h) (tr_changes t),
                     hp_fresh := Suc token\<rparr>)
      | _ \<Rightarrow> (Inl PreparedNotReady, h))"

definition track :: "heap \<Rightarrow> json \<Rightarrow> nat \<times> heap" where
  "track h initial =
     (let tid = hp_fresh h
      in (tid, h\<lparr>hp_trackers := (hp_trackers h)(tid \<mapsto>
            \<lparr>tr_owner = Suc tid, tr_revision_token = Suc (Suc tid), tr_value = initial,
             tr_revision = 0, tr_changes = []\<rparr>),
          hp_fresh := Suc (Suc (Suc tid))\<rparr>))"

definition empty_heap :: heap where
  "empty_heap = \<lparr>hp_trackers = Map.empty, hp_changes = Map.empty, hp_prepared = Map.empty, hp_fresh = 0\<rparr>"

end
