(* ===== verification/Tracker_Laws.thy ===== *)
theory Tracker_Laws
  imports Tracker
begin

text \<open>
  Laws of drafts, changes and adoption. A draft's recorded operations replay its candidate
  from its base, whatever sequence of draft operations built it; every draft operation is an
  instance of one contract (the locale \<open>draft_operation\<close>). Adoption is optimistic
  concurrency control: an invariant of the heap ties every prepared batch that still names
  the current revision to the current value.
\<close>

section \<open>Drafts replay\<close>

definition replays :: "change_state \<Rightarrow> bool" where
  "replays c \<longleftrightarrow> apply_immutable (ch_base c) (ch_recorded c) = Inr (ch_candidate c)"

text \<open>What a draft operation leaves alone.\<close>

definition same_origin :: "change_state \<Rightarrow> change_state \<Rightarrow> bool" where
  "same_origin c c' \<longleftrightarrow>
     ch_base c' = ch_base c \<and> ch_owner c' = ch_owner c \<and> ch_base_token c' = ch_base_token c \<and>
     ch_base_revision c' = ch_base_revision c \<and> ch_settled c' = ch_settled c \<and>
     ch_stale c' = ch_stale c \<and> ch_prepared c' = ch_prepared c"

lemma replays_record:
  assumes "replays c" "validate_op x = Inr ()" "apply_op (ch_candidate c) x = Inr u"
  shows "replays (record_op c x u)"
  using assms by (simp add: replays_def record_op_def apply_immutable_append apply_immutable_Cons)

lemma same_origin_record: "same_origin c (record_op c x u)"
  by (simp add: same_origin_def record_op_def)

lemma same_origin_refl: "same_origin c c"
  by (simp add: same_origin_def)

lemma draft_guard_ok:
  "draft_guard c p = Inr u \<longleftrightarrow> \<not> ch_settled c \<and> validate_nonempty_path p = Inr ()"
  by (auto simp: draft_guard_def validate_nonempty_path_def split: sum.splits)

text \<open>The contract every draft operation meets.\<close>

locale draft_operation =
  fixes run :: "change_state \<Rightarrow> (tracker_error, change_state) result"
  assumes keeps_replay: "run c = Inr c' \<Longrightarrow> replays c \<Longrightarrow> replays c'"
    and keeps_origin: "run c = Inr c' \<Longrightarrow> same_origin c c'"
    and needs_open: "run c = Inr c' \<Longrightarrow> \<not> ch_settled c"
    and only_appends: "run c = Inr c' \<Longrightarrow> \<exists>xs. ch_recorded c' = ch_recorded c @ xs"
begin

lemma rejects_settled: "ch_settled c \<Longrightarrow> \<exists>e. run c = Inl e"
  using needs_open by (cases "run c") auto

lemma stays_open: "run c = Inr c' \<Longrightarrow> \<not> ch_settled c'"
  using needs_open keeps_origin by (fastforce simp: same_origin_def)

lemma delta_is_replayable:
  assumes run: "run c = Inr c'" and c: "replays c"
  shows "\<exists>xs. ch_recorded c' = ch_recorded c @ xs \<and> apply_immutable (ch_candidate c) xs = Inr (ch_candidate c')"
proof -
  obtain xs where xs: "ch_recorded c' = ch_recorded c @ xs" using only_appends [OF run] by blast
  have "ch_base c' = ch_base c" using keeps_origin [OF run] by (simp add: same_origin_def)
  then have "apply_immutable (ch_base c) (ch_recorded c @ xs) = Inr (ch_candidate c')"
    using keeps_replay [OF run c] xs by (simp add: replays_def)
  then show ?thesis using c xs by (auto simp: apply_immutable_append replays_def)
qed

end

text \<open>One recorded operation that is valid and yields the new candidate meets the contract.\<close>

lemma contract_of_record:
  assumes "\<And>c c'. run c = Inr c' \<Longrightarrow> \<not> ch_settled c \<and>
      (c' = c \<or> (\<exists>x u. c' = record_op c x u \<and> validate_op x = Inr () \<and> apply_op (ch_candidate c) x = Inr u))"
  shows "draft_operation run"
proof
  fix c c'
  assume run: "run c = Inr c'"
  show "\<not> ch_settled c" using assms [OF run] by simp
  show "replays c \<Longrightarrow> replays c'" using assms [OF run] replays_record by blast
  show "same_origin c c'" using assms [OF run] same_origin_record same_origin_refl by metis
  show "\<exists>xs. ch_recorded c' = ch_recorded c @ xs" using assms [OF run] by (auto simp: record_op_def)
qed

lemma draft_set_contract: "draft_operation (\<lambda>c. draft_set c p v)"
proof (rule contract_of_record)
  fix c c'
  assume "draft_set c p v = Inr c'"
  then show "\<not> ch_settled c \<and> (c' = c \<or> (\<exists>x u. c' = record_op c x u \<and> validate_op x = Inr () \<and>
      apply_op (ch_candidate c) x = Inr u))"
    by (auto simp: draft_set_def draft_guard_ok split: sum.splits if_splits
        intro!: exI [of _ "SetOp p v"])
qed

lemma draft_erase_contract: "draft_operation (\<lambda>c. draft_erase c p)"
proof (rule contract_of_record)
  fix c c'
  assume "draft_erase c p = Inr c'"
  then show "\<not> ch_settled c \<and> (c' = c \<or> (\<exists>x u. c' = record_op c x u \<and> validate_op x = Inr () \<and>
      apply_op (ch_candidate c) x = Inr u))"
    by (auto simp: draft_erase_def draft_guard_ok split: sum.splits if_splits prod.splits
        intro!: exI [of _ "DeleteOp p"])
qed

lemma draft_append_contract: "draft_operation (\<lambda>c. draft_append_string c p t)"
proof (rule contract_of_record)
  fix c c'
  assume "draft_append_string c p t = Inr c'"
  then show "\<not> ch_settled c \<and> (c' = c \<or> (\<exists>x u. c' = record_op c x u \<and> validate_op x = Inr () \<and>
      apply_op (ch_candidate c) x = Inr u))"
    by (auto simp: draft_append_string_def draft_guard_ok append_string_path_def
        split: sum.splits if_splits option.splits intro!: exI [of _ "AppendOp p t"])
qed

lemma draft_truncate_contract: "draft_operation (\<lambda>c. draft_truncate_string c p n)"
proof (rule contract_of_record)
  fix c c'
  assume "draft_truncate_string c p n = Inr c'"
  then show "\<not> ch_settled c \<and> (c' = c \<or> (\<exists>x u. c' = record_op c x u \<and> validate_op x = Inr () \<and>
      apply_op (ch_candidate c) x = Inr u))"
    by (auto simp: draft_truncate_string_def draft_guard_ok
        split: sum.splits if_splits option.splits intro!: exI [of _ "TruncateOp p n"])
qed

section \<open>Splices and moves\<close>

lemma splice_list_split:
  "i \<le> length arr \<Longrightarrow> splice_list (splice_list arr i n []) i 0 items = splice_list arr i n items"
  by (simp add: splice_list_def)

lemma length_splice_list:
  "i + n \<le> length arr \<Longrightarrow> length (splice_list arr i n items) = length arr - n + length items"
  by (simp add: splice_list_def)

lemma put_array_get: "put_array r p xs = Inr r' \<Longrightarrow> try_get_path r' p = Some (JArr xs)"
  by (auto simp: put_array_def json_path.get_put split: if_splits)

lemma put_array_put: "put_array r p xs = Inr r' \<Longrightarrow> put_array r' p ys = put_array r p ys"
  by (auto simp: put_array_def json_path.put_put split: if_splits)

lemma put_array_ok: "try_get_path r p = Some v \<Longrightarrow> \<exists>r'. put_array r p xs = Inr r'"
  by (auto simp: put_array_def json_path.put_ok)

lemma apply_splice:
  assumes "try_get_path r p = Some (JArr arr)"
  shows "apply_op r (SpliceOp p i n items) =
    put_array r p (splice_list arr (effective_index arr i) (effective_remove arr i n) items)"
  using assms by (auto simp: splice_path_def get_path_def Let_def split: sum.splits)

lemma splice_in_two:
  assumes get: "try_get_path r p = Some (JArr arr)" and i: "i \<le> length arr" and n: "n \<le> length arr - i"
    and put: "put_array r p (splice_list arr i n items) = Inr u" and safe: "validate_safe_path p = Inr ()"
  shows "apply_immutable r ((if n \<noteq> 0 then [SpliceOp p i n []] else []) @
    (if items \<noteq> [] then [SpliceOp p i 0 items] else [])) = Inr u \<or> n = 0 \<and> items = []"
proof -
  have eff: "effective_index arr i = i" "effective_remove arr i n = n" "effective_remove arr i 0 = 0"
    using i n by (auto simp: effective_index_def effective_remove_def)
  obtain m where m: "put_array r p (splice_list arr i n []) = Inr m" using put_array_ok [OF get] by blast
  have gm: "try_get_path m p = Some (JArr (splice_list arr i n []))" using put_array_get [OF m] .
  have "i \<le> length (splice_list arr i n [])"
    using i n length_splice_list [of i n arr "[]"] by simp
  then have eff': "effective_index (splice_list arr i n []) i = i"
      "effective_remove (splice_list arr i n []) i 0 = 0"
    by (auto simp: effective_index_def effective_remove_def)
  have two: "apply_op m (SpliceOp p i 0 items) = Inr u"
    unfolding apply_splice [OF gm] eff' using put_array_put [OF m] put splice_list_split [OF i] by simp
  have one: "apply_op r (SpliceOp p i n []) = Inr m"
    unfolding apply_splice [OF get] eff using m by simp
  have only: "n = 0 \<Longrightarrow> apply_op r (SpliceOp p i 0 items) = Inr u"
    unfolding apply_splice [OF get] eff(1,3) using put by simp
  have um: "items = [] \<Longrightarrow> u = m" using put m by simp
  show ?thesis using one two only um safe
    by (auto simp: apply_immutable_Cons simp del: apply_op.simps)
qed

lemma draft_splice_contract: "draft_operation (\<lambda>c. draft_splice c p i n items)"
proof
  fix c c'
  assume run: "draft_splice c p i n items = Inr c'"
  then have opn: "\<not> ch_settled c" by (auto simp: draft_splice_def split: if_splits)
  from run have safe: "validate_safe_path p = Inr ()"
    by (auto simp: draft_splice_def split: if_splits sum.splits)
  from run opn safe obtain arr where get: "try_get_path (ch_candidate c) p = Some (JArr arr)"
    by (auto simp: draft_splice_def get_path_def as_Some split: option.splits)
  define ei er where "ei = effective_index arr i" and "er = effective_remove arr i n"
  have ei: "ei \<le> length arr" and er: "er \<le> length arr - ei"
    by (auto simp: ei_def er_def effective_index_def effective_remove_def)
  have eff: "effective_index arr ei = ei" "effective_remove arr ei er = er"
    using ei er by (auto simp: effective_index_def effective_remove_def)
  define added where "added = (if er \<noteq> 0 then [SpliceOp p ei er []] else []) @
    (if items \<noteq> [] then [SpliceOp p ei 0 items] else [])"
  have cases: "c' = c \<or> \<not> (er = 0 \<and> items = []) \<and>
      (\<exists>u. put_array (ch_candidate c) p (splice_list arr ei er items) = Inr u \<and>
         c' = c\<lparr>ch_structural := True, ch_recorded := ch_recorded c @ added, ch_candidate := u\<rparr>)"
    using run opn safe get eff unfolding added_def
    by (auto simp: draft_splice_def splice_path_def get_path_def Let_def
        ei_def [symmetric] er_def [symmetric] split: sum.splits if_splits)
  show "\<not> ch_settled c" by (rule opn)
  show "same_origin c c'" using cases by (auto simp: same_origin_def)
  show "\<exists>xs. ch_recorded c' = ch_recorded c @ xs" using cases by auto
  show "replays c'" if c: "replays c"
  proof (cases "c' = c")
    case False
    then obtain u where put: "put_array (ch_candidate c) p (splice_list arr ei er items) = Inr u"
      and c': "c' = c\<lparr>ch_structural := True, ch_recorded := ch_recorded c @ added, ch_candidate := u\<rparr>"
      and some: "\<not> (er = 0 \<and> items = [])"
      using cases by blast
    have "apply_immutable (ch_candidate c) added = Inr u"
      using splice_in_two [OF get ei er put safe] some unfolding added_def by blast
    then show ?thesis using c unfolding c' by (auto simp: replays_def apply_immutable_append)
  qed (use c in simp)
qed

lemma draft_move_contract: "draft_operation (\<lambda>c. draft_move c p ps)"
proof
  fix c c'
  assume run: "draft_move c p ps = Inr c'"
  then have cases: "\<not> ch_settled c \<and> (c' = c \<or>
      (\<exists>u. c' = (record_op c (MoveOp p ps) u)\<lparr>ch_structural := True\<rparr> \<and>
         validate_op (MoveOp p ps) = Inr () \<and> apply_op (ch_candidate c) (MoveOp p ps) = Inr u))"
    by (auto simp: draft_move_def split: if_splits sum.splits option.splits)
  show "\<not> ch_settled c" using cases by simp
  show "same_origin c c'" using cases by (auto simp: same_origin_def record_op_def)
  show "\<exists>xs. ch_recorded c' = ch_recorded c @ xs" using cases by (auto simp: record_op_def)
  show "replays c'" if "replays c"
    using cases that replays_record [of c "MoveOp p ps"] by (auto simp: replays_def)
qed

interpretation dset: draft_operation "\<lambda>c. draft_set c p v" for p v by (rule draft_set_contract)
interpretation derase: draft_operation "\<lambda>c. draft_erase c p" for p by (rule draft_erase_contract)
interpretation dappend: draft_operation "\<lambda>c. draft_append_string c p t" for p t by (rule draft_append_contract)
interpretation dtruncate: draft_operation "\<lambda>c. draft_truncate_string c p n" for p n by (rule draft_truncate_contract)
interpretation dsplice: draft_operation "\<lambda>c. draft_splice c p i n items" for p i n items by (rule draft_splice_contract)
interpretation dmove: draft_operation "\<lambda>c. draft_move c p ps" for p ps by (rule draft_move_contract)

text \<open>A draft session: any sequence of successful draft operations.\<close>

inductive draft_step :: "change_state \<Rightarrow> change_state \<Rightarrow> bool" where
  step_set: "draft_set c p v = Inr c' \<Longrightarrow> draft_step c c'"
| step_erase: "draft_erase c p = Inr c' \<Longrightarrow> draft_step c c'"
| step_append: "draft_append_string c p t = Inr c' \<Longrightarrow> draft_step c c'"
| step_truncate: "draft_truncate_string c p n = Inr c' \<Longrightarrow> draft_step c c'"
| step_splice: "draft_splice c p i n items = Inr c' \<Longrightarrow> draft_step c c'"
| step_move: "draft_move c p ps = Inr c' \<Longrightarrow> draft_step c c'"

lemmas draft_replay = dset.keeps_replay derase.keeps_replay dappend.keeps_replay
  dtruncate.keeps_replay dsplice.keeps_replay dmove.keeps_replay
lemmas draft_origin = dset.keeps_origin derase.keeps_origin dappend.keeps_origin
  dtruncate.keeps_origin dsplice.keeps_origin dmove.keeps_origin

lemma draft_step_replays: "draft_step c c' \<Longrightarrow> replays c \<Longrightarrow> replays c'"
  by (induction rule: draft_step.induct) (blast intro: draft_replay)+

lemma draft_step_origin: "draft_step c c' \<Longrightarrow> same_origin c c'"
  by (induction rule: draft_step.induct) (blast intro: draft_origin)+

lemma same_origin_trans: "same_origin a b \<Longrightarrow> same_origin b c \<Longrightarrow> same_origin a c"
  by (simp add: same_origin_def)

lemma drafts_replay: "draft_step\<^sup>*\<^sup>* c c' \<Longrightarrow> replays c \<Longrightarrow> replays c' \<and> same_origin c c'"
  by (induction rule: rtranclp_induct)
    (auto intro: draft_step_replays same_origin_refl same_origin_trans draft_step_origin)

section \<open>Prepared batches\<close>

lemma prepared_structural:
  assumes "replays c" "ch_structural c"
  shows "apply_immutable (pr_base (prepared_of c)) (pr_ops (prepared_of c)) = Inr (pr_value (prepared_of c))"
proof (cases "kMaxDeltaOperations < length (ch_recorded c)")
  case True
  then show ?thesis using assms
    by (simp add: prepared_of_def prepared_ops_def recorded_ops_def kMaxDeltaOperations_def apply_immutable_Cons)
next
  case False
  then show ?thesis using assms
    by (auto simp: prepared_of_def prepared_ops_def recorded_ops_def replays_def)
qed

lemma prepared_ops_bounded: "length (prepared_ops c) \<le> kMaxDeltaOperations"
  by (simp add: prepared_ops_def Let_def kMaxDeltaOperations_def)

section \<open>The heap\<close>

definition with_change :: "heap \<Rightarrow> nat \<Rightarrow> change_state \<Rightarrow> heap" where
  "with_change h cid c = h\<lparr>hp_changes := (hp_changes h)(cid \<mapsto> c)\<rparr>"

inductive heap_step :: "heap \<Rightarrow> heap \<Rightarrow> bool" where
  heap_track: "heap_step h (snd (track h v))"
| heap_begin: "heap_step h (snd (tracker_begin_change h tid))"
| heap_draft: "hp_changes h cid = Some c \<Longrightarrow> draft_step c c' \<Longrightarrow> heap_step h (with_change h cid c')"
| heap_prepare: "heap_step h (snd (change_prepare h cid))"
| heap_replace: "heap_step h (snd (tracker_prepare_replace h tid v))"
| heap_abort_change: "heap_step h (change_abort h cid)"
| heap_abort_prepared: "heap_step h (prepared_abort h pid)"
| heap_adopt: "heap_step h (snd (tracker_adopt h tid pid))"

inductive heap_reachable :: "heap \<Rightarrow> bool" where
  reach_empty: "heap_reachable empty_heap"
| reach_step: "heap_reachable h \<Longrightarrow> heap_step h h' \<Longrightarrow> heap_reachable h'"

text \<open>
  The invariant: every name and token is older than the next fresh one, no two trackers
  share an owner or a revision token, and whoever names the current token of a tracker was
  made from its current revision and value.
\<close>

definition fresh_ok :: "heap \<Rightarrow> bool" where
  "fresh_ok h \<longleftrightarrow>
     (\<forall>tid t. hp_trackers h tid = Some t \<longrightarrow>
        tid < hp_fresh h \<and> tr_owner t < hp_fresh h \<and> tr_revision_token t < hp_fresh h) \<and>
     (\<forall>pid p. hp_prepared h pid = Some p \<longrightarrow> pid < hp_fresh h \<and> pr_base_token p < hp_fresh h) \<and>
     (\<forall>cid c. hp_changes h cid = Some c \<longrightarrow> cid < hp_fresh h \<and> ch_base_token c < hp_fresh h)"

definition tokens_distinct :: "heap \<Rightarrow> bool" where
  "tokens_distinct h \<longleftrightarrow>
     (\<forall>tid tid' t t'. hp_trackers h tid = Some t \<longrightarrow> hp_trackers h tid' = Some t' \<longrightarrow> tid \<noteq> tid' \<longrightarrow>
        tr_revision_token t \<noteq> tr_revision_token t' \<and> tr_owner t \<noteq> tr_owner t')"

definition prepared_tied :: "heap \<Rightarrow> bool" where
  "prepared_tied h \<longleftrightarrow>
     (\<forall>tid t pid p. hp_trackers h tid = Some t \<longrightarrow> hp_prepared h pid = Some p \<longrightarrow>
        pr_base_token p = tr_revision_token t \<longrightarrow>
        pr_owner p = tr_owner t \<and> pr_base_revision p = tr_revision t \<and> pr_base p = tr_value t)"

definition changes_tied :: "heap \<Rightarrow> bool" where
  "changes_tied h \<longleftrightarrow>
     (\<forall>tid t cid c. hp_trackers h tid = Some t \<longrightarrow> hp_changes h cid = Some c \<longrightarrow>
        ch_base_token c = tr_revision_token t \<longrightarrow>
        ch_owner c = tr_owner t \<and> ch_base_revision c = tr_revision t \<and> ch_base c = tr_value t)"

definition changes_replay :: "heap \<Rightarrow> bool" where
  "changes_replay h \<longleftrightarrow> (\<forall>cid c. hp_changes h cid = Some c \<longrightarrow> replays c)"

definition heap_inv :: "heap \<Rightarrow> bool" where
  "heap_inv h \<longleftrightarrow> fresh_ok h \<and> tokens_distinct h \<and> prepared_tied h \<and> changes_tied h \<and> changes_replay h"

lemmas heap_inv_defs = heap_inv_def fresh_ok_def tokens_distinct_def prepared_tied_def
  changes_tied_def changes_replay_def

lemma heap_inv_empty: "heap_inv empty_heap"
  by (simp add: heap_inv_defs empty_heap_def)

text \<open>Steps that keep every tracker and only touch flags, statuses or the draft of a change.\<close>

lemma replays_flags [simp]:
  "replays (c\<lparr>ch_settled := b\<rparr>) = replays c"
  "replays (c\<lparr>ch_settled := b, ch_stale := d\<rparr>) = replays c"
  "replays (c\<lparr>ch_settled := b, ch_prepared := q\<rparr>) = replays c"
  by (simp_all add: replays_def)

lemma heap_inv_with_change:
  assumes "heap_inv h" "hp_changes h cid = Some c" "same_origin c c'" "replays c'"
  shows "heap_inv (with_change h cid c')"
  using assms unfolding heap_inv_defs with_change_def same_origin_def
  by (simp split: if_splits)

lemma heap_inv_status:
  assumes "heap_inv h" "hp_prepared h pid = Some p"
  shows "heap_inv (h\<lparr>hp_prepared := (hp_prepared h)(pid \<mapsto> p\<lparr>pr_status := st\<rparr>)\<rparr>)"
  using assms unfolding heap_inv_defs by (simp split: if_splits)

lemma heap_inv_settle:
  assumes "heap_inv h" "hp_changes h cid = Some c"
  shows "heap_inv (h\<lparr>hp_changes := (hp_changes h)(cid \<mapsto> c\<lparr>ch_settled := True\<rparr>)\<rparr>)"
  using assms unfolding heap_inv_defs by (simp split: if_splits)

lemma heap_inv_track: "heap_inv h \<Longrightarrow> heap_inv (snd (track h v))"
  unfolding heap_inv_defs track_def Let_def
  by (auto split: if_splits dest: less_not_refl3 order.strict_trans) (metis lessI less_SucI less_irrefl not_less_eq less_imp_not_less)+

lemma replays_start: "ch_recorded c = [] \<Longrightarrow> ch_candidate c = ch_base c \<Longrightarrow> replays c"
  by (simp add: replays_def)

lemma heap_inv_begin: "heap_inv h \<Longrightarrow> heap_inv (snd (tracker_begin_change h tid))"
  unfolding heap_inv_defs tracker_begin_change_def Let_def
  by (cases "hp_trackers h tid") (auto split: if_splits simp: less_Suc_eq replays_start)

text \<open>A new batch that is tied to whatever tracker its token names keeps the invariant.\<close>

lemma heap_inv_new_prepared:
  assumes "heap_inv h" and "pr_base_token p < hp_fresh h"
    and "\<And>tid t. hp_trackers h tid = Some t \<Longrightarrow> pr_base_token p = tr_revision_token t \<Longrightarrow>
          pr_owner p = tr_owner t \<and> pr_base_revision p = tr_revision t \<and> pr_base p = tr_value t"
  shows "heap_inv (h\<lparr>hp_prepared := (hp_prepared h)(hp_fresh h \<mapsto> p), hp_fresh := Suc (hp_fresh h)\<rparr>)"
  using assms unfolding heap_inv_defs by (auto simp: less_Suc_eq)

lemma heap_inv_replace: "heap_inv h \<Longrightarrow> heap_inv (snd (tracker_prepare_replace h tid v))"
proof (cases "hp_trackers h tid")
  case (Some t)
  assume h: "heap_inv h"
  have *: "t' = t" if "hp_trackers h tid' = Some t'" "tr_revision_token t = tr_revision_token t'" for tid' t'
    using h Some that unfolding heap_inv_def tokens_distinct_def by (metis option.inject)
  have "tr_revision_token t < hp_fresh h" using h Some by (simp add: heap_inv_def fresh_ok_def)
  then show ?thesis using Some h
    by (auto simp: tracker_prepare_replace_def Let_def dest: * intro!: heap_inv_new_prepared)
qed (simp add: tracker_prepare_replace_def)

lemma change_tied:
  assumes "heap_inv h" "hp_changes h cid = Some c" "hp_trackers h tid = Some t"
    "ch_base_token c = tr_revision_token t"
  shows "ch_owner c = tr_owner t \<and> ch_base_revision c = tr_revision t \<and> ch_base c = tr_value t"
  using assms unfolding heap_inv_def changes_tied_def by blast

lemma heap_inv_prepare: "heap_inv h \<Longrightarrow> heap_inv (snd (change_prepare h cid))"
proof (cases "hp_changes h cid")
  case (Some c)
  assume h: "heap_inv h"
  define h1 where "h1 = with_change h cid (c\<lparr>ch_settled := True, ch_prepared := Some (hp_fresh h)\<rparr>)"
  have rep: "replays c" using h Some unfolding heap_inv_def changes_replay_def by blast
  have h1: "heap_inv h1"
    using h Some rep unfolding heap_inv_defs h1_def with_change_def by (simp split: if_splits)
  have tok: "ch_base_token c < hp_fresh h1" using h Some by (simp add: heap_inv_def fresh_ok_def h1_def with_change_def)
  have "heap_inv (h1\<lparr>hp_prepared := (hp_prepared h1)(hp_fresh h1 \<mapsto> prepared_of c), hp_fresh := Suc (hp_fresh h1)\<rparr>)"
    using h1 tok change_tied [OF h Some]
    by (intro heap_inv_new_prepared) (auto simp: prepared_of_def h1_def with_change_def)
  moreover have "\<not> ch_settled c \<Longrightarrow> snd (change_prepare h cid) =
      h1\<lparr>hp_prepared := (hp_prepared h1)(hp_fresh h1 \<mapsto> prepared_of c), hp_fresh := Suc (hp_fresh h1)\<rparr>"
    using Some by (cases h) (simp add: change_prepare_def Let_def h1_def with_change_def)
  ultimately show ?thesis using Some h by (cases "ch_settled c") (simp_all add: change_prepare_def)
qed (simp add: change_prepare_def)

lemma heap_inv_prepared_abort: "heap_inv h \<Longrightarrow> heap_inv (prepared_abort h pid)"
  by (auto simp: prepared_abort_def split: option.splits intro: heap_inv_status)

lemma heap_inv_change_abort: "heap_inv h \<Longrightarrow> heap_inv (change_abort h cid)"
  by (auto simp: change_abort_def split: option.splits intro: heap_inv_settle heap_inv_prepared_abort)

lemma heap_inv_draft:
  assumes "heap_inv h" "hp_changes h cid = Some c" "draft_step c c'"
  shows "heap_inv (with_change h cid c')"
  using assms draft_step_replays [of c c'] draft_step_origin [of c c']
  by (intro heap_inv_with_change) (auto simp: heap_inv_def changes_replay_def)

section \<open>Adoption\<close>

text \<open>The heap after a successful adoption.\<close>

definition adopted_heap :: "heap \<Rightarrow> nat \<Rightarrow> tracker_state \<Rightarrow> nat \<Rightarrow> prepared_state \<Rightarrow> heap" where
  "adopted_heap h tid t pid p =
     h\<lparr>hp_trackers := (hp_trackers h)(tid \<mapsto>
          t\<lparr>tr_value := pr_value p, tr_revision_token := hp_fresh h,
            tr_revision := tr_revision t + 1, tr_changes := []\<rparr>),
       hp_prepared := (hp_prepared h)(pid \<mapsto> p\<lparr>pr_status := StConsumed\<rparr>),
       hp_changes := settle_stale (hp_changes h) (tr_changes t),
       hp_fresh := Suc (hp_fresh h)\<rparr>"

definition adoptable :: "tracker_state \<Rightarrow> prepared_state \<Rightarrow> bool" where
  "adoptable t p \<longleftrightarrow> pr_owner p = tr_owner t \<and> pr_status p = StPrepared \<and>
     pr_base_revision p = tr_revision t \<and> pr_base_token p = tr_revision_token t"

lemma adopt_ok_iff:
  "fst (tracker_adopt h tid pid) = Inr () \<longleftrightarrow>
     (\<exists>t p. hp_trackers h tid = Some t \<and> hp_prepared h pid = Some p \<and> adoptable t p)"
  by (auto simp: tracker_adopt_def adoptable_def Let_def split: option.splits)

lemma adopt_ok_heap:
  assumes "hp_trackers h tid = Some t" "hp_prepared h pid = Some p" "adoptable t p"
  shows "tracker_adopt h tid pid = (Inr (), adopted_heap h tid t pid p)"
  using assms by (simp add: tracker_adopt_def adoptable_def adopted_heap_def Let_def)

lemma adopt_error_heap:
  assumes "fst (tracker_adopt h tid pid) = Inl e"
  shows "snd (tracker_adopt h tid pid) = h \<or>
    (\<exists>p. hp_prepared h pid = Some p \<and>
       snd (tracker_adopt h tid pid) = h\<lparr>hp_prepared := (hp_prepared h)(pid \<mapsto> p\<lparr>pr_status := StStale\<rparr>)\<rparr>)"
  using assms by (auto simp: tracker_adopt_def Let_def split: option.splits if_splits)

lemma settle_stale_Some:
  "settle_stale m ids cid = Some c \<longleftrightarrow>
     (\<exists>d. m cid = Some d \<and>
        c = (if cid \<in> set ids \<and> \<not> ch_settled d then d\<lparr>ch_settled := True, ch_stale := True\<rparr> else d))"
  by (auto simp: settle_stale_def split: option.splits)

lemma heap_inv_adopted:
  assumes h: "heap_inv h" and t: "hp_trackers h tid = Some t" and p: "hp_prepared h pid = Some p"
  shows "heap_inv (adopted_heap h tid t pid p)"
proof -
  let ?h = "adopted_heap h tid t pid p"
  have f: "fresh_ok h" and d: "tokens_distinct h" and pt: "prepared_tied h" and ct: "changes_tied h"
    and cr: "changes_replay h" using h by (auto simp: heap_inv_def)
  have np: "pr_base_token q \<noteq> hp_fresh h" if "hp_prepared h qid = Some q" for qid q
    using f that unfolding fresh_ok_def by (metis less_irrefl)
  have nc: "ch_base_token c \<noteq> hp_fresh h" if "hp_changes h cid = Some c" for cid c
    using f that unfolding fresh_ok_def by (metis less_irrefl)
  have "fresh_ok ?h" using f t p unfolding fresh_ok_def adopted_heap_def
    by (auto simp: settle_stale_Some less_Suc_eq split: if_splits)
  moreover have "tokens_distinct ?h" using f d t unfolding tokens_distinct_def fresh_ok_def adopted_heap_def
    by (auto split: if_splits) (metis less_irrefl)+
  moreover have "prepared_tied ?h" using pt t p unfolding prepared_tied_def adopted_heap_def
    by (auto split: if_splits dest: np)
  moreover have "changes_tied ?h" using ct t unfolding changes_tied_def adopted_heap_def
    by (auto simp: settle_stale_Some split: if_splits dest: nc)
  moreover have "changes_replay ?h" using cr unfolding changes_replay_def adopted_heap_def
    by (auto simp: settle_stale_Some)
  ultimately show ?thesis by (simp add: heap_inv_def)
qed

lemma heap_inv_adopt:
  assumes "heap_inv h"
  shows "heap_inv (snd (tracker_adopt h tid pid))"
proof (cases "fst (tracker_adopt h tid pid)")
  case (Inl e)
  then show ?thesis using adopt_error_heap [OF Inl] heap_inv_status [OF assms] assms by auto
next
  case (Inr u)
  then show ?thesis using adopt_ok_iff [of h tid pid] adopt_ok_heap heap_inv_adopted [OF assms] by auto
qed

lemma heap_inv_step: "heap_step h h' \<Longrightarrow> heap_inv h \<Longrightarrow> heap_inv h'"
  by (induction rule: heap_step.induct)
    (auto intro: heap_inv_track heap_inv_begin heap_inv_draft heap_inv_prepare heap_inv_replace
      heap_inv_change_abort heap_inv_prepared_abort heap_inv_adopt)

lemma heap_reachable_inv: "heap_reachable h \<Longrightarrow> heap_inv h"
  by (induction rule: heap_reachable.induct) (auto intro: heap_inv_empty heap_inv_step)

text \<open>
  What a successful adoption means: the batch was made from the value the tracker holds at
  that moment, and afterwards the tracker holds the batch's value under the next revision.
\<close>

lemma adopt_installs:
  assumes inv: "heap_inv h" and ok: "tracker_adopt h tid pid = (Inr (), h')"
  obtains t p t' where "hp_trackers h tid = Some t" "hp_prepared h pid = Some p" "hp_trackers h' tid = Some t'"
    "pr_base p = tr_value t" "tr_value t' = pr_value p" "tr_revision t' = tr_revision t + 1"
proof -
  from ok obtain t p where t: "hp_trackers h tid = Some t" and p: "hp_prepared h pid = Some p"
    and a: "adoptable t p" using adopt_ok_iff [of h tid pid] by auto
  have h': "h' = adopted_heap h tid t pid p" using adopt_ok_heap [OF t p a] ok by simp
  have "pr_base p = tr_value t" using inv t p a
    unfolding heap_inv_def prepared_tied_def adoptable_def by blast
  then show ?thesis using that [OF t p] by (simp add: h' adopted_heap_def)
qed

lemma adopt_leaves_others:
  assumes "tracker_adopt h tid pid = (Inr (), h')" "tid' \<noteq> tid"
  shows "hp_trackers h' tid' = hp_trackers h tid'"
proof -
  from assms obtain t p where t: "hp_trackers h tid = Some t" and p: "hp_prepared h pid = Some p"
    and a: "adoptable t p" using adopt_ok_iff [of h tid pid] by auto
  then show ?thesis using adopt_ok_heap [OF t p a] assms by (simp add: adopted_heap_def)
qed

text \<open>
  After an adoption nothing made from the earlier value can be adopted any more: the batch
  itself is used up, and every other batch of the same revision is stale, however the heap
  evolves.
\<close>

definition outdated :: "heap \<Rightarrow> nat \<Rightarrow> nat \<Rightarrow> bool" where
  "outdated h tid pid \<longleftrightarrow>
     (\<exists>p. hp_prepared h pid = Some p \<and>
       (\<forall>t. hp_trackers h tid = Some t \<longrightarrow> pr_status p \<noteq> StPrepared \<or> pr_base_token p \<noteq> tr_revision_token t))"

lemma outdated_not_adopted: "outdated h tid pid \<Longrightarrow> fst (tracker_adopt h tid pid) \<noteq> Inr ()"
  by (auto simp: outdated_def adopt_ok_iff adoptable_def)

lemma adopt_outdates:
  assumes inv: "heap_inv h" and ok: "tracker_adopt h tid pid = (Inr (), h')"
    and q: "hp_prepared h qid = Some q"
  shows "outdated h' tid qid"
proof -
  from ok obtain t p where t: "hp_trackers h tid = Some t" and p: "hp_prepared h pid = Some p"
    and a: "adoptable t p" using adopt_ok_iff [of h tid pid] by auto
  have h': "h' = adopted_heap h tid t pid p" using adopt_ok_heap [OF t p a] ok by simp
  have "pr_base_token q < hp_fresh h" using inv q by (simp add: heap_inv_def fresh_ok_def)
  then show ?thesis using q by (auto simp: outdated_def h' adopted_heap_def)
qed

text \<open>How a step may change a batch or a tracker that is already there.\<close>

definition older :: "heap \<Rightarrow> heap \<Rightarrow> bool" where
  "older h h' \<longleftrightarrow> hp_fresh h \<le> hp_fresh h' \<and>
     (\<forall>pid p. hp_prepared h pid = Some p \<longrightarrow>
        (\<exists>p'. hp_prepared h' pid = Some p' \<and> pr_base_token p' = pr_base_token p \<and>
           (pr_status p \<noteq> StPrepared \<longrightarrow> pr_status p' \<noteq> StPrepared))) \<and>
     (\<forall>tid t'. hp_trackers h' tid = Some t' \<longrightarrow>
        (\<exists>t. hp_trackers h tid = Some t \<and> tr_revision_token t' = tr_revision_token t) \<or>
        hp_fresh h \<le> tr_revision_token t')"

lemma older_same:
  assumes "hp_fresh h \<le> hp_fresh h'" "hp_trackers h' = hp_trackers h"
    "\<And>pid p. hp_prepared h pid = Some p \<Longrightarrow> hp_prepared h' pid = Some p"
  shows "older h h'"
  using assms by (auto simp: older_def)

lemma older_status:
  assumes "hp_prepared h pid = Some p" "st \<noteq> StPrepared"
  shows "older h (h\<lparr>hp_prepared := (hp_prepared h)(pid \<mapsto> p\<lparr>pr_status := st\<rparr>)\<rparr>)"
  using assms by (auto simp: older_def)

lemma fresh_names:
  assumes "heap_inv h"
  shows "hp_prepared h (hp_fresh h) = None" "hp_changes h (hp_fresh h) = None"
    "hp_trackers h (hp_fresh h) = None"
  using assms unfolding heap_inv_def fresh_ok_def
  by (metis less_irrefl option.exhaust)+

lemma older_prepared_abort: "older h (prepared_abort h pid)"
  by (auto simp: prepared_abort_def older_same intro: older_status split: option.splits)

lemma older_change_abort: "older h (change_abort h cid)"
  by (auto simp: change_abort_def older_same older_prepared_abort split: option.splits)

lemma older_adopt: "older h (snd (tracker_adopt h tid pid))"
proof (cases "fst (tracker_adopt h tid pid)")
  case (Inl e)
  then show ?thesis using adopt_error_heap [OF Inl] older_status older_same [of h h] by fastforce
next
  case (Inr u)
  then obtain t p where t: "hp_trackers h tid = Some t" and p: "hp_prepared h pid = Some p"
    and a: "adoptable t p" using adopt_ok_iff [of h tid pid] by auto
  have "older h (adopted_heap h tid t pid p)"
    using p by (auto simp: older_def adopted_heap_def)
  then show ?thesis using adopt_ok_heap [OF t p a] by simp
qed

lemma older_step: "heap_step h h' \<Longrightarrow> heap_inv h \<Longrightarrow> older h h'"
proof (induction rule: heap_step.induct)
  case (heap_track h v)
  then show ?case by (auto simp: older_def track_def Let_def)
next
  case (heap_begin h tid)
  then show ?case
    by (cases "hp_trackers h tid") (auto simp: older_def tracker_begin_change_def Let_def)
next
  case (heap_draft h cid c c')
  then show ?case by (simp add: older_same with_change_def)
next
  case (heap_prepare h cid)
  then show ?case using fresh_names [of h]
    by (cases "hp_changes h cid") (auto simp: older_def change_prepare_def Let_def)
next
  case (heap_replace h tid v)
  then show ?case using fresh_names [of h]
    by (cases "hp_trackers h tid") (auto simp: older_def tracker_prepare_replace_def Let_def)
qed (simp_all add: older_change_abort older_prepared_abort older_adopt)

lemma outdated_older:
  assumes inv: "heap_inv h" and o: "outdated h tid pid" and le: "older h h'"
  shows "outdated h' tid pid"
proof -
  from o obtain p where p: "hp_prepared h pid = Some p"
    and no: "\<And>t. hp_trackers h tid = Some t \<Longrightarrow> pr_status p \<noteq> StPrepared \<or> pr_base_token p \<noteq> tr_revision_token t"
    by (auto simp: outdated_def)
  have tok: "pr_base_token p < hp_fresh h" using inv p by (simp add: heap_inv_def fresh_ok_def)
  obtain p' where p': "hp_prepared h' pid = Some p'" "pr_base_token p' = pr_base_token p"
    "pr_status p \<noteq> StPrepared \<longrightarrow> pr_status p' \<noteq> StPrepared"
    using le p unfolding older_def by blast
  have "pr_status p' \<noteq> StPrepared \<or> pr_base_token p' \<noteq> tr_revision_token t'"
    if "hp_trackers h' tid = Some t'" for t'
  proof -
    have "(\<exists>t. hp_trackers h tid = Some t \<and> tr_revision_token t' = tr_revision_token t) \<or>
        hp_fresh h \<le> tr_revision_token t'"
      using le that unfolding older_def by blast
    then show ?thesis using p' no tok by fastforce
  qed
  then show ?thesis using p' by (auto simp: outdated_def)
qed

lemma outdated_forever:
  assumes "heap_step\<^sup>*\<^sup>* h h'" "heap_inv h" "outdated h tid pid"
  shows "heap_inv h' \<and> outdated h' tid pid"
  using assms
  by (induction rule: rtranclp_induct) (auto intro: heap_inv_step outdated_older older_step)

section \<open>Open changes\<close>

text \<open>Every open change of a tracker is on the tracker's list, so that an adoption settles it.\<close>

definition open_listed :: "heap \<Rightarrow> bool" where
  "open_listed h \<longleftrightarrow>
     (\<forall>cid c. hp_changes h cid = Some c \<longrightarrow> ch_owner c < hp_fresh h \<and>
        (\<not> ch_settled c \<longrightarrow> (\<forall>tid t. hp_trackers h tid = Some t \<longrightarrow> tr_owner t = ch_owner c \<longrightarrow> cid \<in> set (tr_changes t))))"

lemma open_listedI:
  assumes "\<And>cid c. hp_changes h cid = Some c \<Longrightarrow> ch_owner c < hp_fresh h"
    "\<And>cid c tid t. hp_changes h cid = Some c \<Longrightarrow> \<not> ch_settled c \<Longrightarrow> hp_trackers h tid = Some t \<Longrightarrow>
      tr_owner t = ch_owner c \<Longrightarrow> cid \<in> set (tr_changes t)"
  shows "open_listed h"
  using assms unfolding open_listed_def by blast

lemma open_owner: "open_listed h \<Longrightarrow> hp_changes h cid = Some c \<Longrightarrow> ch_owner c < hp_fresh h"
  unfolding open_listed_def by blast

lemma open_in_list:
  "open_listed h \<Longrightarrow> hp_changes h cid = Some c \<Longrightarrow> \<not> ch_settled c \<Longrightarrow> hp_trackers h tid = Some t \<Longrightarrow>
     tr_owner t = ch_owner c \<Longrightarrow> cid \<in> set (tr_changes t)"
  unfolding open_listed_def by metis

lemma open_listed_changes:
  assumes "open_listed h" "hp_trackers h' = hp_trackers h" "hp_fresh h \<le> hp_fresh h'"
    and "\<And>cid c'. hp_changes h' cid = Some c' \<Longrightarrow>
      \<exists>c. hp_changes h cid = Some c \<and> ch_owner c' = ch_owner c \<and> (ch_settled c \<longrightarrow> ch_settled c')"
  shows "open_listed h'"
  unfolding open_listed_def
proof (intro allI impI)
  fix cid c' assume "hp_changes h' cid = Some c'"
  then obtain c where c: "hp_changes h cid = Some c" "ch_owner c' = ch_owner c" "ch_settled c \<longrightarrow> ch_settled c'"
    using assms(4) by blast
  then show "ch_owner c' < hp_fresh h' \<and>
      (\<not> ch_settled c' \<longrightarrow> (\<forall>tid t. hp_trackers h' tid = Some t \<longrightarrow> tr_owner t = ch_owner c' \<longrightarrow> cid \<in> set (tr_changes t)))"
    using assms(1-3) unfolding open_listed_def by force
qed

lemma open_listed_adopt:
  assumes "heap_inv h" "open_listed h"
  shows "open_listed (snd (tracker_adopt h tid pid))"
proof (cases "fst (tracker_adopt h tid pid)")
  case (Inl e)
  then show ?thesis using adopt_error_heap [OF Inl] assms(2) by (auto intro: open_listed_changes)
next
  case (Inr u)
  then obtain t p where t: "hp_trackers h tid = Some t" and p: "hp_prepared h pid = Some p"
    and a: "adoptable t p" using adopt_ok_iff [of h tid pid] by auto
  have "open_listed (adopted_heap h tid t pid p)"
  proof (rule open_listedI)
    fix cid c assume "hp_changes (adopted_heap h tid t pid p) cid = Some c"
    then obtain d where d: "hp_changes h cid = Some d" and
        c: "c = (if cid \<in> set (tr_changes t) \<and> \<not> ch_settled d then d\<lparr>ch_settled := True, ch_stale := True\<rparr> else d)"
      by (auto simp: adopted_heap_def settle_stale_Some)
    show "ch_owner c < hp_fresh (adopted_heap h tid t pid p)"
      using open_owner [OF assms(2) d] by (simp add: adopted_heap_def c)
    fix tid' t' assume "\<not> ch_settled c" "hp_trackers (adopted_heap h tid t pid p) tid' = Some t'" "tr_owner t' = ch_owner c"
    then show "cid \<in> set (tr_changes t')"
      using open_in_list [OF assms(2) d] t by (auto simp: adopted_heap_def c split: if_splits)
  qed
  then show ?thesis using adopt_ok_heap [OF t p a] by simp
qed

lemma open_listed_begin:
  assumes "heap_inv h" "open_listed h"
  shows "open_listed (snd (tracker_begin_change h tid))"
proof (cases "hp_trackers h tid")
  case (Some t)
  have own: "tr_owner t < hp_fresh h" using assms(1) Some by (simp add: heap_inv_def fresh_ok_def)
  have same: "tid' = tid" if "hp_trackers h tid' = Some t'" "tr_owner t' = tr_owner t" for tid' t'
    using assms(1) Some that unfolding heap_inv_def tokens_distinct_def by metis
  show ?thesis
  proof (rule open_listedI)
    let ?h = "snd (tracker_begin_change h tid)"
    fix cid c assume c: "hp_changes ?h cid = Some c"
    have dis: "cid = hp_fresh h \<and> ch_owner c = tr_owner t \<or> cid \<noteq> hp_fresh h \<and> hp_changes h cid = Some c"
      using c Some by (auto simp: tracker_begin_change_def Let_def split: if_splits)
    then show "ch_owner c < hp_fresh ?h"
      using own Some open_owner [OF assms(2)] by (auto simp: tracker_begin_change_def Let_def less_Suc_eq)
    fix tid' t' assume o: "\<not> ch_settled c" and t': "hp_trackers ?h tid' = Some t'" and eq: "tr_owner t' = ch_owner c"
    show "cid \<in> set (tr_changes t')"
    proof (cases "tid' = tid")
      case True
      then have "t' = t\<lparr>tr_changes := tr_changes t @ [hp_fresh h]\<rparr>"
        using t' Some by (simp add: tracker_begin_change_def Let_def)
      then show ?thesis using dis o eq open_in_list [OF assms(2) _ o Some] by auto
    next
      case False
      then have "hp_trackers h tid' = Some t'" using t' Some by (simp add: tracker_begin_change_def Let_def)
      then show ?thesis using dis o eq same False open_in_list [OF assms(2) _ o] by metis
    qed
  qed
qed (use assms in \<open>simp add: tracker_begin_change_def\<close>)

lemma open_listed_track:
  assumes "open_listed h"
  shows "open_listed (snd (track h v))"
proof (rule open_listedI)
  fix cid c assume "hp_changes (snd (track h v)) cid = Some c"
  then have c: "hp_changes h cid = Some c" by (simp add: track_def Let_def)
  have less: "ch_owner c < hp_fresh h" by (rule open_owner [OF assms c])
  then show "ch_owner c < hp_fresh (snd (track h v))" by (simp add: track_def Let_def)
  fix tid t assume "\<not> ch_settled c" "hp_trackers (snd (track h v)) tid = Some t" "tr_owner t = ch_owner c"
  then show "cid \<in> set (tr_changes t)"
    using less open_in_list [OF assms c] by (auto simp: track_def Let_def split: if_splits)
qed

lemma open_listed_step: "heap_step h h' \<Longrightarrow> heap_inv h \<Longrightarrow> open_listed h \<Longrightarrow> open_listed h'"
proof (induction rule: heap_step.induct)
  case (heap_draft h cid c c')
  then show ?case using draft_step_origin [of c c']
    by (auto simp: with_change_def same_origin_def intro: open_listed_changes split: if_splits)
next
  case (heap_prepare h cid)
  then show ?case
    by (auto simp: change_prepare_def Let_def intro!: open_listed_changes [of h] split: option.splits if_splits)
next
  case (heap_replace h tid v)
  then show ?case
    by (auto simp: tracker_prepare_replace_def Let_def intro!: open_listed_changes [of h] split: option.splits)
next
  case (heap_abort_change h cid)
  then show ?case
    by (auto simp: change_abort_def prepared_abort_def intro!: open_listed_changes [of h] split: option.splits if_splits)
next
  case (heap_abort_prepared h pid)
  then show ?case
    by (auto simp: prepared_abort_def intro!: open_listed_changes [of h] split: option.splits)
qed (simp_all add: open_listed_track open_listed_begin open_listed_adopt)

lemma reachable_open_listed: "heap_reachable h \<Longrightarrow> open_listed h"
proof (induction rule: heap_reachable.induct)
  case reach_empty
  show ?case by (simp add: open_listed_def empty_heap_def)
next
  case (reach_step h h')
  then show ?case using open_listed_step heap_reachable_inv by blast
qed

lemma adopt_settles:
  assumes h: "heap_reachable h" and ok: "tracker_adopt h tid pid = (Inr (), h')"
    and t: "hp_trackers h tid = Some t" and c: "hp_changes h cid = Some c" "ch_owner c = tr_owner t"
  shows "\<exists>c'. hp_changes h' cid = Some c' \<and> ch_settled c' \<and> (\<not> ch_settled c \<longrightarrow> ch_stale c')"
proof -
  from ok t obtain p where p: "hp_prepared h pid = Some p" and a: "adoptable t p"
    using adopt_ok_iff [of h tid pid] by auto
  have h': "h' = adopted_heap h tid t pid p" using adopt_ok_heap [OF t p a] ok by simp
  have "\<not> ch_settled c \<longrightarrow> cid \<in> set (tr_changes t)"
    using reachable_open_listed [OF h] t c unfolding open_listed_def by metis
  then show ?thesis using c(1) by (auto simp: h' adopted_heap_def settle_stale_def)
qed

section \<open>Properties\<close>

text \<open>
  A tracker on the value true with one open change, which is set to false below an object in
  the examples, and the heaps after preparing and adopting.
\<close>

definition sample_base :: json where
  "sample_base = JObj [(''arr'', JArr [])]"

definition sample_tracked :: heap where
  "sample_tracked = snd (track empty_heap sample_base)"

definition sample_replaced :: heap where
  "sample_replaced = snd (tracker_prepare_replace sample_tracked 0 JNull)"

definition sample_twice :: heap where
  "sample_twice = snd (tracker_begin_change (snd (tracker_prepare_replace sample_replaced 0 (JBool True))) 0)"

definition sample_change :: change_state where
  "sample_change =
     \<lparr>ch_owner = 1, ch_base_token = 2, ch_base_revision = 0, ch_base = sample_base, ch_candidate = sample_base,
      ch_recorded = [], ch_structural = False, ch_settled = False, ch_stale = False, ch_prepared = None\<rparr>"

lemmas sample_defs = sample_base_def sample_tracked_def sample_replaced_def sample_twice_def sample_change_def
  track_def empty_heap_def tracker_prepare_replace_def tracker_begin_change_def Let_def

lemma sample_reachable: "heap_reachable sample_tracked" "heap_reachable sample_twice"
proof -
  show t: "heap_reachable sample_tracked"
    unfolding sample_tracked_def by (rule reach_step [OF reach_empty heap_track])
  show "heap_reachable sample_twice"
    unfolding sample_twice_def sample_replaced_def
    by (rule reach_step [OF reach_step [OF reach_step [OF t heap_replace] heap_replace] heap_begin])
qed

lemma sample_adopts: "\<exists>h'. tracker_adopt sample_twice 0 3 = (Inr (), h')"
  by (simp add: sample_defs tracker_adopt_def)

text \<open>
  C29. A draft never lies about what it did: after any sequence of successful draft
  operations, replaying the recorded operations on the base gives the candidate.
\<close>

theorem draft_recording_replays:
  assumes "draft_step\<^sup>*\<^sup>* c c'" "ch_recorded c = []" "ch_candidate c = ch_base c"
  shows "apply_immutable (ch_base c) (ch_recorded c') = Inr (ch_candidate c')"
  using drafts_replay [OF assms(1) replays_start [OF assms(2,3)]] by (auto simp: replays_def same_origin_def)

theorem draft_recording_replays_witness:
  "apply_immutable (ch_base sample_change)
     [SetOp [PathKey ''k''] JNull] =
   Inr (JObj [(''arr'', JArr []), (''k'', JNull)])"
proof -
  let ?c = "record_op sample_change (SetOp [PathKey ''k''] JNull) (JObj [(''arr'', JArr []), (''k'', JNull)])"
  have "draft_step sample_change ?c"
    by (rule step_set [of _ "[PathKey ''k'']" JNull])
      (simp add: draft_set_def draft_guard_def sample_change_def sample_base_def validate_safe_path_def
        is_reserved_segment_def set_path_def)
  then have "draft_step\<^sup>*\<^sup>* sample_change ?c" by blast
  then show ?thesis using draft_recording_replays [of sample_change ?c]
    by (simp add: sample_change_def record_op_def)
qed

text \<open>
  A prepared batch of a change with array splices or moves replays: its operations
  applied to its base give its value, also when the recording was too long and was replaced
  by the whole value.
\<close>

theorem structural_batch_replays:
  assumes "draft_step\<^sup>*\<^sup>* c c'" "ch_recorded c = []" "ch_candidate c = ch_base c" "ch_structural c'"
  shows "apply_immutable (pr_base (prepared_of c')) (pr_ops (prepared_of c')) = Inr (pr_value (prepared_of c'))"
  using drafts_replay [OF assms(1) replays_start [OF assms(2,3)]] assms(4) prepared_structural by blast

theorem structural_batch_replays_witness:
  "\<exists>c'. ch_structural c' \<and>
     apply_immutable (pr_base (prepared_of c')) (pr_ops (prepared_of c')) = Inr (pr_value (prepared_of c'))"
proof -
  obtain c' where run: "draft_splice sample_change [PathKey ''arr''] 0 0 [JNull] = Inr c'" and s: "ch_structural c'"
    by (simp add: draft_splice_def splice_path_def get_path_def put_array_def sample_change_def sample_base_def
        validate_safe_path_def is_reserved_segment_def set_path_def Let_def effective_remove_def)
  have "draft_step\<^sup>*\<^sup>* sample_change c'" using step_splice [OF run] by blast
  then show ?thesis
    using structural_batch_replays [of sample_change c'] s by (auto simp: sample_change_def)
qed

text \<open>
  No batch is longer than the limit on operations, whatever the draft recorded.
\<close>

theorem batch_within_limit: "length (pr_ops (prepared_of c)) \<le> kMaxDeltaOperations"
  using prepared_ops_bounded [of c] by (simp add: prepared_of_def)

text \<open>
  C30. For a change without splices or moves the prepared batch need not replay. Starting
  from an empty array, setting index 0, then index 1, then index 0 again succeeds and yields
  a candidate with two elements; collapsing keeps the later write of index 0, behind the
  write of index 1, so that the batch fails on its own base with an unsafe index.
\<close>

theorem collapsed_batch_may_fail:
  "\<exists>c. fold_r (\<lambda>c (i, v). draft_set c [PathKey ''arr'', PathIndex i] v) sample_change
          [(0, JNull), (1, JBool True), (0, JBool False)] = Inr c \<and>
     pr_value (prepared_of c) = JObj [(''arr'', JArr [JBool False, JBool True])] \<and>
     pr_ops (prepared_of c) =
       [SetOp [PathKey ''arr'', PathIndex 1] (JBool True), SetOp [PathKey ''arr'', PathIndex 0] (JBool False)] \<and>
     apply_immutable (pr_base (prepared_of c)) (pr_ops (prepared_of c)) = Inl (UnsafeIndex 1)"
proof (intro exI conjI)
  let ?c = "sample_change\<lparr>ch_candidate := JObj [(''arr'', JArr [JBool False, JBool True])],
    ch_recorded := [SetOp [PathKey ''arr'', PathIndex 0] JNull, SetOp [PathKey ''arr'', PathIndex 1] (JBool True),
      SetOp [PathKey ''arr'', PathIndex 0] (JBool False)]\<rparr>"
  show "fold_r (\<lambda>c (i, v). draft_set c [PathKey ''arr'', PathIndex i] v) sample_change
          [(0, JNull), (1, JBool True), (0, JBool False)] = Inr ?c"
    by (simp add: draft_set_def draft_guard_def sample_change_def sample_base_def validate_safe_path_def
      is_reserved_segment_def set_path_def record_op_def)
  show "pr_value (prepared_of ?c) = JObj [(''arr'', JArr [JBool False, JBool True])]" by code_simp
  show "pr_ops (prepared_of ?c) =
       [SetOp [PathKey ''arr'', PathIndex 1] (JBool True), SetOp [PathKey ''arr'', PathIndex 0] (JBool False)]" by code_simp
  show "apply_immutable (pr_base (prepared_of ?c)) (pr_ops (prepared_of ?c)) = Inl (UnsafeIndex 1)" by code_simp
qed

text \<open>
  Adoption loses no update: in every reachable heap, a batch is adopted only if its base
  is the value the tracker holds at that moment; the tracker then holds the batch's value
  under the next revision, and no other tracker changed.
\<close>

theorem adoption_loses_no_update:
  assumes "heap_reachable h" "tracker_adopt h tid pid = (Inr (), h')"
  shows "\<exists>t p t'. hp_trackers h tid = Some t \<and> hp_prepared h pid = Some p \<and> hp_trackers h' tid = Some t' \<and>
    pr_base p = tr_value t \<and> tr_value t' = pr_value p \<and> tr_revision t' = tr_revision t + 1 \<and>
    (\<forall>other. other \<noteq> tid \<longrightarrow> hp_trackers h' other = hp_trackers h other)"
proof -
  obtain t p t' where "hp_trackers h tid = Some t" "hp_prepared h pid = Some p" "hp_trackers h' tid = Some t'"
    "pr_base p = tr_value t" "tr_value t' = pr_value p" "tr_revision t' = tr_revision t + 1"
    using adopt_installs [OF heap_reachable_inv [OF assms(1)] assms(2)] by blast
  then show ?thesis using adopt_leaves_others [OF assms(2)] by blast
qed

theorem adoption_loses_no_update_witness:
  "\<exists>t p t'. hp_trackers sample_twice 0 = Some t \<and> hp_prepared sample_twice 3 = Some p \<and>
     hp_trackers (snd (tracker_adopt sample_twice 0 3)) 0 = Some t' \<and> pr_base p = tr_value t \<and> tr_value t' = pr_value p"
proof -
  obtain h' where "tracker_adopt sample_twice 0 3 = (Inr (), h')" using sample_adopts by blast
  then show ?thesis using adoption_loses_no_update [OF sample_reachable(2), of 0 3 h'] by auto
qed

text \<open>
  C11. A batch is adopted at most once, and once any batch was adopted no batch that existed
  then can be adopted into that tracker, whatever happens in between.
\<close>

theorem adoption_outdates_all:
  assumes "heap_reachable h" "tracker_adopt h tid pid = (Inr (), h')" "heap_step\<^sup>*\<^sup>* h' later"
    "hp_prepared h qid = Some q"
  shows "fst (tracker_adopt later tid qid) \<noteq> Inr ()"
proof -
  have inv: "heap_inv h" by (rule heap_reachable_inv [OF assms(1)])
  have "heap_inv h'" using heap_inv_adopt [OF inv, of tid pid] assms(2) by simp
  then show ?thesis
    using outdated_forever [OF assms(3)] adopt_outdates [OF inv assms(2,4)] outdated_not_adopted by blast
qed

theorem adoption_outdates_all_witness:
  "fst (tracker_adopt (snd (tracker_adopt sample_twice 0 3)) 0 4) \<noteq> Inr ()"
proof -
  obtain h' where h': "tracker_adopt sample_twice 0 3 = (Inr (), h')" using sample_adopts by blast
  moreover obtain q where "hp_prepared sample_twice 4 = Some q" by (simp add: sample_defs)
  ultimately show ?thesis using adoption_outdates_all [OF sample_reachable(2), of 0 3 h' h' 4 q] by simp
qed

text \<open>
  An adoption settles every open change of its tracker as stale: no draft operation on
  it succeeds any more, and preparing it reports a settled overlay.
\<close>

theorem adoption_closes_open_changes:
  assumes "heap_reachable h" "tracker_adopt h tid pid = (Inr (), h')" "hp_trackers h tid = Some t"
    "hp_changes h cid = Some c" "ch_owner c = tr_owner t" "\<not> ch_settled c"
  shows "\<exists>c'. hp_changes h' cid = Some c' \<and> draft_set c' p v = Inl SettledOverlay \<and>
    draft_splice c' p i n items = Inl SettledOverlay \<and> draft_get c' p = Inl SettledOverlay \<and>
    change_prepare h' cid = (Inl SettledOverlay, h')"
proof -
  obtain c' where "hp_changes h' cid = Some c'" "ch_settled c'" "ch_stale c'"
    using adopt_settles [OF assms(1-5)] assms(6) by blast
  then show ?thesis
    by (simp add: draft_set_def draft_guard_def draft_splice_def draft_get_def change_prepare_def)
qed

theorem adoption_closes_open_changes_witness:
  "change_prepare (snd (tracker_adopt sample_twice 0 3)) 5 = (Inl SettledOverlay, snd (tracker_adopt sample_twice 0 3))"
proof -
  obtain h' where h': "tracker_adopt sample_twice 0 3 = (Inr (), h')" using sample_adopts by blast
  obtain t where t: "hp_trackers sample_twice 0 = Some t" "tr_owner t = 1" by (simp add: sample_defs)
  obtain c where c: "hp_changes sample_twice 5 = Some c" "ch_owner c = 1" "\<not> ch_settled c" by (simp add: sample_defs)
  show ?thesis using adoption_closes_open_changes [OF sample_reachable(2) h' t(1) c(1), of "[]" JNull 0 0 "[]"] c t h' by auto
qed

end
