(* ===== verification/Chord_Output.thy ===== *)
theory Chord_Output
  imports Utf16
begin

text \<open>
  \<^verbatim>\<open>src/src/chord/Output.cpp\<close> and \<^verbatim>\<open>Output.hpp\<close>: the bounded window over a
  stream of output. Text is a list of bytes, written as characters. The loops over newline
  positions are recursive functions with their measures. The one addition that can wrap in
  practice, the margin \<^verbatim>\<open>limit + 1\<close> of a limit that may be the largest \<^verbatim>\<open>size_t\<close>, and the
  counters of the whole stream are taken modulo $2^{64}$; every other quantity is bounded by
  the size of a text in memory.
\<close>

section \<open>Newlines\<close>

definition kNewline :: char where
  "kNewline = char_of (10 :: nat)"

text \<open>\<^verbatim>\<open>find\<close> and \<^verbatim>\<open>rfind\<close> of the standard string view, for the newline.\<close>

definition find_nl :: "string \<Rightarrow> nat \<Rightarrow> nat option" where
  "find_nl str start = find (\<lambda>i. str ! i = kNewline) [start..<length str]"

definition rfind_nl :: "string \<Rightarrow> nat \<Rightarrow> nat option" where
  "rfind_nl str pos = find (\<lambda>i. str ! i = kNewline) (rev [0..<min (Suc pos) (length str)])"

text \<open>The number of newlines at the positions from \<open>a\<close> up to \<open>b\<close>: the specification of the loops.\<close>

definition nls :: "string \<Rightarrow> nat \<Rightarrow> nat \<Rightarrow> nat" where
  "nls str a b = length (filter (\<lambda>i. str ! i = kNewline) [a..<b])"

lemma find_nl_Some:
  assumes "find_nl str a = Some i"
  shows "a \<le> i \<and> i < length str \<and> str ! i = kNewline \<and> nls str a i = 0"
proof -
  from assms obtain k where k: "k < length str - a" "i = a + k" "str ! i = kNewline"
      "\<forall>j<k. str ! ([a..<length str] ! j) \<noteq> kNewline"
    by (auto simp: find_nl_def find_Some_iff)
  have "str ! j \<noteq> kNewline" if "j \<in> set [a..<i]" for j
    using k(4) [rule_format, of "j - a"] k(1,2) that nth_upt [of a "j - a" "length str"] by fastforce
  then have "nls str a i = 0" by (simp add: nls_def filter_empty_conv)
  then show ?thesis using k by auto
qed

lemma find_nl_None: "find_nl str a = None \<Longrightarrow> nls str a (length str) = 0"
  by (auto simp: find_nl_def find_None_iff nls_def filter_empty_conv)

lemma nls_split: "a \<le> b \<Longrightarrow> b \<le> c \<Longrightarrow> nls str a c = nls str a b + nls str b c"
  by (metis nls_def filter_append length_append upt_add_eq_append le_Suc_ex)

lemma nls_same [simp]: "nls str a a = 0"
  by (simp add: nls_def)

lemma nls_Suc: "a \<le> b \<Longrightarrow> nls str a (Suc b) = nls str a b + (if str ! b = kNewline then 1 else 0)"
  by (simp add: nls_def)

lemma nls_first: "a < b \<Longrightarrow> nls str a b = (if str ! a = kNewline then 1 else 0) + nls str (Suc a) b"
  by (simp add: nls_def upt_conv_Cons)

lemma nls_mono: "a' \<le> a \<Longrightarrow> a \<le> b \<Longrightarrow> b \<le> b' \<Longrightarrow> nls str a b \<le> nls str a' b'"
  using nls_split [of a' a b' str] nls_split [of a b b' str] by simp

lemma rfind_nl_Some:
  assumes "rfind_nl str p = Some i" "p < length str"
  shows "i \<le> p \<and> str ! i = kNewline \<and> nls str (Suc i) (Suc p) = 0"
proof -
  have len: "min (Suc p) (length str) = Suc p" using assms(2) by simp
  from assms(1) obtain k where k: "k < Suc p" "i = rev [0..<Suc p] ! k" "str ! i = kNewline"
      "\<forall>j<k. str ! (rev [0..<Suc p] ! j) \<noteq> kNewline"
    unfolding rfind_nl_def len find_Some_iff by (auto simp del: upt_Suc)
  have rev: "rev [0..<Suc p] ! j = p - j" if "j < Suc p" for j using that by (simp add: rev_nth del: upt_Suc)
  have i: "i = p - k" using k(1,2) rev by simp
  have "str ! j \<noteq> kNewline" if "j \<in> set [Suc i..<Suc p]" for j
  proof -
    have "p - j < k" using that k(1) i by auto
    then show ?thesis using k(4) [rule_format, of "p - j"] rev [of "p - j"] that by auto
  qed
  then have "nls str (Suc i) (Suc p) = 0" by (simp add: nls_def filter_empty_conv del: upt_Suc)
  then show ?thesis using k(3) i by simp
qed

lemma rfind_nl_None: "rfind_nl str p = None \<Longrightarrow> p < length str \<Longrightarrow> nls str 0 (Suc p) = 0"
  by (auto simp: rfind_nl_def find_None_iff nls_def filter_empty_conv min_def simp del: upt_Suc)

section \<open>Counting\<close>

function count_newlines_loop :: "string \<Rightarrow> nat option \<Rightarrow> nat \<Rightarrow> nat" where
  "count_newlines_loop str None newlines = newlines"
| "count_newlines_loop str (Some index) newlines =
     count_newlines_loop str (find_nl str (Suc index)) (Suc newlines)"
  by pat_completeness auto
termination
  by (relation "measure (\<lambda>(str, index, _). case index of None \<Rightarrow> 0 | Some i \<Rightarrow> Suc (length str - i))")
    (auto split: option.splits dest!: find_nl_Some)

definition count_newlines :: "string \<Rightarrow> nat" where
  "count_newlines str = count_newlines_loop str (find_nl str 0) 0"

definition count_lines :: "string \<Rightarrow> nat" where
  "count_lines str =
     (if str = [] then 0 else count_newlines str + (if last str = kNewline then 0 else 1))"

lemma count_newlines_loop_nls:
  "count_newlines_loop str (find_nl str a) n = n + nls str a (length str)"
proof (induction "length str - a" arbitrary: a n rule: less_induct)
  case less
  show ?case
  proof (cases "find_nl str a")
    case None
    then show ?thesis using find_nl_None [OF None] by simp
  next
    case (Some i)
    have i: "a \<le> i" "i < length str" "str ! i = kNewline" "nls str a i = 0"
      using find_nl_Some [OF Some] by auto
    have "nls str a (length str) = 1 + nls str (Suc i) (length str)"
      using i nls_split [of a i "length str" str] nls_first [of i "length str" str] by simp
    then show ?thesis using Some i less [of "Suc i" "Suc n"] by simp
  qed
qed

lemma count_newlines_nls: "count_newlines str = nls str 0 (length str)"
  by (simp add: count_newlines_def count_newlines_loop_nls)

lemma nls_filter: "nls str 0 (length str) = length (filter (\<lambda>c. c = kNewline) str)"
  by (simp add: nls_def length_filter_conv_card cong: conj_cong)

lemma count_newlines_filter: "count_newlines str = length (filter (\<lambda>c. c = kNewline) str)"
  by (simp add: count_newlines_nls nls_filter)

lemma count_newlines_append [simp]: "count_newlines (s @ t) = count_newlines s + count_newlines t"
  by (simp add: count_newlines_filter)

lemma count_newlines_Nil [simp]: "count_newlines [] = 0"
  by (simp add: count_newlines_filter)

lemma nls_append_left: "b \<le> length s \<Longrightarrow> nls (s @ t) a b = nls s a b"
  unfolding nls_def by (intro arg_cong [of _ _ length] filter_cong) (auto simp: nth_append)

lemma map_upt_shift: "map (\<lambda>i. i + n) [a..<b] = [n + a..<n + b]"
  by (induction b) (auto simp: add.commute)

lemma nls_append_right: "nls (s @ t) (length s + a) (length s + b) = nls t a b"
proof -
  have "nls (s @ t) (length s + a) (length s + b) =
      length (filter (\<lambda>i. (s @ t) ! i = kNewline) (map (\<lambda>i. i + length s) [a..<b]))"
    by (simp add: nls_def map_upt_shift)
  then show ?thesis by (simp add: filter_map comp_def nth_append nls_def)
qed

section \<open>Ranges\<close>

datatype output_retention = Head | Tail

record output_limits =
  max_bytes :: nat
  max_lines :: nat
  retain :: output_retention

record output_slice =
  sl_text :: string
  sl_bytes :: nat
  sl_dropped_bytes :: nat
  sl_dropped_lines :: nat

record bounded_output =
  bo_text :: string
  bo_dropped_bytes :: nat
  bo_dropped_lines :: nat

definition byte :: "char \<Rightarrow> nat" where
  "byte c = of_char c"

text \<open>A continuation byte: the top two bits are 10.\<close>

definition is_continuation :: "char \<Rightarrow> bool" where
  "is_continuation c \<longleftrightarrow> byte c div 64 = 2"

fun sanitize_output :: "string \<Rightarrow> string" where
  "sanitize_output [] = []"
| "sanitize_output (c # rest) =
     (if byte c \<le> 0x08 \<or> 0x0b \<le> byte c \<and> byte c \<le> 0x1f then sanitize_output rest
      else (case rest of
              d # e # rest' \<Rightarrow>
                if byte c = 0xef \<and> byte d = 0xbf \<and> 0xb9 \<le> byte e \<and> byte e \<le> 0xbb
                then sanitize_output rest'
                else c # sanitize_output rest
            | _ \<Rightarrow> c # sanitize_output rest))"

function character_start :: "string \<Rightarrow> nat \<Rightarrow> nat" where
  "character_start str start =
     (if start < length str \<and> is_continuation (str ! start) then character_start str (Suc start) else start)"
  by pat_completeness auto
termination by (relation "measure (\<lambda>(str, start). length str - start)") auto

declare character_start.simps [simp del]

fun character_end_loop :: "string \<Rightarrow> nat \<Rightarrow> nat" where
  "character_end_loop str 0 = 0"
| "character_end_loop str (Suc n) = (if is_continuation (str ! Suc n) then character_end_loop str n else Suc n)"

definition character_end :: "string \<Rightarrow> nat \<Rightarrow> nat" where
  "character_end str index = (if length str \<le> index then length str else character_end_loop str index)"

function head_end_loop :: "string \<Rightarrow> nat \<Rightarrow> nat option \<Rightarrow> nat \<Rightarrow> nat" where
  "head_end_loop str limit None seen = length str"
| "head_end_loop str limit (Some index) seen =
     (if Suc seen = limit then Suc index else head_end_loop str limit (find_nl str (Suc index)) (Suc seen))"
  by pat_completeness auto
termination
  by (relation "measure (\<lambda>(str, _, index, _). case index of None \<Rightarrow> 0 | Some i \<Rightarrow> Suc (length str - i))")
    (auto split: option.splits dest!: find_nl_Some)

definition head_range :: "string \<Rightarrow> output_limits \<Rightarrow> nat \<times> nat" where
  "head_range str limits =
     (if max_lines limits = 0 \<or> max_bytes limits = 0 then (0, 0)
      else let ending = head_end_loop str (max_lines limits) (find_nl str 0) 0
           in (0, if max_bytes limits < ending
                  then (case rfind_nl str (max_bytes limits - 1) of
                          None \<Rightarrow> character_end str (max_bytes limits)
                        | Some newline \<Rightarrow> Suc newline)
                  else ending))"

text \<open>The backward loop of \<open>tail_range\<close>: the start of the window by lines.\<close>

function tail_start_loop :: "string \<Rightarrow> nat \<Rightarrow> nat option \<Rightarrow> nat \<Rightarrow> nat" where
  "tail_start_loop str limit None seen = 0"
| "tail_start_loop str limit (Some index) seen =
     (if seen = limit then Suc index
      else tail_start_loop str limit (if index = 0 then None else rfind_nl str (index - 1)) (Suc seen))"
  by pat_completeness auto

lemma find_mem: "find P xs = Some x \<Longrightarrow> x \<in> set xs"
  by (auto simp: find_Some_iff)

lemma rfind_nl_le: "rfind_nl str p = Some i \<Longrightarrow> i \<le> p"
  by (auto simp: rfind_nl_def dest: find_mem simp del: upt_Suc)

termination tail_start_loop
  by (relation "measure (\<lambda>(_, _, index, _). case index of None \<Rightarrow> 0 | Some i \<Rightarrow> Suc i)")
    (auto split: option.splits dest!: rfind_nl_le)

text \<open>
  The position \<open>last\<close> of the code is the last one before a trailing newline, or below 0
  when there is none; here \<open>searched\<close> is one more than it.
\<close>

definition searched :: "string \<Rightarrow> nat" where
  "searched str = (if str = [] \<or> last str \<noteq> kNewline then length str else length str - 1)"

definition tail_range :: "string \<Rightarrow> output_limits \<Rightarrow> nat \<times> nat" where
  "tail_range str limits =
     (if max_lines limits = 0 \<or> max_bytes limits = 0 then (length str, length str)
      else let start = (if searched str = 0 then 0
                        else tail_start_loop str (max_lines limits) (rfind_nl str (searched str - 1)) 1)
           in (if max_bytes limits < length str - start
               then let window = length str - max_bytes limits
                    in (case find_nl str (if window = 0 then 0 else window - 1) of
                          Some newline \<Rightarrow>
                            if Suc newline < length str then Suc newline else character_start str window
                        | None \<Rightarrow> character_start str window)
               else start,
               length str))"

function tail_margin_loop :: "string \<Rightarrow> nat \<Rightarrow> nat option \<Rightarrow> nat \<Rightarrow> nat" where
  "tail_margin_loop str limit None newlines = 0"
| "tail_margin_loop str limit (Some index) newlines =
     (if limit < Suc newlines then index
      else if index = 0 then 0
      else tail_margin_loop str limit (rfind_nl str (index - 1)) (Suc newlines))"
  by pat_completeness auto
termination
  by (relation "measure (\<lambda>(_, _, index, _). case index of None \<Rightarrow> 0 | Some i \<Rightarrow> Suc i)")
    (auto split: option.splits dest!: rfind_nl_le)

definition tail_margin :: "string \<Rightarrow> output_limits \<Rightarrow> string" where
  "tail_margin str limits =
     (let byte_start = (if max_bytes limits < length str
                        then character_end str (length str - max_bytes limits - 1) else 0);
          line_start = tail_margin_loop str (max_lines limits) (rfind_nl str (length str)) 0;
          start = max byte_start line_start
      in if start = 0 then str else drop start str)"

definition bound_output :: "string \<Rightarrow> output_limits \<Rightarrow> output_slice" where
  "bound_output str limits =
     (let (start, ending) = (if retain limits = Head then head_range str limits else tail_range str limits);
          kept = take (ending - start) (drop start str)
      in \<lparr>sl_text = kept, sl_bytes = length kept, sl_dropped_bytes = length str - length kept,
          sl_dropped_lines = count_lines str - count_lines kept\<rparr>)"

section \<open>The buffer\<close>

definition size_mod :: "nat \<Rightarrow> nat" where
  "size_mod n = n mod 2 ^ 64"

record stored_chunk =
  sc_text :: string
  sc_bytes :: nat
  sc_newlines :: nat

record output_buffer =
  ob_limits :: output_limits
  ob_chunks :: "stored_chunk list"
  ob_stored_bytes :: nat
  ob_stored_newlines :: nat
  ob_full :: bool
  ob_total_bytes :: nat
  ob_total_newlines :: nat
  ob_ends_with_newline :: bool

definition output_buffer_init :: "output_limits \<Rightarrow> output_buffer" where
  "output_buffer_init limits =
     \<lparr>ob_limits = limits, ob_chunks = [], ob_stored_bytes = 0, ob_stored_newlines = 0, ob_full = False,
      ob_total_bytes = 0, ob_total_newlines = 0, ob_ends_with_newline = True\<rparr>"

text \<open>The dropping loop: chunks with the counters of what is stored.\<close>

fun drop_chunks :: "output_limits \<Rightarrow> stored_chunk list \<Rightarrow> nat \<Rightarrow> nat \<Rightarrow> stored_chunk list \<times> nat \<times> nat" where
  "drop_chunks limits (first # second # rest) bytes newlines =
     (let bytes_after = bytes - sc_bytes first;
          newlines_after = newlines - sc_newlines first
      in if bytes_after \<le> size_mod (max_bytes limits + 1) \<and> newlines_after \<le> size_mod (max_lines limits + 1)
         then (first # second # rest, bytes, newlines)
         else drop_chunks limits (second # rest) bytes_after newlines_after)"
| "drop_chunks limits chunks bytes newlines = (chunks, bytes, newlines)"

definition output_push :: "output_buffer \<Rightarrow> string \<Rightarrow> bool \<times> output_buffer" where
  "output_push b chunk =
     (if chunk = [] then (False, b)
      else let bytes = length chunk; newlines = count_newlines chunk;
               b1 = b\<lparr>ob_total_bytes := size_mod (ob_total_bytes b + bytes),
                      ob_total_newlines := size_mod (ob_total_newlines b + newlines),
                      ob_ends_with_newline := (last chunk = kNewline)\<rparr>
           in if ob_full b then (True, b1)
              else let chunks = ob_chunks b @ [\<lparr>sc_text = chunk, sc_bytes = bytes, sc_newlines = newlines\<rparr>];
                       stored_bytes = ob_stored_bytes b + bytes;
                       stored_newlines = ob_stored_newlines b + newlines
                   in if retain (ob_limits b) = Head
                      then (True, b1\<lparr>ob_chunks := chunks, ob_stored_bytes := stored_bytes,
                              ob_stored_newlines := stored_newlines,
                              ob_full := (max_bytes (ob_limits b) < stored_bytes \<or>
                                max_lines (ob_limits b) \<le> stored_newlines)\<rparr>)
                      else let (kept, kept_bytes, kept_newlines) =
                                 drop_chunks (ob_limits b) chunks stored_bytes stored_newlines
                           in (True, b1\<lparr>ob_chunks := kept, ob_stored_bytes := kept_bytes,
                                 ob_stored_newlines := kept_newlines\<rparr>))"

definition stored_text :: "output_buffer \<Rightarrow> string" where
  "stored_text b = concat (map sc_text (ob_chunks b))"

definition output_snapshot :: "output_buffer \<Rightarrow> bounded_output \<times> output_buffer" where
  "output_snapshot b =
     (let stored = stored_text b;
          kept = bound_output stored (ob_limits b);
          kept_lines = count_lines stored - sl_dropped_lines kept;
          tail = (retain (ob_limits b) = Tail);
          b' = (if tail \<or> 1 < length (ob_chunks b)
                then let content = (if tail then tail_margin stored (ob_limits b) else stored);
                         bytes = (if tail then length content else ob_stored_bytes b);
                         chunks = (if content \<noteq> []
                                   then [\<lparr>sc_text = content, sc_bytes = bytes, sc_newlines = count_newlines content\<rparr>]
                                   else [])
                     in b\<lparr>ob_chunks := chunks,
                          ob_stored_bytes := (if content = [] then 0 else bytes),
                          ob_stored_newlines := (if chunks = [] then 0 else sc_newlines (hd chunks))\<rparr>
                else b)
      in (\<lparr>bo_text = sanitize_output (sl_text kept),
           bo_dropped_bytes = size_mod (ob_total_bytes b + 2 ^ 64 - sl_bytes kept),
           bo_dropped_lines = size_mod (ob_total_newlines b + (if ob_ends_with_newline b then 0 else 1) + 2 ^ 64 - kept_lines)\<rparr>,
          b'))"

end
