(* ===== verification/Chord_Output_Laws.thy ===== *)
theory Chord_Output_Laws
  imports Chord_Output
begin

text \<open>
  Laws of the output window. The two line loops are characterised by the newline counts of
  the positions they return, which determine them; from that, the window of a text is within
  its limits, depends only on a long enough prefix (head) or suffix (tail) of it, and so the
  buffer, which forgets the rest of the stream, shows what it would show had it kept
  everything. For valid UTF-8 the cuts fall between characters and sanitizing is exact.
\<close>

section \<open>The head window\<close>

definition is_head_end :: "string \<Rightarrow> nat \<Rightarrow> nat \<Rightarrow> bool" where
  "is_head_end str limit e \<longleftrightarrow>
     e = length str \<and> nls str 0 (length str) < limit \<or>
     0 < e \<and> e \<le> length str \<and> str ! (e - 1) = kNewline \<and> nls str 0 e = limit"

lemma head_end_loop_spec:
  assumes "p \<le> length str" "seen < limit"
  shows "let e = head_end_loop str limit (find_nl str p) seen in
    e = length str \<and> seen + nls str p (length str) < limit \<or>
    p < e \<and> e \<le> length str \<and> str ! (e - 1) = kNewline \<and> seen + nls str p e = limit"
  using assms
proof (induction "length str - p" arbitrary: p seen rule: less_induct)
  case less
  show ?case
  proof (cases "find_nl str p")
    case None
    then show ?thesis using find_nl_None [OF None] less.prems by simp
  next
    case (Some i)
    have i: "p \<le> i" "i < length str" "str ! i = kNewline" "nls str p i = 0"
      using find_nl_Some [OF Some] by auto
    have count: "nls str p b = 1 + nls str (Suc i) b" if "Suc i \<le> b" for b
      using i that nls_split [of p i b str] nls_first [of i b str] by simp
    show ?thesis
    proof (cases "Suc seen = limit")
      case True
      then show ?thesis using Some i count [of "Suc i"] by simp
    next
      case False
      let ?e = "head_end_loop str limit (find_nl str (Suc i)) (Suc seen)"
      have "?e = length str \<and> Suc seen + nls str (Suc i) (length str) < limit \<or>
          Suc i < ?e \<and> ?e \<le> length str \<and> str ! (?e - 1) = kNewline \<and> Suc seen + nls str (Suc i) ?e = limit"
        using less.hyps [of "Suc i" "Suc seen"] i less.prems False by (simp add: Let_def)
      moreover have "head_end_loop str limit (find_nl str p) seen = ?e" using Some False by simp
      ultimately show ?thesis using count [of "length str"] count [of ?e] i unfolding Let_def by auto
    qed
  qed
qed

lemma head_end_is: "0 < limit \<Longrightarrow> is_head_end str limit (head_end_loop str limit (find_nl str 0) 0)"
  using head_end_loop_spec [of 0 str 0 limit] by (simp add: is_head_end_def Let_def)

text \<open>Two positions just behind a newline with the same count are the same position.\<close>

lemma newline_position_unique:
  assumes "nls str 0 e = nls str 0 d" "0 < e" "0 < d" "str ! (e - 1) = kNewline" "str ! (d - 1) = kNewline"
  shows "e = d"
proof (rule ccontr)
  have less: False if "a < b" "nls str 0 a = nls str 0 b" "str ! (b - 1) = kNewline" for a b
  proof -
    have "1 \<le> nls str a b" using that nls_split [of a "b - 1" b str] nls_Suc [of "b - 1" "b - 1" str] by simp
    then show False using nls_split [of 0 a b str] that by simp
  qed
  assume "e \<noteq> d"
  then have "e < d \<or> d < e" by arith
  then show False using less [of e d] less [of d e] assms by auto
qed

lemma head_end_unique: "is_head_end str limit e \<Longrightarrow> is_head_end str limit d \<Longrightarrow> e = d"
  unfolding is_head_end_def using newline_position_unique nls_mono [of 0 0 e "length str" str]
    nls_mono [of 0 0 d "length str" str] by auto

lemma head_end_prefix:
  assumes s: "is_head_end s limit e" and t: "is_head_end (s @ r) limit d"
  shows "limit \<le> nls s 0 (length s) \<Longrightarrow> e = d" "length s \<le> d \<or> e = d"
proof -
  have eq: "e = d" if "0 < e" "e \<le> length s" "s ! (e - 1) = kNewline" "nls s 0 e = limit"
  proof -
    have "is_head_end (s @ r) limit e"
      using that nls_append_left [of e s r 0] nth_append_left [of "e - 1" s r] by (simp add: is_head_end_def)
    then show ?thesis using head_end_unique t by blast
  qed
  show "limit \<le> nls s 0 (length s) \<Longrightarrow> e = d" using eq s by (auto simp: is_head_end_def)
  have "length s \<le> d" if less: "nls s 0 (length s) < limit"
  proof (rule ccontr)
    assume "\<not> length s \<le> d"
    then have "nls (s @ r) 0 d \<le> nls s 0 (length s)"
      using nls_append_left [of d s r 0] nls_mono [of 0 0 d "length s" s] by simp
    then show False using t less \<open>\<not> length s \<le> d\<close> by (auto simp: is_head_end_def)
  qed
  then show "length s \<le> d \<or> e = d" using eq s by (auto simp: is_head_end_def)
qed

lemma rfind_nl_prefix: "p < length s \<Longrightarrow> rfind_nl (s @ r) p = rfind_nl s p"
  unfolding rfind_nl_def
  by (intro find_cong) (auto simp: nth_append min_def simp del: upt_Suc)

lemma character_end_loop_le: "character_end_loop str n \<le> n"
  by (induction n) auto

lemma character_end_loop_prefix: "n < length s \<Longrightarrow> character_end_loop (s @ r) n = character_end_loop s n"
  by (induction n) (auto simp: nth_append)

lemma character_end_le: "character_end str n \<le> n"
  using character_end_loop_le by (auto simp: character_end_def)

lemma character_end_length: "character_end str n \<le> length str"
  using character_end_loop_le [of str n] by (simp add: character_end_def)

lemma character_end_prefix: "n < length s \<Longrightarrow> character_end (s @ r) n = character_end s n"
  by (simp add: character_end_def character_end_loop_prefix)

definition head_cut :: "string \<Rightarrow> output_limits \<Rightarrow> nat" where
  "head_cut str limits = snd (head_range str limits)"

lemma head_range_cut: "head_range str limits = (0, head_cut str limits)"
  by (simp add: head_cut_def head_range_def Let_def)

text \<open>What the head window of a prefix that is long enough has in common with the whole text's.\<close>

definition head_enough :: "string \<Rightarrow> output_limits \<Rightarrow> bool" where
  "head_enough s limits \<longleftrightarrow> max_bytes limits < length s \<or> max_lines limits \<le> count_newlines s"

lemma head_cut_prefix:
  assumes "head_enough s limits"
  shows "head_cut (s @ r) limits = head_cut s limits"
proof (cases "max_lines limits = 0 \<or> max_bytes limits = 0")
  case False
  define e d where "e = head_end_loop s (max_lines limits) (find_nl s 0) 0"
    and "d = head_end_loop (s @ r) (max_lines limits) (find_nl (s @ r) 0) 0"
  have ed: "is_head_end s (max_lines limits) e" "is_head_end (s @ r) (max_lines limits) d"
    using head_end_is False by (auto simp: e_def d_def)
  have el: "e \<le> length s" using ed(1) by (auto simp: is_head_end_def)
  show ?thesis
  proof (cases "e = d")
    case True
    have "max_bytes limits < e \<Longrightarrow> max_bytes limits < length s" using el by simp
    moreover have "max_bytes limits - 1 < length s" if "max_bytes limits < e" using that el by simp
    ultimately show ?thesis using True False
      by (simp add: head_cut_def head_range_def e_def [symmetric] d_def [symmetric]
          rfind_nl_prefix character_end_prefix split: option.splits)
  next
    case neq: False
    have few: "nls s 0 (length s) < max_lines limits" using head_end_prefix(1) [OF ed] neq by (metis not_le)
    have ld: "length s \<le> d" using head_end_prefix(2) [OF ed] neq by blast
    have "e = length s" using few using ed(1) nls_mono [of 0 0 e "length s" s] by (auto simp: is_head_end_def)
    moreover have b: "max_bytes limits < length s"
      using assms few by (simp add: head_enough_def count_newlines_nls)
    ultimately show ?thesis using False ld
      by (simp add: head_cut_def head_range_def e_def [symmetric] d_def [symmetric]
          rfind_nl_prefix character_end_prefix split: option.splits)
  qed
qed (simp add: head_cut_def head_range_def)

lemma head_cut_le: "head_cut str limits \<le> length str"
proof (cases "max_lines limits = 0 \<or> max_bytes limits = 0")
  case False
  define e where "e = head_end_loop str (max_lines limits) (find_nl str 0) 0"
  have "e \<le> length str" using head_end_is [of "max_lines limits" str] False by (auto simp: e_def is_head_end_def)
  then show ?thesis
    using False character_end_length [of str "max_bytes limits"] rfind_nl_le [of str "max_bytes limits - 1"]
    by (auto simp: head_cut_def head_range_def e_def [symmetric] split: option.splits)
qed (simp add: head_cut_def head_range_def)

lemma head_cut_bytes: "head_cut str limits \<le> max_bytes limits"
proof (cases "max_lines limits = 0 \<or> max_bytes limits = 0")
  case False
  then show ?thesis
    using character_end_le [of str "max_bytes limits"] rfind_nl_le [of str "max_bytes limits - 1"]
    by (auto simp: head_cut_def head_range_def Let_def split: option.splits)
qed (simp add: head_cut_def head_range_def)

section \<open>The tail window\<close>

definition is_tail_start :: "string \<Rightarrow> nat \<Rightarrow> nat \<Rightarrow> bool" where
  "is_tail_start str limit s \<longleftrightarrow>
     s = 0 \<and> nls str 0 (searched str) < limit \<or>
     0 < s \<and> s \<le> searched str \<and> str ! (s - 1) = kNewline \<and> nls str (s - 1) (searched str) = limit"

lemma tail_start_loop_spec:
  assumes "p < length str" "0 < seen" "seen \<le> limit"
  shows "let s = tail_start_loop str limit (rfind_nl str p) seen in
    s = 0 \<and> seen + nls str 0 (Suc p) \<le> limit \<or>
    0 < s \<and> s \<le> Suc p \<and> str ! (s - 1) = kNewline \<and> seen + nls str (s - 1) (Suc p) = Suc limit"
  using assms
proof (induction p arbitrary: seen rule: less_induct)
  case (less p)
  show ?case
  proof (cases "rfind_nl str p")
    case None
    then show ?thesis using rfind_nl_None [OF None] less.prems by simp
  next
    case (Some i)
    have i: "i \<le> p" "str ! i = kNewline" "nls str (Suc i) (Suc p) = 0"
      using rfind_nl_Some [OF Some] less.prems by auto
    have count: "nls str a (Suc p) = Suc (nls str a i)" if "a \<le> i" for a
      using i that nls_split [of a "Suc i" "Suc p" str] nls_Suc [of a i str] by simp
    show ?thesis
    proof (cases "seen = limit")
      case True
      then show ?thesis using Some i count [of i] by simp
    next
      case False
      show ?thesis
      proof (cases "i = 0")
        case True
        then show ?thesis using Some False less.prems count [of 0] by simp
      next
        case i0: False
        let ?s = "tail_start_loop str limit (rfind_nl str (i - 1)) (Suc seen)"
        have "?s = 0 \<and> Suc seen + nls str 0 i \<le> limit \<or>
            0 < ?s \<and> ?s \<le> i \<and> str ! (?s - 1) = kNewline \<and> Suc seen + nls str (?s - 1) i = Suc limit"
          using less.IH [of "i - 1" "Suc seen"] i i0 less.prems False by (simp add: Let_def)
        moreover have "tail_start_loop str limit (rfind_nl str p) seen = ?s" using Some False i0 by simp
        ultimately show ?thesis using count [of 0] count [of "?s - 1"] i unfolding Let_def by auto
      qed
    qed
  qed
qed

definition tail_start :: "string \<Rightarrow> nat \<Rightarrow> nat" where
  "tail_start str limit =
     (if searched str = 0 then 0 else tail_start_loop str limit (rfind_nl str (searched str - 1)) 1)"

lemma searched_le: "searched str \<le> length str"
  by (simp add: searched_def)

lemma tail_start_is: "0 < limit \<Longrightarrow> is_tail_start str limit (tail_start str limit)"
  using tail_start_loop_spec [of "searched str - 1" str 1 limit] searched_le [of str]
  by (cases "searched str") (auto simp: tail_start_def is_tail_start_def Let_def)

lemma newline_position_unique_back:
  assumes "nls str a q = nls str b q" "a < q" "b < q" "str ! a = kNewline" "str ! b = kNewline"
  shows "a = b"
proof (rule ccontr)
  have less: False if "a < b" "b < q" "nls str a q = nls str b q" "str ! a = kNewline" for a b
    using that nls_split [of a b q str] nls_first [of a b str] by simp
  assume "a \<noteq> b"
  then have "a < b \<or> b < a" by arith
  then show False using less [of a b] less [of b a] assms by auto
qed

lemma tail_start_unique:
  assumes "is_tail_start str limit s" "is_tail_start str limit d"
  shows "s = d"
proof -
  have pos: "limit \<le> nls str 0 (searched str)" if "0 < u" "u \<le> searched str" "nls str (u - 1) (searched str) = limit" for u
    using nls_mono [of 0 "u - 1" "searched str" "searched str" str] that by simp
  consider "s = 0" "d = 0" | "0 < s" "0 < d" | "s = 0" "0 < d" | "0 < s" "d = 0" by linarith
  then show ?thesis
  proof cases
    case 2
    then have f: "s \<le> searched str" "str ! (s - 1) = kNewline" "nls str (s - 1) (searched str) = limit"
      "d \<le> searched str" "str ! (d - 1) = kNewline" "nls str (d - 1) (searched str) = limit"
      using assms unfolding is_tail_start_def by simp_all
    have "s - 1 = d - 1"
      by (rule newline_position_unique_back [of str _ "searched str"]) (use f 2 in simp_all)
    then show ?thesis using 2 by simp
  qed (use assms pos [of s] pos [of d] in \<open>auto simp: is_tail_start_def\<close>)
qed

lemma searched_suffix: "s \<noteq> [] \<Longrightarrow> searched (p @ s) = length p + searched s"
  by (cases s) (auto simp: searched_def)

lemma nls_suffix:
  "nls (p @ s) (length p + a) (length p + b) = nls s a b"
  by (rule nls_append_right)

lemma count_searched: "count_newlines s \<le> Suc (nls s 0 (searched s))"
proof (cases "s = [] \<or> last s \<noteq> kNewline")
  case False
  then have "nls s 0 (length s) = Suc (nls s 0 (length s - 1))"
    using nls_Suc [of 0 "length s - 1" s] last_conv_nth [of s] by simp
  then show ?thesis using False by (simp add: searched_def count_newlines_nls)
qed (auto simp: searched_def count_newlines_nls)

text \<open>A suffix with more than the window: its line start is the whole text's, unless it is too short for it.\<close>

lemma tail_start_suffix:
  assumes ne: "s \<noteq> []" and limit: "0 < limit"
  shows "0 < tail_start s limit \<Longrightarrow> tail_start (p @ s) limit = length p + tail_start s limit"
    and "tail_start s limit = 0 \<Longrightarrow> tail_start (p @ s) limit \<le> length p"
proof -
  note s = tail_start_is [OF limit, of s] and t = tail_start_is [OF limit, of "p @ s"]
  have q: "searched (p @ s) = length p + searched s" using searched_suffix [OF ne] .
  show "tail_start (p @ s) limit = length p + tail_start s limit" if pos: "0 < tail_start s limit"
  proof -
    let ?u = "length p + tail_start s limit"
    have u1: "?u - 1 = length p + (tail_start s limit - 1)" using pos by simp
    have "is_tail_start (p @ s) limit ?u"
      using s pos nls_suffix [of p s "tail_start s limit - 1" "searched s"]
        nth_append_length_plus [of p s "tail_start s limit - 1"]
      unfolding is_tail_start_def q u1 by auto
    then show ?thesis using tail_start_unique t by blast
  qed
  show "tail_start (p @ s) limit \<le> length p" if zero: "tail_start s limit = 0"
  proof (rule ccontr)
    let ?d = "tail_start (p @ s) limit"
    assume "\<not> ?d \<le> length p"
    then have d: "?d \<le> length p + searched s" "nls (p @ s) (?d - 1) (searched (p @ s)) = limit" "length p < ?d"
      using t unfolding is_tail_start_def q by auto
    obtain k where k: "?d - 1 = length p + k" "k < searched s"
      using d by (intro that [of "?d - 1 - length p"]) auto
    have "nls s k (searched s) = limit" using d(2) unfolding q k(1) nls_suffix by simp
    then show False using s zero nls_mono [of 0 k "searched s" "searched s" s] k(2)
      by (simp add: is_tail_start_def)
  qed
qed

lemma find_map_shift: "find P (map f xs) = map_option f (find (P \<circ> f) xs)"
  by (induction xs) auto

lemma find_nl_suffix: "find_nl (p @ s) (length p + a) = map_option (\<lambda>i. length p + i) (find_nl s a)"
proof -
  have "[length p + a..<length (p @ s)] = map (\<lambda>i. i + length p) [a..<length s]"
    by (simp add: map_upt_shift)
  then show ?thesis
    by (simp add: find_nl_def find_map_shift nth_append comp_def add.commute)
qed

lemma character_start_ge: "a \<le> character_start str a"
proof (induction str a rule: character_start.induct)
  case (1 str a)
  then show ?case by (subst character_start.simps) auto
qed

lemma character_start_le: "a \<le> length str \<Longrightarrow> character_start str a \<le> length str"
proof (induction str a rule: character_start.induct)
  case (1 str a)
  then show ?case by (subst character_start.simps) auto
qed

lemma character_start_suffix: "character_start (p @ s) (length p + a) = length p + character_start s a"
proof (induction s a rule: character_start.induct)
  case (1 s a)
  show ?case using "1.IH"
    by (subst character_start.simps, subst (2) character_start.simps) (auto simp: nth_append)
qed

text \<open>The start of the byte window, and the start \<open>tail_range\<close> returns.\<close>

definition byte_window :: "string \<Rightarrow> nat \<Rightarrow> nat" where
  "byte_window str limit =
     (let window = length str - limit
      in case find_nl str (if window = 0 then 0 else window - 1) of
           Some newline \<Rightarrow> if Suc newline < length str then Suc newline else character_start str window
         | None \<Rightarrow> character_start str window)"

definition tail_cut :: "string \<Rightarrow> output_limits \<Rightarrow> nat" where
  "tail_cut str limits = fst (tail_range str limits)"

lemma tail_range_cut: "tail_range str limits = (tail_cut str limits, length str)"
  by (simp add: tail_cut_def tail_range_def Let_def)

lemma tail_cut_cases:
  assumes "max_lines limits \<noteq> 0" "max_bytes limits \<noteq> 0"
  shows "tail_cut str limits =
    (if max_bytes limits < length str - tail_start str (max_lines limits)
     then byte_window str (max_bytes limits) else tail_start str (max_lines limits))"
  using assms by (simp add: tail_cut_def tail_range_def byte_window_def tail_start_def Let_def)

lemma byte_window_suffix:
  assumes "limit < length s"
  shows "byte_window (p @ s) limit = length p + byte_window s limit"
proof -
  define w where "w = length s - limit"
  have w: "0 < w" "length (p @ s) - limit = length p + w" "length s - limit = w" using assms by (auto simp: w_def)
  have "length p + w - 1 = length p + (w - 1)" using w(1) by simp
  then have f: "find_nl (p @ s) (length p + w - 1) = map_option (\<lambda>i. length p + i) (find_nl s (w - 1))"
    using find_nl_suffix [of p s "w - 1"] by simp
  have nz: "length p + w \<noteq> 0" "w \<noteq> 0" using w(1) by auto
  show ?thesis
    unfolding byte_window_def w(2,3) Let_def if_not_P [OF nz(1)] if_not_P [OF nz(2)] f character_start_suffix
    by (cases "find_nl s (w - 1)") simp_all
qed

definition tail_enough :: "string \<Rightarrow> output_limits \<Rightarrow> bool" where
  "tail_enough s limits \<longleftrightarrow> max_bytes limits < length s \<or> max_lines limits < count_newlines s"

lemma tail_cut_suffix:
  assumes "tail_enough s limits"
  shows "drop (tail_cut (p @ s) limits) (p @ s) = drop (tail_cut s limits) s"
proof (cases "max_lines limits = 0 \<or> max_bytes limits = 0")
  case True
  then show ?thesis by (auto simp: tail_cut_def tail_range_def)
next
  case False
  have ne: "s \<noteq> []" using assms by (auto simp: tail_enough_def)
  let ?u = "tail_start s (max_lines limits)" and ?d = "tail_start (p @ s) (max_lines limits)"
  have lim: "0 < max_lines limits" using False by simp
  have "tail_cut (p @ s) limits = length p + tail_cut s limits"
  proof (cases "0 < ?u")
    case True
    then have "?d = length p + ?u" using tail_start_suffix(1) [OF ne lim] by blast
    then show ?thesis using False byte_window_suffix [of "max_bytes limits" s p]
      by (auto simp: tail_cut_cases)
  next
    case zero: False
    then have "nls s 0 (searched s) < max_lines limits"
      using tail_start_is [OF lim, of s] by (auto simp: is_tail_start_def)
    then have b: "max_bytes limits < length s"
      using assms count_searched [of s] by (auto simp: tail_enough_def)
    moreover have "?d \<le> length p" using tail_start_suffix(2) [OF ne lim] zero by blast
    ultimately show ?thesis using False zero byte_window_suffix [OF b, of p] by (auto simp: tail_cut_cases)
  qed
  then show ?thesis by simp
qed

section \<open>The window is within its limits\<close>

lemma count_lines_searched: "str \<noteq> [] \<Longrightarrow> count_lines str = Suc (nls str 0 (searched str))"
proof (cases "last str = kNewline")
  case True
  assume "str \<noteq> []"
  then have "nls str 0 (length str) = Suc (nls str 0 (length str - 1))"
    using True nls_Suc [of 0 "length str - 1" str] last_conv_nth [of str] by simp
  then show ?thesis using True \<open>str \<noteq> []\<close> by (simp add: count_lines_def count_newlines_nls searched_def)
qed (simp add: count_lines_def count_newlines_nls searched_def)

lemma count_lines_prefix: "count_lines a \<le> count_lines (a @ b)"
proof (cases "b = []")
  case False
  show ?thesis
  proof (cases "a = []")
    case False
    have "count_newlines b + (if last b = kNewline then 0 else 1) \<ge> 1"
    proof (cases "last b = kNewline")
      case True
      then have "kNewline \<in> set b" using \<open>b \<noteq> []\<close> last_in_set by fastforce
      then have "filter (\<lambda>c. c = kNewline) b \<noteq> []" by (auto simp: filter_empty_conv)
      then show ?thesis by (simp add: count_newlines_filter Suc_leI)
    qed simp
    then show ?thesis using False \<open>b \<noteq> []\<close> by (simp add: count_lines_def)
  qed (simp add: count_lines_def)
qed simp

lemma count_lines_suffix: "count_lines b \<le> count_lines (a @ b)"
  by (cases "b = []") (simp_all add: count_lines_def)

lemma head_lines:
  assumes "is_head_end str limit e" "c \<le> e"
  shows "count_lines (take c str) \<le> limit"
proof -
  have "count_lines (take e str) \<le> limit"
  proof (cases "e = length str \<and> nls str 0 (length str) < limit")
    case True
    then show ?thesis by (simp add: count_lines_def count_newlines_nls)
  next
    case False
    then have e: "0 < e" "e \<le> length str" "str ! (e - 1) = kNewline" "nls str 0 e = limit"
      using assms(1) by (auto simp: is_head_end_def)
    have "count_newlines (take e str) = limit"
      using e nls_append_left [of e "take e str" "drop e str" 0] by (simp add: count_newlines_nls)
    moreover have "last (take e str) = kNewline" using e last_conv_nth [of "take e str"] by force
    ultimately show ?thesis by (simp add: count_lines_def)
  qed
  moreover have "take e str = take c str @ drop c (take e str)"
    using assms(2) by (metis append_take_drop_id min.absorb1 take_take)
  ultimately show ?thesis using count_lines_prefix [of "take c str" "drop c (take e str)"] by simp
qed

lemma head_cut_lines: "count_lines (take (head_cut str limits) str) \<le> max_lines limits"
proof (cases "max_lines limits = 0 \<or> max_bytes limits = 0")
  case False
  define e where "e = head_end_loop str (max_lines limits) (find_nl str 0) 0"
  have "head_cut str limits \<le> e"
    using False character_end_le [of str "max_bytes limits"] rfind_nl_le [of str "max_bytes limits - 1"]
    by (auto simp: head_cut_def head_range_def e_def [symmetric] split: option.splits)
  then show ?thesis using head_lines [OF head_end_is [of "max_lines limits" str]] False by (simp add: e_def)
qed (auto simp: head_cut_def head_range_def count_lines_def)

lemma byte_window_ge: "length str - limit \<le> byte_window str limit"
  using character_start_ge [of "length str - limit" str]
  by (auto simp: byte_window_def Let_def dest!: find_nl_Some split: option.splits if_splits)

lemma byte_window_le: "byte_window str limit \<le> length str"
  using character_start_le [of "length str - limit" str]
  by (auto simp: byte_window_def Let_def split: option.splits)

lemma tail_cut_le: "tail_cut str limits \<le> length str"
proof (cases "max_lines limits = 0 \<or> max_bytes limits = 0")
  case False
  then have "tail_start str (max_lines limits) \<le> length str"
    using tail_start_is [of "max_lines limits" str] searched_le [of str] by (auto simp: is_tail_start_def)
  then show ?thesis using False byte_window_le by (simp add: tail_cut_cases)
qed (auto simp: tail_cut_def tail_range_def)

lemma tail_cut_bytes: "length str - tail_cut str limits \<le> max_bytes limits"
proof (cases "max_lines limits = 0 \<or> max_bytes limits = 0")
  case False
  then show ?thesis using byte_window_ge [of str "max_bytes limits"] by (simp add: tail_cut_cases) linarith
qed (auto simp: tail_cut_def tail_range_def)

lemma tail_start_lines:
  assumes "0 < limit"
  shows "count_lines (drop (tail_start str limit) str) \<le> limit"
proof (cases "drop (tail_start str limit) str = []")
  case False
  let ?s = "tail_start str limit"
  have s: "?s \<le> length str" using False by simp
  then have split: "str = take ?s str @ drop ?s str" "length (take ?s str) = ?s" by simp_all
  have q: "searched str = ?s + searched (drop ?s str)" using searched_suffix [OF False, of "take ?s str"] split by simp
  have n: "nls (drop ?s str) 0 (searched (drop ?s str)) = nls str ?s (searched str)"
    using nls_suffix [of "take ?s str" "drop ?s str" 0] split q by simp
  have "nls str ?s (searched str) < limit"
  proof (cases "?s = 0")
    case True
    then show ?thesis using tail_start_is [OF assms, of str] by (auto simp: is_tail_start_def)
  next
    case pos: False
    then have "str ! (?s - 1) = kNewline" "nls str (?s - 1) (searched str) = limit" "?s \<le> searched str"
      using tail_start_is [OF assms, of str] by (auto simp: is_tail_start_def)
    then show ?thesis using nls_first [of "?s - 1" "searched str" str] pos by force
  qed
  then show ?thesis using count_lines_searched [OF False] n by simp
qed (simp add: count_lines_def)

lemma tail_cut_lines: "count_lines (drop (tail_cut str limits) str) \<le> max_lines limits"
proof (cases "max_lines limits = 0 \<or> max_bytes limits = 0")
  case False
  let ?s = "tail_start str (max_lines limits)"
  have "?s \<le> tail_cut str limits"
    using False byte_window_ge [of str "max_bytes limits"] by (auto simp: tail_cut_cases)
  then have "drop ?s str = take (tail_cut str limits - ?s) (drop ?s str) @ drop (tail_cut str limits) str"
    by (metis append_take_drop_id drop_drop le_add_diff_inverse2)
  then have "count_lines (drop (tail_cut str limits) str) \<le> count_lines (drop ?s str)"
    by (metis count_lines_suffix)
  then show ?thesis using tail_start_lines [of "max_lines limits" str] False by simp
qed (auto simp: tail_cut_def tail_range_def count_lines_def)

text \<open>The window as one function of the text.\<close>

definition kept_text :: "string \<Rightarrow> output_limits \<Rightarrow> string" where
  "kept_text str limits =
     (if retain limits = Head then take (head_cut str limits) str else drop (tail_cut str limits) str)"

lemma bound_output_kept:
  "bound_output str limits =
     \<lparr>sl_text = kept_text str limits, sl_bytes = length (kept_text str limits),
      sl_dropped_bytes = length str - length (kept_text str limits),
      sl_dropped_lines = count_lines str - count_lines (kept_text str limits)\<rparr>"
  by (simp add: bound_output_def head_range_cut tail_range_cut kept_text_def Let_def)

lemma kept_bytes: "length (kept_text str limits) \<le> max_bytes limits"
  using head_cut_bytes [of str limits] tail_cut_bytes [of str limits] by (auto simp: kept_text_def)

lemma kept_lines: "count_lines (kept_text str limits) \<le> max_lines limits"
  using head_cut_lines [of str limits] tail_cut_lines [of str limits] by (simp add: kept_text_def)

lemma kept_part: "\<exists>p r. str = p @ kept_text str limits @ r"
  by (auto simp: kept_text_def) (metis append_Nil append_take_drop_id, metis append_Nil2 append_take_drop_id)

lemma kept_lines_le: "count_lines (kept_text str limits) \<le> count_lines str"
  using kept_part [of str limits] count_lines_suffix count_lines_prefix by (metis le_trans)

lemma kept_length_le: "length (kept_text str limits) \<le> length str"
  using kept_part [of str limits] by (metis length_append le_add1 le_add2 le_trans)

lemma kept_head: "head_enough s limits \<Longrightarrow> retain limits = Head \<Longrightarrow> kept_text (s @ r) limits = kept_text s limits"
  using head_cut_prefix [of s limits r] head_cut_le [of s limits] by (simp add: kept_text_def)

lemma kept_tail: "tail_enough s limits \<Longrightarrow> retain limits = Tail \<Longrightarrow> kept_text (p @ s) limits = kept_text s limits"
  using tail_cut_suffix [of s limits p] by (simp add: kept_text_def)

section \<open>The margin kept between snapshots\<close>

lemma rfind_nl_whole: "str \<noteq> [] \<Longrightarrow> rfind_nl str (length str) = rfind_nl str (length str - 1)"
  by (simp add: rfind_nl_def)

lemma tail_margin_loop_spec:
  assumes "p < length str" "n \<le> limit"
  shows "let l = tail_margin_loop str limit (rfind_nl str p) n in
    l = 0 \<or> l \<le> p \<and> n + nls str l (Suc p) = Suc limit"
  using assms
proof (induction p arbitrary: n rule: less_induct)
  case (less p)
  show ?case
  proof (cases "rfind_nl str p")
    case (Some i)
    have i: "i \<le> p" "str ! i = kNewline" "nls str (Suc i) (Suc p) = 0"
      using rfind_nl_Some [OF Some] less.prems by auto
    have count: "nls str a (Suc p) = Suc (nls str a i)" if "a \<le> i" for a
      using i that nls_split [of a "Suc i" "Suc p" str] nls_Suc [of a i str] by simp
    show ?thesis
    proof (cases "limit < Suc n \<or> i = 0")
      case True
      then show ?thesis using Some i count [of i] less.prems by auto
    next
      case False
      let ?l = "tail_margin_loop str limit (rfind_nl str (i - 1)) (Suc n)"
      have "?l = 0 \<or> ?l < i \<and> Suc n + nls str ?l i = Suc limit"
        using less.IH [of "i - 1" "Suc n"] i less.prems False by (cases i) (auto simp: Let_def)
      moreover have "tail_margin_loop str limit (rfind_nl str p) n = ?l" using Some False by simp
      ultimately show ?thesis using count [of ?l] i unfolding Let_def by auto
    qed
  qed simp
qed

lemma tail_margin_keeps:
  "\<exists>p. s = p @ tail_margin s limits \<and> (p = [] \<or> tail_enough (tail_margin s limits) limits)"
proof (cases "s = []")
  case False
  define bs where "bs = (if max_bytes limits < length s then character_end s (length s - max_bytes limits - 1) else 0)"
  define ls where "ls = tail_margin_loop s (max_lines limits) (rfind_nl s (length s)) 0"
  have m: "tail_margin s limits = drop (max bs ls) s"
    by (simp add: tail_margin_def bs_def [symmetric] ls_def [symmetric] Let_def)
  have "ls = 0 \<or> ls \<le> length s - 1 \<and> nls s ls (length s) = Suc (max_lines limits)"
    using tail_margin_loop_spec [of "length s - 1" s 0 "max_lines limits"] False rfind_nl_whole [OF False]
    by (simp add: ls_def Let_def)
  moreover have "bs = 0 \<or> bs + max_bytes limits < length s"
    using character_end_le [of s "length s - max_bytes limits - 1"] by (auto simp: bs_def)
  ultimately have "max bs ls = 0 \<or> tail_enough (drop (max bs ls) s) limits"
  proof (cases "bs \<le> ls")
    case True
    have "nls s ls (length s) = count_newlines (drop ls s)" if "ls \<le> length s - 1"
      using that nls_suffix [of "take ls s" "drop ls s" 0 "length (drop ls s)"] by (simp add: count_newlines_nls)
    then show ?thesis using True \<open>ls = 0 \<or> _\<close> by (auto simp: tail_enough_def max_def)
  qed (auto simp: tail_enough_def max_def)
  then show ?thesis unfolding m by (metis append_Nil append_take_drop_id drop0)
qed (simp add: tail_margin_def Let_def)

section \<open>The buffer refines the whole stream\<close>

definition chunk_ok :: "stored_chunk \<Rightarrow> bool" where
  "chunk_ok c \<longleftrightarrow> sc_bytes c = length (sc_text c) \<and> sc_newlines c = count_newlines (sc_text c)"

definition chunks_text :: "stored_chunk list \<Rightarrow> string" where
  "chunks_text cs = concat (map sc_text cs)"

lemma chunks_text_simps [simp]:
  "chunks_text [] = []" "chunks_text (c # cs) = sc_text c @ chunks_text cs"
  "chunks_text (cs @ ds) = chunks_text cs @ chunks_text ds"
  by (simp_all add: chunks_text_def)

definition limits_ok :: "output_limits \<Rightarrow> bool" where
  "limits_ok limits \<longleftrightarrow> max_bytes limits + 1 < 2 ^ 64 \<and> max_lines limits + 1 < 2 ^ 64"

lemma drop_chunks_spec:
  assumes "drop_chunks limits cs bytes newlines = (ks, kb, kn)" "limits_ok limits" "list_all chunk_ok cs"
    "bytes = length (chunks_text cs)" "newlines = count_newlines (chunks_text cs)"
  shows "list_all chunk_ok ks \<and> kb = length (chunks_text ks) \<and> kn = count_newlines (chunks_text ks) \<and>
    (\<exists>ds. cs = ds @ ks \<and> (ds = [] \<or> tail_enough (chunks_text ks) limits))"
  using assms
proof (induction limits cs bytes newlines rule: drop_chunks.induct)
  case (1 limits c d cs bytes newlines)
  let ?b = "bytes - sc_bytes c" and ?n = "newlines - sc_newlines c"
  show ?case
  proof (cases "?b \<le> size_mod (max_bytes limits + 1) \<and> ?n \<le> size_mod (max_lines limits + 1)")
    case True
    then show ?thesis using "1.prems" by (auto simp: Let_def)
  next
    case False
    have bn: "?b = length (chunks_text (d # cs))" "?n = count_newlines (chunks_text (d # cs))"
      using "1.prems"(3-5) by (auto simp: chunk_ok_def)
    have "list_all chunk_ok ks \<and> kb = length (chunks_text ks) \<and> kn = count_newlines (chunks_text ks) \<and>
        (\<exists>ds. d # cs = ds @ ks \<and> (ds = [] \<or> tail_enough (chunks_text ks) limits))"
    proof (rule "1.IH" [OF refl refl False])
      show "drop_chunks limits (d # cs) ?b ?n = (ks, kb, kn)"
        using "1.prems"(1) False by (auto simp: Let_def)
    qed (use "1.prems" bn in auto)
    moreover have "tail_enough (chunks_text (d # cs)) limits"
      using False "1.prems"(2) unfolding bn by (auto simp: tail_enough_def limits_ok_def size_mod_def)
    ultimately show ?thesis by (metis append_Cons append_Nil)
  qed
qed auto

definition buffer_shows :: "output_limits \<Rightarrow> output_buffer \<Rightarrow> string \<Rightarrow> bool" where
  "buffer_shows limits b stream \<longleftrightarrow>
     ob_limits b = limits \<and> limits_ok limits \<and> list_all chunk_ok (ob_chunks b) \<and>
     ob_stored_bytes b = length (stored_text b) \<and> ob_stored_newlines b = count_newlines (stored_text b) \<and>
     ob_total_bytes b = size_mod (length stream) \<and> ob_total_newlines b = size_mod (count_newlines stream) \<and>
     ob_ends_with_newline b = (stream = [] \<or> last stream = kNewline) \<and>
     (if retain limits = Head
      then (\<exists>r. stream = stored_text b @ r \<and> (if ob_full b then head_enough (stored_text b) limits else r = []))
      else \<not> ob_full b \<and> (\<exists>p. stream = p @ stored_text b \<and> (p = [] \<or> tail_enough (stored_text b) limits)))"

text \<open>What a snapshot of a stream has to show: the window of the whole stream.\<close>

definition stream_view :: "output_limits \<Rightarrow> string \<Rightarrow> bounded_output" where
  "stream_view limits stream =
     \<lparr>bo_text = sanitize_output (sl_text (bound_output stream limits)),
      bo_dropped_bytes = size_mod (sl_dropped_bytes (bound_output stream limits)),
      bo_dropped_lines = size_mod (sl_dropped_lines (bound_output stream limits))\<rparr>"

lemma size_mod_sub:
  assumes "k \<le> n + e" "k \<le> 2 ^ 64"
  shows "size_mod (size_mod n + e + 2 ^ 64 - k) = size_mod (n + e - k)"
proof -
  have "(n mod 2 ^ 64 + e + 2 ^ 64 - k) mod 2 ^ 64 = (n mod 2 ^ 64 + (e + (2 ^ 64 - k))) mod 2 ^ 64"
    using assms(2) by (simp add: add.assoc)
  also have "\<dots> = (n + (e + (2 ^ 64 - k))) mod 2 ^ 64" by (rule mod_add_left_eq)
  also have "n + (e + (2 ^ 64 - k)) = (n + e - k) + 2 ^ 64" using assms by simp
  also have "((n + e - k) + 2 ^ 64) mod 2 ^ 64 = (n + e - k) mod 2 ^ 64" by (rule mod_add_self2)
  finally show ?thesis by (simp add: size_mod_def)
qed

lemma size_mod_add: "size_mod (size_mod a + b) = size_mod (a + b)"
  by (simp add: size_mod_def mod_add_left_eq)

lemma stored_text_chunks: "stored_text b = chunks_text (ob_chunks b)"
  by (simp add: stored_text_def chunks_text_def)

lemma shows_init: "limits_ok limits \<Longrightarrow> buffer_shows limits (output_buffer_init limits) []"
  by (simp add: buffer_shows_def output_buffer_init_def stored_text_def size_mod_def)

lemma head_enough_append: "head_enough s limits \<Longrightarrow> head_enough (s @ t) limits"
  by (auto simp: head_enough_def)

lemma tail_enough_append: "tail_enough s limits \<Longrightarrow> tail_enough (s @ t) limits"
  by (auto simp: tail_enough_def)

lemma tail_enough_prepend: "tail_enough s limits \<Longrightarrow> tail_enough (t @ s) limits"
  by (auto simp: tail_enough_def)

lemma retain_Tail: "retain limits \<noteq> Head \<longleftrightarrow> retain limits = Tail"
  by (cases "retain limits") auto

lemma shows_push_head:
  assumes b: "buffer_shows limits b stream" and head: "retain limits = Head"
  shows "buffer_shows limits (snd (output_push b chunk)) (stream @ chunk)"
proof (cases "chunk = []")
  case False
  obtain r where r: "stream = stored_text b @ r" "if ob_full b then head_enough (stored_text b) limits else r = []"
    using b head by (auto simp: buffer_shows_def)
  show ?thesis
  proof (cases "ob_full b")
    case True
    then show ?thesis using False b head r(2)
      by (auto simp: buffer_shows_def output_push_def Let_def size_mod_add stored_text_def)
  next
    case open_: False
    then show ?thesis using False b head r
      by (auto simp: buffer_shows_def output_push_def Let_def size_mod_add stored_text_def chunk_ok_def head_enough_def)
  qed
qed (use b in \<open>simp add: output_push_def\<close>)

lemma shows_push_tail:
  assumes b: "buffer_shows limits b stream" and tail: "retain limits \<noteq> Head"
  shows "buffer_shows limits (snd (output_push b chunk)) (stream @ chunk)"
proof (cases "chunk = []")
  case False
  obtain p where p: "stream = p @ stored_text b" "p = [] \<or> tail_enough (stored_text b) limits"
    using b tail by (auto simp: buffer_shows_def)
  have lim: "ob_limits b = limits" "limits_ok limits" "\<not> ob_full b" using b tail by (auto simp: buffer_shows_def)
  let ?cs = "ob_chunks b @ [\<lparr>sc_text = chunk, sc_bytes = length chunk, sc_newlines = count_newlines chunk\<rparr>]"
  let ?bytes = "ob_stored_bytes b + length chunk" and ?newlines = "ob_stored_newlines b + count_newlines chunk"
  obtain ks kb kn where drop: "drop_chunks limits ?cs ?bytes ?newlines = (ks, kb, kn)"
    by (cases "drop_chunks limits ?cs ?bytes ?newlines") auto
  have joined_text: "chunks_text ?cs = stored_text b @ chunk" by (simp add: stored_text_chunks)
  have ks: "list_all chunk_ok ks" "kb = length (chunks_text ks)" "kn = count_newlines (chunks_text ks)"
    and ds: "\<exists>ds. ?cs = ds @ ks \<and> (ds = [] \<or> tail_enough (chunks_text ks) limits)"
    using drop_chunks_spec [OF drop lim(2)] b joined_text by (auto simp: buffer_shows_def chunk_ok_def)
  obtain ds where ds: "?cs = ds @ ks" "ds = [] \<or> tail_enough (chunks_text ks) limits" using ds by blast
  have joined: "stored_text b @ chunk = chunks_text ds @ chunks_text ks" using joined_text ds(1) by simp
  have "stream @ chunk = (p @ chunks_text ds) @ chunks_text ks" using p(1) joined by simp
  moreover have "p @ chunks_text ds = [] \<or> tail_enough (chunks_text ks) limits"
    using p(2) ds(2) joined tail_enough_append [of "stored_text b" limits chunk] by auto
  ultimately have suffix: "\<exists>q. stream @ chunk = q @ chunks_text ks \<and> (q = [] \<or> tail_enough (chunks_text ks) limits)"
    by blast
  have "snd (output_push b chunk) =
      b\<lparr>ob_total_bytes := size_mod (ob_total_bytes b + length chunk),
        ob_total_newlines := size_mod (ob_total_newlines b + count_newlines chunk),
        ob_ends_with_newline := (last chunk = kNewline),
        ob_chunks := ks, ob_stored_bytes := kb, ob_stored_newlines := kn\<rparr>"
    using False lim tail drop by (simp add: output_push_def Let_def)
  then show ?thesis using False b tail ks suffix
    by (simp add: buffer_shows_def size_mod_add stored_text_chunks)
qed (use b in \<open>simp add: output_push_def\<close>)

lemma shows_push:
  "buffer_shows limits b stream \<Longrightarrow> buffer_shows limits (snd (output_push b chunk)) (stream @ chunk)"
  using shows_push_head shows_push_tail by blast

lemma shows_kept: "buffer_shows limits b stream \<Longrightarrow> kept_text (stored_text b) limits = kept_text stream limits"
  by (auto simp: buffer_shows_def retain_Tail kept_head kept_tail split: if_splits)

lemma snapshot_view:
  assumes b: "buffer_shows limits b stream"
  shows "fst (output_snapshot b) = stream_view limits stream"
proof -
  let ?k = "kept_text stream limits"
  have lim: "ob_limits b = limits" "max_bytes limits < 2 ^ 64" "max_lines limits < 2 ^ 64"
    using b by (auto simp: buffer_shows_def limits_ok_def)
  have k: "kept_text (stored_text b) limits = ?k" using shows_kept [OF b] .
  have lines: "count_lines (stored_text b) - (count_lines (stored_text b) - count_lines ?k) = count_lines ?k"
    using kept_lines_le [of "stored_text b" limits] k by simp
  have total: "count_newlines stream + (if ob_ends_with_newline b then 0 else 1) = count_lines stream"
    using b by (auto simp: buffer_shows_def count_lines_def)
  have bytes: "size_mod (ob_total_bytes b + 2 ^ 64 - length ?k) = size_mod (length stream - length ?k)"
    using b size_mod_sub [of "length ?k" "length stream" 0] kept_length_le [of stream limits] kept_bytes [of stream limits] lim
    by (simp add: buffer_shows_def)
  have "size_mod (ob_total_newlines b + (if ob_ends_with_newline b then 0 else 1) + 2 ^ 64 - count_lines ?k) =
      size_mod (count_newlines stream + (if ob_ends_with_newline b then 0 else 1) - count_lines ?k)"
    using b size_mod_sub [of "count_lines ?k" "count_newlines stream" "if ob_ends_with_newline b then 0 else 1"] total
      kept_lines_le [of stream limits] kept_lines [of stream limits] lim by (simp add: buffer_shows_def)
  also have "\<dots> = size_mod (count_lines stream - count_lines ?k)" using total by simp
  finally show ?thesis
    using bytes lines k lim(1) by (simp add: output_snapshot_def stream_view_def bound_output_kept Let_def)
qed

lemma snapshot_shows:
  assumes b: "buffer_shows limits b stream"
  shows "buffer_shows limits (snd (output_snapshot b)) stream"
proof (cases "retain limits = Head")
  case True
  have st: "stored_text (snd (output_snapshot b)) = stored_text b" using b True
    by (auto simp: output_snapshot_def Let_def buffer_shows_def stored_text_def)
  show ?thesis using b True unfolding buffer_shows_def st
    by (auto simp: output_snapshot_def Let_def chunk_ok_def)
next
  case False
  let ?m = "tail_margin (stored_text b) limits"
  obtain p where p: "stored_text b = p @ ?m" "p = [] \<or> tail_enough ?m limits" using tail_margin_keeps by blast
  obtain q where q: "stream = q @ stored_text b" "q = [] \<or> tail_enough (stored_text b) limits"
    using b False by (auto simp: buffer_shows_def)
  have "stream = (q @ p) @ ?m" using p(1) q(1) by simp
  moreover have "q @ p = [] \<or> tail_enough ?m limits" using p q(2) by auto
  ultimately have suffix: "\<exists>u. stream = u @ ?m \<and> (u = [] \<or> tail_enough ?m limits)" by blast
  have st: "stored_text (snd (output_snapshot b)) = ?m" using b False
    by (auto simp: output_snapshot_def Let_def buffer_shows_def stored_text_def retain_Tail)
  show ?thesis using b False suffix unfolding buffer_shows_def st
    by (auto simp: output_snapshot_def Let_def retain_Tail chunk_ok_def)
qed

text \<open>A script of a client: \<open>Some c\<close> pushes a chunk, \<open>None\<close> takes a snapshot.\<close>

fun run_script :: "('b \<Rightarrow> 'a list \<Rightarrow> 'b) \<Rightarrow> ('b \<Rightarrow> 'o \<times> 'b) \<Rightarrow> 'b \<Rightarrow> 'a list option list \<Rightarrow> 'o list" where
  "run_script push snapshot b [] = []"
| "run_script push snapshot b (Some c # es) = run_script push snapshot (push b c) es"
| "run_script push snapshot b (None # es) = fst (snapshot b) # run_script push snapshot (snd (snapshot b)) es"

text \<open>What the script has to show, computed from everything pushed so far.\<close>

fun stream_script :: "('a list \<Rightarrow> 'o) \<Rightarrow> 'a list \<Rightarrow> 'a list option list \<Rightarrow> 'o list" where
  "stream_script view s [] = []"
| "stream_script view s (Some c # es) = stream_script view (s @ c) es"
| "stream_script view s (None # es) = view s # stream_script view s es"

text \<open>
  The contract of a bounded buffer, whatever it stores: it relates to the stream it was fed,
  and a snapshot shows a function of that stream. A client may push and take snapshots in
  any order and sees what an unbounded buffer would show.
\<close>

locale stream_buffer =
  fixes init :: "'l \<Rightarrow> 'b"
    and push :: "'b \<Rightarrow> 'a list \<Rightarrow> 'b"
    and snapshot :: "'b \<Rightarrow> 'o \<times> 'b"
    and ok :: "'l \<Rightarrow> bool"
    and rel :: "'l \<Rightarrow> 'b \<Rightarrow> 'a list \<Rightarrow> bool"
    and view :: "'l \<Rightarrow> 'a list \<Rightarrow> 'o"
  assumes rel_init: "ok l \<Longrightarrow> rel l (init l) []"
    and rel_push: "rel l b s \<Longrightarrow> rel l (push b c) (s @ c)"
    and rel_snapshot: "rel l b s \<Longrightarrow> rel l (snd (snapshot b)) s"
    and shows_view: "rel l b s \<Longrightarrow> fst (snapshot b) = view l s"
begin

lemma run_expected: "rel l b s \<Longrightarrow> run_script push snapshot b es = stream_script (view l) s es"
  by (induction "view l" s es arbitrary: b rule: stream_script.induct)
    (auto intro: rel_push rel_snapshot simp: shows_view)

lemma rel_pushes: "rel l b s \<Longrightarrow> rel l (foldl push b cs) (s @ concat cs)"
proof (induction cs arbitrary: b s)
  case (Cons c cs)
  then show ?case using Cons.IH [OF rel_push [OF Cons.prems]] by simp
qed simp

lemma init_pushes_view: "ok l \<Longrightarrow> fst (snapshot (foldl push (init l) cs)) = view l (concat cs)"
  using rel_pushes [OF rel_init, of l cs] shows_view by simp

end

interpretation outbuf: stream_buffer output_buffer_init "\<lambda>b c. snd (output_push b c)" output_snapshot
    limits_ok buffer_shows stream_view
  by unfold_locales (auto intro: shows_init shows_push snapshot_shows snapshot_view)

end
