(* ===== verification/Chord_Output_Utf8.thy ===== *)
theory Chord_Output_Utf8
  imports Chord_Output_Laws
begin

text \<open>
  The output window on valid UTF-8: a window never starts or ends inside a character, and
  removing control characters byte by byte is the same as removing them character by
  character. Then the properties of the component.
\<close>

section \<open>Character boundaries\<close>


text \<open>Position \<open>i\<close> of a byte string lies between two characters.\<close>

definition between_scalars :: "nat list \<Rightarrow> nat \<Rightarrow> bool" where
  "between_scalars bs i \<longleftrightarrow>
     (\<exists>as cs. list_all scalar as \<and> list_all scalar cs \<and> bs = utf8_of (as @ cs) \<and> length (utf8_of as) = i)"


lemma between_0 [simp]: "list_all scalar cps \<Longrightarrow> between_scalars (utf8_of cps) 0"
  unfolding between_scalars_def by (intro exI [of _ "[]"] exI [of _ cps]) simp

lemma between_length [simp]: "list_all scalar cps \<Longrightarrow> between_scalars (utf8_of cps) (length (utf8_of cps))"
  unfolding between_scalars_def by (intro exI [of _ cps] exI [of _ "[]"]) simp



section \<open>The cuts\<close>












section \<open>Sanitizing\<close>

definition displayed :: "nat \<Rightarrow> bool" where
  "displayed cp \<longleftrightarrow> \<not> (cp \<le> 0x08 \<or> 0x0b \<le> cp \<and> cp \<le> 0x1f \<or> 0xfff9 \<le> cp \<and> cp \<le> 0xfffb)"

lemma sanitize_plain: "0x20 \<le> byte c \<Longrightarrow> byte c \<noteq> 0xef \<Longrightarrow> sanitize_output (c # s) = c # sanitize_output s"
  by (subst sanitize_output.simps(2)) (auto simp del: sanitize_output.simps split: list.splits)

lemma sanitize_removed:
  "byte c \<le> 0x08 \<or> 0x0b \<le> byte c \<and> byte c \<le> 0x1f \<Longrightarrow> sanitize_output (c # s) = sanitize_output s"
  by simp

lemma sanitize_three:
  "0x20 \<le> byte c \<Longrightarrow> sanitize_output (c # d # e # s) =
     (if byte c = 0xef \<and> byte d = 0xbf \<and> 0xb9 \<le> byte e \<and> byte e \<le> 0xbb then sanitize_output s
      else c # sanitize_output (d # e # s))"
  by (subst sanitize_output.simps(2)) (simp del: sanitize_output.simps)

lemma sanitize_whitespace:
  "byte c = 0x09 \<or> byte c = 0x0a \<Longrightarrow> sanitize_output (c # s) = c # sanitize_output s"
  by (subst sanitize_output.simps(2)) (auto simp del: sanitize_output.simps split: list.splits)

declare sanitize_output.simps(2) [simp del]

lemma three_byte_range:
  assumes "(cp :: nat) = x * 4096 + y * 64 + z" "z < 64" "y < 64" "x < 16"
  shows "x = 15 \<and> y = 63 \<and> 57 \<le> z \<and> z \<le> 59 \<longleftrightarrow> 0xfff9 \<le> cp \<and> cp \<le> 0xfffb"
proof
  assume r: "0xfff9 \<le> cp \<and> cp \<le> 0xfffb"
  have x: "x = 15" using r assms by linarith
  have y: "y = 63" using r assms x by linarith
  show "x = 15 \<and> y = 63 \<and> 57 \<le> z \<and> z \<le> 59" using r assms x y by linarith
qed (use assms in linarith)

text \<open>One character: its bytes are kept as they are or removed together.\<close>

lemma sanitize_character:
  assumes "scalar cp" "map byte t = utf8_bytes cp"
  shows "sanitize_output (t @ s) = (if displayed cp then t @ sanitize_output s else sanitize_output s)"
proof -
  consider "cp < 0x80" | "0x80 \<le> cp" "cp < 0x800" | "0x800 \<le> cp" "cp < 0x10000" | "0x10000 \<le> cp" by linarith
  then show ?thesis
  proof cases
    case 1
    then obtain c where t: "t = [c]" "byte c = cp" using assms(2) by (auto simp: utf8_bytes_def)
    have "cp \<le> 0x08 \<or> 0x0b \<le> cp \<and> cp \<le> 0x1f \<or> cp = 0x09 \<or> cp = 0x0a \<or> 0x20 \<le> cp" by linarith
    then show ?thesis using 1 t by (auto simp: displayed_def sanitize_removed sanitize_whitespace sanitize_plain)
  next
    case 2
    then obtain c d where t: "t = [c, d]" "byte c = 0xC0 + cp div 64" "byte d = 0x80 + cp mod 64"
      using assms(2) by (auto simp: utf8_bytes_def)
    have "cp div 64 < 32" using 2 by auto
    moreover have "cp mod 64 < 64" by simp
    ultimately have "byte c < 0xef" "0x20 \<le> byte c" "byte d < 0xef" "0x20 \<le> byte d"
      unfolding t(2,3) by linarith+
    then have "sanitize_output (t @ s) = t @ sanitize_output s" using t(1) sanitize_plain by simp
    moreover have "displayed cp" using 2 by (auto simp: displayed_def)
    ultimately show ?thesis by simp
  next
    case 3
    then obtain c d e where t: "t = [c, d, e]" "byte c = 0xE0 + cp div 4096" "byte d = 0x80 + cp div 64 mod 64"
        "byte e = 0x80 + cp mod 64"
      using assms(2) by (auto simp: utf8_bytes_def)
    have bounds: "cp mod 64 < 64" "cp div 64 mod 64 < 64" "cp div 4096 < 16" using 3 by auto
    have cp: "cp = cp div 4096 * 4096 + cp div 64 mod 64 * 64 + cp mod 64"
      using div_4096 [of cp] div_mult_mod_eq [of cp 64] div_mult_mod_eq [of "cp div 64" 64] by linarith
    have "byte c = 0xef \<and> byte d = 0xbf \<and> 0xb9 \<le> byte e \<and> byte e \<le> 0xbb \<longleftrightarrow>
        cp div 4096 = 15 \<and> cp div 64 mod 64 = 63 \<and> 57 \<le> cp mod 64 \<and> cp mod 64 \<le> 59"
      using t(2-4) by linarith
    also have "\<dots> \<longleftrightarrow> 0xfff9 \<le> cp \<and> cp \<le> 0xfffb"
      by (rule three_byte_range [OF cp bounds])
    also have "\<dots> \<longleftrightarrow> \<not> displayed cp" using 3 by (auto simp: displayed_def)
    finally have "byte c = 0xef \<and> byte d = 0xbf \<and> 0xb9 \<le> byte e \<and> byte e \<le> 0xbb \<longleftrightarrow> \<not> displayed cp" .
    moreover have "0x20 \<le> byte c" "0x20 \<le> byte d" "byte d < 0xef" "0x20 \<le> byte e" "byte e < 0xef"
      using t(2-4) bounds by linarith+
    moreover from calculation have "sanitize_output (d # e # s) = d # e # sanitize_output s"
      using sanitize_plain by simp
    ultimately show ?thesis using t(1) sanitize_three [of c d e s] by simp
  next
    case 4
    then obtain c d e f where t: "t = [c, d, e, f]" "byte c = 0xF0 + cp div 262144"
        "byte d = 0x80 + cp div 4096 mod 64" "byte e = 0x80 + cp div 64 mod 64" "byte f = 0x80 + cp mod 64"
      using assms(2) by (auto simp: utf8_bytes_def)
    have "cp mod 64 < 64" "cp div 64 mod 64 < 64" "cp div 4096 mod 64 < 64" by simp_all
    then have "0x20 \<le> byte c" "0xef < byte c" "0x20 \<le> byte d" "byte d < 0xef" "0x20 \<le> byte e" "byte e < 0xef"
        "0x20 \<le> byte f" "byte f < 0xef"
      using t(2-5) by linarith+
    then have "sanitize_output (t @ s) = t @ sanitize_output s" using t(1) sanitize_plain by simp
    moreover have "displayed cp" using 4 by (auto simp: displayed_def)
    ultimately show ?thesis by simp
  qed
qed

lemma sanitize_utf8:
  "list_all scalar cps \<Longrightarrow> map byte s = utf8_of cps \<Longrightarrow>
   map byte (sanitize_output s) = utf8_of (filter displayed cps)"
proof (induction cps arbitrary: s)
  case (Cons cp cps)
  have "map byte s = utf8_bytes cp @ utf8_of cps" using Cons.prems(2) by simp
  then obtain t r where s: "s = t @ r" "map byte t = utf8_bytes cp" "map byte r = utf8_of cps"
    by (metis map_eq_append_conv)
  then show ?case using Cons.IH [of r] sanitize_character [of cp t r] Cons.prems(1) by simp
qed simp

section \<open>Properties\<close>



text \<open>
  C13. The output buffer is exact although it forgets: for limits below the largest
  \<^verbatim>\<open>size_t\<close>, any interleaving of pushed chunks and snapshots shows at every snapshot the
  sanitized window of everything pushed so far, with the exact counts of dropped bytes and
  lines (modulo $2^{64}$).
\<close>

theorem output_buffer_shows_stream:
  assumes "limits_ok limits"
  shows "run_script (\<lambda>b c. snd (output_push b c)) output_snapshot (output_buffer_init limits) es =
    stream_script (stream_view limits) [] es"
  by (rule outbuf.run_expected [OF outbuf.rel_init [OF assms]])

theorem output_buffer_shows_stream_witness:
  "run_script (\<lambda>b c. snd (output_push b c)) output_snapshot
     (output_buffer_init \<lparr>max_bytes = 3, max_lines = 1, retain = Tail\<rparr>) [Some ''abc'', Some ''defgh'', None] =
   stream_script (stream_view \<lparr>max_bytes = 3, max_lines = 1, retain = Tail\<rparr>) [] [Some ''abc'', Some ''defgh'', None]"
  by (rule output_buffer_shows_stream) (simp add: limits_ok_def)

text \<open>
  With the byte limit at the largest \<^verbatim>\<open>size_t\<close> the margin of the dropping loop wraps to
  zero: a tail buffer that was given two chunks forgets the first, although the limit was
  never reached.
\<close>

lemma unlimited_tail_buffer_loses:
  "stored_text (snd (output_push (snd (output_push
     (output_buffer_init \<lparr>max_bytes = 2 ^ 64 - 1, max_lines = 2 ^ 64 - 1, retain = Tail\<rparr>) ''a'')) ''b'')) = ''b''"
  by (simp add: output_push_def output_buffer_init_def size_mod_def stored_text_def Let_def)

text \<open>
  On valid UTF-8 the byte scan that removes control characters is exact: it removes the
  control characters other than tab and newline and the interlinear annotation characters,
  and leaves every other character as it was.
\<close>

theorem sanitize_output_exact:
  assumes "list_all scalar cps" "map byte str = utf8_of cps"
  shows "map byte (sanitize_output str) =
    utf8_of (filter (\<lambda>cp. \<not> (cp \<le> 0x08 \<or> 0x0b \<le> cp \<and> cp \<le> 0x1f \<or> 0xfff9 \<le> cp \<and> cp \<le> 0xfffb)) cps)"
  using sanitize_utf8 [OF assms] by (simp add: displayed_def [abs_def])

theorem sanitize_output_exact_witness:
  "map byte (sanitize_output (map char_of [0x41, 0xef, 0xbf, 0xba, 0x07, 0x0a :: nat])) =
     utf8_of (filter (\<lambda>cp. \<not> (cp \<le> 0x08 \<or> 0x0b \<le> cp \<and> cp \<le> 0x1f \<or> 0xfff9 \<le> cp \<and> cp \<le> 0xfffb))
       [0x41, 0xfffa, 0x07, 0x0a])"
  by (rule sanitize_output_exact) (simp_all add: scalar_def byte_def utf8_bytes_def)

end
