(* ===== verification/Replicated.thy ===== *)
theory Replicated
  imports Delta
begin

text \<open>
  \<^verbatim>\<open>src/src/chord/ReplicatedState.cpp\<close>: subscriptions to a replicated value. The code runs
  in one serialized domain but is re-entrant: a listener may publish, subscribe, unsubscribe
  or settle while a delivery is under way. The model makes the call stack explicit. A frame
  of the stack is the publish loop, with the listeners it has not yet served, the drain loop
  of a subscriber, or a listener that is running; whoever is on top takes the next step, and
  when it is a listener, or nothing, the environment may call in. Subscribers, which the code
  shares by pointer, are entries of a map. A context is an opaque handle. The deliveries a
  listener got and the published values are recorded as ghost state. The error hook only
  records; the lifetime of the objects is not modelled.
\<close>

section \<open>Subscribers\<close>

datatype delivery_kind = Hydrate | Update

record state_delivery =
  sd_value :: json
  sd_context :: nat
  sd_kind :: delivery_kind
  sd_sequence :: nat

text \<open>
  The handshake of the listener that is running or not yet settled: the loop waits for it
  (0), the loop has returned (1), the completion came first (2).
\<close>

datatype handshake = ListenerRunning | LoopReturned | SettledInline

record subscriber =
  sb_pending :: "state_delivery list"
  sb_running :: bool
  sb_started :: bool
  sb_closed :: bool
  sb_handshake :: "handshake option"
  sb_delivered :: "state_delivery list"

definition kReplicatedStatePendingLimit :: nat where
  "kReplicatedStatePendingLimit = 100"

definition new_subscriber :: subscriber where
  "new_subscriber =
     \<lparr>sb_pending = [], sb_running = False, sb_started = False, sb_closed = False, sb_handshake = None,
      sb_delivered = []\<rparr>"

definition subscriber_push :: "subscriber \<Rightarrow> state_delivery \<Rightarrow> subscriber" where
  "subscriber_push s frame =
     (if sb_closed s then s
      else let kept = (if length (sb_pending s) = kReplicatedStatePendingLimit
                       then (if \<not> sb_started s then [hd (sb_pending s)] else [])
                       else sb_pending s)
           in s\<lparr>sb_pending := kept @ [frame]\<rparr>)"

definition subscriber_close :: "subscriber \<Rightarrow> subscriber" where
  "subscriber_close s = s\<lparr>sb_closed := True, sb_pending := []\<rparr>"

section \<open>The publisher\<close>

record publication =
  pn_value :: json
  pn_sequence :: nat
  pn_context :: nat

text \<open>A registration: the subscriber and the sequence it was hydrated with.\<close>

type_synonym listener = "nat \<times> nat"

datatype frame =
    PublishLoop "(publication \<times> listener) list"
  | DrainLoop nat
  | InListener nat

record publisher =
  pb_listeners :: "listener list"
  pb_publications :: "publication list"
  pb_value :: json
  pb_sequence :: nat
  pb_delivering :: bool
  pb_subscribers :: "nat \<rightharpoonup> subscriber"
  pb_fresh :: nat
  pb_stack :: "frame list"
  pb_history :: "json list"
  pb_reported :: nat

definition background_context :: nat where
  "background_context = 0"

definition publisher_init :: "json \<Rightarrow> publisher" where
  "publisher_init initial =
     \<lparr>pb_listeners = [], pb_publications = [], pb_value = initial, pb_sequence = 0, pb_delivering = False,
      pb_subscribers = Map.empty, pb_fresh = 0, pb_stack = [], pb_history = [initial], pb_reported = 0\<rparr>"

definition with_subscriber :: "publisher \<Rightarrow> nat \<Rightarrow> subscriber \<Rightarrow> publisher" where
  "with_subscriber pb sid s = pb\<lparr>pb_subscribers := (pb_subscribers pb)(sid \<mapsto> s)\<rparr>"

text \<open>The entry of \<open>drain\<close>: the loop starts unless it is running already or closed.\<close>

definition drain_call :: "publisher \<Rightarrow> nat \<Rightarrow> publisher" where
  "drain_call pb sid =
     (case pb_subscribers pb sid of
        None \<Rightarrow> pb
      | Some s \<Rightarrow>
          if sb_running s \<or> sb_closed s then pb
          else (with_subscriber pb sid (s\<lparr>sb_running := True\<rparr>))\<lparr>pb_stack := DrainLoop sid # pb_stack pb\<rparr>)"

definition push_and_drain :: "publisher \<Rightarrow> nat \<Rightarrow> state_delivery \<Rightarrow> publisher" where
  "push_and_drain pb sid frame =
     (case pb_subscribers pb sid of
        None \<Rightarrow> pb
      | Some s \<Rightarrow> drain_call (with_subscriber pb sid (subscriber_push s frame)) sid)"

text \<open>One round of the drain loop: deliver the next frame, or stop.\<close>

definition drain_step :: "publisher \<Rightarrow> nat \<Rightarrow> frame list \<Rightarrow> publisher" where
  "drain_step pb sid rest =
     (case pb_subscribers pb sid of
        None \<Rightarrow> pb\<lparr>pb_stack := rest\<rparr>
      | Some s \<Rightarrow>
          (case sb_pending s of
             [] \<Rightarrow> (with_subscriber pb sid (s\<lparr>sb_running := False\<rparr>))\<lparr>pb_stack := rest\<rparr>
           | frame # pending \<Rightarrow>
               (with_subscriber pb sid
                  (s\<lparr>sb_pending := pending, sb_started := True, sb_handshake := Some ListenerRunning,
                     sb_delivered := sb_delivered s @ [frame]\<rparr>))
               \<lparr>pb_stack := InListener sid # rest\<rparr>))"

text \<open>The listener returns to the drain loop, which goes on if the completion came first.\<close>

definition listener_return :: "publisher \<Rightarrow> nat \<Rightarrow> frame list \<Rightarrow> publisher" where
  "listener_return pb sid rest =
     (case pb_subscribers pb sid of
        None \<Rightarrow> pb\<lparr>pb_stack := rest\<rparr>
      | Some s \<Rightarrow>
          if sb_handshake s = Some SettledInline
          then (with_subscriber pb sid (s\<lparr>sb_handshake := None\<rparr>))\<lparr>pb_stack := DrainLoop sid # rest\<rparr>
          else (with_subscriber pb sid (s\<lparr>sb_handshake := Some LoopReturned\<rparr>))\<lparr>pb_stack := rest\<rparr>)"

text \<open>The completion of the listener's result; \<open>failed\<close> says whether it is an error.\<close>

definition settle :: "publisher \<Rightarrow> nat \<Rightarrow> bool \<Rightarrow> publisher" where
  "settle pb sid failed =
     (let pb' = (if failed then pb\<lparr>pb_reported := Suc (pb_reported pb)\<rparr> else pb)
      in case pb_subscribers pb sid of
           None \<Rightarrow> pb'
         | Some s \<Rightarrow>
             (case sb_handshake s of
                Some ListenerRunning \<Rightarrow> with_subscriber pb' sid (s\<lparr>sb_handshake := Some SettledInline\<rparr>)
              | Some LoopReturned \<Rightarrow>
                  drain_call (with_subscriber pb' sid (s\<lparr>sb_handshake := None, sb_running := False\<rparr>)) sid
              | _ \<Rightarrow> pb))"

definition subscribe :: "publisher \<Rightarrow> nat \<times> publisher" where
  "subscribe pb =
     (let sid = pb_fresh pb;
          frame = \<lparr>sd_value = pb_value pb, sd_context = background_context, sd_kind = Hydrate,
                   sd_sequence = pb_sequence pb\<rparr>
      in (sid, push_and_drain
            (pb\<lparr>pb_subscribers := (pb_subscribers pb)(sid \<mapsto> new_subscriber),
                pb_listeners := pb_listeners pb @ [(sid, pb_sequence pb)], pb_fresh := Suc sid\<rparr>) sid frame))"

definition unsubscribe :: "publisher \<Rightarrow> nat \<Rightarrow> publisher" where
  "unsubscribe pb sid =
     (case pb_subscribers pb sid of
        None \<Rightarrow> pb
      | Some s \<Rightarrow>
          (with_subscriber pb sid (subscriber_close s))
          \<lparr>pb_listeners := filter (\<lambda>(l, _). l \<noteq> sid) (pb_listeners pb)\<rparr>)"

definition publish :: "publisher \<Rightarrow> json \<Rightarrow> nat \<Rightarrow> publisher" where
  "publish pb v ctx =
     (let seq = Suc (pb_sequence pb);
          pb' = pb\<lparr>pb_value := v, pb_sequence := seq, pb_history := pb_history pb @ [v],
                   pb_publications := pb_publications pb @ [\<lparr>pn_value = v, pn_sequence = seq, pn_context = ctx\<rparr>]\<rparr>
      in if pb_delivering pb then pb'
         else pb'\<lparr>pb_delivering := True, pb_stack := PublishLoop [] # pb_stack pb\<rparr>)"

definition update_of :: "publication \<Rightarrow> state_delivery" where
  "update_of p = \<lparr>sd_value = pn_value p, sd_context = pn_context p, sd_kind = Update, sd_sequence = pn_sequence p\<rparr>"

text \<open>
  One round of the publish loop: serve the next listener of the copied registrations; when
  they are served take the next publication; when there is none, stop.
\<close>

definition publish_step :: "publisher \<Rightarrow> (publication \<times> listener) list \<Rightarrow> frame list \<Rightarrow> publisher" where
  "publish_step pb todo rest =
     (case todo of
        (p, (sid, hydrated)) # todo' \<Rightarrow>
          let pb' = pb\<lparr>pb_stack := PublishLoop todo' # rest\<rparr>
          in if pn_sequence p \<le> hydrated then pb' else push_and_drain pb' sid (update_of p)
      | [] \<Rightarrow>
          (case pb_publications pb of
             p # publications \<Rightarrow>
               pb\<lparr>pb_publications := publications,
                  pb_stack := PublishLoop (map (\<lambda>l. (p, l)) (pb_listeners pb)) # rest\<rparr>
           | [] \<Rightarrow> pb\<lparr>pb_delivering := False, pb_stack := rest\<rparr>))"

section \<open>Steps\<close>

text \<open>The environment may call in when nothing runs or a listener does.\<close>

definition callable :: "publisher \<Rightarrow> bool" where
  "callable pb \<longleftrightarrow> (case pb_stack pb of [] \<Rightarrow> True | InListener _ # _ \<Rightarrow> True | _ \<Rightarrow> False)"

inductive pub_step :: "publisher \<Rightarrow> publisher \<Rightarrow> bool" where
  pub_publish: "callable pb \<Longrightarrow> pub_step pb (publish pb v ctx)"
| pub_subscribe: "callable pb \<Longrightarrow> pub_step pb (snd (subscribe pb))"
| pub_unsubscribe: "callable pb \<Longrightarrow> pub_step pb (unsubscribe pb sid)"
| pub_settle: "callable pb \<Longrightarrow> pub_step pb (settle pb sid failed)"
| pub_return: "pb_stack pb = InListener sid # rest \<Longrightarrow> pub_step pb (listener_return pb sid rest)"
| pub_drain: "pb_stack pb = DrainLoop sid # rest \<Longrightarrow> pub_step pb (drain_step pb sid rest)"
| pub_loop: "pb_stack pb = PublishLoop todo # rest \<Longrightarrow> pub_step pb (publish_step pb todo rest)"

section \<open>The attached state\<close>

datatype replicated_error = UnsafeFrameCursor | CursorGap int int | UnsafeSnapshotCursor | AttachFailed

record attached =
  at_cursor :: int
  at_disposed :: bool
  at_detached :: bool
  at_errors :: "replicated_error list"
  at_publisher :: publisher

definition kMaxSafeCursor :: int where
  "kMaxSafeCursor = 9007199254740991"

definition is_safe_cursor :: "int \<Rightarrow> bool" where
  "is_safe_cursor cursor \<longleftrightarrow> - kMaxSafeCursor \<le> cursor \<and> cursor \<le> kMaxSafeCursor"

text \<open>
  \<open>attach\<close>: the source's answer is an argument, its failure or the snapshot's value and
  cursor. \<open>at_detached\<close> says that the attachment was disposed.
\<close>

definition attach :: "(unit, json \<times> int) result \<Rightarrow> (replicated_error, attached) result" where
  "attach answer =
     (case answer of
        Inl _ \<Rightarrow> Inl AttachFailed
      | Inr (v, cursor) \<Rightarrow>
          if \<not> is_safe_cursor cursor then Inl UnsafeSnapshotCursor
          else Inr \<lparr>at_cursor = cursor, at_disposed = False, at_detached = False, at_errors = [],
                    at_publisher = publisher_init v\<rparr>)"

definition fail :: "attached \<Rightarrow> replicated_error \<Rightarrow> attached" where
  "fail a e =
     (if at_disposed a then a
      else a\<lparr>at_disposed := True, at_detached := True, at_errors := at_errors a @ [e]\<rparr>)"

definition receive :: "attached \<Rightarrow> int \<Rightarrow> json \<Rightarrow> nat \<Rightarrow> attached" where
  "receive a cursor v ctx =
     (if at_disposed a then a
      else if \<not> is_safe_cursor cursor then fail a UnsafeFrameCursor
      else let expected = at_cursor a + 1
           in if cursor \<noteq> expected then fail a (CursorGap expected cursor)
              else a\<lparr>at_cursor := cursor, at_publisher := publish (at_publisher a) v ctx\<rparr>)"

definition dispose :: "attached \<Rightarrow> attached" where
  "dispose a = (if at_disposed a then a else a\<lparr>at_disposed := True, at_detached := True\<rparr>)"

end
