(* ===== verification/Replicated_Laws.thy ===== *)
theory Replicated_Laws
  imports Replicated
begin

text \<open>
  Laws of replicated state, proved for every interleaving of publications, subscriptions,
  cancellations, settlements and returns, re-entrant ones included: what a subscription is
  given is ordered and genuine, the queue of a slow listener is bounded, a listener runs one
  delivery at a time, and when nothing is left to do every live subscription has seen the
  current value.
\<close>

section \<open>What a subscriber has been given\<close>

definition sb_all :: "subscriber \<Rightarrow> state_delivery list" where
  "sb_all s = sb_delivered s @ sb_pending s"

definition last_seq :: "subscriber \<Rightarrow> nat" where
  "last_seq s = sd_sequence (last (sb_all s))"

text \<open>The content of one subscriber, against the history of published values.\<close>

definition content_ok :: "json list \<Rightarrow> subscriber \<Rightarrow> bool" where
  "content_ok history s \<longleftrightarrow>
     sorted_wrt (<) (map sd_sequence (sb_all s)) \<and>
     (\<forall>d\<in>set (sb_all s). sd_sequence d < length history \<and> sd_value d = history ! sd_sequence d) \<and>
     length (sb_pending s) \<le> kReplicatedStatePendingLimit \<and>
     (sb_all s = [] \<or> sd_kind (hd (sb_all s)) = Hydrate \<and> (\<forall>d\<in>set (tl (sb_all s)). sd_kind d = Update)) \<and>
     (sb_started s \<longleftrightarrow> sb_delivered s \<noteq> []) \<and>
     (sb_closed s \<or> sb_all s \<noteq> [])"

lemma content_ok_history:
  "content_ok history s \<Longrightarrow> content_ok (history @ [v]) s"
  by (auto simp: content_ok_def nth_append)

lemma content_ok_moves:
  assumes "content_ok history s" "sb_all s' = sb_all s" "sb_closed s' = sb_closed s"
    "length (sb_pending s') \<le> length (sb_pending s)" "sb_started s' \<longleftrightarrow> sb_delivered s' \<noteq> []"
  shows "content_ok history s'"
  using assms by (simp add: content_ok_def)

lemma content_ok_close: "content_ok history s \<Longrightarrow> content_ok history (subscriber_close s)"
  by (auto simp: content_ok_def subscriber_close_def sb_all_def sorted_wrt_append hd_append
      split: if_splits)

text \<open>The overflow of the queue keeps an initial hydration and drops the rest.\<close>

lemma push_all:
  assumes c: "content_ok history s" and o: "\<not> sb_closed s"
  obtains kept where "sb_all (subscriber_push s d) = kept @ [d]" "kept \<noteq> []" "hd kept = hd (sb_all s)"
    "\<exists>ys. sb_all s = kept @ ys"
    "length (sb_pending (subscriber_push s d)) \<le> kReplicatedStatePendingLimit"
proof (cases "length (sb_pending s) = kReplicatedStatePendingLimit")
  case True
  then have ne: "sb_pending s \<noteq> []" by (auto simp: kReplicatedStatePendingLimit_def)
  show ?thesis
  proof (cases "sb_started s")
    case st: True
    then have "sb_delivered s \<noteq> []" using c by (simp add: content_ok_def)
    then show ?thesis using True st o
      by (intro that [of "sb_delivered s"])
        (auto simp: subscriber_push_def sb_all_def kReplicatedStatePendingLimit_def)
  next
    case st: False
    then have d: "sb_delivered s = []" using c by (simp add: content_ok_def)
    have "\<exists>ys. sb_pending s = [hd (sb_pending s)] @ ys" using ne by (cases "sb_pending s") auto
    then show ?thesis using True st o d
      by (intro that [of "[hd (sb_pending s)]"])
        (auto simp: subscriber_push_def sb_all_def kReplicatedStatePendingLimit_def)
  qed
next
  case False
  then have "length (sb_pending s) < kReplicatedStatePendingLimit" using c by (simp add: content_ok_def)
  moreover have "sb_all s \<noteq> []" using c o by (simp add: content_ok_def)
  ultimately show ?thesis using False o
    by (intro that [of "sb_all s"]) (auto simp: subscriber_push_def sb_all_def)
qed

lemma sorted_last: "sorted_wrt (<) (map f xs) \<Longrightarrow> x \<in> set xs \<Longrightarrow> f x \<le> (f (last xs) :: nat)"
  by (induction xs rule: rev_induct) (auto simp: sorted_wrt_append intro: less_imp_le)

lemma content_ok_push:
  assumes c: "content_ok history s" and o: "\<not> sb_closed s"
    and d: "sd_kind d = Update" "sd_sequence d < length history" "sd_value d = history ! sd_sequence d"
    and later: "last_seq s < sd_sequence d"
  shows "content_ok history (subscriber_push s d)" "last_seq (subscriber_push s d) = sd_sequence d"
    "sb_closed (subscriber_push s d) = sb_closed s"
proof -
  obtain kept where k: "sb_all (subscriber_push s d) = kept @ [d]" "kept \<noteq> []" "hd kept = hd (sb_all s)"
      and part: "\<exists>ys. sb_all s = kept @ ys"
      and len: "length (sb_pending (subscriber_push s d)) \<le> kReplicatedStatePendingLimit"
    using push_all [OF c o] by metis
  obtain ys where ys: "sb_all s = kept @ ys" using part by auto
  have sorted: "sorted_wrt (<) (map sd_sequence (sb_all s))" using c by (simp add: content_ok_def)
  have "sd_sequence x < sd_sequence d" if "x \<in> set kept" for x
  proof -
    have "x \<in> set (sb_all s)" using that ys by simp
    then have "sd_sequence x \<le> last_seq s" unfolding last_seq_def by (rule sorted_last [OF sorted])
    then show ?thesis using later by simp
  qed
  then have order: "sorted_wrt (<) (map sd_sequence (kept @ [d]))"
    using sorted ys by (simp add: sorted_wrt_append)
  have genuine: "\<forall>x\<in>set (kept @ [d]). sd_sequence x < length history \<and> sd_value x = history ! sd_sequence x"
    using c d ys by (simp add: content_ok_def)
  have tls: "tl (sb_all s) = tl kept @ ys" using ys k(2) by simp
  have kinds: "sd_kind (hd (kept @ [d])) = Hydrate \<and> (\<forall>x\<in>set (tl (kept @ [d])). sd_kind x = Update)"
  proof -
    have "sb_all s \<noteq> []" using ys k(2) by simp
    then have "sd_kind (hd (sb_all s)) = Hydrate" "\<forall>x\<in>set (tl (sb_all s)). sd_kind x = Update"
      using c unfolding content_ok_def by blast+
    then show ?thesis using tls k(2,3) d(1) by simp
  qed
  have flags: "sb_started (subscriber_push s d) = sb_started s" "sb_delivered (subscriber_push s d) = sb_delivered s"
    by (simp_all add: subscriber_push_def Let_def)
  have "sb_started s \<longleftrightarrow> sb_delivered s \<noteq> []" using c by (simp add: content_ok_def)
  then show "content_ok history (subscriber_push s d)"
    unfolding content_ok_def k(1) flags using order genuine kinds len by blast
  show "last_seq (subscriber_push s d) = sd_sequence d" using k(1) by (simp add: last_seq_def)
  show "sb_closed (subscriber_push s d) = sb_closed s" by (simp add: subscriber_push_def Let_def)
qed

section \<open>The content invariant\<close>

definition current :: "publisher \<Rightarrow> nat" where
  "current pb = pb_sequence pb - length (pb_publications pb)"

text \<open>What the publish loop has still to serve.\<close>

fun frame_todo :: "frame \<Rightarrow> (publication \<times> listener) list" where
  "frame_todo (PublishLoop todo) = todo"
| "frame_todo _ = []"

definition todo :: "publisher \<Rightarrow> (publication \<times> listener) list" where
  "todo pb = concat (map frame_todo (pb_stack pb))"

definition is_publish :: "frame \<Rightarrow> bool" where
  "is_publish f \<longleftrightarrow> (case f of PublishLoop _ \<Rightarrow> True | _ \<Rightarrow> False)"

lemma is_publish_simps [simp]:
  "is_publish (PublishLoop t)" "\<not> is_publish (DrainLoop sid)" "\<not> is_publish (InListener sid)"
  by (simp_all add: is_publish_def)

lemma frame_todo_other: "\<not> is_publish f \<Longrightarrow> frame_todo f = []"
  by (cases f) auto

text \<open>The queue holds the publications after the current one, in order, with their values.\<close>

definition queue_ok :: "publisher \<Rightarrow> bool" where
  "queue_ok pb \<longleftrightarrow>
     length (pb_history pb) = Suc (pb_sequence pb) \<and> pb_value pb = last (pb_history pb) \<and>
     length (pb_publications pb) \<le> pb_sequence pb \<and>
     map pn_sequence (pb_publications pb) = [Suc (current pb)..<Suc (pb_sequence pb)] \<and>
     (\<forall>p\<in>set (pb_publications pb). pn_value p = pb_history pb ! pn_sequence p)"

definition loop_ok :: "publisher \<Rightarrow> bool" where
  "loop_ok pb \<longleftrightarrow>
     length (filter is_publish (pb_stack pb)) = (if pb_delivering pb then 1 else 0) \<and>
     (\<not> pb_delivering pb \<longrightarrow> pb_publications pb = [])"

definition subscribers_ok :: "publisher \<Rightarrow> bool" where
  "subscribers_ok pb \<longleftrightarrow> (\<forall>sid s. pb_subscribers pb sid = Some s \<longrightarrow> content_ok (pb_history pb) s \<and> sid < pb_fresh pb)"

text \<open>A registered subscriber is behind the current publication only while the loop has still to serve it.\<close>

definition registered_ok :: "publisher \<Rightarrow> bool" where
  "registered_ok pb \<longleftrightarrow> distinct (map fst (pb_listeners pb)) \<and>
     (\<forall>(sid, h)\<in>set (pb_listeners pb). \<exists>s. pb_subscribers pb sid = Some s \<and> \<not> sb_closed s \<and>
        h \<le> last_seq s \<and> last_seq s \<le> max (current pb) h \<and>
        (current pb \<le> last_seq s \<or> sid \<in> (fst \<circ> snd) ` set (todo pb)))"

definition todo_ok :: "publisher \<Rightarrow> bool" where
  "todo_ok pb \<longleftrightarrow> distinct (map (fst \<circ> snd) (todo pb)) \<and>
     (\<forall>(p, (sid, h))\<in>set (todo pb). pn_sequence p = current pb \<and> current pb \<le> pb_sequence pb \<and>
        pn_value p = pb_history pb ! current pb \<and>
        (\<exists>s. pb_subscribers pb sid = Some s \<and>
          (sb_closed s \<or> (sid, h) \<in> set (pb_listeners pb) \<and> (h < current pb \<longrightarrow> last_seq s < current pb))))"

definition pub_inv :: "publisher \<Rightarrow> bool" where
  "pub_inv pb \<longleftrightarrow> queue_ok pb \<and> loop_ok pb \<and> subscribers_ok pb \<and> registered_ok pb \<and> todo_ok pb"

lemma registered_get:
  assumes "pub_inv pb" "(sid, h) \<in> set (pb_listeners pb)"
  obtains s where "pb_subscribers pb sid = Some s" "\<not> sb_closed s" "h \<le> last_seq s"
    "last_seq s \<le> max (current pb) h" "current pb \<le> last_seq s \<or> sid \<in> (fst \<circ> snd) ` set (todo pb)"
  using assms unfolding pub_inv_def registered_ok_def by fast

lemma registeredI:
  assumes "distinct (map fst (pb_listeners pb))"
    "\<And>sid h. (sid, h) \<in> set (pb_listeners pb) \<Longrightarrow> \<exists>s. pb_subscribers pb sid = Some s \<and> \<not> sb_closed s \<and>
      h \<le> last_seq s \<and> last_seq s \<le> max (current pb) h \<and>
      (current pb \<le> last_seq s \<or> sid \<in> (fst \<circ> snd) ` set (todo pb))"
  shows "registered_ok pb"
  using assms unfolding registered_ok_def by blast

lemma registered_distinct: "pub_inv pb \<Longrightarrow> distinct (map fst (pb_listeners pb))"
  by (simp add: pub_inv_def registered_ok_def)

lemma todo_distinct: "pub_inv pb \<Longrightarrow> distinct (map (fst \<circ> snd) (todo pb))"
  by (simp add: pub_inv_def todo_ok_def)

lemma todo_get:
  assumes "pub_inv pb" "(p, (sid, h)) \<in> set (todo pb)"
  obtains s where "pn_sequence p = current pb" "current pb \<le> pb_sequence pb" "pn_value p = pb_history pb ! current pb"
    "pb_subscribers pb sid = Some s"
    "sb_closed s \<or> (sid, h) \<in> set (pb_listeners pb) \<and> (h < current pb \<longrightarrow> last_seq s < current pb)"
  using assms unfolding pub_inv_def todo_ok_def by fast

lemma todoI:
  assumes "distinct (map (fst \<circ> snd) (todo pb))"
    "\<And>p sid h. (p, (sid, h)) \<in> set (todo pb) \<Longrightarrow> pn_sequence p = current pb \<and> current pb \<le> pb_sequence pb \<and>
      pn_value p = pb_history pb ! current pb \<and> (\<exists>s. pb_subscribers pb sid = Some s \<and>
        (sb_closed s \<or> (sid, h) \<in> set (pb_listeners pb) \<and> (h < current pb \<longrightarrow> last_seq s < current pb)))"
  shows "todo_ok pb"
  using assms unfolding todo_ok_def by fast

lemma pub_inv_init: "pub_inv (publisher_init v)"
  by (simp add: pub_inv_def queue_ok_def loop_ok_def subscribers_ok_def registered_ok_def todo_ok_def todo_def
      publisher_init_def current_def)

text \<open>Steps that only move deliveries within a subscriber or change its flags.\<close>

definition moves :: "subscriber \<Rightarrow> subscriber \<Rightarrow> bool" where
  "moves s s' \<longleftrightarrow> sb_all s' = sb_all s \<and> sb_closed s' = sb_closed s \<and>
     length (sb_pending s') \<le> length (sb_pending s) \<and>
     ((sb_started s \<longleftrightarrow> sb_delivered s \<noteq> []) \<longrightarrow> (sb_started s' \<longleftrightarrow> sb_delivered s' \<noteq> []))"

definition quiet :: "publisher \<Rightarrow> publisher \<Rightarrow> bool" where
  "quiet pb pb' \<longleftrightarrow>
     pb_listeners pb' = pb_listeners pb \<and> pb_publications pb' = pb_publications pb \<and> pb_value pb' = pb_value pb \<and>
     pb_sequence pb' = pb_sequence pb \<and> pb_history pb' = pb_history pb \<and> pb_fresh pb' = pb_fresh pb \<and>
     pb_delivering pb' = pb_delivering pb \<and> todo pb' = todo pb \<and>
     filter is_publish (pb_stack pb') = filter is_publish (pb_stack pb) \<and>
     (\<forall>sid. rel_option moves (pb_subscribers pb sid) (pb_subscribers pb' sid))"

lemma moves_refl [simp]: "moves s s"
  by (simp add: moves_def)

lemma moves_last: "moves s s' \<Longrightarrow> last_seq s' = last_seq s \<and> sb_closed s' = sb_closed s"
  by (simp add: moves_def last_seq_def)

lemma quiet_get:
  "quiet pb pb' \<Longrightarrow> pb_subscribers pb sid = Some s \<Longrightarrow> \<exists>s'. pb_subscribers pb' sid = Some s' \<and> moves s s'"
  unfolding quiet_def by (metis option_rel_Some1)

lemma quiet_get_back:
  "quiet pb pb' \<Longrightarrow> pb_subscribers pb' sid = Some s' \<Longrightarrow> \<exists>s. pb_subscribers pb sid = Some s \<and> moves s s'"
  unfolding quiet_def by (metis option_rel_Some2)

lemma quiet_inv:
  assumes q: "quiet pb pb'" and inv: "pub_inv pb"
  shows "pub_inv pb'"
proof -
  have same: "pb_listeners pb' = pb_listeners pb" "pb_publications pb' = pb_publications pb" "pb_value pb' = pb_value pb"
    "pb_sequence pb' = pb_sequence pb" "pb_history pb' = pb_history pb" "pb_fresh pb' = pb_fresh pb"
    "pb_delivering pb' = pb_delivering pb" "todo pb' = todo pb"
    "filter is_publish (pb_stack pb') = filter is_publish (pb_stack pb)" "current pb' = current pb"
    using q by (simp_all add: quiet_def current_def)
  have "queue_ok pb'" "loop_ok pb'" using inv same by (simp_all add: pub_inv_def queue_ok_def loop_ok_def)
  moreover have "subscribers_ok pb'" unfolding subscribers_ok_def same
  proof (intro allI impI)
    fix sid s' assume "pb_subscribers pb' sid = Some s'"
    then obtain s where s: "pb_subscribers pb sid = Some s" "moves s s'" using quiet_get_back [OF q] by blast
    have "content_ok (pb_history pb) s" "sid < pb_fresh pb" using inv s(1) by (auto simp: pub_inv_def subscribers_ok_def)
    then show "content_ok (pb_history pb) s' \<and> sid < pb_fresh pb"
      using s(2) content_ok_moves [of "pb_history pb" s s'] by (simp add: moves_def content_ok_def)
  qed
  moreover have "registered_ok pb'"
  proof (rule registeredI)
    show "distinct (map fst (pb_listeners pb'))" using registered_distinct [OF inv] same by simp
    fix sid h assume "(sid, h) \<in> set (pb_listeners pb')"
    then have "(sid, h) \<in> set (pb_listeners pb)" using same by simp
    then obtain s where s: "pb_subscribers pb sid = Some s" "\<not> sb_closed s" "h \<le> last_seq s"
        "last_seq s \<le> max (current pb) h" "current pb \<le> last_seq s \<or> sid \<in> (fst \<circ> snd) ` set (todo pb)"
      using registered_get [OF inv] by blast
    obtain s' where "pb_subscribers pb' sid = Some s'" "moves s s'" using quiet_get [OF q s(1)] by blast
    then show "\<exists>s. pb_subscribers pb' sid = Some s \<and> \<not> sb_closed s \<and> h \<le> last_seq s \<and>
        last_seq s \<le> max (current pb') h \<and> (current pb' \<le> last_seq s \<or> sid \<in> (fst \<circ> snd) ` set (todo pb'))"
      using s moves_last [of s s'] by (simp add: same)
  qed
  moreover have "todo_ok pb'"
  proof (rule todoI)
    show "distinct (map (fst \<circ> snd) (todo pb'))" using todo_distinct [OF inv] same by simp
    fix p sid h assume "(p, (sid, h)) \<in> set (todo pb')"
    then have "(p, (sid, h)) \<in> set (todo pb)" using same by simp
    then obtain s where s: "pn_sequence p = current pb" "current pb \<le> pb_sequence pb" "pn_value p = pb_history pb ! current pb"
        "pb_subscribers pb sid = Some s"
        "sb_closed s \<or> (sid, h) \<in> set (pb_listeners pb) \<and> (h < current pb \<longrightarrow> last_seq s < current pb)"
      using todo_get [OF inv] by blast
    obtain s' where "pb_subscribers pb' sid = Some s'" "moves s s'" using quiet_get [OF q s(4)] by blast
    then show "pn_sequence p = current pb' \<and> current pb' \<le> pb_sequence pb' \<and>
        pn_value p = pb_history pb' ! current pb' \<and> (\<exists>s. pb_subscribers pb' sid = Some s \<and>
          (sb_closed s \<or> (sid, h) \<in> set (pb_listeners pb') \<and> (h < current pb' \<longrightarrow> last_seq s < current pb')))"
      using s moves_last [of s s'] by (simp add: same)
  qed
  ultimately show ?thesis by (simp add: pub_inv_def)
qed

text \<open>One subscriber moves and the stack changes by frames that are not the publish loop's.\<close>

lemma quiet_one:
  assumes "pb_subscribers pb sid = Some s" "moves s s'"
    "pb' = (with_subscriber pb sid s')\<lparr>pb_stack := stack\<rparr>"
    "filter is_publish stack = filter is_publish (pb_stack pb)"
    "concat (map frame_todo stack) = todo pb"
  shows "quiet pb pb'"
  using assms by (auto simp: quiet_def with_subscriber_def todo_def option.rel_refl)

lemma quiet_refl: "quiet pb pb"
  by (simp add: quiet_def option.rel_refl)

lemma moves_trans: "moves a b \<Longrightarrow> moves b c \<Longrightarrow> moves a c"
  by (auto simp: moves_def)

lemma quiet_trans:
  assumes "quiet a b" "quiet b c"
  shows "quiet a c"
proof -
  have "rel_option moves (pb_subscribers a sid) (pb_subscribers c sid)" for sid
    using assms unfolding quiet_def by (metis (no_types, lifting) moves_trans option.rel_sel)
  then show ?thesis using assms by (simp add: quiet_def)
qed

lemma quiet_report: "quiet pb (pb\<lparr>pb_reported := n\<rparr>)"
  by (simp add: quiet_def todo_def option.rel_refl)

lemma quiet_drain_call: "quiet pb (drain_call pb sid)"
proof (cases "pb_subscribers pb sid")
  case (Some s)
  show ?thesis
  proof (cases "sb_running s \<or> sb_closed s")
    case False
    then show ?thesis using Some
      by (intro quiet_one [OF Some, of "s\<lparr>sb_running := True\<rparr>" _ "DrainLoop sid # pb_stack pb"])
        (auto simp: drain_call_def moves_def sb_all_def todo_def)
  qed (auto simp: drain_call_def Some quiet_refl)
qed (simp add: drain_call_def quiet_refl)

lemma quiet_drain_step:
  assumes "pb_stack pb = DrainLoop sid # rest"
  shows "quiet pb (drain_step pb sid rest)"
proof (cases "pb_subscribers pb sid")
  case (Some s)
  show ?thesis
  proof (cases "sb_pending s")
    case Nil
    then show ?thesis using Some assms
      by (intro quiet_one [OF Some, of "s\<lparr>sb_running := False\<rparr>" _ rest])
        (auto simp: drain_step_def moves_def sb_all_def todo_def)
  next
    case (Cons f fs)
    then show ?thesis using Some assms
      by (intro quiet_one [OF Some, of "s\<lparr>sb_pending := fs, sb_started := True,
            sb_handshake := Some ListenerRunning, sb_delivered := sb_delivered s @ [f]\<rparr>" _ "InListener sid # rest"])
        (auto simp: drain_step_def moves_def sb_all_def todo_def)
  qed
qed (use assms in \<open>auto simp: drain_step_def quiet_def todo_def option.rel_refl\<close>)

lemma quiet_return:
  assumes "pb_stack pb = InListener sid # rest"
  shows "quiet pb (listener_return pb sid rest)"
proof (cases "pb_subscribers pb sid")
  case (Some s)
  show ?thesis
  proof (cases "sb_handshake s = Some SettledInline")
    case True
    then show ?thesis using Some assms
      by (intro quiet_one [OF Some, of "s\<lparr>sb_handshake := None\<rparr>" _ "DrainLoop sid # rest"])
        (auto simp: listener_return_def moves_def sb_all_def todo_def)
  next
    case False
    then show ?thesis using Some assms
      by (intro quiet_one [OF Some, of "s\<lparr>sb_handshake := Some LoopReturned\<rparr>" _ rest])
        (auto simp: listener_return_def moves_def sb_all_def todo_def)
  qed
qed (use assms in \<open>auto simp: listener_return_def quiet_def todo_def option.rel_refl\<close>)

lemma quiet_flag:
  "pb_subscribers pb sid = Some s \<Longrightarrow> moves s s' \<Longrightarrow> quiet pb (with_subscriber pb sid s')"
  by (auto simp: quiet_def with_subscriber_def todo_def option.rel_refl)

lemma quiet_settle: "quiet pb (settle pb sid failed)"
proof -
  define pb' where "pb' = (if failed then pb\<lparr>pb_reported := Suc (pb_reported pb)\<rparr> else pb)"
  have q: "quiet pb pb'" using quiet_report quiet_refl by (simp add: pb'_def)
  have same: "pb_subscribers pb' = pb_subscribers pb" by (simp add: pb'_def)
  show ?thesis
  proof (cases "pb_subscribers pb sid")
    case None
    then show ?thesis using q by (simp add: settle_def pb'_def [symmetric])
  next
    case (Some s)
    have "quiet pb' (with_subscriber pb' sid (s\<lparr>sb_handshake := Some SettledInline\<rparr>))"
      "quiet pb' (drain_call (with_subscriber pb' sid (s\<lparr>sb_handshake := None, sb_running := False\<rparr>)) sid)"
      using Some same by (auto intro!: quiet_flag quiet_trans [OF quiet_flag quiet_drain_call] simp: moves_def sb_all_def)
    then show ?thesis using q Some quiet_refl
      by (auto simp: settle_def pb'_def [symmetric] intro: quiet_trans split: option.splits handshake.splits)
  qed
qed

section \<open>Publishing, subscribing, cancelling\<close>

lemma inv_publish:
  assumes inv: "pub_inv pb"
  shows "pub_inv (publish pb v ctx)"
proof -
  let ?pb = "publish pb v ctx"
  have cur: "current ?pb = current pb" by (simp add: publish_def current_def Let_def)
  have td: "todo ?pb = todo pb" by (simp add: publish_def todo_def Let_def)
  have same: "pb_listeners ?pb = pb_listeners pb" "pb_subscribers ?pb = pb_subscribers pb" "pb_fresh ?pb = pb_fresh pb"
      "pb_sequence ?pb = Suc (pb_sequence pb)" "pb_history ?pb = pb_history pb @ [v]"
      "pb_publications ?pb = pb_publications pb @ [\<lparr>pn_value = v, pn_sequence = Suc (pb_sequence pb), pn_context = ctx\<rparr>]"
      "pb_value ?pb = v"
    by (simp_all add: publish_def Let_def)
  have q: "queue_ok pb" and h: "length (pb_history pb) = Suc (pb_sequence pb)" and le: "current pb \<le> pb_sequence pb"
    using inv by (auto simp: pub_inv_def queue_ok_def current_def)
  have "pn_sequence p < Suc (pb_sequence pb)" if "p \<in> set (pb_publications pb)" for p
  proof -
    have "pn_sequence p \<in> set (map pn_sequence (pb_publications pb))" using that by simp
    then show ?thesis using q by (auto simp: queue_ok_def simp del: set_map)
  qed
  then have "queue_ok ?pb" using q le h unfolding queue_ok_def cur same
    by (auto simp: nth_append)
  moreover have "loop_ok ?pb" using inv by (auto simp: pub_inv_def loop_ok_def publish_def Let_def)
  moreover have "subscribers_ok ?pb" using inv content_ok_history
    by (simp add: pub_inv_def subscribers_ok_def same)
  moreover have "registered_ok ?pb" using inv by (simp add: pub_inv_def registered_ok_def same cur td)
  moreover have "todo_ok ?pb"
  proof (rule todoI)
    fix p sid l assume "(p, (sid, l)) \<in> set (todo ?pb)"
    then have "(p, (sid, l)) \<in> set (todo pb)" by (simp add: td)
    from todo_get [OF inv this] show "pn_sequence p = current ?pb \<and> current ?pb \<le> pb_sequence ?pb \<and>
        pn_value p = pb_history ?pb ! current ?pb \<and> (\<exists>s. pb_subscribers ?pb sid = Some s \<and>
          (sb_closed s \<or> (sid, l) \<in> set (pb_listeners ?pb) \<and> (l < current ?pb \<longrightarrow> last_seq s < current ?pb)))"
      using le h by (metis cur same(1,2,4,5) le_SucI less_Suc_eq_le nth_append)
  qed (use todo_distinct [OF inv] td in simp)
  ultimately show ?thesis by (simp add: pub_inv_def)
qed

lemma inv_unsubscribe:
  assumes inv: "pub_inv pb"
  shows "pub_inv (unsubscribe pb sid)"
proof (cases "pb_subscribers pb sid")
  case (Some s)
  let ?pb = "unsubscribe pb sid"
  have same: "todo ?pb = todo pb" "current ?pb = current pb" "pb_sequence ?pb = pb_sequence pb"
      "pb_history ?pb = pb_history pb" "pb_fresh ?pb = pb_fresh pb"
      "pb_listeners ?pb = filter (\<lambda>(l, _). l \<noteq> sid) (pb_listeners pb)"
      "pb_subscribers ?pb = (pb_subscribers pb)(sid \<mapsto> subscriber_close s)"
    using Some by (simp_all add: unsubscribe_def todo_def current_def with_subscriber_def)
  have "queue_ok ?pb" "loop_ok ?pb" using inv Some
    by (simp_all add: pub_inv_def queue_ok_def loop_ok_def unsubscribe_def with_subscriber_def current_def)
  moreover have "subscribers_ok ?pb" using inv Some content_ok_close
    by (auto simp: pub_inv_def subscribers_ok_def same)
  moreover have "registered_ok ?pb" using inv
    unfolding pub_inv_def registered_ok_def same by (auto simp: distinct_map_filter)
  moreover have "todo_ok ?pb"
  proof (rule todoI)
    fix p l h assume "(p, (l, h)) \<in> set (todo ?pb)"
    then have "(p, (l, h)) \<in> set (todo pb)" by (simp add: same)
    then obtain u where "pn_sequence p = current pb" "current pb \<le> pb_sequence pb"
        "pn_value p = pb_history pb ! current pb" "pb_subscribers pb l = Some u"
        "sb_closed u \<or> (l, h) \<in> set (pb_listeners pb) \<and> (h < current pb \<longrightarrow> last_seq u < current pb)"
      using todo_get [OF inv] by blast
    then show "pn_sequence p = current ?pb \<and> current ?pb \<le> pb_sequence ?pb \<and>
        pn_value p = pb_history ?pb ! current ?pb \<and> (\<exists>s. pb_subscribers ?pb l = Some s \<and>
          (sb_closed s \<or> (l, h) \<in> set (pb_listeners ?pb) \<and> (h < current ?pb \<longrightarrow> last_seq s < current ?pb)))"
      by (cases "l = sid") (auto simp: same subscriber_close_def)
  qed (use todo_distinct [OF inv] in \<open>simp add: same\<close>)
  ultimately show ?thesis by (simp add: pub_inv_def)
qed (simp add: unsubscribe_def inv)

text \<open>Registering a new subscriber with its hydration, before its drain loop starts.\<close>

definition registered :: "publisher \<Rightarrow> publisher" where
  "registered pb =
     pb\<lparr>pb_subscribers := (pb_subscribers pb)(pb_fresh pb \<mapsto> subscriber_push new_subscriber
          \<lparr>sd_value = pb_value pb, sd_context = background_context, sd_kind = Hydrate, sd_sequence = pb_sequence pb\<rparr>),
        pb_listeners := pb_listeners pb @ [(pb_fresh pb, pb_sequence pb)], pb_fresh := Suc (pb_fresh pb)\<rparr>"

lemma subscribe_registered: "snd (subscribe pb) = drain_call (registered pb) (pb_fresh pb)"
  by (cases pb) (simp add: subscribe_def push_and_drain_def registered_def with_subscriber_def Let_def)

lemma listener_known:
  assumes "pub_inv pb" "(sid, h) \<in> set (pb_listeners pb)"
  shows "sid < pb_fresh pb"
  using registered_get [OF assms] assms(1) unfolding pub_inv_def subscribers_ok_def by metis

lemma todo_known:
  assumes "pub_inv pb" "(p, (sid, h)) \<in> set (todo pb)"
  shows "sid < pb_fresh pb"
  using todo_get [OF assms] assms(1) unfolding pub_inv_def subscribers_ok_def by metis

lemma inv_registered:
  assumes inv: "pub_inv pb"
  shows "pub_inv (registered pb)"
proof -
  let ?pb = "registered pb" and ?new = "subscriber_push new_subscriber
    \<lparr>sd_value = pb_value pb, sd_context = background_context, sd_kind = Hydrate, sd_sequence = pb_sequence pb\<rparr>"
  have new: "sb_all ?new = [\<lparr>sd_value = pb_value pb, sd_context = background_context, sd_kind = Hydrate,
      sd_sequence = pb_sequence pb\<rparr>]" "sb_started ?new = False" "sb_delivered ?new = []" "length (sb_pending ?new) = 1"
      "\<not> sb_closed ?new"
    by (simp_all add: subscriber_push_def new_subscriber_def sb_all_def kReplicatedStatePendingLimit_def)
  have same: "todo ?pb = todo pb" "current ?pb = current pb" "pb_sequence ?pb = pb_sequence pb"
      "pb_history ?pb = pb_history pb" "pb_fresh ?pb = Suc (pb_fresh pb)"
      "pb_listeners ?pb = pb_listeners pb @ [(pb_fresh pb, pb_sequence pb)]"
      "pb_subscribers ?pb = (pb_subscribers pb)(pb_fresh pb \<mapsto> ?new)"
    by (simp_all add: registered_def todo_def current_def)
  have h: "length (pb_history pb) = Suc (pb_sequence pb)" "pb_value pb = last (pb_history pb)"
    using inv by (auto simp: pub_inv_def queue_ok_def)
  have "pb_history pb ! pb_sequence pb = pb_value pb" using h last_conv_nth [of "pb_history pb"] by fastforce
  then have ok: "content_ok (pb_history pb) ?new"
    unfolding content_ok_def new by (simp add: h kReplicatedStatePendingLimit_def)
  have "queue_ok ?pb" "loop_ok ?pb" using inv
    by (simp_all add: pub_inv_def queue_ok_def loop_ok_def registered_def current_def)
  moreover have "subscribers_ok ?pb" using inv ok unfolding pub_inv_def subscribers_ok_def same
    by (auto simp: less_Suc_eq)
  moreover have "registered_ok ?pb"
  proof (rule registeredI)
    have "pb_fresh pb \<notin> fst ` set (pb_listeners pb)" using listener_known [OF inv] by fastforce
    then show "distinct (map fst (pb_listeners ?pb))" using registered_distinct [OF inv] by (simp add: same)
    fix sid h assume l: "(sid, h) \<in> set (pb_listeners ?pb)"
    show "\<exists>s. pb_subscribers ?pb sid = Some s \<and> \<not> sb_closed s \<and>
        h \<le> last_seq s \<and> last_seq s \<le> max (current ?pb) h \<and>
        (current ?pb \<le> last_seq s \<or> sid \<in> (fst \<circ> snd) ` set (todo ?pb))"
    proof (cases "(sid, h) = (pb_fresh pb, pb_sequence pb)")
      case True
      then show ?thesis using new by (simp add: last_seq_def current_def same)
    next
      case False
      then have old: "(sid, h) \<in> set (pb_listeners pb)" using l by (auto simp: same)
      have "sid \<noteq> pb_fresh pb" using listener_known [OF inv old] by simp
      then show ?thesis using registered_get [OF inv old] unfolding same by (metis fun_upd_other)
    qed
  qed
  moreover have "todo_ok ?pb"
  proof (rule todoI)
    fix p sid h assume "(p, (sid, h)) \<in> set (todo ?pb)"
    then have x: "(p, (sid, h)) \<in> set (todo pb)" by (simp add: same)
    have "sid \<noteq> pb_fresh pb" using todo_known [OF inv x] by simp
    with todo_get [OF inv x] show "pn_sequence p = current ?pb \<and> current ?pb \<le> pb_sequence ?pb \<and>
        pn_value p = pb_history ?pb ! current ?pb \<and> (\<exists>s. pb_subscribers ?pb sid = Some s \<and>
          (sb_closed s \<or> (sid, h) \<in> set (pb_listeners ?pb) \<and> (h < current ?pb \<longrightarrow> last_seq s < current ?pb)))"
      unfolding same by (metis Un_iff fun_upd_other set_append)
  qed (use todo_distinct [OF inv] in \<open>simp add: same\<close>)
  ultimately show ?thesis by (simp add: pub_inv_def)
qed

lemma inv_subscribe: "pub_inv pb \<Longrightarrow> pub_inv (snd (subscribe pb))"
  unfolding subscribe_registered by (rule quiet_inv [OF quiet_drain_call inv_registered])

section \<open>The publish loop\<close>

lemma loop_todo:
  assumes "pub_inv pb" "pb_stack pb = PublishLoop t # rest"
  shows "todo pb = t" "filter is_publish rest = []" "concat (map frame_todo rest) = []"
proof -
  have "length (filter is_publish (PublishLoop t # rest)) \<le> 1"
    using assms by (auto simp: pub_inv_def loop_ok_def)
  then show none: "filter is_publish rest = []" by simp
  then show "concat (map frame_todo rest) = []" by (auto simp: filter_empty_conv frame_todo_other)
  then show "todo pb = t" using assms(2) by (simp add: todo_def)
qed

lemma inv_loop_stop:
  assumes inv: "pub_inv pb" and st: "pb_stack pb = PublishLoop [] # rest" and "pb_publications pb = []"
  shows "pub_inv (pb\<lparr>pb_delivering := False, pb_stack := rest\<rparr>)"
proof -
  let ?pb = "pb\<lparr>pb_delivering := False, pb_stack := rest\<rparr>"
  have td: "todo ?pb = todo pb" using loop_todo [OF inv st] by (simp add: todo_def st)
  have cur: "current ?pb = current pb" by (simp add: current_def)
  show ?thesis using inv loop_todo(2) [OF inv st] assms(3)
    by (simp add: pub_inv_def queue_ok_def loop_ok_def subscribers_ok_def registered_ok_def todo_ok_def td cur)
qed

lemma inv_loop_next:
  assumes inv: "pub_inv pb" and st: "pb_stack pb = PublishLoop [] # rest" and ps: "pb_publications pb = p # ps"
  shows "pub_inv (pb\<lparr>pb_publications := ps, pb_stack := PublishLoop (map (\<lambda>l. (p, l)) (pb_listeners pb)) # rest\<rparr>)"
proof -
  let ?pb = "pb\<lparr>pb_publications := ps, pb_stack := PublishLoop (map (\<lambda>l. (p, l)) (pb_listeners pb)) # rest\<rparr>"
  have td: "todo ?pb = map (\<lambda>l. (p, l)) (pb_listeners pb)" using loop_todo [OF inv st] by (simp add: todo_def)
  have q: "queue_ok pb" using inv by (simp add: pub_inv_def)
  have len: "length ps < pb_sequence pb" using q ps by (simp add: queue_ok_def)
  have cur: "current ?pb = Suc (current pb)" using len by (simp add: current_def ps Suc_diff_Suc)
  have le: "current ?pb \<le> pb_sequence pb" by (simp add: current_def)
  have seqs: "map pn_sequence (p # ps) = [Suc (current pb)..<Suc (pb_sequence pb)]" using q ps by (simp add: queue_ok_def)
  then have p: "pn_sequence p = Suc (current pb)" "map pn_sequence ps = [Suc (Suc (current pb))..<Suc (pb_sequence pb)]"
    using le cur by (auto simp: upt_conv_Cons simp del: upt_Suc)
  have "queue_ok ?pb" using q len p ps unfolding queue_ok_def cur by (simp del: upt_Suc)
  moreover have "loop_ok ?pb" using inv st by (auto simp: pub_inv_def loop_ok_def split: if_splits)
  moreover have "subscribers_ok ?pb" using inv by (simp add: pub_inv_def subscribers_ok_def)
  moreover have "registered_ok ?pb"
  proof (rule registeredI)
    fix sid h assume l: "(sid, h) \<in> set (pb_listeners ?pb)"
    then obtain s where s: "pb_subscribers pb sid = Some s" "\<not> sb_closed s" "h \<le> last_seq s"
        "last_seq s \<le> max (current pb) h"
      using registered_get [OF inv, of sid h] by auto
    have "sid \<in> (fst \<circ> snd) ` set (todo ?pb)" using l unfolding td by force
    then show "\<exists>s. pb_subscribers ?pb sid = Some s \<and> \<not> sb_closed s \<and> h \<le> last_seq s \<and>
        last_seq s \<le> max (current ?pb) h \<and> (current ?pb \<le> last_seq s \<or> sid \<in> (fst \<circ> snd) ` set (todo ?pb))"
      using s cur by auto
  qed (use registered_distinct [OF inv] in simp)
  moreover have "todo_ok ?pb"
  proof (rule todoI)
    show "distinct (map (fst \<circ> snd) (todo ?pb))"
      using registered_distinct [OF inv] unfolding td by (simp add: comp_def)
    fix p' sid h assume "(p', (sid, h)) \<in> set (todo ?pb)"
    then have x: "p' = p" "(sid, h) \<in> set (pb_listeners pb)" unfolding td by auto
    then obtain s where s: "pb_subscribers pb sid = Some s" "last_seq s \<le> max (current pb) h"
      using registered_get [OF inv, of sid h] by auto
    have "pn_value p = pb_history pb ! pn_sequence p" using q ps by (simp add: queue_ok_def)
    moreover have "h < Suc (current pb) \<longrightarrow> last_seq s < Suc (current pb)" using s(2) by auto
    ultimately show "pn_sequence p' = current ?pb \<and> current ?pb \<le> pb_sequence ?pb \<and>
        pn_value p' = pb_history ?pb ! current ?pb \<and> (\<exists>s. pb_subscribers ?pb sid = Some s \<and>
          (sb_closed s \<or> (sid, h) \<in> set (pb_listeners ?pb) \<and> (h < current ?pb \<longrightarrow> last_seq s < current ?pb)))"
      using x s(1) p(1) cur le by auto
  qed
  ultimately show ?thesis by (simp add: pub_inv_def)
qed

text \<open>
  One listener is served: its subscriber becomes \<open>s'\<close>, which is up to date or closed, and
  the loop goes on with the others.
\<close>

lemma inv_served:
  assumes inv: "pub_inv pb" and st: "pb_stack pb = PublishLoop ((p, (sid, h)) # t) # rest"
    and s: "pb_subscribers pb sid = Some s" and ok: "content_ok (pb_history pb) s'"
    and closed: "sb_closed s' = sb_closed s"
    and served: "\<not> sb_closed s \<Longrightarrow> h \<le> last_seq s' \<and> last_seq s' \<le> max (current pb) h \<and> current pb \<le> last_seq s'"
  shows "pub_inv ((with_subscriber pb sid s')\<lparr>pb_stack := PublishLoop t # rest\<rparr>)"
proof -
  let ?pb = "(with_subscriber pb sid s')\<lparr>pb_stack := PublishLoop t # rest\<rparr>"
  have td: "todo pb = (p, (sid, h)) # t" "todo ?pb = t" using loop_todo [OF inv st] by (simp_all add: todo_def)
  have same: "current ?pb = current pb" "pb_sequence ?pb = pb_sequence pb" "pb_history ?pb = pb_history pb"
      "pb_listeners ?pb = pb_listeners pb" "pb_fresh ?pb = pb_fresh pb"
      "pb_subscribers ?pb = (pb_subscribers pb)(sid \<mapsto> s')"
    by (simp_all add: with_subscriber_def current_def)
  have head: "(p, (sid, h)) \<in> set (todo pb)" using td by simp
  have others: "sid \<notin> (fst \<circ> snd) ` set t" using todo_distinct [OF inv] td by simp
  have "queue_ok ?pb" "loop_ok ?pb" using inv st
    by (simp_all add: pub_inv_def queue_ok_def loop_ok_def with_subscriber_def current_def)
  moreover have "subscribers_ok ?pb" using inv ok s unfolding pub_inv_def subscribers_ok_def same by auto
  moreover have "registered_ok ?pb"
  proof (rule registeredI)
    fix l g assume lg: "(l, g) \<in> set (pb_listeners ?pb)"
    then have lg: "(l, g) \<in> set (pb_listeners pb)" by (simp add: same)
    obtain u where u: "pb_subscribers pb l = Some u" "\<not> sb_closed u" "g \<le> last_seq u" "last_seq u \<le> max (current pb) g"
        "current pb \<le> last_seq u \<or> l \<in> (fst \<circ> snd) ` set (todo pb)"
      using registered_get [OF inv lg] by blast
    show "\<exists>s. pb_subscribers ?pb l = Some s \<and> \<not> sb_closed s \<and> g \<le> last_seq s \<and>
        last_seq s \<le> max (current ?pb) g \<and> (current ?pb \<le> last_seq s \<or> l \<in> (fst \<circ> snd) ` set (todo ?pb))"
    proof (cases "l = sid")
      case True
      then have open_: "\<not> sb_closed s" using u s by simp
      then have "(sid, h) \<in> set (pb_listeners pb)" using todo_get [OF inv head] s by fastforce
      then have "g = h" using True lg registered_distinct [OF inv] by (metis eq_key_imp_eq_value)
      then show ?thesis using served open_ closed True by (simp add: same)
    next
      case False
      then have "l \<in> (fst \<circ> snd) ` set (todo pb) \<longleftrightarrow> l \<in> (fst \<circ> snd) ` set t" using td by simp
      then show ?thesis using u False by (simp add: same td)
    qed
  qed (use registered_distinct [OF inv] in \<open>simp add: same\<close>)
  moreover have "todo_ok ?pb"
  proof (rule todoI)
    show "distinct (map (fst \<circ> snd) (todo ?pb))" using todo_distinct [OF inv] by (simp add: td)
    fix q l g assume "(q, (l, g)) \<in> set (todo ?pb)"
    then have q: "(q, (l, g)) \<in> set t" by (simp add: td)
    then have "l \<noteq> sid" using others by force
    moreover obtain u where "pn_sequence q = current pb" "current pb \<le> pb_sequence pb"
        "pn_value q = pb_history pb ! current pb" "pb_subscribers pb l = Some u"
        "sb_closed u \<or> (l, g) \<in> set (pb_listeners pb) \<and> (g < current pb \<longrightarrow> last_seq u < current pb)"
      using todo_get [OF inv, of q l g] q td by auto
    ultimately show "pn_sequence q = current ?pb \<and> current ?pb \<le> pb_sequence ?pb \<and>
        pn_value q = pb_history ?pb ! current ?pb \<and> (\<exists>s. pb_subscribers ?pb l = Some s \<and>
          (sb_closed s \<or> (l, g) \<in> set (pb_listeners ?pb) \<and> (g < current ?pb \<longrightarrow> last_seq s < current ?pb)))"
      by (simp add: same)
  qed
  ultimately show ?thesis by (simp add: pub_inv_def)
qed

lemma inv_serve:
  assumes inv: "pub_inv pb" and st: "pb_stack pb = PublishLoop ((p, (sid, h)) # t) # rest"
  shows "pub_inv (publish_step pb ((p, (sid, h)) # t) rest)"
proof -
  let ?pb = "pb\<lparr>pb_stack := PublishLoop t # rest\<rparr>"
  have head: "(p, (sid, h)) \<in> set (todo pb)" using loop_todo(1) [OF inv st] by simp
  then obtain s where p: "pn_sequence p = current pb" "current pb \<le> pb_sequence pb" "pn_value p = pb_history pb ! current pb"
      and s: "pb_subscribers pb sid = Some s"
      and upd: "sb_closed s \<or> (sid, h) \<in> set (pb_listeners pb) \<and> (h < current pb \<longrightarrow> last_seq s < current pb)"
    using todo_get [OF inv] by blast
  have ok: "content_ok (pb_history pb) s" using inv s by (simp add: pub_inv_def subscribers_ok_def)
  have len: "length (pb_history pb) = Suc (pb_sequence pb)" using inv by (simp add: pub_inv_def queue_ok_def)
  have reg: "h \<le> last_seq s \<and> last_seq s \<le> max (current pb) h" if "\<not> sb_closed s"
    using registered_get [OF inv, of sid h] upd that s by (metis option.inject)
  show ?thesis
  proof (cases "pn_sequence p \<le> h")
    case True
    have "pub_inv ((with_subscriber pb sid s)\<lparr>pb_stack := PublishLoop t # rest\<rparr>)"
      by (rule inv_served [OF inv st s ok refl]) (use reg True p(1) in auto)
    moreover have "(with_subscriber pb sid s)\<lparr>pb_stack := PublishLoop t # rest\<rparr> = ?pb"
      using s by (cases pb) (auto simp: with_subscriber_def)
    ultimately show ?thesis using True by (simp add: publish_step_def)
  next
    case False
    let ?s = "subscriber_push s (update_of p)"
    have "content_ok (pb_history pb) ?s \<and> sb_closed ?s = sb_closed s \<and> (\<not> sb_closed s \<longrightarrow> last_seq ?s = current pb)"
    proof (cases "sb_closed s")
      case True
      then show ?thesis using ok by (simp add: subscriber_push_def)
    next
      case open_: False
      then have "last_seq s < current pb" using upd False p(1) by simp
      then show ?thesis using content_ok_push [OF ok open_, of "update_of p"] p len by (simp add: update_of_def)
    qed
    then have "pub_inv ((with_subscriber pb sid ?s)\<lparr>pb_stack := PublishLoop t # rest\<rparr>)"
      using False p(1) by (intro inv_served [OF inv st s]) auto
    moreover have "publish_step pb ((p, (sid, h)) # t) rest =
        drain_call ((with_subscriber pb sid ?s)\<lparr>pb_stack := PublishLoop t # rest\<rparr>) sid"
      using False s by (cases pb) (simp add: publish_step_def push_and_drain_def with_subscriber_def)
    ultimately show ?thesis using quiet_inv [OF quiet_drain_call] by simp
  qed
qed

lemma inv_loop: "pub_inv pb \<Longrightarrow> pb_stack pb = PublishLoop t # rest \<Longrightarrow> pub_inv (publish_step pb t rest)"
proof (cases t)
  case Nil
  assume "pub_inv pb" "pb_stack pb = PublishLoop t # rest"
  then show ?thesis using Nil inv_loop_stop inv_loop_next
    by (cases "pb_publications pb") (auto simp: publish_step_def)
next
  case (Cons x t')
  assume "pub_inv pb" "pb_stack pb = PublishLoop t # rest"
  then show ?thesis using Cons inv_serve by (cases x) auto
qed

lemma inv_pub_step: "pub_step pb pb' \<Longrightarrow> pub_inv pb \<Longrightarrow> pub_inv pb'"
  by (induction rule: pub_step.induct)
    (auto intro: inv_publish inv_subscribe inv_unsubscribe inv_loop quiet_inv [OF quiet_settle]
      quiet_inv [OF quiet_return] quiet_inv [OF quiet_drain_step])

section \<open>One delivery at a time\<close>

definition frame_of :: "nat \<Rightarrow> frame \<Rightarrow> bool" where
  "frame_of sid f \<longleftrightarrow> f = DrainLoop sid \<or> f = InListener sid"

lemma frame_of_simps [simp]:
  "frame_of sid (DrainLoop l) \<longleftrightarrow> l = sid" "frame_of sid (InListener l) \<longleftrightarrow> l = sid" "\<not> frame_of sid (PublishLoop t)"
  by (auto simp: frame_of_def)

definition activity :: "nat \<Rightarrow> frame list \<Rightarrow> nat" where
  "activity sid stack = length (filter (frame_of sid) stack)"

lemma activity_simps [simp]:
  "activity sid [] = 0" "activity sid (f # fs) = (if frame_of sid f then 1 else 0) + activity sid fs"
  by (simp_all add: activity_def)

text \<open>
  A subscriber is marked as running exactly while its drain loop or its listener is on the
  stack or its listener has not settled, and only one of these at a time; a queue that is not
  empty is being drained.
\<close>

definition busy_ok :: "publisher \<Rightarrow> bool" where
  "busy_ok pb \<longleftrightarrow>
     (\<forall>sid. case pb_subscribers pb sid of
        None \<Rightarrow> activity sid (pb_stack pb) = 0
      | Some s \<Rightarrow>
          activity sid (pb_stack pb) + (if sb_handshake s = Some LoopReturned then 1 else 0) =
            (if sb_running s then 1 else 0) \<and>
          (sb_pending s \<noteq> [] \<longrightarrow> sb_running s) \<and> sid < pb_fresh pb)"

lemma busy_init: "busy_ok (publisher_init v)"
  by (simp add: busy_ok_def publisher_init_def)

lemma busy_get:
  assumes "busy_ok pb" "pb_subscribers pb sid = Some s"
  shows "activity sid (pb_stack pb) + (if sb_handshake s = Some LoopReturned then 1 else 0) = (if sb_running s then 1 else 0)"
    "sb_pending s \<noteq> [] \<longrightarrow> sb_running s" "sid < pb_fresh pb"
  using spec [OF assms(1) [unfolded busy_ok_def], of sid] assms(2) by simp_all

lemma busy_none: "busy_ok pb \<Longrightarrow> pb_subscribers pb sid = None \<Longrightarrow> activity sid (pb_stack pb) = 0"
  unfolding busy_ok_def by (drule spec [of _ sid]) simp

text \<open>Changing one subscriber together with the stack.\<close>

lemma busy_one:
  assumes b: "busy_ok pb" and subs: "pb_subscribers pb' = (pb_subscribers pb)(sid \<mapsto> s')" and fresh: "pb_fresh pb \<le> pb_fresh pb'"
    "sid < pb_fresh pb'"
    and own: "activity sid (pb_stack pb') + (if sb_handshake s' = Some LoopReturned then 1 else 0) = (if sb_running s' then 1 else 0)"
      "sb_pending s' \<noteq> [] \<longrightarrow> sb_running s'"
    and others: "\<And>l. l \<noteq> sid \<Longrightarrow> activity l (pb_stack pb') = activity l (pb_stack pb)"
  shows "busy_ok pb'"
  unfolding busy_ok_def
proof
  fix l
  show "case pb_subscribers pb' l of None \<Rightarrow> activity l (pb_stack pb') = 0
      | Some s \<Rightarrow> activity l (pb_stack pb') + (if sb_handshake s = Some LoopReturned then 1 else 0) =
          (if sb_running s then 1 else 0) \<and> (sb_pending s \<noteq> [] \<longrightarrow> sb_running s) \<and> l < pb_fresh pb'"
  proof (cases "l = sid")
    case True
    then show ?thesis using subs own fresh by simp
  next
    case False
    then show ?thesis using subs others [OF False] busy_none [OF b, of l] busy_get [OF b, of l] fresh(1)
      by (cases "pb_subscribers pb l") auto
  qed
qed

lemma busy_same:
  assumes "busy_ok pb" "pb_subscribers pb' = pb_subscribers pb" "pb_fresh pb' = pb_fresh pb"
    "\<And>l. activity l (pb_stack pb') = activity l (pb_stack pb)"
  shows "busy_ok pb'"
  using assms(1) unfolding busy_ok_def assms(2-4) .

text \<open>\<open>drain_call\<close> restores the rule that a queue is being drained.\<close>

lemma busy_push_drain:
  assumes b: "busy_ok pb" and s: "pb_subscribers pb sid = Some s"
  shows "busy_ok (drain_call (with_subscriber pb sid (subscriber_push s d)) sid)"
proof -
  let ?s = "subscriber_push s d"
  have flags: "sb_running ?s = sb_running s" "sb_handshake ?s = sb_handshake s" "sb_closed ?s = sb_closed s"
    by (simp_all add: subscriber_push_def Let_def)
  note g = busy_get [OF b s]
  show ?thesis
  proof (cases "sb_running s \<or> sb_closed s")
    case True
    then have "drain_call (with_subscriber pb sid ?s) sid = with_subscriber pb sid ?s"
      using flags by (auto simp: drain_call_def with_subscriber_def)
    moreover have "sb_pending ?s \<noteq> [] \<longrightarrow> sb_running s" using True g(2) by (auto simp: subscriber_push_def)
    ultimately show ?thesis using g flags
      by (intro busy_one [OF b, of _ sid ?s]) (auto simp: with_subscriber_def)
  next
    case False
    then have eq: "drain_call (with_subscriber pb sid ?s) sid =
        (with_subscriber (with_subscriber pb sid ?s) sid (?s\<lparr>sb_running := True\<rparr>))\<lparr>pb_stack := DrainLoop sid # pb_stack pb\<rparr>"
      using flags by (auto simp: drain_call_def with_subscriber_def)
    show ?thesis unfolding eq using g flags False
      by (intro busy_one [OF b, of _ sid "?s\<lparr>sb_running := True\<rparr>"]) (auto simp: with_subscriber_def split: if_splits)
  qed
qed

lemma busy_drain_step:
  assumes b: "busy_ok pb" and st: "pb_stack pb = DrainLoop sid # rest"
  shows "busy_ok (drain_step pb sid rest)"
proof (cases "pb_subscribers pb sid")
  case None
  then show ?thesis using busy_none [OF b None] st by simp
next
  case (Some s)
  note g = busy_get [OF b Some]
  show ?thesis
  proof (cases "sb_pending s")
    case Nil
    then show ?thesis using g st Some
      by (intro busy_one [OF b, of _ sid "s\<lparr>sb_running := False\<rparr>"])
        (auto simp: drain_step_def with_subscriber_def split: if_splits)
  next
    case (Cons f fs)
    then show ?thesis using g st Some
      by (intro busy_one [OF b, of _ sid "s\<lparr>sb_pending := fs, sb_started := True,
            sb_handshake := Some ListenerRunning, sb_delivered := sb_delivered s @ [f]\<rparr>"])
        (auto simp: drain_step_def with_subscriber_def split: if_splits)
  qed
qed

lemma busy_return:
  assumes b: "busy_ok pb" and st: "pb_stack pb = InListener sid # rest"
  shows "busy_ok (listener_return pb sid rest)"
proof (cases "pb_subscribers pb sid")
  case None
  then show ?thesis using busy_none [OF b None] st by simp
next
  case (Some s)
  note g = busy_get [OF b Some]
  show ?thesis
  proof (cases "sb_handshake s = Some SettledInline")
    case True
    then show ?thesis using g st Some
      by (intro busy_one [OF b, of _ sid "s\<lparr>sb_handshake := None\<rparr>"])
        (auto simp: listener_return_def with_subscriber_def split: if_splits)
  next
    case False
    then show ?thesis using g st Some
      by (intro busy_one [OF b, of _ sid "s\<lparr>sb_handshake := Some LoopReturned\<rparr>"])
        (auto simp: listener_return_def with_subscriber_def split: if_splits)
  qed
qed

lemma busy_settle:
  assumes b: "busy_ok pb" and inv: "\<And>s. pb_subscribers pb sid = Some s \<Longrightarrow> sb_closed s \<longrightarrow> sb_pending s = []"
  shows "busy_ok (settle pb sid failed)"
proof -
  define pb' where "pb' = (if failed then pb\<lparr>pb_reported := Suc (pb_reported pb)\<rparr> else pb)"
  have same: "pb_subscribers pb' = pb_subscribers pb" "pb_stack pb' = pb_stack pb" "pb_fresh pb' = pb_fresh pb"
    by (simp_all add: pb'_def)
  have b': "busy_ok pb'" using busy_same [OF b] same by simp
  show ?thesis
  proof (cases "pb_subscribers pb sid")
    case None
    then show ?thesis using b' by (simp add: settle_def pb'_def [symmetric])
  next
    case (Some s)
    then have s: "pb_subscribers pb' sid = Some s" using same by simp
    note g = busy_get [OF b' s]
    have one: "busy_ok (with_subscriber pb' sid (s\<lparr>sb_handshake := Some SettledInline\<rparr>))"
      if "sb_handshake s = Some ListenerRunning"
      using g that by (intro busy_one [OF b', of _ sid "s\<lparr>sb_handshake := Some SettledInline\<rparr>"])
        (auto simp: with_subscriber_def)
    let ?s = "s\<lparr>sb_handshake := None, sb_running := False\<rparr>"
    have two: "busy_ok (drain_call (with_subscriber pb' sid ?s) sid)" if lr: "sb_handshake s = Some LoopReturned"
    proof (cases "sb_closed s")
      case True
      then have "drain_call (with_subscriber pb' sid ?s) sid = with_subscriber pb' sid ?s"
        by (auto simp: drain_call_def with_subscriber_def)
      then show ?thesis using g lr inv [OF Some] True
        by (intro busy_one [OF b', of _ sid ?s]) (auto simp: with_subscriber_def split: if_splits)
    next
      case False
      then have eq: "drain_call (with_subscriber pb' sid ?s) sid =
          (with_subscriber (with_subscriber pb' sid ?s) sid (?s\<lparr>sb_running := True\<rparr>))
          \<lparr>pb_stack := DrainLoop sid # pb_stack pb'\<rparr>"
        by (auto simp: drain_call_def with_subscriber_def)
      show ?thesis unfolding eq using g lr False
        by (intro busy_one [OF b', of _ sid "?s\<lparr>sb_running := True\<rparr>"]) (auto simp: with_subscriber_def split: if_splits)
    qed
    show ?thesis using one two b Some
      by (auto simp: settle_def pb'_def [symmetric] split: option.splits handshake.splits)
  qed
qed

lemma busy_publish:
  assumes "busy_ok pb"
  shows "busy_ok (publish pb v ctx)"
  by (rule busy_same [OF assms]) (simp_all add: publish_def Let_def)

lemma busy_unsubscribe:
  assumes b: "busy_ok pb"
  shows "busy_ok (unsubscribe pb sid)"
proof (cases "pb_subscribers pb sid")
  case (Some s)
  then show ?thesis using busy_get [OF b Some]
    by (intro busy_one [OF b, of _ sid "subscriber_close s"])
      (auto simp: unsubscribe_def with_subscriber_def subscriber_close_def)
qed (simp add: unsubscribe_def b)

lemma busy_subscribe:
  assumes b: "busy_ok pb" and new: "pb_subscribers pb (pb_fresh pb) = None"
  shows "busy_ok (snd (subscribe pb))"
proof -
  let ?pb = "pb\<lparr>pb_subscribers := (pb_subscribers pb)(pb_fresh pb \<mapsto> new_subscriber),
    pb_listeners := pb_listeners pb @ [(pb_fresh pb, pb_sequence pb)], pb_fresh := Suc (pb_fresh pb)\<rparr>"
  have "busy_ok ?pb" using busy_none [OF b new]
    by (intro busy_one [OF b, of _ "pb_fresh pb" new_subscriber]) (auto simp: new_subscriber_def)
  moreover have "pb_subscribers ?pb (pb_fresh pb) = Some new_subscriber" by simp
  ultimately show ?thesis
    using busy_push_drain [of ?pb "pb_fresh pb" new_subscriber] by (simp add: subscribe_def push_and_drain_def Let_def)
qed

lemma busy_loop:
  assumes b: "busy_ok pb" and st: "pb_stack pb = PublishLoop t # rest"
  shows "busy_ok (publish_step pb t rest)"
proof -
  have pop: "busy_ok (pb\<lparr>pb_stack := PublishLoop t' # rest\<rparr>)" for t' by (rule busy_same [OF b]) (simp_all add: st)
  have "busy_ok (push_and_drain (pb\<lparr>pb_stack := PublishLoop t' # rest\<rparr>) sid d)" for t' sid d
    using pop busy_push_drain [OF pop] by (auto simp: push_and_drain_def split: option.splits)
  moreover have "busy_ok (pb\<lparr>pb_publications := ps, pb_stack := PublishLoop t' # rest\<rparr>)"
    "busy_ok (pb\<lparr>pb_delivering := False, pb_stack := rest\<rparr>)" for ps t'
    by (rule busy_same [OF b]; simp add: st)+
  ultimately show ?thesis using pop by (auto simp: publish_step_def Let_def split: list.splits prod.splits)
qed

text \<open>A closed subscriber has nothing pending.\<close>

definition closed_ok :: "publisher \<Rightarrow> bool" where
  "closed_ok pb \<longleftrightarrow> (\<forall>sid s. pb_subscribers pb sid = Some s \<longrightarrow> sb_closed s \<longrightarrow> sb_pending s = [])"

lemma closed_with: "closed_ok pb \<Longrightarrow> (sb_closed s \<longrightarrow> sb_pending s = []) \<Longrightarrow> closed_ok (with_subscriber pb sid s)"
  by (auto simp: closed_ok_def with_subscriber_def)

lemma closed_keep:
  assumes "closed_ok pb" "pb_subscribers pb sid = Some s" "sb_closed s' = sb_closed s"
    "sb_pending s = [] \<longrightarrow> sb_pending s' = []"
  shows "closed_ok (with_subscriber pb sid s')"
  using assms by (intro closed_with) (auto simp: closed_ok_def)

lemma closed_stack [simp]: "closed_ok (pb\<lparr>pb_stack := st\<rparr>) = closed_ok pb" "closed_ok (pb\<lparr>pb_reported := n\<rparr>) = closed_ok pb"
  by (simp_all add: closed_ok_def)

lemma closed_drain_call: "closed_ok pb \<Longrightarrow> closed_ok (drain_call pb sid)"
  by (auto simp: drain_call_def intro: closed_with split: option.splits)

lemma closed_push_drain:
  assumes c: "closed_ok pb"
  shows "closed_ok (push_and_drain pb sid d)"
proof (cases "pb_subscribers pb sid")
  case (Some s)
  have "sb_closed (subscriber_push s d) \<longrightarrow> sb_pending (subscriber_push s d) = []"
    using c Some by (auto simp: subscriber_push_def closed_ok_def Let_def)
  then show ?thesis using Some closed_drain_call [OF closed_with [OF c]] by (simp add: push_and_drain_def)
qed (simp add: push_and_drain_def c)

lemma closed_step: "pub_step pb pb' \<Longrightarrow> closed_ok pb \<Longrightarrow> closed_ok pb'"
proof (induction rule: pub_step.induct)
  case (pub_publish pb v ctx)
  then show ?case by (simp add: closed_ok_def publish_def Let_def)
next
  case (pub_subscribe pb)
  then have "closed_ok (pb\<lparr>pb_subscribers := (pb_subscribers pb)(pb_fresh pb \<mapsto> new_subscriber),
      pb_listeners := pb_listeners pb @ [(pb_fresh pb, pb_sequence pb)], pb_fresh := Suc (pb_fresh pb)\<rparr>)"
    by (auto simp: closed_ok_def new_subscriber_def split: if_splits)
  then show ?case by (simp add: subscribe_def Let_def closed_push_drain)
next
  case (pub_unsubscribe pb sid)
  then show ?case
    by (auto simp: unsubscribe_def closed_ok_def with_subscriber_def subscriber_close_def split: option.splits)
next
  case (pub_settle pb sid failed)
  then show ?case
    by (simp add: settle_def Let_def split: option.splits handshake.splits)
      (auto intro!: closed_drain_call intro: closed_keep)
next
  case (pub_return pb sid rest)
  then show ?case
    by (simp add: listener_return_def split: option.splits) (auto intro: closed_keep)
next
  case (pub_drain pb sid rest)
  then show ?case
    by (simp add: drain_step_def split: option.splits list.splits) (auto intro: closed_keep)
next
  case (pub_loop pb t rest)
  then have "closed_ok (pb\<lparr>pb_publications := ps, pb_stack := st\<rparr>)" "closed_ok (pb\<lparr>pb_delivering := False, pb_stack := st\<rparr>)"
    for ps st by (simp_all add: closed_ok_def)
  then show ?case using pub_loop by (auto simp: publish_step_def Let_def closed_push_drain split: list.splits)
qed

lemma busy_step:
  assumes "pub_step pb pb'" "busy_ok pb" "pub_inv pb" "closed_ok pb"
  shows "busy_ok pb'"
  using assms
proof (induction rule: pub_step.induct)
  case (pub_subscribe pb)
  have "pb_subscribers pb (pb_fresh pb) = None"
    using pub_subscribe(3) unfolding pub_inv_def subscribers_ok_def by (metis less_irrefl option.exhaust)
  then show ?case using pub_subscribe busy_subscribe by blast
next
  case (pub_settle pb sid failed)
  then show ?case by (intro busy_settle) (auto simp: closed_ok_def)
qed (auto intro: busy_publish busy_unsubscribe busy_return busy_drain_step busy_loop)

definition pub_ok :: "publisher \<Rightarrow> bool" where
  "pub_ok pb \<longleftrightarrow> pub_inv pb \<and> busy_ok pb \<and> closed_ok pb"

lemma pub_ok_init: "pub_ok (publisher_init v)"
  using pub_inv_init busy_init by (simp add: pub_ok_def closed_ok_def publisher_init_def)

lemma pub_ok_step: "pub_step pb pb' \<Longrightarrow> pub_ok pb \<Longrightarrow> pub_ok pb'"
  using inv_pub_step busy_step closed_step by (auto simp: pub_ok_def)

lemma pub_ok_run: "pub_step\<^sup>*\<^sup>* (publisher_init v) pb \<Longrightarrow> pub_ok pb"
  by (induction rule: rtranclp_induct) (auto intro: pub_ok_init pub_ok_step)

text \<open>When nothing runs, a registered subscriber without an unsettled listener is up to date.\<close>

lemma quiescent_up_to_date:
  assumes ok: "pub_ok pb" and idle: "pb_stack pb = []" and l: "(sid, h) \<in> set (pb_listeners pb)"
    and s: "pb_subscribers pb sid = Some s" and settled: "sb_handshake s \<noteq> Some LoopReturned"
  shows "sb_delivered s \<noteq> [] \<and> sd_sequence (last (sb_delivered s)) = pb_sequence pb \<and>
    sd_value (last (sb_delivered s)) = pb_value pb"
proof -
  have inv: "pub_inv pb" and busy: "busy_ok pb" using ok by (auto simp: pub_ok_def)
  have "sb_pending s = []" using busy_get [OF busy s] idle settled by (auto split: if_splits)
  then have all: "sb_all s = sb_delivered s" by (simp add: sb_all_def)
  have "\<not> pb_delivering pb" using inv idle by (auto simp: pub_inv_def loop_ok_def split: if_splits)
  then have "pb_publications pb = []" using inv by (simp add: pub_inv_def loop_ok_def)
  then have cur: "current pb = pb_sequence pb" by (simp add: current_def)
  obtain u where u: "pb_subscribers pb sid = Some u" "\<not> sb_closed u"
      "current pb \<le> last_seq u \<or> sid \<in> (fst \<circ> snd) ` set (todo pb)"
    using registered_get [OF inv l] by blast
  then have open_: "\<not> sb_closed s" and "current pb \<le> last_seq s" using s idle by (simp_all add: todo_def)
  have c: "content_ok (pb_history pb) s" using inv s by (simp add: pub_inv_def subscribers_ok_def)
  then have ne: "sb_all s \<noteq> []" using open_ by (simp add: content_ok_def)
  then have "last_seq s < length (pb_history pb)" "sd_value (last (sb_all s)) = pb_history pb ! last_seq s"
    using c unfolding content_ok_def last_seq_def by auto
  moreover have h: "length (pb_history pb) = Suc (pb_sequence pb)" "pb_value pb = last (pb_history pb)"
    using inv by (auto simp: pub_inv_def queue_ok_def)
  moreover from calculation have seq: "last_seq s = pb_sequence pb"
    using \<open>current pb \<le> last_seq s\<close> cur by simp
  ultimately have eq: "last_seq s = pb_sequence pb" "sd_value (last (sb_all s)) = pb_history pb ! pb_sequence pb"
    by simp_all
  have "pb_history pb ! pb_sequence pb = pb_value pb" using h last_conv_nth [of "pb_history pb"] by fastforce
  then show ?thesis using eq ne all by (simp add: last_seq_def)
qed

section \<open>The attached state\<close>

text \<open>The frames a source may send: cursor, value and context.\<close>

type_synonym source_frame = "int \<times> json \<times> nat"

definition receive_all :: "attached \<Rightarrow> source_frame list \<Rightarrow> attached" where
  "receive_all a fs = foldl (\<lambda>a (cursor, v, ctx). receive a cursor v ctx) a fs"

text \<open>The frames up to the first gap, or up to the first cursor outside the safe range.\<close>

fun in_order :: "int \<Rightarrow> source_frame list \<Rightarrow> source_frame list" where
  "in_order cursor [] = []"
| "in_order cursor ((c, v, ctx) # fs) =
     (if is_safe_cursor c \<and> c = cursor + 1 then (c, v, ctx) # in_order c fs else [])"

lemma receive_disposed: "at_disposed a \<Longrightarrow> receive_all a fs = a"
proof -
  assume "at_disposed a"
  then have "receive a c v x = a" for c v x by (simp add: receive_def)
  then show ?thesis by (induction fs) (auto simp: receive_all_def)
qed

lemma publish_history [simp]:
  "pb_history (publish pb v ctx) = pb_history pb @ [v]" "pb_value (publish pb v ctx) = v"
  by (simp_all add: publish_def Let_def)

lemma receive_all_spec:
  assumes "\<not> at_disposed a"
  shows "pb_history (at_publisher (receive_all a fs)) =
      pb_history (at_publisher a) @ map (fst \<circ> snd) (in_order (at_cursor a) fs) \<and>
    at_cursor (receive_all a fs) = at_cursor a + int (length (in_order (at_cursor a) fs)) \<and>
    (at_disposed (receive_all a fs) \<longleftrightarrow> length (in_order (at_cursor a) fs) < length fs) \<and>
    length (at_errors (receive_all a fs)) =
      length (at_errors a) + (if length (in_order (at_cursor a) fs) < length fs then 1 else 0)"
  using assms
proof (induction fs arbitrary: a)
  case (Cons f fs)
  obtain c v x where f: "f = (c, v, x)" by (cases f)
  show ?case
  proof (cases "is_safe_cursor c \<and> c = at_cursor a + 1")
    case True
    then have r: "receive a c v x = a\<lparr>at_cursor := c, at_publisher := publish (at_publisher a) v x\<rparr>"
      using Cons.prems by (auto simp: receive_def Let_def)
    let ?a = "a\<lparr>at_cursor := c, at_publisher := publish (at_publisher a) v x\<rparr>"
    have eq: "receive_all a (f # fs) = receive_all ?a fs" by (simp add: receive_all_def f r)
    have io: "in_order (at_cursor a) (f # fs) = f # in_order c fs" using True by (auto simp: f)
    have ih: "pb_history (at_publisher (receive_all ?a fs)) = (pb_history (at_publisher a) @ [v]) @ map (fst \<circ> snd) (in_order c fs) \<and>
        at_cursor (receive_all ?a fs) = c + int (length (in_order c fs)) \<and>
        (at_disposed (receive_all ?a fs) \<longleftrightarrow> length (in_order c fs) < length fs) \<and>
        length (at_errors (receive_all ?a fs)) =
          length (at_errors a) + (if length (in_order c fs) < length fs then 1 else 0)"
      using Cons.IH [of ?a] Cons.prems by simp
    have "fst (snd f) = v" by (simp add: f)
    then show ?thesis unfolding eq io using ih True by (auto split: if_splits)
  next
    case False
    then have "receive a c v x = fail a UnsafeFrameCursor \<or> receive a c v x = fail a (CursorGap (at_cursor a + 1) c)"
      using Cons.prems by (auto simp: receive_def Let_def)
    then obtain e where r: "receive a c v x = fail a e" by blast
    have "at_disposed (fail a e)" by (simp add: fail_def)
    then have "receive_all a (f # fs) = fail a e"
      using receive_disposed [of "fail a e" fs] by (simp add: receive_all_def f r)
    then show ?thesis using False Cons.prems by (auto simp: f fail_def)
  qed
qed (simp add: receive_all_def)

section \<open>Properties\<close>

text \<open>
  C32. Whatever the interleaving, re-entrant calls included, a subscription is given its
  hydration first and then updates, with strictly increasing sequence numbers, each with the
  very value that was published under that number; at most one hundred deliveries wait.
\<close>

theorem deliveries_ordered_and_genuine:
  assumes "pub_step\<^sup>*\<^sup>* (publisher_init v) pb" "pb_subscribers pb sid = Some s"
  shows "sorted_wrt (<) (map sd_sequence (sb_delivered s @ sb_pending s)) \<and>
    list_all (\<lambda>d. sd_sequence d < length (pb_history pb) \<and> sd_value d = pb_history pb ! sd_sequence d) (sb_delivered s) \<and>
    (sb_delivered s \<noteq> [] \<longrightarrow> sd_kind (hd (sb_delivered s)) = Hydrate \<and>
       list_all (\<lambda>d. sd_kind d = Update) (tl (sb_delivered s))) \<and>
    length (sb_pending s) \<le> kReplicatedStatePendingLimit"
proof -
  have c: "content_ok (pb_history pb) s"
    using pub_ok_run [OF assms(1)] assms(2) by (simp add: pub_ok_def pub_inv_def subscribers_ok_def)
  have "tl (sb_delivered s @ sb_pending s) = tl (sb_delivered s) @ sb_pending s" if "sb_delivered s \<noteq> []"
    using that by simp
  then show ?thesis using c by (auto simp: content_ok_def sb_all_def list_all_iff)
qed

text \<open>A run: subscribe, deliver the hydration, settle inline, return, drain to the end.\<close>

definition sample_hydration :: state_delivery where
  "sample_hydration = \<lparr>sd_value = JNull, sd_context = 0, sd_kind = Hydrate, sd_sequence = 0\<rparr>"

definition sample_subscriber :: "state_delivery list \<Rightarrow> bool \<Rightarrow> handshake option \<Rightarrow> state_delivery list \<Rightarrow> subscriber" where
  "sample_subscriber pending running hs delivered =
     \<lparr>sb_pending = pending, sb_running = running, sb_started = (delivered \<noteq> []), sb_closed = False,
      sb_handshake = hs, sb_delivered = delivered\<rparr>"

definition sample_pub :: "subscriber \<Rightarrow> frame list \<Rightarrow> publisher" where
  "sample_pub s stack =
     \<lparr>pb_listeners = [(0, 0)], pb_publications = [], pb_value = JNull, pb_sequence = 0, pb_delivering = False,
      pb_subscribers = [0 \<mapsto> s], pb_fresh = 1, pb_stack = stack, pb_history = [JNull], pb_reported = 0\<rparr>"

lemmas sample_pub_defs = sample_pub_def sample_subscriber_def sample_hydration_def with_subscriber_def

lemma sample_run:
  "pub_step\<^sup>*\<^sup>* (publisher_init JNull) (sample_pub (sample_subscriber [] False None [sample_hydration]) [])"
proof -
  let ?h = sample_hydration
  let ?p1 = "sample_pub (sample_subscriber [?h] True None []) [DrainLoop 0]"
  let ?p2 = "sample_pub (sample_subscriber [] True (Some ListenerRunning) [?h]) [InListener 0]"
  let ?p3 = "sample_pub (sample_subscriber [] True (Some SettledInline) [?h]) [InListener 0]"
  let ?p4 = "sample_pub (sample_subscriber [] True None [?h]) [DrainLoop 0]"
  let ?p5 = "sample_pub (sample_subscriber [] False None [?h]) []"
  have "snd (subscribe (publisher_init JNull)) = ?p1"
    by (simp add: sample_pub_defs subscribe_def publisher_init_def push_and_drain_def drain_call_def
        subscriber_push_def new_subscriber_def kReplicatedStatePendingLimit_def background_context_def Let_def)
  then have "pub_step (publisher_init JNull) ?p1"
    using pub_subscribe [of "publisher_init JNull"] by (simp add: callable_def publisher_init_def)
  moreover have "drain_step ?p1 0 [] = ?p2" by (simp add: sample_pub_defs drain_step_def)
  then have "pub_step ?p1 ?p2" using pub_drain [of ?p1 0 "[]"] by (simp add: sample_pub_def)
  moreover have "settle ?p2 0 False = ?p3" by (simp add: sample_pub_defs settle_def)
  then have "pub_step ?p2 ?p3" using pub_settle [of ?p2 0 False] by (simp add: sample_pub_def callable_def)
  moreover have "listener_return ?p3 0 [] = ?p4" by (simp add: sample_pub_defs listener_return_def)
  then have "pub_step ?p3 ?p4" using pub_return [of ?p3 0 "[]"] by (simp add: sample_pub_def)
  moreover have "drain_step ?p4 0 [] = ?p5" by (simp add: sample_pub_defs drain_step_def)
  then have "pub_step ?p4 ?p5" using pub_drain [of ?p4 0 "[]"] by (simp add: sample_pub_def)
  ultimately show ?thesis by (meson converse_rtranclp_into_rtranclp r_into_rtranclp)
qed

theorem deliveries_ordered_and_genuine_witness:
  "sd_kind (hd (sb_delivered (sample_subscriber [] False None [sample_hydration]))) = Hydrate"
  using deliveries_ordered_and_genuine [OF sample_run, of 0 "sample_subscriber [] False None [sample_hydration]"]
  by (simp add: sample_pub_def sample_subscriber_def)

text \<open>
  C12. No revision is lost at the end: when no loop and no listener runs, every registered
  subscription whose last listener has settled was last given the current value under the
  current sequence number, also if its queue overflowed in between.
\<close>

theorem quiescent_subscriptions_current:
  assumes "pub_step\<^sup>*\<^sup>* (publisher_init v) pb" "pb_stack pb = []" "(sid, h) \<in> set (pb_listeners pb)"
    "pb_subscribers pb sid = Some s" "sb_handshake s \<noteq> Some LoopReturned"
  shows "sb_delivered s \<noteq> [] \<and> sd_sequence (last (sb_delivered s)) = pb_sequence pb \<and>
    sd_value (last (sb_delivered s)) = pb_value pb"
  by (rule quiescent_up_to_date [OF pub_ok_run [OF assms(1)] assms(2-5)])

theorem quiescent_subscriptions_current_witness:
  "sd_value (last (sb_delivered (sample_subscriber [] False None [sample_hydration]))) = JNull"
  using quiescent_subscriptions_current [OF sample_run, of 0 0 "sample_subscriber [] False None [sample_hydration]"]
  by (simp add: sample_pub_def sample_subscriber_def)

text \<open>
  A subscription runs one delivery at a time: its drain loop, its running listener and
  a listener that has returned without settling exclude each other.
\<close>

theorem one_delivery_at_a_time:
  assumes "pub_step\<^sup>*\<^sup>* (publisher_init v) pb" "pb_subscribers pb sid = Some s"
  shows "length (filter (\<lambda>f. f = DrainLoop sid \<or> f = InListener sid) (pb_stack pb)) +
    (if sb_handshake s = Some LoopReturned then 1 else 0) \<le> 1"
proof -
  have "busy_ok pb" using pub_ok_run [OF assms(1)] by (simp add: pub_ok_def)
  from busy_get(1) [OF this assms(2)] show ?thesis
    by (simp add: activity_def frame_of_def [abs_def] split: if_splits)
qed

theorem one_delivery_at_a_time_witness:
  "length (filter (\<lambda>f. f = DrainLoop 0 \<or> f = InListener 0)
     (pb_stack (sample_pub (sample_subscriber [] False None [sample_hydration]) []))) \<le> 1"
  using one_delivery_at_a_time [OF sample_run, of 0 "sample_subscriber [] False None [sample_hydration]"]
  by (simp add: sample_pub_def sample_subscriber_def)

text \<open>
  An attached state publishes exactly the frames up to the first one that does not
  continue the cursor or leaves the safe range; that one is reported, once, the source is
  detached, and the last good value stays.
\<close>

theorem attached_publishes_in_order:
  assumes "attach (Inr (v, cursor)) = Inr a"
  shows "pb_history (at_publisher (receive_all a fs)) = v # map (fst \<circ> snd) (in_order cursor fs) \<and>
    at_cursor (receive_all a fs) = cursor + int (length (in_order cursor fs)) \<and>
    (at_disposed (receive_all a fs) \<longleftrightarrow> length (in_order cursor fs) < length fs) \<and>
    length (at_errors (receive_all a fs)) = (if length (in_order cursor fs) < length fs then 1 else 0)"
proof -
  have "\<not> at_disposed a" "at_cursor a = cursor" "at_errors a = []" "pb_history (at_publisher a) = [v]"
    using assms by (auto simp: attach_def publisher_init_def split: if_splits)
  then show ?thesis using receive_all_spec [of a fs] by simp
qed

theorem attached_publishes_in_order_witness:
  "\<exists>a. attach (Inr (JNull, 7)) = Inr a \<and>
     pb_history (at_publisher (receive_all a [(8, JBool True, 0), (10, JBool False, 0), (9, JNull, 0)])) = [JNull, JBool True] \<and>
     length (at_errors (receive_all a [(8, JBool True, 0), (10, JBool False, 0), (9, JNull, 0)])) = 1"
proof -
  obtain a where a: "attach (Inr (JNull, 7)) = Inr a" by (simp add: attach_def is_safe_cursor_def kMaxSafeCursor_def)
  show ?thesis
    using a attached_publishes_in_order [OF a, of "[(8, JBool True, 0), (10, JBool False, 0), (9, JNull, 0)]"]
    by (simp add: is_safe_cursor_def kMaxSafeCursor_def)
qed

end
