(* ===== verification/Storage_State.thy ===== *)
theory Storage_State
  imports Delta
begin

text \<open>
  \<^verbatim>\<open>src/src/durable/StorageState.cpp\<close> with the records of \<^verbatim>\<open>Records.hpp\<close>, the document
  identity functions of \<^verbatim>\<open>Session.cpp\<close> and the in-memory backend of \<^verbatim>\<open>Storage.cpp\<close>: the
  validated state behind the durable storage. Ids and sequences are integers; the additions
  the code does on them (\<^verbatim>\<open>+ 1\<close>) are assumed not to reach the end of the 64-bit range. A
  \<^verbatim>\<open>std::map\<close> over ids, whose iteration order the scans show, is an association list in
  ascending order; the two index maps whose entries are vectors are functions with the empty
  list as default, which is what a missing key behaves like. The mutex is not modelled: every
  operation runs under it.
\<close>

section \<open>Ordered maps\<close>

type_synonym 'v omap = "(int \<times> 'v) list"

definition omap_find :: "'v omap \<Rightarrow> int \<Rightarrow> 'v option" where
  "omap_find m k = map_of m k"

fun omap_insert :: "'v omap \<Rightarrow> int \<Rightarrow> 'v \<Rightarrow> 'v omap" where
  "omap_insert [] k v = [(k, v)]"
| "omap_insert ((l, w) # m) k v =
     (if k < l then (k, v) # (l, w) # m
      else if k = l then (k, v) # m
      else (l, w) # omap_insert m k v)"

section \<open>Records\<close>

record conversation_record =
  cv_id :: int
  cv_parent :: "(int \<times> int) option"
  cv_owner :: "(int \<times> int) option"

record context_edit =
  ce_target :: int
  ce_action :: string
  ce_messages :: "json list"

record entry_record =
  en_id :: int
  en_conversation :: int
  en_kind :: string
  en_data :: json
  en_head :: "int option"
  en_model :: "json list"
  en_edits :: "context_edit list"
  en_by_task :: "int option"

datatype document_scope = SessionScope | ConversationScope | TaskScope

datatype document_history = LatestHistory | RewindableHistory

datatype document_fork = ForkAsOf | ForkCurrent | ForkInitial

record document_address =
  ad_conversation :: "int option"
  ad_task :: "int option"
  ad_key :: "string option"

record document_record =
  dr_id :: int
  dr_kind :: string
  dr_created_at :: int
  dr_conversation :: "int option"
  dr_task :: "int option"
  dr_key :: "string option"
  dr_history :: document_history
  dr_fork :: document_fork
  dr_retired_at :: "int option"

record submission_record =
  sm_id :: int
  sm_conversation :: int
  sm_request :: "string option"
  sm_type :: string
  sm_status :: string
  sm_entry :: "int option"
  sm_answer :: "int option"
  sm_reason :: "string option"
  sm_detail :: "json option"

record task_outcome_error =
  te_message :: string
  te_detail :: "json option"

record task_outcome =
  to_status :: string
  to_result :: "json option"
  to_error :: "task_outcome_error option"
  to_reason :: "string option"

datatype join_policy = AllSettled | FailFast

record task_state =
  ts_status :: string
  ts_checkpoint :: "json option"
  ts_on :: "int list"
  ts_policy :: "join_policy option"
  ts_outcome :: "task_outcome option"

record task_record =
  tk_id :: int
  tk_conversation :: int
  tk_kind :: string
  tk_version :: int
  tk_input :: json
  tk_owner :: "int option"
  tk_background :: bool
  tk_abandon_on_restart :: bool
  tk_abort_requested :: bool
  tk_abort_reason :: "string option"
  tk_started_at :: "int option"
  tk_ended_at :: "int option"
  tk_state :: task_state
  tk_memos :: "(string \<times> json) list"

text \<open>A point in time: \<open>None\<close> is the current state, \<open>Some s\<close> the state as of commit \<open>s\<close>.\<close>

type_synonym document_point = "int option"

record document_copy_source =
  cs_id :: int
  cs_at :: document_point

record storage_write =
  sw_type :: string
  sw_conversation :: "conversation_record option"
  sw_entry :: "entry_record option"
  sw_task :: "task_record option"
  sw_submission :: "submission_record option"
  sw_document_record :: "document_record option"
  sw_document_id :: "int option"
  sw_copy_source :: "document_copy_source option"
  sw_document_version :: nat
  sw_document_value :: "json option"
  sw_document_ops :: "op list"

record document_revision =
  rv_seq :: int
  rv_version :: nat
  rv_base :: bool
  rv_value :: json
  rv_ops :: "op list"

record stored_document_state =
  ds_record :: document_record
  ds_revisions :: "document_revision list"

record stored_entry_state =
  es_record :: entry_record
  es_commit_seq :: int

record stored_document =
  sd_record :: document_record
  sd_version :: nat
  sd_document_value :: json
  sd_deltas_since_base :: nat

record storage =
  st_conversations :: "conversation_record omap"
  st_conversation_ids :: "int list"
  st_entries :: "stored_entry_state omap"
  st_entry_ids :: "int \<Rightarrow> int list"
  st_documents :: "stored_document_state omap"
  st_document_ids :: "string \<Rightarrow> int list"
  st_tasks :: "task_record omap"
  st_task_ids :: "int list"
  st_submissions :: "submission_record omap"
  st_submission_ids :: "int list"
  st_next_id :: int
  st_next_seq :: int
  st_closed :: bool

datatype storage_error =
    StorageClosed
  | ConversationHasNoRecord
  | ConversationExists
  | ForkParentMissing
  | EntryHasNoRecord
  | EntryExists
  | UnknownConversation
  | HeadNotVisible
  | EditTargetNotVisible
  | UnknownEditAction
  | CreateIncomplete
  | CopyIncomplete
  | DocumentExists
  | AddressOccupied
  | SourceChangedInBatch int
  | SourceUnreadable int
  | SourceMismatch int
  | ChangeHasNoId
  | UnknownDocument
  | DocumentRetired
  | ChangeIncomplete
  | DeltaHasNoBase
  | VersionNeedsBase
  | DeltaFailed delta_error
  | RetireHasNoId
  | TaskHasNoRecord
  | TaskMovesConversation
  | SubmissionHasNoRecord
  | UnknownWrite
  | NoHistory int
  | BaseMissing int
  | ConversationMissing int
  | AncestryCycle

section \<open>Document identity\<close>

definition address_scope :: "document_address \<Rightarrow> document_scope" where
  "address_scope a =
     (if ad_task a \<noteq> None then TaskScope
      else if ad_conversation a \<noteq> None then ConversationScope
      else SessionScope)"

definition record_address :: "document_record \<Rightarrow> document_address" where
  "record_address r = \<lparr>ad_conversation = dr_conversation r, ad_task = dr_task r, ad_key = dr_key r\<rparr>"

definition record_scope :: "document_record \<Rightarrow> document_scope" where
  "record_scope r = address_scope (record_address r)"

fun document_scope_name :: "document_scope \<Rightarrow> string" where
  "document_scope_name SessionScope = ''session''"
| "document_scope_name ConversationScope = ''conversation''"
| "document_scope_name TaskScope = ''task''"

definition document_is_current_only :: "document_record \<Rightarrow> bool" where
  "document_is_current_only r \<longleftrightarrow> record_scope r \<noteq> ConversationScope \<or> dr_history r = LatestHistory"

text \<open>\<^verbatim>\<open>std::to_string\<close> of an integer.\<close>

definition to_string :: "int \<Rightarrow> string" where
  "to_string i = (if i < 0 then CHR ''-'' # nat_digits (nat (- i)) else nat_digits (nat i))"

definition document_address_key :: "string \<Rightarrow> document_address \<Rightarrow> string" where
  "document_address_key kind a =
     kind @ ''|'' @ document_scope_name (address_scope a) @ '':'' @
     (case ad_task a of
        Some t \<Rightarrow> to_string t
      | None \<Rightarrow> (case ad_conversation a of Some c \<Rightarrow> to_string c | None \<Rightarrow> ''session'')) @ ''|'' @
     (case ad_key a of Some k \<Rightarrow> ''family:'' @ k | None \<Rightarrow> ''singleton'')"

section \<open>Materializing documents\<close>

definition is_alive_at :: "document_record \<Rightarrow> document_point \<Rightarrow> bool" where
  "is_alive_at r pt =
     (case pt of
        None \<Rightarrow> dr_retired_at r = None
      | Some s \<Rightarrow>
          dr_created_at r \<le> s \<and> (case dr_retired_at r of None \<Rightarrow> True | Some retired \<Rightarrow> s < retired))"

text \<open>One past the newest base: the backward loop over the revisions.\<close>

fun base_index :: "document_revision list \<Rightarrow> nat \<Rightarrow> nat" where
  "base_index revisions 0 = 0"
| "base_index revisions (Suc n) = (if rv_base (revisions ! n) then Suc n else base_index revisions n)"

definition materialize ::
    "stored_document_state \<Rightarrow> document_point \<Rightarrow> (storage_error, stored_document option) result" where
  "materialize stored pt =
     (if pt \<noteq> None \<and> document_is_current_only (ds_record stored)
      then Inl (NoHistory (dr_id (ds_record stored)))
      else if \<not> is_alive_at (ds_record stored) pt then Inr None
      else let revisions =
             (case pt of
                None \<Rightarrow> ds_revisions stored
              | Some s \<Rightarrow> takeWhile (\<lambda>revision. rv_seq revision \<le> s) (ds_revisions stored));
             index = base_index revisions (length revisions)
           in if index = 0 then Inl (BaseMissing (dr_id (ds_record stored)))
              else let base = revisions ! (index - 1);
                       batches = map rv_ops (drop index revisions)
                   in (case apply_immutable_batches (rv_value base) batches of
                         Inl e \<Rightarrow> Inl (DeltaFailed e)
                       | Inr v \<Rightarrow>
                           Inr (Some \<lparr>sd_record = ds_record stored, sd_version = rv_version base,
                                     sd_document_value = v, sd_deltas_since_base = length batches\<rparr>)))"

section \<open>Visibility through fork ancestry\<close>

definition omap_keys :: "'v omap \<Rightarrow> int set" where
  "omap_keys m = fst ` set m"

lemma omap_find_key: "omap_find m k = Some v \<Longrightarrow> k \<in> omap_keys m"
  by (auto simp: omap_find_def omap_keys_def dest: map_of_SomeD intro: rev_image_eqI)

lemma unvisited_less:
  "omap_find m k = Some v \<Longrightarrow> k \<notin> visited \<Longrightarrow>
   card (omap_keys m - insert k visited) < card (omap_keys m - visited)"
  by (intro psubset_card_mono) (auto simp: omap_keys_def dest: omap_find_key [unfolded omap_keys_def])

function entry_visible_loop ::
    "conversation_record omap \<Rightarrow> int \<Rightarrow> int \<Rightarrow> int set \<Rightarrow> int \<Rightarrow> int option \<Rightarrow> bool" where
  "entry_visible_loop conversations owner entry_id visited current cutoff =
     (if current \<in> visited then False
      else (case omap_find conversations current of
              None \<Rightarrow> False
            | Some conversation \<Rightarrow>
                if owner = current
                then (case cutoff of None \<Rightarrow> True | Some c \<Rightarrow> entry_id \<le> c)
                else (case cv_parent conversation of
                        None \<Rightarrow> False
                      | Some (parent, last_entry) \<Rightarrow>
                          entry_visible_loop conversations owner entry_id (insert current visited) parent (Some last_entry))))"
  by pat_completeness auto
termination
  by (relation "measure (\<lambda>(conversations, _, _, visited, _). card (omap_keys conversations - visited))")
    (auto intro: unvisited_less)

declare entry_visible_loop.simps [simp del]

definition entry_visible ::
    "int \<Rightarrow> int \<Rightarrow> conversation_record omap \<Rightarrow> stored_entry_state omap \<Rightarrow> bool" where
  "entry_visible conversation_id entry_id conversations entries =
     (case omap_find entries entry_id of
        None \<Rightarrow> False
      | Some e \<Rightarrow>
          entry_visible_loop conversations (en_conversation (es_record e)) entry_id {} conversation_id None)"


section \<open>Applying one batch\<close>

text \<open>
  The code copies every map, lets each write of the batch change the copies and installs them
  only after the last write, so the state a write sees is again a \<open>storage\<close>. What a write needs
  of the batch around it is the sequence, whether the batch is a commit (as opposed to a
  restore), the whole list of writes, and the documents as they were before the batch.
\<close>

record batch_context =
  bc_seq :: int
  bc_consume :: bool
  bc_writes :: "storage_write list"
  bc_documents :: "stored_document_state omap"

definition retired_in_batch :: "storage_write list \<Rightarrow> int list" where
  "retired_in_batch writes =
     concat (map (\<lambda>w. if sw_type w = ''document.retire''
                       then (case sw_document_id w of Some i \<Rightarrow> [i] | None \<Rightarrow> []) else []) writes)"

definition raise_next_id :: "int \<Rightarrow> storage \<Rightarrow> storage" where
  "raise_next_id i s = s\<lparr>st_next_id := max (st_next_id s) (i + 1)\<rparr>"

definition write_conversation ::
    "batch_context \<Rightarrow> storage \<Rightarrow> storage_write \<Rightarrow> (storage_error, storage) result" where
  "write_conversation b s w =
     (case sw_conversation w of
        None \<Rightarrow> Inl ConversationHasNoRecord
      | Some r \<Rightarrow>
          if omap_find (st_conversations s) (cv_id r) \<noteq> None then Inl ConversationExists
          else if (case cv_parent r of
                     None \<Rightarrow> False
                   | Some (parent, last_entry) \<Rightarrow>
                       omap_find (st_conversations s) parent = None \<or>
                       bc_consume b \<and>
                       \<not> entry_visible parent last_entry (st_conversations s) (st_entries s))
          then Inl ForkParentMissing
          else Inr (raise_next_id (cv_id r)
                 (s\<lparr>st_conversations := omap_insert (st_conversations s) (cv_id r) r,
                    st_conversation_ids := st_conversation_ids s @ [cv_id r]\<rparr>)))"

definition check_edit :: "storage \<Rightarrow> int \<Rightarrow> context_edit \<Rightarrow> (storage_error, unit) result" where
  "check_edit s conversation_id edit =
     (if \<not> entry_visible conversation_id (ce_target edit) (st_conversations s) (st_entries s)
      then Inl EditTargetNotVisible
      else if ce_action edit \<noteq> ''omit'' \<and> ce_action edit \<noteq> ''replace'' then Inl UnknownEditAction
      else Inr ())"

definition write_entry ::
    "batch_context \<Rightarrow> storage \<Rightarrow> storage_write \<Rightarrow> (storage_error, storage) result" where
  "write_entry b s w =
     (case sw_entry w of
        None \<Rightarrow> Inl EntryHasNoRecord
      | Some r \<Rightarrow>
          if omap_find (st_entries s) (en_id r) \<noteq> None then Inl EntryExists
          else if omap_find (st_conversations s) (en_conversation r) = None
          then Inl UnknownConversation
          else if (case en_head r of
                     None \<Rightarrow> False
                   | Some head \<Rightarrow>
                       head \<noteq> en_id r \<and>
                       (omap_find (st_entries s) head = None \<or>
                        \<not> entry_visible (en_conversation r) head (st_conversations s) (st_entries s)))
          then Inl HeadNotVisible
          else (case check_r (check_edit s (en_conversation r)) (en_edits r) of
                  Inl e \<Rightarrow> Inl e
                | Inr _ \<Rightarrow> Inr (raise_next_id (en_id r)
                    (s\<lparr>st_entries := omap_insert (st_entries s) (en_id r)
                         \<lparr>es_record = r, es_commit_seq = bc_seq b\<rparr>,
                       st_entry_ids := (st_entry_ids s)(en_conversation r :=
                         st_entry_ids s (en_conversation r) @ [en_id r])\<rparr>))))"

definition address_occupied :: "batch_context \<Rightarrow> storage \<Rightarrow> string \<Rightarrow> bool" where
  "address_occupied b s key =
     (\<exists>other\<in>set (st_document_ids s key).
        (case omap_find (st_documents s) other of
           None \<Rightarrow> False
         | Some stored \<Rightarrow>
             dr_retired_at (ds_record stored) = None \<and> other \<notin> set (retired_in_batch (bc_writes b))))"

definition touches_document :: "int \<Rightarrow> storage_write \<Rightarrow> bool" where
  "touches_document source pending =
     (if sw_type pending = ''document.create'' \<or> sw_type pending = ''document.copy''
      then (case sw_document_record pending of None \<Rightarrow> False | Some r \<Rightarrow> dr_id r = source)
      else (sw_type pending = ''document.change'' \<or> sw_type pending = ''document.retire'') \<and>
           sw_document_id pending = Some source)"

text \<open>The base a copy starts with: the source as it was before the batch.\<close>

definition copy_base ::
    "batch_context \<Rightarrow> document_record \<Rightarrow> document_copy_source \<Rightarrow>
     (storage_error, document_revision) result" where
  "copy_base b r source =
     (if \<exists>pending\<in>set (bc_writes b). touches_document (cs_id source) pending
      then Inl (SourceChangedInBatch (cs_id source))
      else (case omap_find (bc_documents b) (cs_id source) of
              None \<Rightarrow> Inl (SourceUnreadable (cs_id source))
            | Some stored \<Rightarrow>
                (case materialize stored (cs_at source) of
                   Inl e \<Rightarrow> Inl e
                 | Inr None \<Rightarrow> Inl (SourceUnreadable (cs_id source))
                 | Inr (Some m) \<Rightarrow>
                     let q = ds_record stored
                     in if record_scope q \<noteq> ConversationScope \<or> record_scope r \<noteq> ConversationScope \<or>
                           dr_kind q \<noteq> dr_kind r \<or> dr_key q \<noteq> dr_key r \<or>
                           dr_history q \<noteq> dr_history r \<or> dr_fork q \<noteq> dr_fork r
                        then Inl (SourceMismatch (cs_id source))
                        else Inr \<lparr>rv_seq = bc_seq b, rv_version = sd_version m, rv_base = True,
                                  rv_value = sd_document_value m, rv_ops = []\<rparr>)))"

definition created_base ::
    "batch_context \<Rightarrow> document_record \<Rightarrow> storage_write \<Rightarrow>
     (storage_error, document_revision) result" where
  "created_base b r w =
     (if sw_type w = ''document.copy''
      then (case sw_copy_source w of
              None \<Rightarrow> Inl CopyIncomplete
            | Some source \<Rightarrow> copy_base b r source)
      else (case sw_document_value w of
              None \<Rightarrow> Inl CreateIncomplete
            | Some v \<Rightarrow> Inr \<lparr>rv_seq = bc_seq b, rv_version = sw_document_version w, rv_base = True,
                             rv_value = v, rv_ops = []\<rparr>))"

definition write_document_create ::
    "batch_context \<Rightarrow> storage \<Rightarrow> storage_write \<Rightarrow> (storage_error, storage) result" where
  "write_document_create b s w =
     (case sw_document_record w of
        None \<Rightarrow> Inl (if sw_type w = ''document.copy'' then CopyIncomplete else CreateIncomplete)
      | Some r \<Rightarrow>
          if omap_find (st_documents s) (dr_id r) \<noteq> None then Inl DocumentExists
          else let key = document_address_key (dr_kind r) (record_address r)
               in if address_occupied b s key then Inl AddressOccupied
                  else (case created_base b r w of
                          Inl e \<Rightarrow> Inl e
                        | Inr base \<Rightarrow> Inr (raise_next_id (dr_id r)
                            (s\<lparr>st_documents := omap_insert (st_documents s) (dr_id r)
                                 \<lparr>ds_record = r\<lparr>dr_created_at := bc_seq b\<rparr>, ds_revisions = [base]\<rparr>,
                               st_document_ids := (st_document_ids s)(key :=
                                 st_document_ids s key @ [dr_id r])\<rparr>))))"

text \<open>The revisions of a document after a change: a new base, or a delta after the newest revision.\<close>

definition change_revisions ::
    "batch_context \<Rightarrow> stored_document_state \<Rightarrow> storage_write \<Rightarrow>
     (storage_error, document_revision list) result" where
  "change_revisions b stored w =
     (if sw_document_ops w = []
      then (case sw_document_value w of
              None \<Rightarrow> Inl ChangeIncomplete
            | Some v \<Rightarrow>
                let revision = \<lparr>rv_seq = bc_seq b, rv_version = sw_document_version w, rv_base = True,
                                rv_value = v, rv_ops = []\<rparr>
                in Inr ((if document_is_current_only (ds_record stored) then []
                         else ds_revisions stored) @ [revision]))
      else if ds_revisions stored = [] then Inl DeltaHasNoBase
      else if rv_version (last (ds_revisions stored)) \<noteq> sw_document_version w
      then Inl VersionNeedsBase
      else (case apply_immutable (rv_value (last (ds_revisions stored))) (sw_document_ops w) of
              Inl e \<Rightarrow> Inl (DeltaFailed e)
            | Inr v \<Rightarrow>
                Inr (ds_revisions stored @
                     [\<lparr>rv_seq = bc_seq b, rv_version = sw_document_version w, rv_base = False,
                       rv_value = v, rv_ops = sw_document_ops w\<rparr>])))"

definition write_document_change ::
    "batch_context \<Rightarrow> storage \<Rightarrow> storage_write \<Rightarrow> (storage_error, storage) result" where
  "write_document_change b s w =
     (case sw_document_id w of
        None \<Rightarrow> Inl ChangeHasNoId
      | Some i \<Rightarrow>
          (case omap_find (st_documents s) i of
             None \<Rightarrow> Inl UnknownDocument
           | Some stored \<Rightarrow>
               if dr_retired_at (ds_record stored) \<noteq> None then Inl DocumentRetired
               else (case change_revisions b stored w of
                       Inl e \<Rightarrow> Inl e
                     | Inr revisions \<Rightarrow>
                         Inr (s\<lparr>st_documents := omap_insert (st_documents s) i
                                (stored\<lparr>ds_revisions := revisions\<rparr>)\<rparr>))))"

definition retire_document :: "int \<Rightarrow> stored_document_state \<Rightarrow> stored_document_state" where
  "retire_document seq stored =
     (let r = (ds_record stored)\<lparr>dr_retired_at := Some seq\<rparr>
      in \<lparr>ds_record = r,
          ds_revisions = (if document_is_current_only r then [] else ds_revisions stored)\<rparr>)"

definition write_document_retire ::
    "batch_context \<Rightarrow> storage \<Rightarrow> storage_write \<Rightarrow> (storage_error, storage) result" where
  "write_document_retire b s w =
     (case sw_document_id w of
        None \<Rightarrow> Inl RetireHasNoId
      | Some i \<Rightarrow>
          (case omap_find (st_documents s) i of
             None \<Rightarrow> Inl UnknownDocument
           | Some stored \<Rightarrow>
               if dr_retired_at (ds_record stored) \<noteq> None then Inl DocumentRetired
               else Inr (s\<lparr>st_documents := omap_insert (st_documents s) i
                           (retire_document (bc_seq b) stored)\<rparr>)))"

definition write_task ::
    "batch_context \<Rightarrow> storage \<Rightarrow> storage_write \<Rightarrow> (storage_error, storage) result" where
  "write_task b s w =
     (case sw_task w of
        None \<Rightarrow> Inl TaskHasNoRecord
      | Some r \<Rightarrow>
          (case omap_find (st_tasks s) (tk_id r) of
             Some existing \<Rightarrow>
               if tk_conversation existing \<noteq> tk_conversation r then Inl TaskMovesConversation
               else Inr (raise_next_id (tk_id r)
                      (s\<lparr>st_tasks := omap_insert (st_tasks s) (tk_id r) r\<rparr>))
           | None \<Rightarrow>
               Inr (raise_next_id (tk_id r)
                 (s\<lparr>st_tasks := omap_insert (st_tasks s) (tk_id r) r,
                    st_task_ids := st_task_ids s @ [tk_id r]\<rparr>))))"

definition write_submission ::
    "batch_context \<Rightarrow> storage \<Rightarrow> storage_write \<Rightarrow> (storage_error, storage) result" where
  "write_submission b s w =
     (case sw_submission w of
        None \<Rightarrow> Inl SubmissionHasNoRecord
      | Some r \<Rightarrow>
          Inr (raise_next_id (sm_id r)
            (s\<lparr>st_submission_ids :=
                 (if omap_find (st_submissions s) (sm_id r) = None
                  then st_submission_ids s @ [sm_id r] else st_submission_ids s),
               st_submissions := omap_insert (st_submissions s) (sm_id r) r\<rparr>)))"

definition apply_write ::
    "batch_context \<Rightarrow> storage \<Rightarrow> storage_write \<Rightarrow> (storage_error, storage) result" where
  "apply_write b s w =
     (if sw_type w = ''conversation'' then write_conversation b s w
      else if sw_type w = ''entry'' then write_entry b s w
      else if sw_type w = ''document.create'' \<or> sw_type w = ''document.copy''
      then write_document_create b s w
      else if sw_type w = ''document.change'' then write_document_change b s w
      else if sw_type w = ''document.retire'' then write_document_retire b s w
      else if sw_type w = ''task'' then write_task b s w
      else if sw_type w = ''submission'' then write_submission b s w
      else Inl UnknownWrite)"

definition batch_of :: "storage \<Rightarrow> storage_write list \<Rightarrow> int \<Rightarrow> bool \<Rightarrow> batch_context" where
  "batch_of s writes seq consume =
     \<lparr>bc_seq = seq, bc_consume = consume, bc_writes = writes, bc_documents = st_documents s\<rparr>"

text \<open>\<^verbatim>\<open>Impl::apply\<close>: the new state and what the call returns.\<close>

definition storage_apply ::
    "storage \<Rightarrow> storage_write list \<Rightarrow> int \<Rightarrow> bool \<Rightarrow> (storage_error, storage \<times> int) result" where
  "storage_apply s writes seq consume =
     (if st_closed s then Inl StorageClosed
      else if writes = []
      then let s' = s\<lparr>st_next_seq := max (st_next_seq s) (seq + 1)\<rparr>
           in Inr (s', if consume then seq else st_next_seq s')
      else (case fold_r (apply_write (batch_of s writes seq consume)) s writes of
              Inl e \<Rightarrow> Inl e
            | Inr t \<Rightarrow>
                let s' = t\<lparr>st_next_seq := max (st_next_seq s) (seq + 1)\<rparr>
                in Inr (s', if consume then seq else st_next_seq s')))"

section \<open>Public operations\<close>

text \<open>Each takes the state and returns it with the call's result; a failed call leaves it alone.\<close>

definition storage_init :: storage where
  "storage_init =
     \<lparr>st_conversations = [], st_conversation_ids = [], st_entries = [], st_entry_ids = (\<lambda>_. []),
      st_documents = [], st_document_ids = (\<lambda>_. []), st_tasks = [], st_task_ids = [],
      st_submissions = [], st_submission_ids = [], st_next_id = 2, st_next_seq = 1,
      st_closed = False\<rparr>"

definition installed ::
    "storage \<Rightarrow> (storage_error, storage \<times> int) result \<Rightarrow> storage \<times> (storage_error, int) result" where
  "installed s r = (case r of Inl e \<Rightarrow> (s, Inl e) | Inr (s', seq) \<Rightarrow> (s', Inr seq))"

definition apply_at :: "storage \<Rightarrow> storage_write list \<Rightarrow> int \<Rightarrow> storage \<times> (storage_error, int) result" where
  "apply_at s writes seq = installed s (storage_apply s writes seq True)"

definition apply_next :: "storage \<Rightarrow> storage_write list \<Rightarrow> storage \<times> (storage_error, int) result" where
  "apply_next s writes = installed s (storage_apply s writes (st_next_seq s) True)"

text \<open>\<^verbatim>\<open>validate\<close> runs the batch on a copy, so the state it returns is the one it was given.\<close>

definition storage_validate ::
    "storage \<Rightarrow> storage_write list \<Rightarrow> int \<Rightarrow> storage \<times> (storage_error, unit) result" where
  "storage_validate s writes seq =
     (s, (case storage_apply s writes seq True of Inl e \<Rightarrow> Inl e | Inr _ \<Rightarrow> Inr ()))"

definition restore :: "storage \<Rightarrow> storage_write list \<Rightarrow> int \<Rightarrow> storage \<times> (storage_error, unit) result" where
  "restore s writes seq =
     (case storage_apply s writes seq False of
        Inl e \<Rightarrow> (s, Inl e)
      | Inr (s', _) \<Rightarrow> (s', Inr ()))"

definition reserve_id :: "storage \<Rightarrow> storage \<times> int" where
  "reserve_id s = (s\<lparr>st_next_id := st_next_id s + 1\<rparr>, st_next_id s)"

definition restore_high_water_marks ::
    "storage \<Rightarrow> int \<Rightarrow> int \<Rightarrow> storage \<times> (storage_error, unit) result" where
  "restore_high_water_marks s i seq =
     (if st_closed s then (s, Inl StorageClosed)
      else (s\<lparr>st_next_id := max (st_next_id s) i, st_next_seq := max (st_next_seq s) seq\<rparr>, Inr ()))"

definition close_storage :: "storage \<Rightarrow> storage" where
  "close_storage s = s\<lparr>st_closed := True\<rparr>"

text \<open>\<^verbatim>\<open>MemoryStorage\<close>: the backend that keeps only this state.\<close>

definition commit :: "storage \<Rightarrow> storage_write list \<Rightarrow> storage \<times> (storage_error, int) result" where
  "commit s writes = apply_next s writes"

definition mint_id :: "storage \<Rightarrow> storage \<times> (storage_error, int) result" where
  "mint_id s =
     (if st_closed s then (s, Inl StorageClosed)
      else let (s', i) = reserve_id s in (s', Inr i))"

section \<open>Reads\<close>

definition open_read :: "storage \<Rightarrow> 'a \<Rightarrow> (storage_error, 'a) result" where
  "open_read s x = (if st_closed s then Inl StorageClosed else Inr x)"

definition read_conversation :: "storage \<Rightarrow> int \<Rightarrow> (storage_error, conversation_record option) result" where
  "read_conversation s i = open_read s (omap_find (st_conversations s) i)"

definition read_entry :: "storage \<Rightarrow> int \<Rightarrow> (storage_error, stored_entry_state option) result" where
  "read_entry s i = open_read s (omap_find (st_entries s) i)"

fun scan_conversations_loop ::
    "conversation_record omap \<Rightarrow> nat \<Rightarrow> conversation_record list \<Rightarrow> int list \<Rightarrow> conversation_record list" where
  "scan_conversations_loop m limit records [] = records"
| "scan_conversations_loop m limit records (i # ids) =
     (if length records \<ge> limit then records
      else (case omap_find m i of
              None \<Rightarrow> scan_conversations_loop m limit records ids
            | Some r \<Rightarrow> scan_conversations_loop m limit (records @ [r]) ids))"

definition scan_conversations :: "storage \<Rightarrow> nat \<Rightarrow> (storage_error, conversation_record list) result" where
  "scan_conversations s limit =
     open_read s (scan_conversations_loop (st_conversations s) limit [] (st_conversation_ids s))"

text \<open>The entries one conversation of the ancestry contributes, newest first.\<close>

definition entries_upto :: "storage \<Rightarrow> int \<Rightarrow> int option \<Rightarrow> entry_record list" where
  "entries_upto s current cutoff =
     concat (map (\<lambda>i. if (case cutoff of None \<Rightarrow> False | Some c \<Rightarrow> i > c) then []
                       else (case omap_find (st_entries s) i of
                               None \<Rightarrow> [] | Some e \<Rightarrow> [es_record e]))
       (rev (st_entry_ids s current)))"

function scan_entries_loop ::
    "storage \<Rightarrow> int set \<Rightarrow> int \<Rightarrow> int option \<Rightarrow> (storage_error, entry_record list) result" where
  "scan_entries_loop s visited current cutoff =
     (case omap_find (st_conversations s) current of
        None \<Rightarrow> Inl (ConversationMissing current)
      | Some conversation \<Rightarrow>
          if current \<in> visited then Inl AncestryCycle
          else (case cv_parent conversation of
                  None \<Rightarrow> Inr (entries_upto s current cutoff)
                | Some (parent, last_entry) \<Rightarrow>
                    (case scan_entries_loop s (insert current visited) parent (Some last_entry) of
                       Inl e \<Rightarrow> Inl e
                     | Inr older \<Rightarrow> Inr (entries_upto s current cutoff @ older))))"
  by pat_completeness auto
termination
  by (relation "measure (\<lambda>(s, visited, _). card (omap_keys (st_conversations s) - visited))")
    (auto intro: unvisited_less)

declare scan_entries_loop.simps [simp del]

definition scan_entries :: "storage \<Rightarrow> int \<Rightarrow> nat \<Rightarrow> (storage_error, entry_record list) result" where
  "scan_entries s conversation_id limit =
     (if st_closed s then Inl StorageClosed
      else (case scan_entries_loop s {} conversation_id None of
              Inl e \<Rightarrow> Inl e
            | Inr visible \<Rightarrow> Inr (take limit (rev (sort_key en_id visible)))))"

definition scan_conversation_documents ::
    "storage \<Rightarrow> int \<Rightarrow> document_point \<Rightarrow> nat \<Rightarrow> (storage_error, document_record list) result" where
  "scan_conversation_documents s conversation_id pt limit =
     open_read s (take limit (filter (\<lambda>r. dr_conversation r = Some conversation_id \<and>
         record_scope r = ConversationScope \<and> is_alive_at r pt)
       (map (\<lambda>(_, stored). ds_record stored) (st_documents s))))"

fun find_alive :: "stored_document_state omap \<Rightarrow> document_point \<Rightarrow> int list \<Rightarrow> document_record option" where
  "find_alive m pt [] = None"
| "find_alive m pt (i # ids) =
     (case omap_find m i of
        None \<Rightarrow> find_alive m pt ids
      | Some stored \<Rightarrow>
          if is_alive_at (ds_record stored) pt then Some (ds_record stored) else find_alive m pt ids)"

definition find_document ::
    "storage \<Rightarrow> string \<Rightarrow> document_address \<Rightarrow> document_point \<Rightarrow>
     (storage_error, document_record option) result" where
  "find_document s kind a pt =
     open_read s (find_alive (st_documents s) pt (rev (st_document_ids s (document_address_key kind a))))"

definition read_document ::
    "storage \<Rightarrow> int \<Rightarrow> document_point \<Rightarrow> (storage_error, stored_document option) result" where
  "read_document s i pt =
     (if st_closed s then Inl StorageClosed
      else (case omap_find (st_documents s) i of
              None \<Rightarrow> Inr None
            | Some stored \<Rightarrow> materialize stored pt))"

definition read_task :: "storage \<Rightarrow> int \<Rightarrow> (storage_error, task_record option) result" where
  "read_task s i = open_read s (omap_find (st_tasks s) i)"

definition scan_tasks :: "storage \<Rightarrow> nat \<Rightarrow> (storage_error, task_record list) result" where
  "scan_tasks s limit = open_read s (take limit (map snd (st_tasks s)))"

definition read_submission :: "storage \<Rightarrow> int \<Rightarrow> (storage_error, submission_record option) result" where
  "read_submission s i = open_read s (omap_find (st_submissions s) i)"

definition submission_by_request ::
    "storage \<Rightarrow> int \<Rightarrow> string \<Rightarrow> (storage_error, submission_record option) result" where
  "submission_by_request s conversation_id request =
     open_read s (find_last (\<lambda>r. sm_conversation r = conversation_id \<and> sm_request r = Some request)
       (map snd (st_submissions s)))"

definition scan_submissions :: "storage \<Rightarrow> nat \<Rightarrow> (storage_error, submission_record list) result" where
  "scan_submissions s limit = open_read s (take limit (map snd (st_submissions s)))"

end
