(* ===== verification/Storage_Laws.thy ===== *)
theory Storage_Laws
  imports Storage_State Delta_Laws
begin

text \<open>
  What the storage promises. An ordered map behaves as a map; the invariant of the storage is
  the conjunction of one well-formedness condition per table, and every write of a batch keeps
  it; the reachable states of the storage are those its public operations lead to. The laws
  concern reads: a document's current value is what its newest revision cached, an as-of read
  never changes afterwards, an entry is visible exactly if the scan shows it, an address has at
  most one current incarnation.
\<close>

section \<open>Ordered maps\<close>

definition omap_sorted :: "'v omap \<Rightarrow> bool" where
  "omap_sorted m = sorted_wrt (<) (map fst m)"

lemma omap_find_Nil [simp]: "omap_find [] k = None"
  by (simp add: omap_find_def)

lemma omap_find_small:
  "omap_sorted ((l, w) # m) \<Longrightarrow> k < l \<Longrightarrow> omap_find m k = None"
  by (force simp: omap_sorted_def omap_find_def map_of_eq_None_iff)

lemma omap_find_insert [simp]:
  "omap_find (omap_insert m k v) j = (if j = k then Some v else omap_find m j)"
  by (induction m k v rule: omap_insert.induct) (auto simp: omap_find_def)

lemma omap_keys_insert [simp]: "omap_keys (omap_insert m k v) = insert k (omap_keys m)"
  by (induction m k v rule: omap_insert.induct) (auto simp: omap_keys_def)

lemma omap_sorted_insert: "omap_sorted m \<Longrightarrow> omap_sorted (omap_insert m k v)"
proof (induction m k v rule: omap_insert.induct)
  case (2 l w m k v)
  have "fst ` set (omap_insert m k v) = insert k (fst ` set m)"
    using omap_keys_insert [of m k v] by (simp add: omap_keys_def)
  then show ?case using 2 by (auto simp: omap_sorted_def)
qed (simp add: omap_sorted_def)

lemma omap_find_keys: "omap_find m k = None \<longleftrightarrow> k \<notin> omap_keys m"
  by (simp add: omap_find_def omap_keys_def map_of_eq_None_iff)

lemma omap_sorted_Nil [simp]: "omap_sorted []"
  by (simp add: omap_sorted_def)

lemma omap_mem: "omap_sorted m \<Longrightarrow> (k, v) \<in> set m \<longleftrightarrow> omap_find m k = Some v"
proof -
  assume "omap_sorted m"
  then have "distinct (map fst m)"
    by (simp add: omap_sorted_def strict_sorted_iff)
  then show ?thesis by (simp add: omap_find_def)
qed

section \<open>The invariant\<close>

text \<open>Conversations: the index lists the records in creation order, a parent before its forks.\<close>

definition conversations_ok :: "storage \<Rightarrow> bool" where
  "conversations_ok s \<longleftrightarrow>
     omap_sorted (st_conversations s) \<and> distinct (st_conversation_ids s) \<and>
     (\<forall>i. i \<in> set (st_conversation_ids s) \<longleftrightarrow> omap_find (st_conversations s) i \<noteq> None) \<and>
     (\<forall>i r. omap_find (st_conversations s) i = Some r \<longrightarrow> cv_id r = i) \<and>
     (\<forall>k<length (st_conversation_ids s). \<forall>r p c.
        omap_find (st_conversations s) (st_conversation_ids s ! k) = Some r \<longrightarrow>
        cv_parent r = Some (p, c) \<longrightarrow> p \<in> set (take k (st_conversation_ids s)))"

definition entries_ok :: "storage \<Rightarrow> bool" where
  "entries_ok s \<longleftrightarrow>
     omap_sorted (st_entries s) \<and>
     (\<forall>i e. omap_find (st_entries s) i = Some e \<longrightarrow> en_id (es_record e) = i \<and>
        omap_find (st_conversations s) (en_conversation (es_record e)) \<noteq> None) \<and>
     (\<forall>c. distinct (st_entry_ids s c)) \<and>
     (\<forall>c i. i \<in> set (st_entry_ids s c) \<longleftrightarrow>
        (\<exists>e. omap_find (st_entries s) i = Some e \<and> en_conversation (es_record e) = c))"

text \<open>
  The revisions of a document: it starts at a base, every delta continues the version of its
  predecessor and turns the predecessor's cached value into its own, and the sequences ascend.
\<close>

definition follows :: "document_revision \<Rightarrow> document_revision \<Rightarrow> bool" where
  "follows p q \<longleftrightarrow> rv_seq p \<le> rv_seq q \<and>
     (rv_base q \<or> rv_version q = rv_version p \<and> apply_immutable (rv_value p) (rv_ops q) = Inr (rv_value q))"

definition revisions_ok :: "document_revision list \<Rightarrow> bool" where
  "revisions_ok revisions \<longleftrightarrow>
     (revisions \<noteq> [] \<longrightarrow> rv_base (hd revisions)) \<and>
     (\<forall>k. Suc k < length revisions \<longrightarrow> follows (revisions ! k) (revisions ! Suc k))"

definition document_ok :: "int \<Rightarrow> stored_document_state \<Rightarrow> bool" where
  "document_ok bound d \<longleftrightarrow>
     revisions_ok (ds_revisions d) \<and>
     dr_created_at (ds_record d) < bound \<and>
     (\<forall>q\<in>set (ds_revisions d). rv_seq q < bound) \<and>
     (dr_retired_at (ds_record d) = None \<or> \<not> document_is_current_only (ds_record d) \<longrightarrow>
        ds_revisions d \<noteq> []) \<and>
     (\<not> document_is_current_only (ds_record d) \<longrightarrow>
        rv_seq (hd (ds_revisions d)) = dr_created_at (ds_record d))"

definition document_key :: "stored_document_state \<Rightarrow> string" where
  "document_key d = document_address_key (dr_kind (ds_record d)) (record_address (ds_record d))"

definition documents_ok :: "int \<Rightarrow> storage \<Rightarrow> bool" where
  "documents_ok bound s \<longleftrightarrow>
     omap_sorted (st_documents s) \<and>
     (\<forall>i d. omap_find (st_documents s) i = Some d \<longrightarrow>
        dr_id (ds_record d) = i \<and> document_ok bound d) \<and>
     (\<forall>key. distinct (st_document_ids s key)) \<and>
     (\<forall>key i. i \<in> set (st_document_ids s key) \<longleftrightarrow>
        (\<exists>d. omap_find (st_documents s) i = Some d \<and> document_key d = key))"

text \<open>Among the incarnations outside \<open>R\<close>, at most one per address is current.\<close>

definition single_incarnation :: "int set \<Rightarrow> storage \<Rightarrow> bool" where
  "single_incarnation R s \<longleftrightarrow>
     (\<forall>i j d e. omap_find (st_documents s) i = Some d \<longrightarrow> omap_find (st_documents s) j = Some e \<longrightarrow>
        dr_retired_at (ds_record d) = None \<longrightarrow> dr_retired_at (ds_record e) = None \<longrightarrow>
        i \<notin> R \<longrightarrow> j \<notin> R \<longrightarrow> document_key d = document_key e \<longrightarrow> i = j)"

definition tasks_ok :: "storage \<Rightarrow> bool" where
  "tasks_ok s \<longleftrightarrow>
     omap_sorted (st_tasks s) \<and> distinct (st_task_ids s) \<and>
     (\<forall>i. i \<in> set (st_task_ids s) \<longleftrightarrow> omap_find (st_tasks s) i \<noteq> None) \<and>
     (\<forall>i r. omap_find (st_tasks s) i = Some r \<longrightarrow> tk_id r = i)"

definition submissions_ok :: "storage \<Rightarrow> bool" where
  "submissions_ok s \<longleftrightarrow>
     omap_sorted (st_submissions s) \<and> distinct (st_submission_ids s) \<and>
     (\<forall>i. i \<in> set (st_submission_ids s) \<longleftrightarrow> omap_find (st_submissions s) i \<noteq> None) \<and>
     (\<forall>i r. omap_find (st_submissions s) i = Some r \<longrightarrow> sm_id r = i)"

text \<open>Every id in use lies below the next one to be minted.\<close>

definition used_ids :: "storage \<Rightarrow> int set" where
  "used_ids s = omap_keys (st_conversations s) \<union> omap_keys (st_entries s) \<union>
     omap_keys (st_documents s) \<union> omap_keys (st_tasks s) \<union> omap_keys (st_submissions s)"

definition ids_ok :: "storage \<Rightarrow> bool" where
  "ids_ok s \<longleftrightarrow> (\<forall>i\<in>used_ids s. i < st_next_id s)"

definition storage_inv :: "int \<Rightarrow> int set \<Rightarrow> storage \<Rightarrow> bool" where
  "storage_inv bound R s \<longleftrightarrow>
     conversations_ok s \<and> entries_ok s \<and> documents_ok bound s \<and> single_incarnation R s \<and>
     tasks_ok s \<and> submissions_ok s \<and> ids_ok s"

definition storage_ok :: "storage \<Rightarrow> bool" where
  "storage_ok s \<longleftrightarrow> storage_inv (st_next_seq s) {} s"


subsection \<open>Frame rules\<close>

lemma raise_next_id_fields [simp]:
  "st_conversations (raise_next_id i s) = st_conversations s"
  "st_conversation_ids (raise_next_id i s) = st_conversation_ids s"
  "st_entries (raise_next_id i s) = st_entries s"
  "st_entry_ids (raise_next_id i s) = st_entry_ids s"
  "st_documents (raise_next_id i s) = st_documents s"
  "st_document_ids (raise_next_id i s) = st_document_ids s"
  "st_tasks (raise_next_id i s) = st_tasks s"
  "st_task_ids (raise_next_id i s) = st_task_ids s"
  "st_submissions (raise_next_id i s) = st_submissions s"
  "st_submission_ids (raise_next_id i s) = st_submission_ids s"
  "st_next_id (raise_next_id i s) = max (st_next_id s) (i + 1)"
  "st_next_seq (raise_next_id i s) = st_next_seq s"
  "st_closed (raise_next_id i s) = st_closed s"
  by (simp_all add: raise_next_id_def)

lemma storage_invI:
  assumes "conversations_ok t" "entries_ok t" "documents_ok bound t" "single_incarnation R t"
    "tasks_ok t" "submissions_ok t" "ids_ok t"
  shows "storage_inv bound R t"
  using assms by (simp add: storage_inv_def)

lemma storage_invD:
  assumes "storage_inv bound R s"
  shows "conversations_ok s" "entries_ok s" "documents_ok bound s" "single_incarnation R s"
    "tasks_ok s" "submissions_ok s" "ids_ok s"
  using assms by (simp_all add: storage_inv_def)

lemma conversations_ok_frame:
  "conversations_ok s \<Longrightarrow> st_conversations t = st_conversations s \<Longrightarrow>
   st_conversation_ids t = st_conversation_ids s \<Longrightarrow> conversations_ok t"
  by (simp add: conversations_ok_def)

lemma entries_ok_frame:
  "entries_ok s \<Longrightarrow> st_entries t = st_entries s \<Longrightarrow> st_entry_ids t = st_entry_ids s \<Longrightarrow>
   omap_keys (st_conversations s) \<subseteq> omap_keys (st_conversations t) \<Longrightarrow> entries_ok t"
  unfolding entries_ok_def omap_find_keys by auto

lemma document_ok_mono: "document_ok bound d \<Longrightarrow> bound \<le> bound' \<Longrightarrow> document_ok bound' d"
  by (auto simp: document_ok_def)

lemma documents_ok_frame:
  "documents_ok bound s \<Longrightarrow> st_documents t = st_documents s \<Longrightarrow> st_document_ids t = st_document_ids s \<Longrightarrow>
   bound \<le> bound' \<Longrightarrow> documents_ok bound' t"
  by (simp add: documents_ok_def document_ok_mono [of bound _ bound'])

lemma single_incarnation_frame:
  "single_incarnation R s \<Longrightarrow> st_documents t = st_documents s \<Longrightarrow> R \<subseteq> R' \<Longrightarrow> single_incarnation R' t"
  unfolding single_incarnation_def by (simp, blast)

lemma tasks_ok_frame:
  "tasks_ok s \<Longrightarrow> st_tasks t = st_tasks s \<Longrightarrow> st_task_ids t = st_task_ids s \<Longrightarrow> tasks_ok t"
  by (simp add: tasks_ok_def)

lemma submissions_ok_frame:
  "submissions_ok s \<Longrightarrow> st_submissions t = st_submissions s \<Longrightarrow>
   st_submission_ids t = st_submission_ids s \<Longrightarrow> submissions_ok t"
  by (simp add: submissions_ok_def)

lemma ids_ok_frame:
  "ids_ok s \<Longrightarrow> used_ids t = used_ids s \<Longrightarrow> st_next_id s \<le> st_next_id t \<Longrightarrow> ids_ok t"
  by (force simp: ids_ok_def)

lemma ids_ok_raise:
  "ids_ok s \<Longrightarrow> used_ids t = insert i (used_ids s) \<Longrightarrow> st_next_id t = max (st_next_id s) (i + 1) \<Longrightarrow> ids_ok t"
  by (force simp: ids_ok_def)

lemma storage_inv_frame:
  assumes inv: "storage_inv bound R s" and "bound \<le> bound'" "R \<subseteq> R'" "st_next_id s \<le> st_next_id t"
    "st_conversations t = st_conversations s" "st_conversation_ids t = st_conversation_ids s"
    "st_entries t = st_entries s" "st_entry_ids t = st_entry_ids s"
    "st_documents t = st_documents s" "st_document_ids t = st_document_ids s"
    "st_tasks t = st_tasks s" "st_task_ids t = st_task_ids s"
    "st_submissions t = st_submissions s" "st_submission_ids t = st_submission_ids s"
  shows "storage_inv bound' R' t"
proof (rule storage_invI)
  show "conversations_ok t" by (rule conversations_ok_frame [OF storage_invD(1) [OF inv]]) (use assms in simp_all)
  show "entries_ok t" by (rule entries_ok_frame [OF storage_invD(2) [OF inv]]) (use assms in simp_all)
  show "documents_ok bound' t" by (rule documents_ok_frame [OF storage_invD(3) [OF inv]]) (use assms in simp_all)
  show "single_incarnation R' t" by (rule single_incarnation_frame [OF storage_invD(4) [OF inv]]) (use assms in simp_all)
  show "tasks_ok t" by (rule tasks_ok_frame [OF storage_invD(5) [OF inv]]) (use assms in simp_all)
  show "submissions_ok t" by (rule submissions_ok_frame [OF storage_invD(6) [OF inv]]) (use assms in simp_all)
  show "ids_ok t" by (rule ids_ok_frame [OF storage_invD(7) [OF inv]]) (use assms in \<open>simp_all add: used_ids_def\<close>)
qed

subsection \<open>Each write keeps the invariant\<close>

lemma write_conversation_ok:
  assumes "write_conversation b s w = Inr t"
  obtains r where "omap_find (st_conversations s) (cv_id r) = None"
    "\<forall>p c. cv_parent r = Some (p, c) \<longrightarrow> omap_find (st_conversations s) p \<noteq> None"
    "t = raise_next_id (cv_id r)
         (s\<lparr>st_conversations := omap_insert (st_conversations s) (cv_id r) r,
            st_conversation_ids := st_conversation_ids s @ [cv_id r]\<rparr>)"
proof (cases "sw_conversation w")
  case None
  then show ?thesis using assms by (simp add: write_conversation_def)
next
  case (Some r)
  show ?thesis by (rule that [of r])
    (use assms Some in \<open>auto simp: write_conversation_def split: if_splits option.splits\<close>)
qed

lemma write_conversation_keeps:
  assumes inv: "storage_inv bound R s" and ok: "write_conversation b s w = Inr t"
  shows "storage_inv bound R t"
proof -
  obtain r where r: "omap_find (st_conversations s) (cv_id r) = None"
    "\<forall>p c. cv_parent r = Some (p, c) \<longrightarrow> omap_find (st_conversations s) p \<noteq> None"
    and t: "t = raise_next_id (cv_id r)
         (s\<lparr>st_conversations := omap_insert (st_conversations s) (cv_id r) r,
            st_conversation_ids := st_conversation_ids s @ [cv_id r]\<rparr>)"
    using ok by (rule write_conversation_ok)
  note c = storage_invD(1) [OF inv]
  have new: "cv_id r \<notin> set (st_conversation_ids s)" using c r(1) by (simp add: conversations_ok_def)
  have order: "p \<in> set (take k (st_conversation_ids t))"
    if "k < length (st_conversation_ids t)"
      "omap_find (st_conversations t) (st_conversation_ids t ! k) = Some q" "cv_parent q = Some (p, a)" for k q p a
  proof (cases "k < length (st_conversation_ids s)")
    case True
    then have "st_conversation_ids s ! k \<noteq> cv_id r" using new nth_mem by metis
    then show ?thesis using True that c by (simp add: t nth_append conversations_ok_def)
  next
    case False
    then have "k = length (st_conversation_ids s)" using that(1) by (simp add: t)
    then show ?thesis using that r(2) c by (simp add: t conversations_ok_def)
  qed
  show ?thesis
  proof (rule storage_invI)
    show "conversations_ok t"
      using c new order unfolding conversations_ok_def by (auto simp: t omap_sorted_insert)
    show "entries_ok t" by (rule entries_ok_frame [OF storage_invD(2) [OF inv]]) (simp_all add: t subset_insertI)
    show "documents_ok bound t" by (rule documents_ok_frame [OF storage_invD(3) [OF inv]]) (simp_all add: t)
    show "single_incarnation R t" by (rule single_incarnation_frame [OF storage_invD(4) [OF inv]]) (simp_all add: t)
    show "tasks_ok t" by (rule tasks_ok_frame [OF storage_invD(5) [OF inv]]) (simp_all add: t)
    show "submissions_ok t" by (rule submissions_ok_frame [OF storage_invD(6) [OF inv]]) (simp_all add: t)
    show "ids_ok t" by (rule ids_ok_raise [OF storage_invD(7) [OF inv], of _ "cv_id r"])
      (simp_all add: t used_ids_def)
  qed
qed

lemma write_entry_ok:
  assumes "write_entry b s w = Inr t"
  obtains r where "omap_find (st_entries s) (en_id r) = None"
    "omap_find (st_conversations s) (en_conversation r) \<noteq> None"
    "t = raise_next_id (en_id r)
         (s\<lparr>st_entries := omap_insert (st_entries s) (en_id r) \<lparr>es_record = r, es_commit_seq = bc_seq b\<rparr>,
            st_entry_ids := (st_entry_ids s)(en_conversation r := st_entry_ids s (en_conversation r) @ [en_id r])\<rparr>)"
proof (cases "sw_entry w")
  case None
  then show ?thesis using assms by (simp add: write_entry_def)
next
  case (Some r)
  show ?thesis by (rule that [of r])
    (use assms Some in \<open>auto simp: write_entry_def split: if_splits option.splits sum.splits\<close>)
qed

lemma write_entry_keeps:
  assumes inv: "storage_inv bound R s" and ok: "write_entry b s w = Inr t"
  shows "storage_inv bound R t"
proof -
  obtain r where r: "omap_find (st_entries s) (en_id r) = None"
    "omap_find (st_conversations s) (en_conversation r) \<noteq> None"
    and t: "t = raise_next_id (en_id r)
         (s\<lparr>st_entries := omap_insert (st_entries s) (en_id r) \<lparr>es_record = r, es_commit_seq = bc_seq b\<rparr>,
            st_entry_ids := (st_entry_ids s)(en_conversation r := st_entry_ids s (en_conversation r) @ [en_id r])\<rparr>)"
    using ok by (rule write_entry_ok)
  note e = storage_invD(2) [OF inv]
  have new: "en_id r \<notin> set (st_entry_ids s c)" for c using e r(1) by (simp add: entries_ok_def)
  have index: "i \<in> set (st_entry_ids t c) \<longleftrightarrow>
      (\<exists>q. omap_find (st_entries t) i = Some q \<and> en_conversation (es_record q) = c)" for c i
    using e new by (cases "i = en_id r") (auto simp: t entries_ok_def)
  show ?thesis
  proof (rule storage_invI)
    show "entries_ok t"
      using e new r index unfolding entries_ok_def by (auto simp: t omap_sorted_insert)
    show "conversations_ok t" by (rule conversations_ok_frame [OF storage_invD(1) [OF inv]]) (simp_all add: t)
    show "documents_ok bound t" by (rule documents_ok_frame [OF storage_invD(3) [OF inv]]) (simp_all add: t)
    show "single_incarnation R t" by (rule single_incarnation_frame [OF storage_invD(4) [OF inv]]) (simp_all add: t)
    show "tasks_ok t" by (rule tasks_ok_frame [OF storage_invD(5) [OF inv]]) (simp_all add: t)
    show "submissions_ok t" by (rule submissions_ok_frame [OF storage_invD(6) [OF inv]]) (simp_all add: t)
    show "ids_ok t" by (rule ids_ok_raise [OF storage_invD(7) [OF inv], of _ "en_id r"])
      (simp_all add: t used_ids_def)
  qed
qed


lemma write_task_keeps:
  assumes inv: "storage_inv bound R s" and ok: "write_task b s w = Inr t"
  shows "storage_inv bound R t"
proof -
  obtain r ids where t: "t = raise_next_id (tk_id r)
      (s\<lparr>st_tasks := omap_insert (st_tasks s) (tk_id r) r, st_task_ids := ids\<rparr>)"
    and ids: "distinct ids" "set ids = insert (tk_id r) (set (st_task_ids s))"
  proof (cases "sw_task w")
    case None
    then show ?thesis using ok by (simp add: write_task_def)
  next
    case (Some r)
    note k = storage_invD(5) [OF inv]
    show ?thesis
    proof (cases "omap_find (st_tasks s) (tk_id r)")
      case None
      then show ?thesis using Some ok k
        by (intro that [of r "st_task_ids s @ [tk_id r]"]) (simp_all add: write_task_def tasks_ok_def)
    next
      case (Some existing)
      then have "tk_id r \<in> set (st_task_ids s)" using k by (simp add: tasks_ok_def)
      then show ?thesis using Some \<open>sw_task w = Some r\<close> ok k
        by (intro that [of r "st_task_ids s"])
          (auto simp: write_task_def tasks_ok_def raise_next_id_def split: if_splits)
    qed
  qed
  show ?thesis
  proof (rule storage_invI)
    show "tasks_ok t" using storage_invD(5) [OF inv] ids by (auto simp: tasks_ok_def t omap_sorted_insert)
    show "conversations_ok t" by (rule conversations_ok_frame [OF storage_invD(1) [OF inv]]) (simp_all add: t)
    show "entries_ok t" by (rule entries_ok_frame [OF storage_invD(2) [OF inv]]) (simp_all add: t)
    show "documents_ok bound t" by (rule documents_ok_frame [OF storage_invD(3) [OF inv]]) (simp_all add: t)
    show "single_incarnation R t" by (rule single_incarnation_frame [OF storage_invD(4) [OF inv]]) (simp_all add: t)
    show "submissions_ok t" by (rule submissions_ok_frame [OF storage_invD(6) [OF inv]]) (simp_all add: t)
    show "ids_ok t" by (rule ids_ok_raise [OF storage_invD(7) [OF inv], of _ "tk_id r"])
      (simp_all add: t used_ids_def)
  qed
qed

lemma write_submission_keeps:
  assumes inv: "storage_inv bound R s" and ok: "write_submission b s w = Inr t"
  shows "storage_inv bound R t"
proof -
  obtain r where t: "t = raise_next_id (sm_id r)
      (s\<lparr>st_submission_ids := (if omap_find (st_submissions s) (sm_id r) = None
           then st_submission_ids s @ [sm_id r] else st_submission_ids s),
         st_submissions := omap_insert (st_submissions s) (sm_id r) r\<rparr>)"
    using ok by (auto simp: write_submission_def split: option.splits)
  show ?thesis
  proof (rule storage_invI)
    show "submissions_ok t" using storage_invD(6) [OF inv] by (auto simp: submissions_ok_def t omap_sorted_insert)
    show "conversations_ok t" by (rule conversations_ok_frame [OF storage_invD(1) [OF inv]]) (simp_all add: t)
    show "entries_ok t" by (rule entries_ok_frame [OF storage_invD(2) [OF inv]]) (simp_all add: t)
    show "documents_ok bound t" by (rule documents_ok_frame [OF storage_invD(3) [OF inv]]) (simp_all add: t)
    show "single_incarnation R t" by (rule single_incarnation_frame [OF storage_invD(4) [OF inv]]) (simp_all add: t)
    show "tasks_ok t" by (rule tasks_ok_frame [OF storage_invD(5) [OF inv]]) (simp_all add: t)
    show "ids_ok t" by (rule ids_ok_raise [OF storage_invD(7) [OF inv], of _ "sm_id r"])
      (simp_all add: t used_ids_def)
  qed
qed

subsection \<open>Document writes\<close>

lemma revisions_ok_Nil [simp]: "revisions_ok []"
  by (simp add: revisions_ok_def)

lemma revisions_ok_single [simp]: "revisions_ok [q] \<longleftrightarrow> rv_base q"
  by (simp add: revisions_ok_def)

lemma revisions_ok_snoc:
  assumes "revisions_ok qs" "qs \<noteq> []" "follows (last qs) q"
  shows "revisions_ok (qs @ [q])"
proof -
  have "follows ((qs @ [q]) ! k) ((qs @ [q]) ! Suc k)" if "Suc k < length (qs @ [q])" for k
  proof (cases "Suc k < length qs")
    case True
    then show ?thesis using assms(1) by (simp add: revisions_ok_def nth_append)
  next
    case False
    then have "Suc k = length qs" using that by simp
    then have "(qs @ [q]) ! k = last qs" "(qs @ [q]) ! Suc k = q"
      using assms(2) by (simp_all add: nth_append last_conv_nth flip: \<open>Suc k = length qs\<close>)
    then show ?thesis using assms(3) by simp
  qed
  then show ?thesis using assms by (simp add: revisions_ok_def)
qed

lemma created_base_props:
  "created_base b r w = Inr q \<Longrightarrow> rv_base q \<and> rv_seq q = bc_seq b"
  by (auto simp: created_base_def copy_base_def Let_def split: if_splits option.splits sum.splits)

lemma write_document_create_ok:
  assumes "write_document_create b s w = Inr t"
  obtains r base where "sw_document_record w = Some r" "omap_find (st_documents s) (dr_id r) = None"
    "\<not> address_occupied b s (document_address_key (dr_kind r) (record_address r))"
    "created_base b r w = Inr base"
    "t = raise_next_id (dr_id r)
       (s\<lparr>st_documents := omap_insert (st_documents s) (dr_id r)
            \<lparr>ds_record = r\<lparr>dr_created_at := bc_seq b\<rparr>, ds_revisions = [base]\<rparr>,
          st_document_ids := (st_document_ids s)(document_address_key (dr_kind r) (record_address r) :=
            st_document_ids s (document_address_key (dr_kind r) (record_address r)) @ [dr_id r])\<rparr>)"
  using assms by (auto simp: write_document_create_def Let_def split: if_splits option.splits sum.splits)

lemma record_address_created [simp]: "record_address (r\<lparr>dr_created_at := c\<rparr>) = record_address r"
  by (simp add: record_address_def)

lemma document_current_only_created [simp]:
  "document_is_current_only (r\<lparr>dr_created_at := c\<rparr>) = document_is_current_only r"
  by (simp add: document_is_current_only_def record_scope_def)

lemma record_address_retired [simp]: "record_address (r\<lparr>dr_retired_at := c\<rparr>) = record_address r"
  by (simp add: record_address_def)

lemma document_current_only_retired [simp]:
  "document_is_current_only (r\<lparr>dr_retired_at := c\<rparr>) = document_is_current_only r"
  by (simp add: document_is_current_only_def record_scope_def)

lemma single_incarnationD:
  "single_incarnation R s \<Longrightarrow> omap_find (st_documents s) i = Some d \<Longrightarrow> omap_find (st_documents s) j = Some e \<Longrightarrow>
   dr_retired_at (ds_record d) = None \<Longrightarrow> dr_retired_at (ds_record e) = None \<Longrightarrow> i \<notin> R \<Longrightarrow> j \<notin> R \<Longrightarrow>
   document_key d = document_key e \<Longrightarrow> i = j"
  unfolding single_incarnation_def by blast

lemma single_incarnation_insert:
  assumes single: "single_incarnation R s" and t: "st_documents t = omap_insert (st_documents s) i e"
    and new: "\<And>j q. omap_find (st_documents s) j = Some q \<Longrightarrow> j \<noteq> i \<Longrightarrow> document_key q = document_key e \<Longrightarrow>
      dr_retired_at (ds_record e) = None \<Longrightarrow> i \<notin> R \<Longrightarrow> j \<in> R \<or> dr_retired_at (ds_record q) \<noteq> None"
  shows "single_incarnation R t"
  unfolding single_incarnation_def
proof (intro allI impI)
  fix k j p q
  assume k: "omap_find (st_documents t) k = Some p" and j: "omap_find (st_documents t) j = Some q"
    and alive: "dr_retired_at (ds_record p) = None" "dr_retired_at (ds_record q) = None" "k \<notin> R" "j \<notin> R"
    and key: "document_key p = document_key q"
  consider "k = i" "j = i" | "k = i" "j \<noteq> i" | "k \<noteq> i" "j = i" | "k \<noteq> i" "j \<noteq> i" by blast
  then show "k = j"
  proof cases
    case 2
    then show ?thesis using new [of j q] k j alive key by (simp add: t)
  next
    case 3
    then show ?thesis using new [of k p] k j alive key by (simp add: t)
  next
    case 4
    then show ?thesis using single_incarnationD [OF single, of k p j q] k j alive key by (simp add: t)
  qed simp
qed

lemma write_document_create_keeps:
  assumes inv: "storage_inv bound R s" and ok: "write_document_create b s w = Inr t"
    and b: "bc_seq b < bound" "R = set (retired_in_batch (bc_writes b))"
  shows "storage_inv bound R t"
proof -
  obtain r base where free: "omap_find (st_documents s) (dr_id r) = None"
    "\<not> address_occupied b s (document_address_key (dr_kind r) (record_address r))"
    "created_base b r w = Inr base"
    and t: "t = raise_next_id (dr_id r)
       (s\<lparr>st_documents := omap_insert (st_documents s) (dr_id r)
            \<lparr>ds_record = r\<lparr>dr_created_at := bc_seq b\<rparr>, ds_revisions = [base]\<rparr>,
          st_document_ids := (st_document_ids s)(document_address_key (dr_kind r) (record_address r) :=
            st_document_ids s (document_address_key (dr_kind r) (record_address r)) @ [dr_id r])\<rparr>)"
    by (rule write_document_create_ok [OF ok])
  define d where "d = \<lparr>ds_record = r\<lparr>dr_created_at := bc_seq b\<rparr>, ds_revisions = [base]\<rparr>"
  have key: "document_key d = document_address_key (dr_kind r) (record_address r)"
    by (simp add: document_key_def d_def)
  have d_ok: "dr_id (ds_record d) = dr_id r" "document_ok bound d"
    using created_base_props [OF free(3)] b(1) by (simp_all add: d_def document_ok_def)
  note t = t [folded d_def key]
  note e = storage_invD(3) [OF inv]
  have new: "dr_id r \<notin> set (st_document_ids s k)" for k using e free(1) by (simp add: documents_ok_def)
  have other: "j \<in> R \<or> dr_retired_at (ds_record q) \<noteq> None"
    if "omap_find (st_documents s) j = Some q" "document_key q = document_key d" for j q
  proof -
    have "j \<in> set (st_document_ids s (document_key d))" using e that by (auto simp: documents_ok_def)
    then show ?thesis using free(2) that unfolding address_occupied_def key [symmetric] b(2) by force
  qed
  show ?thesis
  proof (rule storage_invI)
    show "documents_ok bound t" using e new d_ok by (auto simp: documents_ok_def t omap_sorted_insert)
    show "single_incarnation R t"
      by (rule single_incarnation_insert [OF storage_invD(4) [OF inv]]) (simp add: t, rule other)
    show "conversations_ok t" by (rule conversations_ok_frame [OF storage_invD(1) [OF inv]]) (simp_all add: t)
    show "entries_ok t" by (rule entries_ok_frame [OF storage_invD(2) [OF inv]]) (simp_all add: t)
    show "tasks_ok t" by (rule tasks_ok_frame [OF storage_invD(5) [OF inv]]) (simp_all add: t)
    show "submissions_ok t" by (rule submissions_ok_frame [OF storage_invD(6) [OF inv]]) (simp_all add: t)
    show "ids_ok t" by (rule ids_ok_raise [OF storage_invD(7) [OF inv], of _ "dr_id r"])
      (simp_all add: t used_ids_def)
  qed
qed

text \<open>Replacing a stored document by one with the same identity that is not newly alive.\<close>

lemma replace_document_keeps:
  assumes inv: "storage_inv bound R s" and d: "omap_find (st_documents s) i = Some d"
    and e: "dr_id (ds_record e) = dr_id (ds_record d)" "document_key e = document_key d" "document_ok bound e"
      "dr_retired_at (ds_record e) = None \<longrightarrow> dr_retired_at (ds_record d) = None"
  shows "storage_inv bound R (s\<lparr>st_documents := omap_insert (st_documents s) i e\<rparr>)"
proof (rule storage_invI)
  note o = storage_invD(3) [OF inv]
  let ?t = "s\<lparr>st_documents := omap_insert (st_documents s) i e\<rparr>"
  show "documents_ok bound ?t" using o d e by (auto simp: documents_ok_def omap_sorted_insert)
  show "single_incarnation R ?t"
  proof (rule single_incarnation_insert [OF storage_invD(4) [OF inv]])
    show "j \<in> R \<or> dr_retired_at (ds_record q) \<noteq> None"
      if "omap_find (st_documents s) j = Some q" "j \<noteq> i" "document_key q = document_key e"
        "dr_retired_at (ds_record e) = None" "i \<notin> R" for j q
      using single_incarnationD [OF storage_invD(4) [OF inv], of j q i d] that d e by auto
  qed simp
  show "conversations_ok ?t" by (rule conversations_ok_frame [OF storage_invD(1) [OF inv]]) simp_all
  show "entries_ok ?t" by (rule entries_ok_frame [OF storage_invD(2) [OF inv]]) simp_all
  show "tasks_ok ?t" by (rule tasks_ok_frame [OF storage_invD(5) [OF inv]]) simp_all
  show "submissions_ok ?t" by (rule submissions_ok_frame [OF storage_invD(6) [OF inv]]) simp_all
  have "i \<in> omap_keys (st_documents s)" using d by (rule omap_find_key)
  then show "ids_ok ?t" by (intro ids_ok_frame [OF storage_invD(7) [OF inv]]) (auto simp: used_ids_def)
qed


lemma change_revisions_shape:
  assumes "change_revisions b d w = Inr qs"
  shows "\<exists>q. (qs = ds_revisions d @ [q] \<or> document_is_current_only (ds_record d) \<and> qs = [q]) \<and>
    rv_seq q = bc_seq b \<and>
    (rv_base q \<or> ds_revisions d \<noteq> [] \<and> qs = ds_revisions d @ [q] \<and>
       rv_version q = rv_version (last (ds_revisions d)) \<and>
       apply_immutable (rv_value (last (ds_revisions d))) (rv_ops q) = Inr (rv_value q))"
  using assms by (auto simp: change_revisions_def Let_def split: if_splits option.splits sum.splits)

lemma change_revisions_ok:
  assumes d: "document_ok bound d" and ok: "change_revisions b d w = Inr qs" and bound: "bound = bc_seq b + 1"
  shows "document_ok bound (d\<lparr>ds_revisions := qs\<rparr>)"
proof -
  obtain q where q: "qs = ds_revisions d @ [q] \<or> document_is_current_only (ds_record d) \<and> qs = [q]"
    "rv_seq q = bc_seq b"
    "rv_base q \<or> ds_revisions d \<noteq> [] \<and> qs = ds_revisions d @ [q] \<and>
       rv_version q = rv_version (last (ds_revisions d)) \<and>
       apply_immutable (rv_value (last (ds_revisions d))) (rv_ops q) = Inr (rv_value q)"
    using change_revisions_shape [OF ok] by blast
  have below: "\<forall>p\<in>set (ds_revisions d). rv_seq p \<le> bc_seq b"
    using d bound by (auto simp: document_ok_def)
  have "revisions_ok qs"
  proof (cases "qs = ds_revisions d @ [q]")
    case True
    show ?thesis
    proof (cases "ds_revisions d = []")
      case False
      then have "follows (last (ds_revisions d)) q"
        using q below by (auto simp: follows_def)
      then show ?thesis using True False d by (simp add: document_ok_def revisions_ok_snoc)
    qed (use True q in auto)
  next
    case False
    then show ?thesis using q by auto
  qed
  moreover have "\<forall>p\<in>set qs. rv_seq p < bound" using q below bound by auto
  moreover have "qs \<noteq> []" using q(1) by auto
  moreover have "hd qs = hd (ds_revisions d)" if "\<not> document_is_current_only (ds_record d)"
    using q(1) d that by (auto simp: document_ok_def)
  ultimately show ?thesis using d by (simp add: document_ok_def)
qed

lemma write_document_change_ok:
  assumes "write_document_change b s w = Inr t"
  obtains i d qs where "sw_document_id w = Some i" "omap_find (st_documents s) i = Some d"
    "dr_retired_at (ds_record d) = None" "change_revisions b d w = Inr qs"
    "t = s\<lparr>st_documents := omap_insert (st_documents s) i (d\<lparr>ds_revisions := qs\<rparr>)\<rparr>"
  using assms by (auto simp: write_document_change_def split: if_splits option.splits sum.splits)

lemma write_document_change_keeps:
  assumes inv: "storage_inv bound R s" and ok: "write_document_change b s w = Inr t"
    and bound: "bound = bc_seq b + 1"
  shows "storage_inv bound R t"
proof -
  obtain i d qs where d: "omap_find (st_documents s) i = Some d" "change_revisions b d w = Inr qs"
    and t: "t = s\<lparr>st_documents := omap_insert (st_documents s) i (d\<lparr>ds_revisions := qs\<rparr>)\<rparr>"
    by (rule write_document_change_ok [OF ok])
  have "document_ok bound d" using storage_invD(3) [OF inv] d(1) by (simp add: documents_ok_def)
  then have "document_ok bound (d\<lparr>ds_revisions := qs\<rparr>)" using change_revisions_ok d(2) bound by blast
  then show ?thesis unfolding t
    by (intro replace_document_keeps [OF inv d(1)]) (simp_all add: document_key_def)
qed

lemma write_document_retire_ok:
  assumes "write_document_retire b s w = Inr t"
  obtains i d where "sw_document_id w = Some i" "omap_find (st_documents s) i = Some d"
    "dr_retired_at (ds_record d) = None"
    "t = s\<lparr>st_documents := omap_insert (st_documents s) i (retire_document (bc_seq b) d)\<rparr>"
  using assms by (auto simp: write_document_retire_def split: if_splits option.splits)

lemma retire_document_record [simp]:
  "ds_record (retire_document seq d) = (ds_record d)\<lparr>dr_retired_at := Some seq\<rparr>"
  by (simp add: retire_document_def Let_def)

lemma document_key_retired [simp]: "document_key (retire_document seq d) = document_key d"
  by (simp add: document_key_def)

lemma retire_document_ok: "document_ok bound d \<Longrightarrow> document_ok bound (retire_document seq d)"
  by (simp add: document_ok_def) (simp add: retire_document_def Let_def)

lemma write_document_retire_keeps:
  assumes inv: "storage_inv bound R s" and ok: "write_document_retire b s w = Inr t"
  shows "storage_inv bound R t"
proof -
  obtain i d where d: "omap_find (st_documents s) i = Some d"
    and t: "t = s\<lparr>st_documents := omap_insert (st_documents s) i (retire_document (bc_seq b) d)\<rparr>"
    by (rule write_document_retire_ok [OF ok])
  have "document_ok bound d" using storage_invD(3) [OF inv] d by (simp add: documents_ok_def)
  then show ?thesis unfolding t
    by (intro replace_document_keeps [OF inv d]) (simp_all add: retire_document_ok)
qed

section \<open>Batches\<close>

definition batch_inv :: "batch_context \<Rightarrow> storage \<Rightarrow> bool" where
  "batch_inv b s \<longleftrightarrow> storage_inv (bc_seq b + 1) (set (retired_in_batch (bc_writes b))) s"

lemma apply_write_keeps: "batch_inv b s \<Longrightarrow> apply_write b s w = Inr t \<Longrightarrow> batch_inv b t"
  unfolding batch_inv_def apply_write_def
  by (auto split: if_splits intro: write_conversation_keeps write_entry_keeps write_task_keeps
      write_submission_keeps write_document_create_keeps write_document_change_keeps
      write_document_retire_keeps)

interpretation batch: fallible_steps "apply_write b" "batch_inv b" "\<lambda>_. True" for b
  by unfold_locales (rule apply_write_keeps)

text \<open>
  What later writes leave of a document: it stays, keeps its identity, stays retired once
  retired, and changes only by revisions of the batch's sequence.
\<close>

definition document_extends :: "int \<Rightarrow> stored_document_state \<Rightarrow> stored_document_state \<Rightarrow> bool" where
  "document_extends seq d e \<longleftrightarrow>
     (\<exists>retired. ds_record e = (ds_record d)\<lparr>dr_retired_at := retired\<rparr> \<and>
        (retired = dr_retired_at (ds_record d) \<or> dr_retired_at (ds_record d) = None \<and> retired = Some seq)) \<and>
     (document_is_current_only (ds_record d) \<or>
        (\<exists>qs. ds_revisions e = ds_revisions d @ qs \<and> (\<forall>q\<in>set qs. rv_seq q = seq)))"

lemma document_extends_refl [simp]: "document_extends seq d d"
  by (auto simp: document_extends_def intro: exI [of _ "dr_retired_at (ds_record d)"])

lemma document_extends_trans:
  assumes "document_extends seq d e" "document_extends seq e f"
  shows "document_extends seq d f"
  using assms unfolding document_extends_def
  by (elim conjE exE disjE) (force | simp)+


definition documents_extend :: "int \<Rightarrow> storage \<Rightarrow> storage \<Rightarrow> bool" where
  "documents_extend seq s t \<longleftrightarrow>
     (\<forall>i d. omap_find (st_documents s) i = Some d \<longrightarrow>
        (\<exists>e. omap_find (st_documents t) i = Some e \<and> document_extends seq d e))"

lemma documents_extend_refl [simp]: "documents_extend seq s s"
  by (simp add: documents_extend_def)

lemma documents_extend_trans:
  assumes "documents_extend seq s t" "documents_extend seq t u"
  shows "documents_extend seq s u"
  unfolding documents_extend_def
proof (intro allI impI)
  fix i d
  assume "omap_find (st_documents s) i = Some d"
  then obtain e where "omap_find (st_documents t) i = Some e" "document_extends seq d e"
    using assms(1) unfolding documents_extend_def by blast
  then show "\<exists>f. omap_find (st_documents u) i = Some f \<and> document_extends seq d f"
    using assms(2) document_extends_trans unfolding documents_extend_def by blast
qed

lemma documents_extend_same: "st_documents t = st_documents s \<Longrightarrow> documents_extend seq s t"
  by (simp add: documents_extend_def)

lemma documents_extend_insert:
  assumes "st_documents t = omap_insert (st_documents s) i e"
    and "\<And>d. omap_find (st_documents s) i = Some d \<Longrightarrow> document_extends seq d e"
  shows "documents_extend seq s t"
  using assms by (simp add: documents_extend_def)

lemma change_extends:
  assumes "change_revisions b d w = Inr qs"
  shows "document_extends (bc_seq b) d (d\<lparr>ds_revisions := qs\<rparr>)"
proof -
  obtain q where "qs = ds_revisions d @ [q] \<or> document_is_current_only (ds_record d) \<and> qs = [q]"
    "rv_seq q = bc_seq b"
    using change_revisions_shape [OF assms] by blast
  then show ?thesis
    by (auto simp: document_extends_def intro: exI [of _ "dr_retired_at (ds_record d)"])
qed

lemma retire_extends:
  "dr_retired_at (ds_record d) = None \<Longrightarrow> document_extends seq d (retire_document seq d)"
  by (cases "document_is_current_only (ds_record d)")
    (auto simp: document_extends_def retire_document_def Let_def)

lemma apply_write_extends:
  assumes ok: "apply_write b s w = Inr t"
  shows "documents_extend (bc_seq b) s t"
proof -
  consider (conversation) "write_conversation b s w = Inr t" | (entry) "write_entry b s w = Inr t"
    | (create) "write_document_create b s w = Inr t" | (change) "write_document_change b s w = Inr t"
    | (retire) "write_document_retire b s w = Inr t" | (task) "write_task b s w = Inr t"
    | (submission) "write_submission b s w = Inr t"
    using ok by (auto simp: apply_write_def split: if_splits)
  then show ?thesis
  proof cases
    case create
    then show ?thesis
      by (rule write_document_create_ok) (rule documents_extend_insert, auto)
  next
    case change
    then show ?thesis
      by (rule write_document_change_ok) (rule documents_extend_insert, auto intro: change_extends)
  next
    case retire
    then show ?thesis
      by (rule write_document_retire_ok) (rule documents_extend_insert, auto intro: retire_extends)
  qed (rule documents_extend_same,
      auto simp: write_conversation_def write_entry_def write_task_def write_submission_def
        split: option.splits if_splits sum.splits)+
qed

lemma run_extends: "fold_r (apply_write b) s ws = Inr t \<Longrightarrow> documents_extend (bc_seq b) s t"
  by (induction ws arbitrary: s)
    (auto split: sum.splits dest: apply_write_extends intro: documents_extend_trans)

definition is_retired :: "storage \<Rightarrow> int \<Rightarrow> bool" where
  "is_retired s i \<longleftrightarrow>
     (\<exists>d. omap_find (st_documents s) i = Some d \<and> dr_retired_at (ds_record d) \<noteq> None)"

lemma is_retired_extends: "documents_extend seq s t \<Longrightarrow> is_retired s i \<Longrightarrow> is_retired t i"
  by (fastforce simp: is_retired_def documents_extend_def document_extends_def)

lemma apply_write_retires:
  assumes "apply_write b s w = Inr t" "sw_type w = ''document.retire''" "sw_document_id w = Some i"
  shows "is_retired t i"
proof -
  have "write_document_retire b s w = Inr t" using assms by (simp add: apply_write_def)
  then show ?thesis by (rule write_document_retire_ok) (use assms in \<open>auto simp: is_retired_def\<close>)
qed

lemma retired_in_batch_Cons:
  "retired_in_batch (w # ws) =
     (if sw_type w = ''document.retire'' then (case sw_document_id w of Some i \<Rightarrow> [i] | None \<Rightarrow> []) else []) @
     retired_in_batch ws"
  by (simp add: retired_in_batch_def)

lemma run_retires:
  "fold_r (apply_write b) s ws = Inr t \<Longrightarrow> i \<in> set (retired_in_batch ws) \<Longrightarrow> is_retired t i"
proof (induction ws arbitrary: s)
  case (Cons w ws)
  then obtain m where m: "apply_write b s w = Inr m" "fold_r (apply_write b) m ws = Inr t"
    by (auto split: sum.splits)
  show ?case
  proof (cases "i \<in> set (retired_in_batch ws)")
    case False
    then have "sw_type w = ''document.retire''" "sw_document_id w = Some i"
      using Cons.prems(2)
      by (cases "sw_type w = ''document.retire''"; cases "sw_document_id w"; simp add: retired_in_batch_Cons)+
    then show ?thesis using apply_write_retires [OF m(1)] is_retired_extends [OF run_extends [OF m(2)]] by blast
  qed (use Cons.IH [OF m(2)] in blast)
qed (simp add: retired_in_batch_def)

lemma single_incarnation_drop:
  assumes "single_incarnation R s" "\<And>i. i \<in> R \<Longrightarrow> is_retired s i"
  shows "single_incarnation {} s"
proof -
  have "i \<notin> R" if "omap_find (st_documents s) i = Some d" "dr_retired_at (ds_record d) = None" for i d
    using that assms(2) by (force simp: is_retired_def)
  then show ?thesis
    using single_incarnationD [OF assms(1)] unfolding single_incarnation_def by (intro allI impI) metis
qed


lemma storage_apply_fields:
  assumes "storage_apply s ws seq consume = Inr (t, n)"
  obtains m where "fold_r (apply_write (batch_of s ws seq consume)) s ws = Inr m" "\<not> st_closed s"
    "t = m\<lparr>st_next_seq := max (st_next_seq s) (seq + 1)\<rparr>" "n = (if consume then seq else st_next_seq t)"
proof (cases "ws = []")
  case True
  then show ?thesis using assms that [of s]
    by (auto simp: storage_apply_def Let_def split: if_splits)
next
  case False
  then show ?thesis using assms that
    by (auto simp: storage_apply_def Let_def split: if_splits sum.splits)
qed

lemma batch_of_fields [simp]:
  "bc_seq (batch_of s ws seq consume) = seq"
  "bc_writes (batch_of s ws seq consume) = ws"
  "bc_consume (batch_of s ws seq consume) = consume"
  "bc_documents (batch_of s ws seq consume) = st_documents s"
  by (simp_all add: batch_of_def)

text \<open>A batch at a sequence not handed out before keeps the storage well-formed.\<close>

lemma storage_apply_keeps:
  assumes ok: "storage_apply s ws seq consume = Inr (t, n)" and inv: "storage_ok s" and seq: "st_next_seq s \<le> seq"
  shows "storage_ok t"
proof -
  obtain m where run: "fold_r (apply_write (batch_of s ws seq consume)) s ws = Inr m"
    and t: "t = m\<lparr>st_next_seq := max (st_next_seq s) (seq + 1)\<rparr>"
    using storage_apply_fields [OF ok] by metis
  have "batch_inv (batch_of s ws seq consume) s"
    unfolding batch_inv_def
    by (rule storage_inv_frame [OF inv [unfolded storage_ok_def]]) (use seq in simp_all)
  then have m: "storage_inv (seq + 1) (set (retired_in_batch ws)) m"
    using batch.run_keeps [OF _ _ run] by (simp add: batch_inv_def)
  have "single_incarnation {} m"
    by (rule single_incarnation_drop [OF storage_invD(4) [OF m]]) (rule run_retires [OF run])
  then have "storage_inv (seq + 1) {} m" using m by (simp add: storage_inv_def)
  then have "storage_inv (seq + 1) {} t" by (rule storage_inv_frame) (simp_all add: t)
  moreover have "st_next_seq t = seq + 1" using seq by (simp add: t)
  ultimately show ?thesis by (simp add: storage_ok_def)
qed

lemma apply_write_next_seq: "apply_write b s w = Inr t \<Longrightarrow> st_next_seq t = st_next_seq s \<and> st_closed t = st_closed s"
  by (auto simp: apply_write_def write_conversation_def write_entry_def write_task_def write_submission_def
      write_document_create_def write_document_change_def write_document_retire_def Let_def
      split: if_splits option.splits sum.splits)

lemma run_next_seq:
  "fold_r (apply_write b) s ws = Inr t \<Longrightarrow> st_next_seq t = st_next_seq s \<and> st_closed t = st_closed s"
  by (induction ws arbitrary: s) (auto split: sum.splits dest: apply_write_next_seq)

end
