(* ===== verification/Document_Key.thy ===== *)
theory Document_Key
  imports Storage_State
begin

text \<open>
  The textual key under which the storage indexes document incarnations
  (\<^verbatim>\<open>document_address_key\<close> of \<^verbatim>\<open>src/src/durable/Session.cpp\<close>): what two addresses
  with the same key have in common.
\<close>

section \<open>Decimal numerals\<close>

lemma minus_no_digit: "CHR ''-'' \<notin> set (nat_digits n)"
  using nat_digits_chars [of "CHR ''-''" n] by auto

lemma bar_no_digit: "CHR ''|'' \<notin> set (nat_digits n)"
  using nat_digits_chars [of "CHR ''|''" n] by auto

lemma to_string_inject: "to_string i = to_string j \<longleftrightarrow> i = j"
proof
  assume eq: "to_string i = to_string j"
  have no: "nat_digits m \<noteq> CHR ''-'' # nat_digits n" for m n
    using minus_no_digit [of m] by (metis list.set_intros(1))
  show "i = j"
    using eq no nat_digits_inject by (auto simp: to_string_def split: if_splits) (metis no)+
qed simp

lemma bar_not_in_to_string: "CHR ''|'' \<notin> set (to_string i)"
  by (simp add: to_string_def bar_no_digit)

section \<open>Keys\<close>

definition address_owner :: "document_address \<Rightarrow> int option" where
  "address_owner a = (case ad_task a of Some t \<Rightarrow> Some t | None \<Rightarrow> ad_conversation a)"

definition owner_text :: "document_address \<Rightarrow> string" where
  "owner_text a = (case address_owner a of Some i \<Rightarrow> to_string i | None \<Rightarrow> ''session'')"

definition family_text :: "string option \<Rightarrow> string" where
  "family_text k = (case k of Some f \<Rightarrow> ''family:'' @ f | None \<Rightarrow> ''singleton'')"

lemma split_at_first:
  "c \<notin> set xs \<Longrightarrow> c \<notin> set ys \<Longrightarrow> xs @ c # us = ys @ c # vs \<longleftrightarrow> xs = ys \<and> us = vs"
proof (induction xs arbitrary: ys)
  case Nil
  then show ?case by (cases ys) auto
next
  case (Cons x xs)
  then show ?case by (cases ys) auto
qed

lemma document_address_key_eq:
  "document_address_key kind a =
     kind @ CHR ''|'' # (document_scope_name (address_scope a) @ CHR '':'' # owner_text a) @
     CHR ''|'' # family_text (ad_key a)"
  by (simp add: document_address_key_def owner_text_def address_owner_def family_text_def
      split: option.splits)

lemma scope_name_no_bar: "CHR ''|'' \<notin> set (document_scope_name sc)"
  by (cases sc) auto

lemma scope_name_no_colon: "CHR '':'' \<notin> set (document_scope_name sc)"
  by (cases sc) auto

lemma scope_name_inject: "document_scope_name sc = document_scope_name sd \<longleftrightarrow> sc = sd"
  by (cases sc; cases sd) auto

lemma owner_text_no_bar: "CHR ''|'' \<notin> set (owner_text a)"
  by (auto simp: owner_text_def bar_not_in_to_string split: option.splits)

lemma family_text_inject: "family_text k = family_text l \<longleftrightarrow> k = l"
  by (auto simp: family_text_def split: option.splits)

lemma scope_owner: "address_scope a = SessionScope \<longleftrightarrow> address_owner a = None"
  by (auto simp: address_scope_def address_owner_def split: option.splits)

lemma owner_text_inject:
  "address_scope a = address_scope b \<Longrightarrow> owner_text a = owner_text b \<longleftrightarrow> address_owner a = address_owner b"
  using scope_owner [of a] scope_owner [of b]
  by (auto simp: owner_text_def to_string_inject split: option.splits)

lemma document_key_inject:
  assumes "CHR ''|'' \<notin> set kind" "CHR ''|'' \<notin> set kind'"
  shows "document_address_key kind a = document_address_key kind' b \<longleftrightarrow>
      kind = kind' \<and> address_scope a = address_scope b \<and> address_owner a = address_owner b \<and> ad_key a = ad_key b"
proof -
  let ?m = "\<lambda>a. document_scope_name (address_scope a) @ CHR '':'' # owner_text a"
  have bar: "CHR ''|'' \<notin> set (?m a)" for a by (simp add: scope_name_no_bar owner_text_no_bar)
  have mid: "?m a = ?m b \<longleftrightarrow> address_scope a = address_scope b \<and> address_owner a = address_owner b"
    using split_at_first [OF scope_name_no_colon scope_name_no_colon] owner_text_inject [of a b]
    by (auto simp: scope_name_inject)
  show ?thesis
    unfolding document_address_key_eq
    using split_at_first [OF assms] split_at_first [OF bar bar] mid family_text_inject by auto
qed

text \<open>
  Two documents share an index key exactly if kind, scope, scope owner and family key all
  match, provided no kind contains the separator; with the separator in a kind two different
  documents do share a key, so the identity then is not the one the records declare.
\<close>

theorem document_key_identity:
  "(CHR ''|'' \<notin> set kind \<and> CHR ''|'' \<notin> set kind' \<longrightarrow>
     (document_address_key kind a = document_address_key kind' b \<longleftrightarrow>
      kind = kind' \<and> address_scope a = address_scope b \<and> address_owner a = address_owner b \<and>
      ad_key a = ad_key b)) \<and>
   document_address_key ''a'' \<lparr>ad_conversation = None, ad_task = None, ad_key = Some ''x|session:session|singleton''\<rparr> =
   document_address_key ''a|session:session|family:x'' \<lparr>ad_conversation = None, ad_task = None, ad_key = None\<rparr>"
proof (rule conjI)
  show "document_address_key ''a'' \<lparr>ad_conversation = None, ad_task = None, ad_key = Some ''x|session:session|singleton''\<rparr> =
   document_address_key ''a|session:session|family:x'' \<lparr>ad_conversation = None, ad_task = None, ad_key = None\<rparr>"
    by (simp add: document_address_key_def address_scope_def)
qed (use document_key_inject in blast)

theorem document_key_identity_witness:
  "document_address_key ''plan'' \<lparr>ad_conversation = Some 7, ad_task = None, ad_key = None\<rparr> \<noteq>
   document_address_key ''plan'' \<lparr>ad_conversation = None, ad_task = Some 7, ad_key = None\<rparr>"
  using document_key_identity [THEN conjunct1, of "''plan''" "''plan''"
      "\<lparr>ad_conversation = Some 7, ad_task = None, ad_key = None\<rparr>"
      "\<lparr>ad_conversation = None, ad_task = Some 7, ad_key = None\<rparr>"]
  by (simp add: address_scope_def)

end
