(* ===== verification/Storage_Reads.thy ===== *)
theory Storage_Reads
  imports Storage_Laws Document_Key
begin

text \<open>
  The storage as its clients see it: the states its public operations reach, and what reads
  return there. Every property of the durable storage is stated here.
\<close>

section \<open>Reachable storages\<close>

text \<open>
  One public operation. A batch is restored at a sequence that no batch has used yet, which is
  the order in which a journal is replayed; a commit takes the next sequence.
\<close>

inductive storage_step :: "storage \<Rightarrow> storage \<Rightarrow> bool" where
  step_commit: "storage_step s (fst (commit s ws))"
| step_apply_at: "st_next_seq s \<le> seq \<Longrightarrow> storage_step s (fst (apply_at s ws seq))"
| step_restore: "st_next_seq s \<le> seq \<Longrightarrow> storage_step s (fst (restore s ws seq))"
| step_validate: "storage_step s (fst (storage_validate s ws seq))"
| step_marks: "storage_step s (fst (restore_high_water_marks s i seq))"
| step_mint: "storage_step s (fst (mint_id s))"
| step_reserve: "storage_step s (fst (reserve_id s))"
| step_close: "storage_step s (close_storage s)"

inductive storage_reaches :: "storage \<Rightarrow> storage \<Rightarrow> bool" where
  reach_refl: "storage_reaches s s"
| reach_step: "storage_reaches s t \<Longrightarrow> storage_step t u \<Longrightarrow> storage_reaches s u"

definition reachable_storage :: "storage \<Rightarrow> bool" where
  "reachable_storage s \<longleftrightarrow> storage_reaches storage_init s"

text \<open>
  Every operation either installs a batch at a new sequence or leaves the tables alone and
  only moves the counters up.
\<close>

lemma storage_step_cases:
  assumes "storage_step s t"
  obtains (batch) ws seq consume n where "storage_apply s ws seq consume = Inr (t, n)" "st_next_seq s \<le> seq"
    | (counters) i seq c where "t = s\<lparr>st_next_id := i, st_next_seq := seq, st_closed := c\<rparr>"
        "st_next_id s \<le> i" "st_next_seq s \<le> seq" "st_closed s \<longrightarrow> c"
proof -
  have same: thesis if "t = s"
    by (rule counters [of "st_closed s" "st_next_seq s" "st_next_id s"]) (use that in simp_all)
  show thesis
    using assms
  proof (cases rule: storage_step.cases)
    case (step_commit ws)
    then show ?thesis using same batch [of ws "st_next_seq s" True]
      by (auto simp: commit_def apply_next_def installed_def split: sum.splits)
  next
    case (step_apply_at seq ws)
    then show ?thesis using same batch [of ws seq True]
      by (auto simp: apply_at_def installed_def split: sum.splits)
  next
    case (step_restore seq ws)
    then show ?thesis using same batch [of ws seq False]
      by (auto simp: restore_def split: sum.splits)
  next
    case (step_validate ws seq)
    then show ?thesis using same by (simp add: storage_validate_def)
  next
    case (step_marks i seq)
    show ?thesis
      by (rule counters [of "st_closed s" "if st_closed s then st_next_seq s else max (st_next_seq s) seq"
            "if st_closed s then st_next_id s else max (st_next_id s) i"])
        (use step_marks in \<open>simp_all add: restore_high_water_marks_def\<close>)
  next
    case step_mint
    show ?thesis
      by (rule counters [of "st_closed s" "st_next_seq s" "if st_closed s then st_next_id s else st_next_id s + 1"])
        (use step_mint in \<open>simp_all add: mint_id_def reserve_id_def\<close>)
  next
    case step_reserve
    show ?thesis
      by (rule counters [of "st_closed s" "st_next_seq s" "st_next_id s + 1"])
        (use step_reserve in \<open>simp_all add: reserve_id_def\<close>)
  next
    case step_close
    show ?thesis
      by (rule counters [of True "st_next_seq s" "st_next_id s"])
        (use step_close in \<open>simp_all add: close_storage_def\<close>)
  qed
qed

lemma storage_init_ok: "storage_ok storage_init"
  by (simp add: storage_ok_def storage_inv_def storage_init_def conversations_ok_def entries_ok_def
      documents_ok_def single_incarnation_def tasks_ok_def submissions_ok_def ids_ok_def used_ids_def
      omap_keys_def)

lemma storage_step_keeps: "storage_step s t \<Longrightarrow> storage_ok s \<Longrightarrow> storage_ok t"
proof (elim storage_step_cases)
  fix i seq c
  assume "storage_ok s" "t = s\<lparr>st_next_id := i, st_next_seq := seq, st_closed := c\<rparr>"
    "st_next_id s \<le> i" "st_next_seq s \<le> seq"
  then show "storage_ok t"
    unfolding storage_ok_def by (elim storage_inv_frame) simp_all
qed (rule storage_apply_keeps)

lemma storage_reaches_keeps: "storage_reaches s t \<Longrightarrow> storage_ok s \<Longrightarrow> storage_ok t"
  by (induction rule: storage_reaches.induct) (auto intro: storage_step_keeps)

lemma reachable_ok: "reachable_storage s \<Longrightarrow> storage_ok s"
  using storage_reaches_keeps storage_init_ok by (simp add: reachable_storage_def)

lemma apply_write_next_id: "apply_write b s w = Inr t \<Longrightarrow> st_next_id s \<le> st_next_id t"
  by (auto simp: apply_write_def write_conversation_def write_entry_def write_task_def write_submission_def
      write_document_create_def write_document_change_def write_document_retire_def Let_def
      split: if_splits option.splits sum.splits)

lemma run_next_id: "fold_r (apply_write b) s ws = Inr t \<Longrightarrow> st_next_id s \<le> st_next_id t"
  by (induction ws arbitrary: s) (auto split: sum.splits dest!: apply_write_next_id intro: order_trans)

lemma storage_step_counters:
  assumes "storage_step s t"
  shows "st_next_id s \<le> st_next_id t \<and> st_next_seq s \<le> st_next_seq t"
  using assms
proof (cases rule: storage_step_cases)
  case (batch ws seq consume n)
  then obtain m where "fold_r (apply_write (batch_of s ws seq consume)) s ws = Inr m"
    "t = m\<lparr>st_next_seq := max (st_next_seq s) (seq + 1)\<rparr>"
    using storage_apply_fields by metis
  then show ?thesis using run_next_id by fastforce
qed simp

lemma storage_reaches_counters:
  "storage_reaches s t \<Longrightarrow> st_next_id s \<le> st_next_id t \<and> st_next_seq s \<le> st_next_seq t"
  by (induction rule: storage_reaches.induct) (auto dest!: storage_step_counters)


section \<open>Reading documents\<close>

lemma base_index_append: "n \<le> length qs \<Longrightarrow> base_index (qs @ rs) n = base_index qs n"
  by (induction n) (auto simp: nth_append)

lemma base_index_le: "base_index qs n \<le> n"
  by (induction n) auto

text \<open>Replaying from the newest base gives the value the newest revision cached.\<close>

lemma replay_newest:
  "revisions_ok qs \<Longrightarrow> qs \<noteq> [] \<Longrightarrow>
   let index = base_index qs (length qs) in
     0 < index \<and> rv_version (qs ! (index - 1)) = rv_version (last qs) \<and>
     apply_immutable_batches (rv_value (qs ! (index - 1))) (map rv_ops (drop index qs)) = Inr (rv_value (last qs))"
proof (induction qs rule: rev_induct)
  case (snoc q qs)
  show ?case
  proof (cases "rv_base q")
    case True
    then show ?thesis by (simp add: Let_def apply_immutable_batches_def)
  next
    case False
    then have ne: "qs \<noteq> []" using snoc.prems by (cases qs) (auto simp: revisions_ok_def)
    have step: "follows (last qs) q"
    proof -
      have "Suc (length qs - 1) < length (qs @ [q])" using ne by simp
      then have "follows ((qs @ [q]) ! (length qs - 1)) ((qs @ [q]) ! Suc (length qs - 1))"
        using snoc.prems(1) unfolding revisions_ok_def by blast
      then show ?thesis using ne by (simp add: nth_append last_conv_nth)
    qed
    have "revisions_ok qs"
      using snoc.prems(1) ne unfolding revisions_ok_def
      by (auto simp: nth_append less_Suc_eq)
    note IH = snoc.IH [OF this ne, unfolded Let_def]
    have index: "base_index (qs @ [q]) (length (qs @ [q])) = base_index qs (length qs)"
      using False by (simp add: base_index_append)
    have le: "base_index qs (length qs) \<le> length qs" by (rule base_index_le)
    have nth: "(qs @ [q]) ! (base_index qs (length qs) - 1) = qs ! (base_index qs (length qs) - 1)"
    proof -
      have "base_index qs (length qs) - 1 < length qs" using le ne by (cases qs) auto
      then show ?thesis by (simp add: nth_append)
    qed
    have dr: "map rv_ops (drop (base_index qs (length qs)) (qs @ [q])) =
        map rv_ops (drop (base_index qs (length qs)) qs) @ [rv_ops q]"
      using le by simp
    show ?thesis
      using IH step False unfolding index Let_def nth dr apply_batches_snoc by (simp add: follows_def)
  qed
qed simp

lemma revisions_ok_take: "revisions_ok qs \<Longrightarrow> revisions_ok (take k qs)"
  by (cases "k = 0") (auto simp: revisions_ok_def)

text \<open>The revisions a read at a point sees.\<close>

definition revisions_at :: "stored_document_state \<Rightarrow> document_point \<Rightarrow> document_revision list" where
  "revisions_at d pt =
     (case pt of None \<Rightarrow> ds_revisions d
      | Some n \<Rightarrow> takeWhile (\<lambda>q. rv_seq q \<le> n) (ds_revisions d))"

lemma materialize_value:
  assumes d: "document_ok bound d" and alive: "is_alive_at (ds_record d) pt"
    and hist: "pt \<noteq> None \<Longrightarrow> \<not> document_is_current_only (ds_record d)"
  shows "\<exists>m. materialize d pt = Inr (Some m) \<and> sd_record m = ds_record d \<and>
    sd_document_value m = rv_value (last (revisions_at d pt)) \<and>
    sd_version m = rv_version (last (revisions_at d pt))"
proof -
  have "\<exists>k. revisions_at d pt = take k (ds_revisions d)"
  proof (cases pt)
    case None
    then show ?thesis by (auto simp: revisions_at_def intro: exI [of _ "length (ds_revisions d)"])
  next
    case (Some n)
    show ?thesis
      by (rule exI [of _ "length (takeWhile (\<lambda>q. rv_seq q \<le> n) (ds_revisions d))"])
        (simp add: Some revisions_at_def flip: takeWhile_eq_take)
  qed
  then have ok: "revisions_ok (revisions_at d pt)"
    using d revisions_ok_take by (auto simp: document_ok_def)
  have ne: "revisions_at d pt \<noteq> []"
  proof (cases pt)
    case None
    then show ?thesis using d alive by (simp add: revisions_at_def document_ok_def is_alive_at_def)
  next
    case (Some n)
    then have "rv_seq (hd (ds_revisions d)) \<le> n" "ds_revisions d \<noteq> []"
      using d alive hist by (auto simp: document_ok_def is_alive_at_def)
    then show ?thesis using Some by (cases "ds_revisions d") (auto simp: revisions_at_def)
  qed
  have go: "\<not> (pt \<noteq> None \<and> document_is_current_only (ds_record d))" using hist by blast
  show ?thesis
    using replay_newest [OF ok ne] alive go
    unfolding materialize_def revisions_at_def [symmetric] by (simp add: Let_def)
qed

lemma storage_ok_document:
  "storage_ok s \<Longrightarrow> omap_find (st_documents s) i = Some d \<Longrightarrow>
   document_ok (st_next_seq s) d \<and> dr_id (ds_record d) = i"
  using storage_invD(3) [of "st_next_seq s" "{}" s] by (simp add: storage_ok_def documents_ok_def)

text \<open>
  An as-of read does not see what a batch with a later sequence adds. The record it returns is
  the stored one, so the only trace a later batch leaves is the retirement mark.
\<close>

definition forget_retirement ::
    "(storage_error, stored_document option) result \<Rightarrow> (storage_error, stored_document option) result" where
  "forget_retirement =
     map_sum id (map_option (\<lambda>m. m\<lparr>sd_record := (sd_record m)\<lparr>dr_retired_at := None\<rparr>\<rparr>))"

lemma materialize_forget:
  "forget_retirement (materialize d pt) =
     (if pt \<noteq> None \<and> document_is_current_only (ds_record d) then Inl (NoHistory (dr_id (ds_record d)))
      else if \<not> is_alive_at (ds_record d) pt then Inr None
      else let revisions = revisions_at d pt; index = base_index revisions (length revisions)
           in if index = 0 then Inl (BaseMissing (dr_id (ds_record d)))
              else (case apply_immutable_batches (rv_value (revisions ! (index - 1))) (map rv_ops (drop index revisions)) of
                      Inl e \<Rightarrow> Inl (DeltaFailed e)
                    | Inr v \<Rightarrow>
                        Inr (Some \<lparr>sd_record = (ds_record d)\<lparr>dr_retired_at := None\<rparr>,
                           sd_version = rv_version (revisions ! (index - 1)), sd_document_value = v,
                           sd_deltas_since_base = length (drop index revisions)\<rparr>)))"
  unfolding materialize_def revisions_at_def [symmetric] forget_retirement_def
  by (simp add: Let_def split: sum.split)

lemma materialize_extends:
  assumes ext: "document_extends seq d e" and pt: "n < seq"
  shows "forget_retirement (materialize e (Some n)) = forget_retirement (materialize d (Some n))"
proof -
  obtain retired where r: "ds_record e = (ds_record d)\<lparr>dr_retired_at := retired\<rparr>"
      "retired = dr_retired_at (ds_record d) \<or> dr_retired_at (ds_record d) = None \<and> retired = Some seq"
    using ext by (auto simp: document_extends_def)
  have alive: "is_alive_at (ds_record e) (Some n) = is_alive_at (ds_record d) (Some n)"
    using r pt by (auto simp: is_alive_at_def split: option.splits)
  have same: "dr_id (ds_record e) = dr_id (ds_record d)"
    "document_is_current_only (ds_record e) = document_is_current_only (ds_record d)"
    "(ds_record e)\<lparr>dr_retired_at := None\<rparr> = (ds_record d)\<lparr>dr_retired_at := None\<rparr>"
    by (simp_all add: r(1))
  show ?thesis
  proof (cases "document_is_current_only (ds_record d)")
    case False
    then obtain qs where "ds_revisions e = ds_revisions d @ qs" "\<forall>q\<in>set qs. rv_seq q = seq"
      using ext by (auto simp: document_extends_def)
    then have "revisions_at e (Some n) = revisions_at d (Some n)"
      using pt by (cases qs) (auto simp: revisions_at_def takeWhile_tail)
    then show ?thesis by (simp only: materialize_forget alive same)
  qed (simp add: materialize_forget same)
qed

lemma storage_step_documents:
  assumes "storage_step s t"
  shows "\<exists>seq. st_next_seq s \<le> seq \<and> documents_extend seq s t"
  using assms
proof (cases rule: storage_step_cases)
  case (batch ws seq consume n)
  then obtain m where "fold_r (apply_write (batch_of s ws seq consume)) s ws = Inr m"
    "t = m\<lparr>st_next_seq := max (st_next_seq s) (seq + 1)\<rparr>"
    using storage_apply_fields by metis
  then have "documents_extend seq s m" "st_documents t = st_documents m" using run_extends by fastforce+
  then have "documents_extend seq s t" by (simp add: documents_extend_def)
  then show ?thesis using batch(2) by blast
qed (auto intro!: documents_extend_same exI [of _ "st_next_seq s"])

lemma storage_reaches_documents:
  assumes "storage_reaches s t" "n < st_next_seq s" "omap_find (st_documents s) i = Some d"
  shows "\<exists>e. omap_find (st_documents t) i = Some e \<and>
    forget_retirement (materialize e (Some n)) = forget_retirement (materialize d (Some n))"
  using assms
proof (induction rule: storage_reaches.induct)
  case (reach_step s t u)
  then obtain e where e: "omap_find (st_documents t) i = Some e"
    "forget_retirement (materialize e (Some n)) = forget_retirement (materialize d (Some n))" by blast
  obtain seq where seq: "st_next_seq t \<le> seq" "documents_extend seq t u"
    using storage_step_documents [OF reach_step.hyps(2)] by blast
  then obtain f where "omap_find (st_documents u) i = Some f" "document_extends seq e f"
    using e(1) unfolding documents_extend_def by blast
  moreover have "n < seq" using storage_reaches_counters [OF reach_step.hyps(1)] reach_step.prems(1) seq(1) by simp
  ultimately show ?case using materialize_extends e(2) by metis
qed simp


section \<open>Reading entries\<close>

lemma storage_ok_entry:
  "storage_ok s \<Longrightarrow> omap_find (st_entries s) i = Some e \<Longrightarrow> en_id (es_record e) = i"
  using storage_invD(2) [of "st_next_seq s" "{}" s] by (simp add: storage_ok_def entries_ok_def)

definition below_cutoff :: "int option \<Rightarrow> int \<Rightarrow> bool" where
  "below_cutoff cutoff i = (case cutoff of None \<Rightarrow> True | Some c \<Rightarrow> i \<le> c)"

lemma entries_upto_eq:
  "entries_upto s c cutoff =
     map (\<lambda>i. es_record (the (omap_find (st_entries s) i)))
       (filter (\<lambda>i. below_cutoff cutoff i \<and> omap_find (st_entries s) i \<noteq> None) (rev (st_entry_ids s c)))"
proof -
  have "concat (map (\<lambda>i. if (case cutoff of None \<Rightarrow> False | Some c \<Rightarrow> i > c) then []
           else (case omap_find (st_entries s) i of None \<Rightarrow> [] | Some e \<Rightarrow> [es_record e])) ids) =
      map (\<lambda>i. es_record (the (omap_find (st_entries s) i)))
        (filter (\<lambda>i. below_cutoff cutoff i \<and> omap_find (st_entries s) i \<noteq> None) ids)" for ids
    by (induction ids) (auto simp: below_cutoff_def split: option.splits)
  then show ?thesis by (simp add: entries_upto_def)
qed

lemma entries_upto_mem:
  assumes ok: "storage_ok s" and e: "omap_find (st_entries s) i = Some e"
  shows "es_record e \<in> set (entries_upto s c cutoff) \<longleftrightarrow> en_conversation (es_record e) = c \<and> below_cutoff cutoff i"
proof -
  have eo: "entries_ok s" using ok by (simp add: storage_ok_def storage_inv_def)
  have same: "j = i" if "omap_find (st_entries s) j = Some f" "es_record f = es_record e" for j f
    using storage_ok_entry [OF ok that(1)] storage_ok_entry [OF ok e] that(2) by simp
  have "i \<in> set (st_entry_ids s c) \<longleftrightarrow> en_conversation (es_record e) = c"
    using eo e by (simp add: entries_ok_def)
  moreover have "es_record e \<in> set (entries_upto s c cutoff) \<longleftrightarrow> i \<in> set (st_entry_ids s c) \<and> below_cutoff cutoff i"
  proof
    assume "es_record e \<in> set (entries_upto s c cutoff)"
    then obtain j f where j: "j \<in> set (st_entry_ids s c)" "below_cutoff cutoff j"
      "omap_find (st_entries s) j = Some f" "es_record e = es_record f"
      by (auto simp: entries_upto_eq)
    then show "i \<in> set (st_entry_ids s c) \<and> below_cutoff cutoff i" using same [OF j(3)] by simp
  next
    assume "i \<in> set (st_entry_ids s c) \<and> below_cutoff cutoff i"
    then show "es_record e \<in> set (entries_upto s c cutoff)"
      using e by (auto simp: entries_upto_eq intro!: rev_image_eqI [of i])
  qed
  ultimately show ?thesis by blast
qed

lemma entries_upto_stored:
  assumes ok: "storage_ok s" and r: "r \<in> set (entries_upto s c cutoff)"
  shows "en_conversation r = c \<and> (\<exists>e. omap_find (st_entries s) (en_id r) = Some e \<and> es_record e = r)"
proof -
  have eo: "entries_ok s" using ok by (simp add: storage_ok_def storage_inv_def)
  obtain i e where i: "i \<in> set (st_entry_ids s c)" "omap_find (st_entries s) i = Some e" "r = es_record e"
    using r by (auto simp: entries_upto_eq)
  then show ?thesis using eo storage_ok_entry [OF ok i(2)] unfolding entries_ok_def by auto
qed

lemma entries_upto_ids:
  assumes ok: "storage_ok s"
  shows "distinct (map en_id (entries_upto s c cutoff))"
proof -
  have "map en_id (entries_upto s c cutoff) =
      filter (\<lambda>i. below_cutoff cutoff i \<and> omap_find (st_entries s) i \<noteq> None) (rev (st_entry_ids s c))"
    by (auto simp: entries_upto_eq storage_ok_entry [OF ok] intro!: map_idI)
  moreover have "distinct (st_entry_ids s c)"
    using ok by (simp add: storage_ok_def storage_inv_def entries_ok_def)
  ultimately show ?thesis by simp
qed

text \<open>
  The walk along the ancestry: from a conversation at some place of the creation order it never
  meets a conversation twice, and what it collects are the entries the visibility test accepts.
\<close>

definition scan_agrees :: "storage \<Rightarrow> nat \<Rightarrow> int set \<Rightarrow> int \<Rightarrow> int option \<Rightarrow> entry_record list \<Rightarrow> bool" where
  "scan_agrees s k visited current cutoff rs \<longleftrightarrow>
     scan_entries_loop s visited current cutoff = Inr rs \<and> distinct (map en_id rs) \<and>
     (\<forall>r\<in>set rs. en_conversation r \<in> set (take (Suc k) (st_conversation_ids s)) \<and>
        (\<exists>e. omap_find (st_entries s) (en_id r) = Some e \<and> es_record e = r)) \<and>
     (\<forall>i e. omap_find (st_entries s) i = Some e \<longrightarrow>
        (es_record e \<in> set rs \<longleftrightarrow>
         entry_visible_loop (st_conversations s) (en_conversation (es_record e)) i visited current cutoff))"

lemma scan_loop_root:
  assumes ok: "storage_ok s" and k: "k < length (st_conversation_ids s)" "current = st_conversation_ids s ! k"
    and c: "omap_find (st_conversations s) current = Some r" "cv_parent r = None" and v: "current \<notin> visited"
  shows "scan_agrees s k visited current cutoff (entries_upto s current cutoff)"
proof -
  have cur: "current \<in> set (take (Suc k) (st_conversation_ids s))" using k by (simp add: take_Suc_nth)
  have run: "scan_entries_loop s visited current cutoff = Inr (entries_upto s current cutoff)"
    using c v by (subst scan_entries_loop.simps) simp
  have "es_record e \<in> set (entries_upto s current cutoff) \<longleftrightarrow>
      entry_visible_loop (st_conversations s) (en_conversation (es_record e)) i visited current cutoff"
    if "omap_find (st_entries s) i = Some e" for i e
    using c v entries_upto_mem [OF ok that]
    by (subst entry_visible_loop.simps) (auto simp: below_cutoff_def split: option.splits)
  then show ?thesis
    unfolding scan_agrees_def using run cur entries_upto_ids [OF ok] entries_upto_stored [OF ok] by blast
qed

lemma scan_loop_fork:
  assumes ok: "storage_ok s" and k: "k < length (st_conversation_ids s)" "current = st_conversation_ids s ! k"
    and c: "omap_find (st_conversations s) current = Some r" "cv_parent r = Some (parent, last_entry)"
    and v: "current \<notin> visited" and j: "j < k"
    and older: "scan_agrees s j (insert current visited) parent (Some last_entry) older"
  shows "scan_agrees s k visited current cutoff (entries_upto s current cutoff @ older)"
proof -
  let ?ids = "st_conversation_ids s"
  have "distinct ?ids" using ok by (simp add: storage_ok_def storage_inv_def conversations_ok_def)
  then have new: "current \<notin> set (take (Suc j) ?ids)"
    using k j by (auto simp: in_set_conv_nth distinct_conv_nth)
  have sub: "set (take (Suc j) ?ids) \<subseteq> set (take (Suc k) ?ids)"
    by (rule set_take_subset_set_take) (use j in simp)
  have cur: "current \<in> set (take (Suc k) ?ids)" using k by (simp add: take_Suc_nth)
  note o = older [unfolded scan_agrees_def]
  have run: "scan_entries_loop s visited current cutoff = Inr (entries_upto s current cutoff @ older)"
    using o c v by (subst scan_entries_loop.simps) simp
  have conv: "en_conversation q \<noteq> current" if "q \<in> set older" for q
    using o that new by blast
  have "distinct (map en_id (entries_upto s current cutoff @ older))"
  proof -
    have False if pq: "p \<in> set (entries_upto s current cutoff)" "q \<in> set older" "en_id p = en_id q" for p q
    proof -
      obtain e f where "omap_find (st_entries s) (en_id p) = Some e" "es_record e = p"
        "omap_find (st_entries s) (en_id q) = Some f" "es_record f = q"
        using entries_upto_stored [OF ok pq(1)] o pq(2) by blast
      then have "p = q" using pq(3) by simp
      then show False using conv [OF pq(2)] entries_upto_stored [OF ok pq(1)] by simp
    qed
    then show ?thesis using o entries_upto_ids [OF ok] by auto
  qed
  moreover have "es_record e \<in> set (entries_upto s current cutoff @ older) \<longleftrightarrow>
      entry_visible_loop (st_conversations s) (en_conversation (es_record e)) i visited current cutoff"
    if e: "omap_find (st_entries s) i = Some e" for i e
  proof (cases "en_conversation (es_record e) = current")
    case True
    then show ?thesis using c v conv entries_upto_mem [OF ok e]
      by (subst entry_visible_loop.simps) (auto simp: below_cutoff_def split: option.splits)
  next
    case False
    then show ?thesis using c v o e entries_upto_mem [OF ok e]
      by (subst entry_visible_loop.simps) auto
  qed
  ultimately show ?thesis
    unfolding scan_agrees_def using run o sub cur entries_upto_stored [OF ok] by auto
qed

lemma scan_loop_agrees:
  assumes ok: "storage_ok s"
  shows "k < length (st_conversation_ids s) \<Longrightarrow>
    visited \<inter> set (take (Suc k) (st_conversation_ids s)) = {} \<Longrightarrow>
    \<exists>rs. scan_agrees s k visited (st_conversation_ids s ! k) cutoff rs"
proof (induction k arbitrary: visited cutoff rule: less_induct)
  case (less k)
  let ?ids = "st_conversation_ids s"
  have co: "conversations_ok s" using ok by (simp add: storage_ok_def storage_inv_def)
  have mem: "?ids ! k \<in> set ?ids" using less.prems(1) by simp
  then obtain r where r: "omap_find (st_conversations s) (?ids ! k) = Some r"
    using co by (fastforce simp: conversations_ok_def)
  have v: "?ids ! k \<notin> visited" using less.prems by (auto simp: take_Suc_nth)
  show ?case
  proof (cases "cv_parent r")
    case None
    then show ?thesis using scan_loop_root [OF ok less.prems(1) refl r None v] by blast
  next
    case (Some pa)
    obtain parent last_entry where pa: "pa = (parent, last_entry)" by (cases pa)
    have "parent \<in> set (take k ?ids)" using co r Some pa less.prems(1) unfolding conversations_ok_def by blast
    then obtain j where j: "j < k" "?ids ! j = parent" using less.prems(1) by (auto simp: in_set_conv_nth)
    have "?ids ! k \<notin> set (take (Suc j) ?ids)"
      using co j less.prems(1) by (auto simp: conversations_ok_def in_set_conv_nth distinct_conv_nth)
    moreover have "set (take (Suc j) ?ids) \<subseteq> set (take (Suc k) ?ids)"
      by (rule set_take_subset_set_take) (use j in simp)
    ultimately have "insert (?ids ! k) visited \<inter> set (take (Suc j) ?ids) = {}" using less.prems(2) by blast
    then obtain older where "scan_agrees s j (insert (?ids ! k) visited) parent (Some last_entry) older"
      using less.IH [of j "insert (?ids ! k) visited" "Some last_entry"] j less.prems(1) by auto
    then show ?thesis using scan_loop_fork [OF ok less.prems(1) refl r Some [unfolded pa] v j(1)] by blast
  qed
qed


lemma find_alive_Some:
  "find_alive m pt ids = Some r \<Longrightarrow>
   \<exists>i\<in>set ids. \<exists>d. omap_find m i = Some d \<and> is_alive_at (ds_record d) pt \<and> ds_record d = r"
  by (induction ids) (auto split: option.splits if_splits)

lemma find_alive_None:
  "find_alive m pt ids = None \<Longrightarrow> i \<in> set ids \<Longrightarrow> omap_find m i = Some d \<Longrightarrow> \<not> is_alive_at (ds_record d) pt"
  by (induction ids) (auto split: option.splits if_splits)

section \<open>Sample storages\<close>

definition blank_write :: "string \<Rightarrow> storage_write" where
  "blank_write ty =
     \<lparr>sw_type = ty, sw_conversation = None, sw_entry = None, sw_task = None, sw_submission = None,
      sw_document_record = None, sw_document_id = None, sw_copy_source = None, sw_document_version = 1,
      sw_document_value = None, sw_document_ops = []\<rparr>"

definition new_conversation :: "int \<Rightarrow> (int \<times> int) option \<Rightarrow> storage_write" where
  "new_conversation i parent =
     (blank_write ''conversation'')\<lparr>sw_conversation := Some \<lparr>cv_id = i, cv_parent = parent, cv_owner = None\<rparr>\<rparr>"

definition new_entry :: "int \<Rightarrow> int \<Rightarrow> storage_write" where
  "new_entry i c =
     (blank_write ''entry'')\<lparr>sw_entry := Some \<lparr>en_id = i, en_conversation = c, en_kind = ''note'', en_data = JNull,
        en_head = None, en_model = [], en_edits = [], en_by_task = None\<rparr>\<rparr>"

definition plan_record :: "int \<Rightarrow> int \<Rightarrow> document_record" where
  "plan_record i c =
     \<lparr>dr_id = i, dr_kind = ''plan'', dr_created_at = 0, dr_conversation = Some c, dr_task = None, dr_key = None,
      dr_history = RewindableHistory, dr_fork = ForkAsOf, dr_retired_at = None\<rparr>"

definition new_plan :: "int \<Rightarrow> int \<Rightarrow> json \<Rightarrow> storage_write" where
  "new_plan i c v =
     (blank_write ''document.create'')\<lparr>sw_document_record := Some (plan_record i c), sw_document_value := Some v\<rparr>"

definition change_plan :: "int \<Rightarrow> op list \<Rightarrow> storage_write" where
  "change_plan i ops = (blank_write ''document.change'')\<lparr>sw_document_id := Some i, sw_document_ops := ops\<rparr>"

definition sample_storage :: storage where
  "sample_storage = fst (commit storage_init [new_conversation 2 None, new_plan 3 2 (JBool False), new_entry 4 2])"

lemmas sample_writes = blank_write_def new_conversation_def new_entry_def plan_record_def new_plan_def change_plan_def

lemma sample_storage_reachable: "reachable_storage sample_storage"
  unfolding reachable_storage_def sample_storage_def
  by (rule reach_step [OF reach_refl step_commit])

lemma reaches_commit: "storage_reaches s (fst (commit s ws))"
  by (rule reach_step [OF reach_refl step_commit])

section \<open>Properties\<close>

text \<open>
  Identifiers and sequences are never reused: in every reachable storage a minted id is
  the id of no stored record and below every id minted later, and the sequence of a commit is
  below the sequence of every later commit.
\<close>

theorem ids_and_sequences_fresh:
  assumes "reachable_storage s"
  shows "(mint_id s = (s', Inr i) \<longrightarrow> i \<notin> used_ids s \<and>
      (\<forall>t t' j. storage_reaches s' t \<longrightarrow> mint_id t = (t', Inr j) \<longrightarrow> i < j)) \<and>
    (commit s ws = (s', Inr n) \<longrightarrow>
      (\<forall>t t' ws' m. storage_reaches s' t \<longrightarrow> commit t ws' = (t', Inr m) \<longrightarrow> n < m))"
proof (intro conjI impI allI)
  have ids: "ids_ok s" using reachable_ok [OF assms] by (simp add: storage_ok_def storage_inv_def)
  assume mint: "mint_id s = (s', Inr i)"
  then have i: "i = st_next_id s" "st_next_id s' = st_next_id s + 1"
    by (auto simp: mint_id_def reserve_id_def split: if_splits)
  show "i \<notin> used_ids s" using ids i by (auto simp: ids_ok_def)
  show "i < j" if "storage_reaches s' t" "mint_id t = (t', Inr j)" for t t' j
    using storage_reaches_counters [OF that(1)] that(2) i
    by (auto simp: mint_id_def reserve_id_def split: if_splits)
next
  fix t t' ws' m
  assume c: "commit s ws = (s', Inr n)" and reach: "storage_reaches s' t" and d: "commit t ws' = (t', Inr m)"
  have step: "st_next_seq q' = k + 1 \<and> k = st_next_seq q" if "commit q vs = (q', Inr k)" for q q' vs k
  proof -
    have "storage_apply q vs (st_next_seq q) True = Inr (q', k)"
      using that by (auto simp: commit_def apply_next_def installed_def split: sum.splits)
    then show ?thesis by (rule storage_apply_fields) auto
  qed
  show "n < m" using step [OF c] step [OF d] storage_reaches_counters [OF reach] by simp
qed

theorem ids_and_sequences_fresh_witness:
  "case mint_id sample_storage of (s', Inl e) \<Rightarrow> False | (s', Inr i) \<Rightarrow> i \<notin> used_ids sample_storage"
proof -
  obtain s' where m: "mint_id sample_storage = (s', Inr (st_next_id sample_storage))"
  proof -
    have "\<not> st_closed sample_storage" by code_simp
    then show thesis using that by (simp add: mint_id_def reserve_id_def)
  qed
  show ?thesis
    using ids_and_sequences_fresh [OF sample_storage_reachable, of s' "st_next_id sample_storage"] m by simp
qed

text \<open>
  C7. History is immutable: whatever operations follow, reading a document that existed as of
  a commit that had already happened gives the same answer (the content, its version, or the
  refusal), except that the record it carries may meanwhile be marked as retired.
\<close>

theorem as_of_reads_immutable:
  assumes "storage_reaches s t" "\<not> st_closed t" "\<not> st_closed s"
    "omap_find (st_documents s) i = Some d" "n < st_next_seq s"
  shows "forget_retirement (read_document t i (Some n)) = forget_retirement (read_document s i (Some n))"
  using storage_reaches_documents [OF assms(1,5,4)] assms by (auto simp: read_document_def)

theorem as_of_reads_immutable_witness:
  "forget_retirement (read_document (fst (commit sample_storage [change_plan 3 [ReplaceOp (JBool True)]])) 3 (Some 1)) =
   forget_retirement (read_document sample_storage 3 (Some 1))"
proof -
  have d: "omap_find (st_documents sample_storage) 3 = Some \<lparr>ds_record = (plan_record 3 2)\<lparr>dr_created_at := 1\<rparr>,
      ds_revisions = [\<lparr>rv_seq = 1, rv_version = 1, rv_base = True, rv_value = JBool False, rv_ops = []\<rparr>]\<rparr>"
    by code_simp
  have "\<not> st_closed (fst (commit sample_storage [change_plan 3 [ReplaceOp (JBool True)]]))" by code_simp
  moreover have "\<not> st_closed sample_storage" "1 < st_next_seq sample_storage" by code_simp+
  ultimately show ?thesis
    using as_of_reads_immutable [OF reaches_commit _ _ d, of "[change_plan 3 [ReplaceOp (JBool True)]]" 1] by simp
qed

text \<open>
  C8. A delta is stored exactly if it continues the document's version and applies to its
  current content, and reading the document afterwards gives the content it produces, which
  the read rebuilds from the newest base and all deltas after it.
\<close>

theorem change_then_read:
  assumes s: "reachable_storage s" and m: "read_document s i None = Inr (Some m)"
    and w: "sw_type w = ''document.change''" "sw_document_id w = Some i" "sw_document_ops w \<noteq> []"
  shows "(case commit s [w] of
      (t, Inl e) \<Rightarrow> t = s \<and>
        \<not> (sd_version m = sw_document_version w \<and> is_ok (apply_immutable (sd_document_value m) (sw_document_ops w)))
    | (t, Inr n) \<Rightarrow> n = st_next_seq s \<and> sd_version m = sw_document_version w \<and>
        (\<exists>m'. read_document t i None = Inr (Some m') \<and> sd_version m' = sw_document_version w \<and>
           apply_immutable (sd_document_value m) (sw_document_ops w) = Inr (sd_document_value m')))"
proof -
  have ok: "storage_ok s" by (rule reachable_ok [OF s])
  obtain d where d: "omap_find (st_documents s) i = Some d" "materialize d None = Inr (Some m)" "\<not> st_closed s"
    using m by (auto simp: read_document_def split: if_splits option.splits)
  have alive: "is_alive_at (ds_record d) None"
    using d(2) by (auto simp: materialize_def split: if_splits)
  have dok: "document_ok (st_next_seq s) d" using storage_ok_document [OF ok d(1)] by simp
  have last_m: "sd_document_value m = rv_value (last (ds_revisions d))" "sd_version m = rv_version (last (ds_revisions d))"
    "ds_revisions d \<noteq> []" "dr_retired_at (ds_record d) = None"
    using materialize_value [OF dok alive] d(2) dok alive
    by (auto simp: revisions_at_def document_ok_def is_alive_at_def)
  let ?b = "batch_of s [w] (st_next_seq s) True"
  show ?thesis
  proof (cases "change_revisions ?b d w")
    case (Inl e)
    then have "commit s [w] = (s, Inl e)"
      using w d last_m by (simp add: commit_def apply_next_def storage_apply_def apply_write_def
          write_document_change_def installed_def)
    moreover have "\<not> (sd_version m = sw_document_version w \<and> is_ok (apply_immutable (sd_document_value m) (sw_document_ops w)))"
      using Inl w(3) last_m by (auto simp: change_revisions_def is_ok_iff split: if_splits sum.splits)
    ultimately show ?thesis by simp
  next
    case (Inr qs)
    let ?e = "d\<lparr>ds_revisions := qs\<rparr>"
    obtain t where t: "commit s [w] = (t, Inr (st_next_seq s))" "omap_find (st_documents t) i = Some ?e"
      "\<not> st_closed t"
      using Inr w d last_m by (simp add: commit_def apply_next_def storage_apply_def apply_write_def
          write_document_change_def installed_def Let_def)
    have "document_ok (st_next_seq s + 1) ?e"
      using change_revisions_ok [OF document_ok_mono [OF dok] Inr] by simp
    moreover have "is_alive_at (ds_record ?e) None" using alive by simp
    ultimately obtain m' where m': "materialize ?e None = Inr (Some m')" "sd_document_value m' = rv_value (last qs)"
      "sd_version m' = rv_version (last qs)"
      using materialize_value [of "st_next_seq s + 1" ?e None] by (auto simp: revisions_at_def)
    have "sd_version m = sw_document_version w \<and> rv_version (last qs) = sw_document_version w \<and>
        apply_immutable (sd_document_value m) (sw_document_ops w) = Inr (rv_value (last qs))"
      using Inr w(3) last_m by (auto simp: change_revisions_def split: if_splits sum.splits)
    then show ?thesis using t m' by (simp add: read_document_def)
  qed
qed

theorem change_then_read_witness:
  "\<exists>m'. read_document (fst (commit sample_storage [change_plan 3 [ReplaceOp (JBool True)]])) 3 None = Inr (Some m') \<and>
     sd_document_value m' = JBool True"
proof -
  let ?w = "change_plan 3 [ReplaceOp (JBool True)]"
  let ?m = "\<lparr>sd_record = (plan_record 3 2)\<lparr>dr_created_at := 1\<rparr>, sd_version = 1, sd_document_value = JBool False,
    sd_deltas_since_base = 0\<rparr>"
  have m: "read_document sample_storage 3 None = Inr (Some ?m)" by code_simp
  have w: "sw_type ?w = ''document.change''" "sw_document_id ?w = Some 3" "sw_document_ops ?w \<noteq> []" by code_simp+
  have ok: "snd (commit sample_storage [?w]) = Inr 2" by code_simp
  have ap: "apply_immutable (sd_document_value ?m) (sw_document_ops ?w) = Inr (JBool True)" by code_simp
  obtain t where t: "commit sample_storage [?w] = (t, Inr 2)" using ok by (cases "commit sample_storage [?w]") auto
  show ?thesis
    using change_then_read [OF sample_storage_reachable m w] ap unfolding t by auto
qed

text \<open>
  C9. An address has at most one current document: in every reachable storage, looking up an
  address finds a record exactly if it is the record of an unretired document with that
  address key, so no two unretired documents share a key.
\<close>

theorem current_document_unique:
  assumes "reachable_storage s" "\<not> st_closed s"
  shows "find_document s kind a None = Inr (Some r) \<longleftrightarrow>
    (\<exists>i d. omap_find (st_documents s) i = Some d \<and> document_key d = document_address_key kind a \<and>
       ds_record d = r \<and> dr_retired_at r = None)" (is "_ \<longleftrightarrow> ?current r")
proof -
  let ?key = "document_address_key kind a"
  let ?found = "find_alive (st_documents s) None (rev (st_document_ids s ?key))"
  have inv: "documents_ok (st_next_seq s) s" "single_incarnation {} s"
    using reachable_ok [OF assms(1)] by (simp_all add: storage_ok_def storage_inv_def)
  have index: "i \<in> set (st_document_ids s ?key)"
    if "omap_find (st_documents s) i = Some d" "document_key d = ?key" for i d
    using inv(1) that by (auto simp: documents_ok_def)
  have found: "?current q" if q: "?found = Some q" for q
  proof -
    obtain i d where "i \<in> set (st_document_ids s ?key)" "omap_find (st_documents s) i = Some d"
      "dr_retired_at (ds_record d) = None" "ds_record d = q"
      using find_alive_Some [OF q] by (auto simp: is_alive_at_def)
    then show ?thesis using inv(1) by (fastforce simp: documents_ok_def)
  qed
  have "?found = Some r" if r: "?current r"
  proof (cases ?found)
    case None
    then show ?thesis using r index find_alive_None [OF None] by (fastforce simp: is_alive_at_def)
  next
    case (Some q)
    then show ?thesis using found [OF Some] r single_incarnationD [OF inv(2)] by fastforce
  qed
  then show ?thesis using found assms(2) by (auto simp: find_document_def open_read_def)
qed

theorem current_document_unique_witness:
  "find_document sample_storage ''plan'' \<lparr>ad_conversation = Some 2, ad_task = None, ad_key = None\<rparr> None =
   Inr (Some ((plan_record 3 2)\<lparr>dr_created_at := 1\<rparr>))"
proof -
  let ?d = "\<lparr>ds_record = (plan_record 3 2)\<lparr>dr_created_at := 1\<rparr>,
      ds_revisions = [\<lparr>rv_seq = 1, rv_version = 1, rv_base = True, rv_value = JBool False, rv_ops = []\<rparr>]\<rparr>"
  have "\<not> st_closed sample_storage" by code_simp
  moreover have "omap_find (st_documents sample_storage) 3 = Some ?d" by code_simp
  moreover have "document_key ?d = document_address_key ''plan'' \<lparr>ad_conversation = Some 2, ad_task = None, ad_key = None\<rparr>"
    by code_simp
  moreover have "dr_retired_at ((plan_record 3 2)\<lparr>dr_created_at := 1\<rparr>) = None" by code_simp
  ultimately show ?thesis
    by (subst current_document_unique [OF sample_storage_reachable]) fastforce+
qed

lemma scan_visible:
  assumes ok: "storage_ok s" and "\<not> st_closed s" "omap_find (st_conversations s) c \<noteq> None"
  shows "\<exists>rs. (\<forall>limit. scan_entries s c limit = Inr (take limit rs)) \<and>
    sorted_wrt (\<lambda>p q. en_id q < en_id p) rs \<and>
    (\<forall>r. r \<in> set rs \<longleftrightarrow> (\<exists>e. omap_find (st_entries s) (en_id r) = Some e \<and> es_record e = r \<and>
       entry_visible c (en_id r) (st_conversations s) (st_entries s)))"
proof -
  have "c \<in> set (st_conversation_ids s)"
    using ok assms(3) by (simp add: storage_ok_def storage_inv_def conversations_ok_def)
  then obtain k where "k < length (st_conversation_ids s)" "c = st_conversation_ids s ! k"
    by (auto simp: in_set_conv_nth)
  then obtain rs where rs: "scan_agrees s k {} c None rs"
    using scan_loop_agrees [OF ok] by fastforce
  note r = rs [unfolded scan_agrees_def]
  let ?out = "rev (sort_key en_id rs)"
  have "sorted_wrt (<) (map en_id (sort_key en_id rs))"
    using r by (simp add: strict_sorted_iff distinct_map inj_on_def)
  then have "sorted_wrt (\<lambda>p q. en_id q < en_id p) ?out"
    by (simp add: sorted_wrt_rev sorted_wrt_map)
  moreover have "scan_entries s c limit = Inr (take limit ?out)" for limit
    using r assms(2) by (simp add: scan_entries_def)
  moreover have "q \<in> set ?out \<longleftrightarrow> (\<exists>e. omap_find (st_entries s) (en_id q) = Some e \<and> es_record e = q \<and>
       entry_visible c (en_id q) (st_conversations s) (st_entries s))" for q
    using r by (auto simp: entry_visible_def)
  ultimately show ?thesis by blast
qed

text \<open>
  C10. Listing a conversation and testing visibility agree: in every reachable storage the
  ancestry of a conversation is complete and has no cycle, so listing its entries succeeds; it
  lists them newest first, each once, and they are exactly the entries the visibility test of
  the writes accepts.
\<close>

theorem scan_matches_visibility:
  assumes "reachable_storage s" "\<not> st_closed s" "omap_find (st_conversations s) c \<noteq> None"
  shows "\<exists>rs. (\<forall>limit. scan_entries s c limit = Inr (take limit rs)) \<and>
    sorted_wrt (\<lambda>p q. en_id q < en_id p) rs \<and>
    (\<forall>r. r \<in> set rs \<longleftrightarrow> (\<exists>e. omap_find (st_entries s) (en_id r) = Some e \<and> es_record e = r \<and>
       entry_visible c (en_id r) (st_conversations s) (st_entries s)))"
  using scan_visible [OF reachable_ok [OF assms(1)] assms(2,3)] .

theorem scan_matches_visibility_witness:
  "\<exists>rs. (\<forall>limit. scan_entries sample_storage 2 limit = Inr (take limit rs)) \<and> map en_id rs = [4]"
proof -
  have c: "omap_find (st_conversations sample_storage) 2 \<noteq> None" by code_simp
  have o: "\<not> st_closed sample_storage" by code_simp
  obtain rs where rs: "\<forall>limit. scan_entries sample_storage 2 limit = Inr (take limit rs)"
    using scan_matches_visibility [OF sample_storage_reachable o c] by blast
  have "map_sum id (map en_id) (scan_entries sample_storage 2 9) = Inr [4]" by code_simp
  then have "map en_id (take 9 rs) = [4]" using rs by simp
  then have "map en_id rs = [4]" by (cases rs) auto
  with rs show ?thesis by (intro exI conjI)
qed

definition twice_forked :: storage where
  "twice_forked = fst (commit storage_init
     [new_conversation 1 None, new_entry 10 1, new_entry 11 1, new_entry 12 1,
      new_conversation 2 (Some (1, 12)), new_conversation 3 (Some (2, 10))])"

text \<open>
  The cut of a fork is not inherited: conversation 2 is forked from conversation 1 at its
  last entry 12, and conversation 3 from conversation 2 at entry 10, which conversation 2 shares
  with conversation 1. The entries 11 and 12, which come after the entry conversation 3 was
  forked at, are nevertheless listed in it.
\<close>

theorem fork_of_fork_shows_later_entries:
  "reachable_storage twice_forked \<and>
   map_sum id (map en_id) (scan_entries twice_forked 3 100) = Inr [12, 11, 10]"
proof (rule conjI)
  show "reachable_storage twice_forked"
    unfolding reachable_storage_def twice_forked_def by (rule reaches_commit)
  show "map_sum id (map en_id) (scan_entries twice_forked 3 100) = Inr [12, 11, 10]" by code_simp
qed

end
