(* ===== verification/Session_Tree.thy ===== *)
theory Session_Tree
  imports Chord_Json
begin

text \<open>
  \<^verbatim>\<open>src/src/coding_agent/session/SessionTree.cpp\<close> with \<^verbatim>\<open>SessionTree.hpp\<close>,
  \<^verbatim>\<open>SessionEntry.hpp\<close> and \<^verbatim>\<open>SessionLeaf.hpp\<close>: the index over the entries of one session
  file, the navigation in it, and the reconstruction of a model context from a path. A pointer
  to an entry is its index in the entry vector. Fields of messages that the tree only copies
  are kept as one opaque JSON value. The branch walk follows parent names and may not end on a
  file that names parents in a cycle, so it is a partial function.
\<close>

section \<open>Entries\<close>

datatype session_entry_kind =
    HeaderKind | MessageKind | ModelChangeKind | ThinkingLevelChangeKind | CustomKind | CustomMessageKind
  | LabelKind | CompactionKind | BranchSummaryKind | SessionInfoKind | UnknownKind

datatype content =
    TextContent string "string option"
  | ThinkingContent string "string option" bool
  | ImageContent string string

datatype message_variant =
    SystemMessage json
  | UserMessage json
  | AssistantMessage string string json
  | ToolResultMessage json
  | BashExecutionMessage json
  | CustomMessage string "content list" bool "json option" int
  | BranchSummaryMessage string string int
  | CompactionSummaryMessage string int int

datatype custom_message_content = TextBody string | BlockBody "content list"

record compaction_entry_value =
  cp_summary :: string
  cp_first_kept_entry_id :: "string option"
  cp_tokens_before :: nat
  cp_retained_tail :: "message_variant list option"
  cp_details :: "json option"
  cp_usage :: "json option"
  cp_from_hook :: "bool option"

datatype session_entry_value =
    NoValue
  | ModelChangeValue string string
  | ThinkingLevelChangeValue string
  | CustomEntryValue string "json option"
  | CustomMessageEntryValue string custom_message_content bool "json option"
  | LabelEntryValue string "string option"
  | CompactionEntryValue compaction_entry_value
  | BranchSummaryEntryValue string string "json option" "json option" "bool option"
  | SessionInfoEntryValue "string option"

datatype parent_id_kind = AbsentParent | RootParent | EntryParent

record parent_id =
  pi_kind :: parent_id_kind
  pi_entry_id :: string

definition parent_entry_id :: "parent_id \<Rightarrow> string option" where
  "parent_entry_id p = (if pi_kind p \<noteq> EntryParent \<or> pi_entry_id p = [] then None else Some (pi_entry_id p))"

definition parent_id_from_optional :: "string option \<Rightarrow> parent_id" where
  "parent_id_from_optional p =
     (case p of Some i \<Rightarrow> \<lparr>pi_kind = EntryParent, pi_entry_id = i\<rparr>
      | None \<Rightarrow> \<lparr>pi_kind = RootParent, pi_entry_id = []\<rparr>)"

record session_entry =
  se_kind :: session_entry_kind
  se_id :: string
  se_parent :: parent_id
  se_timestamp :: int
  se_message :: "message_variant option"
  se_value :: session_entry_value
  se_payload :: json
  se_raw_line :: string

definition select_active_leaf_id :: "session_entry list \<Rightarrow> string option" where
  "select_active_leaf_id entries =
     fold (\<lambda>e leaf. if se_kind e = HeaderKind then leaf else Some (se_id e)) entries None"

definition is_navigable_leaf_target :: "session_entry \<Rightarrow> bool" where
  "is_navigable_leaf_target e \<longleftrightarrow> se_kind e \<noteq> HeaderKind \<and> se_kind e \<noteq> UnknownKind \<and> se_id e \<noteq> []"

section \<open>The index\<close>

record session_tree =
  sx_entries :: "session_entry list"
  sx_leaf_id :: string
  sx_id_to_index :: "string \<Rightarrow> nat option"
  sx_children :: "string \<Rightarrow> nat list"
  sx_inferred_parent :: "string \<Rightarrow> string option"
  sx_chain_tail :: "string option"

definition index_appended_entry :: "session_tree \<Rightarrow> nat \<Rightarrow> session_tree" where
  "index_appended_entry t i =
     (let e = sx_entries t ! i;
          t1 = (if se_id e \<noteq> [] then t\<lparr>sx_id_to_index := (sx_id_to_index t)(se_id e \<mapsto> i)\<rparr> else t)
      in case parent_entry_id (se_parent e) of
           Some p \<Rightarrow>
             t1\<lparr>sx_children := (sx_children t1)(p := sx_children t1 p @ [i]), sx_chain_tail := Some (se_id e)\<rparr>
         | None \<Rightarrow>
             (case (pi_kind (se_parent e), sx_chain_tail t1) of
                (AbsentParent, Some p) \<Rightarrow>
                  t1\<lparr>sx_inferred_parent := (sx_inferred_parent t1)(se_id e \<mapsto> p),
                     sx_children := (sx_children t1)(p := sx_children t1 p @ [i]),
                     sx_chain_tail := Some (se_id e)\<rparr>
              | _ \<Rightarrow> t1\<lparr>sx_chain_tail := Some (se_id e)\<rparr>))"

definition build_index :: "session_tree \<Rightarrow> session_tree" where
  "build_index t = fold (\<lambda>i u. index_appended_entry u i) [0..<length (sx_entries t)] (t\<lparr>sx_chain_tail := None\<rparr>)"

definition restore_leaf_position :: "session_tree \<Rightarrow> session_tree" where
  "restore_leaf_position t =
     t\<lparr>sx_leaf_id := (case select_active_leaf_id (sx_entries t) of Some i \<Rightarrow> i | None \<Rightarrow> [])\<rparr>"

definition tracked :: "session_entry \<Rightarrow> bool" where
  "tracked e \<longleftrightarrow> se_kind e \<noteq> HeaderKind \<and> se_kind e \<noteq> UnknownKind"

text \<open>The constructor, on the entries of a loaded session.\<close>

definition session_tree_of :: "session_entry list \<Rightarrow> session_tree" where
  "session_tree_of loaded =
     restore_leaf_position (build_index
       \<lparr>sx_entries = filter tracked loaded, sx_leaf_id = [], sx_id_to_index = (\<lambda>_. None),
        sx_children = (\<lambda>_. []), sx_inferred_parent = (\<lambda>_. None), sx_chain_tail = None\<rparr>)"

definition append_entry :: "session_tree \<Rightarrow> session_entry \<Rightarrow> session_tree" where
  "append_entry t e =
     (if \<not> tracked e then t
      else let u = index_appended_entry (t\<lparr>sx_entries := sx_entries t @ [e]\<rparr>) (length (sx_entries t))
           in if is_navigable_leaf_target e then u\<lparr>sx_leaf_id := se_id e\<rparr> else u)"

definition get_entry :: "session_tree \<Rightarrow> string \<Rightarrow> nat option" where
  "get_entry t i = sx_id_to_index t i"

definition effective_parent_id :: "session_tree \<Rightarrow> string \<Rightarrow> string option" where
  "effective_parent_id t i =
     (case get_entry t i of
        None \<Rightarrow> sx_inferred_parent t i
      | Some k \<Rightarrow>
          (case parent_entry_id (se_parent (sx_entries t ! k)) of
             Some p \<Rightarrow> Some p
           | None \<Rightarrow>
               if pi_kind (se_parent (sx_entries t ! k)) = RootParent then None
               else sx_inferred_parent t i))"

definition get_children :: "session_tree \<Rightarrow> string \<Rightarrow> nat list" where
  "get_children t p = sx_children t p"

section \<open>Navigation\<close>

datatype session_error = EntryNotFound string | TargetNotFound string | HookFailed string | WriterFailed string

definition leaf_entry :: "session_tree \<Rightarrow> nat option" where
  "leaf_entry t = (if sx_leaf_id t = [] then None else get_entry t (sx_leaf_id t))"

definition branch :: "session_tree \<Rightarrow> string \<Rightarrow> session_tree \<times> (session_error, unit) result" where
  "branch t i =
     (if get_entry t i = None then (t, Inl (EntryNotFound i)) else (t\<lparr>sx_leaf_id := i\<rparr>, Inr ()))"

definition reset_leaf :: "session_tree \<Rightarrow> session_tree" where
  "reset_leaf t = t\<lparr>sx_leaf_id := [], sx_chain_tail := None\<rparr>"

text \<open>The walk from an entry to the root of its chain; \<open>None\<close> is a walk that does not end.\<close>

partial_function (option) branch_walk :: "session_tree \<Rightarrow> nat \<Rightarrow> nat list option" where
  [code]: "branch_walk t current =
     (case effective_parent_id t (se_id (sx_entries t ! current)) of
        None \<Rightarrow> Some [current]
      | Some p \<Rightarrow>
          (case get_entry t p of
             None \<Rightarrow> Some [current]
           | Some next_entry \<Rightarrow>
               Option.bind (branch_walk t next_entry) (\<lambda>path. Some (current # path))))"

definition get_branch :: "session_tree \<Rightarrow> string \<Rightarrow> nat list option" where
  "get_branch t from_id =
     (case (if from_id = [] then leaf_entry t else get_entry t from_id) of
        None \<Rightarrow> Some []
      | Some start \<Rightarrow> branch_walk t start)"

definition tree_root :: "session_tree \<Rightarrow> nat option" where
  "tree_root t =
     (if sx_entries t = [] then None
      else (case find (\<lambda>k. case parent_entry_id (se_parent (sx_entries t ! k)) of
                             None \<Rightarrow> True | Some p \<Rightarrow> get_entry t p = None) [0..<length (sx_entries t)] of
              Some k \<Rightarrow> Some k
            | None \<Rightarrow> Some 0))"

section \<open>Labels and names\<close>

definition is_blank :: "char \<Rightarrow> bool" where
  "is_blank c \<longleftrightarrow> c = CHR '' '' \<or> c = CHR 0x09 \<or> c = CHR 0x0D \<or> c = CHR 0x0A"

text \<open>The text between the first and the last non-blank character, if there is one.\<close>

definition trimmed :: "string \<Rightarrow> string option" where
  "trimmed s =
     (let body = dropWhile is_blank s
      in if body = [] then None else Some (rev (dropWhile is_blank (rev body))))"

definition label_of_value :: "string option \<Rightarrow> string option" where
  "label_of_value l = (case l of None \<Rightarrow> None | Some s \<Rightarrow> trimmed s)"

definition get_label :: "session_tree \<Rightarrow> string \<Rightarrow> string option" where
  "get_label t i =
     fold (\<lambda>e current.
        if se_kind e \<noteq> LabelKind then current
        else (case se_value e of
                LabelEntryValue target l \<Rightarrow> if target \<noteq> i then current else label_of_value l
              | _ \<Rightarrow> current)) (sx_entries t) None"

definition session_name_of :: "session_entry \<Rightarrow> string option" where
  "session_name_of e =
     (if se_kind e \<noteq> SessionInfoKind then None
      else (case se_value e of
              SessionInfoEntryValue (Some name) \<Rightarrow> trimmed name
            | _ \<Rightarrow> None))"

fun first_name :: "session_entry list \<Rightarrow> string option" where
  "first_name [] = None"
| "first_name (e # es) = (case session_name_of e of Some n \<Rightarrow> Some n | None \<Rightarrow> first_name es)"

definition get_session_name :: "session_tree \<Rightarrow> string option" where
  "get_session_name t = first_name (rev (sx_entries t))"

section \<open>Display tree\<close>

record label_state =
  lb_label :: "string \<Rightarrow> string option option"
  lb_time :: "string \<Rightarrow> int option"

definition resolve_label :: "session_entry \<Rightarrow> label_state \<Rightarrow> label_state" where
  "resolve_label e ls =
     (if se_kind e \<noteq> LabelKind then ls
      else (case se_value e of
              LabelEntryValue target l \<Rightarrow>
                \<lparr>lb_label = (lb_label ls)(target \<mapsto> label_of_value l),
                 lb_time = (lb_time ls)(target := (if label_of_value l = None then None else Some (se_timestamp e)))\<rparr>
            | _ \<Rightarrow> ls))"

definition resolve_labels :: "session_entry list \<Rightarrow> label_state" where
  "resolve_labels entries = fold resolve_label entries \<lparr>lb_label = (\<lambda>_. None), lb_time = (\<lambda>_. None)\<rparr>"

datatype session_tree_node =
  TreeNode (node_entry: session_entry) (node_children: "session_tree_node list")
    (node_label: "string option") (node_label_timestamp: "int option")

text \<open>The display copy of an entry carries its effective parent.\<close>

definition display_entry :: "session_tree \<Rightarrow> session_entry \<Rightarrow> session_entry" where
  "display_entry t e =
     (if pi_kind (se_parent e) = AbsentParent
      then (case sx_inferred_parent t (se_id e) of
              Some p \<Rightarrow> e\<lparr>se_parent := \<lparr>pi_kind = EntryParent, pi_entry_id = p\<rparr>\<rparr>
            | None \<Rightarrow> e)
      else e)"

text \<open>The node an entry hangs below: \<open>None\<close> for a root, an own parent or an unknown one.\<close>

definition display_parent :: "session_entry list \<Rightarrow> nat \<Rightarrow> nat option" where
  "display_parent nodes k =
     (case parent_entry_id (se_parent (nodes ! k)) of
        None \<Rightarrow> None
      | Some p \<Rightarrow>
          if p = se_id (nodes ! k) then None
          else find (\<lambda>j. se_id (nodes ! j) = p) [0..<length nodes])"

definition children_indexes :: "session_entry list \<Rightarrow> nat \<Rightarrow> nat list" where
  "children_indexes nodes i = filter (\<lambda>k. display_parent nodes k = Some i) [0..<length nodes]"

definition root_indexes :: "session_entry list \<Rightarrow> nat list" where
  "root_indexes nodes = filter (\<lambda>k. display_parent nodes k = None) [0..<length nodes]"

text \<open>
  The work list fills a node and then its children. Every node has one parent, so what it
  builds below a node is that node's subtree; the number of nodes bounds its height.
\<close>

fun build_node :: "session_entry list \<Rightarrow> label_state \<Rightarrow> nat \<Rightarrow> nat \<Rightarrow> session_tree_node" where
  "build_node nodes ls 0 i =
     TreeNode (nodes ! i) [] (Option.bind (lb_label ls (se_id (nodes ! i))) id) (lb_time ls (se_id (nodes ! i)))"
| "build_node nodes ls (Suc fuel) i =
     TreeNode (nodes ! i)
       (sort_key (\<lambda>n. se_timestamp (node_entry n)) (map (build_node nodes ls fuel) (children_indexes nodes i)))
       (Option.bind (lb_label ls (se_id (nodes ! i))) id) (lb_time ls (se_id (nodes ! i)))"

definition get_tree :: "session_tree \<Rightarrow> session_tree_node list" where
  "get_tree t =
     (let nodes = map (display_entry t) (sx_entries t)
      in map (build_node nodes (resolve_labels (sx_entries t)) (length nodes)) (root_indexes nodes))"

definition topology :: "session_tree \<Rightarrow> session_tree_node list \<times> string" where
  "topology t = (get_tree t, sx_leaf_id t)"

section \<open>Context reconstruction\<close>

record session_context =
  cx_messages :: "message_variant list"
  cx_provider :: "string option"
  cx_model :: "string option"
  cx_thinking_level :: string
  cx_has_thinking_level_entry :: bool

definition empty_context :: session_context where
  "empty_context = \<lparr>cx_messages = [], cx_provider = None, cx_model = None, cx_thinking_level = ''off'',
     cx_has_thinking_level_entry = False\<rparr>"

text \<open>The messages one entry contributes.\<close>

definition entry_messages :: "session_entry \<Rightarrow> message_variant list" where
  "entry_messages e =
     (if se_kind e = MessageKind then (case se_message e of Some m \<Rightarrow> [m] | None \<Rightarrow> [])
      else if se_kind e = BranchSummaryKind
      then (case se_value e of
              BranchSummaryEntryValue from_id summary _ _ _ \<Rightarrow>
                if summary = [] then [] else [BranchSummaryMessage summary from_id (se_timestamp e)]
            | _ \<Rightarrow> [])
      else if se_kind e = CustomMessageKind
      then (case se_value e of
              CustomMessageEntryValue ty body display details \<Rightarrow>
                [CustomMessage ty (case body of TextBody s \<Rightarrow> [TextContent s None] | BlockBody bs \<Rightarrow> bs)
                   display details (se_timestamp e)]
            | _ \<Rightarrow> [CustomMessage [] [] True None (se_timestamp e)])
      else [])"

definition emit_entry_message :: "session_context \<Rightarrow> session_entry \<Rightarrow> session_context" where
  "emit_entry_message ctx e = ctx\<lparr>cx_messages := cx_messages ctx @ entry_messages e\<rparr>"

definition is_system :: "message_variant \<Rightarrow> bool" where
  "is_system m = (case m of SystemMessage _ \<Rightarrow> True | _ \<Rightarrow> False)"

definition compaction_value :: "session_entry \<Rightarrow> compaction_entry_value option" where
  "compaction_value e = (case se_value e of CompactionEntryValue v \<Rightarrow> Some v | _ \<Rightarrow> None)"

definition retained_tail :: "session_entry \<Rightarrow> message_variant list option" where
  "retained_tail e = Option.bind (compaction_value e) cp_retained_tail"

definition emit_compaction_messages :: "session_context \<Rightarrow> session_entry \<Rightarrow> session_context" where
  "emit_compaction_messages ctx e =
     (let tail = (case retained_tail e of Some ms \<Rightarrow> ms | None \<Rightarrow> []);
          summary = (case compaction_value e of Some v \<Rightarrow> cp_summary v | None \<Rightarrow> []);
          tokens = (case compaction_value e of Some v \<Rightarrow> cp_tokens_before v | None \<Rightarrow> 0)
      in ctx\<lparr>cx_messages := cx_messages ctx @ filter is_system tail @
            [CompactionSummaryMessage summary (int tokens) (se_timestamp e)] @
            filter (\<lambda>m. \<not> is_system m) tail\<rparr>)"

definition derive_state :: "session_entry \<Rightarrow> session_context \<Rightarrow> session_context" where
  "derive_state e ctx =
     (if se_kind e = ThinkingLevelChangeKind
      then (case se_value e of
              ThinkingLevelChangeValue level \<Rightarrow>
                ctx\<lparr>cx_thinking_level := level, cx_has_thinking_level_entry := True\<rparr>
            | _ \<Rightarrow> ctx)
      else if se_kind e = ModelChangeKind
      then (case se_value e of
              ModelChangeValue provider model \<Rightarrow> ctx\<lparr>cx_provider := Some provider, cx_model := Some model\<rparr>
            | _ \<Rightarrow> ctx)
      else if se_kind e = MessageKind
      then (case se_message e of
              Some (AssistantMessage provider model _) \<Rightarrow>
                ctx\<lparr>cx_provider := Some provider, cx_model := Some model\<rparr>
            | _ \<Rightarrow> ctx)
      else ctx)"

text \<open>
  The ids to skip: those seen before the first kept entry, up to and without the compaction.
  The path is a list of entry positions; the compaction is recognised by its position.
\<close>

fun skip_ids :: "session_entry list \<Rightarrow> string \<Rightarrow> nat \<Rightarrow> bool \<Rightarrow> string set \<Rightarrow> nat list \<Rightarrow> string set" where
  "skip_ids entries first_kept compaction found_kept skip [] = skip"
| "skip_ids entries first_kept compaction found_kept skip (k # path) =
     (let found = (found_kept \<or> se_id (entries ! k) = first_kept);
          skip' = (if found then skip else insert (se_id (entries ! k)) skip)
      in if k = compaction then skip' - {se_id (entries ! compaction)}
         else skip_ids entries first_kept compaction found skip' path)"

definition build_session_context_path :: "session_entry list \<Rightarrow> nat list \<Rightarrow> session_context" where
  "build_session_context_path entries path =
     (let ctx = fold (\<lambda>k. derive_state (entries ! k)) path empty_context
      in case find (\<lambda>k. se_kind (entries ! k) = CompactionKind) (rev path) of
           None \<Rightarrow> foldl (\<lambda>c k. emit_entry_message c (entries ! k)) ctx path
         | Some compaction \<Rightarrow>
             let compaction_index = length (takeWhile (\<lambda>k. k \<noteq> compaction) path);
                 tail = retained_tail (entries ! compaction);
                 replayed = (if \<exists>m\<in>set (case tail of Some ms \<Rightarrow> ms | None \<Rightarrow> []). is_system m then []
                   else concat (map (\<lambda>k. case se_message (entries ! k) of
                                           Some m \<Rightarrow> if is_system m then [m] else []
                                         | None \<Rightarrow> []) (take compaction_index path)));
                 ctx1 = emit_compaction_messages (ctx\<lparr>cx_messages := cx_messages ctx @ replayed\<rparr>)
                          (entries ! compaction)
             in if tail \<noteq> None
                then foldl (\<lambda>c k. emit_entry_message c (entries ! k)) ctx1 (drop (compaction_index + 1) path)
                else let first_kept = (case compaction_value (entries ! compaction) of
                            Some v \<Rightarrow> (case cp_first_kept_entry_id v of Some i \<Rightarrow> i | None \<Rightarrow> [])
                          | None \<Rightarrow> []);
                         skip = skip_ids entries first_kept compaction False {} path
                     in foldl (\<lambda>c k. emit_entry_message c (entries ! k)) ctx1
                          (filter (\<lambda>k. se_id (entries ! k) \<notin> skip) path))"

definition build_session_context :: "session_tree \<Rightarrow> session_context option" where
  "build_session_context t =
     (case get_branch t [] of
        None \<Rightarrow> None
      | Some [] \<Rightarrow> Some empty_context
      | Some path \<Rightarrow> Some (build_session_context_path (sx_entries t) (rev path)))"

section \<open>Branch summaries\<close>

record branch_summary_context =
  bs_from_leaf_id :: string
  bs_to_entry_id :: string
  bs_branch_entries :: "nat list"

record branch_summary_data =
  bd_summary :: string
  bd_details :: "json option"
  bd_usage :: "json option"

definition abandoned :: "session_entry list \<Rightarrow> nat list \<Rightarrow> nat list \<Rightarrow> nat list" where
  "abandoned entries from_path to_path =
     takeWhile (\<lambda>k. \<forall>j\<in>set to_path. se_id (entries ! j) \<noteq> se_id (entries ! k)) from_path"

definition summary_entry :: "string \<Rightarrow> string \<Rightarrow> branch_summary_data \<Rightarrow> session_entry" where
  "summary_entry target from_leaf d =
     \<lparr>se_kind = BranchSummaryKind, se_id = [], se_parent = \<lparr>pi_kind = EntryParent, pi_entry_id = target\<rparr>,
      se_timestamp = 0, se_message = None,
      se_value = BranchSummaryEntryValue from_leaf (bd_summary d) (bd_details d) (bd_usage d) None,
      se_payload = JNull, se_raw_line = []\<rparr>"

text \<open>
  The hook and the writer are arguments. The writer may append to the tree, so it takes the
  tree and returns it; \<open>None\<close> is a call that does not return.
\<close>

definition branch_with_summary ::
    "session_tree \<Rightarrow> string \<Rightarrow>
     (branch_summary_context \<Rightarrow> (string, branch_summary_data option) result) \<Rightarrow>
     (session_tree \<Rightarrow> session_entry \<Rightarrow> session_tree \<times> (string, unit) result) \<Rightarrow>
     (session_tree \<times> (session_error, unit) result) option" where
  "branch_with_summary t target hook writer =
     (if get_entry t target = None then Some (t, Inl (TargetNotFound target))
      else case get_branch t (sx_leaf_id t) of
        None \<Rightarrow> None
      | Some from_path \<Rightarrow>
          (case get_branch t target of
             None \<Rightarrow> None
           | Some to_path \<Rightarrow>
               (case hook \<lparr>bs_from_leaf_id = sx_leaf_id t, bs_to_entry_id = target,
                           bs_branch_entries = abandoned (sx_entries t) from_path to_path\<rparr> of
                  Inl e \<Rightarrow> Some (t, Inl (HookFailed e))
                | Inr None \<Rightarrow> Some (branch t target)
                | Inr (Some d) \<Rightarrow>
                    (case writer t (summary_entry target (sx_leaf_id t) d) of
                       (u, Inl e) \<Rightarrow> Some (u, Inl (WriterFailed e))
                     | (u, Inr _) \<Rightarrow> Some (branch u target)))))"

end
