(* ===== verification/Session_Tree_Laws.thy ===== *)
theory Session_Tree_Laws
  imports Session_Tree "HOL-Library.Multiset"
begin

text \<open>
  Laws of the session tree. A session the program itself writes names only earlier entries as
  parents; for those trees the index is exact, the walk to the root ends and the display tree
  shows every entry once, below the entry its walk continues with. A file that names an entry
  as its own parent makes the walk run for ever. The reconstruction of a context is
  characterised by the range of entries it keeps.
\<close>

section \<open>Well-formed trees\<close>

definition parent_index :: "session_tree \<Rightarrow> nat \<Rightarrow> nat option" where
  "parent_index t k = Option.bind (effective_parent_id t (se_id (sx_entries t ! k))) (get_entry t)"

definition index_exact :: "session_tree \<Rightarrow> bool" where
  "index_exact t \<longleftrightarrow>
     (\<forall>i k. sx_id_to_index t i = Some k \<longleftrightarrow> k < length (sx_entries t) \<and> se_id (sx_entries t ! k) = i)"

definition ids_nonempty :: "session_tree \<Rightarrow> bool" where
  "ids_nonempty t \<longleftrightarrow> (\<forall>e\<in>set (sx_entries t). se_id e \<noteq> [])"

text \<open>A named parent is earlier than the entry, or names nothing at all.\<close>

definition named_earlier :: "session_tree \<Rightarrow> bool" where
  "named_earlier t \<longleftrightarrow>
     (\<forall>k<length (sx_entries t). \<forall>j<length (sx_entries t).
        parent_entry_id (se_parent (sx_entries t ! k)) = Some (se_id (sx_entries t ! j)) \<longrightarrow> j < k)"

definition inferred_earlier :: "session_tree \<Rightarrow> bool" where
  "inferred_earlier t \<longleftrightarrow>
     (\<forall>i p. sx_inferred_parent t i = Some p \<longrightarrow>
        (\<exists>k<length (sx_entries t). pi_kind (se_parent (sx_entries t ! k)) = AbsentParent \<and>
           (\<exists>j<k. se_id (sx_entries t ! k) = i \<and> se_id (sx_entries t ! j) = p)))"

definition chain_tail_known :: "session_tree \<Rightarrow> bool" where
  "chain_tail_known t \<longleftrightarrow>
     (\<forall>p. sx_chain_tail t = Some p \<longrightarrow> (\<exists>j<length (sx_entries t). se_id (sx_entries t ! j) = p))"

definition tree_ok :: "session_tree \<Rightarrow> bool" where
  "tree_ok t \<longleftrightarrow> index_exact t \<and> ids_nonempty t \<and> named_earlier t \<and> inferred_earlier t \<and> chain_tail_known t"

text \<open>An entry the program appends: a new id that no entry, itself included, names as parent.\<close>

definition fresh_entry :: "session_tree \<Rightarrow> session_entry \<Rightarrow> bool" where
  "fresh_entry t e \<longleftrightarrow> se_id e \<noteq> [] \<and>
     (\<forall>f\<in>set (sx_entries t). se_id f \<noteq> se_id e \<and> parent_entry_id (se_parent f) \<noteq> Some (se_id e)) \<and>
     parent_entry_id (se_parent e) \<noteq> Some (se_id e)"

lemma index_appended_fields:
  fixes t i
  defines "u \<equiv> index_appended_entry t i" and "e \<equiv> sx_entries t ! i"
  shows "sx_entries u = sx_entries t" "sx_leaf_id u = sx_leaf_id t" "sx_chain_tail u = Some (se_id e)"
    "sx_id_to_index u = (if se_id e = [] then sx_id_to_index t else (sx_id_to_index t)(se_id e \<mapsto> i))"
    "sx_inferred_parent u =
       (case (parent_entry_id (se_parent e), pi_kind (se_parent e), sx_chain_tail t) of
          (None, AbsentParent, Some p) \<Rightarrow> (sx_inferred_parent t)(se_id e \<mapsto> p)
        | _ \<Rightarrow> sx_inferred_parent t)"
  unfolding u_def e_def index_appended_entry_def Let_def
  by (auto split: option.splits parent_id_kind.splits)

lemma append_fields:
  assumes "tracked e"
  shows "sx_entries (append_entry t e) = sx_entries t @ [e]"
    "sx_chain_tail (append_entry t e) = Some (se_id e)"
    "sx_id_to_index (append_entry t e) =
       (if se_id e = [] then sx_id_to_index t else (sx_id_to_index t)(se_id e \<mapsto> length (sx_entries t)))"
    "sx_inferred_parent (append_entry t e) =
       (case (parent_entry_id (se_parent e), pi_kind (se_parent e), sx_chain_tail t) of
          (None, AbsentParent, Some p) \<Rightarrow> (sx_inferred_parent t)(se_id e \<mapsto> p)
        | _ \<Rightarrow> sx_inferred_parent t)"
  using assms
  by (simp_all add: append_entry_def Let_def index_appended_fields split: option.split parent_id_kind.split)

lemma append_keeps:
  assumes ok: "tree_ok t" and e: "fresh_entry t e"
  shows "tree_ok (append_entry t e)"
proof (cases "tracked e")
  case True
  note f = append_fields [OF True, of t]
  let ?n = "length (sx_entries t)"
  have ne: "se_id e \<noteq> []" using e by (simp add: fresh_entry_def)
  have old: "se_id (sx_entries t ! k) \<noteq> se_id e"
    "parent_entry_id (se_parent (sx_entries t ! k)) \<noteq> Some (se_id e)" if "k < ?n" for k
    using e that nth_mem by (auto simp: fresh_entry_def)
  note o = ok [unfolded tree_ok_def]
  have "index_exact (append_entry t e)"
    using o ne old unfolding index_exact_def
    by (auto simp: f nth_append less_Suc_eq split: if_splits)
  moreover have "ids_nonempty (append_entry t e)" using o ne by (auto simp: ids_nonempty_def f)
  moreover have "named_earlier (append_entry t e)"
    using o old e unfolding named_earlier_def
    by (auto simp: f nth_append less_Suc_eq fresh_entry_def)
  moreover have "inferred_earlier (append_entry t e)"
    unfolding inferred_earlier_def
  proof (intro allI impI)
    fix i p
    assume ip: "sx_inferred_parent (append_entry t e) i = Some p"
    show "\<exists>k<length (sx_entries (append_entry t e)).
        pi_kind (se_parent (sx_entries (append_entry t e) ! k)) = AbsentParent \<and>
        (\<exists>j<k. se_id (sx_entries (append_entry t e) ! k) = i \<and> se_id (sx_entries (append_entry t e) ! j) = p)"
    proof (cases "sx_inferred_parent t i = Some p")
      case True
      then obtain k j where "k < ?n" "j < k" "pi_kind (se_parent (sx_entries t ! k)) = AbsentParent"
          "se_id (sx_entries t ! k) = i" "se_id (sx_entries t ! j) = p"
        using o unfolding inferred_earlier_def by blast
      then show ?thesis by (intro exI [of _ k] conjI exI [of _ j]) (simp_all add: f nth_append)
    next
      case False
      then have "i = se_id e" "sx_chain_tail t = Some p" "pi_kind (se_parent e) = AbsentParent"
        using ip by (auto simp: f split: option.splits parent_id_kind.splits if_splits)
      moreover then obtain j where "j < ?n" "se_id (sx_entries t ! j) = p"
        using o unfolding chain_tail_known_def by blast
      ultimately show ?thesis by (intro exI [of _ ?n] conjI exI [of _ j]) (simp_all add: f nth_append)
    qed
  qed
  moreover have "chain_tail_known (append_entry t e)"
    by (auto simp: chain_tail_known_def f intro: exI [of _ ?n])
  ultimately show ?thesis by (simp add: tree_ok_def)
qed (use ok in \<open>simp add: append_entry_def\<close>)

lemma tree_ok_leaf [simp]: "tree_ok (t\<lparr>sx_leaf_id := i\<rparr>) = tree_ok t"
  by (simp add: tree_ok_def index_exact_def ids_nonempty_def named_earlier_def inferred_earlier_def
      chain_tail_known_def)

lemma reset_leaf_keeps: "tree_ok t \<Longrightarrow> tree_ok (reset_leaf t)"
  by (simp add: tree_ok_def index_exact_def ids_nonempty_def named_earlier_def inferred_earlier_def
      chain_tail_known_def reset_leaf_def)

lemma branch_keeps: "tree_ok t \<Longrightarrow> tree_ok (fst (branch t i))"
  by (simp add: branch_def)

lemma empty_tree_ok: "tree_ok (session_tree_of [])"
  by (simp add: session_tree_of_def build_index_def restore_leaf_position_def select_active_leaf_id_def
      tree_ok_def index_exact_def ids_nonempty_def named_earlier_def inferred_earlier_def chain_tail_known_def)

text \<open>The trees a program reaches that only appends fresh entries and navigates.\<close>

inductive session_reachable :: "session_tree \<Rightarrow> bool" where
  session_start: "session_reachable (session_tree_of [])"
| session_append: "session_reachable t \<Longrightarrow> fresh_entry t e \<Longrightarrow> session_reachable (append_entry t e)"
| session_branch: "session_reachable t \<Longrightarrow> session_reachable (fst (branch t i))"
| session_reset: "session_reachable t \<Longrightarrow> session_reachable (reset_leaf t)"

lemma session_reachable_ok: "session_reachable t \<Longrightarrow> tree_ok t"
  by (induction rule: session_reachable.induct)
    (auto intro: append_keeps branch_keeps reset_leaf_keeps empty_tree_ok)

lemma parent_index_less:
  assumes ok: "tree_ok t" and k: "k < length (sx_entries t)" and p: "parent_index t k = Some j"
  shows "j < k \<and> j < length (sx_entries t)"
proof -
  note o = ok [unfolded tree_ok_def index_exact_def]
  have at: "sx_id_to_index t (se_id (sx_entries t ! k)) = Some k" using o k by blast
  obtain i where i: "effective_parent_id t (se_id (sx_entries t ! k)) = Some i" "sx_id_to_index t i = Some j"
    using p by (auto simp: parent_index_def get_entry_def bind_eq_Some_conv)
  have j: "j < length (sx_entries t)" "se_id (sx_entries t ! j) = i" using o i(2) by blast+
  show ?thesis
  proof (cases "parent_entry_id (se_parent (sx_entries t ! k)) = Some i")
    case True
    then show ?thesis using o k j unfolding named_earlier_def by blast
  next
    case False
    then have "sx_inferred_parent t (se_id (sx_entries t ! k)) = Some i"
      using i(1) at by (auto simp: effective_parent_id_def get_entry_def split: option.splits if_splits)
    then obtain k' j' where k': "k' < length (sx_entries t)" "j' < k'"
        "se_id (sx_entries t ! k') = se_id (sx_entries t ! k)" "se_id (sx_entries t ! j') = i"
      using o unfolding inferred_earlier_def by metis
    then have "sx_id_to_index t (se_id (sx_entries t ! k)) = Some k'" "sx_id_to_index t i = Some j'"
      using o by (metis order_less_trans)+
    then show ?thesis using k' at i(2) j by simp
  qed
qed

section \<open>The walk to the root\<close>

lemma branch_walk_step:
  "branch_walk t k =
     (case parent_index t k of None \<Rightarrow> Some [k]
      | Some j \<Rightarrow> Option.bind (branch_walk t j) (\<lambda>path. Some (k # path)))"
  by (subst branch_walk.simps) (simp add: parent_index_def split: option.splits)

definition is_branch :: "session_tree \<Rightarrow> nat \<Rightarrow> nat list \<Rightarrow> bool" where
  "is_branch t k path \<longleftrightarrow> path \<noteq> [] \<and> hd path = k \<and>
     successively (\<lambda>a b. parent_index t a = Some b) path \<and> parent_index t (last path) = None \<and>
     sorted_wrt (>) path"

lemma branch_walk_returns:
  assumes ok: "tree_ok t"
  shows "k < length (sx_entries t) \<Longrightarrow>
    \<exists>path. branch_walk t k = Some path \<and> is_branch t k path \<and> (\<forall>j\<in>set path. j \<le> k)"
proof (induction k rule: less_induct)
  case (less k)
  show ?case
  proof (cases "parent_index t k")
    case None
    then show ?thesis by (subst branch_walk_step) (simp add: is_branch_def)
  next
    case (Some j)
    then have j: "j < k" "j < length (sx_entries t)" using parent_index_less [OF ok less.prems] by auto
    obtain path where path: "branch_walk t j = Some path" "is_branch t j path" "\<forall>i\<in>set path. i \<le> j"
      using less.IH [OF j] by blast
    have "is_branch t k (k # path)"
      using path j Some unfolding is_branch_def
      by (cases path) (auto simp: successively_Cons)
    moreover have "branch_walk t k = Some (k # path)" using Some path(1) by (subst branch_walk_step) simp
    ultimately show ?thesis using path(3) j by fastforce
  qed
qed


text \<open>A walk that comes back to where it started does not end.\<close>

lemma branch_walk_self:
  assumes "parent_index t k = Some k"
  shows "branch_walk t k = None"
proof (cases "branch_walk t k")
  case (Some path)
  have "branch_walk t k = Option.bind (branch_walk t k) (\<lambda>path. Some (k # path))"
    by (subst branch_walk_step) (simp add: assms)
  then show ?thesis unfolding Some by simp
qed

section \<open>Loading is appending\<close>

lemma fold_index_entries: "sx_entries (fold (\<lambda>i u. index_appended_entry u i) is t) = sx_entries t"
  by (induction "is" arbitrary: t) (simp_all add: index_appended_fields)

text \<open>Indexing an entry looks at no other entry.\<close>

lemma index_appended_prefix:
  "i < length (sx_entries t) \<Longrightarrow>
   index_appended_entry (t\<lparr>sx_entries := sx_entries t @ es\<rparr>) i =
     (index_appended_entry t i)\<lparr>sx_entries := sx_entries t @ es\<rparr>"
  by (simp add: index_appended_entry_def Let_def nth_append split: option.split parent_id_kind.split)

lemma fold_index_prefix:
  "\<forall>i\<in>set is. i < length (sx_entries t) \<Longrightarrow>
   fold (\<lambda>i u. index_appended_entry u i) is (t\<lparr>sx_entries := sx_entries t @ es\<rparr>) =
     (fold (\<lambda>i u. index_appended_entry u i) is t)\<lparr>sx_entries := sx_entries t @ es\<rparr>"
proof (induction "is" arbitrary: t)
  case (Cons i "is")
  have "sx_entries (index_appended_entry t i) = sx_entries t" by (simp add: index_appended_fields)
  then show ?case using Cons.IH [of "index_appended_entry t i"] Cons.prems by (simp add: index_appended_prefix)
qed simp

definition blank_tree :: "session_entry list \<Rightarrow> session_tree" where
  "blank_tree es = \<lparr>sx_entries = es, sx_leaf_id = [], sx_id_to_index = (\<lambda>_. None),
        sx_children = (\<lambda>_. []), sx_inferred_parent = (\<lambda>_. None), sx_chain_tail = None\<rparr>"

lemma session_tree_of_eq:
  "session_tree_of loaded = restore_leaf_position (build_index (blank_tree (filter tracked loaded)))"
  by (simp add: session_tree_of_def blank_tree_def)

lemma build_index_snoc:
  "build_index (blank_tree (es @ [e])) =
     index_appended_entry ((build_index (blank_tree es))\<lparr>sx_entries := es @ [e]\<rparr>) (length es)"
proof -
  have b: "(blank_tree (es @ [e]))\<lparr>sx_chain_tail := None\<rparr> =
      ((blank_tree es)\<lparr>sx_chain_tail := None\<rparr>)\<lparr>sx_entries := sx_entries ((blank_tree es)\<lparr>sx_chain_tail := None\<rparr>) @ [e]\<rparr>"
    by (simp add: blank_tree_def)
  have "fold (\<lambda>i u. index_appended_entry u i) [0..<length es] ((blank_tree (es @ [e]))\<lparr>sx_chain_tail := None\<rparr>) =
      (build_index (blank_tree es))\<lparr>sx_entries := es @ [e]\<rparr>"
    unfolding b by (subst fold_index_prefix) (simp_all add: build_index_def blank_tree_def)
  then show ?thesis by (simp add: build_index_def blank_tree_def)
qed

lemma index_appended_leaf:
  "index_appended_entry (t\<lparr>sx_leaf_id := l, sx_entries := es\<rparr>) i =
     (index_appended_entry (t\<lparr>sx_entries := es\<rparr>) i)\<lparr>sx_leaf_id := l\<rparr>"
  by (simp add: index_appended_entry_def Let_def split: option.split parent_id_kind.split)

lemma select_active_leaf_snoc:
  "tracked e \<Longrightarrow> select_active_leaf_id (es @ [e]) = Some (se_id e)"
  by (simp add: select_active_leaf_id_def tracked_def)

lemma load_snoc:
  assumes "tracked e" "se_id e \<noteq> []"
  shows "session_tree_of (es @ [e]) = append_entry (session_tree_of es) e"
proof -
  let ?fs = "filter tracked es" let ?t = "build_index (blank_tree ?fs)"
  have ent: "sx_entries (build_index (blank_tree gs)) = gs" for gs
    by (simp only: build_index_def fold_index_entries) (simp add: blank_tree_def)
  have nav: "is_navigable_leaf_target e" using assms by (simp add: is_navigable_leaf_target_def tracked_def)
  have "session_tree_of (es @ [e]) =
      (index_appended_entry (?t\<lparr>sx_entries := ?fs @ [e]\<rparr>) (length ?fs))\<lparr>sx_leaf_id := se_id e\<rparr>"
    using assms(1)
    by (simp add: session_tree_of_eq restore_leaf_position_def ent select_active_leaf_snoc)
      (simp add: build_index_snoc)
  moreover have "append_entry (session_tree_of es) e =
      (index_appended_entry (?t\<lparr>sx_entries := ?fs @ [e]\<rparr>) (length ?fs))\<lparr>sx_leaf_id := se_id e\<rparr>"
  proof -
    obtain l where "session_tree_of es = ?t\<lparr>sx_leaf_id := l\<rparr>"
      by (simp add: session_tree_of_eq restore_leaf_position_def)
    then show ?thesis
      using assms(1) nav by (simp add: append_entry_def Let_def ent index_appended_leaf)
  qed
  ultimately show ?thesis by simp
qed

lemma append_untracked: "\<not> tracked e \<Longrightarrow> append_entry t e = t"
  by (simp add: append_entry_def)

lemma load_append:
  "\<forall>e\<in>set es. tracked e \<longrightarrow> se_id e \<noteq> [] \<Longrightarrow>
   session_tree_of es = foldl append_entry (session_tree_of []) es"
proof (induction es rule: rev_induct)
  case (snoc e es)
  then have IH: "session_tree_of es = foldl append_entry (session_tree_of []) es" by simp
  show ?case
  proof (cases "tracked e")
    case True
    then show ?thesis using snoc.prems load_snoc [of e es] by (simp flip: IH)
  next
    case False
    then have "session_tree_of (es @ [e]) = session_tree_of es" by (simp add: session_tree_of_def)
    then show ?thesis using False by (simp add: IH append_untracked)
  qed
qed simp


section \<open>Forests given by a parent function\<close>

fun subtree :: "(nat \<Rightarrow> nat option) \<Rightarrow> nat \<Rightarrow> nat \<Rightarrow> nat \<Rightarrow> nat list" where
  "subtree par n 0 i = [i]"
| "subtree par n (Suc fuel) i = i # concat (map (subtree par n fuel) (filter (\<lambda>k. par k = Some i) [0..<n]))"

lemma count_concat: "count_list (concat xss) x = sum_list (map (\<lambda>xs. count_list xs x) xss)"
  by (induction xss) simp_all

lemma sum_list_filter_indicator:
  "distinct xs \<Longrightarrow> sum_list (map (\<lambda>c. if c = j then 1 else 0) (filter P xs)) = (if j \<in> set xs \<and> P j then 1 else (0 :: nat))"
  by (induction xs) auto

lemma sum_list_add: "sum_list (map (\<lambda>c. f c + g c) xs) = sum_list (map f xs) + sum_list (map g xs :: nat list)"
  by (induction xs) simp_all

lemma count_subtree:
  assumes par: "\<And>k j. k < n \<Longrightarrow> par k = Some j \<Longrightarrow> j < k" and j: "j < n"
  shows "i < n \<Longrightarrow> n - i \<le> fuel \<Longrightarrow>
    count_list (subtree par n fuel i) j =
      (if i = j then 1 else 0) + (case par j of None \<Rightarrow> 0 | Some p \<Rightarrow> count_list (subtree par n fuel i) p)"
proof (induction fuel arbitrary: i)
  case (Suc fuel)
  let ?cs = "filter (\<lambda>k. par k = Some i) [0..<n]"
  have IH: "count_list (subtree par n fuel c) j =
      (if c = j then 1 else 0) + (case par j of None \<Rightarrow> 0 | Some p \<Rightarrow> count_list (subtree par n fuel c) p)"
    if "c \<in> set ?cs" for c
  proof (rule Suc.IH)
    show "c < n" using that by simp
    show "n - c \<le> fuel" using that par [of c i] Suc.prems by fastforce
  qed
  have "sum_list (map (\<lambda>c. count_list (subtree par n fuel c) j) ?cs) =
      sum_list (map (\<lambda>c. (if c = j then 1 else 0) +
        (case par j of None \<Rightarrow> 0 | Some p \<Rightarrow> count_list (subtree par n fuel c) p)) ?cs)"
    using IH by (intro arg_cong [of _ _ sum_list] map_cong refl)
  then show ?case
    using j by (auto simp: count_concat comp_def sum_list_add sum_list_filter_indicator split: option.split)
qed simp

lemma subtree_bound: "i < n \<Longrightarrow> j \<in> set (subtree par n fuel i) \<Longrightarrow> j < n"
  by (induction fuel arbitrary: i) auto

lemma forest_once:
  assumes par: "\<And>k j. k < n \<Longrightarrow> par k = Some j \<Longrightarrow> j < k"
  shows "mset (concat (map (subtree par n n) (filter (\<lambda>k. par k = None) [0..<n]))) = mset [0..<n]" (is "mset ?all = _")
proof (rule multiset_eqI)
  fix j
  have one: "j < n \<Longrightarrow> count_list ?all j = 1" for j
  proof (induction j rule: less_induct)
    case (less j)
    have step: "count_list (subtree par n n r) j =
        (if r = j then 1 else 0) + (case par j of None \<Rightarrow> 0 | Some p \<Rightarrow> count_list (subtree par n n r) p)"
      if "r \<in> set (filter (\<lambda>k. par k = None) [0..<n])" for r
      by (rule count_subtree [OF par less.prems]) (use that in auto)
    have "count_list ?all j = sum_list (map (\<lambda>r. (if r = j then 1 else 0) +
        (case par j of None \<Rightarrow> 0 | Some p \<Rightarrow> count_list (subtree par n n r) p)) (filter (\<lambda>k. par k = None) [0..<n]))"
      unfolding count_concat map_map comp_def by (intro arg_cong [of _ _ sum_list] map_cong refl step)
    then show ?case
      using less.IH par [OF less.prems] less.prems
      by (cases "par j") (auto simp: sum_list_add sum_list_filter_indicator count_concat comp_def)
  qed
  show "count (mset ?all) j = count (mset [0..<n]) j"
  proof (cases "j < n")
    case True
    then show ?thesis using one by (simp add: count_mset)
  next
    case False
    then have "j \<notin> set ?all" using subtree_bound by auto
    then show ?thesis using False by (simp add: count_mset count_list_0_iff)
  qed
qed

section \<open>The display tree\<close>

lemma display_entry_id [simp]: "se_id (display_entry t e) = se_id e"
  by (simp add: display_entry_def split: option.split)

lemma find_only:
  "j \<in> set xs \<Longrightarrow> P j \<Longrightarrow> \<forall>i\<in>set xs. P i \<longrightarrow> i = j \<Longrightarrow> find P xs = Some j"
proof (induction xs)
  case (Cons x xs)
  show ?case
  proof (cases "P x")
    case True
    moreover have "x = j" using Cons.prems(3) True by simp
    ultimately show ?thesis by simp
  next
    case False
    then have mem: "j \<in> set xs" using Cons.prems(1,2) by auto
    have "\<forall>i\<in>set xs. P i \<longrightarrow> i = j" using Cons.prems(3) by (meson list.set_intros(2))
    with Cons.IH [OF mem Cons.prems(2)] have "find P xs = Some j" by blast
    then show ?thesis using False by simp
  qed
qed simp

lemma display_parent_index:
  assumes ok: "tree_ok t" and k: "k < length (sx_entries t)"
  shows "display_parent (map (display_entry t) (sx_entries t)) k = parent_index t k"
proof -
  let ?e = "sx_entries t ! k" let ?nodes = "map (display_entry t) (sx_entries t)"
  note o = ok [unfolded tree_ok_def]
  have at: "sx_id_to_index t (se_id ?e) = Some k" using o k by (simp add: index_exact_def)
  have inf: "p \<noteq> [] \<and> pi_kind (se_parent ?e) = AbsentParent" if p: "sx_inferred_parent t (se_id ?e) = Some p" for p
  proof -
    obtain k' j where "k' < length (sx_entries t)" "j < k'" "pi_kind (se_parent (sx_entries t ! k')) = AbsentParent"
      "se_id (sx_entries t ! k') = se_id ?e" "se_id (sx_entries t ! j) = p"
      using o p unfolding inferred_earlier_def by blast
    moreover then have "k' = k" using o at unfolding index_exact_def by (metis option.inject)
    ultimately show ?thesis using o by (auto simp: ids_nonempty_def)
  qed
  have eff: "parent_entry_id (se_parent (display_entry t ?e)) = effective_parent_id t (se_id ?e)"
    using inf at
    by (auto simp: effective_parent_id_def get_entry_def display_entry_def parent_entry_id_def split: option.split)
  have found: "find (\<lambda>j. se_id (?nodes ! j) = p) [0..<length ?nodes] = get_entry t p" for p
  proof (cases "sx_id_to_index t p")
    case None
    then have "\<forall>j<length (sx_entries t). se_id (sx_entries t ! j) \<noteq> p"
      using o unfolding index_exact_def by (metis option.distinct(1))
    then show ?thesis using None by (simp add: get_entry_def find_None_iff)
  next
    case (Some j)
    then have j: "j < length (sx_entries t)" "se_id (sx_entries t ! j) = p"
      using o unfolding index_exact_def by blast+
    have only: "\<forall>i\<in>set [0..<length ?nodes]. se_id (?nodes ! i) = p \<longrightarrow> i = j"
    proof (intro ballI impI)
      fix i
      assume "i \<in> set [0..<length ?nodes]" "se_id (?nodes ! i) = p"
      then have "sx_id_to_index t p = Some i" using o by (simp add: index_exact_def)
      then show "i = j" using Some by simp
    qed
    have "find (\<lambda>j. se_id (?nodes ! j) = p) [0..<length ?nodes] = Some j"
      by (rule find_only [OF _ _ only]) (use j in simp_all)
    then show ?thesis using Some by (simp add: get_entry_def)
  qed
  have "parent_index t k \<noteq> Some k" using parent_index_less [OF ok k] by blast
  then have own: "effective_parent_id t (se_id ?e) \<noteq> Some (se_id ?e)"
    using at by (auto simp: parent_index_def get_entry_def)
  have node: "?nodes ! k = display_entry t ?e" using k by simp
  show ?thesis
    unfolding display_parent_def parent_index_def node eff display_entry_id found
    using own by (cases "effective_parent_id t (se_id ?e)") simp_all
qed

fun node_ids :: "session_tree_node \<Rightarrow> string list" where
  "node_ids (TreeNode e cs l ts) = se_id e # concat (map node_ids cs)"

fun all_nodes :: "session_tree_node \<Rightarrow> session_tree_node list" where
  "all_nodes (TreeNode e cs l ts) = TreeNode e cs l ts # concat (map all_nodes cs)"

lemma mset_concat_map_sort:
  "mset (concat (map f (sort_key g xs))) = mset (concat (map f xs))"
  by (simp add: mset_concat flip: sum_mset_sum_list)

lemma node_ids_subtree:
  assumes "\<And>k. k < length nodes \<Longrightarrow> display_parent nodes k = par k"
  shows "mset (node_ids (build_node nodes ls fuel i)) =
    image_mset (\<lambda>k. se_id (nodes ! k)) (mset (subtree par (length nodes) fuel i))"
proof (induction fuel arbitrary: i)
  case (Suc fuel)
  have "children_indexes nodes i = filter (\<lambda>k. par k = Some i) [0..<length nodes]"
    unfolding children_indexes_def using assms by (intro filter_cong) auto
  moreover have "mset (concat (map node_ids (map (build_node nodes ls fuel) cs))) =
      image_mset (\<lambda>k. se_id (nodes ! k)) (mset (concat (map (subtree par (length nodes) fuel) cs)))" for cs
    by (induction cs) (simp_all add: Suc.IH)
  ultimately show ?case by (simp add: mset_concat_map_sort del: map_map)
qed simp

lemma get_tree_once:
  assumes ok: "tree_ok t"
  shows "mset (concat (map node_ids (get_tree t))) = mset (map se_id (sx_entries t))"
proof -
  let ?nodes = "map (display_entry t) (sx_entries t)" let ?n = "length (sx_entries t)"
  have par: "\<And>k. k < length ?nodes \<Longrightarrow> display_parent ?nodes k = parent_index t k"
    using display_parent_index [OF ok] by simp
  have roots: "root_indexes ?nodes = filter (\<lambda>k. parent_index t k = None) [0..<?n]"
    unfolding root_indexes_def using par by (intro filter_cong) auto
  have "mset (concat (map node_ids (map (build_node ?nodes ls ?n) is))) =
      image_mset (\<lambda>k. se_id (?nodes ! k)) (mset (concat (map (subtree (parent_index t) ?n ?n) is)))" for ls "is"
    using node_ids_subtree [OF par, where fuel = ?n] by (induction "is") simp_all
  then have "mset (concat (map node_ids (get_tree t))) = image_mset (\<lambda>k. se_id (?nodes ! k)) (mset [0..<?n])"
    using forest_once [of ?n "parent_index t"] parent_index_less [OF ok]
    by (simp add: get_tree_def Let_def roots del: map_map)
  also have "\<dots> = mset (map (\<lambda>k. se_id (?nodes ! k)) [0..<?n])" by simp
  also have "map (\<lambda>k. se_id (?nodes ! k)) [0..<?n] = map se_id (sx_entries t)"
    by (intro nth_equalityI) simp_all
  finally show ?thesis .
qed


text \<open>The children shown below a node are the entries whose walk continues with it.\<close>

lemma all_nodes_built:
  assumes par: "\<And>k j. k < length nodes \<Longrightarrow> display_parent nodes k = Some j \<Longrightarrow> j < k"
  shows "i < length nodes \<Longrightarrow> length nodes - i \<le> fuel \<Longrightarrow> x \<in> set (all_nodes (build_node nodes ls fuel i)) \<Longrightarrow>
    \<exists>k f. k < length nodes \<and> x = build_node nodes ls (Suc f) k"
proof (induction fuel arbitrary: i)
  case (Suc fuel)
  show ?case
  proof (cases "x = build_node nodes ls (Suc fuel) i")
    case True
    then show ?thesis using Suc.prems(1) by blast
  next
    case False
    then obtain c where c: "c \<in> set (children_indexes nodes i)" "x \<in> set (all_nodes (build_node nodes ls fuel c))"
      using Suc.prems(3) by auto
    have "c < length nodes" "i < c" using c(1) par by (auto simp: children_indexes_def)
    then show ?thesis using Suc.IH [OF _ _ c(2)] Suc.prems(2) by simp
  qed
qed simp

lemma build_node_children:
  "(\<lambda>n. se_id (node_entry n)) ` set (node_children (build_node nodes ls (Suc f) k)) =
     (\<lambda>j. se_id (nodes ! j)) ` {j. j < length nodes \<and> display_parent nodes j = Some k}"
proof -
  have "se_id (node_entry (build_node nodes ls f j)) = se_id (nodes ! j)" for j by (cases f) simp_all
  then show ?thesis by (force simp: children_indexes_def image_iff)
qed

lemma get_tree_children:
  assumes ok: "tree_ok t" and x: "x \<in> set (concat (map all_nodes (get_tree t)))"
  shows "\<exists>k<length (sx_entries t). se_id (node_entry x) = se_id (sx_entries t ! k) \<and>
    (\<lambda>n. se_id (node_entry n)) ` set (node_children x) =
    (\<lambda>j. se_id (sx_entries t ! j)) ` {j. j < length (sx_entries t) \<and> parent_index t j = Some k}"
proof -
  let ?nodes = "map (display_entry t) (sx_entries t)" let ?ls = "resolve_labels (sx_entries t)"
  have par: "j < k" if "k < length ?nodes" "display_parent ?nodes k = Some j" for k j
    using that display_parent_index [OF ok] parent_index_less [OF ok] by auto
  obtain i where "i \<in> set (root_indexes ?nodes)" "x \<in> set (all_nodes (build_node ?nodes ?ls (length ?nodes) i))"
    using x by (auto simp: get_tree_def Let_def)
  then obtain k f where k: "k < length ?nodes" "x = build_node ?nodes ?ls (Suc f) k"
    using all_nodes_built [of ?nodes, OF par, where i = i and fuel = "length ?nodes" and x = x and ls = ?ls]
    by (auto simp: root_indexes_def)
  have "{j. j < length ?nodes \<and> display_parent ?nodes j = Some k} =
      {j. j < length (sx_entries t) \<and> parent_index t j = Some k}"
    using display_parent_index [OF ok] by auto
  then have "(\<lambda>n. se_id (node_entry n)) ` set (node_children x) =
      (\<lambda>j. se_id (?nodes ! j)) ` {j. j < length (sx_entries t) \<and> parent_index t j = Some k}"
    using build_node_children [of ?nodes ?ls f k] k(2) by simp
  also have "\<dots> = (\<lambda>j. se_id (sx_entries t ! j)) ` {j. j < length (sx_entries t) \<and> parent_index t j = Some k}"
    by (rule image_cong) auto
  finally show ?thesis using k by (intro exI [of _ k]) simp
qed

section \<open>Contexts\<close>

definition entry_system :: "session_entry \<Rightarrow> message_variant list" where
  "entry_system e = (case se_message e of Some m \<Rightarrow> if is_system m then [m] else [] | None \<Rightarrow> [])"

lemma foldl_emit:
  "foldl (\<lambda>c k. emit_entry_message c (entries ! k)) ctx path =
     ctx\<lparr>cx_messages := cx_messages ctx @ concat (map (\<lambda>k. entry_messages (entries ! k)) path)\<rparr>"
  by (induction path arbitrary: ctx) (simp_all add: emit_entry_message_def)

lemma fold_derive_messages:
  "cx_messages (fold (\<lambda>k. derive_state (entries ! k)) path ctx) = cx_messages ctx"
  by (induction path arbitrary: ctx)
    (simp_all add: derive_state_def split: session_entry_value.split option.split message_variant.split)

lemma find_rev_last:
  "P c \<Longrightarrow> \<forall>k\<in>set post. \<not> P k \<Longrightarrow> find P (rev (pre @ c # post)) = Some c"
proof -
  have "find P (xs @ c # ys) = Some c" if "\<forall>k\<in>set xs. \<not> P k" "P c" for xs ys
    using that by (induction xs) auto
  then show "P c \<Longrightarrow> \<forall>k\<in>set post. \<not> P k \<Longrightarrow> find P (rev (pre @ c # post)) = Some c" by simp
qed

lemma skip_ids_eq:
  "c \<notin> set pre \<Longrightarrow>
   skip_ids entries f c found skip (pre @ c # post) =
     (skip \<union> (if found then {} else (\<lambda>k. se_id (entries ! k)) ` set (takeWhile (\<lambda>k. se_id (entries ! k) \<noteq> f) pre)))
       - {se_id (entries ! c)}"
proof (induction pre arbitrary: found skip)
  case (Cons k pre)
  then show ?case by (cases "found \<or> se_id (entries ! k) = f") (auto simp: Let_def)
qed (auto simp: Let_def)

lemma filter_skip:
  assumes d: "distinct (map (\<lambda>k. se_id (entries ! k)) (pre @ c # post))"
  shows "filter (\<lambda>k. se_id (entries ! k) \<notin>
      (\<lambda>k. se_id (entries ! k)) ` set (takeWhile P pre) - {se_id (entries ! c)}) (pre @ c # post) =
    dropWhile P pre @ c # post"
proof -
  let ?id = "\<lambda>k. se_id (entries ! k)" let ?tw = "takeWhile P pre" let ?dw = "dropWhile P pre"
  have "pre = ?tw @ ?dw" by simp
  then have "distinct (map ?id (?tw @ ?dw @ c # post))" using d by (metis append.assoc)
  then have dis: "?id ` set ?tw \<inter> ?id ` set (?dw @ c # post) = {}" "?id c \<notin> ?id ` set ?tw" by auto
  have "filter (\<lambda>k. ?id k \<notin> ?id ` set ?tw - {?id c}) ?tw = []"
    using dis(2) by (auto simp: filter_empty_conv)
  moreover have "filter (\<lambda>k. ?id k \<notin> ?id ` set ?tw - {?id c}) (?dw @ c # post) = ?dw @ c # post"
    using dis(1) by (intro filter_True) blast
  ultimately have "filter (\<lambda>k. ?id k \<notin> ?id ` set ?tw - {?id c}) (?tw @ ?dw @ c # post) = ?dw @ c # post"
    by simp
  then show ?thesis by (metis append.assoc takeWhile_dropWhile_id)
qed

text \<open>The reference: which messages a path with its last compaction at \<open>c\<close> stands for.\<close>

definition compacted_messages :: "session_entry list \<Rightarrow> nat list \<Rightarrow> nat \<Rightarrow> nat list \<Rightarrow> message_variant list" where
  "compacted_messages entries pre c post =
     (let e = entries ! c;
          systems = concat (map (\<lambda>k. entry_system (entries ! k)) pre);
          newer = concat (map (\<lambda>k. entry_messages (entries ! k)) post);
          summary = CompactionSummaryMessage
            (case compaction_value e of Some v \<Rightarrow> cp_summary v | None \<Rightarrow> [])
            (int (case compaction_value e of Some v \<Rightarrow> cp_tokens_before v | None \<Rightarrow> 0)) (se_timestamp e)
      in case retained_tail e of
           Some kept_tail \<Rightarrow>
             (if \<exists>m\<in>set kept_tail. is_system m then [] else systems) @ filter is_system kept_tail @ [summary] @
             filter (\<lambda>m. \<not> is_system m) kept_tail @ newer
         | None \<Rightarrow>
             let first_kept = (case compaction_value e of
                   Some v \<Rightarrow> (case cp_first_kept_entry_id v of Some i \<Rightarrow> i | None \<Rightarrow> []) | None \<Rightarrow> []);
                 kept = dropWhile (\<lambda>k. se_id (entries ! k) \<noteq> first_kept) pre
             in systems @ [summary] @ concat (map (\<lambda>k. entry_messages (entries ! k)) kept) @ newer)"

lemma compaction_contributes_nothing: "se_kind e = CompactionKind \<Longrightarrow> entry_messages e = []"
  by (simp add: entry_messages_def)

lemma context_of_compacted:
  assumes c: "se_kind (entries ! c) = CompactionKind" "\<forall>k\<in>set post. se_kind (entries ! k) \<noteq> CompactionKind"
    and d: "distinct (map (\<lambda>k. se_id (entries ! k)) (pre @ c # post))"
  shows "cx_messages (build_session_context_path entries (pre @ c # post)) = compacted_messages entries pre c post"
proof -
  have cpre: "c \<notin> set pre" using d by auto
  have found: "find (\<lambda>k. se_kind (entries ! k) = CompactionKind) (rev (pre @ c # post)) = Some c"
    by (rule find_rev_last) (use c in auto)
  have "takeWhile (\<lambda>k. k \<noteq> c) (pre @ c # post) = pre" using cpre by (induction pre) auto
  then have index: "length (takeWhile (\<lambda>k. k \<noteq> c) (pre @ c # post)) = length pre" by simp
  have skip: "filter (\<lambda>k. se_id (entries ! k) \<notin> skip_ids entries f c False {} (pre @ c # post)) (pre @ c # post) =
      dropWhile (\<lambda>k. se_id (entries ! k) \<noteq> f) pre @ c # post" for f
    using filter_skip [OF d, of "\<lambda>k. se_id (entries ! k) \<noteq> f"] by (simp add: skip_ids_eq [OF cpre])
  have start: "cx_messages (fold (\<lambda>k. derive_state (entries ! k)) (pre @ c # post) empty_context) = []"
    by (simp only: fold_derive_messages) (simp add: empty_context_def)
  show ?thesis
    unfolding build_session_context_path_def Let_def found option.case index skip foldl_emit compacted_messages_def
    using start compaction_contributes_nothing [OF c(1)]
    by (auto simp add: emit_compaction_messages_def Let_def entry_system_def split: option.split)
qed


section \<open>Sample sessions\<close>

definition message_entry :: "string \<Rightarrow> parent_id \<Rightarrow> message_variant \<Rightarrow> session_entry" where
  "message_entry i p m =
     \<lparr>se_kind = MessageKind, se_id = i, se_parent = p, se_timestamp = 0, se_message = Some m, se_value = NoValue,
      se_payload = JNull, se_raw_line = []\<rparr>"

definition compaction_entry :: "string \<Rightarrow> parent_id \<Rightarrow> string \<Rightarrow> session_entry" where
  "compaction_entry i p first_kept =
     \<lparr>se_kind = CompactionKind, se_id = i, se_parent = p, se_timestamp = 0, se_message = None,
      se_value = CompactionEntryValue \<lparr>cp_summary = ''s'', cp_first_kept_entry_id = Some first_kept,
        cp_tokens_before = 9, cp_retained_tail = None, cp_details = None, cp_usage = None, cp_from_hook = None\<rparr>,
      se_payload = JNull, se_raw_line = []\<rparr>"

definition below :: "string \<Rightarrow> parent_id" where
  "below i = \<lparr>pi_kind = EntryParent, pi_entry_id = i\<rparr>"

definition two_notes :: session_tree where
  "two_notes =
     append_entry (append_entry (session_tree_of []) (message_entry ''a'' (parent_id_from_optional None) (UserMessage JNull)))
       (message_entry ''b'' (below ''a'') (UserMessage JNull))"

definition own_parent_tree :: session_tree where
  "own_parent_tree = session_tree_of [message_entry ''a'' (below ''a'') (UserMessage JNull)]"

definition compacted_session :: "session_entry list" where
  "compacted_session =
     [message_entry ''u'' (parent_id_from_optional None) (UserMessage JNull),
      message_entry ''v'' (below ''u'') (SystemMessage JNull),
      compaction_entry ''c'' (below ''v'') ''v'',
      message_entry ''w'' (below ''c'') (UserMessage (JBool True))]"

lemma two_notes_reachable: "session_reachable two_notes"
proof -
  have "fresh_entry (session_tree_of []) (message_entry ''a'' (parent_id_from_optional None) (UserMessage JNull))"
    by code_simp
  moreover have "fresh_entry (append_entry (session_tree_of []) (message_entry ''a'' (parent_id_from_optional None) (UserMessage JNull)))
      (message_entry ''b'' (below ''a'') (UserMessage JNull))" by code_simp
  ultimately show ?thesis
    unfolding two_notes_def by (intro session_append session_start)
qed

section \<open>Properties\<close>

text \<open>
  C17. In a session whose entries the program appended itself, the walk from any entry to its
  root returns: it starts at the entry, each next entry is the effective parent of the one
  before and earlier in the file, and the last has no parent entry. For a file in which an
  entry names itself as parent the walk never returns.
\<close>

theorem branch_walk_ends:
  "(session_reachable t \<and> i \<noteq> [] \<and> get_entry t i = Some k \<longrightarrow>
      (\<exists>path. get_branch t i = Some path \<and> is_branch t k path)) \<and>
   get_branch own_parent_tree ''a'' = None"
proof (intro conjI impI)
  assume a: "session_reachable t \<and> i \<noteq> [] \<and> get_entry t i = Some k"
  then have ok: "tree_ok t" using session_reachable_ok by blast
  then have "k < length (sx_entries t)" using a by (simp add: tree_ok_def index_exact_def get_entry_def)
  then show "\<exists>path. get_branch t i = Some path \<and> is_branch t k path"
    using branch_walk_returns [OF ok] a by (auto simp: get_branch_def)
next
  have "parent_index own_parent_tree 0 = Some 0" by code_simp
  moreover have "get_entry own_parent_tree ''a'' = Some 0" by code_simp
  ultimately show "get_branch own_parent_tree ''a'' = None"
    by (simp add: get_branch_def branch_walk_self)
qed

theorem branch_walk_ends_witness:
  "\<exists>path. get_branch two_notes ''b'' = Some path \<and> is_branch two_notes 1 path"
proof -
  have "get_entry two_notes ''b'' = Some 1" by code_simp
  then show ?thesis using branch_walk_ends [of two_notes "''b''" 1] two_notes_reachable by simp
qed

text \<open>
  C33. The display tree agrees with the walk: in a session the program appended itself it shows
  every entry exactly once, and the children of a node are the entries whose walk to the root
  continues with that node.
\<close>

theorem display_tree_complete:
  assumes "session_reachable t"
  shows "mset (concat (map node_ids (get_tree t))) = mset (map se_id (sx_entries t)) \<and>
    (\<forall>x\<in>set (concat (map all_nodes (get_tree t))). \<exists>k<length (sx_entries t).
       se_id (node_entry x) = se_id (sx_entries t ! k) \<and>
       (\<lambda>n. se_id (node_entry n)) ` set (node_children x) =
       (\<lambda>j. se_id (sx_entries t ! j)) ` {j. j < length (sx_entries t) \<and> parent_index t j = Some k})"
  using get_tree_once get_tree_children session_reachable_ok [OF assms] by blast

theorem display_tree_complete_witness:
  "mset (concat (map node_ids (get_tree two_notes))) = {#''a'', ''b''#}"
proof -
  have "map se_id (sx_entries two_notes) = [''a'', ''b'']" by code_simp
  then show ?thesis using display_tree_complete [OF two_notes_reachable] by simp
qed

text \<open>
  C34. Loading a session file gives the same tree, leaf included, as starting empty and
  appending its entries one after the other, provided every tracked entry has an id.
\<close>

theorem loading_is_appending:
  assumes "\<forall>e\<in>set es. tracked e \<longrightarrow> se_id e \<noteq> []"
  shows "session_tree_of es = foldl append_entry (session_tree_of []) es"
  using assms by (rule load_append)

theorem loading_is_appending_witness:
  "session_tree_of compacted_session = foldl append_entry (session_tree_of []) compacted_session"
  by (rule loading_is_appending) code_simp

text \<open>
  C18. The context of a path with a compaction, for entries with different ids: with a retained
  tail it is the system messages, the summary, the rest of the tail and everything after the
  compaction; without, it is the system messages before the compaction, the summary, the
  entries from the first kept one on, and everything after. A system message inside the kept
  range therefore occurs twice.
\<close>

theorem compacted_context:
  "(se_kind (entries ! c) = CompactionKind \<and> (\<forall>k\<in>set post. se_kind (entries ! k) \<noteq> CompactionKind) \<and>
    distinct (map (\<lambda>k. se_id (entries ! k)) (pre @ c # post)) \<longrightarrow>
      cx_messages (build_session_context_path entries (pre @ c # post)) = compacted_messages entries pre c post) \<and>
   map_option cx_messages (build_session_context (session_tree_of compacted_session)) =
     Some [SystemMessage JNull, CompactionSummaryMessage ''s'' 9 0, SystemMessage JNull, UserMessage (JBool True)]"
proof (intro conjI impI)
  show "cx_messages (build_session_context_path entries (pre @ c # post)) = compacted_messages entries pre c post"
    if "se_kind (entries ! c) = CompactionKind \<and> (\<forall>k\<in>set post. se_kind (entries ! k) \<noteq> CompactionKind) \<and>
      distinct (map (\<lambda>k. se_id (entries ! k)) (pre @ c # post))"
    using context_of_compacted that by blast
  show "map_option cx_messages (build_session_context (session_tree_of compacted_session)) =
     Some [SystemMessage JNull, CompactionSummaryMessage ''s'' 9 0, SystemMessage JNull, UserMessage (JBool True)]"
    by code_simp
qed

theorem compacted_context_witness:
  "cx_messages (build_session_context_path compacted_session [0, 1, 2, 3]) = compacted_messages compacted_session [0, 1] 2 [3]"
proof -
  have "se_kind (compacted_session ! 2) = CompactionKind \<and> (\<forall>k\<in>set [3]. se_kind (compacted_session ! k) \<noteq> CompactionKind) \<and>
      distinct (map (\<lambda>k. se_id (compacted_session ! k)) ([0, 1] @ 2 # [3]))" by code_simp
  then show ?thesis using compacted_context [of compacted_session 2 "[3]" "[0, 1]"] by simp
qed

end
