(* ===== verification/Sse_Parser.thy ===== *)
theory Sse_Parser
  imports Prelude
begin

text \<open>
  \<^verbatim>\<open>src/src/support/SseParser.cpp\<close>: the incremental parser for server-sent events. Bytes
  arrive in chunks of any size; a line is handled when its newline arrived. The laws relate
  the chunked parser to a parser of the whole stream: how the bytes are cut into chunks does
  not matter, as long as the pending line stays below the limit.
\<close>

section \<open>The parser\<close>

record sse_event =
  ev_event :: string
  ev_data :: string
  ev_done :: bool

record sse_parser =
  ps_pending :: string
  ps_event_name :: string
  ps_data_lines :: "string list"

datatype sse_error = BufferLimitExceeded

definition kMaxPendingBytes :: nat where
  "kMaxPendingBytes = 8 * 1024 * 1024"

definition kLineFeed :: char where
  "kLineFeed = CHR 0x0A"

definition strip_trailing_cr :: "string \<Rightarrow> string" where
  "strip_trailing_cr line = (if line \<noteq> [] \<and> last line = CHR 0x0D then butlast line else line)"

fun join_lines :: "string list \<Rightarrow> string" where
  "join_lines [] = []"
| "join_lines [l] = l"
| "join_lines (l # ls) = l @ kLineFeed # join_lines ls"

definition dispatch_event :: "sse_parser \<Rightarrow> sse_parser \<times> sse_event option" where
  "dispatch_event p =
     (if ps_event_name p = [] \<and> ps_data_lines p = [] then (p, None)
      else let body = join_lines (ps_data_lines p)
           in (p\<lparr>ps_event_name := [], ps_data_lines := []\<rparr>,
               Some \<lparr>ev_event = (if ps_event_name p = [] then ''message'' else ps_event_name p),
                     ev_data = body, ev_done = (body = ''[DONE]'')\<rparr>))"

definition field_of :: "string \<Rightarrow> string" where
  "field_of line = takeWhile (\<lambda>c. c \<noteq> CHR '':'') line"

definition value_of :: "string \<Rightarrow> string" where
  "value_of line =
     (let v = drop 1 (dropWhile (\<lambda>c. c \<noteq> CHR '':'') line)
      in if v \<noteq> [] \<and> hd v = CHR '' '' then tl v else v)"

definition consume_line :: "sse_parser \<Rightarrow> string \<Rightarrow> sse_parser \<times> sse_event option" where
  "consume_line p line =
     (if line = [] then dispatch_event p
      else if hd line = CHR '':'' then (p, None)
      else if field_of line = ''event'' then (p\<lparr>ps_event_name := value_of line\<rparr>, None)
      else if field_of line = ''data'' then (p\<lparr>ps_data_lines := ps_data_lines p @ [value_of line]\<rparr>, None)
      else (p, None))"

definition event_list :: "sse_event option \<Rightarrow> sse_event list" where
  "event_list o_ev = (case o_ev of None \<Rightarrow> [] | Some ev \<Rightarrow> [ev])"

lemma consume_line_pending: "ps_pending (fst (consume_line p line)) = ps_pending p"
  by (simp add: consume_line_def dispatch_event_def Let_def)

text \<open>The loop over the complete lines of the pending bytes.\<close>

function consume_pending :: "sse_parser \<Rightarrow> sse_event list \<Rightarrow> sse_parser \<times> sse_event list" where
  "consume_pending p events =
     (if kLineFeed \<notin> set (ps_pending p) then (p, events)
      else let line = takeWhile (\<lambda>c. c \<noteq> kLineFeed) (ps_pending p);
               rest = drop (length line + 1) (ps_pending p);
               (q, ev) = consume_line (p\<lparr>ps_pending := rest\<rparr>) (strip_trailing_cr line)
           in consume_pending q (events @ event_list ev))"
  by pat_completeness auto

termination
proof (relation "measure (\<lambda>(p, _). length (ps_pending p))")
  fix p :: sse_parser and events line rest x q ev
  assume a: "\<not> kLineFeed \<notin> set (ps_pending p)" "line = takeWhile (\<lambda>c. c \<noteq> kLineFeed) (ps_pending p)"
    "rest = drop (length line + 1) (ps_pending p)" "x = consume_line (p\<lparr>ps_pending := rest\<rparr>) (strip_trailing_cr line)"
    "(q, ev) = x"
  then have "ps_pending q = rest" using consume_line_pending by (metis fst_conv sse_parser.select_convs(1) sse_parser.surjective sse_parser.update_convs(1))
  moreover have "ps_pending p \<noteq> []" using a(1) by auto
  ultimately show "((q, events @ event_list ev), (p, events)) \<in> measure (\<lambda>(p, _). length (ps_pending p))"
    using a(3) by simp
qed simp

declare consume_pending.simps [simp del]

definition sse_append :: "sse_parser \<Rightarrow> string \<Rightarrow> sse_parser \<times> (sse_error, sse_event list) result" where
  "sse_append p bytes =
     (if length (ps_pending p) + length bytes > kMaxPendingBytes then (p, Inl BufferLimitExceeded)
      else let (q, events) = consume_pending (p\<lparr>ps_pending := ps_pending p @ bytes\<rparr>) [] in (q, Inr events))"

definition sse_finish :: "sse_parser \<Rightarrow> sse_parser \<times> sse_event option" where
  "sse_finish p =
     (if ps_pending p = [] then dispatch_event p
      else (case consume_line (p\<lparr>ps_pending := []\<rparr>) (strip_trailing_cr (ps_pending p)) of
              (q, Some ev) \<Rightarrow> (q, Some ev)
            | (q, None) \<Rightarrow> dispatch_event q))"

definition sse_reset :: "sse_parser \<Rightarrow> sse_parser" where
  "sse_reset p = p\<lparr>ps_pending := [], ps_event_name := [], ps_data_lines := []\<rparr>"

definition sse_init :: sse_parser where
  "sse_init = \<lparr>ps_pending = [], ps_event_name = [], ps_data_lines = []\<rparr>"


section \<open>Cutting the stream\<close>

lemma consume_line_with:
  "consume_line (p\<lparr>ps_pending := x\<rparr>) line = (let (q, ev) = consume_line p line in (q\<lparr>ps_pending := x\<rparr>, ev))"
  by (simp add: consume_line_def dispatch_event_def Let_def)

lemma consume_pending_none: "kLineFeed \<notin> set (ps_pending p) \<Longrightarrow> consume_pending p events = (p, events)"
  by (subst consume_pending.simps) simp

lemma consume_pending_line:
  assumes "kLineFeed \<notin> set line"
  shows "consume_pending (p\<lparr>ps_pending := line @ kLineFeed # rest\<rparr>) events =
    (let (q, ev) = consume_line p (strip_trailing_cr line)
     in consume_pending (q\<lparr>ps_pending := rest\<rparr>) (events @ event_list ev))"
proof -
  have "takeWhile (\<lambda>c. c \<noteq> kLineFeed) (line @ kLineFeed # rest) = line"
    using assms by (induction line) auto
  then show ?thesis
    by (subst consume_pending.simps) (simp add: consume_line_with Let_def split: prod.split)
qed

lemma split_line: "kLineFeed \<in> set s \<Longrightarrow> \<exists>line rest. s = line @ kLineFeed # rest \<and> kLineFeed \<notin> set line"
  by (metis split_list_first)

lemma consume_pending_append:
  "consume_pending (p\<lparr>ps_pending := a @ b\<rparr>) events =
     (let (q, es) = consume_pending (p\<lparr>ps_pending := a\<rparr>) events
      in consume_pending (q\<lparr>ps_pending := ps_pending q @ b\<rparr>) es)"
proof (induction "length a" arbitrary: a p events rule: less_induct)
  case less
  show ?case
  proof (cases "kLineFeed \<in> set a")
    case False
    then show ?thesis by (simp add: consume_pending_none)
  next
    case True
    then obtain line rest where a: "a = line @ kLineFeed # rest" "kLineFeed \<notin> set line"
      using split_line by blast
    obtain q ev where q: "consume_line p (strip_trailing_cr line) = (q, ev)" by fastforce
    show ?thesis
      using less.hyps [of rest q "events @ event_list ev"] a q by (simp add: consume_pending_line)
  qed
qed

lemma consume_pending_accumulate:
  "consume_pending (p\<lparr>ps_pending := a\<rparr>) (xs @ events) =
     (let (q, es) = consume_pending (p\<lparr>ps_pending := a\<rparr>) events in (q, xs @ es))"
proof (induction "length a" arbitrary: a p events rule: less_induct)
  case less
  show ?case
  proof (cases "kLineFeed \<in> set a")
    case False
    then show ?thesis by (simp add: consume_pending_none)
  next
    case True
    then obtain line rest where a: "a = line @ kLineFeed # rest" "kLineFeed \<notin> set line"
      using split_line by blast
    obtain q ev where q: "consume_line p (strip_trailing_cr line) = (q, ev)" by fastforce
    show ?thesis
      using less.hyps [of rest q "events @ event_list ev"] a q by (simp add: consume_pending_line)
  qed
qed

text \<open>Feeding chunks one after the other.\<close>

fun feed :: "sse_parser \<Rightarrow> string list \<Rightarrow> sse_parser \<times> (sse_error, sse_event list) result" where
  "feed p [] = (p, Inr [])"
| "feed p (c # cs) =
     (case sse_append p c of
        (q, Inl e) \<Rightarrow> (q, Inl e)
      | (q, Inr es) \<Rightarrow> (case feed q cs of (r, Inl e) \<Rightarrow> (r, Inl e) | (r, Inr fs) \<Rightarrow> (r, Inr (es @ fs))))"

lemma consume_pending_residue: "kLineFeed \<notin> set (ps_pending (fst (consume_pending p events)))"
proof (induction p events rule: consume_pending.induct)
  case (1 p events)
  then show ?case
    by (subst consume_pending.simps) (auto simp: Let_def split: prod.split)
qed

lemma consume_pending_shrinks: "length (ps_pending (fst (consume_pending p events))) \<le> length (ps_pending p)"
proof (induction p events rule: consume_pending.induct)
  case (1 p events)
  show ?case
  proof (cases "kLineFeed \<in> set (ps_pending p)")
    case True
    let ?line = "takeWhile (\<lambda>c. c \<noteq> kLineFeed) (ps_pending p)"
    let ?rest = "drop (length ?line + 1) (ps_pending p)"
    obtain q ev where q: "consume_line (p\<lparr>ps_pending := ?rest\<rparr>) (strip_trailing_cr ?line) = (q, ev)" by fastforce
    have "ps_pending q = ?rest" using consume_line_pending [of "p\<lparr>ps_pending := ?rest\<rparr>"] q by (metis fst_conv sse_parser.select_convs(1) sse_parser.surjective sse_parser.update_convs(1))
    then have "length (ps_pending q) \<le> length (ps_pending p)" by simp
    moreover have "length (ps_pending (fst (consume_pending q (events @ event_list ev)))) \<le> length (ps_pending q)"
      using 1 True q by (simp add: Let_def)
    moreover have "consume_pending p events = consume_pending q (events @ event_list ev)"
      using True q by (subst consume_pending.simps) (simp add: Let_def)
    ultimately show ?thesis by simp
  next
    case False
    then show ?thesis by (simp add: consume_pending_none)
  qed
qed

lemma feed_whole:
  assumes "kLineFeed \<notin> set (ps_pending p)" "length (ps_pending p) + length (concat cs) \<le> kMaxPendingBytes"
  shows "feed p cs =
    (let (q, es) = consume_pending (p\<lparr>ps_pending := ps_pending p @ concat cs\<rparr>) [] in (q, Inr es))"
  using assms
proof (induction cs arbitrary: p)
  case Nil
  then show ?case by (simp add: consume_pending_none)
next
  case (Cons c cs)
  obtain q es where q: "consume_pending (p\<lparr>ps_pending := ps_pending p @ c\<rparr>) [] = (q, es)" by fastforce
  have res: "kLineFeed \<notin> set (ps_pending q)"
    using consume_pending_residue [of "p\<lparr>ps_pending := ps_pending p @ c\<rparr>" "[]"] q by simp
  have le: "length (ps_pending q) \<le> length (ps_pending p) + length c"
    using consume_pending_shrinks [of "p\<lparr>ps_pending := ps_pending p @ c\<rparr>" "[]"] q by simp
  obtain r fs where r: "consume_pending (q\<lparr>ps_pending := ps_pending q @ concat cs\<rparr>) [] = (r, fs)" by fastforce
  have "feed q cs = (r, Inr fs)"
    using Cons.IH [OF res] Cons.prems(2) le r by simp
  moreover have "sse_append p c = (q, Inr es)"
    using Cons.prems(2) q by (simp add: sse_append_def)
  moreover have "consume_pending (p\<lparr>ps_pending := ps_pending p @ c @ concat cs\<rparr>) [] = (r, es @ fs)"
    using consume_pending_append [where p = p and a = "ps_pending p @ c" and b = "concat cs" and events = "[]"] q r
      consume_pending_accumulate [where p = q and a = "ps_pending q @ concat cs" and xs = es and events = "[]"] by simp
  ultimately show ?case by simp
qed

section \<open>Rendering events\<close>

text \<open>A text that one line of the stream can carry.\<close>

definition line_text :: "string \<Rightarrow> bool" where
  "line_text s \<longleftrightarrow> kLineFeed \<notin> set s \<and> (s = [] \<or> last s \<noteq> CHR 0x0D)"

definition render_event :: "string \<times> string list \<Rightarrow> string" where
  "render_event m =
     ''event: '' @ fst m @ [kLineFeed] @ concat (map (\<lambda>l. ''data: '' @ l @ [kLineFeed]) (snd m)) @ [kLineFeed]"

definition event_of :: "string \<times> string list \<Rightarrow> sse_event" where
  "event_of m = \<lparr>ev_event = fst m, ev_data = join_lines (snd m), ev_done = (join_lines (snd m) = ''[DONE]'')\<rparr>"

definition message_text :: "string \<times> string list \<Rightarrow> bool" where
  "message_text m \<longleftrightarrow> fst m \<noteq> [] \<and> line_text (fst m) \<and> list_all line_text (snd m)"

lemma strip_text: "line_text s \<Longrightarrow> strip_trailing_cr (''data: '' @ s) = ''data: '' @ s"
  "line_text s \<Longrightarrow> strip_trailing_cr (''event: '' @ s) = ''event: '' @ s"
  by (auto simp: strip_trailing_cr_def line_text_def)

lemma consume_fields:
  "consume_line p (''data: '' @ s) = (p\<lparr>ps_data_lines := ps_data_lines p @ [s]\<rparr>, None)"
  "consume_line p (''event: '' @ s) = (p\<lparr>ps_event_name := s\<rparr>, None)"
  by (simp_all add: consume_line_def field_of_def value_of_def)

lemma consume_data_lines:
  "list_all line_text ls \<Longrightarrow>
   consume_pending (p\<lparr>ps_pending := concat (map (\<lambda>l. ''data: '' @ l @ [kLineFeed]) ls) @ rest\<rparr>) events =
   consume_pending (p\<lparr>ps_data_lines := ps_data_lines p @ ls, ps_pending := rest\<rparr>) events"
proof (induction ls arbitrary: p)
  case (Cons l ls)
  have "kLineFeed \<notin> set (''data: '' @ l)" using Cons.prems by (auto simp: line_text_def kLineFeed_def)
  note step = consume_pending_line [OF this, where p = p and events = events and
      rest = "concat (map (\<lambda>l. ''data: '' @ l @ [kLineFeed]) ls) @ rest"]
  show ?case
    using step Cons.prems Cons.IH [of "p\<lparr>ps_data_lines := ps_data_lines p @ [l]\<rparr>"]
    by (simp add: strip_text [simplified] consume_fields [simplified] event_list_def)
qed simp

lemma consume_rendered:
  assumes m: "message_text m"
  shows "consume_pending (sse_init\<lparr>ps_pending := render_event m @ rest\<rparr>) events =
    consume_pending (sse_init\<lparr>ps_pending := rest\<rparr>) (events @ [event_of m])"
proof -
  let ?ls = "concat (map (\<lambda>l. ''data: '' @ l @ [kLineFeed]) (snd m))"
  have name: "kLineFeed \<notin> set (''event: '' @ fst m)" using m by (auto simp: message_text_def line_text_def kLineFeed_def)
  have "consume_pending (sse_init\<lparr>ps_pending := (''event: '' @ fst m) @ kLineFeed # ?ls @ kLineFeed # rest\<rparr>) events =
      consume_pending (sse_init\<lparr>ps_event_name := fst m, ps_pending := ?ls @ kLineFeed # rest\<rparr>) events"
    unfolding consume_pending_line [OF name] using m
    by (simp only: strip_text consume_fields message_text_def) (simp add: event_list_def)
  also have "\<dots> = consume_pending (sse_init\<lparr>ps_event_name := fst m, ps_data_lines := snd m, ps_pending := kLineFeed # rest\<rparr>) events"
    using consume_data_lines [where ls = "snd m" and p = "sse_init\<lparr>ps_event_name := fst m\<rparr>" and rest = "kLineFeed # rest" and events = events] m
    by (simp add: message_text_def sse_init_def)
  also have "\<dots> = consume_pending (sse_init\<lparr>ps_pending := rest\<rparr>) (events @ [event_of m])"
    using consume_pending_line [where line = "[]" and p = "sse_init\<lparr>ps_event_name := fst m, ps_data_lines := snd m\<rparr>" and rest = rest and events = events] m
    by (simp add: strip_trailing_cr_def consume_line_def dispatch_event_def Let_def event_list_def event_of_def
        message_text_def sse_init_def)
  finally show ?thesis by (simp add: render_event_def)
qed

lemma consume_all_rendered:
  "list_all message_text ms \<Longrightarrow>
   consume_pending (sse_init\<lparr>ps_pending := concat (map render_event ms)\<rparr>) events = (sse_init, events @ map event_of ms)"
proof (induction ms arbitrary: events)
  case Nil
  then show ?case by (simp add: consume_pending_none sse_init_def)
next
  case (Cons m ms)
  then show ?case by (simp add: consume_rendered)
qed

section \<open>Property\<close>

text \<open>
  C23. The event parser recovers what was sent, however the bytes are cut: for a stream of
  rendered events (names and data lines without line breaks, a name that is not empty) below
  the buffer limit, feeding it in chunks of any sizes yields exactly those events, in order,
  and leaves the parser as new.
\<close>

theorem sse_round_trip:
  assumes "list_all message_text ms" "concat cs = concat (map render_event ms)"
    "length (concat cs) \<le> kMaxPendingBytes"
  shows "feed sse_init cs = (sse_init, Inr (map event_of ms))"
  using feed_whole [of sse_init cs] consume_all_rendered [OF assms(1), of "[]"] assms
  by (simp add: sse_init_def)

theorem sse_round_trip_witness:
  "feed sse_init [''event: tick'', [kLineFeed] @ ''data: 1'' @ [kLineFeed], [kLineFeed]] =
   (sse_init, Inr [\<lparr>ev_event = ''tick'', ev_data = ''1'', ev_done = False\<rparr>])"
proof -
  have "concat [''event: tick'', [kLineFeed] @ ''data: 1'' @ [kLineFeed], [kLineFeed]] =
      concat (map render_event [(''tick'', [''1''])])" by (simp add: render_event_def)
  moreover have "list_all message_text [(''tick'', [''1''])]" by code_simp
  moreover have "length (concat [''event: tick'', [kLineFeed] @ ''data: 1'' @ [kLineFeed], [kLineFeed]]) \<le> kMaxPendingBytes"
    by (simp add: kMaxPendingBytes_def)
  ultimately have "feed sse_init [''event: tick'', [kLineFeed] @ ''data: 1'' @ [kLineFeed], [kLineFeed]] =
      (sse_init, Inr (map event_of [(''tick'', [''1''])]))"
    by (intro sse_round_trip)
  then show ?thesis by (simp add: event_of_def)
qed

end
