(* ===== verification/Json_Text.thy ===== *)
theory Json_Text
  imports Chord_Json "HOL-Library.List_Lexorder" "HOL-Library.Char_ord"
begin

text \<open>
  \<^verbatim>\<open>src/src/support/Json.cpp\<close>: the hand-written JSON parser and writer. The parser's position
  is the remaining text; the texts and offsets of its messages are left out, the kinds of
  failure are kept. A value nested in an array or object is read with a smaller fuel; as every
  such call has consumed a character, the length of the text is enough. The conversions of the
  standard library enter as arguments: \<open>to_chars\<close> gives the scientific text of a double,
  \<open>round_double\<close> the double nearest to a decimal value, or nothing when it is out of range.
\<close>

section \<open>Parser\<close>

datatype json_text_error =
    UnexpectedEnd
  | ExpectedColon
  | ExpectedCommaOrBrace
  | TrailingCommaObject
  | ExpectedCommaOrBracket
  | TrailingCommaArray
  | ExpectedString
  | UnterminatedEscape
  | InvalidUnicodeEscape
  | InvalidSurrogatePair
  | UnpairedHighSurrogate
  | UnpairedLowSurrogate
  | InvalidEscape
  | ControlCharacter
  | UnterminatedString
  | InvalidNumber
  | LeadingZero
  | FractionRequiresDigits
  | NumberOutOfRange
  | InvalidLiteral
  | UnexpectedCharacter
  | OutOfFuel

definition is_ws :: "char \<Rightarrow> bool" where
  "is_ws c \<longleftrightarrow> c = CHR '' '' \<or> c = CHR 0x09 \<or> c = CHR 0x0A \<or> c = CHR 0x0D"

definition skip_ws :: "string \<Rightarrow> string" where
  "skip_ws s = dropWhile is_ws s"

definition consume :: "char \<Rightarrow> string \<Rightarrow> string option" where
  "consume expected s = (case s of [] \<Rightarrow> None | c # cs \<Rightarrow> if c = expected then Some cs else None)"

definition append_utf8 :: "nat \<Rightarrow> string" where
  "append_utf8 cp =
     map char_of
       (if cp < 0x80 then [cp]
        else if cp < 0x800 then [0xC0 + cp div 64, 0x80 + cp mod 64]
        else if cp < 0x10000 then [0xE0 + cp div 4096, 0x80 + cp div 64 mod 64, 0x80 + cp mod 64]
        else [0xF0 + cp div 262144, 0x80 + cp div 4096 mod 64, 0x80 + cp div 64 mod 64, 0x80 + cp mod 64])"

definition hex_digit :: "char \<Rightarrow> nat option" where
  "hex_digit c =
     (let n = of_char c
      in if 48 \<le> n \<and> n \<le> 57 then Some (n - 48)
         else if 97 \<le> n \<and> n \<le> 102 then Some (n - 97 + 10)
         else if 65 \<le> n \<and> n \<le> 70 then Some (n - 65 + 10)
         else None)"

fun hex_digits :: "nat \<Rightarrow> string \<Rightarrow> nat option" where
  "hex_digits v [] = Some v"
| "hex_digits v (c # cs) = (case hex_digit c of None \<Rightarrow> None | Some d \<Rightarrow> hex_digits (16 * v + d) cs)"

definition parse_hex4 :: "string \<Rightarrow> (nat \<times> string) option" where
  "parse_hex4 s =
     (if length s < 4 then None
      else (case hex_digits 0 (take 4 s) of None \<Rightarrow> None | Some v \<Rightarrow> Some (v, drop 4 s)))"

definition simple_escape :: "char \<Rightarrow> char option" where
  "simple_escape c =
     (if c = CHR 0x22 \<or> c = CHR 0x5C \<or> c = CHR ''/'' then Some c
      else if c = CHR ''b'' then Some (CHR 0x08)
      else if c = CHR ''f'' then Some (CHR 0x0C)
      else if c = CHR ''n'' then Some (CHR 0x0A)
      else if c = CHR ''r'' then Some (CHR 0x0D)
      else if c = CHR ''t'' then Some (CHR 0x09)
      else None)"

text \<open>The escape after \<^verbatim>\<open>\u\<close>: the bytes it stands for and the rest of the text.\<close>

definition unicode_escape :: "string \<Rightarrow> (json_text_error, string \<times> string) result" where
  "unicode_escape s =
     (case parse_hex4 s of
        None \<Rightarrow> Inl InvalidUnicodeEscape
      | Some (first, r) \<Rightarrow>
          if 0xD800 \<le> first \<and> first \<le> 0xDBFF
          then (case r of
                  c # d # r' \<Rightarrow>
                    if c = CHR 0x5C \<and> d = CHR ''u''
                    then (case parse_hex4 r' of
                            None \<Rightarrow> Inl InvalidSurrogatePair
                          | Some (second, r'') \<Rightarrow>
                              if second < 0xDC00 \<or> second > 0xDFFF then Inl InvalidSurrogatePair
                              else Inr (append_utf8 (0x10000 + (first - 0xD800) * 1024 + (second - 0xDC00)), r''))
                    else Inl UnpairedHighSurrogate
                | _ \<Rightarrow> Inl UnpairedHighSurrogate)
          else if 0xDC00 \<le> first \<and> first \<le> 0xDFFF then Inl UnpairedLowSurrogate
          else Inr (append_utf8 first, r))"

lemma parse_hex4_length: "parse_hex4 s = Some (v, r) \<Longrightarrow> length r < length s"
  by (auto simp: parse_hex4_def split: if_splits option.splits)

lemma unicode_escape_length: "unicode_escape s = Inr (out, r) \<Longrightarrow> length r < length s"
proof (cases "parse_hex4 s")
  case (Some p)
  obtain first q where p: "p = (first, q)" by (cases p)
  assume "unicode_escape s = Inr (out, r)"
  moreover have "length q < length s" using Some p by (auto dest: parse_hex4_length)
  ultimately show ?thesis
    using Some p
    by (auto simp: unicode_escape_def dest!: parse_hex4_length split: if_splits list.splits option.splits)
qed (simp add: unicode_escape_def)

text \<open>The characters of a string after its opening quote.\<close>

function parse_chars :: "string \<Rightarrow> (json_text_error, string \<times> string) result" where
  "parse_chars [] = Inl UnterminatedString"
| "parse_chars (c # cs) =
     (if c = CHR 0x22 then Inr ([], cs)
      else if c = CHR 0x5C
      then (case cs of
              [] \<Rightarrow> Inl UnterminatedEscape
            | e # ds \<Rightarrow>
                (case simple_escape e of
                   Some x \<Rightarrow> bind_r (parse_chars ds) (\<lambda>(out, r). Inr (x # out, r))
                 | None \<Rightarrow>
                     if e = CHR ''u''
                     then (case unicode_escape ds of
                             Inl err \<Rightarrow> Inl err
                           | Inr (bytes, r) \<Rightarrow> bind_r (parse_chars r) (\<lambda>(out, r'). Inr (bytes @ out, r')))
                     else Inl InvalidEscape))
      else if of_char c < (0x20 :: nat) then Inl ControlCharacter
      else bind_r (parse_chars cs) (\<lambda>(out, r). Inr (c # out, r)))"
  by pat_completeness auto
termination
  by (relation "measure length") (auto dest: unicode_escape_length)

definition parse_string :: "string \<Rightarrow> (json_text_error, string \<times> string) result" where
  "parse_string s = (case consume (CHR 0x22) s of None \<Rightarrow> Inl ExpectedString | Some r \<Rightarrow> parse_chars r)"

subsection \<open>Numbers\<close>

definition is_digit :: "char \<Rightarrow> bool" where
  "is_digit c \<longleftrightarrow> 48 \<le> (of_char c :: nat) \<and> (of_char c :: nat) \<le> 57"

definition digits_of :: "string \<Rightarrow> string" where
  "digits_of s = takeWhile is_digit s"

definition starts_digit :: "string \<Rightarrow> bool" where
  "starts_digit s \<longleftrightarrow> s \<noteq> [] \<and> is_digit (hd s)"

text \<open>The three parts of a number token: each returns the characters it takes.\<close>

definition scan_integer :: "string \<Rightarrow> (json_text_error, string) result" where
  "scan_integer s =
     (if s = [] then Inl InvalidNumber
      else if hd s = CHR ''0'' then (if starts_digit (tl s) then Inl LeadingZero else Inr ''0'')
      else if is_digit (hd s) then Inr (digits_of s)
      else Inl InvalidNumber)"

definition scan_fraction :: "string \<Rightarrow> (json_text_error, string) result" where
  "scan_fraction s =
     (if s \<noteq> [] \<and> hd s = CHR ''.''
      then (if starts_digit (tl s) then Inr (CHR ''.'' # digits_of (tl s)) else Inl FractionRequiresDigits)
      else Inr [])"

definition scan_exponent :: "string \<Rightarrow> string" where
  "scan_exponent s =
     (if s \<noteq> [] \<and> (hd s = CHR ''e'' \<or> hd s = CHR ''E'')
      then let sign = (if tl s \<noteq> [] \<and> (hd (tl s) = CHR ''+'' \<or> hd (tl s) = CHR ''-'') then [hd (tl s)] else []);
               body = drop (length sign) (tl s)
           in if starts_digit body then hd s # sign @ digits_of body else []
      else [])"

definition scan_sign :: "string \<Rightarrow> string" where
  "scan_sign s = (if s \<noteq> [] \<and> hd s = CHR ''-'' then ''-'' else [])"

definition scan_number :: "string \<Rightarrow> (json_text_error, string) result" where
  "scan_number s =
     (let sign = scan_sign s; s1 = drop (length sign) s
      in bind_r (scan_integer s1) (\<lambda>whole.
           let s2 = drop (length whole) s1
           in bind_r (scan_fraction s2) (\<lambda>fraction.
                Inr (sign @ whole @ fraction @ scan_exponent (drop (length fraction) s2)))))"

text \<open>\<^verbatim>\<open>std::from_chars\<close>: the decimal value of a token, rounded.\<close>

definition exponent_value :: "string \<Rightarrow> int" where
  "exponent_value s =
     (case s of
        [] \<Rightarrow> 0
      | _ # r \<Rightarrow>
          if r \<noteq> [] \<and> hd r = CHR ''-'' then - int (digits_value (tl r))
          else if r \<noteq> [] \<and> hd r = CHR ''+'' then int (digits_value (tl r))
          else int (digits_value r))"

definition decimal_value :: "string \<Rightarrow> rat" where
  "decimal_value token =
     (let sign = scan_sign token; t1 = drop (length sign) token;
          whole = digits_of t1; t2 = drop (length whole) t1;
          fraction = (if t2 \<noteq> [] \<and> hd t2 = CHR ''.'' then digits_of (tl t2) else []);
          t3 = (if t2 \<noteq> [] \<and> hd t2 = CHR ''.'' then drop (length fraction) (tl t2) else t2)
      in (if sign = [] then 1 else - 1) * of_nat (digits_value (whole @ fraction)) *
         10 powi (exponent_value t3 - int (length fraction)))"

definition from_chars :: "(rat \<Rightarrow> dbl option) \<Rightarrow> string \<Rightarrow> dbl option" where
  "from_chars round_double token =
     (if decimal_value token = 0 then Some (if scan_sign token = [] then DFin 0 else DNegZero)
      else round_double (decimal_value token))"

definition parse_number :: "(rat \<Rightarrow> dbl option) \<Rightarrow> string \<Rightarrow> (json_text_error, dbl \<times> string) result" where
  "parse_number round_double s =
     bind_r (scan_number s) (\<lambda>token.
       case from_chars round_double token of
         None \<Rightarrow> Inl NumberOutOfRange
       | Some d \<Rightarrow> Inr (d, drop (length token) s))"

subsection \<open>Values\<close>

definition parse_literal :: "string \<Rightarrow> support_json \<Rightarrow> string \<Rightarrow> (json_text_error, support_json \<times> string) result" where
  "parse_literal word v s =
     (if take (length word) s = word then Inr (v, drop (length word) s) else Inl InvalidLiteral)"

fun parse_value :: "(rat \<Rightarrow> dbl option) \<Rightarrow> nat \<Rightarrow> string \<Rightarrow> (json_text_error, support_json \<times> string) result"
  and parse_members ::
    "(rat \<Rightarrow> dbl option) \<Rightarrow> nat \<Rightarrow> support_json members \<Rightarrow> string \<Rightarrow> (json_text_error, support_json \<times> string) result"
  and parse_elements ::
    "(rat \<Rightarrow> dbl option) \<Rightarrow> nat \<Rightarrow> support_json list \<Rightarrow> string \<Rightarrow> (json_text_error, support_json \<times> string) result" where
  "parse_value round_double 0 s = Inl OutOfFuel"
| "parse_value round_double (Suc fuel) s =
     (case skip_ws s of
        [] \<Rightarrow> Inl UnexpectedEnd
      | c # cs \<Rightarrow>
          if c = CHR 0x22 then bind_r (parse_string (c # cs)) (\<lambda>(str, r). Inr (SStr str, r))
          else if c = CHR 0x7B
          then (case consume (CHR 0x7D) (skip_ws cs) of
                  Some r \<Rightarrow> Inr (SObj [], r)
                | None \<Rightarrow> parse_members round_double fuel [] (skip_ws cs))
          else if c = CHR 0x5B
          then (case consume (CHR 0x5D) (skip_ws cs) of
                  Some r \<Rightarrow> Inr (SArr [], r)
                | None \<Rightarrow> parse_elements round_double fuel [] (skip_ws cs))
          else if c = CHR ''t'' then parse_literal ''true'' (SBool True) (c # cs)
          else if c = CHR ''f'' then parse_literal ''false'' (SBool False) (c # cs)
          else if c = CHR ''n'' then parse_literal ''null'' SNull (c # cs)
          else if c = CHR ''-'' \<or> is_digit c
          then bind_r (parse_number round_double (c # cs)) (\<lambda>(d, r). Inr (SNum d, r))
          else Inl UnexpectedCharacter)"
| "parse_members round_double 0 ob s = Inl OutOfFuel"
| "parse_members round_double (Suc fuel) ob s =
     bind_r (parse_string (skip_ws s)) (\<lambda>(key, r1).
       case consume (CHR '':'') (skip_ws r1) of
         None \<Rightarrow> Inl ExpectedColon
       | Some r2 \<Rightarrow>
           bind_r (parse_value round_double fuel r2) (\<lambda>(v, r3).
             let ob' = insert_or_assign ob key v
             in case consume (CHR 0x7D) (skip_ws r3) of
                  Some r4 \<Rightarrow> Inr (SObj ob', r4)
                | None \<Rightarrow>
                    (case consume (CHR '','') (skip_ws r3) of
                       None \<Rightarrow> Inl ExpectedCommaOrBrace
                     | Some r5 \<Rightarrow>
                         if skip_ws r5 \<noteq> [] \<and> hd (skip_ws r5) = CHR 0x7D then Inl TrailingCommaObject
                         else parse_members round_double fuel ob' (skip_ws r5))))"
| "parse_elements round_double 0 a s = Inl OutOfFuel"
| "parse_elements round_double (Suc fuel) a s =
     bind_r (parse_value round_double fuel s) (\<lambda>(v, r1).
       case consume (CHR 0x5D) (skip_ws r1) of
         Some r2 \<Rightarrow> Inr (SArr (a @ [v]), r2)
       | None \<Rightarrow>
           (case consume (CHR '','') (skip_ws r1) of
              None \<Rightarrow> Inl ExpectedCommaOrBracket
            | Some r3 \<Rightarrow>
                if skip_ws r3 \<noteq> [] \<and> hd (skip_ws r3) = CHR 0x5D then Inl TrailingCommaArray
                else parse_elements round_double fuel (a @ [v]) (skip_ws r3)))"

text \<open>The first value of a text; what follows it is ignored.\<close>

definition json_fuel :: "string \<Rightarrow> nat" where
  "json_fuel s = 2 * length s + 2"

definition read_json :: "(rat \<Rightarrow> dbl option) \<Rightarrow> string \<Rightarrow> (json_text_error, support_json) result" where
  "read_json round_double s = bind_r (parse_value round_double (json_fuel s) s) (\<lambda>(v, _). Inr v)"


section \<open>Writer\<close>

text \<open>
  The text \<^verbatim>\<open>std::to_chars\<close> gives for a finite double in scientific format: a sign, the
  shortest digits that identify the double with the point after the first, and a signed
  exponent of at least two digits.
\<close>

definition scientific_text :: "bool \<Rightarrow> string \<Rightarrow> int \<Rightarrow> string" where
  "scientific_text negative ds e =
     (if negative then ''-'' else []) @ [hd ds] @ (if tl ds = [] then [] else CHR ''.'' # tl ds) @ ''e'' @
     (if e < 0 then ''-'' else ''+'') @ (if nat \<bar>e\<bar> < 10 then ''0'' else []) @ nat_digits (nat \<bar>e\<bar>)"

text \<open>The loops of \<^verbatim>\<open>format_number\<close> that take such a text apart again.\<close>

record number_parts =
  np_negative :: bool
  np_digits :: string
  np_exponent :: int

fun drop_trailing_zeros :: "string \<Rightarrow> nat \<Rightarrow> string" where
  "drop_trailing_zeros ds 0 = ds"
| "drop_trailing_zeros ds (Suc n) =
     (if length ds > 1 \<and> last ds = CHR ''0'' then drop_trailing_zeros (butlast ds) n else ds)"

definition read_exponent :: "string \<Rightarrow> int" where
  "read_exponent c3 =
     (let c4 = (if c3 \<noteq> [] \<and> (hd c3 = CHR ''e'' \<or> hd c3 = CHR ''E'') then tl c3 else c3);
          signed = (c4 \<noteq> [] \<and> (hd c4 = CHR ''+'' \<or> hd c4 = CHR ''-''));
          exponent_negative = (signed \<and> hd c4 = CHR ''-'');
          c5 = (if signed then tl c4 else c4);
          exponent = int (digits_value (digits_of c5))
      in if exponent_negative then - exponent else exponent)"

definition split_number :: "string \<Rightarrow> number_parts" where
  "split_number buffer =
     (let negative = (buffer \<noteq> [] \<and> hd buffer = CHR ''-'');
          c1 = (if negative then tl buffer else buffer);
          first = take 1 c1;
          c2 = drop 1 c1;
          point = (c2 \<noteq> [] \<and> hd c2 = CHR ''.'');
          rest = (if point then digits_of (tl c2) else []);
          c3 = (if point then drop (length rest) (tl c2) else c2);
          ds = first @ rest
      in \<lparr>np_negative = negative, np_digits = drop_trailing_zeros ds (length ds),
          np_exponent = read_exponent c3\<rparr>)"

definition layout_number :: "number_parts \<Rightarrow> string" where
  "layout_number p =
     (let ds = np_digits p; e = np_exponent p
      in (if np_negative p then ''-'' else []) @
         (if - 4 \<le> e \<and> e \<le> 15
          then (if 0 \<le> e
                then (let integer_length = nat e + 1
                      in if length ds \<le> integer_length
                         then ds @ replicate (integer_length - length ds) (CHR ''0'')
                         else take integer_length ds @ CHR ''.'' # drop integer_length ds)
                else ''0.'' @ replicate (nat (- e - 1)) (CHR ''0'') @ ds)
          else [hd ds] @ (if length ds > 1 then CHR ''.'' # tl ds else []) @ ''E'' @
               (if e < 0 then ''-'' else []) @ nat_digits (nat \<bar>e\<bar>)))"

definition format_number :: "(dbl \<Rightarrow> string) \<Rightarrow> dbl \<Rightarrow> string" where
  "format_number to_chars d =
     (case d of
        DNaN \<Rightarrow> ''null''
      | DInf _ \<Rightarrow> ''null''
      | DNegZero \<Rightarrow> ''-0''
      | DFin q \<Rightarrow> if q = 0 then ''0'' else layout_number (split_number (to_chars d)))"

definition kHexDigits :: string where
  "kHexDigits = ''0123456789ABCDEF''"

definition escape_char :: "char \<Rightarrow> string" where
  "escape_char c =
     (if c = CHR 0x22 then [CHR 0x5C, CHR 0x22]
      else if c = CHR 0x5C then [CHR 0x5C, CHR 0x5C]
      else if c = CHR 0x08 then [CHR 0x5C, CHR ''b'']
      else if c = CHR 0x0C then [CHR 0x5C, CHR ''f'']
      else if c = CHR 0x0A then [CHR 0x5C, CHR ''n'']
      else if c = CHR 0x0D then [CHR 0x5C, CHR ''r'']
      else if c = CHR 0x09 then [CHR 0x5C, CHR ''t'']
      else if of_char c < (0x20 :: nat)
      then CHR 0x5C # ''u00'' @ [kHexDigits ! (of_char c div 16 mod 16), kHexDigits ! (of_char c mod 16)]
      else [c])"

definition write_string :: "string \<Rightarrow> string" where
  "write_string s = CHR 0x22 # concat (map escape_char s) @ [CHR 0x22]"

fun comma_separated :: "string list \<Rightarrow> string" where
  "comma_separated [] = []"
| "comma_separated [t] = t"
| "comma_separated (t # ts) = t @ CHR '','' # comma_separated ts"

datatype member_order = SortedOrder | InsertionOrder

definition write_object :: "(string \<times> string) list \<Rightarrow> string" where
  "write_object ms = CHR 0x7B # comma_separated (map (\<lambda>(k, t). write_string k @ CHR '':'' # t) ms) @ [CHR 0x7D]"

fun write_value :: "(dbl \<Rightarrow> string) \<Rightarrow> member_order \<Rightarrow> support_json \<Rightarrow> string" where
  "write_value to_chars order (SObj ob) =
     (let ms = map (\<lambda>m. (fst m, write_value to_chars order (snd m))) ob
      in write_object (case order of SortedOrder \<Rightarrow> sort_key fst ms | InsertionOrder \<Rightarrow> ms))"
| "write_value to_chars order (SArr a) = CHR 0x5B # comma_separated (map (write_value to_chars order) a) @ [CHR 0x5D]"
| "write_value to_chars order (SStr s) = write_string s"
| "write_value to_chars order (SBool b) = (if b then ''true'' else ''false'')"
| "write_value to_chars order (SNum d) = format_number to_chars d"
| "write_value to_chars order SNull = ''null''"

definition write_json :: "(dbl \<Rightarrow> string) \<Rightarrow> support_json \<Rightarrow> string" where
  "write_json to_chars v = write_value to_chars InsertionOrder v"

definition canonical_json :: "(dbl \<Rightarrow> string) \<Rightarrow> support_json \<Rightarrow> string" where
  "canonical_json to_chars v = write_value to_chars SortedOrder v"

end
