(* ===== verification/Json_Total.thy ===== *)
theory Json_Total
  imports Json_Text
begin

text \<open>
  Totality of the JSON parser: every successful part consumes characters, so the fuel given to
  \<open>read_json\<close> is never exhausted; the values it returns have unique keys.
\<close>

section \<open>Progress\<close>

lemma skip_ws_length: "length (skip_ws s) \<le> length s"
  by (simp add: skip_ws_def length_dropWhile_le)

lemma consume_Some: "consume c s = Some r \<longleftrightarrow> s = c # r"
  by (auto simp: consume_def split: list.splits if_splits)

lemma parse_chars_length: "parse_chars s = Inr (out, r) \<Longrightarrow> length r < length s"
proof (induction "length s" arbitrary: s out r rule: less_induct)
  case less
  obtain c cs where s: "s = c # cs" using less.prems by (cases s) auto
  have IH: "length r' < length s'" if "length s' < length s" "parse_chars s' = Inr (out', r')" for s' out' r'
    using less.hyps that by blast
  consider (quote) "c = CHR 0x22" | (escape) "c = CHR 0x5C" | (plain) "c \<noteq> CHR 0x22" "c \<noteq> CHR 0x5C" by blast
  then show ?case
  proof cases
    case quote
    then show ?thesis using less.prems s by simp
  next
    case plain
    then obtain out' where "parse_chars cs = Inr (out', r)" using less.prems s by (auto split: if_splits)
    then show ?thesis using IH [of cs] s by fastforce
  next
    case escape
    then obtain e ds where cs: "cs = e # ds" using less.prems s by (cases cs) auto
    show ?thesis
    proof (cases "simple_escape e")
      case None
      then obtain bytes q out' where q: "unicode_escape ds = Inr (bytes, q)" "parse_chars q = Inr (out', r)"
        using less.prems escape s cs by (auto split: if_splits sum.splits)
      show ?thesis using IH [OF _ q(2)] unicode_escape_length [OF q(1)] s cs by simp
    next
      case (Some x)
      then obtain out' where "parse_chars ds = Inr (out', r)" using less.prems escape s cs by auto
      then show ?thesis using IH [of ds] s cs by fastforce
    qed
  qed
qed

lemma parse_string_length: "parse_string s = Inr (out, r) \<Longrightarrow> Suc (length r) < length s"
  by (auto simp: parse_string_def consume_Some dest!: parse_chars_length split: option.splits)

lemma scan_number_nonempty: "scan_number s = Inr token \<Longrightarrow> s \<noteq> [] \<and> token \<noteq> []"
  by (cases s)
    (auto simp: scan_number_def scan_integer_def scan_sign_def Let_def digits_of_def split: if_splits)

lemma parse_number_length: "parse_number round_double s = Inr (d, r) \<Longrightarrow> length r < length s"
  by (auto simp: parse_number_def dest!: scan_number_nonempty split: option.splits)

lemma parse_literal_length: "word \<noteq> [] \<Longrightarrow> s \<noteq> [] \<Longrightarrow> parse_literal word v s = Inr (w, r) \<Longrightarrow> length r < length s"
  by (auto simp: parse_literal_def split: if_splits)

lemma skip_ws_Cons_length: "skip_ws s = c # cs \<Longrightarrow> length cs < length s"
  using skip_ws_length [of s] by simp

lemma consume_skip_length: "consume c (skip_ws s) = Some r \<Longrightarrow> length r < length s"
  using skip_ws_length [of s] by (simp add: consume_Some)

lemma parse_members_shrinks:
  assumes val: "\<And>s v r. parse_value round_double fuel s = Inr (v, r) \<Longrightarrow> length r < length s"
    and members: "\<And>ob s v r. parse_members round_double fuel ob s = Inr (v, r) \<Longrightarrow> length r < length s"
    and ok: "parse_members round_double (Suc fuel) ob s = Inr (v, r)"
  shows "length r < length s"
proof -
  obtain key r1 r2 w r3 where k: "parse_string (skip_ws s) = Inr (key, r1)" "consume (CHR '':'') (skip_ws r1) = Some r2"
      "parse_value round_double fuel r2 = Inr (w, r3)"
    using ok by (auto split: option.splits)
  have "length r3 < length s"
    using parse_string_length [OF k(1)] consume_skip_length [OF k(2)] val [OF k(3)] skip_ws_length [of s] by simp
  moreover have "length r < length r3"
  proof (cases "consume (CHR 0x7D) (skip_ws r3)")
    case (Some r4)
    then show ?thesis using ok k consume_skip_length [OF Some] by (simp add: Let_def)
  next
    case None
    then obtain r5 where r5: "consume (CHR '','') (skip_ws r3) = Some r5"
      "parse_members round_double fuel (insert_or_assign ob key w) (skip_ws r5) = Inr (v, r)"
      using ok k by (auto simp: Let_def split: option.splits if_splits)
    show ?thesis
      using consume_skip_length [OF r5(1)] members [OF r5(2)] skip_ws_length [of r5] by simp
  qed
  ultimately show ?thesis by simp
qed

lemma parse_elements_shrinks:
  assumes val: "\<And>s v r. parse_value round_double fuel s = Inr (v, r) \<Longrightarrow> length r < length s"
    and elements: "\<And>a s v r. parse_elements round_double fuel a s = Inr (v, r) \<Longrightarrow> length r < length s"
    and ok: "parse_elements round_double (Suc fuel) a s = Inr (v, r)"
  shows "length r < length s"
proof -
  obtain w r1 where w: "parse_value round_double fuel s = Inr (w, r1)" using ok by auto
  moreover have "length r < length r1"
  proof (cases "consume (CHR 0x5D) (skip_ws r1)")
    case (Some r2)
    then show ?thesis using ok w consume_skip_length [OF Some] by simp
  next
    case None
    then obtain r3 where r3: "consume (CHR '','') (skip_ws r1) = Some r3"
      "parse_elements round_double fuel (a @ [w]) (skip_ws r3) = Inr (v, r)"
      using ok w by (auto split: option.splits if_splits)
    show ?thesis
      using consume_skip_length [OF r3(1)] elements [OF r3(2)] skip_ws_length [of r3] by simp
  qed
  ultimately show ?thesis using val by fastforce
qed

text \<open>The branch of \<open>parse_value\<close> on the first character, and how it can succeed.\<close>

definition parse_at ::
    "(rat \<Rightarrow> dbl option) \<Rightarrow> nat \<Rightarrow> char \<Rightarrow> string \<Rightarrow> (json_text_error, support_json \<times> string) result" where
  "parse_at round_double fuel c cs =
     (if c = CHR 0x22 then bind_r (parse_string (c # cs)) (\<lambda>(str, r). Inr (SStr str, r))
      else if c = CHR 0x7B
      then (case consume (CHR 0x7D) (skip_ws cs) of
              Some r \<Rightarrow> Inr (SObj [], r)
            | None \<Rightarrow> parse_members round_double fuel [] (skip_ws cs))
      else if c = CHR 0x5B
      then (case consume (CHR 0x5D) (skip_ws cs) of
              Some r \<Rightarrow> Inr (SArr [], r)
            | None \<Rightarrow> parse_elements round_double fuel [] (skip_ws cs))
      else if c = CHR ''t'' then parse_literal ''true'' (SBool True) (c # cs)
      else if c = CHR ''f'' then parse_literal ''false'' (SBool False) (c # cs)
      else if c = CHR ''n'' then parse_literal ''null'' SNull (c # cs)
      else if c = CHR ''-'' \<or> is_digit c
      then bind_r (parse_number round_double (c # cs)) (\<lambda>(d, r). Inr (SNum d, r))
      else Inl UnexpectedCharacter)"

lemma parse_value_at:
  "parse_value round_double (Suc fuel) s =
     (case skip_ws s of [] \<Rightarrow> Inl UnexpectedEnd | c # cs \<Rightarrow> parse_at round_double fuel c cs)"
  by (simp add: parse_at_def split: list.split)

lemma parse_at_cases:
  assumes "parse_at round_double fuel c cs = Inr (v, r)"
    and "\<And>str. parse_string (c # cs) = Inr (str, r) \<Longrightarrow> v = SStr str \<Longrightarrow> P"
    and "\<And>cl. consume cl (skip_ws cs) = Some r \<Longrightarrow> v \<in> {SObj [], SArr []} \<Longrightarrow> P"
    and "parse_members round_double fuel [] (skip_ws cs) = Inr (v, r) \<Longrightarrow> P"
    and "parse_elements round_double fuel [] (skip_ws cs) = Inr (v, r) \<Longrightarrow> P"
    and "\<And>word. word \<noteq> [] \<Longrightarrow> parse_literal word v (c # cs) = Inr (v, r) \<Longrightarrow> v \<in> {SBool True, SBool False, SNull} \<Longrightarrow> P"
    and "\<And>d. parse_number round_double (c # cs) = Inr (d, r) \<Longrightarrow> v = SNum d \<Longrightarrow> P"
  shows P
proof -
  consider "c = CHR 0x22" | "c = CHR 0x7B" | "c = CHR 0x5B" | "c = CHR ''t''" | "c = CHR ''f''" | "c = CHR ''n''"
    | "c = CHR ''-'' \<or> is_digit c" "c \<notin> {CHR 0x22, CHR 0x7B, CHR 0x5B, CHR ''t'', CHR ''f'', CHR ''n''}"
    | "c \<noteq> CHR ''-''" "\<not> is_digit c" "c \<notin> {CHR 0x22, CHR 0x7B, CHR 0x5B, CHR ''t'', CHR ''f'', CHR ''n''}"
    by blast
  then show P
  proof cases
    case 1
    then show P using assms(1,2) by (auto simp: parse_at_def)
  next
    case 2
    then show P using assms(1,3,4) by (auto simp: parse_at_def split: option.splits)
  next
    case 3
    then show P using assms(1,3,5) by (auto simp: parse_at_def split: option.splits)
  next
    case 4
    then show P using assms(1) assms(6) [of "''true''"] by (auto simp: parse_at_def parse_literal_def split: if_splits)
  next
    case 5
    then show P using assms(1) assms(6) [of "''false''"] by (auto simp: parse_at_def parse_literal_def split: if_splits)
  next
    case 6
    then show P using assms(1) assms(6) [of "''null''"] by (auto simp: parse_at_def parse_literal_def split: if_splits)
  next
    case 7
    then have "parse_at round_double fuel c cs = bind_r (parse_number round_double (c # cs)) (\<lambda>(d, r). Inr (SNum d, r))"
      by (simp add: parse_at_def)
    then show P using assms(1,7) by (cases "parse_number round_double (c # cs)") auto
  next
    case 8
    then show P using assms(1) by (simp add: parse_at_def)
  qed
qed

lemma parse_value_shrinks:
  assumes members: "\<And>ob s v r. parse_members round_double fuel ob s = Inr (v, r) \<Longrightarrow> length r < length s"
    and elements: "\<And>a s v r. parse_elements round_double fuel a s = Inr (v, r) \<Longrightarrow> length r < length s"
    and ok: "parse_value round_double (Suc fuel) s = Inr (v, r)"
  shows "length r < length s"
proof -
  obtain c cs where s: "skip_ws s = c # cs" using ok by (cases "skip_ws s") auto
  have len: "length (c # cs) \<le> length s" using skip_ws_length [of s] s by simp
  have eq: "parse_value round_double (Suc fuel) s = parse_at round_double fuel c cs"
    by (simp only: parse_value_at s list.case)
  have "length r < length (c # cs)"
    using ok [unfolded eq]
  proof (rule parse_at_cases)
    fix str assume "parse_string (c # cs) = Inr (str, r)"
    then show ?thesis using parse_string_length by fastforce
  next
    fix cl assume "consume cl (skip_ws cs) = Some r"
    then show ?thesis using consume_skip_length by fastforce
  next
    assume "parse_members round_double fuel [] (skip_ws cs) = Inr (v, r)"
    then show ?thesis using members skip_ws_length [of cs] by fastforce
  next
    assume "parse_elements round_double fuel [] (skip_ws cs) = Inr (v, r)"
    then show ?thesis using elements skip_ws_length [of cs] by fastforce
  next
    fix word assume "word \<noteq> []" "parse_literal word v (c # cs) = Inr (v, r)"
    then show ?thesis using parse_literal_length by blast
  next
    fix d assume "parse_number round_double (c # cs) = Inr (d, r)"
    then show ?thesis by (rule parse_number_length)
  qed
  then show ?thesis using len by simp
qed

lemma parse_shrinks:
  "(\<forall>s v r. parse_value round_double fuel s = Inr (v, r) \<longrightarrow> length r < length s) \<and>
   (\<forall>ob s v r. parse_members round_double fuel ob s = Inr (v, r) \<longrightarrow> length r < length s) \<and>
   (\<forall>a s v r. parse_elements round_double fuel a s = Inr (v, r) \<longrightarrow> length r < length s)"
proof (induction fuel)
  case (Suc fuel)
  then have IH: "\<And>s v r. parse_value round_double fuel s = Inr (v, r) \<Longrightarrow> length r < length s"
    "\<And>ob s v r. parse_members round_double fuel ob s = Inr (v, r) \<Longrightarrow> length r < length s"
    "\<And>a s v r. parse_elements round_double fuel a s = Inr (v, r) \<Longrightarrow> length r < length s" by auto
  show ?case
    using parse_value_shrinks [OF IH(2,3)] parse_members_shrinks [OF IH(1,2)] parse_elements_shrinks [OF IH(1,3)]
    by (intro conjI allI impI)
qed simp


lemmas parse_value_length = parse_shrinks [THEN conjunct1, rule_format]

section \<open>Fuel\<close>

lemma bind_r_fuel:
  "x \<noteq> Inl e \<Longrightarrow> (\<And>y. f y \<noteq> Inl e) \<Longrightarrow> bind_r x f \<noteq> Inl e"
  by (cases x) auto

lemma unicode_escape_fuel: "unicode_escape s \<noteq> Inl OutOfFuel"
  by (auto simp: unicode_escape_def split: option.splits list.splits if_splits)

lemma parse_chars_fuel: "parse_chars s \<noteq> Inl OutOfFuel"
proof (induction "length s" arbitrary: s rule: less_induct)
  case less
  have IH: "bind_r (parse_chars s') (\<lambda>(out, r). Inr (g out, r)) \<noteq> Inl OutOfFuel" if "length s' < length s" for s' g
    using less that by (intro bind_r_fuel) auto
  show ?case
  proof (cases s)
    case (Cons c cs)
    consider "c = CHR 0x22" | (escape) "c = CHR 0x5C" | (plain) "c \<noteq> CHR 0x22" "c \<noteq> CHR 0x5C" by blast
    then show ?thesis
    proof cases
      case plain
      then show ?thesis using IH [of cs "(#) c"] Cons by simp
    next
      case escape
      show ?thesis
      proof (cases cs)
        case (Cons e ds)
        note s = escape Cons \<open>s = c # cs\<close>
        show ?thesis
        proof (cases "simple_escape e")
          case (Some x)
          then show ?thesis using IH [of ds "(#) x"] s by simp
        next
          case None
          show ?thesis
          proof (cases "unicode_escape ds")
            case (Inl err)
            then show ?thesis using unicode_escape_fuel [of ds] None s by simp
          next
            case (Inr p)
            obtain bytes q where p: "p = (bytes, q)" by (cases p)
            have "length q < length ds" using Inr p unicode_escape_length by blast
            then show ?thesis using IH [of q "(@) bytes"] None s Inr p by simp
          qed
        qed
      qed (use escape Cons in simp)
    qed (use Cons in simp)
  qed simp
qed

lemma parse_string_fuel: "parse_string s \<noteq> Inl OutOfFuel"
  by (auto simp: parse_string_def parse_chars_fuel split: option.splits)

lemma scan_fuel: "scan_integer s \<noteq> Inl OutOfFuel" "scan_fraction s \<noteq> Inl OutOfFuel"
  by (simp_all add: scan_integer_def scan_fraction_def)

lemma parse_number_fuel: "parse_number round_double s \<noteq> Inl OutOfFuel"
  unfolding parse_number_def scan_number_def Let_def
  by (intro bind_r_fuel scan_fuel) (simp_all split: option.split)

definition enough_fuel :: "(rat \<Rightarrow> dbl option) \<Rightarrow> nat \<Rightarrow> bool" where
  "enough_fuel round_double fuel \<longleftrightarrow>
     (\<forall>s. 2 * length s + 1 \<le> fuel \<longrightarrow> parse_value round_double fuel s \<noteq> Inl OutOfFuel) \<and>
     (\<forall>ob s. 2 * length s + 2 \<le> fuel \<longrightarrow> parse_members round_double fuel ob s \<noteq> Inl OutOfFuel) \<and>
     (\<forall>a s. 2 * length s + 2 \<le> fuel \<longrightarrow> parse_elements round_double fuel a s \<noteq> Inl OutOfFuel)"

lemma if_distinct: "x \<noteq> e \<Longrightarrow> y \<noteq> e \<Longrightarrow> (if b then x else y) \<noteq> e"
  by simp

lemma parse_at_fuel:
  assumes "enough_fuel round_double fuel" and "2 * length cs + 2 \<le> fuel"
  shows "parse_at round_double fuel c cs \<noteq> Inl OutOfFuel"
proof -
  have nested: "2 * length (skip_ws cs) + 2 \<le> fuel" using assms(2) skip_ws_length [of cs] by linarith
  have str: "bind_r (parse_string t) (\<lambda>(str, r). Inr (SStr str, r)) \<noteq> Inl OutOfFuel" for t
    by (rule bind_r_fuel) (auto simp: parse_string_fuel)
  have num: "bind_r (parse_number round_double t) (\<lambda>(d, r). Inr (SNum d, r)) \<noteq> Inl OutOfFuel" for t
    by (rule bind_r_fuel) (auto simp: parse_number_fuel)
  have lit: "parse_literal word w t \<noteq> Inl OutOfFuel" for word w t
    by (simp add: parse_literal_def)
  have ob: "(case consume (CHR 0x7D) (skip_ws cs) of Some r \<Rightarrow> Inr (SObj [], r)
      | None \<Rightarrow> parse_members round_double fuel [] (skip_ws cs)) \<noteq> Inl OutOfFuel"
    using assms(1) nested by (simp add: enough_fuel_def split: option.split)
  have el: "(case consume (CHR 0x5D) (skip_ws cs) of Some r \<Rightarrow> Inr (SArr [], r)
      | None \<Rightarrow> parse_elements round_double fuel [] (skip_ws cs)) \<noteq> Inl OutOfFuel"
    using assms(1) nested by (simp add: enough_fuel_def split: option.split)
  show ?thesis
    unfolding parse_at_def by (intro if_distinct str num lit ob el) simp
qed

lemma parse_members_fuel:
  assumes "enough_fuel round_double fuel" and len: "2 * length s + 2 \<le> Suc fuel"
  shows "parse_members round_double (Suc fuel) ob s \<noteq> Inl OutOfFuel"
proof (cases "parse_string (skip_ws s)")
  case (Inl err)
  then show ?thesis using parse_string_fuel [of "skip_ws s"] by simp
next
  case (Inr p)
  obtain key r1 where p: "p = (key, r1)" by (cases p)
  have len1: "Suc (length r1) < length s"
    using parse_string_length [of "skip_ws s"] Inr p skip_ws_length [of s] by fastforce
  show ?thesis
  proof (cases "consume (CHR '':'') (skip_ws r1)")
    case (Some r2)
    then have len2: "length r2 < length s" using consume_skip_length [OF Some] len1 by simp
    show ?thesis
    proof (cases "parse_value round_double fuel r2")
      case (Inl err)
      then have "err \<noteq> OutOfFuel" using assms len2 by (auto simp: enough_fuel_def)
      then show ?thesis using \<open>parse_string (skip_ws s) = Inr p\<close> p Some Inl by simp
    next
      case (Inr q)
      obtain v r3 where q: "q = (v, r3)" by (cases q)
      have "2 * length (skip_ws r5) + 2 \<le> fuel" if "consume (CHR '','') (skip_ws r3) = Some r5" for r5
        using consume_skip_length [OF that] parse_value_length Inr q len2 len skip_ws_length [of r5] by fastforce
      then show ?thesis
        using \<open>parse_string (skip_ws s) = Inr p\<close> p Some Inr q assms(1)
        by (simp add: Let_def enough_fuel_def split: option.split)
    qed
  qed (simp add: Inr p)
qed

lemma parse_elements_fuel:
  assumes "enough_fuel round_double fuel" and len: "2 * length s + 2 \<le> Suc fuel"
  shows "parse_elements round_double (Suc fuel) a s \<noteq> Inl OutOfFuel"
proof (cases "parse_value round_double fuel s")
  case (Inl err)
  then show ?thesis using assms by (auto simp: enough_fuel_def)
next
  case (Inr q)
  obtain v r1 where q: "q = (v, r1)" by (cases q)
  have "2 * length (skip_ws r3) + 2 \<le> fuel" if "consume (CHR '','') (skip_ws r1) = Some r3" for r3
    using consume_skip_length [OF that] parse_value_length Inr q len skip_ws_length [of r3] by fastforce
  then show ?thesis using Inr q assms(1) by (simp add: enough_fuel_def split: option.split)
qed

lemma fuel_suffices: "enough_fuel round_double fuel"
proof (induction fuel)
  case (Suc fuel)
  have "parse_value round_double (Suc fuel) s \<noteq> Inl OutOfFuel" if "2 * length s + 1 \<le> Suc fuel" for s
  proof (cases "skip_ws s")
    case (Cons c cs)
    have "2 * length cs + 2 \<le> fuel" using skip_ws_Cons_length [OF Cons] that by linarith
    then show ?thesis unfolding parse_value_at Cons list.case by (rule parse_at_fuel [OF Suc])
  qed simp
  then show ?case
    using parse_members_fuel [OF Suc] parse_elements_fuel [OF Suc] unfolding enough_fuel_def by blast
qed (simp add: enough_fuel_def)

section \<open>What the parser returns\<close>

definition returns_wf :: "(rat \<Rightarrow> dbl option) \<Rightarrow> nat \<Rightarrow> bool" where
  "returns_wf round_double fuel \<longleftrightarrow>
     (\<forall>s v r. parse_value round_double fuel s = Inr (v, r) \<longrightarrow> support_wf v) \<and>
     (\<forall>ob s v r. support_wf (SObj ob) \<longrightarrow> parse_members round_double fuel ob s = Inr (v, r) \<longrightarrow> support_wf v) \<and>
     (\<forall>a s v r. support_wf (SArr a) \<longrightarrow> parse_elements round_double fuel a s = Inr (v, r) \<longrightarrow> support_wf v)"

lemma returns_wfD:
  assumes "returns_wf round_double fuel"
  shows "parse_value round_double fuel s = Inr (v, r) \<Longrightarrow> support_wf v"
    and "support_wf (SObj ob) \<Longrightarrow> parse_members round_double fuel ob s = Inr (v, r) \<Longrightarrow> support_wf v"
    and "support_wf (SArr a) \<Longrightarrow> parse_elements round_double fuel a s = Inr (v, r) \<Longrightarrow> support_wf v"
  using assms unfolding returns_wf_def by blast+

lemma support_wf_insert:
  "support_wf (SObj ob) \<Longrightarrow> support_wf v \<Longrightarrow> support_wf (SObj (insert_or_assign ob k v))"
  by (induction ob) (auto simp: unique_keys_def keys_insert_or_assign)

lemma parse_members_wf:
  assumes "returns_wf round_double fuel" "support_wf (SObj ob)" "parse_members round_double (Suc fuel) ob s = Inr (v, r)"
  shows "support_wf v"
proof -
  obtain key r1 r2 w r3 where k: "parse_string (skip_ws s) = Inr (key, r1)" "consume (CHR '':'') (skip_ws r1) = Some r2"
      "parse_value round_double fuel r2 = Inr (w, r3)"
    using assms(3) by (auto split: option.splits)
  have "support_wf w" by (rule returns_wfD(1) [OF assms(1) k(3)])
  then have wf: "support_wf (SObj (insert_or_assign ob key w))" using assms(2) by (rule support_wf_insert [rotated])
  have "v = SObj (insert_or_assign ob key w) \<or>
      (\<exists>r5. parse_members round_double fuel (insert_or_assign ob key w) (skip_ws r5) = Inr (v, r))"
    using assms(3) k by (auto simp: Let_def split: option.splits if_splits)
  then show ?thesis using wf returns_wfD(2) [OF assms(1) wf] by blast
qed

lemma parse_elements_wf:
  assumes "returns_wf round_double fuel" "support_wf (SArr a)" "parse_elements round_double (Suc fuel) a s = Inr (v, r)"
  shows "support_wf v"
proof -
  obtain w r1 where w: "parse_value round_double fuel s = Inr (w, r1)" using assms(3) by auto
  then have wf: "support_wf (SArr (a @ [w]))" using assms(2) returns_wfD(1) [OF assms(1) w] by simp
  have "v = SArr (a @ [w]) \<or> (\<exists>r3. parse_elements round_double fuel (a @ [w]) (skip_ws r3) = Inr (v, r))"
    using assms(3) w by (auto split: option.splits if_splits)
  then show ?thesis using wf returns_wfD(3) [OF assms(1) wf] by blast
qed

lemma parser_wf: "returns_wf round_double fuel"
proof (induction fuel)
  case (Suc fuel)
  have "support_wf v" if ok: "parse_value round_double (Suc fuel) s = Inr (v, r)" for s v r
  proof -
    have empty: "support_wf (SObj [])" "support_wf (SArr [])" by (simp_all add: unique_keys_def)
    obtain c cs where s: "skip_ws s = c # cs" using ok by (cases "skip_ws s") auto
    have "parse_at round_double fuel c cs = Inr (v, r)" using ok unfolding parse_value_at s list.case .
    then show ?thesis
      by (rule parse_at_cases) (use empty returns_wfD(2) [OF Suc empty(1)] returns_wfD(3) [OF Suc empty(2)] in auto)
  qed
  then show ?case using parse_members_wf [OF Suc] parse_elements_wf [OF Suc] unfolding returns_wf_def by blast
qed (simp add: returns_wf_def)

end
