(* ===== verification/Json_Number.thy ===== *)
theory Json_Number
  imports Json_Text
begin

text \<open>
  Numbers in JSON text: the scanner takes exactly a well-formed token, the value of a token is
  the value of its digits, and the three layouts of \<open>format_number\<close> are tokens of the value
  \<^verbatim>\<open>std::to_chars\<close> has printed.
\<close>

section \<open>Numbers\<close>

definition all_digits :: "string \<Rightarrow> bool" where
  "all_digits ds \<longleftrightarrow> list_all is_digit ds"

text \<open>What may follow a number inside an array or object, or at the end of the text.\<close>

definition stops :: "string \<Rightarrow> bool" where
  "stops r \<longleftrightarrow> r = [] \<or> hd r \<in> {CHR '','', CHR 0x5D, CHR 0x7D}"

lemma digit_not [simp]:
  "\<not> is_digit (CHR '','')" "\<not> is_digit (CHR 0x5D)" "\<not> is_digit (CHR 0x7D)" "\<not> is_digit (CHR ''.'')"
  "\<not> is_digit (CHR ''E'')" "\<not> is_digit (CHR ''e'')" "\<not> is_digit (CHR ''-'')" "\<not> is_digit (CHR ''+'')"
  "is_digit (CHR ''0'')"
  by (simp_all add: is_digit_def)

lemma all_digits_simps [simp]:
  "all_digits []" "all_digits (c # cs) \<longleftrightarrow> is_digit c \<and> all_digits cs"
  "all_digits (xs @ ys) \<longleftrightarrow> all_digits xs \<and> all_digits ys" "all_digits (replicate n (CHR ''0''))"
  by (auto simp: all_digits_def list_all_iff)

lemma all_digits_parts: "all_digits ds \<Longrightarrow> all_digits (take n ds) \<and> all_digits (drop n ds) \<and> all_digits (tl ds)"
  unfolding all_digits_def by (metis drop_Suc drop_0 list_all_drop list_all_take)

lemma all_digits_nat_digits [simp]: "all_digits (nat_digits n)"
  using nat_digits_chars [of _ n] by (fastforce simp: all_digits_def list_all_iff is_digit_def)

lemma nat_digits_nonempty [simp]: "nat_digits n \<noteq> []"
  by (subst nat_digits.simps) simp

lemma digits_of_append: "all_digits ds \<Longrightarrow> \<not> starts_digit r \<Longrightarrow> digits_of (ds @ r) = ds"
  by (induction ds) (cases r; auto simp: digits_of_def starts_digit_def)+

lemma starts_digit_append: "all_digits ds \<Longrightarrow> ds \<noteq> [] \<Longrightarrow> starts_digit (ds @ r)"
  by (cases ds) (auto simp: starts_digit_def)

lemma stops_not [simp]: "stops r \<Longrightarrow> \<not> starts_digit r"
  by (auto simp: stops_def starts_digit_def)

text \<open>A number token by its parts: a sign, an integer part, a fraction, an exponent.\<close>

definition fraction_text :: "string \<Rightarrow> string" where
  "fraction_text fr = (if fr = [] then [] else CHR ''.'' # fr)"

definition exponent_text :: "(bool \<times> string) option \<Rightarrow> string" where
  "exponent_text ex =
     (case ex of None \<Rightarrow> [] | Some (below, ds) \<Rightarrow> CHR ''E'' # (if below then ''-'' else []) @ ds)"

definition sign_text :: "bool \<Rightarrow> string" where
  "sign_text negative = (if negative then ''-'' else [])"

definition number_token :: "bool \<Rightarrow> string \<Rightarrow> string \<Rightarrow> (bool \<times> string) option \<Rightarrow> string" where
  "number_token negative whole fr ex = sign_text negative @ whole @ fraction_text fr @ exponent_text ex"

definition exponent_ok :: "(bool \<times> string) option \<Rightarrow> bool" where
  "exponent_ok ex = (case ex of None \<Rightarrow> True | Some (_, ds) \<Rightarrow> ds \<noteq> [] \<and> all_digits ds)"

definition whole_ok :: "string \<Rightarrow> bool" where
  "whole_ok whole \<longleftrightarrow> whole \<noteq> [] \<and> all_digits whole \<and> (hd whole = CHR ''0'' \<longrightarrow> whole = ''0'')"

definition exponent_number :: "(bool \<times> string) option \<Rightarrow> int" where
  "exponent_number ex =
     (case ex of None \<Rightarrow> 0 | Some (below, ds) \<Rightarrow> if below then - int (digits_value ds) else int (digits_value ds))"

lemma scan_sign_token: "whole_ok w \<Longrightarrow> scan_sign (sign_text negative @ w @ r) = sign_text negative"
  by (cases w) (auto simp: scan_sign_def sign_text_def whole_ok_def)

lemma scan_integer_token: "whole_ok w \<Longrightarrow> \<not> starts_digit r \<Longrightarrow> scan_integer (w @ r) = Inr w"
  using digits_of_append [of w r] by (cases w) (auto simp: scan_integer_def whole_ok_def starts_digit_def)

lemma scan_fraction_token:
  "all_digits fr \<Longrightarrow> \<not> starts_digit r \<Longrightarrow> r = [] \<or> hd r \<noteq> CHR ''.'' \<Longrightarrow>
   scan_fraction (fraction_text fr @ r) = Inr (fraction_text fr)"
  by (auto simp: scan_fraction_def fraction_text_def starts_digit_append digits_of_append)

lemma scan_exponent_token:
  assumes "exponent_ok ex" "stops r"
  shows "scan_exponent (exponent_text ex @ r) = exponent_text ex"
proof (cases ex)
  case None
  then show ?thesis using assms(2) by (auto simp: exponent_text_def scan_exponent_def stops_def)
next
  case (Some p)
  obtain below ds where p: "p = (below, ds)" by (cases p)
  then have ds: "ds \<noteq> []" "all_digits ds" using assms(1) Some by (simp_all add: exponent_ok_def)
  then have "hd ds \<noteq> CHR ''+''" "hd ds \<noteq> CHR ''-''" by (cases ds; auto)+
  then show ?thesis
    using ds assms(2) Some p
    by (simp add: exponent_text_def scan_exponent_def starts_digit_append digits_of_append)
qed

lemma after_parts:
  assumes "stops r" "exponent_ok ex"
  shows "\<not> starts_digit (exponent_text ex @ r)"
    and "exponent_text ex @ r = [] \<or> hd (exponent_text ex @ r) \<noteq> CHR ''.''"
    and "\<not> starts_digit (fraction_text fr @ exponent_text ex @ r)"
  using assms
  by (auto simp: exponent_text_def fraction_text_def starts_digit_def stops_def split: option.splits)

lemma scan_number_token:
  assumes "whole_ok w" "all_digits fr" "exponent_ok ex" "stops r"
  shows "scan_number (number_token negative w fr ex @ r) = Inr (number_token negative w fr ex)"
  using assms after_parts [OF assms(4,3)]
  by (simp add: scan_number_def number_token_def scan_sign_token scan_integer_token scan_fraction_token
      scan_exponent_token Let_def)

lemma exponent_value_token: "exponent_ok ex \<Longrightarrow> exponent_value (exponent_text ex) = exponent_number ex"
  by (auto simp: exponent_ok_def exponent_value_def exponent_text_def exponent_number_def split: option.splits)
    (metis all_digits_simps(2) digit_not(7,8) list.collapse)+

lemma decimal_value_token:
  assumes "whole_ok w" "all_digits fr" "exponent_ok ex"
  shows "decimal_value (number_token negative w fr ex) =
     (if negative then - 1 else 1) * of_nat (digits_value (w @ fr)) * 10 powi (exponent_number ex - int (length fr))"
proof -
  have st: "stops []" by (simp add: stops_def)
  note parts = after_parts [OF st assms(3), simplified]
  have w: "digits_of (w @ fraction_text fr @ exponent_text ex) = w"
    using assms parts(3) by (intro digits_of_append) (auto simp: whole_ok_def)
  have f: "digits_of (fr @ exponent_text ex) = fr" using assms parts(1) by (intro digits_of_append)
  have sg: "scan_sign (number_token negative w fr ex) = sign_text negative"
    unfolding number_token_def using assms(1) by (rule scan_sign_token)
  have t1: "drop (length (sign_text negative)) (number_token negative w fr ex) = w @ fraction_text fr @ exponent_text ex"
    by (simp add: number_token_def)
  have t2: "drop (length w) (w @ fraction_text fr @ exponent_text ex) = fraction_text fr @ exponent_text ex" by simp
  show ?thesis
    unfolding decimal_value_def sg Let_def t1 w t2
    using f parts(2) assms(3)
    by (cases "fr = []") (auto simp: sign_text_def fraction_text_def exponent_value_token)
qed

subsection \<open>Digits\<close>

lemma foldl_digits:
  "foldl (\<lambda>a c. 10 * a + (of_char c - 48)) b ds = b * 10 ^ length ds + foldl (\<lambda>a c. 10 * a + (of_char c - 48)) (0 :: nat) ds"
proof (induction ds arbitrary: b)
  case (Cons c cs)
  show ?case
    using Cons [of "10 * b + (of_char c - 48)"] Cons [of "of_char c - 48"] by (simp add: add_mult_distrib)
qed simp

lemma digits_value_simps:
  "digits_value [] = 0"
  "digits_value (c # cs) = (of_char c - 48) * 10 ^ length cs + digits_value cs"
  using foldl_digits [of "of_char c - 48" cs] by (simp_all add: digits_value_def)

lemma digits_value_append: "digits_value (xs @ ys) = digits_value xs * 10 ^ length ys + digits_value ys"
  using foldl_digits [of "digits_value xs" ys] by (simp add: digits_value_def)

lemma digits_value_zeros [simp]: "digits_value (replicate n (CHR ''0'')) = 0"
  by (induction n) (simp_all add: digits_value_simps)

lemma digits_value_pos: "ds \<noteq> [] \<Longrightarrow> all_digits ds \<Longrightarrow> hd ds \<noteq> CHR ''0'' \<Longrightarrow> 0 < digits_value ds"
proof (cases ds)
  case (Cons c cs)
  assume "all_digits ds" "hd ds \<noteq> CHR ''0''"
  then have "is_digit c" "c \<noteq> CHR ''0''" using Cons by auto
  then have "48 \<le> (of_char c :: nat)" "of_char c \<noteq> (of_char (CHR ''0'') :: nat)"
    unfolding of_char_eq_iff by (simp_all add: is_digit_def)
  then show ?thesis using Cons by (simp add: digits_value_simps)
qed simp

lemma drop_trailing_zeros_shape:
  assumes "ds \<noteq> []"
  obtains k where "ds = drop_trailing_zeros ds n @ replicate k (CHR ''0'')" "drop_trailing_zeros ds n \<noteq> []"
proof -
  have "\<exists>k. ds = drop_trailing_zeros ds n @ replicate k (CHR ''0'') \<and> drop_trailing_zeros ds n \<noteq> []" using assms
  proof (induction n arbitrary: ds)
    case 0
    then show ?case by (auto intro: exI [of _ 0])
  next
    case (Suc n)
    show ?case
    proof (cases "length ds > 1 \<and> last ds = CHR ''0''")
      case True
      then have "butlast ds \<noteq> []" by (cases ds) auto
      then obtain k where k: "butlast ds = drop_trailing_zeros (butlast ds) n @ replicate k (CHR ''0'')"
        "drop_trailing_zeros (butlast ds) n \<noteq> []" using Suc.IH by blast
      have "ds = butlast ds @ [CHR ''0'']" using True Suc.prems by (metis append_butlast_last_id)
      also have "\<dots> = drop_trailing_zeros (butlast ds) n @ replicate (Suc k) (CHR ''0'')"
        using k(1) by (metis append.assoc replicate_Suc replicate_append_same)
      finally show ?thesis using True k(2) by (auto intro: exI [of _ "Suc k"])
    next
      case False
      then show ?thesis using Suc.prems by (auto intro: exI [of _ 0])
    qed
  qed
  then show ?thesis using that by blast
qed

definition scientific_value :: "bool \<Rightarrow> string \<Rightarrow> int \<Rightarrow> rat" where
  "scientific_value negative ds e =
     (if negative then - 1 else 1) * of_nat (digits_value ds) * 10 powi (e + 1 - int (length ds))"

lemma scientific_value_trailing:
  "scientific_value negative (ds @ replicate k (CHR ''0'')) e = scientific_value negative ds e"
proof -
  have shift: "(10 :: rat) ^ k * 10 powi y = 10 powi (int k + y)" for y by (simp add: power_int_add)
  note shift [of "e + 1 - int (length ds + k)"]
  also have "int k + (e + 1 - int (length ds + k)) = e + 1 - int (length ds)" by simp
  finally have "(10 :: rat) ^ k * 10 powi (e + 1 - int (length ds + k)) = 10 powi (e + 1 - int (length ds))" .
  then show ?thesis by (simp add: scientific_value_def digits_value_append algebra_simps)
qed

lemma split_scientific:
  assumes "ds \<noteq> []" "all_digits ds"
  shows "split_number (scientific_text negative ds e) =
     \<lparr>np_negative = negative, np_digits = drop_trailing_zeros ds (length ds), np_exponent = e\<rparr>"
proof -
  obtain c cs where ds: "ds = c # cs" "is_digit c" "all_digits cs" using assms by (cases ds) auto
  define n where "n = nat \<bar>e\<bar>"
  define ex where "ex = (if n < 10 then ''0'' else []) @ nat_digits n"
  have "all_digits ex" "ex \<noteq> []" by (simp_all add: ex_def)
  then have ex: "digits_of ex = ex" "hd ex \<noteq> CHR ''+''" "hd ex \<noteq> CHR ''-''"
    using digits_of_append [of ex "[]"] by (cases ex; auto simp: starts_digit_def)+
  have val: "digits_value ex = n"
    by (simp add: ex_def digits_value_append digits_value_simps nat_digits_value)
  define sg where "sg = (if e < 0 then CHR ''-'' else CHR ''+'')"
  have buffer: "scientific_text negative ds e = sign_text negative @ c # fraction_text cs @ CHR ''e'' # sg # ex"
    by (simp add: scientific_text_def ds(1) sign_text_def fraction_text_def ex_def n_def sg_def)
  have cs: "digits_of (cs @ CHR ''e'' # sg # ex) = cs"
    using ds(3) by (intro digits_of_append) (simp_all add: starts_digit_def)
  have c: "c \<noteq> CHR ''-''" using ds(2) by auto
  have n: "int n = \<bar>e\<bar>" by (simp add: n_def)
  have rd: "read_exponent (CHR ''e'' # sg # ex) = e"
    using ex(1) val n by (cases "e < 0") (simp_all add: read_exponent_def sg_def)
  have frac: "(fraction_text cs @ CHR ''e'' # sg # ex \<noteq> [] \<and> hd (fraction_text cs @ CHR ''e'' # sg # ex) = CHR ''.'') =
      (cs \<noteq> [])"
    by (simp add: fraction_text_def)
  show ?thesis
    unfolding buffer split_number_def using c cs
    by (cases negative) (simp_all add: sign_text_def Let_def frac ds(1) rd fraction_text_def)
qed

text \<open>The three layouts are tokens of the scientific value.\<close>

definition reads_as :: "string \<Rightarrow> bool \<Rightarrow> rat \<Rightarrow> bool" where
  "reads_as t negative q \<longleftrightarrow>
     (\<exists>w fr ex. t = number_token negative w fr ex \<and> whole_ok w \<and> all_digits fr \<and> exponent_ok ex \<and>
        decimal_value t = q)"

lemma reads_asI:
  assumes "t = number_token negative w fr ex" "whole_ok w" "all_digits fr" "exponent_ok ex"
    and "of_nat (digits_value (w @ fr)) * 10 powi (exponent_number ex - int (length fr)) =
      (of_nat (digits_value ds) * 10 powi (e + 1 - int (length ds)) :: rat)"
  shows "reads_as t negative (scientific_value negative ds e)"
  unfolding reads_as_def using assms decimal_value_token [OF assms(2,3,4), of negative]
  by (intro exI [of _ w] exI [of _ fr] exI [of _ ex]) (simp add: scientific_value_def mult.assoc)

lemma layout_plain:
  assumes "ds \<noteq> []" "all_digits ds" "hd ds \<noteq> CHR ''0''" and e: "0 \<le> e" "e \<le> 15"
  shows "reads_as (layout_number \<lparr>np_negative = negative, np_digits = ds, np_exponent = e\<rparr>) negative
     (scientific_value negative ds e)"
proof (cases "length ds \<le> nat e + 1")
  case True
  let ?k = "nat e + 1 - length ds"
  have "int ?k = e + 1 - int (length ds)" using True e by simp
  then have "(10 :: rat) powi (e + 1 - int (length ds)) = 10 ^ ?k" by (metis power_int_of_nat)
  then show ?thesis
    using assms True
    by (intro reads_asI [where w = "ds @ replicate ?k (CHR ''0'')" and fr = "[]" and ex = None])
      (simp_all add: layout_number_def number_token_def sign_text_def fraction_text_def exponent_text_def whole_ok_def
        exponent_ok_def exponent_number_def digits_value_append Let_def)
next
  case False
  let ?n = "nat e + 1"
  have "drop ?n ds \<noteq> []" "take ?n ds \<noteq> []" "hd (take ?n ds) = hd ds" using False assms(1) by (auto simp: hd_take)
  moreover have "- int (length (drop ?n ds)) = e + 1 - int (length ds)" using False e by simp
  ultimately show ?thesis
    using assms False all_digits_parts [OF assms(2), of ?n]
    by (intro reads_asI [where w = "take ?n ds" and fr = "drop ?n ds" and ex = None])
      (simp_all add: layout_number_def number_token_def sign_text_def fraction_text_def exponent_text_def whole_ok_def
        exponent_ok_def exponent_number_def add.commute [of 1 e] Let_def)
qed

lemma layout_small:
  assumes "ds \<noteq> []" "all_digits ds" and e: "- 4 \<le> e" "e < 0"
  shows "reads_as (layout_number \<lparr>np_negative = negative, np_digits = ds, np_exponent = e\<rparr>) negative
     (scientific_value negative ds e)"
proof -
  let ?fr = "replicate (nat (- e - 1)) (CHR ''0'') @ ds"
  have "- int (length ?fr) = e + 1 - int (length ds)" using e by simp
  then show ?thesis
    using assms
    by (intro reads_asI [where w = "''0''" and fr = ?fr and ex = None])
      (simp_all add: layout_number_def number_token_def sign_text_def fraction_text_def exponent_text_def whole_ok_def
        exponent_ok_def exponent_number_def digits_value_append digits_value_simps add.commute [of 1 e] Let_def)
qed

lemma layout_exponent:
  assumes "ds \<noteq> []" "all_digits ds" "hd ds \<noteq> CHR ''0''" and e: "\<not> (- 4 \<le> e \<and> e \<le> 15)"
  shows "reads_as (layout_number \<lparr>np_negative = negative, np_digits = ds, np_exponent = e\<rparr>) negative
     (scientific_value negative ds e)"
proof -
  obtain c cs where ds: "ds = c # cs" using assms(1) by (cases ds) auto
  let ?ex = "Some (e < 0, nat_digits (nat \<bar>e\<bar>))"
  have "exponent_number ?ex = e" by (simp add: exponent_number_def nat_digits_value)
  then have "exponent_number ?ex - int (length cs) = e + 1 - int (length ds)" by (simp add: ds)
  then show ?thesis
    using assms ds
    by (intro reads_asI [where w = "[c]" and fr = cs and ex = ?ex])
      (auto simp: layout_number_def number_token_def sign_text_def fraction_text_def exponent_text_def whole_ok_def
        exponent_ok_def Let_def)
qed

lemma layout_reads:
  assumes "ds \<noteq> []" "all_digits ds" "hd ds \<noteq> CHR ''0''"
  shows "reads_as (layout_number (split_number (scientific_text negative ds e))) negative (scientific_value negative ds e)"
proof -
  obtain k where k: "ds = drop_trailing_zeros ds (length ds) @ replicate k (CHR ''0'')"
      "drop_trailing_zeros ds (length ds) \<noteq> []"
    using assms(1) by (rule drop_trailing_zeros_shape)
  define ds' where "ds' = drop_trailing_zeros ds (length ds)"
  have ds': "ds' \<noteq> []" "all_digits ds'" "hd ds' \<noteq> CHR ''0''" "ds = ds' @ replicate k (CHR ''0'')"
    using assms k unfolding ds'_def by (metis all_digits_simps(3) hd_append2)+
  have "scientific_value negative ds e = scientific_value negative ds' e"
    unfolding ds'(4) by (rule scientific_value_trailing)
  then show ?thesis
    unfolding split_scientific [OF assms(1,2)] ds'_def [symmetric]
    using layout_plain [OF ds'(1-3)] layout_small [OF ds'(1,2)] layout_exponent [OF ds'(1-3)] by (metis linorder_not_less)
qed

text \<open>
  What the writer and the parser rely on: the conversion to text gives the digits of a value that
  rounds back to the same double.
\<close>

definition number_ok :: "(dbl \<Rightarrow> string) \<Rightarrow> (rat \<Rightarrow> dbl option) \<Rightarrow> dbl \<Rightarrow> bool" where
  "number_ok to_chars round_double d \<longleftrightarrow>
     d = DNegZero \<or> d = DFin 0 \<or>
     (\<exists>q negative ds e. d = DFin q \<and> ds \<noteq> [] \<and> all_digits ds \<and> hd ds \<noteq> CHR ''0'' \<and>
        to_chars d = scientific_text negative ds e \<and> round_double (scientific_value negative ds e) = Some d)"

lemma parse_token:
  assumes "reads_as t negative q" "stops r"
  shows "parse_number round_double (t @ r) =
     (case if q = 0 then Some (if negative then DNegZero else DFin 0) else round_double q of
        None \<Rightarrow> Inl NumberOutOfRange | Some d \<Rightarrow> Inr (d, r))"
proof -
  obtain w fr ex where t: "t = number_token negative w fr ex" "whole_ok w" "all_digits fr" "exponent_ok ex" "decimal_value t = q"
    using assms(1) unfolding reads_as_def by blast
  have "scan_number (t @ r) = Inr t" using scan_number_token [OF t(2-4) assms(2)] t(1) by simp
  moreover have "scan_sign t = sign_text negative" unfolding t(1) number_token_def using t(2) by (rule scan_sign_token)
  ultimately show ?thesis using t(5) by (simp add: parse_number_def from_chars_def sign_text_def split: option.split)
qed

lemma parse_written_number:
  assumes "number_ok to_chars round_double d" "stops r"
  shows "parse_number round_double (format_number to_chars d @ r) = Inr (d, r)"
    and "format_number to_chars d \<noteq> [] \<and> (hd (format_number to_chars d) = CHR ''-'' \<or> is_digit (hd (format_number to_chars d)))"
proof -
  have zero: "reads_as (sign_text n @ ''0'') n 0" for n
    unfolding reads_as_def
    by (intro exI [of _ "''0''"] exI [of _ "[]"] exI [of _ None])
      (simp add: number_token_def fraction_text_def exponent_text_def whole_ok_def exponent_ok_def,
       simp add: decimal_value_def sign_text_def scan_sign_def Let_def digits_of_def digits_value_simps)
  have "\<exists>n q. reads_as (format_number to_chars d) n q \<and>
      (if q = 0 then Some (if n then DNegZero else DFin 0) else round_double q) = Some d"
    using assms(1) unfolding number_ok_def
  proof (elim disjE exE conjE)
    assume "d = DNegZero"
    then show ?thesis using zero [of True] by (intro exI [of _ True] exI [of _ 0]) (simp add: format_number_def sign_text_def)
  next
    assume "d = DFin 0"
    then show ?thesis using zero [of False] by (intro exI [of _ False] exI [of _ 0]) (simp add: format_number_def sign_text_def)
  next
    fix q negative ds e
    assume d: "d = DFin q" "ds \<noteq> []" "all_digits ds" "hd ds \<noteq> CHR ''0''" "to_chars d = scientific_text negative ds e"
      "round_double (scientific_value negative ds e) = Some d"
    show ?thesis
    proof (cases "q = 0")
      case True
      then show ?thesis using d(1) zero [of False] by (intro exI [of _ False] exI [of _ 0]) (simp add: format_number_def sign_text_def)
    next
      case False
      have "scientific_value negative ds e \<noteq> 0"
        using digits_value_pos [OF d(2-4)] by (simp add: scientific_value_def)
      then show ?thesis
        using layout_reads [OF d(2-4), of negative e] d False
        by (intro exI [of _ negative] exI [of _ "scientific_value negative ds e"]) (simp add: format_number_def)
    qed
  qed
  then obtain n q where nq: "reads_as (format_number to_chars d) n q"
      "(if q = 0 then Some (if n then DNegZero else DFin 0) else round_double q) = Some d" by blast
  show "parse_number round_double (format_number to_chars d @ r) = Inr (d, r)"
    unfolding parse_token [OF nq(1) assms(2)] nq(2) by simp
  show "format_number to_chars d \<noteq> [] \<and> (hd (format_number to_chars d) = CHR ''-'' \<or> is_digit (hd (format_number to_chars d)))"
    using nq(1) by (cases n) (auto simp: reads_as_def number_token_def sign_text_def whole_ok_def neq_Nil_conv)
qed

end
