(* ===== verification/Json_Text_Laws.thy ===== *)
theory Json_Text_Laws
  imports Json_Total Json_Number "HOL-Library.Multiset"
begin

text \<open>
  Laws of the JSON text: strings, numbers and values read back as they were written, whatever
  follows them; the canonical text identifies a value up to the order of members.
\<close>

section \<open>Strings\<close>

lemma parse_chars_plain:
  "c \<noteq> CHR 0x22 \<Longrightarrow> c \<noteq> CHR 0x5C \<Longrightarrow> 0x20 \<le> (of_char c :: nat) \<Longrightarrow>
   parse_chars (c # cs) = bind_r (parse_chars cs) (\<lambda>(out, r). Inr (c # out, r))"
  by simp

lemma parse_chars_escaped:
  "simple_escape e = Some x \<Longrightarrow>
   parse_chars (CHR 0x5C # e # cs) = bind_r (parse_chars cs) (\<lambda>(out, r). Inr (x # out, r))"
  by simp

lemma control_escape:
  "list_all (\<lambda>n. parse_hex4 (''00'' @ [kHexDigits ! (n div 16 mod 16), kHexDigits ! (n mod 16)]) = Some (n, []))
     [0..<32]"
  by (simp add: upt_rec parse_hex4_def hex_digit_def kHexDigits_def)

lemma parse_hex4_append: "parse_hex4 t = Some (v, []) \<Longrightarrow> parse_hex4 (t @ cs) = Some (v, cs)"
  by (auto simp: parse_hex4_def split: if_splits option.splits)

lemma parse_chars_control:
  assumes "of_char c < (0x20 :: nat)"
  shows "parse_chars (CHR 0x5C # ''u00'' @ kHexDigits ! (of_char c div 16 mod 16) # kHexDigits ! (of_char c mod 16) # cs) =
     bind_r (parse_chars cs) (\<lambda>(out, r). Inr (c # out, r))"
proof -
  let ?n = "of_char c :: nat"
  let ?h = "''00'' @ [kHexDigits ! (?n div 16 mod 16), kHexDigits ! (?n mod 16)]"
  have "parse_hex4 ?h = Some (?n, [])"
    using control_escape assms unfolding list_all_iff by (metis atLeastLessThan_iff set_upt zero_le)
  then have "parse_hex4 (?h @ cs) = Some (?n, cs)" by (rule parse_hex4_append)
  then have "unicode_escape (?h @ cs) = Inr ([c], cs)"
    using assms by (simp add: unicode_escape_def append_utf8_def)
  moreover have "simple_escape (CHR ''u'') = None" by (simp add: simple_escape_def)
  ultimately show ?thesis by simp
qed

lemma parse_chars_escape:
  "parse_chars (escape_char c @ cs) = bind_r (parse_chars cs) (\<lambda>(out, r). Inr (c # out, r))"
proof -
  consider (special) "c \<in> {CHR 0x22, CHR 0x5C, CHR 0x08, CHR 0x0C, CHR 0x0A, CHR 0x0D, CHR 0x09}"
    | (control) "c \<notin> {CHR 0x22, CHR 0x5C, CHR 0x08, CHR 0x0C, CHR 0x0A, CHR 0x0D, CHR 0x09}" "of_char c < (0x20 :: nat)"
    | (plain) "c \<notin> {CHR 0x22, CHR 0x5C, CHR 0x08, CHR 0x0C, CHR 0x0A, CHR 0x0D, CHR 0x09}" "0x20 \<le> (of_char c :: nat)"
    by fastforce
  then show ?thesis
  proof cases
    case special
    then have "\<exists>e. escape_char c = [CHR 0x5C, e] \<and> simple_escape e = Some c"
      by (elim insertE emptyE) (simp_all add: escape_char_def simple_escape_def)
    then obtain e where e: "escape_char c = [CHR 0x5C, e]" "simple_escape e = Some c" by blast
    show ?thesis using parse_chars_escaped [OF e(2)] by (simp only: e(1) append.simps)
  next
    case control
    then show ?thesis using parse_chars_control [OF control(2)] by (simp add: escape_char_def del: parse_chars.simps)
  next
    case plain
    then show ?thesis using parse_chars_plain [of c cs] by (simp add: escape_char_def del: parse_chars.simps)
  qed
qed

lemma parse_written_chars: "parse_chars (concat (map escape_char s) @ CHR 0x22 # r) = Inr (s, r)"
  by (induction s) (simp_all add: parse_chars_escape del: parse_chars.simps(2), simp)

lemma parse_written_string: "parse_string (write_string s @ r) = Inr (s, r)"
  by (simp add: parse_string_def write_string_def consume_def parse_written_chars)

section \<open>Values\<close>

fun all_numbers :: "(dbl \<Rightarrow> bool) \<Rightarrow> support_json \<Rightarrow> bool" where
  "all_numbers P (SNum d) = P d"
| "all_numbers P (SArr a) = list_all (all_numbers P) a"
| "all_numbers P (SObj ob) = list_all (\<lambda>m. all_numbers P (snd m)) ob"
| "all_numbers P _ = True"

definition opens_value :: "string \<Rightarrow> bool" where
  "opens_value t \<longleftrightarrow> t \<noteq> [] \<and> \<not> is_ws (hd t) \<and> hd t \<noteq> CHR 0x5D \<and> hd t \<noteq> CHR 0x7D"

lemma opens_value_append: "opens_value t \<Longrightarrow> opens_value (t @ r)"
  by (cases t) (auto simp: opens_value_def)

lemma skip_ws_opens: "opens_value t \<Longrightarrow> skip_ws t = t"
  by (cases t) (auto simp: opens_value_def skip_ws_def)

lemma consume_opens:
  "opens_value t \<Longrightarrow> consume (CHR 0x5D) t = None" "opens_value t \<Longrightarrow> consume (CHR 0x7D) t = None"
  by (auto simp: opens_value_def consume_def split: list.splits)

lemma skip_ws_punctuation [simp]:
  "skip_ws (CHR '','' # r) = CHR '','' # r" "skip_ws (CHR '':'' # r) = CHR '':'' # r"
  "skip_ws (CHR 0x5D # r) = CHR 0x5D # r" "skip_ws (CHR 0x7D # r) = CHR 0x7D # r"
  by (simp_all add: skip_ws_def is_ws_def)

lemma is_ws_digit: "is_digit c \<Longrightarrow> \<not> is_ws c \<and> c \<noteq> CHR 0x5D \<and> c \<noteq> CHR 0x7D"
  by (auto simp: is_digit_def is_ws_def)

lemma write_string_opens: "opens_value (write_string k)"
  by (simp add: opens_value_def write_string_def is_ws_def)

lemma write_value_opens:
  assumes "all_numbers (number_ok to_chars round_double) v"
  shows "opens_value (write_value to_chars order v)"
proof (cases v)
  case (SNum d)
  then have "number_ok to_chars round_double d" using assms by simp
  then have "format_number to_chars d \<noteq> []"
    "hd (format_number to_chars d) = CHR ''-'' \<or> is_digit (hd (format_number to_chars d))"
    using parse_written_number(2) [of to_chars round_double d "[]"] by (simp_all add: stops_def)
  then show ?thesis using SNum is_ws_digit by (auto simp: opens_value_def is_ws_def)
qed (auto simp: opens_value_def is_ws_def write_object_def write_string_opens [unfolded opens_value_def is_ws_def] Let_def)

lemma comma_separated_more: "ts \<noteq> [] \<Longrightarrow> comma_separated (t # ts) = t @ CHR '','' # comma_separated ts"
  by (cases ts) auto

lemma comma_separated_opens: "ts \<noteq> [] \<Longrightarrow> opens_value (hd ts) \<Longrightarrow> opens_value (comma_separated ts)"
  by (induction ts rule: comma_separated.induct) (auto simp: opens_value_append)

text \<open>A text that reads as the value with any fuel from twice its length on, whatever closes it.\<close>

definition text_of :: "(rat \<Rightarrow> dbl option) \<Rightarrow> string \<Rightarrow> support_json \<Rightarrow> bool" where
  "text_of round_double t v \<longleftrightarrow>
     opens_value t \<and>
     (\<forall>fuel r. stops r \<longrightarrow> 2 * length t + 1 \<le> fuel \<longrightarrow> parse_value round_double fuel (t @ r) = Inr (v, r))"

lemma text_ofD:
  "text_of round_double t v \<Longrightarrow> stops r \<Longrightarrow> 2 * length t + 1 \<le> fuel \<Longrightarrow> parse_value round_double fuel (t @ r) = Inr (v, r)"
  "text_of round_double t v \<Longrightarrow> opens_value t"
  by (simp_all add: text_of_def)

lemma text_of_length: "text_of round_double t v \<Longrightarrow> 0 < length t"
  by (auto simp: text_of_def opens_value_def)

lemma stops_closing [simp]:
  "stops (CHR '','' # r)" "stops (CHR 0x5D # r)" "stops (CHR 0x7D # r)" "stops []"
  by (simp_all add: stops_def)

lemma parse_written_elements:
  assumes "ts \<noteq> []" "list_all2 (text_of round_double) ts vs" "2 * length (comma_separated ts) + 2 \<le> fuel"
  shows "parse_elements round_double fuel a (comma_separated ts @ CHR 0x5D # r) = Inr (SArr (a @ vs), r)"
  using assms
proof (induction ts arbitrary: vs fuel a)
  case (Cons t ts)
  obtain v vs' where vs: "vs = v # vs'" "text_of round_double t v" "list_all2 (text_of round_double) ts vs'"
    using Cons.prems(2) by (cases vs) auto
  obtain f where f: "fuel = Suc f" using Cons.prems(3) by (cases fuel) auto
  show ?case
  proof (cases "ts = []")
    case True
    then show ?thesis
      using vs f Cons.prems(3) text_ofD(1) [OF vs(2), of "CHR 0x5D # r" f] by (simp add: consume_def)
  next
    case False
    let ?cs = "comma_separated ts"
    have len: "2 * length t + 1 \<le> f" "2 * length ?cs + 2 \<le> f"
      using Cons.prems(3) f False text_of_length [OF vs(2)] by (simp_all add: comma_separated_more)
    have "opens_value (hd ts)" using vs(3) False text_ofD(2) by (cases ts; cases vs') auto
    then have "opens_value (?cs @ CHR 0x5D # r)" using False by (intro opens_value_append comma_separated_opens)
    then show ?thesis
      using Cons.IH [OF False vs(3) len(2), of "a @ [v]"] text_ofD(1) [OF vs(2) _ len(1)] vs(1) f False
      by (simp add: comma_separated_more consume_def skip_ws_opens) (simp add: opens_value_def)
  qed
qed simp

lemma text_of_array:
  assumes "list_all2 (text_of round_double) ts vs"
  shows "text_of round_double (CHR 0x5B # comma_separated ts @ [CHR 0x5D]) (SArr vs)"
proof -
  have "parse_value round_double fuel (CHR 0x5B # comma_separated ts @ CHR 0x5D # r) = Inr (SArr vs, r)"
    if len: "2 * length (comma_separated ts) + 5 \<le> fuel" for fuel r
  proof -
    obtain f where f: "fuel = Suc f" using len by (cases fuel) auto
    have ws: "skip_ws (CHR 0x5B # t) = CHR 0x5B # t" for t by (simp add: skip_ws_def is_ws_def)
    show ?thesis
    proof (cases "ts = []")
      case True
      then show ?thesis using assms f by (simp add: ws consume_def)
    next
      case False
      then have "opens_value (hd ts)" using assms text_ofD(2) by (cases ts; cases vs) auto
      then have "opens_value (comma_separated ts @ CHR 0x5D # r)"
        using False by (intro opens_value_append comma_separated_opens)
      then show ?thesis
        using parse_written_elements [OF False assms, of f "[]" r] len f by (simp add: ws skip_ws_opens consume_opens)
    qed
  qed
  then show ?thesis by (simp add: text_of_def opens_value_def is_ws_def)
qed

lemma parse_member:
  assumes "text_of round_double t v" "stops r" "2 * length t + 1 \<le> f"
  shows "parse_members round_double (Suc f) ob (write_string k @ CHR '':'' # t @ r) =
     (let ob' = insert_or_assign ob k v
      in case consume (CHR 0x7D) (skip_ws r) of
           Some r4 \<Rightarrow> Inr (SObj ob', r4)
         | None \<Rightarrow>
             (case consume (CHR '','') (skip_ws r) of
                None \<Rightarrow> Inl ExpectedCommaOrBrace
              | Some r5 \<Rightarrow>
                  if skip_ws r5 \<noteq> [] \<and> hd (skip_ws r5) = CHR 0x7D then Inl TrailingCommaObject
                  else parse_members round_double f ob' (skip_ws r5)))"
proof -
  have "skip_ws (write_string k @ CHR '':'' # t @ r) = write_string k @ CHR '':'' # t @ r"
    by (intro skip_ws_opens opens_value_append write_string_opens)
  then show ?thesis
    using text_ofD(1) [OF assms] by (simp add: parse_written_string consume_def [of "CHR '':''"])
qed

definition member_text :: "string \<times> string \<Rightarrow> string" where
  "member_text m = write_string (fst m) @ CHR '':'' # snd m"

lemma member_text_opens: "opens_value (member_text m)"
  unfolding member_text_def by (intro opens_value_append write_string_opens)

definition texts_of :: "(rat \<Rightarrow> dbl option) \<Rightarrow> (string \<times> string) list \<Rightarrow> support_json members \<Rightarrow> bool" where
  "texts_of round_double ms vs \<longleftrightarrow>
     list_all2 (\<lambda>m n. fst m = fst n \<and> text_of round_double (snd m) (snd n)) ms vs"

lemma texts_of_Cons:
  "texts_of round_double (m # ms) vs \<longleftrightarrow>
     (\<exists>v vs'. vs = (fst m, v) # vs' \<and> text_of round_double (snd m) v \<and> texts_of round_double ms vs')"
  by (auto simp: texts_of_def list_all2_Cons1)

lemma parse_written_members:
  assumes "ms \<noteq> []" "texts_of round_double ms vs" "unique_keys (ob @ vs)"
    and "2 * length (comma_separated (map member_text ms)) + 2 \<le> fuel"
  shows "parse_members round_double fuel ob (comma_separated (map member_text ms) @ CHR 0x7D # r) = Inr (SObj (ob @ vs), r)"
  using assms
proof (induction ms arbitrary: vs fuel ob)
  case (Cons m ms)
  obtain v vs' where vs: "vs = (fst m, v) # vs'" "text_of round_double (snd m) v" "texts_of round_double ms vs'"
    using Cons.prems(2) unfolding texts_of_Cons by blast
  obtain f where f: "fuel = Suc f" using Cons.prems(4) by (cases fuel) auto
  have fresh: "insert_or_assign ob (fst m) v = ob @ [(fst m, v)]"
    using Cons.prems(3) vs(1) by (intro insert_or_assign_absent) (auto simp: unique_keys_def)
  show ?case
  proof (cases "ms = []")
    case True
    have "vs' = []" using vs(3) True by (simp add: texts_of_def)
    moreover have "2 * length (snd m) + 1 \<le> f" using Cons.prems(4) f True by (simp add: member_text_def)
    ultimately show ?thesis
      using parse_member [OF vs(2), of "CHR 0x7D # r" f ob "fst m"] f True vs(1) fresh
      by (simp add: member_text_def consume_def del: parse_members.simps)
  next
    case False
    let ?cs = "comma_separated (map member_text ms)"
    have len: "2 * length (snd m) + 1 \<le> f" "2 * length ?cs + 2 \<le> f"
      using Cons.prems(4) f False text_of_length [OF vs(2)] by (simp_all add: comma_separated_more member_text_def [of m])
    have "opens_value (hd (map member_text ms))" using False by (cases ms) (simp_all add: member_text_opens)
    then have op: "opens_value (?cs @ CHR 0x7D # r)" using False by (intro opens_value_append comma_separated_opens) simp_all
    have "parse_members round_double f (ob @ [(fst m, v)]) (?cs @ CHR 0x7D # r) = Inr (SObj ((ob @ [(fst m, v)]) @ vs'), r)"
      using Cons.prems(3) vs by (intro Cons.IH False vs(3) len(2)) simp
    then show ?thesis
      using parse_member [OF vs(2) _ len(1), of "CHR '','' # ?cs @ CHR 0x7D # r" ob "fst m"] f False vs(1) fresh op
      by (simp add: member_text_def [of m] comma_separated_more consume_def skip_ws_opens del: parse_members.simps)
        (simp add: opens_value_def)
  qed
qed simp

lemma text_of_object:
  assumes "texts_of round_double ms vs" "unique_keys vs"
  shows "text_of round_double (write_object ms) (SObj vs)"
proof -
  let ?t = "comma_separated (map member_text ms)"
  have wo: "write_object ms = CHR 0x7B # ?t @ [CHR 0x7D]"
  proof -
    have "(\<lambda>(k, t). write_string k @ CHR '':'' # t) = member_text" by (auto simp: fun_eq_iff member_text_def)
    then show ?thesis by (simp add: write_object_def)
  qed
  have "parse_value round_double fuel (CHR 0x7B # ?t @ CHR 0x7D # r) = Inr (SObj vs, r)"
    if len: "2 * length ?t + 5 \<le> fuel" for fuel r
  proof -
    obtain f where f: "fuel = Suc f" using len by (cases fuel) auto
    have ws: "skip_ws (CHR 0x7B # t) = CHR 0x7B # t" for t by (simp add: skip_ws_def is_ws_def)
    show ?thesis
    proof (cases "ms = []")
      case True
      then show ?thesis using assms f by (simp add: ws consume_def texts_of_def)
    next
      case False
      then have "opens_value (hd (map member_text ms))" by (cases ms) (simp_all add: member_text_opens)
      then have "opens_value (?t @ CHR 0x7D # r)" using False by (intro opens_value_append comma_separated_opens) simp_all
      then show ?thesis
        using parse_written_members [OF False assms(1), of "[]" f r] assms(2) len f
        by (simp add: ws skip_ws_opens consume_opens del: parse_members.simps)
    qed
  qed
  then show ?thesis by (simp add: wo text_of_def opens_value_def is_ws_def)
qed

lemma text_of_literal:
  "text_of round_double ''true'' (SBool True)" "text_of round_double ''false'' (SBool False)"
  "text_of round_double ''null'' SNull"
proof -
  have "parse_value round_double fuel (''true'' @ r) = Inr (SBool True, r)"
    "parse_value round_double fuel (''false'' @ r) = Inr (SBool False, r)"
    "parse_value round_double fuel (''null'' @ r) = Inr (SNull, r)" if len: "1 \<le> fuel" for fuel r
    using len by (cases fuel; simp add: skip_ws_def is_ws_def parse_literal_def)+
  then show "text_of round_double ''true'' (SBool True)" "text_of round_double ''false'' (SBool False)"
    "text_of round_double ''null'' SNull"
    by (simp_all add: text_of_def opens_value_def is_ws_def)
qed

text \<open>The value whose members stand in the order of the writer.\<close>

fun arrange :: "member_order \<Rightarrow> support_json \<Rightarrow> support_json" where
  "arrange order (SObj ob) =
     (let ms = map (\<lambda>m. (fst m, arrange order (snd m))) ob
      in SObj (case order of SortedOrder \<Rightarrow> sort_key fst ms | InsertionOrder \<Rightarrow> ms))"
| "arrange order (SArr a) = SArr (map (arrange order) a)"
| "arrange order v = v"

lemma arrange_insertion: "arrange InsertionOrder v = v"
proof (induction v)
  case (SArr a)
  then show ?case by (simp add: map_idI)
next
  case (SObj ob)
  then have "(fst m, arrange InsertionOrder (snd m)) = m" if "m \<in> set ob" for m
    using SObj [OF that snds.intros] by simp
  then show ?case by (simp add: map_idI)
qed simp_all

lemma insort_key_map:
  "insort_key fst (fst m, g (snd m)) (map (\<lambda>m. (fst m, g (snd m))) ms) = map (\<lambda>m. (fst m, g (snd m))) (insort_key fst m ms)"
  by (induction ms) auto

lemma sort_key_map:
  "sort_key fst (map (\<lambda>m. (fst m, g (snd m))) ms) = map (\<lambda>m. (fst m, g (snd m))) (sort_key fst ms)"
  by (induction ms) (simp_all add: insort_key_map)

lemma text_of_written:
  assumes "support_wf v" "all_numbers (number_ok to_chars round_double) v"
  shows "text_of round_double (write_value to_chars order v) (arrange order v)"
  using assms
proof (induction v)
  case (SNum d)
  have op: "opens_value (format_number to_chars d)" using write_value_opens [OF SNum(2), of order] by simp
  obtain c cs where c: "format_number to_chars d = c # cs" "c = CHR ''-'' \<or> is_digit c"
    using parse_written_number(2) [of to_chars round_double d "[]"] SNum by (cases "format_number to_chars d") auto
  have other: "c \<notin> {CHR 0x22, CHR 0x7B, CHR 0x5B, CHR ''t'', CHR ''f'', CHR ''n''}"
    using c(2) by (auto simp: is_digit_def)
  have "parse_value round_double fuel (format_number to_chars d @ r) = Inr (SNum d, r)"
    if r: "stops r" and len: "2 * length (format_number to_chars d) + 1 \<le> fuel" for fuel r
  proof -
    obtain f where f: "fuel = Suc f" using len by (cases fuel) auto
    have "parse_number round_double (c # cs @ r) = Inr (d, r)"
      using parse_written_number(1) [of to_chars round_double d r] SNum r c(1) by simp
    moreover have "skip_ws (c # cs @ r) = c # cs @ r" using op c(1) skip_ws_opens [OF opens_value_append, of "c # cs" r] by simp
    ultimately show ?thesis using c f other by (simp add: parse_value_at parse_at_def del: parse_value.simps)
  qed
  then show ?case using op by (simp add: text_of_def)
next
  case (SArr a)
  then have "list_all2 (text_of round_double) (map (write_value to_chars order) a) (map (arrange order) a)"
    by (simp add: list_all2_map1 list_all2_map2 list_all2_same list_all_iff)
  then show ?case using text_of_array by simp
next
  case (SObj ob)
  define ob' where "ob' = (case order of SortedOrder \<Rightarrow> sort_key fst ob | InsertionOrder \<Rightarrow> ob)"
  have set: "set ob' = set ob" by (simp add: ob'_def split: member_order.split)
  have w: "write_value to_chars order (SObj ob) = write_object (map (\<lambda>m. (fst m, write_value to_chars order (snd m))) ob')"
    by (simp add: ob'_def sort_key_map Let_def split: member_order.split)
  have a: "arrange order (SObj ob) = SObj (map (\<lambda>m. (fst m, arrange order (snd m))) ob')"
    by (simp add: ob'_def sort_key_map Let_def split: member_order.split)
  have each: "text_of round_double (write_value to_chars order (snd m)) (arrange order (snd m))" if "m \<in> set ob'" for m
    using SObj that set by (intro SObj.IH [of m]) (auto simp: list_all_iff snds.simps)
  have "texts_of round_double (map (\<lambda>m. (fst m, write_value to_chars order (snd m))) ob')
      (map (\<lambda>m. (fst m, arrange order (snd m))) ob')"
    using each by (simp add: texts_of_def list_all2_map1 list_all2_map2 list_all2_same)
  moreover have "unique_keys (map (\<lambda>m. (fst m, arrange order (snd m))) ob')"
    using SObj.prems(1) by (simp add: unique_keys_def ob'_def o_def distinct_map split: member_order.split)
  ultimately show ?case unfolding w a by (rule text_of_object)
next
  case (SStr str)
  have "parse_value round_double fuel (write_string str @ r) = Inr (SStr str, r)" if len: "1 \<le> fuel" for fuel r
  proof -
    obtain f where f: "fuel = Suc f" using len by (cases fuel) auto
    have "skip_ws (write_string str @ r) = write_string str @ r"
      by (intro skip_ws_opens opens_value_append write_string_opens)
    moreover obtain cs where "write_string str @ r = CHR 0x22 # cs" by (simp add: write_string_def)
    ultimately show ?thesis using f parse_written_string [of str r] by simp
  qed
  then show ?case by (simp add: text_of_def write_string_opens)
next
  case (SBool b)
  then show ?case by (simp add: text_of_literal)
next
  case SNull
  then show ?case by (simp add: text_of_literal)
qed

lemma read_text: "text_of round_double t v \<Longrightarrow> read_json round_double t = Inr v"
  using text_ofD(1) [of round_double t v "[]" "json_fuel t"] by (simp add: read_json_def json_fuel_def)

section \<open>The order of members\<close>

lemma sort_key_members:
  assumes "unique_keys ob" "mset ob' = mset ob"
  shows "sort_key fst ob' = sort_key fst ob"
proof (rule sort_key_inj_key_eq)
  have "set ob' = set ob" using assms(2) by (rule mset_eq_setD)
  then show "inj_on fst (set ob')" using assms(1) by (simp add: unique_keys_def distinct_map)
qed (simp_all add: assms(2))

lemma canonical_object:
  assumes "unique_keys ob" "mset ob' = mset ob"
  shows "canonical_json to_chars (SObj ob') = canonical_json to_chars (SObj ob)"
  by (simp add: canonical_json_def sort_key_map sort_key_members [OF assms] Let_def)

lemma write_arranged: "write_value to_chars order v = write_value to_chars InsertionOrder (arrange order v)"
proof (induction v)
  case (SObj ob)
  define ob' where "ob' = (case order of SortedOrder \<Rightarrow> sort_key fst ob | InsertionOrder \<Rightarrow> ob)"
  have "set ob' = set ob" by (simp add: ob'_def split: member_order.split)
  then have "map (\<lambda>m. (fst m, write_value to_chars order (snd m))) ob' =
      map (\<lambda>m. (fst m, write_value to_chars InsertionOrder (arrange order (snd m)))) ob'"
    using SObj [OF _ snds.intros] by simp
  then show ?case
    using sort_key_map [of "\<lambda>v. write_value to_chars InsertionOrder (arrange SortedOrder v)" ob]
    by (simp add: ob'_def sort_key_map Let_def o_def cong: map_cong split: member_order.splits)
qed (simp_all add: o_def cong: map_cong)

section \<open>Properties\<close>

definition sample_json :: support_json where
  "sample_json =
     SObj [(''b'', SArr [SNum (DFin (-3/2)), SBool True, SNull]), (''a'', SStr [CHR 0x22, CHR 0x0A, CHR 0x01, CHR 0xE9])]"

definition sample_to_chars :: "dbl \<Rightarrow> string" where
  "sample_to_chars d = (if d = DFin (-3/2) then ''-1.5e+00'' else ''1e+00'')"

lemma sample_json_ok:
  "support_wf sample_json"
  "all_numbers (number_ok sample_to_chars (\<lambda>q. Some (DFin q))) sample_json"
proof -
  show "support_wf sample_json" by code_simp
  have "sample_to_chars (DFin (-3/2)) = scientific_text True ''15'' 0" by code_simp
  moreover have "scientific_value True ''15'' 0 = -3/2" by code_simp
  moreover have "all_digits ''15''" by code_simp
  ultimately have "number_ok sample_to_chars (\<lambda>q. Some (DFin q)) (DFin (-3/2))"
    unfolding number_ok_def by (intro disjI2 exI [of _ "-3/2"] exI [of _ True] exI [of _ "''15''"] exI [of _ 0]) simp
  then show "all_numbers (number_ok sample_to_chars (\<lambda>q. Some (DFin q))) sample_json"
    by (simp add: sample_json_def)
qed

text \<open>
  C22. JSON text round trip: for a value with unique keys whose numbers are finite, and for
  conversions under which the digits of each of these numbers round back to it, parsing what the
  writer produced gives the value itself; parsing the canonical text gives the value with the
  members of every object sorted by key. All escapes of strings and all three layouts of
  numbers are covered.
\<close>

theorem json_text_round_trip:
  assumes "support_wf v" "all_numbers (number_ok to_chars round_double) v"
  shows "read_json round_double (write_json to_chars v) = Inr v \<and>
     read_json round_double (canonical_json to_chars v) = Inr (arrange SortedOrder v)"
  using text_of_written [OF assms, of InsertionOrder] text_of_written [OF assms, of SortedOrder]
  by (simp add: write_json_def canonical_json_def read_text arrange_insertion)

theorem json_text_round_trip_witness:
  "read_json (\<lambda>q. Some (DFin q)) (write_json sample_to_chars sample_json) = Inr sample_json"
  using json_text_round_trip [OF sample_json_ok] by simp

text \<open>
  C35. The parser always returns: with the fuel \<open>json_fuel\<close> of the text no text makes it run out
  of fuel, and every value it returns has unique keys in all its objects, the last of a repeated
  key winning.
\<close>

theorem read_json_returns:
  "read_json round_double s \<noteq> Inl OutOfFuel \<and> (\<forall>v. read_json round_double s = Inr v \<longrightarrow> support_wf v)"
proof (intro conjI allI impI)
  have "parse_value round_double (json_fuel s) s \<noteq> Inl OutOfFuel"
    using fuel_suffices [of round_double "json_fuel s"] unfolding enough_fuel_def by (simp add: json_fuel_def)
  then show "read_json round_double s \<noteq> Inl OutOfFuel"
    unfolding read_json_def by (rule bind_r_fuel) auto
  show "support_wf v" if "read_json round_double s = Inr v" for v
    using that returns_wfD(1) [OF parser_wf] by (auto simp: read_json_def)
qed

theorem read_json_returns_witness:
  "support_wf (SObj [(''a'', SNum (DFin 2))])"
proof -
  have "read_json (\<lambda>q. Some (DFin q)) (CHR 0x7B # CHR 0x22 # ''a'' @ CHR 0x22 # '':1, '' @ CHR 0x22 # ''a'' @ CHR 0x22 # '': 20e-1} '') =
      Inr (SObj [(''a'', SNum (DFin 2))])" by code_simp
  then show ?thesis using read_json_returns by blast
qed

text \<open>
  The canonical text identifies a value up to the order of members: two such values have
  the same canonical text exactly if they agree once every object is sorted by key, and
  reordering the members of an object never changes it.
\<close>

theorem canonical_json_identifies:
  assumes "support_wf v" "all_numbers (number_ok to_chars round_double) v"
    and "support_wf w" "all_numbers (number_ok to_chars round_double) w"
  shows "(canonical_json to_chars v = canonical_json to_chars w \<longleftrightarrow> arrange SortedOrder v = arrange SortedOrder w) \<and>
     (\<forall>ob ob'. v = SObj ob \<longrightarrow> mset ob' = mset ob \<longrightarrow> canonical_json to_chars (SObj ob') = canonical_json to_chars v)"
proof (intro conjI allI impI)
  have read: "read_json round_double (canonical_json to_chars u) = Inr (arrange SortedOrder u)"
    if "support_wf u" "all_numbers (number_ok to_chars round_double) u" for u
    using text_of_written [OF that, of SortedOrder] by (simp add: canonical_json_def read_text)
  show "canonical_json to_chars v = canonical_json to_chars w \<longleftrightarrow> arrange SortedOrder v = arrange SortedOrder w"
    using read [OF assms(1,2)] read [OF assms(3,4)] by (metis canonical_json_def write_arranged sum.inject(2))
  show "canonical_json to_chars (SObj ob') = canonical_json to_chars v" if "v = SObj ob" "mset ob' = mset ob" for ob ob'
    using assms(1) that by (simp add: canonical_object)
qed

theorem canonical_json_identifies_witness:
  "canonical_json sample_to_chars (SObj (rev [(''b'', SArr [SNum (DFin (-3/2)), SBool True, SNull]),
      (''a'', SStr [CHR 0x22, CHR 0x0A, CHR 0x01, CHR 0xE9])])) = canonical_json sample_to_chars sample_json"
  using canonical_json_identifies [OF sample_json_ok sample_json_ok] sample_json_def by simp

end
