(* ===== verification/Session_Transaction.thy ===== *)
theory Session_Transaction
  imports Storage_State
begin

text \<open>
  \<^verbatim>\<open>src/src/durable/Session.cpp\<close>, class \<^verbatim>\<open>Transaction\<close>: the table part of a transaction and how
  \<^verbatim>\<open>commit_now\<close> assembles it into one storage batch. An operation takes the storage (which mints
  ids) and the transaction and returns both with its result. A staged document carries what its
  prepared change gave, so that the writes of the batch are a function of the staged documents;
  the trackers behind the drafts are the subject of the tracker theories.
\<close>

section \<open>State\<close>

record submission_settlement =
  stl_status :: string
  stl_answer :: "int option"
  stl_reason :: "string option"
  stl_detail :: "json option"

record submission_change =
  sc_id :: int
  sc_settlement :: submission_settlement
  sc_placed_entry :: "int option"

text \<open>The prepared value and operations are absent for a retirement without an acquisition.\<close>

record staged_document =
  sg_record :: document_record
  sg_address :: document_address
  sg_kind :: string
  sg_base :: json
  sg_prepared :: "(json \<times> op list) option"
  sg_created :: bool
  sg_stored_version :: nat
  sg_deltas_since_base :: nat
  sg_retire :: bool
  sg_definition_version :: nat
  sg_checkpoint :: "(json \<Rightarrow> op list \<Rightarrow> nat \<Rightarrow> bool) option"
  sg_fork_source :: "document_copy_source option"

record transaction =
  tx_has_table_write :: bool
  tx_sealed :: bool
  tx_writes :: "storage_write list"
  tx_documents :: "staged_document list"
  tx_latest_documents :: "string \<Rightarrow> nat option"
  tx_staged_submissions :: "submission_record omap"
  tx_submission_changes :: "submission_change list"
  tx_staged_tasks :: "task_record omap"
  tx_created_tasks :: "unit omap"

definition tx_init :: transaction where
  "tx_init =
     \<lparr>tx_has_table_write = False, tx_sealed = False, tx_writes = [], tx_documents = [], tx_latest_documents = (\<lambda>_. None),
      tx_staged_submissions = [], tx_submission_changes = [], tx_staged_tasks = [], tx_created_tasks = []\<rparr>"

datatype tx_error =
    TransactionSettled
  | ReadAfterWrite
  | StorageFailed storage_error
  | ConversationNotFound int
  | EntryNotVisibleFrom int int
  | ForkEntryMissing
  | SharedForkAddress string
  | TaskOwnerNotFound int
  | ConversationOwnerNotFound int
  | ChildInBackground
  | ChildElsewhere int
  | SubmissionNotFound int
  | SubmissionNotQueued int
  | SubmissionNotPlaced int
  | TaskAlreadyTerminal int
  | OwnerNotLive int string
  | OwnerAbortMarked int
  | ContextHeadNotVisible
  | ScopeMismatch int
  | NewerVersion int nat
  | MigrationRequired int nat
  | WrongAddressScope string
  | WrongFamilyKey string
  | FamilySeedRequired string
  | NotAFamily string
  | DocumentUnreadable int
  | KindEmpty
  | VersionNotPositive string
  | SemanticsOutsideConversation string
  | ForkNeedsHistory string
  | InitialValueMissing string
  | SessionFailed
  | SessionClosed
  | NotAConversationDocument
  | HistoryNotRetained string
  | EntryNotOfConversation int int

type_synonym 'a tx_result = "storage \<times> transaction \<times> (tx_error, 'a) result"

text \<open>A storage call whose error the operation passes on.\<close>

definition storage_call :: "(storage_error, 'a) result \<Rightarrow> (tx_error, 'a) result" where
  "storage_call r = (case r of Inl e \<Rightarrow> Inl (StorageFailed e) | Inr x \<Rightarrow> Inr x)"

definition empty_write :: "string \<Rightarrow> storage_write" where
  "empty_write ty =
     \<lparr>sw_type = ty, sw_conversation = None, sw_entry = None, sw_task = None, sw_submission = None,
      sw_document_record = None, sw_document_id = None, sw_copy_source = None, sw_document_version = 1,
      sw_document_value = None, sw_document_ops = []\<rparr>"

definition conversation_write :: "conversation_record \<Rightarrow> storage_write" where
  "conversation_write r = (empty_write ''conversation'')\<lparr>sw_conversation := Some r\<rparr>"

definition entry_write :: "entry_record \<Rightarrow> storage_write" where
  "entry_write r = (empty_write ''entry'')\<lparr>sw_entry := Some r\<rparr>"

definition task_write :: "task_record \<Rightarrow> storage_write" where
  "task_write r = (empty_write ''task'')\<lparr>sw_task := Some r\<rparr>"

definition submission_write :: "submission_record \<Rightarrow> storage_write" where
  "submission_write r = (empty_write ''submission'')\<lparr>sw_submission := Some r\<rparr>"

definition copy_write :: "document_record \<Rightarrow> document_copy_source \<Rightarrow> storage_write" where
  "copy_write r source =
     (empty_write ''document.copy'')\<lparr>sw_document_record := Some r, sw_copy_source := Some source\<rparr>"

definition retire_write :: "int \<Rightarrow> storage_write" where
  "retire_write i = (empty_write ''document.retire'')\<lparr>sw_document_id := Some i\<rparr>"

definition stage_write :: "storage_write \<Rightarrow> transaction \<Rightarrow> transaction" where
  "stage_write w tx = tx\<lparr>tx_has_table_write := True, tx_writes := tx_writes tx @ [w]\<rparr>"

section \<open>Guards and lookups\<close>

definition reject_read :: "transaction \<Rightarrow> (tx_error, unit) result" where
  "reject_read tx =
     (if tx_sealed tx then Inl TransactionSettled
      else if tx_has_table_write tx then Inl ReadAfterWrite else Inr ())"

definition reject_write :: "transaction \<Rightarrow> (tx_error, unit) result" where
  "reject_write tx = (if tx_sealed tx then Inl TransactionSettled else Inr ())"

definition current_task :: "storage \<Rightarrow> transaction \<Rightarrow> int \<Rightarrow> (tx_error, task_record option) result" where
  "current_task s tx i =
     (case omap_find (tx_staged_tasks tx) i of
        Some r \<Rightarrow> Inr (Some r)
      | None \<Rightarrow> storage_call (read_task s i))"

definition stage_task :: "task_record \<Rightarrow> transaction \<Rightarrow> transaction" where
  "stage_task r tx = tx\<lparr>tx_staged_tasks := omap_insert (tx_staged_tasks tx) (tk_id r) r\<rparr>"

definition has_conversation :: "transaction \<Rightarrow> int \<Rightarrow> bool" where
  "has_conversation tx i \<longleftrightarrow>
     (\<exists>w\<in>set (tx_writes tx). sw_type w = ''conversation'' \<and>
        (case sw_conversation w of None \<Rightarrow> False | Some r \<Rightarrow> cv_id r = i))"

definition staged_task :: "transaction \<Rightarrow> int \<Rightarrow> task_record option" where
  "staged_task tx i =
     Option.bind
       (find (\<lambda>w. sw_type w = ''task'' \<and> (case sw_task w of None \<Rightarrow> False | Some r \<Rightarrow> tk_id r = i)) (tx_writes tx))
       sw_task"

definition check_document_owner :: "storage \<Rightarrow> transaction \<Rightarrow> document_address \<Rightarrow> (tx_error, unit) result" where
  "check_document_owner s tx a =
     (case address_scope a of
        ConversationScope \<Rightarrow>
          (let c = the (ad_conversation a)
           in if has_conversation tx c then Inr ()
              else bind_r (storage_call (read_conversation s c)) (\<lambda>stored.
                     if stored = None then Inl (ConversationNotFound c) else Inr ()))
      | TaskScope \<Rightarrow>
          (let t = the (ad_task a)
           in case staged_task tx t of
                Some r \<Rightarrow> if ts_status (tk_state r) = ''terminal'' then Inl (TaskAlreadyTerminal t) else Inr ()
              | None \<Rightarrow>
                  bind_r (storage_call (read_task s t)) (\<lambda>stored.
                    case stored of
                      None \<Rightarrow> Inl (TaskOwnerNotFound t)
                    | Some r \<Rightarrow>
                        if ts_status (tk_state r) = ''terminal'' then Inl (TaskAlreadyTerminal t) else Inr ()))
      | SessionScope \<Rightarrow> Inr ())"

section \<open>Operations\<close>

text \<open>An operation that mints an id and then stages a write.\<close>

definition with_minted ::
    "storage \<Rightarrow> transaction \<Rightarrow> (int \<Rightarrow> transaction \<times> 'a) \<Rightarrow> 'a tx_result" where
  "with_minted s tx k =
     (case mint_id s of
        (s', Inl e) \<Rightarrow> (s', tx, Inl (StorageFailed e))
      | (s', Inr i) \<Rightarrow> (let (tx', x) = k i in (s', tx', Inr x)))"

definition create_root_conversation :: "storage \<Rightarrow> transaction \<Rightarrow> conversation_record tx_result" where
  "create_root_conversation s tx =
     (case reject_write tx of
        Inl e \<Rightarrow> (s, tx, Inl e)
      | Inr _ \<Rightarrow>
          let r = \<lparr>cv_id = 1, cv_parent = None, cv_owner = None\<rparr>
          in (s, stage_write (conversation_write r) tx, Inr r))"

definition create_conversation :: "storage \<Rightarrow> transaction \<Rightarrow> conversation_record tx_result" where
  "create_conversation s tx =
     (case reject_write tx of
        Inl e \<Rightarrow> (s, tx, Inl e)
      | Inr _ \<Rightarrow>
          with_minted s tx (\<lambda>i. let r = \<lparr>cv_id = i, cv_parent = None, cv_owner = None\<rparr>
                                 in (stage_write (conversation_write r) tx, r)))"

definition create_owned_conversation :: "storage \<Rightarrow> transaction \<Rightarrow> int \<Rightarrow> conversation_record tx_result" where
  "create_owned_conversation s tx owner =
     (case reject_write tx of
        Inl e \<Rightarrow> (s, tx, Inl e)
      | Inr _ \<Rightarrow>
          (case current_task s tx owner of
             Inl e \<Rightarrow> (s, tx, Inl e)
           | Inr None \<Rightarrow> (s, tx, Inl (ConversationOwnerNotFound owner))
           | Inr (Some task) \<Rightarrow>
               with_minted s tx (\<lambda>i.
                 let r = \<lparr>cv_id = i, cv_parent = None, cv_owner = Some (tk_conversation task, owner)\<rparr>
                 in (stage_write (conversation_write r) tx, r))))"

text \<open>Forking: the documents to copy, then one minted id for the fork and one for each copy.\<close>

definition kUnlimited :: nat where
  "kUnlimited = 2 ^ 64 - 1"

fun gather_copies ::
    "document_fork \<Rightarrow> document_point \<Rightarrow> document_record list \<Rightarrow>
     string list \<times> (document_record \<times> document_point) list \<Rightarrow>
     (tx_error, string list \<times> (document_record \<times> document_point) list) result" where
  "gather_copies policy pt [] acc = Inr acc"
| "gather_copies policy pt (r # rs) (addresses, copies) =
     (if dr_fork r \<noteq> policy then gather_copies policy pt rs (addresses, copies)
      else let address = dr_kind r @ [CHR 0x0A] @ (case dr_key r of None \<Rightarrow> [] | Some k \<Rightarrow> k)
           in if address \<in> set addresses then Inl (SharedForkAddress (dr_kind r))
              else gather_copies policy pt rs (address # addresses, copies @ [(r, pt)]))"

definition fork_sources ::
    "storage \<Rightarrow> int \<Rightarrow> int \<Rightarrow> (tx_error, (document_record \<times> document_point) list) result" where
  "fork_sources s parent entry_id =
     bind_r (storage_call (read_conversation s parent)) (\<lambda>parent_record.
     if parent_record = None then Inl (ConversationNotFound parent)
     else bind_r (storage_call (scan_entries s parent kUnlimited)) (\<lambda>visible.
     case find (\<lambda>e. en_id e = entry_id) visible of
       None \<Rightarrow> Inl (EntryNotVisibleFrom entry_id parent)
     | Some selected \<Rightarrow>
         bind_r (storage_call (read_entry s entry_id)) (\<lambda>stored.
         case stored of
           None \<Rightarrow> Inl ForkEntryMissing
         | Some st \<Rightarrow>
             bind_r (storage_call (scan_conversation_documents s (en_conversation selected)
                 (Some (es_commit_seq st)) kUnlimited)) (\<lambda>as_of_documents.
             bind_r (storage_call (scan_conversation_documents s parent None kUnlimited)) (\<lambda>current_documents.
             bind_r (gather_copies ForkAsOf (Some (es_commit_seq st)) as_of_documents ([], [])) (\<lambda>acc.
             bind_r (gather_copies ForkCurrent None current_documents acc) (\<lambda>(_, copies). Inr copies)))))))"

fun mint_copies ::
    "storage \<Rightarrow> int \<Rightarrow> (document_record \<times> document_point) list \<Rightarrow>
     storage \<times> (tx_error, storage_write list) result" where
  "mint_copies s fork [] = (s, Inr [])"
| "mint_copies s fork ((r, pt) # copies) =
     (case mint_id s of
        (s', Inl e) \<Rightarrow> (s', Inl (StorageFailed e))
      | (s', Inr i) \<Rightarrow>
          (let copy = r\<lparr>dr_id := i, dr_created_at := 0, dr_retired_at := None, dr_conversation := Some fork\<rparr>;
               w = copy_write copy \<lparr>cs_id = dr_id r, cs_at = pt\<rparr>
           in case mint_copies s' fork copies of
                (s'', Inl e) \<Rightarrow> (s'', Inl e)
              | (s'', Inr ws) \<Rightarrow> (s'', Inr (w # ws))))"

definition fork_conversation :: "storage \<Rightarrow> transaction \<Rightarrow> int \<Rightarrow> int \<Rightarrow> conversation_record tx_result" where
  "fork_conversation s tx parent entry_id =
     (case reject_write tx of
        Inl e \<Rightarrow> (s, tx, Inl e)
      | Inr _ \<Rightarrow>
          (case fork_sources s parent entry_id of
             Inl e \<Rightarrow> (s, tx, Inl e)
           | Inr copies \<Rightarrow>
               (case mint_id s of
                  (s', Inl e) \<Rightarrow> (s', tx, Inl (StorageFailed e))
                | (s', Inr i) \<Rightarrow>
                    (let r = \<lparr>cv_id = i, cv_parent = Some (parent, entry_id), cv_owner = None\<rparr>
                     in case mint_copies s' i copies of
                          (s'', Inl e) \<Rightarrow> (s'', tx, Inl e)
                        | (s'', Inr ws) \<Rightarrow>
                            (s'', tx\<lparr>tx_has_table_write := True, tx_writes := tx_writes tx @ conversation_write r # ws\<rparr>,
                             Inr r)))))"

datatype entry_head = ExistingHead int | SelfHead

definition tx_append_entry ::
    "storage \<Rightarrow> transaction \<Rightarrow> int \<Rightarrow> string \<Rightarrow> json \<Rightarrow> entry_head option \<Rightarrow> json list \<Rightarrow> int option \<Rightarrow>
     context_edit list \<Rightarrow> entry_record tx_result" where
  "tx_append_entry s tx conversation kind dat head model by_task edits =
     (case reject_write tx of
        Inl e \<Rightarrow> (s, tx, Inl e)
      | Inr _ \<Rightarrow>
          with_minted s tx (\<lambda>i.
            let r = \<lparr>en_id = i, en_conversation = conversation, en_kind = kind, en_data = dat,
                     en_head = (case head of None \<Rightarrow> None | Some (ExistingHead h) \<Rightarrow> Some h | Some SelfHead \<Rightarrow> Some i),
                     en_model = model, en_edits = edits, en_by_task = by_task\<rparr>
            in (stage_write (entry_write r) tx, r)))"

record task_definition =
  td_kind :: string
  td_version :: int
  td_initial :: "json \<Rightarrow> json"

record task_options =
  op_conversation :: "int option"
  op_owner :: "int option"
  op_background :: bool
  op_abandon_on_restart :: bool
  op_checkpoint :: "json option"

text \<open>The owner's record, once the shape of the request has been checked against it.\<close>

definition task_owner :: "storage \<Rightarrow> transaction \<Rightarrow> task_options \<Rightarrow> (tx_error, task_record option) result" where
  "task_owner s tx options =
     (case op_owner options of
        None \<Rightarrow> Inr None
      | Some owner \<Rightarrow>
          bind_r (current_task s tx owner) (\<lambda>current.
          case current of
            None \<Rightarrow> Inl (TaskOwnerNotFound owner)
          | Some r \<Rightarrow>
              if op_background options then Inl ChildInBackground
              else if (case op_conversation options of None \<Rightarrow> False | Some c \<Rightarrow> c \<noteq> tk_conversation r)
              then Inl (ChildElsewhere (tk_conversation r))
              else bind_r (storage_call (read_conversation s (tk_conversation r))) (\<lambda>_. Inr (Some r))))"

definition create_task ::
    "storage \<Rightarrow> transaction \<Rightarrow> task_definition \<Rightarrow> json \<Rightarrow> task_options \<Rightarrow> int tx_result" where
  "create_task s tx td input options =
     (case reject_write tx of
        Inl e \<Rightarrow> (s, tx, Inl e)
      | Inr _ \<Rightarrow>
          (case task_owner s tx options of
             Inl e \<Rightarrow> (s, tx, Inl e)
           | Inr owner_record \<Rightarrow>
               with_minted s tx (\<lambda>i.
                 let r = \<lparr>tk_id = i,
                          tk_conversation =
                            (case owner_record of
                               Some owner \<Rightarrow> tk_conversation owner
                             | None \<Rightarrow> (case op_conversation options of Some c \<Rightarrow> c | None \<Rightarrow> 1)),
                          tk_kind = td_kind td, tk_version = td_version td, tk_input = input,
                          tk_owner = op_owner options, tk_background = op_background options,
                          tk_abandon_on_restart = op_abandon_on_restart options, tk_abort_requested = False,
                          tk_abort_reason = None, tk_started_at = None, tk_ended_at = None,
                          tk_state = \<lparr>ts_status = ''pending'',
                                      ts_checkpoint =
                                        (if op_checkpoint options \<noteq> None then op_checkpoint options
                                         else Some (td_initial td input)),
                                      ts_on = [], ts_policy = None, ts_outcome = None\<rparr>,
                          tk_memos = []\<rparr>;
                     tx' = stage_task r (stage_write (task_write r) tx)
                 in (tx'\<lparr>tx_created_tasks := omap_insert (tx_created_tasks tx') i ()\<rparr>, i))))"

definition overlay_tasks :: "storage \<Rightarrow> transaction \<Rightarrow> (tx_error, task_record list) result" where
  "overlay_tasks s tx =
     (if tx_sealed tx then Inl TransactionSettled
      else bind_r (storage_call (scan_tasks s 1024)) (\<lambda>committed.
        let merged = fold (\<lambda>r m. omap_insert m (tk_id r) r) committed []
        in Inr (map snd (fold (\<lambda>(i, r) m. omap_insert m i r) (tx_staged_tasks tx) merged))))"

definition set_task :: "storage \<Rightarrow> transaction \<Rightarrow> task_record \<Rightarrow> unit tx_result" where
  "set_task s tx r =
     (case reject_write tx of
        Inl e \<Rightarrow> (s, tx, Inl e)
      | Inr _ \<Rightarrow> (s, stage_write (task_write r) (stage_task r tx), Inr ()))"

definition create_submission :: "storage \<Rightarrow> transaction \<Rightarrow> submission_record \<Rightarrow> submission_record tx_result" where
  "create_submission s tx r =
     (case reject_write tx of
        Inl e \<Rightarrow> (s, tx, Inl e)
      | Inr _ \<Rightarrow>
          let tx1 = tx\<lparr>tx_has_table_write := True\<rparr>;
              known = (if has_conversation tx1 (sm_conversation r) then Inr ()
                       else bind_r (storage_call (read_conversation s (sm_conversation r))) (\<lambda>stored.
                              if stored = None then Inl (ConversationNotFound (sm_conversation r)) else Inr ()))
          in (case known of
                Inl e \<Rightarrow> (s, tx1, Inl e)
              | Inr _ \<Rightarrow>
                  with_minted s tx1 (\<lambda>i.
                    let r' = r\<lparr>sm_id := i\<rparr>
                    in (tx1\<lparr>tx_staged_submissions :=
                          (if omap_find (tx_staged_submissions tx1) i = None
                           then omap_insert (tx_staged_submissions tx1) i r' else tx_staged_submissions tx1)\<rparr>, r'))))"

definition stage_change :: "submission_change \<Rightarrow> transaction \<Rightarrow> transaction" where
  "stage_change c tx =
     tx\<lparr>tx_has_table_write := True, tx_submission_changes := tx_submission_changes tx @ [c]\<rparr>"

definition no_settlement :: submission_settlement where
  "no_settlement = \<lparr>stl_status = [], stl_answer = None, stl_reason = None, stl_detail = None\<rparr>"

definition settle_submission :: "storage \<Rightarrow> transaction \<Rightarrow> int \<Rightarrow> submission_settlement \<Rightarrow> unit tx_result" where
  "settle_submission s tx i settlement =
     (case reject_write tx of
        Inl e \<Rightarrow> (s, tx, Inl e)
      | Inr _ \<Rightarrow>
          (s, stage_change \<lparr>sc_id = i, sc_settlement = settlement, sc_placed_entry = None\<rparr> tx, Inr ()))"

definition place_submission :: "storage \<Rightarrow> transaction \<Rightarrow> int \<Rightarrow> int \<Rightarrow> unit tx_result" where
  "place_submission s tx i entry_id =
     (case reject_write tx of
        Inl e \<Rightarrow> (s, tx, Inl e)
      | Inr _ \<Rightarrow>
          (s, stage_change \<lparr>sc_id = i, sc_settlement = no_settlement, sc_placed_entry = Some entry_id\<rparr> tx, Inr ()))"

text \<open>Reads of the committed tables, refused after the first table write.\<close>

definition tx_read :: "transaction \<Rightarrow> (storage_error, 'a) result \<Rightarrow> (tx_error, 'a) result" where
  "tx_read tx r = bind_r (reject_read tx) (\<lambda>_. storage_call r)"

definition tx_conversation :: "storage \<Rightarrow> transaction \<Rightarrow> int \<Rightarrow> (tx_error, conversation_record option) result" where
  "tx_conversation s tx i = tx_read tx (read_conversation s i)"

definition tx_entry :: "storage \<Rightarrow> transaction \<Rightarrow> int \<Rightarrow> (tx_error, entry_record option) result" where
  "tx_entry s tx i = bind_r (tx_read tx (read_entry s i)) (\<lambda>e. Inr (map_option es_record e))"

definition tx_scan_conversations :: "storage \<Rightarrow> transaction \<Rightarrow> nat \<Rightarrow> (tx_error, conversation_record list) result" where
  "tx_scan_conversations s tx limit = tx_read tx (scan_conversations s limit)"

definition tx_scan_entries :: "storage \<Rightarrow> transaction \<Rightarrow> int \<Rightarrow> nat \<Rightarrow> (tx_error, entry_record list) result" where
  "tx_scan_entries s tx i limit = tx_read tx (scan_entries s i limit)"

definition tx_task :: "storage \<Rightarrow> transaction \<Rightarrow> int \<Rightarrow> (tx_error, task_record option) result" where
  "tx_task s tx i = tx_read tx (read_task s i)"

definition tx_scan_tasks :: "storage \<Rightarrow> transaction \<Rightarrow> nat \<Rightarrow> (tx_error, task_record list) result" where
  "tx_scan_tasks s tx limit = tx_read tx (scan_tasks s limit)"

definition tx_submission :: "storage \<Rightarrow> transaction \<Rightarrow> int \<Rightarrow> (tx_error, submission_record option) result" where
  "tx_submission s tx i = tx_read tx (read_submission s i)"

definition tx_submission_by_request ::
    "storage \<Rightarrow> transaction \<Rightarrow> int \<Rightarrow> string \<Rightarrow> (tx_error, submission_record option) result" where
  "tx_submission_by_request s tx conversation request = tx_read tx (submission_by_request s conversation request)"

section \<open>Assembly and commit\<close>

definition apply_submission_change ::
    "submission_record \<Rightarrow> submission_change \<Rightarrow> (tx_error, submission_record) result" where
  "apply_submission_change current change =
     (if sm_status current = ''done'' \<or> sm_status current = ''unanswered'' then Inr current
      else (case sc_placed_entry change of
              Some e \<Rightarrow>
                if sm_status current \<noteq> ''queued'' then Inl (SubmissionNotQueued (sm_id current))
                else Inr (current\<lparr>sm_status := (if sm_type current = ''input'' then ''placed'' else ''done''),
                                  sm_entry := Some e\<rparr>)
            | None \<Rightarrow>
                let settlement = sc_settlement change
                in if stl_status settlement = ''done'' \<and> sm_status current \<noteq> ''placed''
                   then Inl (SubmissionNotPlaced (sm_id current))
                   else Inr (current\<lparr>sm_status := stl_status settlement, sm_answer := stl_answer settlement,
                                     sm_reason := stl_reason settlement, sm_detail := stl_detail settlement\<rparr>)))"

definition resolve_change ::
    "storage \<Rightarrow> submission_record omap \<Rightarrow> submission_change \<Rightarrow> (tx_error, submission_record omap) result" where
  "resolve_change s staged change =
     (case omap_find staged (sc_id change) of
        Some current \<Rightarrow>
          bind_r (apply_submission_change current change) (\<lambda>next. Inr (omap_insert staged (sc_id change) next))
      | None \<Rightarrow>
          bind_r (storage_call (read_submission s (sc_id change))) (\<lambda>stored.
          case stored of
            None \<Rightarrow> Inl (SubmissionNotFound (sc_id change))
          | Some current \<Rightarrow>
              bind_r (apply_submission_change current change) (\<lambda>next.
                Inr (if next \<noteq> current then omap_insert staged (sc_id change) next else staged))))"

definition check_replaced_task :: "storage \<Rightarrow> transaction \<Rightarrow> int \<times> task_record \<Rightarrow> (tx_error, unit) result" where
  "check_replaced_task s tx c =
     (if omap_find (tx_created_tasks tx) (fst c) \<noteq> None then Inr ()
      else bind_r (storage_call (read_task s (fst c))) (\<lambda>committed.
        case committed of
          Some r \<Rightarrow> if ts_status (tk_state r) = ''terminal'' then Inl (TaskAlreadyTerminal (fst c)) else Inr ()
        | None \<Rightarrow> Inr ()))"

definition require_live_owner :: "int \<Rightarrow> task_record \<Rightarrow> (tx_error, unit) result" where
  "require_live_owner owner r =
     (if ts_status (tk_state r) = ''terminal'' \<or> ts_status (tk_state r) = ''completing''
      then Inl (OwnerNotLive owner (ts_status (tk_state r)))
      else if tk_abort_requested r then Inl (OwnerAbortMarked owner) else Inr ())"

definition check_owner :: "storage \<Rightarrow> transaction \<Rightarrow> int \<Rightarrow> (tx_error, unit) result" where
  "check_owner s tx owner =
     bind_r (current_task s tx owner) (\<lambda>r.
       case r of None \<Rightarrow> Inr () | Some record \<Rightarrow> require_live_owner owner record)"

definition check_created_task :: "storage \<Rightarrow> transaction \<Rightarrow> int \<Rightarrow> (tx_error, unit) result" where
  "check_created_task s tx i =
     (case omap_find (tx_staged_tasks tx) i of
        None \<Rightarrow> Inr ()
      | Some r \<Rightarrow> (case tk_owner r of None \<Rightarrow> Inr () | Some owner \<Rightarrow> check_owner s tx owner))"

definition check_conversation_owner :: "storage \<Rightarrow> transaction \<Rightarrow> storage_write \<Rightarrow> (tx_error, unit) result" where
  "check_conversation_owner s tx w =
     (if sw_type w \<noteq> ''conversation'' then Inr ()
      else (case sw_conversation w of
              None \<Rightarrow> Inr ()
            | Some r \<Rightarrow> (case cv_owner r of None \<Rightarrow> Inr () | Some (_, task) \<Rightarrow> check_owner s tx task)))"

text \<open>The writes one staged document contributes.\<close>

definition document_writes :: "staged_document \<Rightarrow> storage_write list" where
  "document_writes d =
     (let ops = (case sg_prepared d of None \<Rightarrow> [] | Some (_, ops) \<Rightarrow> ops);
          has_change = (sg_prepared d \<noteq> None);
          migration_only = (\<not> sg_created d \<and> sg_stored_version d < sg_definition_version d);
          written = (sg_created d \<or> sg_retire d \<or> migration_only \<or> has_change \<and> ops \<noteq> []);
          checkpoint = (\<not> sg_created d \<and> \<not> migration_only \<and> has_change \<and> ops \<noteq> [] \<and>
            (case sg_checkpoint d of
               None \<Rightarrow> False
             | Some when \<Rightarrow> when (fst (the (sg_prepared d))) ops (sg_deltas_since_base d)));
          base = (sg_created d \<or> migration_only \<or> checkpoint);
          born_and_retired = (sg_created d \<and> sg_retire d);
          value_of = map_option fst (sg_prepared d)
      in if \<not> written then []
         else if sg_retire d \<and> \<not> born_and_retired then [retire_write (dr_id (sg_record d))]
         else if sg_created d \<and> sg_fork_source d \<noteq> None
         then [(copy_write (sg_record d) (the (sg_fork_source d)))\<lparr>sw_document_version := sg_definition_version d\<rparr>]
         else (if sg_created d
               then (empty_write ''document.create'')
                 \<lparr>sw_document_version := sg_definition_version d, sw_document_record := Some (sg_record d),
                  sw_document_value := value_of\<rparr>
               else (empty_write ''document.change'')
                 \<lparr>sw_document_version := sg_definition_version d, sw_document_id := Some (dr_id (sg_record d)),
                  sw_document_ops := (if base then [] else ops), sw_document_value := value_of\<rparr>) #
              (if born_and_retired then [retire_write (dr_id (sg_record d))] else []))"

definition assemble :: "storage \<Rightarrow> transaction \<Rightarrow> (tx_error, storage_write list) result" where
  "assemble s tx =
     bind_r (fold_r (resolve_change s) (tx_staged_submissions tx) (tx_submission_changes tx)) (\<lambda>staged.
     let table = tx_writes tx @ map (\<lambda>(_, r). submission_write r) staged
     in bind_r (check_r (check_replaced_task s tx) (tx_staged_tasks tx)) (\<lambda>_.
        bind_r (check_r (check_created_task s tx) (map fst (tx_created_tasks tx))) (\<lambda>_.
        bind_r (check_r (check_conversation_owner s tx) table) (\<lambda>_.
        Inr (table @ concat (map document_writes (tx_documents tx)))))))"

text \<open>
  \<^verbatim>\<open>commit_now\<close> after the callback has succeeded: the assembled batch goes to the storage, an
  empty one does not; a rejected assembly leaves the storage as it is.
\<close>

definition commit_now :: "storage \<Rightarrow> transaction \<Rightarrow> storage \<times> (tx_error, unit) result" where
  "commit_now s tx =
     (case assemble s tx of
        Inl e \<Rightarrow> (s, Inl e)
      | Inr ws \<Rightarrow>
          if ws = [] then (s, Inr ())
          else (case commit s ws of
                  (s', Inl e) \<Rightarrow> (s', Inl (StorageFailed e))
                | (s', Inr _) \<Rightarrow> (s', Inr ())))"

end
