(* ===== verification/Session_Documents.thy ===== *)
theory Session_Documents
  imports Session_Transaction
begin

text \<open>
  \<^verbatim>\<open>src/src/durable/Session.cpp\<close>, the document part of a session: definitions of documents, the cache of
  committed documents, acquiring and retiring documents in a transaction, and the settlement of a
  commit. The callables of a definition (initial value, migration, checkpoint) are functions. A staged
  document has the tracker's base value and what preparing its open change gives; its draft is a
  position in the list of staged documents, and editing it replaces the prepared part. Adopting the
  prepared change cannot fail here, because the tracker belongs to the staged document alone and has
  this one change.
\<close>

section \<open>Definitions of documents\<close>

record definition_builder =
  bd_kind :: string
  bd_version :: nat
  bd_scope :: document_scope
  bd_history :: document_history
  bd_fork :: document_fork
  bd_migrate :: "(json \<Rightarrow> nat \<Rightarrow> json) option"
  bd_checkpoint :: "(json \<Rightarrow> op list \<Rightarrow> nat \<Rightarrow> bool) option"

definition builder_of :: "string \<Rightarrow> definition_builder" where
  "builder_of kind =
     \<lparr>bd_kind = kind, bd_version = 1, bd_scope = SessionScope, bd_history = LatestHistory, bd_fork = ForkCurrent,
      bd_migrate = None, bd_checkpoint = None\<rparr>"

definition builder_conversation :: "document_history \<Rightarrow> document_fork \<Rightarrow> definition_builder \<Rightarrow> definition_builder" where
  "builder_conversation history fork b = b\<lparr>bd_scope := ConversationScope, bd_history := history, bd_fork := fork\<rparr>"

definition builder_task :: "definition_builder \<Rightarrow> definition_builder" where
  "builder_task b = b\<lparr>bd_scope := TaskScope, bd_history := LatestHistory, bd_fork := ForkCurrent\<rparr>"

record document_definition =
  dd_kind :: string
  dd_version :: nat
  dd_scope :: document_scope
  dd_history :: document_history
  dd_fork :: document_fork
  dd_family :: bool
  dd_initial :: json
  dd_family_initial :: "json \<Rightarrow> json"
  dd_migrate :: "(json \<Rightarrow> nat \<Rightarrow> json) option"
  dd_checkpoint :: "(json \<Rightarrow> op list \<Rightarrow> nat \<Rightarrow> bool) option"

definition validate_definition :: "definition_builder \<Rightarrow> (tx_error, unit) result" where
  "validate_definition b =
     (if bd_kind b = [] then Inl KindEmpty
      else if bd_version b < 1 then Inl (VersionNotPositive (bd_kind b))
      else if bd_scope b \<noteq> ConversationScope \<and> (bd_history b \<noteq> LatestHistory \<or> bd_fork b \<noteq> ForkCurrent)
      then Inl (SemanticsOutsideConversation (bd_kind b))
      else if bd_scope b = ConversationScope \<and> bd_history b = LatestHistory \<and> bd_fork b = ForkAsOf
      then Inl (ForkNeedsHistory (bd_kind b))
      else Inr ())"

definition take_definition :: "definition_builder \<Rightarrow> bool \<Rightarrow> json \<Rightarrow> (json \<Rightarrow> json) \<Rightarrow> document_definition" where
  "take_definition b family initial family_initial =
     \<lparr>dd_kind = bd_kind b, dd_version = bd_version b, dd_scope = bd_scope b, dd_history = bd_history b,
      dd_fork = bd_fork b, dd_family = family, dd_initial = initial, dd_family_initial = family_initial,
      dd_migrate = bd_migrate b, dd_checkpoint = bd_checkpoint b\<rparr>"

definition define_document :: "definition_builder \<Rightarrow> json option \<Rightarrow> (tx_error, document_definition) result" where
  "define_document b initial =
     (case initial of
        None \<Rightarrow> Inl (InitialValueMissing (bd_kind b))
      | Some v \<Rightarrow> bind_r (validate_definition b) (\<lambda>_. Inr (take_definition b False v (\<lambda>_. JNull))))"

definition define_document_family ::
    "definition_builder \<Rightarrow> (json \<Rightarrow> json) option \<Rightarrow> (tx_error, document_definition) result" where
  "define_document_family b initial =
     (case initial of
        None \<Rightarrow> Inl (InitialValueMissing (bd_kind b))
      | Some f \<Rightarrow> bind_r (validate_definition b) (\<lambda>_. Inr (take_definition b True JNull f)))"

definition builtin_document ::
    "string \<Rightarrow> document_history \<Rightarrow> document_fork \<Rightarrow> json \<Rightarrow> (json \<Rightarrow> op list \<Rightarrow> nat \<Rightarrow> bool) option \<Rightarrow> document_definition" where
  "builtin_document kind history fork initial checkpoint =
     take_definition ((builder_conversation history fork (builder_of kind))\<lparr>bd_checkpoint := checkpoint\<rparr>) False initial (\<lambda>_. JNull)"

text \<open>The form of \<^verbatim>\<open>define_document\<close> that takes a kind: a plain conversation document.\<close>

definition define_conversation_document :: "string \<Rightarrow> json \<Rightarrow> document_definition" where
  "define_conversation_document kind initial = builtin_document kind LatestHistory ForkCurrent initial None"

section \<open>Checks\<close>

definition check_record_scope :: "document_definition \<Rightarrow> document_record \<Rightarrow> (tx_error, unit) result" where
  "check_record_scope d r =
     (if record_scope r \<noteq> dd_scope d then Inl (ScopeMismatch (dr_id r))
      else if record_scope r = ConversationScope \<and> (dr_history r \<noteq> dd_history d \<or> dr_fork r \<noteq> dd_fork d)
      then Inl (ScopeMismatch (dr_id r))
      else Inr ())"

definition check_record_version :: "document_definition \<Rightarrow> document_record \<Rightarrow> nat \<Rightarrow> (tx_error, unit) result" where
  "check_record_version d r version =
     (if version > dd_version d then Inl (NewerVersion (dr_id r) version)
      else if version < dd_version d \<and> dd_migrate d = None then Inl (MigrationRequired (dr_id r) version)
      else Inr ())"

definition migrate_document :: "document_definition \<Rightarrow> json \<Rightarrow> nat \<Rightarrow> json option" where
  "migrate_document d v version = map_option (\<lambda>f. f v version) (dd_migrate d)"

definition materialize_document ::
    "document_definition \<Rightarrow> document_record \<Rightarrow> nat \<Rightarrow> json \<Rightarrow> (tx_error, json) result" where
  "materialize_document d r version v =
     bind_r (check_record_scope d r) (\<lambda>_.
     bind_r (check_record_version d r version) (\<lambda>_.
     if version = dd_version d then Inr v
     else (case migrate_document d v version of
             None \<Rightarrow> Inl (MigrationRequired (dr_id r) version)
           | Some migrated \<Rightarrow> Inr migrated)))"

definition document_create_record :: "document_definition \<Rightarrow> document_address \<Rightarrow> int \<Rightarrow> document_record" where
  "document_create_record d a i =
     \<lparr>dr_id = i, dr_kind = dd_kind d, dr_created_at = 0, dr_conversation = ad_conversation a, dr_task = ad_task a,
      dr_key = ad_key a,
      dr_history = (if dd_scope d = ConversationScope then dd_history d else LatestHistory),
      dr_fork = (if dd_scope d = ConversationScope then dd_fork d else ForkCurrent),
      dr_retired_at = None\<rparr>"

definition check_address :: "document_definition \<Rightarrow> document_address \<Rightarrow> (tx_error, unit) result" where
  "check_address d a =
     (if address_scope a \<noteq> dd_scope d then Inl (WrongAddressScope (dd_kind d))
      else if dd_family d \<noteq> (ad_key a \<noteq> None) then Inl (WrongFamilyKey (dd_kind d))
      else Inr ())"

section \<open>The cache\<close>

record cached_document =
  cd_record :: document_record
  cd_value :: json
  cd_value_version :: nat
  cd_stored_version :: nat
  cd_deltas_since_base :: nat

type_synonym document_cache = "string \<Rightarrow> cached_document option"

text \<open>What the storage has at an address, materialized for a definition.\<close>

definition load_stored ::
    "storage \<Rightarrow> document_definition \<Rightarrow> document_address \<Rightarrow> (tx_error, cached_document option) result" where
  "load_stored s d a =
     bind_r (storage_call (find_document s (dd_kind d) a None)) (\<lambda>found.
     case found of
       None \<Rightarrow> Inr None
     | Some r \<Rightarrow>
         bind_r (storage_call (read_document s (dr_id r) None)) (\<lambda>stored.
         case stored of
           None \<Rightarrow> Inl (DocumentUnreadable (dr_id r))
         | Some committed \<Rightarrow>
             bind_r (materialize_document d (sd_record committed) (sd_version committed) (sd_document_value committed)) (\<lambda>v.
             Inr (Some \<lparr>cd_record = sd_record committed, cd_value = v, cd_value_version = dd_version d,
                        cd_stored_version = sd_version committed,
                        cd_deltas_since_base = sd_deltas_since_base committed\<rparr>))))"

definition load_document ::
    "storage \<Rightarrow> document_cache \<Rightarrow> document_definition \<Rightarrow> document_address \<Rightarrow>
     document_cache \<times> (tx_error, cached_document option) result" where
  "load_document s cache d a =
     (let key = document_address_key (dd_kind d) a;
          reload = (\<lambda>cache'.
            case load_stored s d a of
              Inl e \<Rightarrow> (cache', Inl e)
            | Inr None \<Rightarrow> (cache', Inr None)
            | Inr (Some loaded) \<Rightarrow> (cache'(key := Some loaded), Inr (Some loaded)))
      in case cache key of
           Some c \<Rightarrow> if cd_value_version c = dd_version d then (cache, Inr (Some c)) else reload (cache(key := None))
         | None \<Rightarrow> reload cache)"

definition committed_value ::
    "storage \<Rightarrow> document_cache \<Rightarrow> document_definition \<Rightarrow> document_address \<Rightarrow>
     document_cache \<times> (tx_error, json option) result" where
  "committed_value s cache d a =
     (case load_document s cache d a of
        (cache', Inl e) \<Rightarrow> (cache', Inl e)
      | (cache', Inr loaded) \<Rightarrow> (cache', Inr (map_option cd_value loaded)))"

section \<open>Documents in a transaction\<close>

type_synonym 'a doc_result = "storage \<times> document_cache \<times> transaction \<times> (tx_error, 'a) result"

definition stage_document :: "string \<Rightarrow> staged_document \<Rightarrow> transaction \<Rightarrow> transaction" where
  "stage_document key g tx =
     tx\<lparr>tx_documents := tx_documents tx @ [g],
        tx_latest_documents := (tx_latest_documents tx)(key := Some (length (tx_documents tx)))\<rparr>"

text \<open>The part of the two forms of \<open>doc\<close> after the family check; the result is the position of the draft.\<close>

definition acquire_document ::
    "storage \<Rightarrow> document_cache \<Rightarrow> transaction \<Rightarrow> document_definition \<Rightarrow> document_address \<Rightarrow> json \<Rightarrow> nat doc_result" where
  "acquire_document s cache tx d a initial =
     (case check_document_owner s tx a of
        Inl e \<Rightarrow> (s, cache, tx, Inl e)
      | Inr _ \<Rightarrow>
          let key = document_address_key (dd_kind d) a;
              latest = tx_latest_documents tx key;
              retired_in_tx = (case latest of None \<Rightarrow> False | Some n \<Rightarrow> sg_retire (tx_documents tx ! n));
              open_change = (case latest of None \<Rightarrow> False
                             | Some n \<Rightarrow> \<not> retired_in_tx \<and> sg_prepared (tx_documents tx ! n) \<noteq> None)
          in if open_change then (s, cache, tx, Inr (the latest))
             else (case (if retired_in_tx then (cache, Inr None) else load_document s cache d a) of
                     (cache', Inl e) \<Rightarrow> (s, cache', tx, Inl e)
                   | (cache', Inr (Some loaded)) \<Rightarrow>
                       (case bind_r (check_record_scope d (cd_record loaded))
                              (\<lambda>_. check_record_version d (cd_record loaded) (cd_stored_version loaded)) of
                          Inl e \<Rightarrow> (s, cache', tx, Inl e)
                        | Inr _ \<Rightarrow>
                            (s, cache',
                             stage_document key
                               \<lparr>sg_record = cd_record loaded, sg_address = a, sg_kind = dd_kind d, sg_base = cd_value loaded,
                                sg_prepared = Some (cd_value loaded, []), sg_created = False,
                                sg_stored_version = cd_stored_version loaded,
                                sg_deltas_since_base = cd_deltas_since_base loaded, sg_retire = False,
                                sg_definition_version = dd_version d, sg_checkpoint = dd_checkpoint d,
                                sg_fork_source = None\<rparr> tx,
                             Inr (length (tx_documents tx))))
                   | (cache', Inr None) \<Rightarrow>
                       (case mint_id s of
                          (s', Inl e) \<Rightarrow> (s', cache', tx, Inl (StorageFailed e))
                        | (s', Inr i) \<Rightarrow>
                            (s', cache',
                             stage_document key
                               \<lparr>sg_record = document_create_record d a i, sg_address = a, sg_kind = dd_kind d,
                                sg_base = initial, sg_prepared = Some (initial, []), sg_created = True,
                                sg_stored_version = dd_version d, sg_deltas_since_base = 0, sg_retire = False,
                                sg_definition_version = dd_version d, sg_checkpoint = dd_checkpoint d,
                                sg_fork_source = None\<rparr> tx,
                             Inr (length (tx_documents tx))))))"

definition doc ::
    "storage \<Rightarrow> document_cache \<Rightarrow> transaction \<Rightarrow> document_definition \<Rightarrow> document_address \<Rightarrow> nat doc_result" where
  "doc s cache tx d a =
     (case bind_r (reject_write tx) (\<lambda>_. check_address d a) of
        Inl e \<Rightarrow> (s, cache, tx, Inl e)
      | Inr _ \<Rightarrow>
          if dd_family d then (s, cache, tx, Inl (FamilySeedRequired (dd_kind d)))
          else acquire_document s cache tx d a (dd_initial d))"

definition doc_member ::
    "storage \<Rightarrow> document_cache \<Rightarrow> transaction \<Rightarrow> document_definition \<Rightarrow> document_address \<Rightarrow> json \<Rightarrow> nat doc_result" where
  "doc_member s cache tx d a seed =
     (case bind_r (reject_write tx) (\<lambda>_. check_address d a) of
        Inl e \<Rightarrow> (s, cache, tx, Inl e)
      | Inr _ \<Rightarrow>
          if \<not> dd_family d then (s, cache, tx, Inl (NotAFamily (dd_kind d)))
          else acquire_document s cache tx d a (dd_family_initial d seed))"

text \<open>The first staged document of an address.\<close>

definition staged_position :: "transaction \<Rightarrow> string \<Rightarrow> document_address \<Rightarrow> nat option" where
  "staged_position tx kind a =
     find (\<lambda>n. sg_address (tx_documents tx ! n) = a \<and> sg_kind (tx_documents tx ! n) = kind) [0..<length (tx_documents tx)]"

definition retire_doc ::
    "storage \<Rightarrow> document_cache \<Rightarrow> transaction \<Rightarrow> document_definition \<Rightarrow> document_address \<Rightarrow> unit doc_result" where
  "retire_doc s cache tx d a =
     (case bind_r (reject_write tx) (\<lambda>_. check_address d a) of
        Inl e \<Rightarrow> (s, cache, tx, Inl e)
      | Inr _ \<Rightarrow>
          let key = document_address_key (dd_kind d) a
          in (case staged_position tx (dd_kind d) a of
                Some n \<Rightarrow>
                  let g = tx_documents tx ! n
                  in if sg_retire g then (s, cache, tx, Inr ())
                     else (case check_record_scope d (sg_record g) of
                             Inl e \<Rightarrow> (s, cache, tx, Inl e)
                           | Inr _ \<Rightarrow>
                               (s, cache,
                                tx\<lparr>tx_documents := (tx_documents tx)[n := g\<lparr>sg_retire := True\<rparr>],
                                   tx_latest_documents := (tx_latest_documents tx)(key := Some n)\<rparr>,
                                Inr ()))
              | None \<Rightarrow>
                  (case check_document_owner s tx a of
                     Inl e \<Rightarrow> (s, cache, tx, Inl e)
                   | Inr _ \<Rightarrow>
                       (case load_document s cache d a of
                          (cache', Inl e) \<Rightarrow> (s, cache', tx, Inl e)
                        | (cache', Inr None) \<Rightarrow> (s, cache', tx, Inr ())
                        | (cache', Inr (Some loaded)) \<Rightarrow>
                            (case check_record_scope d (cd_record loaded) of
                               Inl e \<Rightarrow> (s, cache', tx, Inl e)
                             | Inr _ \<Rightarrow>
                                 (s, cache',
                                  stage_document key
                                    \<lparr>sg_record = cd_record loaded, sg_address = a, sg_kind = dd_kind d,
                                     sg_base = cd_value loaded, sg_prepared = None, sg_created = False,
                                     sg_stored_version = cd_stored_version loaded,
                                     sg_deltas_since_base = cd_deltas_since_base loaded, sg_retire = True,
                                     sg_definition_version = dd_version d, sg_checkpoint = dd_checkpoint d,
                                     sg_fork_source = None\<rparr> tx,
                                  Inr ()))))))"

text \<open>Working on a draft: preparing its change now gives this value and these operations.\<close>

definition edit_document :: "nat \<Rightarrow> json \<Rightarrow> op list \<Rightarrow> transaction \<Rightarrow> transaction" where
  "edit_document n v ops tx =
     (if n < length (tx_documents tx) \<and> sg_prepared (tx_documents tx ! n) \<noteq> None
      then tx\<lparr>tx_documents := (tx_documents tx)[n := (tx_documents tx ! n)\<lparr>sg_prepared := Some (v, ops)\<rparr>]\<rparr>
      else tx)"

section \<open>Settlement of a commit\<close>

definition document_migration_only :: "staged_document \<Rightarrow> bool" where
  "document_migration_only g \<longleftrightarrow> \<not> sg_created g \<and> sg_stored_version g < sg_definition_version g"

definition document_checkpoint :: "staged_document \<Rightarrow> bool" where
  "document_checkpoint g \<longleftrightarrow>
     \<not> sg_created g \<and> \<not> document_migration_only g \<and>
     (case sg_prepared g of
        None \<Rightarrow> False
      | Some (v, ops) \<Rightarrow> ops \<noteq> [] \<and> (case sg_checkpoint g of None \<Rightarrow> False | Some f \<Rightarrow> f v ops (sg_deltas_since_base g)))"

definition document_base :: "staged_document \<Rightarrow> bool" where
  "document_base g \<longleftrightarrow> sg_created g \<or> document_migration_only g \<or> document_checkpoint g"

record document_commit_change =
  dc_record :: document_record
  dc_conversation :: "int option"
  dc_value :: json
  dc_ops :: "op list"
  dc_version :: "nat option"
  dc_source :: "document_copy_source option"

datatype commit_change =
    ConversationChange conversation_record
  | EntryChange entry_record
  | TaskChange task_record
  | SubmissionPublished submission_record
  | DocumentChange document_commit_change

definition settled_record :: "int \<Rightarrow> staged_document \<Rightarrow> document_record" where
  "settled_record seq g =
     (let r = (if sg_created g then (sg_record g)\<lparr>dr_created_at := seq\<rparr> else sg_record g)
      in if sg_retire g then r\<lparr>dr_retired_at := Some seq\<rparr> else r)"

definition document_change :: "int \<Rightarrow> staged_document \<Rightarrow> document_commit_change option" where
  "document_change seq g =
     (if sg_retire g
      then Some \<lparr>dc_record = settled_record seq g, dc_conversation = ad_conversation (sg_address g), dc_value = JNull,
                 dc_ops = [], dc_version = None, dc_source = None\<rparr>
      else (case sg_prepared g of
              None \<Rightarrow> None
            | Some (v, ops) \<Rightarrow>
                Some \<lparr>dc_record = settled_record seq g, dc_conversation = ad_conversation (sg_address g), dc_value = v,
                      dc_ops = (if sg_created g then [] else ops), dc_version = Some (sg_definition_version g),
                      dc_source = (if sg_created g then sg_fork_source g else None)\<rparr>))"

definition settle_cache :: "int \<Rightarrow> staged_document \<Rightarrow> document_cache \<Rightarrow> document_cache" where
  "settle_cache seq g cache =
     (let key = document_address_key (sg_kind g) (sg_address g)
      in case document_change seq g of
           None \<Rightarrow> cache
         | Some change \<Rightarrow>
             if sg_retire g then cache(key := None)
             else cache(key := Some
                    \<lparr>cd_record = dc_record change, cd_value = dc_value change,
                     cd_value_version = sg_definition_version g, cd_stored_version = sg_definition_version g,
                     cd_deltas_since_base = (if document_base g then 0 else sg_deltas_since_base g + 1)\<rparr>))"

definition table_change :: "storage_write \<Rightarrow> commit_change list" where
  "table_change w =
     (if sw_type w = ''conversation'' \<and> sw_conversation w \<noteq> None then [ConversationChange (the (sw_conversation w))]
      else if sw_type w = ''entry'' \<and> sw_entry w \<noteq> None then [EntryChange (the (sw_entry w))]
      else if sw_type w = ''task'' \<and> sw_task w \<noteq> None then [TaskChange (the (sw_task w))]
      else if sw_type w = ''submission'' \<and> sw_submission w \<noteq> None then [SubmissionPublished (the (sw_submission w))]
      else [])"

definition commit_publication :: "int \<Rightarrow> storage_write list \<Rightarrow> staged_document list \<Rightarrow> commit_change list" where
  "commit_publication seq ws gs =
     concat (map table_change ws) @ map DocumentChange (List.map_filter (document_change seq) gs)"

text \<open>
  A commit with its documents: an empty batch settles nothing, a storage failure publishes nothing
  (and fails the session).
\<close>

definition commit_documents ::
    "storage \<Rightarrow> document_cache \<Rightarrow> transaction \<Rightarrow>
     storage \<times> document_cache \<times> (tx_error, commit_change list) result" where
  "commit_documents s cache tx =
     (case assemble s tx of
        Inl e \<Rightarrow> (s, cache, Inl e)
      | Inr ws \<Rightarrow>
          if ws = [] then (s, cache, Inr [])
          else (case commit s ws of
                  (s', Inl e) \<Rightarrow> (s', cache, Inl (StorageFailed e))
                | (s', Inr seq) \<Rightarrow>
                    (s', fold (settle_cache seq) (tx_documents tx) cache, Inr (commit_publication seq ws (tx_documents tx)))))"

section \<open>Committed reads\<close>

definition session_usable :: "bool \<Rightarrow> bool \<Rightarrow> (tx_error, unit) result" where
  "session_usable failed is_closed = (if failed then Inl SessionFailed else if is_closed then Inl SessionClosed else Inr ())"

definition snapshot ::
    "bool \<Rightarrow> bool \<Rightarrow> storage \<Rightarrow> document_cache \<Rightarrow> document_definition \<Rightarrow> document_address \<Rightarrow>
     document_cache \<times> (tx_error, json option) result" where
  "snapshot failed is_closed s cache d a =
     (case session_usable failed is_closed of
        Inl e \<Rightarrow> (cache, Inl e)
      | Inr _ \<Rightarrow> committed_value s cache d a)"

definition snapshot_as_of ::
    "bool \<Rightarrow> bool \<Rightarrow> storage \<Rightarrow> document_definition \<Rightarrow> document_address \<Rightarrow> int \<Rightarrow> (tx_error, json option) result" where
  "snapshot_as_of failed is_closed s d a entry_id =
     bind_r (session_usable failed is_closed) (\<lambda>_.
     if address_scope a \<noteq> ConversationScope then Inl NotAConversationDocument
     else if dd_scope d \<noteq> ConversationScope then Inl NotAConversationDocument
     else if dd_history d \<noteq> RewindableHistory then Inl (HistoryNotRetained (dd_kind d))
     else bind_r (storage_call (read_entry s entry_id)) (\<lambda>stored_entry.
       case stored_entry of
         None \<Rightarrow> Inl (EntryNotOfConversation entry_id (the (ad_conversation a)))
       | Some e \<Rightarrow>
           if en_conversation (es_record e) \<noteq> the (ad_conversation a)
           then Inl (EntryNotOfConversation entry_id (the (ad_conversation a)))
           else bind_r (storage_call (find_document s (dd_kind d) a (Some (es_commit_seq e)))) (\<lambda>found.
             case found of
               None \<Rightarrow> Inr None
             | Some r \<Rightarrow>
                 bind_r (storage_call (read_document s (dr_id r) (Some (es_commit_seq e)))) (\<lambda>stored.
                 case stored of
                   None \<Rightarrow> Inl (DocumentUnreadable (dr_id r))
                 | Some m \<Rightarrow>
                     bind_r (materialize_document d r (sd_version m) (sd_document_value m)) (\<lambda>v. Inr (Some v))))))"

definition session_document ::
    "bool \<Rightarrow> bool \<Rightarrow> storage \<Rightarrow> int \<Rightarrow> document_point \<Rightarrow> (tx_error, stored_document option) result" where
  "session_document failed is_closed s i pt =
     bind_r (session_usable failed is_closed) (\<lambda>_. storage_call (read_document s i pt))"

end
