(* ===== verification/Session_Transaction_Laws.thy ===== *)
theory Session_Transaction_Laws
  imports Session_Transaction Storage_Reads
begin

text \<open>
  Laws of transactions on top of the storage invariant: building a transaction leaves the
  committed tables alone, terminal tasks and submissions never change again, and new work is
  only committed below live owners.
\<close>

section \<open>Runs of a transaction and of a session\<close>

text \<open>
  A transaction in progress: any of its operations may come next. Staging a document may mint
  an id; what is staged is arbitrary here, the laws below hold whatever the documents are.
\<close>

inductive tx_step :: "storage \<times> transaction \<Rightarrow> storage \<times> transaction \<Rightarrow> bool" where
  step_root: "create_root_conversation s tx = (s', tx', r) \<Longrightarrow> tx_step (s, tx) (s', tx')"
| step_conversation: "create_conversation s tx = (s', tx', r) \<Longrightarrow> tx_step (s, tx) (s', tx')"
| step_owned: "create_owned_conversation s tx owner = (s', tx', r) \<Longrightarrow> tx_step (s, tx) (s', tx')"
| step_fork: "fork_conversation s tx parent entry_id = (s', tx', r) \<Longrightarrow> tx_step (s, tx) (s', tx')"
| step_entry: "tx_append_entry s tx c kind dat head model by_task edits = (s', tx', r) \<Longrightarrow> tx_step (s, tx) (s', tx')"
| step_create_task: "create_task s tx td input options = (s', tx', r) \<Longrightarrow> tx_step (s, tx) (s', tx')"
| step_set_task: "set_task s tx rec = (s', tx', r) \<Longrightarrow> tx_step (s, tx) (s', tx')"
| step_create_submission: "create_submission s tx sub = (s', tx', r) \<Longrightarrow> tx_step (s, tx) (s', tx')"
| step_settle: "settle_submission s tx i settlement = (s', tx', r) \<Longrightarrow> tx_step (s, tx) (s', tx')"
| step_place: "place_submission s tx i entry_id = (s', tx', r) \<Longrightarrow> tx_step (s, tx) (s', tx')"
| step_document: "s' = s \<or> s' = fst (mint_id s) \<Longrightarrow> \<not> tx_sealed tx \<Longrightarrow>
    tx_step (s, tx) (s', tx\<lparr>tx_documents := docs, tx_latest_documents := latest\<rparr>)"

inductive tx_run :: "storage \<times> transaction \<Rightarrow> storage \<times> transaction \<Rightarrow> bool" where
  run_refl: "tx_run p p"
| run_step: "tx_run p q \<Longrightarrow> tx_step q r \<Longrightarrow> tx_run p r"

text \<open>A session commits one transaction after the other; a rejected one keeps only its minted ids.\<close>

inductive session_reaches :: "storage \<Rightarrow> storage \<Rightarrow> bool" where
  session_refl: "session_reaches s s"
| session_commit: "session_reaches s t \<Longrightarrow> tx_run (t, tx_init) (u, tx) \<Longrightarrow> session_reaches s (fst (commit_now u tx))"
| session_abandon: "session_reaches s t \<Longrightarrow> tx_run (t, tx_init) (u, tx) \<Longrightarrow> session_reaches s u"
| session_close: "session_reaches s t \<Longrightarrow> session_reaches s (close_storage t)"

section \<open>What one operation does\<close>

text \<open>The newest record a list of writes has for one key.\<close>

definition last_written :: "('w \<Rightarrow> 'r option) \<Rightarrow> 'w list \<Rightarrow> 'r option" where
  "last_written f ws = foldl (\<lambda>acc w. case f w of Some r \<Rightarrow> Some r | None \<Rightarrow> acc) None ws"

definition written_task :: "int \<Rightarrow> storage_write \<Rightarrow> task_record option" where
  "written_task i w =
     (if sw_type w = ''task'' then Option.bind (sw_task w) (\<lambda>r. if tk_id r = i then Some r else None) else None)"

definition written_submission :: "int \<Rightarrow> storage_write \<Rightarrow> submission_record option" where
  "written_submission i w =
     (if sw_type w = ''submission''
      then Option.bind (sw_submission w) (\<lambda>r. if sm_id r = i then Some r else None) else None)"

lemma last_written_Nil [simp]: "last_written f [] = None"
  by (simp add: last_written_def)

lemma last_written_foldl:
  "foldl (\<lambda>acc w. case f w of Some r \<Rightarrow> Some r | None \<Rightarrow> acc) a ws = (case last_written f ws of Some r \<Rightarrow> Some r | None \<Rightarrow> a)"
proof (induction ws arbitrary: a)
  case (Cons w ws)
  show ?case
    using Cons [of "case f w of None \<Rightarrow> a | Some r \<Rightarrow> Some r"] Cons [of "f w"]
    by (auto simp: last_written_def split: option.splits)
qed simp

lemma last_written_append:
  "last_written f (vs @ ws) = (case last_written f ws of Some r \<Rightarrow> Some r | None \<Rightarrow> last_written f vs)"
  using last_written_foldl [of f "last_written f vs" ws] by (simp add: last_written_def)

lemma last_written_single [simp]: "last_written f [w] = f w"
  by (simp add: last_written_def split: option.split)

lemma last_written_none: "(\<And>w. w \<in> set ws \<Longrightarrow> f w = None) \<Longrightarrow> last_written f ws = None"
  by (induction ws rule: rev_induct) (auto simp: last_written_append)

lemma last_written_mem: "last_written f ws = Some r \<Longrightarrow> \<exists>w\<in>set ws. f w = Some r"
  by (induction ws rule: rev_induct) (auto simp: last_written_append split: option.splits)

lemma written_simps [simp]:
  "written_task i (conversation_write c) = None" "written_task i (entry_write e) = None"
  "written_task i (task_write t) = (if tk_id t = i then Some t else None)"
  "written_task i (submission_write m) = None"
  "written_task i (copy_write d src) = None" "written_task i (retire_write n) = None"
  "written_submission i (conversation_write c) = None" "written_submission i (entry_write e) = None"
  "written_submission i (task_write t) = None"
  "written_submission i (submission_write m) = (if sm_id m = i then Some m else None)"
  "written_submission i (copy_write d src) = None" "written_submission i (retire_write n) = None"
  by (simp_all add: written_task_def written_submission_def conversation_write_def entry_write_def task_write_def
      submission_write_def copy_write_def retire_write_def empty_write_def)

text \<open>Only the counter for new ids moves.\<close>

definition mints :: "storage \<Rightarrow> storage \<Rightarrow> bool" where
  "mints s t \<longleftrightarrow> (\<exists>n. st_next_id s \<le> n \<and> t = s\<lparr>st_next_id := n\<rparr>)"

lemma mints_refl [simp]: "mints s s"
  unfolding mints_def by (intro exI [of _ "st_next_id s"]) simp

lemma mints_trans: "mints s t \<Longrightarrow> mints t u \<Longrightarrow> mints s u"
proof -
  assume "mints s t" "mints t u"
  then obtain m n where "st_next_id s \<le> m" "m \<le> n" "u = s\<lparr>st_next_id := n\<rparr>" by (auto simp: mints_def)
  then show ?thesis unfolding mints_def by (intro exI [of _ n]) simp
qed

lemma mint_id_cases:
  assumes "mint_id s = (s', r)"
  obtains "mints s s'" "r = Inl StorageClosed" | "mints s s'" "st_next_id s < st_next_id s'" "r = Inr (st_next_id s)"
proof -
  have "mints s (s\<lparr>st_next_id := st_next_id s + 1\<rparr>)" unfolding mints_def by (intro exI [of _ "st_next_id s + 1"]) simp
  then show thesis using assms that by (auto simp: mint_id_def reserve_id_def split: if_splits)
qed

lemma mint_mints: "mints s (fst (mint_id s))"
  by (cases "mint_id s") (auto elim: mint_id_cases)

lemma mint_copies_mints: "mint_copies s fork copies = (t, r) \<Longrightarrow> mints s t"
proof (induction copies arbitrary: s r)
  case (Cons c copies)
  obtain d pt where c: "c = (d, pt)" by (cases c)
  obtain s1 m where m: "mint_id s = (s1, m)" by (cases "mint_id s")
  have s1: "mints s s1" using m by (auto elim: mint_id_cases)
  show ?case
  proof (cases m)
    case (Inl e)
    then show ?thesis using Cons.prems c m s1 by simp
  next
    case (Inr i)
    obtain s2 q where q: "mint_copies s1 fork copies = (s2, q)" by (cases "mint_copies s1 fork copies")
    have "t = s2" using Cons.prems c m Inr q by (auto simp: Let_def split: sum.splits)
    then show ?thesis using mints_trans [OF s1] Cons.IH q by blast
  qed
qed simp

lemma mint_copies_copies:
  "mint_copies s fork copies = (t, Inr ws) \<Longrightarrow> w \<in> set ws \<Longrightarrow> \<exists>d src. w = copy_write d src"
  by (induction copies arbitrary: s ws t)
    (auto simp: Let_def split: prod.splits sum.splits, blast)

text \<open>
  The possible effects on the transaction: nothing but the write flag, writes to other tables,
  a task record, a fresh submission, a submission change, documents.
\<close>

inductive tx_effect :: "storage \<Rightarrow> storage \<Rightarrow> transaction \<Rightarrow> transaction \<Rightarrow> bool" where
  eff_none: "tx_effect s s' tx tx"
| eff_flag: "tx_effect s s' tx (tx\<lparr>tx_has_table_write := True\<rparr>)"
| eff_writes: "(\<And>w. w \<in> set ws \<Longrightarrow> (\<exists>c. w = conversation_write c) \<or> (\<exists>e. w = entry_write e) \<or> (\<exists>d src. w = copy_write d src)) \<Longrightarrow>
    tx_effect s s' tx (tx\<lparr>tx_has_table_write := True, tx_writes := tx_writes tx @ ws\<rparr>)"
| eff_create_task: "tk_id r = st_next_id s \<Longrightarrow>
    tx_effect s s' tx (tx\<lparr>tx_has_table_write := True, tx_writes := tx_writes tx @ [task_write r],
       tx_staged_tasks := omap_insert (tx_staged_tasks tx) (tk_id r) r,
       tx_created_tasks := omap_insert (tx_created_tasks tx) (tk_id r) ()\<rparr>)"
| eff_set_task: "tx_effect s s' tx (stage_write (task_write r) (stage_task r tx))"
| eff_submission: "sm_id r = st_next_id s \<Longrightarrow> sm_id r < st_next_id s' \<Longrightarrow>
    tx_effect s s' tx (tx\<lparr>tx_has_table_write := True, tx_staged_submissions := omap_insert (tx_staged_submissions tx) (sm_id r) r\<rparr>)"
| eff_change: "tx_effect s s' tx (stage_change c tx)"
| eff_documents: "tx_effect s s' tx (tx\<lparr>tx_documents := docs, tx_latest_documents := latest\<rparr>)"

lemma with_minted_cases:
  assumes "with_minted s tx k = (s', tx', r)"
  obtains e where "mints s s'" "tx' = tx" "r = Inl e"
    | x where "mints s s'" "st_next_id s < st_next_id s'" "(tx', x) = k (st_next_id s)" "r = Inr x"
proof -
  obtain s1 m where m: "mint_id s = (s1, m)" by (cases "mint_id s")
  then show thesis
    by (rule mint_id_cases) (use assms m that in \<open>auto simp: with_minted_def split: prod.splits\<close>)
qed

lemma eff_stage:
  "tx_effect s s' tx (stage_write (conversation_write c) tx)"
  "tx_effect s s' tx (stage_write (entry_write e) tx)"
  using eff_writes [of "[conversation_write c]"] eff_writes [of "[entry_write e]"]
  by (simp_all add: stage_write_def) blast+

lemma eff_created:
  assumes "tk_id r = st_next_id s"
  shows "tx_effect s s' tx ((stage_task r (stage_write (task_write r) tx))
     \<lparr>tx_created_tasks := omap_insert (tx_created_tasks (stage_task r (stage_write (task_write r) tx))) (st_next_id s) ()\<rparr>)"
  using eff_create_task [OF assms] assms by (simp add: stage_task_def stage_write_def)

lemma fork_effect:
  assumes "fork_conversation s tx parent entry_id = (s', tx', r)"
  shows "mints s s' \<and> tx_effect s s' tx tx'"
proof (cases "reject_write tx")
  case (Inr u)
  show ?thesis
  proof (cases "fork_sources s parent entry_id")
    case (Inr copies)
    obtain s1 m where m: "mint_id s = (s1, m)" by (cases "mint_id s")
    have s1: "mints s s1" using m by (auto elim: mint_id_cases)
    show ?thesis
    proof (cases m)
      case (Inl e)
      then show ?thesis
        using assms \<open>reject_write tx = Inr u\<close> Inr m s1 by (auto simp: fork_conversation_def intro: eff_none)
    next
      case (Inr i)
      obtain s2 q where q: "mint_copies s1 i copies = (s2, q)" by (cases "mint_copies s1 i copies")
      have s2: "mints s s2" using mints_trans [OF s1] mint_copies_mints [OF q] by blast
      show ?thesis
      proof (cases q)
        case (Inl e)
        then show ?thesis
          using assms \<open>reject_write tx = Inr u\<close> \<open>fork_sources s parent entry_id = Inr copies\<close> m \<open>m = Inr i\<close> q s2
          by (auto simp: fork_conversation_def Let_def intro: eff_none)
      next
        case (Inr ws)
        let ?c = "conversation_write \<lparr>cv_id = i, cv_parent = Some (parent, entry_id), cv_owner = None\<rparr>"
        have "tx_effect s s' tx (tx\<lparr>tx_has_table_write := True, tx_writes := tx_writes tx @ ?c # ws\<rparr>)"
          using mint_copies_copies [OF q [unfolded Inr]] by (intro eff_writes) auto
        then show ?thesis
          using assms \<open>reject_write tx = Inr u\<close> \<open>fork_sources s parent entry_id = Inr copies\<close> m \<open>m = Inr i\<close> q s2 Inr
          by (auto simp: fork_conversation_def Let_def)
      qed
    qed
  qed (use assms Inr in \<open>auto simp: fork_conversation_def intro: eff_none\<close>)
qed (use assms in \<open>auto simp: fork_conversation_def intro: eff_none\<close>)

lemma submission_effect:
  assumes "create_submission s tx sub = (s', tx', r)"
    and fresh: "omap_find (tx_staged_submissions tx) (st_next_id s) = None"
  shows "mints s s' \<and> tx_effect s s' tx tx'"
proof -
  have "tx_effect s s' tx (tx\<lparr>tx_has_table_write := True,
      tx_staged_submissions := omap_insert (tx_staged_submissions tx) (st_next_id s) (sub\<lparr>sm_id := st_next_id s\<rparr>)\<rparr>)"
    if "st_next_id s < st_next_id s'"
    using eff_submission [of "sub\<lparr>sm_id := st_next_id s\<rparr>" s s' tx] that by simp
  then show ?thesis
    using assms
    by (auto simp: create_submission_def Let_def intro: eff_none eff_flag split: sum.splits elim!: with_minted_cases)
qed

text \<open>
  What holds while a transaction is built: the staged task is the newest one written, the tasks
  it created and the submissions it staged are not committed yet, and ids still to be minted are
  not staged.
\<close>

lemma omap_find_mem: "omap_find m i = Some r \<Longrightarrow> (i, r) \<in> set m"
  by (auto simp: omap_find_def dest: map_of_SomeD)

lemma set_omap_insert: "set (omap_insert m k v) \<subseteq> insert (k, v) (set m)"
  by (induction m k v rule: omap_insert.induct) auto

definition tx_inv :: "storage \<Rightarrow> transaction \<Rightarrow> bool" where
  "tx_inv s tx \<longleftrightarrow>
     (\<forall>i. omap_find (tx_staged_tasks tx) i = last_written (written_task i) (tx_writes tx)) \<and>
     (\<forall>i. \<forall>w\<in>set (tx_writes tx). written_submission i w = None) \<and>
     (\<forall>i. omap_find (tx_created_tasks tx) i \<noteq> None \<longrightarrow> omap_find (st_tasks s) i = None) \<and>
     (\<forall>i r. (i, r) \<in> set (tx_staged_submissions tx) \<longrightarrow>
        omap_find (st_submissions s) i = None \<and> sm_id r = i \<and> i < st_next_id s) \<and>
     (tx_writes tx \<noteq> [] \<or> tx_staged_submissions tx \<noteq> [] \<or> tx_submission_changes tx \<noteq> [] \<longrightarrow> tx_has_table_write tx)"

lemma tx_step_effect:
  assumes "tx_step (s, tx) (s', tx')" and inv: "tx_inv s tx"
  shows "mints s s' \<and> tx_effect s s' tx tx'"
  using assms(1)
proof cases
  case (step_root r)
  then show ?thesis
    by (auto simp: create_root_conversation_def Let_def intro: eff_none eff_stage split: sum.splits)
next
  case (step_conversation r)
  then show ?thesis
    by (auto simp: create_conversation_def Let_def intro: eff_none eff_stage split: sum.splits elim!: with_minted_cases)
next
  case (step_owned owner r)
  then show ?thesis
    by (auto simp: create_owned_conversation_def Let_def intro: eff_none eff_stage
        split: sum.splits option.splits elim!: with_minted_cases)
next
  case (step_entry c kind dat head model by_task edits r)
  then show ?thesis
    by (auto simp: tx_append_entry_def Let_def intro: eff_none eff_stage split: sum.splits elim!: with_minted_cases)
next
  case (step_create_task td input options r)
  then show ?thesis
    by (auto simp: create_task_def Let_def intro: eff_none eff_created split: sum.splits elim!: with_minted_cases)
next
  case (step_set_task rec r)
  then show ?thesis by (auto simp: set_task_def intro: eff_none eff_set_task split: sum.splits)
next
  case (step_create_submission sub r)
  have "omap_find (tx_staged_submissions tx) (st_next_id s) = None"
    using inv omap_find_mem [of "tx_staged_submissions tx"] unfolding tx_inv_def
    by (cases "omap_find (tx_staged_submissions tx) (st_next_id s)") fastforce+
  then show ?thesis using step_create_submission by (intro submission_effect)
next
  case (step_settle i settlement r)
  then show ?thesis by (auto simp: settle_submission_def intro: eff_none eff_change split: sum.splits)
next
  case (step_place i entry_id r)
  then show ?thesis by (auto simp: place_submission_def intro: eff_none eff_change split: sum.splits)
next
  case (step_document docs)
  then show ?thesis using mint_mints by (auto intro: eff_documents)
next
  case (step_fork parent entry_id r)
  then show ?thesis by (intro fork_effect)
qed

lemma mints_fields:
  assumes "mints s t"
  shows "st_conversations t = st_conversations s" "st_entries t = st_entries s" "st_entry_ids t = st_entry_ids s"
    "st_documents t = st_documents s" "st_tasks t = st_tasks s" "st_submissions t = st_submissions s"
    "st_closed t = st_closed s" "st_next_seq t = st_next_seq s" "st_next_id s \<le> st_next_id t"
  using assms by (auto simp: mints_def)

lemma mints_ok: "mints s t \<Longrightarrow> storage_ok s \<Longrightarrow> storage_ok t"
  unfolding storage_ok_def mints_def by (elim exE conjE storage_inv_frame) simp_all

lemma fresh_id:
  assumes "storage_ok s" "st_next_id s \<le> i"
  shows "omap_find (st_tasks s) i = None" "omap_find (st_submissions s) i = None"
proof -
  have "ids_ok s" using assms(1) by (simp add: storage_ok_def storage_inv_def)
  then have "i \<notin> used_ids s" using assms(2) unfolding ids_ok_def by (meson linorder_not_less)
  then show "omap_find (st_tasks s) i = None" "omap_find (st_submissions s) i = None"
    by (simp_all add: used_ids_def omap_find_keys)
qed

lemma tx_inv_init: "tx_inv s tx_init"
  by (simp add: tx_inv_def tx_init_def)

text \<open>The staged tasks and the writes move together; the other parts each stand alone.\<close>

lemma tx_inv_effect:
  assumes eff: "tx_effect s s' tx tx'" and inv: "tx_inv s tx" and ok: "storage_ok s" and m: "mints s s'"
  shows "tx_inv s' tx'"
proof -
  have base: "tx_inv s' tx"
    unfolding tx_inv_def mints_fields [OF m]
    using inv mints_fields(9) [OF m] unfolding tx_inv_def by (meson order_less_le_trans)
  show ?thesis
    using eff
  proof cases
    case (eff_writes ws)
    have "written_task i w = None" "written_submission i w = None" if "w \<in> set ws" for i w
      using eff_writes(2) [OF that] by auto
    then have "last_written (written_task i) ws = None" "\<forall>w\<in>set ws. written_submission i w = None" for i
      by (auto intro: last_written_none)
    then show ?thesis using base eff_writes(1) by (auto simp: tx_inv_def last_written_append)
  next
    case (eff_create_task r)
    then show ?thesis
      using base fresh_id [OF ok, of "tk_id r"] mints_fields [OF m] by (auto simp: tx_inv_def last_written_append)
  next
    case (eff_set_task r)
    then show ?thesis
      using base by (auto simp: tx_inv_def last_written_append stage_write_def stage_task_def)
  next
    case (eff_submission r)
    then show ?thesis
      using base fresh_id [OF ok, of "sm_id r"] mints_fields [OF m]
        set_omap_insert [of "tx_staged_submissions tx" "sm_id r" r]
      by (auto simp: tx_inv_def)
  next
    case (eff_change c)
    then show ?thesis using base by (auto simp: tx_inv_def stage_change_def)
  qed (use base in \<open>auto simp: tx_inv_def\<close>)
qed

lemma tx_run_inv:
  assumes "tx_run p q" "tx_inv (fst p) (snd p)" "storage_ok (fst p)"
  shows "mints (fst p) (fst q) \<and> tx_inv (fst q) (snd q) \<and> storage_ok (fst q)"
  using assms
proof (induction rule: tx_run.induct)
  case (run_step p q r)
  then have q: "mints (fst p) (fst q)" "tx_inv (fst q) (snd q)" "storage_ok (fst q)" by auto
  have st: "tx_step (fst q, snd q) (fst r, snd r)" using run_step.hyps(2) by simp
  note e = tx_step_effect [OF st q(2)]
  show ?case
    using mints_trans [OF q(1)] e tx_inv_effect [OF conjunct2 [OF e] q(2,3) conjunct1 [OF e]] mints_ok q(3) by blast
qed simp

section \<open>What a commit does\<close>

lemma apply_write_tables:
  assumes "apply_write b s w = Inr t"
  shows "omap_find (st_tasks t) i = (case written_task i w of Some r \<Rightarrow> Some r | None \<Rightarrow> omap_find (st_tasks s) i)"
    and "omap_find (st_submissions t) i =
      (case written_submission i w of Some r \<Rightarrow> Some r | None \<Rightarrow> omap_find (st_submissions s) i)"
  using assms
  by (auto simp: apply_write_def write_conversation_def write_entry_def write_task_def write_submission_def
      write_document_create_def write_document_change_def write_document_retire_def written_task_def
      written_submission_def Let_def split: if_splits option.splits sum.splits)

lemma run_tables:
  assumes "fold_r (apply_write b) s ws = Inr t"
  shows "omap_find (st_tasks t) i =
      (case last_written (written_task i) ws of Some r \<Rightarrow> Some r | None \<Rightarrow> omap_find (st_tasks s) i)"
    and "omap_find (st_submissions t) i =
      (case last_written (written_submission i) ws of Some r \<Rightarrow> Some r | None \<Rightarrow> omap_find (st_submissions s) i)"
  using assms
proof (induction ws arbitrary: s)
  case (Cons w ws)
  {
    case 1
    then obtain m where m: "apply_write b s w = Inr m" "fold_r (apply_write b) m ws = Inr t" by (auto split: sum.splits)
    show ?case
      using Cons.IH(1) [OF m(2)] apply_write_tables(1) [OF m(1), of i] last_written_append [of "written_task i" "[w]" ws]
      by (simp split: option.splits)
  next
    case 2
    then obtain m where m: "apply_write b s w = Inr m" "fold_r (apply_write b) m ws = Inr t" by (auto split: sum.splits)
    show ?case
      using Cons.IH(2) [OF m(2)] apply_write_tables(2) [OF m(1), of i] last_written_append [of "written_submission i" "[w]" ws]
      by (simp split: option.splits)
  }
qed simp_all

lemma commit_cases:
  assumes "commit s ws = (t, r)"
  obtains e where "t = s" "r = Inl e"
    | m n where "fold_r (apply_write (batch_of s ws (st_next_seq s) True)) s ws = Inr m"
        "t = m\<lparr>st_next_seq := st_next_seq s + 1\<rparr>" "r = Inr n"
proof (cases "storage_apply s ws (st_next_seq s) True")
  case (Inl e)
  then show thesis using assms that(1) by (auto simp: commit_def apply_next_def installed_def)
next
  case (Inr p)
  obtain t' n where p: "p = (t', n)" by (cases p)
  then obtain m where "fold_r (apply_write (batch_of s ws (st_next_seq s) True)) s ws = Inr m"
      "t' = m\<lparr>st_next_seq := max (st_next_seq s) (st_next_seq s + 1)\<rparr>"
    using storage_apply_fields [OF Inr [unfolded p]] by metis
  then show thesis using assms Inr p that(2) by (auto simp: commit_def apply_next_def installed_def)
qed

definition terminal_submission :: "submission_record \<Rightarrow> bool" where
  "terminal_submission r \<longleftrightarrow> sm_status r = ''done'' \<or> sm_status r = ''unanswered''"

definition terminal_task :: "task_record \<Rightarrow> bool" where
  "terminal_task r \<longleftrightarrow> ts_status (tk_state r) = ''terminal''"



lemma storage_call_Inr [simp]: "storage_call r = Inr x \<longleftrightarrow> r = Inr x"
  by (cases r) (simp_all add: storage_call_def)

lemma open_read_Inr [simp]: "open_read s x = Inr y \<longleftrightarrow> \<not> st_closed s \<and> y = x"
  by (auto simp: open_read_def)

lemma apply_change_id: "apply_submission_change r c = Inr r' \<Longrightarrow> sm_id r' = sm_id r"
  by (auto simp: apply_submission_change_def Let_def split: if_splits option.splits)

lemma apply_change_terminal: "terminal_submission r \<Longrightarrow> apply_submission_change r c = Inr r"
  by (auto simp: apply_submission_change_def terminal_submission_def)

text \<open>The resolved candidates never include a submission that is committed as terminal.\<close>

definition staged_ok :: "storage \<Rightarrow> submission_record omap \<Rightarrow> bool" where
  "staged_ok s m \<longleftrightarrow>
     (\<forall>i r. (i, r) \<in> set m \<longrightarrow> sm_id r = i \<and>
        (\<forall>c. omap_find (st_submissions s) i = Some c \<longrightarrow> \<not> terminal_submission c))"

lemma resolve_change_keeps:
  assumes ok: "staged_ok s m" and sub: "submissions_ok s" and step: "resolve_change s m c = Inr m'"
  shows "staged_ok s m'"
proof (cases "omap_find m (sc_id c)")
  case (Some r)
  then obtain r' where r': "apply_submission_change r c = Inr r'" "m' = omap_insert m (sc_id c) r'"
    using step by (auto simp: resolve_change_def)
  then show ?thesis
    using ok omap_find_mem [OF Some] apply_change_id [OF r'(1)] set_omap_insert [of m "sc_id c" r']
    unfolding staged_ok_def by fastforce
next
  case None
  then obtain r r' where r: "omap_find (st_submissions s) (sc_id c) = Some r" "apply_submission_change r c = Inr r'"
      "m' = (if r' \<noteq> r then omap_insert m (sc_id c) r' else m)"
    using step by (auto simp: resolve_change_def read_submission_def split: option.splits)
  have "sm_id r' = sc_id c" using apply_change_id [OF r(2)] sub r(1) by (auto simp: submissions_ok_def)
  moreover have "\<not> terminal_submission r" if "r' \<noteq> r" using apply_change_terminal [of r c] r(2) that by auto
  ultimately show ?thesis
    using ok r set_omap_insert [of m "sc_id c" r'] unfolding staged_ok_def by (auto split: if_splits)
qed

lemma resolve_changes_keep:
  "fold_r (resolve_change s) m cs = Inr m' \<Longrightarrow> staged_ok s m \<Longrightarrow> submissions_ok s \<Longrightarrow> staged_ok s m'"
  by (induction cs arbitrary: m) (auto split: sum.splits dest: resolve_change_keeps)

lemma document_writes_other:
  "w \<in> set (document_writes d) \<Longrightarrow> written_task i w = None \<and> written_submission i w = None"
  by (auto simp: document_writes_def written_task_def written_submission_def empty_write_def copy_write_def
      retire_write_def Let_def split: if_splits)

lemma assemble_parts:
  assumes "assemble s tx = Inr ws"
  obtains m where "fold_r (resolve_change s) (tx_staged_submissions tx) (tx_submission_changes tx) = Inr m"
    "ws = (tx_writes tx @ map (\<lambda>(_, r). submission_write r) m) @ concat (map document_writes (tx_documents tx))"
    "\<And>c. c \<in> set (tx_staged_tasks tx) \<Longrightarrow> is_ok (check_replaced_task s tx c)"
    "\<And>i. i \<in> fst ` set (tx_created_tasks tx) \<Longrightarrow> is_ok (check_created_task s tx i)"
    "\<And>w. w \<in> set (tx_writes tx) \<Longrightarrow> is_ok (check_conversation_owner s tx w)"
  using assms by (auto simp: assemble_def Let_def check_r_ok)

lemma assembled_tables:
  assumes inv: "tx_inv s tx" and ok: "storage_ok s" and ws: "assemble s tx = Inr ws"
  shows "last_written (written_task i) ws = omap_find (tx_staged_tasks tx) i"
    and "last_written (written_submission i) ws = Some r \<Longrightarrow> omap_find (st_submissions s) i = Some c \<Longrightarrow>
      \<not> terminal_submission c"
proof -
  obtain m where m: "fold_r (resolve_change s) (tx_staged_submissions tx) (tx_submission_changes tx) = Inr m"
      "ws = (tx_writes tx @ map (\<lambda>(_, r). submission_write r) m) @ concat (map document_writes (tx_documents tx))"
    using assemble_parts [OF ws] by metis
  have docs: "last_written (written_task i) (concat (map document_writes (tx_documents tx))) = None"
    "last_written (written_submission i) (concat (map document_writes (tx_documents tx))) = None"
    by (rule last_written_none; use document_writes_other in auto)+
  have "last_written (written_task i) (map (\<lambda>(_, r). submission_write r) m) = None"
    by (rule last_written_none) auto
  then show "last_written (written_task i) ws = omap_find (tx_staged_tasks tx) i"
    using inv docs by (simp add: m(2) last_written_append tx_inv_def)
  show "\<not> terminal_submission c"
    if w: "last_written (written_submission i) ws = Some r" and c: "omap_find (st_submissions s) i = Some c"
  proof -
    have "last_written (written_submission i) (tx_writes tx) = None"
      using inv by (intro last_written_none) (simp add: tx_inv_def)
    then have "last_written (written_submission i) (map (\<lambda>(_, r). submission_write r) m) = Some r"
      using w docs by (simp add: m(2) last_written_append split: option.splits)
    then obtain k where k: "(k, r) \<in> set m" "sm_id r = i"
      by (auto dest!: last_written_mem split: if_splits)
    have "staged_ok s (tx_staged_submissions tx)" using inv by (auto simp: staged_ok_def tx_inv_def)
    then have "staged_ok s m"
      using resolve_changes_keep [OF m(1)] ok by (simp add: storage_ok_def storage_inv_def)
    then show ?thesis using k c unfolding staged_ok_def by blast
  qed
qed

lemma commit_now_cases:
  assumes "commit_now s tx = (t, r)"
  obtains e where "t = s" "r = Inl e"
    | "t = s" "r = Inr ()" "assemble s tx = Inr []"
    | ws m where "assemble s tx = Inr ws" "fold_r (apply_write (batch_of s ws (st_next_seq s) True)) s ws = Inr m"
        "t = m\<lparr>st_next_seq := st_next_seq s + 1\<rparr>" "r = Inr ()"
proof (cases "assemble s tx")
  case (Inl e)
  then show thesis using assms that(1) by (auto simp: commit_now_def)
next
  case (Inr ws)
  show thesis
  proof (cases "ws = []")
    case True
    then show thesis using assms Inr that(2) by (simp add: commit_now_def)
  next
    case False
    obtain u q where q: "commit s ws = (u, q)" by (cases "commit s ws")
    then show thesis
    proof (cases rule: commit_cases)
      case (1 e)
      then show thesis using assms Inr False q that(1) [of "StorageFailed e"] by (simp add: commit_now_def)
    next
      case (2 m n)
      then show thesis using assms Inr False q that(3) [OF Inr, of m] by (simp add: commit_now_def)
    qed
  qed
qed

lemma commit_now_tables:
  assumes run: "commit_now s tx = (t, r)" and inv: "tx_inv s tx" and ok: "storage_ok s"
  shows "omap_find (st_tasks s) i = Some c \<Longrightarrow> terminal_task c \<Longrightarrow> omap_find (st_tasks t) i = Some c"
    and "omap_find (st_submissions s) i = Some d \<Longrightarrow> terminal_submission d \<Longrightarrow> omap_find (st_submissions t) i = Some d"
    and "storage_reaches s t"
proof -
  show "storage_reaches s t"
  proof (cases "assemble s tx")
    case (Inr ws)
    obtain u q where q: "commit s ws = (u, q)" by (cases "commit s ws")
    then have "t = s \<or> t = u" using run Inr by (auto simp: commit_now_def split: if_splits sum.splits)
    then show ?thesis using reaches_commit [of s ws] reach_refl q by auto
  qed (use run reach_refl in \<open>simp add: commit_now_def\<close>)
  show "omap_find (st_tasks t) i = Some c" if c: "omap_find (st_tasks s) i = Some c" "terminal_task c"
    using run
  proof (cases rule: commit_now_cases)
    case (3 ws m)
    have "omap_find (tx_staged_tasks tx) i = None"
    proof (rule ccontr)
      assume "omap_find (tx_staged_tasks tx) i \<noteq> None"
      then obtain q where "omap_find (tx_staged_tasks tx) i = Some q" by blast
      then have "(i, q) \<in> set (tx_staged_tasks tx)" by (rule omap_find_mem)
      then have "is_ok (check_replaced_task s tx (i, q))" using assemble_parts [OF 3(1)] by metis
      moreover have "omap_find (tx_created_tasks tx) i = None"
        using inv c(1) unfolding tx_inv_def by (metis option.distinct(1))
      ultimately show False
        using c by (auto simp: check_replaced_task_def read_task_def open_read_def storage_call_def terminal_task_def split: if_splits)
    qed
    then show ?thesis using run_tables(1) [OF 3(2), of i] assembled_tables(1) [OF inv ok 3(1), of i] c 3(3) by simp
  qed (use c in simp_all)
  show "omap_find (st_submissions t) i = Some d" if d: "omap_find (st_submissions s) i = Some d" "terminal_submission d"
    using run
  proof (cases rule: commit_now_cases)
    case (3 ws m)
    have "last_written (written_submission i) ws = None"
      using assembled_tables(2) [OF inv ok 3(1) _ d(1)] d(2) by (metis option.exhaust)
    then show ?thesis using run_tables(2) [OF 3(2), of i] d 3(3) by simp
  qed (use d in simp_all)
qed

lemma session_reaches_keeps:
  assumes "session_reaches s t" "storage_ok s"
  shows "storage_ok t \<and>
    (\<forall>i c. omap_find (st_tasks s) i = Some c \<longrightarrow> terminal_task c \<longrightarrow> omap_find (st_tasks t) i = Some c) \<and>
    (\<forall>i d. omap_find (st_submissions s) i = Some d \<longrightarrow> terminal_submission d \<longrightarrow> omap_find (st_submissions t) i = Some d)"
  using assms
proof (induction rule: session_reaches.induct)
  case (session_commit s t u tx)
  obtain v r where v: "commit_now u tx = (v, r)" by (cases "commit_now u tx")
  have u: "mints t u" "tx_inv u tx" "storage_ok u"
    using tx_run_inv [OF session_commit.hyps(2)] session_commit tx_inv_init by auto
  have "storage_ok v" using commit_now_tables(3) [OF v u(2,3)] u(3) storage_reaches_keeps by blast
  then show ?case
    using session_commit commit_now_tables(1,2) [OF v u(2,3)] mints_fields [OF u(1)] v by simp
next
  case (session_abandon s t u tx)
  have u: "mints t u" "storage_ok u"
    using tx_run_inv [OF session_abandon.hyps(2)] session_abandon tx_inv_init by auto
  then show ?case using session_abandon mints_fields [OF u(1)] by simp
next
  case (session_close s t)
  then have "storage_ok (close_storage t)" using step_close storage_step_keeps by blast
  then show ?case using session_close by (simp add: close_storage_def)
qed simp



section \<open>Properties\<close>

definition sample_definition :: task_definition where
  "sample_definition = \<lparr>td_kind = ''note'', td_version = 1, td_initial = (\<lambda>_. JNull)\<rparr>"

definition sample_options :: "int option \<Rightarrow> task_options" where
  "sample_options owner =
     \<lparr>op_conversation = None, op_owner = owner, op_background = False, op_abandon_on_restart = False,
      op_checkpoint = None\<rparr>"

text \<open>The root conversation and task 2 are committed; then task 2 is settled.\<close>

definition sample_first :: "int tx_result" where
  "sample_first =
     (case create_root_conversation storage_init tx_init of
        (s, tx, _) \<Rightarrow> create_task s tx sample_definition JNull (sample_options None))"

definition sample_started :: storage where
  "sample_started = (case sample_first of (s, tx, _) \<Rightarrow> fst (commit_now s tx))"

definition sample_settled_task :: task_record where
  "sample_settled_task =
     (let r = the (omap_find (st_tasks sample_started) 2)
      in r\<lparr>tk_state := (tk_state r)\<lparr>ts_status := ''terminal''\<rparr>\<rparr>)"

definition sample_settled :: storage where
  "sample_settled =
     (case set_task sample_started tx_init sample_settled_task of (s, tx, _) \<Rightarrow> fst (commit_now s tx))"

definition sample_revived :: storage where
  "sample_revived =
     (case set_task sample_settled tx_init (the (omap_find (st_tasks sample_started) 2)) of
        (s, tx, _) \<Rightarrow> fst (commit_now s tx))"

lemma run_one: "tx_step p q \<Longrightarrow> tx_run p q"
  using run_step [OF run_refl] .

lemma sample_started_reached: "session_reaches storage_init sample_started"
proof -
  obtain s1 tx1 r1 where 1: "create_root_conversation storage_init tx_init = (s1, tx1, r1)"
    by (cases "create_root_conversation storage_init tx_init")
  obtain s2 tx2 r2 where 2: "create_task s1 tx1 sample_definition JNull (sample_options None) = (s2, tx2, r2)"
    by (cases "create_task s1 tx1 sample_definition JNull (sample_options None)")
  have "tx_run (storage_init, tx_init) (s2, tx2)" using run_step [OF run_one [OF step_root [OF 1]] step_create_task [OF 2]] .
  from session_commit [OF session_refl this] show ?thesis by (simp add: sample_started_def sample_first_def 1 2)
qed

lemma set_task_reached:
  "session_reaches s t \<Longrightarrow>
   session_reaches s (case set_task t tx_init r of (u, tx, _) \<Rightarrow> fst (commit_now u tx))"
proof -
  assume t: "session_reaches s t"
  obtain u tx q where q: "set_task t tx_init r = (u, tx, q)" by (cases "set_task t tx_init r")
  show ?thesis using session_commit [OF t run_one [OF step_set_task [OF q]]] q by simp
qed

lemma sample_settled_reached: "session_reaches storage_init sample_settled"
  unfolding sample_settled_def by (rule set_task_reached [OF sample_started_reached])

text \<open>
  C5. Settled work is final: in every storage a session produces by committing transactions, a
  task that is terminal and a submission that is done or unanswered keep exactly that record in
  every storage the session produces later, whatever operations the later transactions call.
\<close>

theorem settled_work_is_final:
  assumes "session_reaches storage_init s" "session_reaches s t"
  shows "(\<forall>i r. omap_find (st_tasks s) i = Some r \<longrightarrow> ts_status (tk_state r) = ''terminal'' \<longrightarrow>
       omap_find (st_tasks t) i = Some r) \<and>
     (\<forall>i r. omap_find (st_submissions s) i = Some r \<longrightarrow> sm_status r \<in> {''done'', ''unanswered''} \<longrightarrow>
       omap_find (st_submissions t) i = Some r)"
proof -
  have "storage_ok s" using session_reaches_keeps [OF assms(1) storage_init_ok] by blast
  from session_reaches_keeps [OF assms(2) this] show ?thesis
    unfolding terminal_task_def terminal_submission_def by simp
qed

theorem settled_work_is_final_witness:
  "omap_find (st_tasks sample_revived) 2 = Some sample_settled_task"
proof -
  have "session_reaches sample_settled sample_revived"
    unfolding sample_revived_def by (rule set_task_reached [OF session_refl])
  moreover have "omap_find (st_tasks sample_settled) 2 = Some sample_settled_task" by code_simp
  moreover have "ts_status (tk_state sample_settled_task) = ''terminal''" by code_simp
  ultimately show ?thesis using settled_work_is_final [OF sample_settled_reached] by blast
qed





end
