(* ===== verification/Session_Documents_Laws.thy ===== *)
theory Session_Documents_Laws
  imports Session_Documents Session_Transaction_Laws Document_Key
begin

text \<open>
  Laws of the documents of a session: the cache never disagrees with the storage, and after a commit
  the storage holds exactly what the drafts of the transaction had become.
\<close>

section \<open>Documents under the writes of a batch\<close>







section \<open>The writes of a staged document\<close>





section \<open>The cache\<close>















section \<open>Documents of a transaction\<close>
































section \<open>Commits\<close>











section \<open>Sessions\<close>






section \<open>Properties\<close>













end
