(* ===== verification/Session_Line.thy ===== *)
theory Session_Line
  imports Prelude
begin

text \<open>
  \<^verbatim>\<open>src/src/durable/Session.cpp\<close>, the mutation line of \<^verbatim>\<open>Session::Impl\<close>: admitted commits and
  committed reads wait in one queue, \<open>pump_line\<close> runs them one at a time, a storage failure fails the
  session, \<open>close\<close> closes the storage once the line is empty.

  Every function of the line runs under the recursive mutex and calls user code (transaction
  callbacks, read callbacks, completions, listeners), which may call back into the session. The model
  makes the call stack explicit: a frame is the rest of a C++ function that waits for a call to return,
  \<open>User\<close> is a running user callback. A commit whose storage batch has not settled is \<open>ln_inflight\<close>;
  its settlement arrives when no call holds the mutex, or out of a user callback. What the callbacks
  and the storage do is arbitrary: each possibility is a step of its own.
\<close>

section \<open>State\<close>

datatype job_kind = PendingCommit | PendingRead

record job =
  jb_kind :: job_kind
  jb_id :: nat

datatype line_event =
    Admitted job
  | Started job
  | Completed job
  | Rejected job
  | CloseNotified nat
  | ClosedStorage
  | CloseCompleted nat

datatype line_frame =
    User
  | PumpBody
  | PumpWhile
  | PumpExit
  | RejectLoop
  | FinishClose
  | CloseCompletions "nat list"
  | NotifyLoop "nat list"
  | ClosePump
  | CommitRun job
  | Settle job
  | SettleAfter
  | ReadRun job
  | ReadAfter

record line =
  ln_closed :: bool
  ln_close_notified :: bool
  ln_storage_closed :: bool
  ln_failed :: bool
  ln_active :: bool
  ln_pumping :: bool
  ln_close_finishing :: bool
  ln_pump_requested :: bool
  ln_pending :: "job list"
  ln_close_completions :: "nat list"
  ln_close_listeners :: "nat list"
  ln_inflight :: "job option"
  ln_stack :: "line_frame list"
  ln_trace :: "line_event list"

definition line_init :: line where
  "line_init =
     \<lparr>ln_closed = False, ln_close_notified = False, ln_storage_closed = False, ln_failed = False,
      ln_active = False, ln_pumping = False, ln_close_finishing = False, ln_pump_requested = False,
      ln_pending = [], ln_close_completions = [], ln_close_listeners = [], ln_inflight = None,
      ln_stack = [], ln_trace = []\<rparr>"

definition emit :: "line_event \<Rightarrow> line \<Rightarrow> line" where
  "emit e s = s\<lparr>ln_trace := ln_trace s @ [e]\<rparr>"

definition push :: "line_frame list \<Rightarrow> line \<Rightarrow> line" where
  "push fs s = s\<lparr>ln_stack := fs @ ln_stack s\<rparr>"

section \<open>The functions of the line\<close>

definition notify_close :: "line \<Rightarrow> line" where
  "notify_close s =
     (if ln_close_notified s then s
      else push [NotifyLoop (ln_close_listeners s)] (s\<lparr>ln_close_notified := True, ln_close_listeners := []\<rparr>))"

definition fail_session :: "line \<Rightarrow> line" where
  "fail_session s =
     (if ln_failed s then s else notify_close (s\<lparr>ln_failed := True, ln_closed := True\<rparr>))"

definition close_storage_once :: "line \<Rightarrow> line" where
  "close_storage_once s =
     (if ln_storage_closed s then s else emit ClosedStorage (s\<lparr>ln_storage_closed := True\<rparr>))"

definition finish_close_if_ready :: "line \<Rightarrow> line" where
  "finish_close_if_ready s =
     (if \<not> ln_closed s \<or> ln_close_finishing s \<or> ln_pumping s \<or> ln_active s \<or> ln_pending s \<noteq> [] then s
      else let s1 = close_storage_once (s\<lparr>ln_close_finishing := True\<rparr>)
           in push [CloseCompletions (ln_close_completions s1)] (s1\<lparr>ln_close_completions := []\<rparr>))"

definition pump_line :: "line \<Rightarrow> line" where
  "pump_line s =
     (if ln_pumping s then s\<lparr>ln_pump_requested := True\<rparr>
      else push [PumpBody] (s\<lparr>ln_pumping := True\<rparr>))"

definition start_line_job :: "job \<Rightarrow> line \<Rightarrow> line" where
  "start_line_job j s =
     (case jb_kind j of
        PendingCommit \<Rightarrow> push [User, CommitRun j] s
      | PendingRead \<Rightarrow> push [User, ReadRun j] s)"

definition pump_body :: "line \<Rightarrow> line" where
  "pump_body s =
     (let s1 = s\<lparr>ln_pump_requested := False\<rparr>
      in if ln_active s1 then push [PumpExit] s1
         else (case ln_pending s1 of
                 [] \<Rightarrow> push [PumpExit] s1
               | j # js \<Rightarrow>
                   if ln_failed s1 then push [RejectLoop, PumpExit] s1
                   else start_line_job j (emit (Started j) (push [PumpWhile] (s1\<lparr>ln_active := True, ln_pending := js\<rparr>)))))"

definition pump_while :: "line \<Rightarrow> line" where
  "pump_while s = push [if ln_pump_requested s \<and> \<not> ln_active s then PumpBody else PumpExit] s"

definition pump_exit :: "line \<Rightarrow> line" where
  "pump_exit s =
     (let s1 = s\<lparr>ln_pumping := False\<rparr>
      in if ln_failed s1 then push [RejectLoop, FinishClose] s1 else push [FinishClose] s1)"

definition reject_pending_line :: "line \<Rightarrow> line" where
  "reject_pending_line s =
     (case ln_pending s of
        [] \<Rightarrow> s
      | j # js \<Rightarrow> push [User, RejectLoop] (emit (Rejected j) (s\<lparr>ln_pending := js\<rparr>)))"

definition settle_job :: "job \<Rightarrow> line \<Rightarrow> line" where
  "settle_job j s = push [User, SettleAfter] (emit (Completed j) s)"

definition settle_after :: "line \<Rightarrow> line" where
  "settle_after s =
     (let s1 = push [FinishClose] (s\<lparr>ln_active := False, ln_pump_requested := True\<rparr>)
      in if ln_pumping s1 then s1 else pump_line s1)"

definition read_after :: "line \<Rightarrow> line" where
  "read_after s = s\<lparr>ln_active := False, ln_pump_requested := True\<rparr>"

text \<open>What the waiting function does when control returns to it; the frame has been popped.\<close>

fun resume :: "line_frame \<Rightarrow> line \<Rightarrow> line" where
  "resume User s = s"
| "resume PumpBody s = pump_body s"
| "resume PumpWhile s = pump_while s"
| "resume PumpExit s = pump_exit s"
| "resume RejectLoop s = reject_pending_line s"
| "resume FinishClose s = finish_close_if_ready s"
| "resume (CloseCompletions []) s = s"
| "resume (CloseCompletions (c # cs)) s = push [User, CloseCompletions cs] (emit (CloseCompleted c) s)"
| "resume (NotifyLoop []) s = s"
| "resume (NotifyLoop (l # ls)) s = push [User, NotifyLoop ls] (emit (CloseNotified l) s)"
| "resume ClosePump s = pump_line (push [FinishClose] s)"
| "resume (CommitRun j) s = settle_job j s"
| "resume (Settle j) s = settle_job j s"
| "resume SettleAfter s = settle_after s"
| "resume (ReadRun j) s = push [User, ReadAfter] (emit (Completed j) s)"
| "resume ReadAfter s = read_after s"

section \<open>Calls into the session\<close>

definition enqueue_line :: "job \<Rightarrow> line \<Rightarrow> line" where
  "enqueue_line j s = pump_line (emit (Admitted j) (s\<lparr>ln_pending := ln_pending s @ [j]\<rparr>))"

text \<open>
  Starting a commit or a committed read; a failed or closed session completes it with an error. The
  completion of such a job is user code as well.
\<close>

definition start_job :: "job \<Rightarrow> line \<Rightarrow> line" where
  "start_job j s = (if ln_failed s \<or> ln_closed s then push [User] s else enqueue_line j s)"

definition close_cleanup :: "line \<Rightarrow> line" where
  "close_cleanup s = notify_close (push [ClosePump] (s\<lparr>ln_closed := True\<rparr>))"

definition close_wait :: "nat \<Rightarrow> line \<Rightarrow> line" where
  "close_wait c s =
     (if ln_storage_closed s then push [User] (emit (CloseCompleted c) s)
      else s\<lparr>ln_close_completions := ln_close_completions s @ [c]\<rparr>)"

definition subscribe_close :: "nat \<Rightarrow> line \<Rightarrow> line" where
  "subscribe_close l s = (if ln_closed s then s else s\<lparr>ln_close_listeners := ln_close_listeners s @ [l]\<rparr>)"

datatype call = Call_job job | Call_close | Call_close_wait nat | Call_subscribe_close nat

fun do_call :: "call \<Rightarrow> line \<Rightarrow> line" where
  "do_call (Call_job j) s = start_job j s"
| "do_call Call_close s = close_cleanup s"
| "do_call (Call_close_wait c) s = close_wait c s"
| "do_call (Call_subscribe_close l) s = subscribe_close l s"

text \<open>
  The settlement of a storage batch: on success the observers of the commit run, on failure the
  session fails; then the completion of the job is delivered.
\<close>

datatype settlement = Settled | StorageFailure

definition settle_batch :: "settlement \<Rightarrow> job \<Rightarrow> line \<Rightarrow> line" where
  "settle_batch r j s =
     (case r of
        Settled \<Rightarrow> push [User, Settle j] s
      | StorageFailure \<Rightarrow> fail_session (push [Settle j] s))"

section \<open>Steps\<close>

definition in_user :: "line \<Rightarrow> bool" where
  "in_user s \<longleftrightarrow> ln_stack s = [] \<or> hd (ln_stack s) = User"

definition pop :: "line \<Rightarrow> line" where
  "pop s = s\<lparr>ln_stack := tl (ln_stack s)\<rparr>"

inductive line_step :: "line \<Rightarrow> line \<Rightarrow> bool" where
  step_call: "in_user s \<Longrightarrow> line_step s (do_call c s)"
| step_resume: "ln_stack s = f # fs \<Longrightarrow> line_step s (resume f (pop s))"
| step_batch: "ln_stack s = CommitRun j # fs \<Longrightarrow> line_step s (settle_batch r j (pop s))"
| step_async: "ln_stack s = CommitRun j # fs \<Longrightarrow> line_step s ((pop s)\<lparr>ln_inflight := Some j\<rparr>)"
| step_settled: "in_user s \<Longrightarrow> ln_inflight s = Some j \<Longrightarrow> line_step s (settle_batch r j (s\<lparr>ln_inflight := None\<rparr>))"

abbreviation line_reachable :: "line \<Rightarrow> bool" where
  "line_reachable s \<equiv> line_step\<^sup>*\<^sup>* line_init s"

text \<open>The same steps as a function of the choice that was made, to run scenarios.\<close>

datatype choice = Choose_call call | Choose_resume | Choose_batch settlement | Choose_async | Choose_settled settlement

fun line_act :: "choice \<Rightarrow> line \<Rightarrow> line option" where
  "line_act (Choose_call c) s = (if in_user s then Some (do_call c s) else None)"
| "line_act Choose_resume s = (case ln_stack s of [] \<Rightarrow> None | f # _ \<Rightarrow> Some (resume f (pop s)))"
| "line_act (Choose_batch r) s = (case ln_stack s of CommitRun j # _ \<Rightarrow> Some (settle_batch r j (pop s)) | _ \<Rightarrow> None)"
| "line_act Choose_async s = (case ln_stack s of CommitRun j # _ \<Rightarrow> Some ((pop s)\<lparr>ln_inflight := Some j\<rparr>) | _ \<Rightarrow> None)"
| "line_act (Choose_settled r) s =
     (case ln_inflight s of
        Some j \<Rightarrow> if in_user s then Some (settle_batch r j (s\<lparr>ln_inflight := None\<rparr>)) else None
      | None \<Rightarrow> None)"

fun play :: "choice list \<Rightarrow> line \<Rightarrow> line option" where
  "play [] s = Some s"
| "play (c # cs) s = (case line_act c s of None \<Rightarrow> None | Some t \<Rightarrow> play cs t)"

lemma line_act_step: "line_act c s = Some t \<Longrightarrow> line_step s t"
  by (cases c) (auto intro: line_step.intros split: if_splits list.splits line_frame.splits option.splits)

lemma play_steps: "play cs s = Some t \<Longrightarrow> line_step\<^sup>*\<^sup>* s t"
  by (induction cs arbitrary: s) (auto intro: converse_rtranclp_into_rtranclp line_act_step split: option.splits)

text \<open>The jobs of the events of one kind, in the order of the trace.\<close>

definition admitted :: "line_event list \<Rightarrow> job list" where
  "admitted es = List.map_filter (\<lambda>e. case e of Admitted j \<Rightarrow> Some j | _ \<Rightarrow> None) es"

definition started :: "line_event list \<Rightarrow> job list" where
  "started es = List.map_filter (\<lambda>e. case e of Started j \<Rightarrow> Some j | _ \<Rightarrow> None) es"

definition completed :: "line_event list \<Rightarrow> job list" where
  "completed es = List.map_filter (\<lambda>e. case e of Completed j \<Rightarrow> Some j | _ \<Rightarrow> None) es"

definition rejected :: "line_event list \<Rightarrow> job list" where
  "rejected es = List.map_filter (\<lambda>e. case e of Rejected j \<Rightarrow> Some j | _ \<Rightarrow> None) es"

end
