(* ===== verification/Session_Line_Laws.thy ===== *)
theory Session_Line_Laws
  imports Session_Line
begin

text \<open>
  Laws of the mutation line, for every interleaving of calls, callbacks and storage settlements: jobs
  run in the order of their admission and one at a time, nothing is left waiting when the line is
  idle, and the storage is closed exactly when the session is closed and its last job has settled.
\<close>

section \<open>The invariant\<close>

fun pump_frame :: "line_frame \<Rightarrow> bool" where
  "pump_frame PumpBody = True"
| "pump_frame PumpWhile = True"
| "pump_frame PumpExit = True"
| "pump_frame _ = False"

fun active_frame :: "line_frame \<Rightarrow> bool" where
  "active_frame (CommitRun j) = True"
| "active_frame (Settle j) = True"
| "active_frame SettleAfter = True"
| "active_frame (ReadRun j) = True"
| "active_frame ReadAfter = True"
| "active_frame _ = False"

text \<open>The jobs that were started and whose completion has not been called.\<close>

fun frame_job :: "line_frame \<Rightarrow> job list" where
  "frame_job (CommitRun j) = [j]"
| "frame_job (Settle j) = [j]"
| "frame_job (ReadRun j) = [j]"
| "frame_job _ = []"

definition running :: "line \<Rightarrow> job list" where
  "running s = concat (map frame_job (ln_stack s)) @ (case ln_inflight s of None \<Rightarrow> [] | Some j \<Rightarrow> [j])"

fun count_frames :: "(line_frame \<Rightarrow> bool) \<Rightarrow> line_frame list \<Rightarrow> nat" where
  "count_frames P [] = 0"
| "count_frames P (f # fs) = (if P f then 1 else 0) + count_frames P fs"

definition counts :: "line \<Rightarrow> bool" where
  "counts s \<longleftrightarrow>
     count_frames pump_frame (ln_stack s) = (if ln_pumping s then 1 else 0) \<and>
     count_frames active_frame (ln_stack s) + (if ln_inflight s = None then 0 else 1) = (if ln_active s then 1 else 0)"

text \<open>What a frame may rely on in the frames below it.\<close>

fun frames_ok :: "bool \<Rightarrow> line_frame list \<Rightarrow> bool" where
  "frames_ok failed [] = True"
| "frames_ok failed (f # fs) =
     (frames_ok failed fs \<and> PumpBody \<notin> set fs \<and> (PumpExit \<in> set fs \<longrightarrow> failed) \<and>
      (active_frame f \<and> frame_job f = [] \<and> f \<noteq> SettleAfter \<longrightarrow> PumpWhile \<in> set fs) \<and>
      ((\<exists>j. f = ReadRun j) \<longrightarrow> PumpWhile \<in> set fs) \<and>
      (f = RejectLoop \<longrightarrow> failed \<and> (FinishClose \<in> set fs \<or> PumpExit \<in> set fs)))"

definition woken :: "line \<Rightarrow> bool" where
  "woken s \<longleftrightarrow>
     ln_pending s = [] \<or> ln_active s \<or> PumpBody \<in> set (ln_stack s) \<or>
     PumpWhile \<in> set (ln_stack s) \<and> ln_pump_requested s \<or> ClosePump \<in> set (ln_stack s) \<or>
     ln_failed s \<and> (PumpExit \<in> set (ln_stack s) \<or> RejectLoop \<in> set (ln_stack s))"

definition closing :: "line \<Rightarrow> bool" where
  "closing s \<longleftrightarrow>
     (ln_failed s \<longrightarrow> ln_closed s) \<and> (ln_storage_closed s \<longleftrightarrow> ln_close_finishing s) \<and>
     (ln_close_finishing s \<longrightarrow>
        ln_closed s \<and> \<not> ln_active s \<and> ln_pending s = [] \<and> ln_close_completions s = []) \<and>
     (ln_closed s \<longrightarrow> ln_close_finishing s \<or> ln_active s \<or> ln_pumping s \<or>
        FinishClose \<in> set (ln_stack s) \<or> ClosePump \<in> set (ln_stack s))"

definition ordered :: "line \<Rightarrow> bool" where
  "ordered s \<longleftrightarrow>
     admitted (ln_trace s) = started (ln_trace s) @ rejected (ln_trace s) @ ln_pending s \<and>
     started (ln_trace s) = completed (ln_trace s) @ running s \<and>
     (rejected (ln_trace s) \<noteq> [] \<longrightarrow> ln_failed s)"

definition control_ok :: "line \<Rightarrow> bool" where
  "control_ok s \<longleftrightarrow> counts s \<and> frames_ok (ln_failed s) (ln_stack s) \<and> woken s \<and> closing s"

lemmas line_ops =
  notify_close_def fail_session_def close_storage_once_def finish_close_if_ready_def pump_line_def
  start_line_job_def pump_body_def pump_while_def pump_exit_def reject_pending_line_def settle_job_def
  settle_after_def read_after_def enqueue_line_def start_job_def close_cleanup_def close_wait_def
  subscribe_close_def settle_batch_def emit_def push_def pop_def Let_def

lemma map_filter_append: "List.map_filter f (xs @ ys) = List.map_filter f xs @ List.map_filter f ys"
  by (simp add: List.map_filter_def)

lemma map_filter_one: "List.map_filter f [x] = (case f x of None \<Rightarrow> [] | Some y \<Rightarrow> [y])"
  by (simp add: List.map_filter_def split: option.split)

lemma trace_snoc [simp]:
  "admitted (es @ [e]) = admitted es @ (case e of Admitted j \<Rightarrow> [j] | _ \<Rightarrow> [])"
  "started (es @ [e]) = started es @ (case e of Started j \<Rightarrow> [j] | _ \<Rightarrow> [])"
  "completed (es @ [e]) = completed es @ (case e of Completed j \<Rightarrow> [j] | _ \<Rightarrow> [])"
  "rejected (es @ [e]) = rejected es @ (case e of Rejected j \<Rightarrow> [j] | _ \<Rightarrow> [])"
  by (simp_all add: admitted_def started_def completed_def rejected_def map_filter_append map_filter_one
      split: line_event.split)

lemma pump_count:
  "count_frames pump_frame fs = 0 \<longleftrightarrow> PumpBody \<notin> set fs \<and> PumpWhile \<notin> set fs \<and> PumpExit \<notin> set fs"
proof (induction fs)
  case (Cons f fs)
  then show ?case by (cases f) auto
qed simp

lemma no_active_no_job: "count_frames active_frame fs = 0 \<Longrightarrow> concat (map frame_job fs) = []"
proof (induction fs)
  case (Cons f fs)
  then show ?case by (cases f) auto
qed simp

lemma frames_ok_mono: "frames_ok failed fs \<Longrightarrow> frames_ok True fs"
  by (induction fs) auto

lemmas control_parts = control_ok_def counts_def woken_def closing_def

lemma line_init_control: "control_ok line_init"
  by (simp add: control_parts line_init_def)

lemma line_init_ordered: "ordered line_init"
  by (simp add: ordered_def running_def line_init_def admitted_def started_def completed_def rejected_def List.map_filter_def)

section \<open>Preservation\<close>

lemma pump_body_cases:
  obtains (idle) "ln_active s \<or> ln_pending s = []" "pump_body s = s\<lparr>ln_pump_requested := False, ln_stack := PumpExit # ln_stack s\<rparr>"
  | (reject) "\<not> ln_active s" "ln_failed s"
      "pump_body s = s\<lparr>ln_pump_requested := False, ln_stack := RejectLoop # PumpExit # ln_stack s\<rparr>"
  | (start) j js run where "\<not> ln_active s" "\<not> ln_failed s" "ln_pending s = j # js"
      "run = (if jb_kind j = PendingCommit then CommitRun j else ReadRun j)"
      "pump_body s = s\<lparr>ln_pump_requested := False, ln_active := True, ln_pending := js,
         ln_stack := User # run # PumpWhile # ln_stack s, ln_trace := ln_trace s @ [Started j]\<rparr>"
proof (cases "ln_pending s")
  case Nil
  then show ?thesis using idle by (simp add: pump_body_def push_def Let_def)
next
  case (Cons j js)
  show ?thesis
  proof (cases "ln_active s")
    case True
    then show ?thesis using idle by (simp add: pump_body_def push_def Let_def)
  next
    case False
    then show ?thesis using Cons reject start by (cases "ln_failed s"; cases "jb_kind j") (auto simp: line_ops)
  qed
qed

lemma pump_body_control:
  assumes "control_ok s" "ln_stack s = PumpBody # fs"
  shows "control_ok (pump_body (pop s))"
proof -
  let ?s = "pop s"
  have fs: "ln_pumping s" "count_frames pump_frame fs = 0" "frames_ok (ln_failed s) fs" "PumpBody \<notin> set fs"
      "PumpExit \<notin> set fs" "PumpWhile \<notin> set fs"
      "count_frames active_frame fs + (if ln_inflight s = None then 0 else 1) = (if ln_active s then 1 else 0)"
    and closing: "closing s" and woken: "woken s"
    using assms pump_count [of fs] by (auto simp: control_ok_def counts_def split: if_splits)
  have [simp]: "ln_stack ?s = fs" "ln_active ?s = ln_active s" "ln_pending ?s = ln_pending s" "ln_failed ?s = ln_failed s"
    "ln_closed ?s = ln_closed s" "ln_close_finishing ?s = ln_close_finishing s" "ln_storage_closed ?s = ln_storage_closed s"
    "ln_pumping ?s = ln_pumping s" "ln_inflight ?s = ln_inflight s" "ln_close_completions ?s = ln_close_completions s"
    using assms(2) by (simp_all add: pop_def)
  show ?thesis
  proof (cases ?s rule: pump_body_cases)
    case idle
    then show ?thesis using fs closing unfolding control_parts by auto
  next
    case reject
    then show ?thesis using fs closing unfolding control_parts by auto
  next
    case (start j js run)
    then show ?thesis using fs closing unfolding control_parts by auto
  qed
qed

text \<open>The parts of the invariant of a state whose top frame is popped.\<close>

lemma control_pop:
  assumes "control_ok s" "ln_stack s = f # fs"
  shows "count_frames pump_frame fs + (if pump_frame f then 1 else 0) = (if ln_pumping s then 1 else 0)"
    and "count_frames active_frame fs + (if active_frame f then 1 else 0) + (if ln_inflight s = None then 0 else 1) =
      (if ln_active s then 1 else 0)"
    and "frames_ok (ln_failed s) fs" "PumpBody \<notin> set fs" "PumpExit \<in> set fs \<Longrightarrow> ln_failed s"
    and "woken s" "closing s"
  using assms by (auto simp: control_ok_def counts_def)

lemma closing_pop:
  assumes "closing s" "ln_stack s = f # fs"
  shows "ln_failed s \<Longrightarrow> ln_closed s" "ln_storage_closed s = ln_close_finishing s"
    and "ln_close_finishing s \<Longrightarrow> ln_closed s \<and> \<not> ln_active s \<and> ln_pending s = [] \<and> ln_close_completions s = []"
    and "ln_closed s \<Longrightarrow> ln_close_finishing s \<or> ln_active s \<or> ln_pumping s \<or> f = FinishClose \<or> f = ClosePump \<or>
      FinishClose \<in> set fs \<or> ClosePump \<in> set fs"
  using assms by (auto simp: closing_def)

lemma reject_finishes: "frames_ok failed fs \<Longrightarrow> RejectLoop \<in> set fs \<Longrightarrow> FinishClose \<in> set fs \<or> PumpExit \<in> set fs"
  by (induction fs) auto

lemmas control_unfold = control_ok_def counts_def woken_def closing_def push_def pop_def emit_def Let_def

lemma pump_while_control:
  assumes "control_ok s" "ln_stack s = PumpWhile # fs"
  shows "control_ok (pump_while (pop s))"
proof -
  note below = control_pop [OF assms] and cl = closing_pop [OF control_pop(7) [OF assms] assms(2)]
  have "ln_pumping s" "count_frames pump_frame fs = 0" using below(1) by (auto split: if_splits)
  moreover from this have "PumpExit \<notin> set fs" "PumpWhile \<notin> set fs" using pump_count by auto
  moreover have "ln_pending s = [] \<or> ln_active s \<or> ln_pump_requested s \<or> ClosePump \<in> set fs \<or> ln_failed s \<and> RejectLoop \<in> set fs"
    using below(4,6) calculation(3,4) assms(2) by (auto simp: woken_def)
  ultimately show ?thesis using below(2,3,4) cl
    unfolding pump_while_def control_unfold assms(2) by simp blast
qed

lemma pump_exit_control:
  assumes "control_ok s" "ln_stack s = PumpExit # fs"
  shows "control_ok (pump_exit (pop s))"
proof -
  note below = control_pop [OF assms] and cl = closing_pop [OF control_pop(7) [OF assms] assms(2)]
  have "ln_pumping s" "count_frames pump_frame fs = 0" using below(1) by (auto split: if_splits)
  moreover from this have "PumpExit \<notin> set fs" "PumpWhile \<notin> set fs" using pump_count by auto
  moreover have "ln_pending s = [] \<or> ln_active s \<or> ClosePump \<in> set fs \<or> ln_failed s"
    using below(4,6) calculation(4) assms(2) by (auto simp: woken_def)
  ultimately show ?thesis using below(2,3,4) cl
    unfolding pump_exit_def control_unfold assms(2) by (cases "ln_failed s") auto
qed

text \<open>Below a frame that is no frame of the pump, a waiting pump has not left its loop.\<close>

lemma woken_below:
  assumes "control_ok s" "ln_stack s = f # fs" "\<not> pump_frame f" "f \<noteq> ClosePump" "f \<noteq> RejectLoop"
  shows "ln_pending s = [] \<or> ln_active s \<or> PumpWhile \<in> set fs \<and> ln_pump_requested s \<or> ClosePump \<in> set fs \<or>
    ln_failed s \<and> (PumpExit \<in> set fs \<or> RejectLoop \<in> set fs)"
  using control_pop(4,6) [OF assms(1,2)] assms(2-) by (auto simp: woken_def)

lemma reject_control:
  assumes "control_ok s" "ln_stack s = RejectLoop # fs"
  shows "control_ok (reject_pending_line (pop s))"
proof -
  note below = control_pop [OF assms] and cl = closing_pop [OF control_pop(7) [OF assms] assms(2)]
  have "ln_failed s" "FinishClose \<in> set fs \<or> PumpExit \<in> set fs" using assms by (auto simp: control_ok_def)
  then show ?thesis using below(1-5) cl
    unfolding reject_pending_line_def control_unfold assms(2) by (cases "ln_pending s") auto
qed

lemma finish_close_control:
  assumes "control_ok s" "ln_stack s = FinishClose # fs"
  shows "control_ok (finish_close_if_ready (pop s))"
proof -
  note below = control_pop [OF assms] and cl = closing_pop [OF control_pop(7) [OF assms] assms(2)]
  note wb = woken_below [OF assms, simplified]
  have pump: "\<not> ln_pumping s \<Longrightarrow> PumpExit \<notin> set fs \<and> PumpWhile \<notin> set fs" using below(1) pump_count by auto
  show ?thesis
  proof (cases "\<not> ln_closed s \<or> ln_close_finishing s \<or> ln_pumping s \<or> ln_active s \<or> ln_pending s \<noteq> []")
    case True
    then have "finish_close_if_ready (pop s) = pop s" by (simp add: finish_close_if_ready_def pop_def)
    moreover have "ln_closed s \<Longrightarrow> ln_close_finishing s \<or> ln_active s \<or> ln_pumping s \<or> FinishClose \<in> set fs \<or> ClosePump \<in> set fs"
      using True wb pump reject_finishes [OF below(3)] by blast
    ultimately show ?thesis using below(1-5) cl wb unfolding control_unfold assms(2) by simp
  next
    case False
    then show ?thesis using below(1-5) cl pump
      unfolding finish_close_if_ready_def close_storage_once_def control_unfold assms(2) by simp
  qed
qed

lemma loop_control:
  assumes "control_ok s" "ln_stack s = f # fs" "\<not> pump_frame f" "\<not> active_frame f" "f \<noteq> FinishClose" "f \<noteq> ClosePump"
    "f \<noteq> RejectLoop" "gs = [] \<or> gs = [User, f']" "\<not> pump_frame f'" "\<not> active_frame f'" "f' \<noteq> RejectLoop"
    "s' = s\<lparr>ln_stack := gs @ fs, ln_trace := tr\<rparr>"
  shows "control_ok s'"
proof -
  note below = control_pop [OF assms(1,2)] and cl = closing_pop [OF control_pop(7) [OF assms(1,2)] assms(2)]
  note wb = woken_below [OF assms(1-3,6,7)]
  show ?thesis using assms(3-12) below(1-5) cl wb unfolding control_unfold by (elim disjE) auto
qed

lemma pump_line_control:
  assumes "counts s" "frames_ok (ln_failed s) (ln_stack s)" "PumpBody \<notin> set (ln_stack s)"
    "PumpExit \<in> set (ln_stack s) \<Longrightarrow> ln_failed s" "closing s"
  shows "control_ok (pump_line s)"
proof -
  have "ln_pumping s \<Longrightarrow> PumpWhile \<in> set (ln_stack s) \<or> PumpExit \<in> set (ln_stack s)"
    using assms(1,3) pump_count [of "ln_stack s"] by (auto simp: counts_def)
  then show ?thesis using assms
    unfolding pump_line_def control_unfold by auto
qed

lemma close_pump_control:
  assumes "control_ok s" "ln_stack s = ClosePump # fs"
  shows "control_ok (pump_line (push [FinishClose] (pop s)))"
proof -
  note below = control_pop [OF assms] and cl = closing_pop [OF control_pop(7) [OF assms] assms(2)]
  show ?thesis
    by (rule pump_line_control) (use below cl assms(2) in \<open>auto simp: counts_def closing_def push_def pop_def\<close>)
qed

lemma settle_control:
  assumes "control_ok s" "ln_stack s = f # fs" "f = CommitRun j \<or> f = Settle j"
  shows "control_ok (settle_job j (pop s))"
proof -
  note below = control_pop [OF assms(1,2)] and cl = closing_pop [OF control_pop(7) [OF assms(1,2)] assms(2)]
  have "ln_active s" using below(2) assms(3) by (auto split: if_splits)
  then show ?thesis using below(1-5) cl assms(3)
    unfolding settle_job_def control_unfold assms(2) by (elim disjE) auto
qed

lemma settle_after_control:
  assumes "control_ok s" "ln_stack s = SettleAfter # fs"
  shows "control_ok (settle_after (pop s))"
proof -
  note below = control_pop [OF assms] and cl = closing_pop [OF control_pop(7) [OF assms] assms(2)]
  let ?s1 = "push [FinishClose] ((pop s)\<lparr>ln_active := False, ln_pump_requested := True\<rparr>)"
  have act: "ln_active s" "ln_inflight s = None" "count_frames active_frame fs = 0" using below(2) by (auto split: if_splits)
  have parts: "counts ?s1" "frames_ok (ln_failed ?s1) (ln_stack ?s1)" "PumpBody \<notin> set (ln_stack ?s1)"
      "PumpExit \<in> set (ln_stack ?s1) \<Longrightarrow> ln_failed ?s1" "closing ?s1"
    using below(1,3-5) cl act assms(2) by (auto simp: counts_def closing_def push_def pop_def)
  have pump: "ln_pumping s \<Longrightarrow> PumpWhile \<in> set fs \<or> PumpExit \<in> set fs" using below(1,4) pump_count [of fs] by auto
  show ?thesis
  proof (cases "ln_pumping s")
    case True
    then have "settle_after (pop s) = ?s1" by (simp add: settle_after_def push_def pop_def)
    moreover have "woken ?s1" using pump [OF True] below(5) assms(2) by (auto simp: woken_def push_def pop_def)
    ultimately show ?thesis using parts by (simp add: control_ok_def)
  next
    case False
    then have "settle_after (pop s) = pump_line ?s1" by (simp add: settle_after_def push_def pop_def)
    then show ?thesis using pump_line_control [OF parts] by simp
  qed
qed

lemma read_control:
  assumes "control_ok s" "ln_stack s = ReadRun j # fs"
  shows "control_ok (push [User, ReadAfter] (emit (Completed j) (pop s)))"
proof -
  note below = control_pop [OF assms] and cl = closing_pop [OF control_pop(7) [OF assms] assms(2)]
  have "ln_active s" using below(2) by (auto split: if_splits)
  moreover have "PumpWhile \<in> set fs" using assms by (auto simp: control_ok_def)
  ultimately show ?thesis using below(1-5) cl unfolding control_unfold assms(2) by auto
qed

lemma read_after_control:
  assumes "control_ok s" "ln_stack s = ReadAfter # fs"
  shows "control_ok (read_after (pop s))"
proof -
  note below = control_pop [OF assms] and cl = closing_pop [OF control_pop(7) [OF assms] assms(2)]
  have "ln_active s" "ln_inflight s = None" "count_frames active_frame fs = 0" using below(2) by (auto split: if_splits)
  moreover have pw: "PumpWhile \<in> set fs" using assms by (auto simp: control_ok_def)
  moreover have "ln_pumping s" using below(1) pw pump_count [of fs] by (auto split: if_splits)
  ultimately show ?thesis using below(1,3-5) cl unfolding read_after_def control_unfold assms(2) by auto
qed

lemma keep_trace: "s\<lparr>ln_stack := fs, ln_trace := ln_trace s\<rparr> = s\<lparr>ln_stack := fs\<rparr>"
  by (cases s) simp

lemma return_control:
  assumes "control_ok s" "ln_stack s = f # fs" "f = User \<or> f = CloseCompletions [] \<or> f = NotifyLoop []"
  shows "control_ok (pop s)"
  using loop_control [OF assms(1,2), of "[]" User "pop s" "ln_trace s"] assms(2,3) by (auto simp: pop_def keep_trace)

lemma resume_control:
  assumes "control_ok s" "ln_stack s = f # fs"
  shows "control_ok (resume f (pop s))"
proof (cases f)
  case User
  then show ?thesis using return_control [OF assms] by simp
next
  case (CloseCompletions cs)
  show ?thesis
  proof (cases cs)
    case Nil
    then show ?thesis using CloseCompletions return_control [OF assms] by simp
  next
    case (Cons a as)
    show ?thesis
      by (rule loop_control [OF assms, of "[User, CloseCompletions as]" "CloseCompletions as" _ "ln_trace s @ [CloseCompleted a]"])
        (use CloseCompletions Cons assms(2) in \<open>simp_all add: pop_def push_def emit_def\<close>)
  qed
next
  case (NotifyLoop ls)
  show ?thesis
  proof (cases ls)
    case Nil
    then show ?thesis using NotifyLoop return_control [OF assms] by simp
  next
    case (Cons a as)
    show ?thesis
      by (rule loop_control [OF assms, of "[User, NotifyLoop as]" "NotifyLoop as" _ "ln_trace s @ [CloseNotified a]"])
        (use NotifyLoop Cons assms(2) in \<open>simp_all add: pop_def push_def emit_def\<close>)
  qed
qed (use assms pump_body_control pump_while_control pump_exit_control reject_control finish_close_control
    close_pump_control settle_control settle_after_control read_control read_after_control in auto)

lemma in_user_parts:
  assumes "control_ok s" "in_user s"
  shows "PumpBody \<notin> set (ln_stack s)" "PumpExit \<in> set (ln_stack s) \<Longrightarrow> ln_failed s"
  using assms by (cases "ln_stack s"; auto simp: in_user_def control_ok_def)+

text \<open>Fields the control does not read, and a callback pushed on user code.\<close>

lemma control_emit: "control_ok (emit e s) = control_ok s"
  by (simp add: control_unfold)

lemma control_listeners: "control_ok (s\<lparr>ln_close_listeners := ls\<rparr>) = control_ok s"
  by (simp add: control_unfold)

lemma control_wait: "control_ok s \<Longrightarrow> \<not> ln_storage_closed s \<Longrightarrow> control_ok (s\<lparr>ln_close_completions := cs\<rparr>)"
  by (auto simp: control_unfold)

lemma push_user_control:
  assumes "control_ok s" "in_user s"
  shows "control_ok (push [User] s)"
  using assms(1) in_user_parts [OF assms] unfolding control_unfold by auto

lemma notify_close_control:
  assumes "counts s" "frames_ok (ln_failed s) (ln_stack s)" "PumpBody \<notin> set (ln_stack s)"
    "PumpExit \<in> set (ln_stack s) \<Longrightarrow> ln_failed s" "woken s" "closing s"
  shows "control_ok (notify_close s)"
  using assms unfolding notify_close_def control_unfold by auto

lemma close_cleanup_control:
  assumes "control_ok s" "in_user s"
  shows "control_ok (close_cleanup s)"
  unfolding close_cleanup_def
  by (rule notify_close_control)
    (use assms(1) in_user_parts [OF assms] in \<open>auto simp: control_unfold\<close>)

lemma enqueue_control:
  assumes "control_ok s" "in_user s" "\<not> ln_failed s" "\<not> ln_closed s"
  shows "control_ok (enqueue_line j s)"
  unfolding enqueue_line_def
  by (rule pump_line_control)
    (use assms(1,3,4) in_user_parts [OF assms(1,2)] in \<open>auto simp: control_unfold\<close>)

lemma call_control:
  assumes "control_ok s" "in_user s"
  shows "control_ok (do_call c s)"
proof (cases c)
  case (Call_job j)
  then show ?thesis using enqueue_control [OF assms] push_user_control [OF assms] by (simp add: start_job_def)
next
  case Call_close
  then show ?thesis using close_cleanup_control [OF assms] by simp
next
  case (Call_close_wait n)
  moreover have "control_ok (push [User] (emit (CloseCompleted n) s))"
    by (rule push_user_control) (use assms in \<open>simp_all add: control_emit\<close>, simp add: in_user_def emit_def)
  ultimately show ?thesis using control_wait [OF assms(1)] by (simp add: close_wait_def)
next
  case (Call_subscribe_close l)
  then show ?thesis using assms(1) by (simp add: subscribe_close_def control_listeners)
qed

text \<open>The settlement of a batch takes the place of the running commit.\<close>

lemma settle_batch_control:
  assumes "ln_active s" "ln_inflight s = None" "count_frames active_frame (ln_stack s) = 0"
    "count_frames pump_frame (ln_stack s) = (if ln_pumping s then 1 else 0)"
    "frames_ok (ln_failed s) (ln_stack s)" "PumpBody \<notin> set (ln_stack s)" "PumpExit \<in> set (ln_stack s) \<Longrightarrow> ln_failed s"
    "ln_failed s \<Longrightarrow> ln_closed s" "ln_storage_closed s = ln_close_finishing s" "\<not> ln_close_finishing s"
  shows "control_ok (settle_batch r j s)"
proof (cases r)
  case Settled
  then show ?thesis using assms unfolding settle_batch_def control_unfold by auto
next
  case StorageFailure
  let ?s = "(push [Settle j] s)\<lparr>ln_failed := True, ln_closed := True\<rparr>"
  have ok: "frames_ok True (ln_stack s)" using frames_ok_mono [OF assms(5)] .
  have "control_ok (notify_close ?s)"
    by (rule notify_close_control) (use assms ok in \<open>auto simp: control_unfold\<close>)
  moreover have "control_ok (push [Settle j] s)" if "ln_failed s"
    using that assms unfolding control_unfold by auto
  ultimately show ?thesis using StorageFailure by (auto simp: settle_batch_def fail_session_def push_def)
qed

lemma step_control: "line_step s t \<Longrightarrow> control_ok s \<Longrightarrow> control_ok t"
proof (induction rule: line_step.induct)
  case (step_call s c)
  then show ?case by (rule call_control [rotated])
next
  case (step_resume s f fs)
  then show ?case using resume_control by blast
next
  case (step_batch s j fs r)
  note below = control_pop [OF step_batch(2,1)] and cl = closing_pop [OF control_pop(7) [OF step_batch(2,1)] step_batch(1)]
  have act: "ln_active s" "ln_inflight s = None" "count_frames active_frame fs = 0" using below(2) by (auto split: if_splits)
  show ?case
    by (rule settle_batch_control) (use act below cl step_batch(1) in \<open>auto simp: pop_def\<close>)
next
  case (step_async s j fs)
  note below = control_pop [OF step_async(2,1)] and cl = closing_pop [OF control_pop(7) [OF step_async(2,1)] step_async(1)]
  have "ln_active s" "ln_inflight s = None" "count_frames active_frame fs = 0" using below(2) by (auto split: if_splits)
  then show ?case using below(1,3-5) cl step_async(1) unfolding control_unfold by auto
next
  case (step_settled s j r)
  have act: "ln_active s" "count_frames active_frame (ln_stack s) = 0"
    using step_settled(2,3) by (auto simp: control_ok_def counts_def split: if_splits)
  show ?case
    by (rule settle_batch_control)
      (use act step_settled(2,3) in_user_parts [OF step_settled(3,1)] in \<open>auto simp: control_ok_def counts_def closing_def\<close>)
qed

lemma reachable_control: "line_reachable s \<Longrightarrow> control_ok s"
  by (induction rule: rtranclp_induct) (auto simp: line_init_control intro: step_control)

section \<open>Order\<close>

lemmas ordered_unfold = ordered_def running_def push_def pop_def emit_def Let_def

lemma ordered_silent:
  assumes "ordered s" "ln_trace t = ln_trace s" "ln_pending t = ln_pending s" "running t = running s"
    "ln_failed s \<Longrightarrow> ln_failed t"
  shows "ordered t"
  using assms by (simp add: ordered_def)

lemma running_top: "ln_stack s = f # fs \<Longrightarrow> running s = frame_job f @ running (pop s)"
  by (simp add: running_def pop_def)

lemma notify_close_fields [simp]:
  "ln_trace (notify_close s) = ln_trace s" "ln_pending (notify_close s) = ln_pending s"
  "ln_failed (notify_close s) = ln_failed s" "running (notify_close s) = running s"
  by (simp_all add: notify_close_def push_def running_def)

lemma pump_line_fields [simp]:
  "ln_trace (pump_line s) = ln_trace s" "ln_pending (pump_line s) = ln_pending s"
  "ln_failed (pump_line s) = ln_failed s" "running (pump_line s) = running s"
  by (simp_all add: pump_line_def push_def running_def)

lemma pump_body_ordered:
  assumes "ordered s" "control_ok s" "ln_stack s = PumpBody # fs"
  shows "ordered (pump_body (pop s))"
proof -
  have o: "ordered (pop s)" using ordered_silent [OF assms(1), of "pop s"] running_top [OF assms(3)] by (simp add: pop_def)
  show ?thesis
  proof (cases "pop s" rule: pump_body_cases)
    case idle
    then show ?thesis using ordered_silent [OF o] by (simp add: running_def)
  next
    case reject
    then show ?thesis using ordered_silent [OF o] by (simp add: running_def)
  next
    case (start j js run)
    have "count_frames active_frame fs = 0" "ln_inflight (pop s) = None"
      using control_pop(2) [OF assms(2,3)] start(1) by (auto simp: pop_def split: if_splits)
    then have none: "concat (map frame_job (ln_stack (pop s))) = []" "ln_inflight (pop s) = None"
      using no_active_no_job [of fs] assms(3) by (simp_all add: pop_def)
    show ?thesis unfolding start(5) using o none start(2-4) by (simp add: ordered_def running_def)
  qed
qed

lemma resume_ordered:
  assumes "ordered s" "control_ok s" "ln_stack s = f # fs"
  shows "ordered (resume f (pop s))"
proof -
  note top = running_top [OF assms(3)]
  have silent: "ordered t" if "frame_job f = []" "ln_trace t = ln_trace s" "ln_pending t = ln_pending s" "running t = running (pop s)"
    "ln_failed t = ln_failed s" for t
    using ordered_silent [OF assms(1)] that top by simp
  have loop: "ordered (push [User, g] (emit e (pop s)))"
    if "frame_job f = []" "frame_job g = []" "e = CloseCompleted n \<or> e = CloseNotified n" for e g n
    using assms(1) that top by (auto simp: ordered_unfold)
  have finish: "ordered (push [User, g] (emit (Completed j) (pop s)))" if "frame_job f = [j]" "frame_job g = []" for g j
    using assms(1) that top by (auto simp: ordered_unfold)
  show ?thesis
  proof (cases f)
    case PumpBody
    then show ?thesis using pump_body_ordered assms by simp
  next
    case RejectLoop
    moreover have "ln_failed s" using assms(2,3) RejectLoop by (auto simp: control_ok_def)
    ultimately show ?thesis using assms(1) top
      by (cases "ln_pending s") (auto simp: ordered_unfold reject_pending_line_def)
  next
    case FinishClose
    have "ln_trace (finish_close_if_ready (pop s)) = ln_trace s \<or> ln_trace (finish_close_if_ready (pop s)) = ln_trace s @ [ClosedStorage]"
      "ln_pending (finish_close_if_ready (pop s)) = ln_pending s" "running (finish_close_if_ready (pop s)) = running (pop s)"
      "ln_failed (finish_close_if_ready (pop s)) = ln_failed s"
      by (simp_all add: finish_close_if_ready_def close_storage_once_def push_def emit_def pop_def running_def Let_def)
    then show ?thesis using FinishClose assms(1) top by (auto simp: ordered_def)
  next
    case (CloseCompletions cs)
    then show ?thesis using silent loop by (cases cs) (auto simp: pop_def running_def)
  next
    case (NotifyLoop ls)
    then show ?thesis using silent loop by (cases ls) (auto simp: pop_def running_def)
  next
    case SettleAfter
    have "running (push [FinishClose] ((pop s)\<lparr>ln_active := False, ln_pump_requested := True\<rparr>)) = running (pop s)"
      by (simp add: running_def push_def)
    then show ?thesis using SettleAfter
      by (intro silent) (auto simp: settle_after_def Let_def, simp_all add: push_def pop_def)
  next
    case ClosePump
    have "running (push [FinishClose] (pop s)) = running (pop s)" by (simp add: running_def push_def)
    then show ?thesis using ClosePump by (intro silent) (auto simp: push_def pop_def)
  next
    case (CommitRun j)
    then show ?thesis using finish [of j SettleAfter] by (simp add: settle_job_def)
  next
    case (Settle j)
    then show ?thesis using finish [of j SettleAfter] by (simp add: settle_job_def)
  next
    case (ReadRun j)
    then show ?thesis using finish [of j ReadAfter] by simp
  qed (auto intro!: silent simp: pump_while_def pump_exit_def read_after_def Let_def push_def pop_def running_def)
qed

lemma call_ordered: "ordered s \<Longrightarrow> ordered (do_call c s)"
proof (cases c)
  case (Call_job j)
  assume o: "ordered s"
  have "ordered (emit (Admitted j) (s\<lparr>ln_pending := ln_pending s @ [j]\<rparr>))"
    using o by (simp add: ordered_def emit_def running_def)
  then have "ordered (enqueue_line j s)"
    unfolding enqueue_line_def by (rule ordered_silent) simp_all
  moreover have "ordered (push [User] s)" using o by (simp add: ordered_def push_def running_def)
  ultimately show ?thesis using Call_job by (simp add: start_job_def)
next
  case Call_close
  assume "ordered s"
  then have "ordered (push [ClosePump] (s\<lparr>ln_closed := True\<rparr>))" by (simp add: ordered_def push_def running_def)
  then show ?thesis unfolding Call_close do_call.simps close_cleanup_def by (rule ordered_silent) simp_all
qed (auto simp: ordered_def close_wait_def subscribe_close_def push_def emit_def running_def)

lemma settle_batch_ordered:
  assumes "ordered s" "ln_inflight t = None" "running s = [j]" "concat (map frame_job (ln_stack t)) = []"
    "ln_trace t = ln_trace s" "ln_pending t = ln_pending s" "ln_failed t = ln_failed s"
  shows "ordered (settle_batch r j t)"
proof -
  have "running (push [User, Settle j] t) = [j]" "running (push [Settle j] t) = [j]"
    using assms(2,4) by (simp_all add: running_def push_def)
  moreover have "running ((push [Settle j] t)\<lparr>ln_failed := True, ln_closed := True\<rparr>) = running (push [Settle j] t)"
    by (simp add: running_def push_def)
  ultimately show ?thesis using assms(1,3,5-7)
    by (cases r) (auto simp: settle_batch_def fail_session_def push_def intro!: ordered_silent [OF assms(1)])
qed

lemma step_ordered: "line_step s t \<Longrightarrow> control_ok s \<Longrightarrow> ordered s \<Longrightarrow> ordered t"
proof (induction rule: line_step.induct)
  case (step_call s c)
  then show ?case using call_ordered by blast
next
  case (step_resume s f fs)
  then show ?case using resume_ordered by blast
next
  case (step_batch s j fs r)
  have "ln_inflight s = None" "count_frames active_frame fs = 0"
    using control_pop(2) [OF step_batch(2,1)] by (auto split: if_splits)
  then show ?case
    using step_batch(1,3) no_active_no_job [of fs] by (intro settle_batch_ordered [of s]) (simp_all add: running_def pop_def)
next
  case (step_async s j fs)
  have "ln_inflight s = None" "count_frames active_frame fs = 0"
    using control_pop(2) [OF step_async(2,1)] by (auto split: if_splits)
  then have "running ((pop s)\<lparr>ln_inflight := Some j\<rparr>) = running s"
    using step_async(1) no_active_no_job [of fs] by (simp add: running_def pop_def del: concat_eq_Nil_conv)
  then show ?case using ordered_silent [OF step_async(3)] by (simp add: pop_def)
next
  case (step_settled s j r)
  have "count_frames active_frame (ln_stack s) = 0"
    using step_settled(2,3) by (auto simp: control_ok_def counts_def split: if_splits)
  then show ?case
    using step_settled(2,4) no_active_no_job [of "ln_stack s"] by (intro settle_batch_ordered [of s]) (simp_all add: running_def)
qed

lemma reachable_ordered: "line_reachable s \<Longrightarrow> ordered s"
proof (induction rule: rtranclp_induct)
  case (step s t)
  then show ?case using step_ordered [OF step(2)] reachable_control by blast
qed (rule line_init_ordered)

lemma running_one: "control_ok s \<Longrightarrow> length (running s) \<le> 1"
proof -
  assume "control_ok s"
  moreover have "length (concat (map frame_job fs)) \<le> count_frames active_frame fs" for fs
  proof (induction fs)
    case (Cons f fs)
    then show ?case by (cases f) auto
  qed simp
  from this [of "ln_stack s"] have "length (running s) \<le> count_frames active_frame (ln_stack s) + (if ln_inflight s = None then 0 else 1)"
    by (auto simp: running_def split: option.splits)
  ultimately show ?thesis by (auto simp: control_ok_def counts_def split: if_splits)
qed

section \<open>Calls return\<close>

text \<open>When callbacks return at once and commits settle without the storage, every call returns.\<close>

fun frame_weight :: "line_frame \<Rightarrow> nat" where
  "frame_weight User = 1"
| "frame_weight PumpBody = 5"
| "frame_weight PumpWhile = 6"
| "frame_weight PumpExit = 3"
| "frame_weight RejectLoop = 1"
| "frame_weight FinishClose = 1"
| "frame_weight (CloseCompletions cs) = Suc (2 * length cs)"
| "frame_weight (NotifyLoop ls) = Suc (2 * length ls)"
| "frame_weight ClosePump = 7"
| "frame_weight (CommitRun j) = 9"
| "frame_weight (Settle j) = 9"
| "frame_weight SettleAfter = 7"
| "frame_weight (ReadRun j) = 3"
| "frame_weight ReadAfter = 1"

definition line_order :: "(line \<times> line) set" where
  "line_order = measures [\<lambda>s. length (ln_pending s), \<lambda>s. if ln_close_finishing s then 0 else 1,
     \<lambda>s. sum_list (map frame_weight (ln_stack s))]"

lemma pump_body_decreases: "ln_stack s = PumpBody # fs \<Longrightarrow> (pump_body (pop s), s) \<in> line_order"
  by (cases "pop s" rule: pump_body_cases) (auto simp: line_order_def pop_def)

lemma resume_decreases:
  assumes "ln_stack s = f # fs"
  shows "(resume f (pop s), s) \<in> line_order"
proof (cases f)
  case PumpBody
  then show ?thesis using pump_body_decreases assms by simp
next
  case RejectLoop
  then show ?thesis using assms
    by (cases "ln_pending s") (auto simp: line_order_def reject_pending_line_def push_def pop_def emit_def)
next
  case FinishClose
  then show ?thesis using assms
    by (auto simp: line_order_def finish_close_if_ready_def close_storage_once_def push_def pop_def emit_def Let_def)
next
  case (CloseCompletions cs)
  then show ?thesis using assms by (cases cs) (auto simp: line_order_def push_def pop_def emit_def)
next
  case (NotifyLoop ls)
  then show ?thesis using assms by (cases ls) (auto simp: line_order_def push_def pop_def emit_def)
qed (use assms in \<open>auto simp: line_order_def line_ops\<close>)

section \<open>After the storage is closed\<close>

lemma resume_trace:
  assumes "control_ok s" "ln_stack s = f # fs"
  shows "(ln_trace (resume f (pop s)) = ln_trace s \<or> (\<exists>e. ln_trace (resume f (pop s)) = ln_trace s @ [e] \<and>
      (e = ClosedStorage \<longrightarrow> \<not> ln_storage_closed s \<and> ln_storage_closed (resume f (pop s))) \<and>
      (\<forall>j. e = Started j \<longrightarrow> \<not> ln_storage_closed s))) \<and>
    ln_inflight (resume f (pop s)) = ln_inflight s \<and> (ln_storage_closed s \<longrightarrow> ln_storage_closed (resume f (pop s)))"
proof (cases f)
  case PumpBody
  have cl: "ln_storage_closed s \<longrightarrow> ln_pending s = []" using assms(1) by (simp add: control_ok_def closing_def)
  show ?thesis unfolding PumpBody resume.simps
    by (cases "pop s" rule: pump_body_cases) (use cl in \<open>auto simp: pop_def\<close>)
next
  case RejectLoop
  then show ?thesis by (cases "ln_pending s") (auto simp: reject_pending_line_def push_def pop_def emit_def)
next
  case FinishClose
  then show ?thesis
    by (auto simp: finish_close_if_ready_def close_storage_once_def push_def pop_def emit_def Let_def)
next
  case (CloseCompletions cs)
  then show ?thesis by (cases cs) (auto simp: push_def pop_def emit_def)
next
  case (NotifyLoop ls)
  then show ?thesis by (cases ls) (auto simp: push_def pop_def emit_def)
qed (auto simp: line_ops)

lemma call_trace:
  "(ln_trace (do_call c s) = ln_trace s \<or> (\<exists>e. ln_trace (do_call c s) = ln_trace s @ [e] \<and> e \<noteq> ClosedStorage \<and> (\<forall>j. e \<noteq> Started j))) \<and>
   ln_storage_closed (do_call c s) = ln_storage_closed s"
  by (cases c) (auto simp: line_ops)

lemma settle_batch_trace:
  "ln_trace (settle_batch r j s) = ln_trace s" "ln_storage_closed (settle_batch r j s) = ln_storage_closed s"
  by (cases r; simp add: line_ops)+

definition closed_quietly :: "line \<Rightarrow> bool" where
  "closed_quietly s \<longleftrightarrow>
     (ClosedStorage \<in> set (ln_trace s) \<longrightarrow> ln_storage_closed s) \<and>
     started (dropWhile (\<lambda>e. e \<noteq> ClosedStorage) (ln_trace s)) = []"

lemma closed_quietly_step:
  assumes "closed_quietly s" "ln_storage_closed s \<longrightarrow> ln_storage_closed t"
    "ln_trace t = ln_trace s \<or> (\<exists>e. ln_trace t = ln_trace s @ [e] \<and>
       (e = ClosedStorage \<longrightarrow> \<not> ln_storage_closed s \<and> ln_storage_closed t) \<and> (\<forall>j. e = Started j \<longrightarrow> \<not> ln_storage_closed s))"
  shows "closed_quietly t"
  using assms(3)
proof (elim disjE exE conjE)
  assume "ln_trace t = ln_trace s"
  then show ?thesis using assms(1,2) by (simp add: closed_quietly_def)
next
  fix e
  assume e: "ln_trace t = ln_trace s @ [e]" "e = ClosedStorage \<longrightarrow> \<not> ln_storage_closed s \<and> ln_storage_closed t"
    "\<forall>j. e = Started j \<longrightarrow> \<not> ln_storage_closed s"
  show ?thesis
  proof (cases "ClosedStorage \<in> set (ln_trace s)")
    case True
    then have "dropWhile (\<lambda>e. e \<noteq> ClosedStorage) (ln_trace t) = dropWhile (\<lambda>e. e \<noteq> ClosedStorage) (ln_trace s) @ [e]"
      using e(1) by (simp add: dropWhile_append1)
    then show ?thesis using True e assms(1,2) by (auto simp: closed_quietly_def split: line_event.split)
  next
    case False
    then have "dropWhile (\<lambda>e. e \<noteq> ClosedStorage) (ln_trace t) = (if e = ClosedStorage then [ClosedStorage] else [])"
      by (subst e(1), subst dropWhile_append2) (use False in auto)
    then show ?thesis using False e by (auto simp: closed_quietly_def started_def List.map_filter_def)
  qed
qed

lemma reachable_closed_quietly: "line_reachable s \<Longrightarrow> closed_quietly s"
proof (induction rule: rtranclp_induct)
  case base
  show ?case by (simp add: closed_quietly_def line_init_def started_def List.map_filter_def)
next
  case (step s t)
  have ok: "control_ok s" using step(1) by (rule reachable_control)
  from step(2) show ?case
  proof cases
    case (step_call c)
    then show ?thesis using call_trace [of c s] by (intro closed_quietly_step [OF step(3)]) auto
  next
    case (step_resume f fs)
    then show ?thesis using resume_trace [OF ok step_resume(2)] by (intro closed_quietly_step [OF step(3)]) auto
  next
    case (step_batch j fs r)
    then show ?thesis by (intro closed_quietly_step [OF step(3)]) (simp_all add: settle_batch_trace pop_def)
  next
    case (step_async j fs)
    then show ?thesis by (intro closed_quietly_step [OF step(3)]) (simp_all add: pop_def)
  next
    case (step_settled j r)
    then show ?thesis by (intro closed_quietly_step [OF step(3)]) (simp_all add: settle_batch_trace)
  qed
qed

lemma drains: "control_ok s \<Longrightarrow> \<exists>t. line_step\<^sup>*\<^sup>* s t \<and> ln_stack t = [] \<and> ln_inflight t = ln_inflight s"
proof -
  have "wf line_order" by (simp add: line_order_def)
  then show "control_ok s \<Longrightarrow> ?thesis"
  proof (induction s rule: wf_induct_rule)
    case (less s)
    show ?case
    proof (cases "ln_stack s")
      case Nil
      then show ?thesis by blast
    next
      case (Cons f fs)
      obtain t where "line_step\<^sup>*\<^sup>* (resume f (pop s)) t" "ln_stack t = []" "ln_inflight t = ln_inflight s"
        using less.IH [OF resume_decreases [OF Cons] resume_control [OF less.prems Cons]] resume_trace [OF less.prems Cons]
        by auto
      then show ?thesis using step_resume [OF Cons] by (meson converse_rtranclp_into_rtranclp)
    qed
  qed
qed

section \<open>Properties\<close>

definition commit_job :: "nat \<Rightarrow> job" where
  "commit_job n = \<lparr>jb_kind = PendingCommit, jb_id = n\<rparr>"

text \<open>Two commits; the storage fails the first while the second waits and a close listener closes the session.\<close>

definition overtaking :: "choice list" where
  "overtaking =
     [Choose_call (Call_subscribe_close 0), Choose_call (Call_job (commit_job 1)), Choose_resume, Choose_resume,
      Choose_async, Choose_resume, Choose_resume, Choose_resume, Choose_call (Call_job (commit_job 2)),
      Choose_resume, Choose_resume, Choose_resume, Choose_settled StorageFailure, Choose_resume,
      Choose_call Call_close, Choose_resume, Choose_resume, Choose_resume, Choose_resume]"

definition overtaken :: line where
  "overtaken = the (play overtaking line_init)"

lemma overtaken_reachable: "line_reachable overtaken"
proof -
  have "play overtaking line_init \<noteq> None" by code_simp
  then have "play overtaking line_init = Some overtaken" by (auto simp: overtaken_def)
  then show ?thesis by (rule play_steps)
qed

text \<open>
  C6. Under every interleaving of calls, callbacks, re-entrant calls and storage settlements, the jobs
  of a session start in the order of their admission and one at a time: a job starts only when every
  job started before it has had its completion called, and a job leaves the queue unstarted only when
  the session has failed. So every admitted job is completed, rejected, running or waiting, and
  exactly one of these.
\<close>

theorem line_serves_in_order:
  assumes "line_reachable s"
  shows "admitted (ln_trace s) = started (ln_trace s) @ rejected (ln_trace s) @ ln_pending s \<and>
    started (ln_trace s) = completed (ln_trace s) @ running s \<and> length (running s) \<le> 1 \<and>
    (rejected (ln_trace s) \<noteq> [] \<longrightarrow> ln_failed s)"
  using reachable_ordered [OF assms] running_one [OF reachable_control [OF assms]] by (simp add: ordered_def)

theorem line_serves_in_order_witness:
  "admitted (ln_trace overtaken) = [commit_job 1, commit_job 2] \<and> started (ln_trace overtaken) = [commit_job 1] \<and>
   length (running overtaken) \<le> 1"
  using line_serves_in_order [OF overtaken_reachable] by (auto, code_simp+)

text \<open>
  C4. Nothing is stranded. When callbacks return, every call into the session returns, a commit that
  waits for the storage excepted; and whenever no call is running and no batch is with the storage,
  every admitted job has been completed or rejected, the line is free, and a session that was closed
  or has failed has closed its storage and called everyone who waited for that.
\<close>

theorem idle_line_is_settled:
  assumes "line_reachable s"
  shows "(\<exists>t. line_step\<^sup>*\<^sup>* s t \<and> ln_stack t = [] \<and> ln_inflight t = ln_inflight s) \<and>
    (ln_stack s = [] \<and> ln_inflight s = None \<longrightarrow>
       admitted (ln_trace s) = completed (ln_trace s) @ rejected (ln_trace s) \<and> ln_pending s = [] \<and> \<not> ln_active s \<and>
       (ln_closed s \<or> ln_failed s \<longrightarrow> ln_storage_closed s \<and> ln_close_completions s = []))"
proof -
  have ok: "control_ok s" using assms by (rule reachable_control)
  moreover have "ordered s" using assms by (rule reachable_ordered)
  ultimately show ?thesis using drains [OF ok]
    by (auto simp: control_ok_def counts_def woken_def closing_def ordered_def running_def)
qed

theorem idle_line_is_settled_witness:
  "\<exists>t. line_step\<^sup>*\<^sup>* overtaken t \<and> ln_stack t = []"
  using idle_line_is_settled [OF overtaken_reachable] by blast

text \<open>
  C36. The storage is closed only when the session is closed and no job waits or runs, it is closed
  once, and no job starts afterwards. In between the documented order of a failure can be violated:
  a queued job may be rejected before the completion of the job whose batch failed is called, when a
  close listener calls \<open>close\<close>.
\<close>

theorem storage_closes_last:
  assumes "line_reachable s"
  shows "(ln_storage_closed s \<longrightarrow> ln_closed s \<and> ln_pending s = [] \<and> running s = []) \<and>
    started (dropWhile (\<lambda>e. e \<noteq> ClosedStorage) (ln_trace s)) = [] \<and>
    (\<exists>u. line_reachable u \<and> rejected (ln_trace u) = [commit_job 2] \<and> running u = [commit_job 1])"
proof -
  have ok: "control_ok s" using assms by (rule reachable_control)
  then have "ln_storage_closed s \<Longrightarrow> running s = []"
    using no_active_no_job [of "ln_stack s"]
    by (auto simp: control_ok_def counts_def closing_def running_def split: if_splits)
  moreover have "rejected (ln_trace overtaken) = [commit_job 2] \<and> running overtaken = [commit_job 1]" by code_simp
  ultimately show ?thesis using ok reachable_closed_quietly [OF assms] overtaken_reachable
    by (auto simp: control_ok_def closing_def closed_quietly_def)
qed

theorem storage_closes_last_witness:
  "\<exists>u. line_reachable u \<and> rejected (ln_trace u) = [commit_job 2] \<and> running u = [commit_job 1]"
  using storage_closes_last [OF overtaken_reachable] by blast

end
