(* ===== verification/Bounded_Text.thy ===== *)
theory Bounded_Text
  imports Utf16
begin

text \<open>
  \<^verbatim>\<open>src/src/support/include/cch/support\<close>: \<^verbatim>\<open>BoundedText.hpp\<close> (prefixes and tails of a text within a
  byte budget that never cut a character), \<^verbatim>\<open>Redactor.hpp\<close> (secrets replaced by a marker) and
  \<^verbatim>\<open>OutputLimiter.hpp\<close> (tool output within a budget of lines and bytes). A scan over a text keeps
  the part that is still ahead of it; the character tests are those of the C locale.
\<close>

section \<open>BoundedText.hpp\<close>

definition uchar :: "char \<Rightarrow> nat" where
  "uchar c = of_char c"

definition replacement :: string where
  "replacement = [CHR 0xEF, CHR 0xBF, CHR 0xBD]"

definition lead_length :: "nat \<Rightarrow> nat" where
  "lead_length lead =
     (if lead \<le> 0x7f then 1
      else if 0xc2 \<le> lead \<and> lead \<le> 0xdf then 2
      else if 0xe0 \<le> lead \<and> lead \<le> 0xef then 3
      else if 0xf0 \<le> lead \<and> lead \<le> 0xf4 then 4
      else 0)"

definition valid_continuation :: "nat \<Rightarrow> bool" where
  "valid_continuation b \<longleftrightarrow> 0x80 \<le> b \<and> b \<le> 0xbf"

text \<open>Whether the bytes ahead start with a well-formed sequence, and its length.\<close>

definition sequence_length :: "nat list \<Rightarrow> nat option" where
  "sequence_length bs =
     (let lead = hd bs; len = lead_length lead
      in if len \<noteq> 0 \<and> len \<le> length bs \<and> list_all valid_continuation (take (len - 1) (tl bs)) \<and>
            \<not> (len = 3 \<and> (lead = 0xe0 \<and> bs ! 1 < 0xa0 \<or> lead = 0xed \<and> bs ! 1 \<ge> 0xa0)) \<and>
            \<not> (len = 4 \<and> (lead = 0xf0 \<and> bs ! 1 < 0x90 \<or> lead = 0xf4 \<and> bs ! 1 \<ge> 0x90))
         then Some len else None)"

function bounded_utf8_loop :: "nat \<Rightarrow> string \<Rightarrow> string \<Rightarrow> string" where
  "bounded_utf8_loop max_bytes rest safe =
     (if rest = [] \<or> length safe \<ge> max_bytes then safe
      else (case sequence_length (map uchar rest) of
              None \<Rightarrow>
                if length safe + length replacement > max_bytes then safe
                else bounded_utf8_loop max_bytes (tl rest) (safe @ replacement)
            | Some len \<Rightarrow>
                if len = 0 \<or> length safe + len > max_bytes then safe
                else bounded_utf8_loop max_bytes (drop len rest) (safe @ take len rest)))"
  by pat_completeness auto
termination
  by (relation "measure (\<lambda>(_, rest, _). length rest)") auto

declare bounded_utf8_loop.simps [simp del]

definition bounded_utf8 :: "string \<Rightarrow> nat \<Rightarrow> string" where
  "bounded_utf8 txt max_bytes = bounded_utf8_loop max_bytes txt []"

text \<open>The scan that counts UTF-16 units by the lead bytes.\<close>

record utf16_scan =
  us_offset :: nat
  us_total_units :: nat
  us_prefix_bytes :: nat
  us_split_surrogate :: bool

definition utf16_scan_step :: "nat \<Rightarrow> nat \<Rightarrow> utf16_scan \<Rightarrow> utf16_scan" where
  "utf16_scan_step max_units lead st =
     (let bytes = (if lead < 0x80 then 1 else if lead < 0xe0 then 2 else if lead < 0xf0 then 3 else 4);
          units = (if bytes = 4 then 2 else 1);
          st1 = (if us_total_units st < max_units
                 then (if units \<le> max_units - us_total_units st
                       then st\<lparr>us_prefix_bytes := us_offset st + bytes\<rparr>
                       else st\<lparr>us_split_surrogate := True\<rparr>)
                 else st)
      in st1\<lparr>us_total_units := us_total_units st + units, us_offset := us_offset st + bytes\<rparr>)"

function utf16_scan_loop :: "nat \<Rightarrow> nat list \<Rightarrow> utf16_scan \<Rightarrow> utf16_scan" where
  "utf16_scan_loop max_units bs st =
     (if us_offset st < length bs
      then utf16_scan_loop max_units bs (utf16_scan_step max_units (bs ! us_offset st) st)
      else st)"
  by pat_completeness auto
termination
  by (relation "measure (\<lambda>(_, bs, st). length bs - us_offset st)")
    (auto simp: utf16_scan_step_def Let_def)

declare utf16_scan_loop.simps [simp del]

record utf16_prefix_result =
  up_text :: string
  up_total_units :: nat

definition bounded_utf16_prefix :: "string \<Rightarrow> nat \<Rightarrow> utf16_prefix_result" where
  "bounded_utf16_prefix txt max_units =
     (let st = utf16_scan_loop max_units (map uchar txt)
                 \<lparr>us_offset = 0, us_total_units = 0, us_prefix_bytes = 0, us_split_surrogate = False\<rparr>
      in \<lparr>up_text = bounded_utf8 txt (us_prefix_bytes st) @ (if us_split_surrogate st then replacement else []),
          up_total_units = us_total_units st\<rparr>)"

text \<open>The start of the tail: the walk back over bytes and lines, then over a cut character.\<close>

definition line_feed :: char where
  "line_feed = CHR 0x0A"

fun tail_walk :: "string \<Rightarrow> nat \<Rightarrow> nat \<Rightarrow> nat \<Rightarrow> nat \<Rightarrow> nat \<Rightarrow> nat" where
  "tail_walk txt max_bytes max_lines 0 bytes lines = 0"
| "tail_walk txt max_bytes max_lines (Suc n) bytes lines =
     (if bytes < max_bytes
      then (if txt ! n = line_feed \<and> lines \<ge> max_lines then Suc n
            else tail_walk txt max_bytes max_lines n (bytes + 1)
                   (if txt ! n = line_feed then lines + 1 else lines))
      else Suc n)"

definition skip_continuation :: "string \<Rightarrow> nat \<Rightarrow> nat" where
  "skip_continuation txt start =
     start + length (takeWhile (\<lambda>c. uchar c div 64 = 2) (drop start txt))"

definition utf8_tail_start :: "string \<Rightarrow> nat \<Rightarrow> nat \<Rightarrow> nat" where
  "utf8_tail_start txt max_bytes max_lines =
     (if txt = [] then 0
      else if max_bytes = 0 \<or> max_lines = 0 then length txt
      else skip_continuation txt (tail_walk txt max_bytes max_lines (length txt) 0 1))"

record utf8_tail_result =
  ut_text :: string
  ut_truncated :: bool

definition bounded_utf8_tail :: "string \<Rightarrow> nat \<Rightarrow> nat \<Rightarrow> utf8_tail_result" where
  "bounded_utf8_tail txt max_bytes max_lines =
     (if txt = [] then \<lparr>ut_text = [], ut_truncated = False\<rparr>
      else let start = utf8_tail_start txt max_bytes max_lines
           in \<lparr>ut_text = bounded_utf8 (drop start txt) max_bytes, ut_truncated = (start > 0)\<rparr>)"

definition bounded_text :: "string \<Rightarrow> nat \<Rightarrow> string \<Rightarrow> bool \<Rightarrow> string" where
  "bounded_text txt max_bytes suffix force_truncated =
     (if max_bytes = 0 then []
      else if \<not> force_truncated \<and> length txt \<le> max_bytes then bounded_utf8 txt max_bytes
      else if max_bytes \<le> length suffix then bounded_utf8 suffix max_bytes
      else bounded_utf8 txt (max_bytes - length suffix) @ suffix)"

section \<open>Redactor.hpp\<close>

definition kRedactionMarker :: string where
  "kRedactionMarker = ''[REDACTED]''"

definition isdigit :: "char \<Rightarrow> bool" where
  "isdigit c \<longleftrightarrow> 48 \<le> uchar c \<and> uchar c \<le> 57"

definition isupper :: "char \<Rightarrow> bool" where
  "isupper c \<longleftrightarrow> 65 \<le> uchar c \<and> uchar c \<le> 90"

definition islower :: "char \<Rightarrow> bool" where
  "islower c \<longleftrightarrow> 97 \<le> uchar c \<and> uchar c \<le> 122"

definition isalnum :: "char \<Rightarrow> bool" where
  "isalnum c \<longleftrightarrow> isdigit c \<or> isupper c \<or> islower c"

definition isspace :: "char \<Rightarrow> bool" where
  "isspace c \<longleftrightarrow> uchar c = 32 \<or> 9 \<le> uchar c \<and> uchar c \<le> 13"

definition toupper :: "char \<Rightarrow> char" where
  "toupper c = (if islower c then char_of (uchar c - 32) else c)"

definition normalized_secret_key :: "string \<Rightarrow> string" where
  "normalized_secret_key key = map toupper (filter isalnum key)"

definition has_substring :: "string \<Rightarrow> string \<Rightarrow> bool" where
  "has_substring pat txt \<longleftrightarrow> find_from txt pat 0 \<noteq> None"

definition looks_secret_key :: "string \<Rightarrow> bool" where
  "looks_secret_key key =
     (let normalized = normalized_secret_key key
      in if normalized = ''TOTALTOKENS'' \<or> normalized = ''TOKENSBEFORE'' then False
         else has_substring ''APIKEY'' normalized \<or> has_substring ''TOKEN'' normalized \<or>
              has_substring ''SECRET'' normalized \<or> has_substring ''PASSWORD'' normalized \<or>
              has_substring ''AUTHORIZATION'' normalized \<or> has_substring ''OPENAI'' normalized)"

definition is_key_character :: "char \<Rightarrow> bool" where
  "is_key_character c \<longleftrightarrow> isalnum c \<or> c = CHR ''_'' \<or> c = CHR ''-''"

definition token_character :: "bool \<Rightarrow> char \<Rightarrow> bool" where
  "token_character uppercase_digits_only c \<longleftrightarrow>
     is_key_character c \<and> (uppercase_digits_only \<longrightarrow> isdigit c \<or> isupper c)"

text \<open>The prefix is given by its first character and the rest, so it is never empty.\<close>

function redact_prefixed_tokens :: "char \<Rightarrow> string \<Rightarrow> nat \<Rightarrow> bool \<Rightarrow> string \<Rightarrow> string" where
  "redact_prefixed_tokens c cs required_suffix uppercase_digits_only rest =
     (case find_from rest (c # cs) 0 of
        None \<Rightarrow> rest
      | Some p \<Rightarrow>
          let after = drop (p + length (c # cs)) rest;
              run = takeWhile (token_character uppercase_digits_only) after
          in if length run < required_suffix
             then take (p + length (c # cs)) rest @
                  redact_prefixed_tokens c cs required_suffix uppercase_digits_only after
             else take p rest @ kRedactionMarker @
                  redact_prefixed_tokens c cs required_suffix uppercase_digits_only (drop (length run) after))"
  by pat_completeness auto
termination
  by (relation "measure (\<lambda>(_, _, _, _, rest). length rest)")
    (auto simp: find_from_def find_Some_iff)

declare redact_prefixed_tokens.simps [simp del]

definition assignment_key :: "string \<Rightarrow> string option" where
  "assignment_key prior =
     (let key = rev (dropWhile isspace (rev prior))
      in if key = [] then None
         else if last key = CHR 0x22
         then (let inner = butlast key
               in if CHR 0x22 \<notin> set inner then None
                  else Some (rev (takeWhile (\<lambda>c. c \<noteq> CHR 0x22) (rev inner))))
         else (let name = rev (takeWhile is_key_character (rev key))
               in if name = [] then None else Some name))"

fun quoted_length :: "char \<Rightarrow> string \<Rightarrow> nat" where
  "quoted_length quote [] = 0"
| "quoted_length quote (c # cs) =
     (if c = CHR 0x5C \<and> cs \<noteq> [] then 2 + quoted_length quote (tl cs)
      else if c = quote then 0
      else 1 + quoted_length quote cs)"

definition value_character :: "bool \<Rightarrow> char \<Rightarrow> bool" where
  "value_character authorization c \<longleftrightarrow>
     c \<noteq> CHR '','' \<and> c \<noteq> CHR 0x7D \<and> c \<noteq> CHR 0x0A \<and> c \<noteq> CHR 0x0D \<and> (authorization \<or> \<not> isspace c)"

lemma after_shorter: "drop n rest = sep # tail \<Longrightarrow> length tail < length rest"
proof -
  assume "drop n rest = sep # tail"
  then have "length (drop n rest) = Suc (length tail)" by simp
  then show ?thesis by simp
qed

text \<open>\<open>out\<close> is the text prior the position of the loop, \<open>rest\<close> the text from it on.\<close>

function redact_assignments_loop :: "string \<Rightarrow> string \<Rightarrow> string" where
  "redact_assignments_loop out rest =
     (let prior = takeWhile (\<lambda>c. c \<noteq> CHR '':'' \<and> c \<noteq> CHR ''='') rest;
          after = drop (length prior) rest
      in case after of
           [] \<Rightarrow> out @ rest
         | sep # tail \<Rightarrow>
             (case assignment_key (out @ prior) of
                None \<Rightarrow> redact_assignments_loop (out @ prior @ [sep]) tail
              | Some key \<Rightarrow>
                  if \<not> looks_secret_key key then redact_assignments_loop (out @ prior @ [sep]) tail
                  else let space = takeWhile isspace tail; val = drop (length space) tail
                       in if val = [] then out @ rest
                          else if hd val = CHR 0x22 \<or> hd val = CHR 0x27
                          then let n = quoted_length (hd val) (tl val); remaining = drop n (tl val)
                               in redact_assignments_loop
                                    (out @ prior @ [sep] @ space @ [hd val] @ kRedactionMarker @ take 1 remaining)
                                    (drop 1 remaining)
                          else let authorization = has_substring ''AUTHORIZATION'' (normalized_secret_key key);
                                   n = length (takeWhile (value_character authorization) val)
                               in redact_assignments_loop
                                    (out @ prior @ [sep] @ space @ kRedactionMarker) (drop n val)))"
  by pat_completeness auto
termination
proof (relation "measure (\<lambda>(_, rest). length rest)", goal_cases)
  case (2 out rest prior after sep tail)
  then show ?case using after_shorter [of "length prior" rest sep tail] by simp
next
  case (3 out rest prior after sep tail key)
  then show ?case using after_shorter [of "length prior" rest sep tail] by simp
next
  case (4 out rest prior after sep tail key space val n remaining)
  then show ?case using after_shorter [of "length prior" rest sep tail] by simp
next
  case (5 out rest prior after sep tail key space val authorization n)
  then show ?case using after_shorter [of "length prior" rest sep tail] by simp
qed simp

declare redact_assignments_loop.simps [simp del]

definition redact_assignments :: "string \<Rightarrow> string" where
  "redact_assignments txt = redact_assignments_loop [] txt"

definition redact_text :: "string \<Rightarrow> string" where
  "redact_text txt =
     redact_prefixed_tokens (CHR ''A'') ''KIA'' 16 True
       (redact_prefixed_tokens (CHR ''s'') ''k-'' 8 False (redact_assignments txt))"

text \<open>The last occurrence of a pattern that starts at or before a position.\<close>

definition rfind_from :: "string \<Rightarrow> string \<Rightarrow> nat \<Rightarrow> nat option" where
  "rfind_from pat txt pos =
     List.find (\<lambda>p. take (length pat) (drop p txt) = pat \<and> p + length pat \<le> length txt) (rev [0..<Suc pos])"

definition bounded_redacted_text :: "nat \<Rightarrow> string \<Rightarrow> nat \<Rightarrow> string \<Rightarrow> nat \<Rightarrow> string" where
  "bounded_redacted_text max_size txt max_bytes suffix boundary_lookahead_bytes =
     (if max_bytes = 0 then []
      else let inspected_bytes = (if max_bytes > max_size - boundary_lookahead_bytes then max_bytes
                                  else max_bytes + boundary_lookahead_bytes);
               input_truncated = (length txt > inspected_bytes);
               txt1 = redact_text (if input_truncated then take inspected_bytes txt else txt);
               content_bytes = (if max_bytes > length suffix then max_bytes - length suffix else 0);
               crossing = (if content_bytes \<ge> length kRedactionMarker \<and> length txt1 > content_bytes
                           then (case rfind_from kRedactionMarker txt1 content_bytes of
                                   None \<Rightarrow> False
                                 | Some marker \<Rightarrow> marker + length kRedactionMarker > content_bytes)
                           else False)
           in if crossing
              then bounded_utf8 txt1 (content_bytes - length kRedactionMarker) @ kRedactionMarker @ suffix
              else bounded_text txt1 max_bytes suffix input_truncated)"

section \<open>OutputLimiter.hpp\<close>

record output_limit =
  ol_max_bytes :: nat
  ol_max_lines :: nat

datatype truncation_kind = ByLines | ByBytes

record output_truncation =
  ot_text :: string
  ot_truncated :: bool
  ot_truncated_by :: "truncation_kind option"
  ot_total_lines :: nat
  ot_total_bytes :: nat
  ot_output_lines :: nat
  ot_output_bytes :: nat
  ot_last_line_partial :: bool
  ot_first_line_exceeds_limit :: bool
  ot_max_lines :: nat
  ot_max_bytes :: nat

fun split_lines :: "string \<Rightarrow> string list" where
  "split_lines [] = [[]]"
| "split_lines (c # cs) =
     (if c = line_feed then [] # split_lines cs
      else (case split_lines cs of [] \<Rightarrow> [[c]] | l # ls \<Rightarrow> (c # l) # ls))"

definition split_lines_for_counting :: "string \<Rightarrow> string list" where
  "split_lines_for_counting txt =
     (if txt = [] then []
      else if last txt = line_feed then butlast (split_lines txt) else split_lines txt)"

fun joined_lines :: "string list \<Rightarrow> string" where
  "joined_lines [] = []"
| "joined_lines [l] = l"
| "joined_lines (l # ls) = l @ line_feed # joined_lines ls"

definition untruncated_result :: "string \<Rightarrow> nat \<Rightarrow> output_limit \<Rightarrow> output_truncation" where
  "untruncated_result content total_lines limit =
     \<lparr>ot_text = content, ot_truncated = False, ot_truncated_by = None, ot_total_lines = total_lines,
      ot_total_bytes = length content, ot_output_lines = total_lines, ot_output_bytes = length content,
      ot_last_line_partial = False, ot_first_line_exceeds_limit = False,
      ot_max_lines = ol_max_lines limit, ot_max_bytes = ol_max_bytes limit\<rparr>"

text \<open>The loop over the lines: the kept lines and which limit ended it.\<close>

fun head_loop :: "output_limit \<Rightarrow> string list \<Rightarrow> string list \<Rightarrow> nat \<Rightarrow> string list \<times> truncation_kind" where
  "head_loop limit kept [] kept_bytes = (kept, ByLines)"
| "head_loop limit kept (l # ls) kept_bytes =
     (if length kept < ol_max_lines limit
      then let line_bytes = length l + (if kept = [] then 0 else 1)
           in if kept_bytes + line_bytes > ol_max_bytes limit then (kept, ByBytes)
              else head_loop limit (kept @ [l]) ls (kept_bytes + line_bytes)
      else (kept, ByLines))"

definition truncate_output_head :: "string \<Rightarrow> output_limit \<Rightarrow> output_truncation" where
  "truncate_output_head content limit =
     (let lines = split_lines_for_counting content; result = untruncated_result content (length lines) limit
      in if length lines \<le> ol_max_lines limit \<and> length content \<le> ol_max_bytes limit then result
         else if length (hd lines) > ol_max_bytes limit
         then result\<lparr>ot_text := [], ot_truncated := True, ot_truncated_by := Some ByBytes, ot_output_lines := 0,
                     ot_output_bytes := 0, ot_first_line_exceeds_limit := True\<rparr>
         else let (kept, by) = head_loop limit [] lines 0; txt = joined_lines kept
              in result\<lparr>ot_text := txt, ot_truncated := True, ot_truncated_by := Some by,
                        ot_output_lines := length kept, ot_output_bytes := length txt\<rparr>)"

text \<open>The loop from the last line back; \<open>kept\<close> is already in output order.\<close>

fun tail_loop ::
    "output_limit \<Rightarrow> string list \<Rightarrow> string list \<Rightarrow> nat \<Rightarrow> string list \<times> bool \<times> truncation_kind" where
  "tail_loop limit kept [] kept_bytes = (kept, False, ByLines)"
| "tail_loop limit kept (l # ls) kept_bytes =
     (if length kept < ol_max_lines limit
      then let line_bytes = length l + (if kept = [] then 0 else 1)
           in if kept_bytes + line_bytes > ol_max_bytes limit
              then (if kept = []
                    then ([drop (utf8_tail_start l (ol_max_bytes limit) (2 ^ 64 - 1)) l], True, ByBytes)
                    else (kept, False, ByBytes))
              else tail_loop limit (l # kept) ls (kept_bytes + line_bytes)
      else (kept, False, ByLines))"

definition truncate_output_tail :: "string \<Rightarrow> output_limit \<Rightarrow> output_truncation" where
  "truncate_output_tail content limit =
     (let lines = split_lines_for_counting content; result = untruncated_result content (length lines) limit
      in if length lines \<le> ol_max_lines limit \<and> length content \<le> ol_max_bytes limit then result
         else let (kept, partial, by) = tail_loop limit [] (rev lines) 0; txt = joined_lines kept
              in result\<lparr>ot_text := txt, ot_truncated := True, ot_truncated_by := Some by,
                        ot_output_lines := length kept, ot_output_bytes := length txt,
                        ot_last_line_partial := partial\<rparr>)"

definition limit_output_tail :: "string \<Rightarrow> output_limit \<Rightarrow> utf8_tail_result" where
  "limit_output_tail input limit =
     (if input = [] then \<lparr>ut_text = [], ut_truncated = False\<rparr>
      else if ol_max_bytes limit = 0 \<or> ol_max_lines limit = 0 then \<lparr>ut_text = [], ut_truncated = True\<rparr>
      else let start0 = utf8_tail_start input (ol_max_bytes limit) (ol_max_lines limit);
               start = (case rfind_from kRedactionMarker input start0 of
                          None \<Rightarrow> start0
                        | Some marker \<Rightarrow>
                            if marker < start0 \<and> marker + length kRedactionMarker > start0
                            then marker + length kRedactionMarker else start0)
           in \<lparr>ut_text = bounded_utf8 (drop start input) (ol_max_bytes limit), ut_truncated = (start > 0)\<rparr>)"

definition limit_output_tail_redacted :: "string \<Rightarrow> output_limit \<Rightarrow> utf8_tail_result" where
  "limit_output_tail_redacted input limit = limit_output_tail (redact_text input) limit"

end
