(* ===== verification/Redactor_Laws.thy ===== *)
theory Redactor_Laws
  imports Bounded_Text_Laws "HOL-Library.Sublist"
begin

text \<open>
  Laws of the redactor and of the output limits: no token with a secret prefix survives
  \<open>redact_text\<close>, bounded redacted text keeps its budget, and truncated output is whole lines of the
  content within both limits.
\<close>

section \<open>Tokens\<close>

text \<open>A secret token: the prefix and the required number of token characters.\<close>

definition is_token :: "string \<Rightarrow> nat \<Rightarrow> bool \<Rightarrow> string \<Rightarrow> bool" where
  "is_token pat n up w \<longleftrightarrow> (\<exists>v. w = pat @ v \<and> length v = n \<and> list_all (token_character up) v)"

lemma marker_characters: "\<not> is_key_character (CHR 0x5B)" "\<not> is_key_character (CHR 0x5D)"
  by (simp_all add: is_key_character_def isalnum_def isdigit_def isupper_def islower_def uchar_def)

lemma sublist_split_at:
  assumes "sublist w (a @ x # b)" "\<not> P x" "list_all P w"
  shows "sublist w a \<or> sublist w b"
proof -
  have no: "x \<notin> set w" using assms(2,3) by (auto simp: list_all_iff)
  from assms(1) obtain u v where uv: "a @ x # b = u @ w @ v" by (auto simp: sublist_def)
  then consider c where "u = a @ c" "x # b = c @ w @ v" | c where "a = u @ c" "c @ x # b = w @ v"
    by (auto simp: append_eq_append_conv2)
  then show ?thesis
  proof cases
    case 1
    then show ?thesis using no by (cases c; cases w) (auto simp: sublist_def)
  next
    case 2
    from 2(2) consider d where "c = w @ d" | d where "w = c @ d" "x # b = d @ v"
      by (auto simp: append_eq_append_conv2)
    then show ?thesis
    proof cases
      case 1
      then show ?thesis using 2(1) by (auto simp: sublist_def)
    next
      case (2 d)
      then have "d = []" using no by (cases d) auto
      then show ?thesis using 2 \<open>a = u @ c\<close> by simp
    qed
  qed
qed

text \<open>A word of key characters that is longer than the marker's letters lies beside a marker.\<close>

lemma sublist_beside_marker:
  assumes "sublist w (a @ kRedactionMarker @ b)" "list_all is_key_character w" "8 < length w"
  shows "sublist w a \<or> sublist w b"
proof -
  have m: "kRedactionMarker = CHR 0x5B # ''REDACTED'' @ [CHR 0x5D]" by (simp add: kRedactionMarker_def)
  have "sublist w a \<or> sublist w (''REDACTED'' @ CHR 0x5D # b)"
    using sublist_split_at [of w a "CHR 0x5B" "''REDACTED'' @ CHR 0x5D # b" is_key_character] assms(1,2) marker_characters(1)
    by (simp add: m)
  moreover have "sublist w ''REDACTED'' \<or> sublist w b" if "sublist w (''REDACTED'' @ CHR 0x5D # b)"
    using sublist_split_at [OF that marker_characters(2) assms(2)] .
  moreover have "\<not> sublist w ''REDACTED''"
    using assms(3) sublist_length_le [of w "''REDACTED''"] by auto
  ultimately show ?thesis by blast
qed

lemma find_from_first:
  assumes "find_from txt pat 0 = Some p"
  shows "txt = take p txt @ pat @ drop (p + length pat) txt" "p + length pat \<le> length txt"
    and "txt = a @ pat @ b \<Longrightarrow> p \<le> length a"
proof -
  let ?P = "\<lambda>p. p + length pat \<le> length txt \<and> take (length pat) (drop p txt) = pat"
  obtain i where i: "i < length [0..<Suc (length txt)]" "?P ([0..<Suc (length txt)] ! i)" "p = [0..<Suc (length txt)] ! i"
      "\<forall>j<i. \<not> ?P ([0..<Suc (length txt)] ! j)"
    using assms unfolding find_from_def find_Some_iff by blast
  then have pi: "p = i" by (simp del: upt_Suc)
  then show len: "p + length pat \<le> length txt" using i by (simp del: upt_Suc)
  have "take (length pat) (drop p txt) = pat" using i pi by (simp del: upt_Suc)
  then have "drop p txt = pat @ drop (length pat) (drop p txt)" by (metis append_take_drop_id)
  then show "txt = take p txt @ pat @ drop (p + length pat) txt"
    by (metis append_take_drop_id drop_drop add.commute)
  show "p \<le> length a" if "txt = a @ pat @ b"
  proof (rule ccontr)
    assume "\<not> p \<le> length a"
    then have "\<not> ?P ([0..<Suc (length txt)] ! length a)" using i(1,4) pi by (simp del: upt_Suc)
    moreover have "[0..<Suc (length txt)] ! length a = length a" using that by (simp del: upt_Suc)
    ultimately show False using that by simp
  qed
qed

lemma find_from_none:
  assumes "find_from txt pat 0 = None"
  shows "txt \<noteq> a @ pat @ b"
proof
  assume eq: "txt = a @ pat @ b"
  have "length a \<in> set [0..<Suc (length txt)]" by (simp add: eq del: upt_Suc)
  with assms have "\<not> (length a + length pat \<le> length txt \<and> take (length pat) (drop (length a) txt) = pat)"
    unfolding find_from_def find_None_iff by blast
  then show False by (simp add: eq)
qed

text \<open>What a redaction leaves of a word of key characters was there before.\<close>

lemma redaction_creates_no_word:
  assumes "list_all is_key_character w" "8 < length w" "sublist w (pre @ redact_prefixed_tokens c cs n up rest)"
  shows "sublist w (pre @ rest)"
  using assms
proof (induction c cs n up rest arbitrary: pre rule: redact_prefixed_tokens.induct)
  case (1 c cs n up rest)
  show ?case
  proof (cases "find_from rest (c # cs) 0")
    case None
    then show ?thesis using "1.prems" by (simp add: redact_prefixed_tokens.simps)
  next
    case (Some p)
    define after where "after = drop (p + length (c # cs)) rest"
    define run where "run = takeWhile (token_character up) after"
    show ?thesis
    proof (cases "length run < n")
      case True
      then have "redact_prefixed_tokens c cs n up rest =
          take (p + length (c # cs)) rest @ redact_prefixed_tokens c cs n up after"
        using Some by (subst redact_prefixed_tokens.simps) (simp add: after_def run_def)
      then have "sublist w ((pre @ take (p + length (c # cs)) rest) @ redact_prefixed_tokens c cs n up after)"
        using "1.prems"(3) by simp
      from "1.IH"(1) [OF Some after_def run_def True "1.prems"(1,2) this]
      show ?thesis by (simp add: after_def)
    next
      case False
      then have "redact_prefixed_tokens c cs n up rest =
          take p rest @ kRedactionMarker @ redact_prefixed_tokens c cs n up (drop (length run) after)"
        using Some by (subst redact_prefixed_tokens.simps) (simp add: after_def run_def)
      then have "sublist w (pre @ take p rest) \<or> sublist w (redact_prefixed_tokens c cs n up (drop (length run) after))"
        using sublist_beside_marker [of w "pre @ take p rest"] "1.prems" by simp
      then show ?thesis
      proof
        assume "sublist w (pre @ take p rest)"
        moreover have "sublist (pre @ take p rest) (pre @ rest)"
          by (metis append.assoc append_take_drop_id sublist_appendI append_Nil)
        ultimately show ?thesis using sublist_order.order_trans by blast
      next
        assume "sublist w (redact_prefixed_tokens c cs n up (drop (length run) after))"
        then have "sublist w (drop (length run) after)"
          using "1.IH"(2) [OF Some after_def run_def False "1.prems"(1,2), of "[]"] by simp
        moreover have "sublist (drop (length run) after) (pre @ rest)"
          by (simp add: after_def sublist_drop sublist_append)
        ultimately show ?thesis using sublist_order.order_trans by blast
      qed
    qed
  qed
qed

text \<open>
  The loop removes every token: in the text behind \<open>pre\<close> none may start, and ahead each
  occurrence of the prefix is looked at.
\<close>

lemma redaction_removes_tokens:
  assumes "list_all (token_character up) (c # cs)" "8 < length (c # cs) + n"
    and "\<And>a w b. is_token (c # cs) n up w \<Longrightarrow> pre @ rest = a @ w @ b \<Longrightarrow> length pre \<le> length a"
    and "is_token (c # cs) n up w"
  shows "\<not> sublist w (pre @ redact_prefixed_tokens c cs n up rest)"
  using assms
proof (induction c cs n up rest arbitrary: pre w rule: redact_prefixed_tokens.induct)
  case (1 c cs n up rest)
  have keys: "list_all is_key_character w" "8 < length w" if "is_token (c # cs) n up w" for w
    using that "1.prems"(1,2) by (auto simp: is_token_def token_character_def list_all_iff)
  have ahead: "\<exists>a'. a = pre @ a' \<and> rest = a' @ (c # cs) @ v @ b"
    if "pre @ rest = a @ w @ b" "w = (c # cs) @ v" "is_token (c # cs) n up w" for a w b v
    using "1.prems"(3) [OF that(3,1)] that(1,2) by (auto simp: append_eq_append_conv2)
  show ?case
  proof (cases "find_from rest (c # cs) 0")
    case None
    have "\<not> sublist w (pre @ rest)"
    proof
      assume "sublist w (pre @ rest)"
      then obtain a b where "pre @ rest = a @ w @ b" by (auto simp: sublist_def)
      moreover obtain v where "w = (c # cs) @ v" using "1.prems"(4) by (auto simp: is_token_def)
      ultimately obtain a' where "rest = a' @ (c # cs) @ v @ b" using ahead "1.prems"(4) by blast
      then show False using find_from_none [OF None] by blast
    qed
    then show ?thesis using None by (simp add: redact_prefixed_tokens.simps)
  next
    case (Some p)
    define after where "after = drop (p + length (c # cs)) rest"
    define run where "run = takeWhile (token_character up) after"
    note first = find_from_first [OF Some]
    show ?thesis
    proof (cases "length run < n")
      case True
      let ?pre = "pre @ take (p + length (c # cs)) rest"
      have out: "redact_prefixed_tokens c cs n up rest =
          take (p + length (c # cs)) rest @ redact_prefixed_tokens c cs n up after"
        using Some True by (subst redact_prefixed_tokens.simps) (simp add: after_def run_def)
      have "length ?pre \<le> length a" if tok: "is_token (c # cs) n up w" "?pre @ after = a @ w @ b" for a w b
      proof (rule ccontr)
        assume short: "\<not> length ?pre \<le> length a"
        obtain v where v: "w = (c # cs) @ v" "length v = n" "list_all (token_character up) v"
          using tok(1) by (auto simp: is_token_def)
        have "pre @ rest = a @ w @ b" using tok(2) by (simp add: after_def)
        from ahead [OF this v(1) tok(1)] obtain a' where a': "a = pre @ a'" "rest = a' @ (c # cs) @ v @ b" by blast
        then have le: "p \<le> length a'" using first(3) by blast
        moreover have "length a' < p + length (c # cs)" using short first(2) a'(1) by simp
        ultimately obtain d where d: "d \<le> length (c # cs)" "p + length (c # cs) = length a' + d"
          using that [of "p + length (c # cs) - length a'"] by simp
        then have "after = (drop d (c # cs) @ v) @ b" unfolding after_def d(2) by (subst a'(2)) (simp add: drop_Cons split: nat.splits)
        moreover have "list_all (token_character up) (drop d (c # cs) @ v)"
          using list_all_drop [OF "1.prems"(1), of d] v(3) by simp
        ultimately have "length (drop d (c # cs) @ v) \<le> length run"
          unfolding run_def by (simp add: takeWhile_append2 list_all_iff)
        then show False using True le v(2) by simp
      qed
      from "1.IH"(1) [OF Some after_def run_def True "1.prems"(1,2) this "1.prems"(4)]
      show ?thesis by (simp add: out)
    next
      case False
      have out: "redact_prefixed_tokens c cs n up rest =
          take p rest @ kRedactionMarker @ redact_prefixed_tokens c cs n up (drop (length run) after)"
        using Some False by (subst redact_prefixed_tokens.simps) (simp add: after_def run_def)
      have "\<not> sublist w (pre @ take p rest)"
      proof
        assume "sublist w (pre @ take p rest)"
        then obtain a b where "pre @ take p rest = a @ w @ b" by (auto simp: sublist_def)
        then have eq: "pre @ rest = a @ w @ b @ drop p rest" and short: "length a + length w \<le> length pre + p"
          using first(2) by (metis append.assoc append_take_drop_id, metis (no_types, lifting) add_leE le_add1 length_append length_take min.absorb2 nat_add_left_cancel_le add.assoc)
        obtain v where v: "w = (c # cs) @ v" using "1.prems"(4) by (auto simp: is_token_def)
        from ahead [OF eq v "1.prems"(4)] obtain a' where "a = pre @ a'" "rest = a' @ (c # cs) @ v @ b @ drop p rest" by auto
        then show False using first(3) [of a'] short v by simp
      qed
      moreover have "\<not> sublist w (redact_prefixed_tokens c cs n up (drop (length run) after))"
        using "1.IH"(2) [OF Some after_def run_def False "1.prems"(1,2) _ "1.prems"(4), of "[]"] by simp
      ultimately show ?thesis
        using sublist_beside_marker [of w "pre @ take p rest"] keys [OF "1.prems"(4)] by (auto simp: out)
    qed
  qed
qed

section \<open>Lines\<close>

lemma split_lines_nonempty: "split_lines txt \<noteq> []"
  by (induction "txt") (auto split: list.splits)

lemma joined_lines_Cons: "joined_lines (l # ls) = (if ls = [] then l else l @ line_feed # joined_lines ls)"
  by (cases ls) simp_all

lemma join_split_lines: "joined_lines (split_lines txt) = txt"
proof (induction "txt")
  case (Cons c cs)
  obtain l ls where "split_lines cs = l # ls" using split_lines_nonempty by (cases "split_lines cs") auto
  then show ?case using Cons by (auto simp: joined_lines_Cons)
qed simp

lemma joined_lines_append:
  "joined_lines (as @ bs) = (if as = [] then joined_lines bs else if bs = [] then joined_lines as
     else joined_lines as @ line_feed # joined_lines bs)"
  by (induction as) (auto simp: joined_lines_Cons)

lemma split_lines_last: "txt \<noteq> [] \<Longrightarrow> last txt = line_feed \<Longrightarrow> last (split_lines txt) = []"
proof (induction "txt")
  case (Cons c cs)
  obtain l ls where ls: "split_lines cs = l # ls" using split_lines_nonempty by (cases "split_lines cs") auto
  show ?case
  proof (cases "cs = []")
    case False
    then have "last (split_lines cs) = []" using Cons by simp
    moreover have "ls \<noteq> [] \<or> c = line_feed \<or> l = []" using calculation ls by auto
    moreover have "ls \<noteq> []" if "l = []" "c \<noteq> line_feed"
      using False that ls Cons.prems join_split_lines [of cs] by auto
    ultimately show ?thesis using ls by auto
  qed (use Cons.prems in auto)
qed simp

lemma split_lines_many: "line_feed \<in> set txt \<Longrightarrow> 1 < length (split_lines txt)"
  by (induction "txt") (auto simp: split_lines_nonempty split: list.splits)

lemma counted_lines_empty: "split_lines_for_counting content = [] \<longleftrightarrow> content = []"
proof (cases "content = []")
  case False
  moreover have "butlast (split_lines content) \<noteq> []" if "last content = line_feed"
  proof -
    have "1 < length (split_lines content)" using split_lines_many [of content] last_in_set [OF False] that by simp
    then show ?thesis by (simp flip: length_0_conv)
  qed
  ultimately show ?thesis by (simp add: split_lines_for_counting_def split_lines_nonempty)
qed (simp add: split_lines_for_counting_def)

text \<open>The counted lines, joined: the content without a final line feed.\<close>

lemma join_counted_lines:
  "joined_lines (split_lines_for_counting content) =
     (if content \<noteq> [] \<and> last content = line_feed then butlast content else content)"
proof (cases "content \<noteq> [] \<and> last content = line_feed")
  case True
  let ?ls = "split_lines content"
  have "?ls = butlast ?ls @ [[]]"
    using True split_lines_nonempty split_lines_last by (metis append_butlast_last_id)
  then have "content = (if butlast ?ls = [] then [] else joined_lines (butlast ?ls) @ [line_feed])"
    using join_split_lines [of content] joined_lines_append [of "butlast ?ls" "[[]]"] by (auto split: if_splits)
  then have "butlast content = joined_lines (butlast ?ls)" using True by (metis butlast_snoc)
  then show ?thesis using True by (simp add: split_lines_for_counting_def)
qed (auto simp: split_lines_for_counting_def join_split_lines)

lemma head_loop_result:
  assumes "head_loop limit kept ls kept_bytes = (out, by)" "kept_bytes = length (joined_lines kept)"
    "kept_bytes \<le> ol_max_bytes limit" "length kept \<le> ol_max_lines limit"
  shows "\<exists>k\<le>length ls. out = kept @ take k ls \<and> length (joined_lines out) \<le> ol_max_bytes limit \<and>
    length out \<le> ol_max_lines limit \<and>
    (k < length ls \<longrightarrow> (by = ByLines \<and> length out = ol_max_lines limit) \<or>
       (by = ByBytes \<and> ol_max_bytes limit < length (joined_lines (kept @ take (Suc k) ls))))"
  using assms
proof (induction limit kept ls kept_bytes rule: head_loop.induct)
  case (1 limit kept kept_bytes)
  then show ?case by simp
next
  case (2 limit kept l ls kept_bytes)
  let ?b = "length l + (if kept = [] then 0 else 1)"
  have b: "length (joined_lines (kept @ [l])) = kept_bytes + ?b"
    using "2.prems"(2) by (simp add: joined_lines_append)
  consider "\<not> length kept < ol_max_lines limit" | "length kept < ol_max_lines limit" "kept_bytes + ?b > ol_max_bytes limit"
    | "length kept < ol_max_lines limit" "kept_bytes + ?b \<le> ol_max_bytes limit" by linarith
  then show ?case
  proof cases
    case 1
    then show ?thesis using "2.prems" by (intro exI [of _ 0]) auto
  next
    case 2
    then show ?thesis using "2.prems" b by (intro exI [of _ 0]) (simp add: Let_def)
  next
    case 3
    then have "head_loop limit (kept @ [l]) ls (kept_bytes + ?b) = (out, by)" using "2.prems"(1) by simp
    from "2.IH" [OF 3(1) refl _ this b [symmetric] 3(2)] 3
    obtain k where "k \<le> length ls" "out = (kept @ [l]) @ take k ls" "length (joined_lines out) \<le> ol_max_bytes limit"
        "length out \<le> ol_max_lines limit"
        "k < length ls \<longrightarrow> (by = ByLines \<and> length out = ol_max_lines limit) \<or>
           (by = ByBytes \<and> ol_max_bytes limit < length (joined_lines ((kept @ [l]) @ take (Suc k) ls)))"
      unfolding not_less length_append_singleton Suc_le_eq by blast
    then show ?thesis by (intro exI [of _ "Suc k"]) simp
  qed
qed

lemma tail_walk_le: "tail_walk txt max_bytes max_lines n bytes lines \<le> n"
  by (induction n arbitrary: bytes lines) (auto intro: le_SucI)

lemma tail_walk_bytes:
  "bytes \<le> max_bytes \<Longrightarrow> n - tail_walk txt max_bytes max_lines n bytes lines + bytes \<le> max_bytes"
proof (induction n arbitrary: bytes lines)
  case (Suc n)
  have "Suc n - tail_walk txt max_bytes max_lines n (bytes + 1) k + bytes \<le> max_bytes" if "bytes < max_bytes" for k
    using Suc.IH [of "bytes + 1" k] that tail_walk_le [of "txt" max_bytes max_lines n "bytes + 1" k] by simp
  then show ?case using Suc.prems by simp
qed simp

lemma utf8_tail_within: "length (drop (utf8_tail_start l max_bytes max_lines) l) \<le> max_bytes"
  using tail_walk_bytes [of 0 max_bytes "length l" l max_lines 1]
  by (auto simp: utf8_tail_start_def skip_continuation_def)

lemma tail_loop_result:
  assumes "tail_loop limit kept ls kept_bytes = (out, partial, by)" "kept_bytes = length (joined_lines kept)"
    "kept_bytes \<le> ol_max_bytes limit" "length kept \<le> ol_max_lines limit"
  shows "length (joined_lines out) \<le> ol_max_bytes limit \<and> length out \<le> ol_max_lines limit \<and>
    (if partial then kept = [] \<and> ls \<noteq> [] \<and> ol_max_bytes limit < length (hd ls) \<and> by = ByBytes \<and> (\<exists>s. out = [drop s (hd ls)])
     else \<exists>k\<le>length ls. out = rev (take k ls) @ kept \<and>
       (k < length ls \<longrightarrow> (by = ByLines \<and> length out = ol_max_lines limit) \<or>
          (by = ByBytes \<and> ol_max_bytes limit < length (joined_lines (rev (take (Suc k) ls) @ kept)))))"
  using assms
proof (induction limit kept ls kept_bytes rule: tail_loop.induct)
  case (1 limit kept kept_bytes)
  then show ?case by simp
next
  case (2 limit kept l ls kept_bytes)
  let ?b = "length l + (if kept = [] then 0 else 1)"
  have b: "length (joined_lines (l # kept)) = kept_bytes + ?b"
    using "2.prems"(2) by (simp add: joined_lines_Cons)
  consider "\<not> length kept < ol_max_lines limit"
    | "length kept < ol_max_lines limit" "kept_bytes + ?b > ol_max_bytes limit" "kept = []"
    | "length kept < ol_max_lines limit" "kept_bytes + ?b > ol_max_bytes limit" "kept \<noteq> []"
    | "length kept < ol_max_lines limit" "kept_bytes + ?b \<le> ol_max_bytes limit" by linarith
  then show ?case
  proof cases
    case 1
    then show ?thesis using "2.prems" by auto
  next
    case 2
    then show ?thesis using "2.prems" b utf8_tail_within [of l "ol_max_bytes limit"] by auto
  next
    case 3
    then show ?thesis using "2.prems" b by auto
  next
    case 4
    then have step: "tail_loop limit (l # kept) ls (kept_bytes + ?b) = (out, partial, by)" using "2.prems"(1) by simp
    have "length (l # kept) \<le> ol_max_lines limit" using 4(1) by simp
    note IH = "2.IH" [OF 4(1) refl _ step b [symmetric] 4(2) this, unfolded not_less, OF 4(2)]
    have full: "\<not> partial" using IH by (cases partial) auto
    with IH obtain k where "k \<le> length ls" "out = rev (take k ls) @ l # kept"
        "k < length ls \<longrightarrow> (by = ByLines \<and> length out = ol_max_lines limit) \<or>
           (by = ByBytes \<and> ol_max_bytes limit < length (joined_lines (rev (take (Suc k) ls) @ l # kept)))"
      by (metis (no_types, lifting))
    then have "\<exists>k\<le>length (l # ls). out = rev (take k (l # ls)) @ kept \<and>
       (k < length (l # ls) \<longrightarrow> (by = ByLines \<and> length out = ol_max_lines limit) \<or>
          (by = ByBytes \<and> ol_max_bytes limit < length (joined_lines (rev (take (Suc k) (l # ls)) @ kept))))"
      by (intro exI [of _ "Suc k"]) simp
    with IH full show ?thesis by (metis (no_types, lifting))
  qed
qed

section \<open>Properties\<close>

lemma bounded_utf8_length: "length (bounded_utf8 txt n) \<le> n"
  using bounded_utf8_loop_valid [of "[]" n "[]" "txt"] by (simp add: bounded_utf8_def)

lemma bounded_text_length: "length (bounded_text txt max_bytes ending force) \<le> max_bytes"
  using bounded_utf8_length [of "txt" max_bytes] bounded_utf8_length [of ending max_bytes]
    bounded_utf8_length [of "txt" "max_bytes - length ending"]
  by (auto simp: bounded_text_def)

lemma bounded_redacted_length: "length (bounded_redacted_text max_size txt max_bytes ending lookahead) \<le> max_bytes"
proof -
  define content where "content = (if max_bytes > length ending then max_bytes - length ending else 0)"
  have "bounded_redacted_text max_size txt max_bytes ending lookahead = [] \<or>
    (\<exists>t force. bounded_redacted_text max_size txt max_bytes ending lookahead = bounded_text t max_bytes ending force) \<or>
    (\<exists>t. bounded_redacted_text max_size txt max_bytes ending lookahead =
        bounded_utf8 t (content - length kRedactionMarker) @ kRedactionMarker @ ending \<and> length kRedactionMarker \<le> content)"
    unfolding bounded_redacted_text_def Let_def content_def [symmetric] by auto
  then show ?thesis
  proof (elim disjE exE conjE)
    fix t
    assume "bounded_redacted_text max_size txt max_bytes ending lookahead =
        bounded_utf8 t (content - length kRedactionMarker) @ kRedactionMarker @ ending" "length kRedactionMarker \<le> content"
    moreover from this(2) have "content + length ending = max_bytes"
      by (cases "max_bytes > length ending") (simp_all add: content_def kRedactionMarker_def)
    ultimately show ?thesis using bounded_utf8_length [of t "content - length kRedactionMarker"] by simp
  qed (simp_all add: bounded_text_length)
qed

text \<open>
  C40. No secret token survives \<open>redact_text\<close>: its output contains neither \<^verbatim>\<open>sk-\<close> followed by eight key
  characters nor \<^verbatim>\<open>AKIA\<close> followed by sixteen digits or upper-case letters, wherever they stood in the
  input and whatever the redacted pieces leave side by side. The bounded form keeps its budget of
  bytes, the suffix and a marker at the cut included.
\<close>

theorem redacted_text_has_no_token:
  "\<not> (\<exists>v. length v = 8 \<and> list_all is_key_character v \<and> sublist (''sk-'' @ v) (redact_text txt)) \<and>
   \<not> (\<exists>v. length v = 16 \<and> list_all (\<lambda>c. isdigit c \<or> isupper c) v \<and> sublist (''AKIA'' @ v) (redact_text txt)) \<and>
   length (bounded_redacted_text max_size txt max_bytes ending lookahead) \<le> max_bytes"
proof (intro conjI)
  define mid where "mid = redact_prefixed_tokens (CHR ''s'') ''k-'' 8 False (redact_assignments txt)"
  have out: "redact_text txt = redact_prefixed_tokens (CHR ''A'') ''KIA'' 16 True mid"
    by (simp add: redact_text_def mid_def)
  show "\<not> (\<exists>v. length v = 8 \<and> list_all is_key_character v \<and> sublist (''sk-'' @ v) (redact_text txt))"
  proof
    assume "\<exists>v. length v = 8 \<and> list_all is_key_character v \<and> sublist (''sk-'' @ v) (redact_text txt)"
    then obtain v where v: "length v = 8" "list_all is_key_character v" "sublist (''sk-'' @ v) (redact_text txt)" by blast
    have sk: "list_all is_key_character ''sk-''" by code_simp
    have "sublist (''sk-'' @ v) mid"
      using redaction_creates_no_word [of "''sk-'' @ v" "[]"] v sk by (simp add: out)
    moreover have "is_token (CHR ''s'' # ''k-'') 8 False (''sk-'' @ v)"
      using v(1,2) by (auto simp: is_token_def token_character_def list_all_iff)
    ultimately show False
      using redaction_removes_tokens [of False "CHR ''s''" "''k-''" 8 "[]" "redact_assignments txt" "''sk-'' @ v"] sk
      by (simp add: mid_def token_character_def)
  qed
  show "\<not> (\<exists>v. length v = 16 \<and> list_all (\<lambda>c. isdigit c \<or> isupper c) v \<and> sublist (''AKIA'' @ v) (redact_text txt))"
  proof
    assume "\<exists>v. length v = 16 \<and> list_all (\<lambda>c. isdigit c \<or> isupper c) v \<and> sublist (''AKIA'' @ v) (redact_text txt)"
    then obtain v where v: "length v = 16" "list_all (\<lambda>c. isdigit c \<or> isupper c) v" "sublist (''AKIA'' @ v) (redact_text txt)"
      by blast
    have "is_token (CHR ''A'' # ''KIA'') 16 True (''AKIA'' @ v)"
      using v(1,2) by (auto simp: is_token_def token_character_def is_key_character_def isalnum_def list_all_iff)
    moreover have "list_all (token_character True) (CHR ''A'' # ''KIA'')" by code_simp
    ultimately show False
      using redaction_removes_tokens [of True "CHR ''A''" "''KIA''" 16 "[]" mid "''AKIA'' @ v"] v(3) by (simp add: out)
  qed
  show "length (bounded_redacted_text max_size txt max_bytes ending lookahead) \<le> max_bytes"
    by (rule bounded_redacted_length)
qed

text \<open>What the two truncations return when the content is over a limit.\<close>

lemma truncate_head_over:
  assumes "length (split_lines_for_counting content) > ol_max_lines limit \<or> length content > ol_max_bytes limit"
    and "lines = split_lines_for_counting content" "res = truncate_output_head content limit"
  shows "ot_truncated res \<and> length (ot_text res) \<le> ol_max_bytes limit \<and> ot_output_lines res \<le> ol_max_lines limit \<and>
    (\<exists>k\<le>length lines. ot_output_lines res = k \<and> ot_text res = joined_lines (take k lines) \<and>
       (k < length lines \<longrightarrow>
          (if ot_truncated_by res = Some ByLines then k = ol_max_lines limit
           else ol_max_bytes limit < length (joined_lines (take (Suc k) lines)))))"
proof -
  have over: "\<not> (length lines \<le> ol_max_lines limit \<and> length content \<le> ol_max_bytes limit)" using assms(1,2) by auto
  then have "lines \<noteq> []"
    using assms(2) counted_lines_empty [of content] by auto
  then obtain l ls where lines: "lines = l # ls" by (cases lines) auto
  show ?thesis
  proof (cases "length (hd lines) > ol_max_bytes limit")
    case True
    have "res = (untruncated_result content (length lines) limit)\<lparr>ot_text := [], ot_truncated := True,
        ot_truncated_by := Some ByBytes, ot_output_lines := 0, ot_output_bytes := 0, ot_first_line_exceeds_limit := True\<rparr>"
      unfolding assms(3) truncate_output_head_def Let_def assms(2) [symmetric] using over True by (simp only: if_False if_True)
    then show ?thesis using True lines by (intro conjI exI [of _ 0]) (simp_all add: untruncated_result_def)
  next
    case False
    obtain kept by' where loop: "head_loop limit [] lines 0 = (kept, by')" by fastforce
    have res: "res = (untruncated_result content (length lines) limit)\<lparr>ot_text := joined_lines kept, ot_truncated := True,
        ot_truncated_by := Some by', ot_output_lines := length kept, ot_output_bytes := length (joined_lines kept)\<rparr>"
      unfolding assms(3) truncate_output_head_def Let_def assms(2) [symmetric] if_not_P [OF over] if_not_P [OF False] loop by simp
    from head_loop_result [OF loop, unfolded append_Nil, simplified] obtain k where "k \<le> length lines" "kept = take k lines"
        "length (joined_lines kept) \<le> ol_max_bytes limit" "length kept \<le> ol_max_lines limit"
        "k < length lines \<longrightarrow> (by' = ByLines \<and> length kept = ol_max_lines limit) \<or>
           (by' = ByBytes \<and> ol_max_bytes limit < length (joined_lines (take (Suc k) lines)))"
      by blast
    then show ?thesis unfolding res by (intro conjI exI [of _ k]) auto
  qed
qed

lemma truncate_tail_over:
  assumes "length (split_lines_for_counting content) > ol_max_lines limit \<or> length content > ol_max_bytes limit"
    and "lines = split_lines_for_counting content" "res = truncate_output_tail content limit"
  shows "ot_truncated res \<and> length (ot_text res) \<le> ol_max_bytes limit \<and> ot_output_lines res \<le> ol_max_lines limit \<and>
    (if ot_last_line_partial res
     then ol_max_bytes limit < length (last lines) \<and> suffix (ot_text res) (last lines)
     else \<exists>k\<le>length lines. ot_output_lines res = k \<and> ot_text res = joined_lines (drop (length lines - k) lines) \<and>
       (k < length lines \<longrightarrow>
          (if ot_truncated_by res = Some ByLines then k = ol_max_lines limit
           else ol_max_bytes limit < length (joined_lines (drop (length lines - Suc k) lines)))))"
proof -
  have over: "\<not> (length lines \<le> ol_max_lines limit \<and> length content \<le> ol_max_bytes limit)" using assms(1,2) by auto
  obtain kept partial by' where loop: "tail_loop limit [] (rev lines) 0 = (kept, partial, by')" by (metis prod_cases3)
  have res: "res = (untruncated_result content (length lines) limit)\<lparr>ot_text := joined_lines kept, ot_truncated := True,
      ot_truncated_by := Some by', ot_output_lines := length kept, ot_output_bytes := length (joined_lines kept),
      ot_last_line_partial := partial\<rparr>"
    unfolding assms(3) truncate_output_tail_def Let_def assms(2) [symmetric] if_not_P [OF over] loop by simp
  note tail = tail_loop_result [OF loop, simplified]
  show ?thesis
  proof (cases partial)
    case True
    then show ?thesis using tail by (auto simp: res hd_rev suffix_drop)
  next
    case False
    then obtain k where "k \<le> length lines" "kept = rev (take k (rev lines))"
        "k < length lines \<longrightarrow> (by' = ByLines \<and> length kept = ol_max_lines limit) \<or>
           (by' = ByBytes \<and> ol_max_bytes limit < length (joined_lines (rev (take (Suc k) (rev lines)))))"
      using tail by auto
    moreover from this have "kept = drop (length lines - k) lines" "length kept = k" by (simp_all add: take_rev)
    ultimately have "\<exists>k\<le>length lines. ot_output_lines res = k \<and> ot_text res = joined_lines (drop (length lines - k) lines) \<and>
       (k < length lines \<longrightarrow>
          (if ot_truncated_by res = Some ByLines then k = ol_max_lines limit
           else ol_max_bytes limit < length (joined_lines (drop (length lines - Suc k) lines))))"
      unfolding res by (intro exI [of _ k]) (auto simp: take_rev)
    then show ?thesis using False tail by (simp add: res)
  qed
qed

text \<open>
  Truncated output keeps both limits. \<open>truncate_output_head\<close> marks the result truncated exactly
  when the content exceeds a limit and then returns the first lines that fit, whole; the next line
  would exceed the limit it names. \<open>truncate_output_tail\<close> does the same with the last lines, or
  keeps an end of the last line when that line alone is over the byte limit. The lines are those of
  the content: joined, they are the content without a final line feed.
\<close>

theorem truncated_output_within_limits:
  "let lines = split_lines_for_counting content; head = truncate_output_head content limit;
       tail = truncate_output_tail content limit;
       over = (length lines > ol_max_lines limit \<or> length content > ol_max_bytes limit)
   in joined_lines lines = (if content \<noteq> [] \<and> last content = line_feed then butlast content else content) \<and>
      (ot_truncated head \<longleftrightarrow> over) \<and> (ot_truncated tail \<longleftrightarrow> over) \<and>
      (if over
       then length (ot_text head) \<le> ol_max_bytes limit \<and> ot_output_lines head \<le> ol_max_lines limit \<and>
            (\<exists>k\<le>length lines. ot_output_lines head = k \<and> ot_text head = joined_lines (take k lines) \<and>
               (k < length lines \<longrightarrow>
                  (if ot_truncated_by head = Some ByLines then k = ol_max_lines limit
                   else ol_max_bytes limit < length (joined_lines (take (Suc k) lines))))) \<and>
            length (ot_text tail) \<le> ol_max_bytes limit \<and> ot_output_lines tail \<le> ol_max_lines limit \<and>
            (if ot_last_line_partial tail
             then ol_max_bytes limit < length (last lines) \<and> suffix (ot_text tail) (last lines)
             else \<exists>k\<le>length lines. ot_output_lines tail = k \<and> ot_text tail = joined_lines (drop (length lines - k) lines) \<and>
               (k < length lines \<longrightarrow>
                  (if ot_truncated_by tail = Some ByLines then k = ol_max_lines limit
                   else ol_max_bytes limit < length (joined_lines (drop (length lines - Suc k) lines)))))
       else ot_text head = content \<and> ot_text tail = content)"
proof (cases "length (split_lines_for_counting content) > ol_max_lines limit \<or> length content > ol_max_bytes limit")
  case True
  from truncate_head_over [OF True refl refl] truncate_tail_over [OF True refl refl] join_counted_lines [of content] True
  show ?thesis unfolding Let_def if_P [OF True] by blast
next
  case False
  then have "truncate_output_head content limit = untruncated_result content (length (split_lines_for_counting content)) limit"
    "truncate_output_tail content limit = untruncated_result content (length (split_lines_for_counting content)) limit"
    by (simp_all add: truncate_output_head_def truncate_output_tail_def Let_def)
  with False join_counted_lines [of content] show ?thesis by (simp add: untruncated_result_def Let_def)
qed

theorem truncated_output_within_limits_witness:
  "ot_text (truncate_output_head (''ab'' @ [line_feed] @ ''cd'') \<lparr>ol_max_bytes = 3, ol_max_lines = 5\<rparr>) = ''ab'' \<and>
   length (ot_text (truncate_output_head (''ab'' @ [line_feed] @ ''cd'') \<lparr>ol_max_bytes = 3, ol_max_lines = 5\<rparr>)) \<le> 3"
proof -
  let ?c = "''ab'' @ [line_feed] @ ''cd''" and ?l = "\<lparr>ol_max_bytes = 3, ol_max_lines = 5\<rparr>"
  have "length (ot_text (truncate_output_head ?c ?l)) \<le> ol_max_bytes ?l"
  proof -
    have over: "length (split_lines_for_counting ?c) > ol_max_lines ?l \<or> length ?c > ol_max_bytes ?l" by simp
    show ?thesis using truncated_output_within_limits [of ?c ?l] unfolding Let_def if_P [OF over] by blast
  qed
  moreover have "ot_text (truncate_output_head ?c ?l) = ''ab''" by code_simp
  ultimately show ?thesis by simp
qed

end
