(* ===== verification/Context_View.thy ===== *)
theory Context_View
  imports Session_Transaction
begin

text \<open>
  \<^verbatim>\<open>src/src/durable/Session.cpp\<close>, \<^verbatim>\<open>Transaction::context_view\<close> and the functions around it: the
  messages a conversation shows the model, derived from its committed entries. Messages are JSON
  objects. \<^verbatim>\<open>std::map\<close> from targets to edits is a map, \<^verbatim>\<open>results\<close> an association list.
\<close>

section \<open>Messages\<close>

definition context_role :: "json \<Rightarrow> string" where
  "context_role m =
     (case as_object m of
        None \<Rightarrow> []
      | Some ob \<Rightarrow> (case find_member ob ''role'' of
                      None \<Rightarrow> []
                    | Some r \<Rightarrow> (case as_string r of None \<Rightarrow> [] | Some s \<Rightarrow> s)))"

text \<open>A member that is a string.\<close>

definition string_member :: "json members \<Rightarrow> string \<Rightarrow> string option" where
  "string_member ob key = Option.bind (find_member ob key) as_string"

definition missing_text :: string where
  "missing_text = ''Tool result unavailable: history ends before this call completed.''"

definition missing_result :: "json members \<Rightarrow> json \<Rightarrow> json" where
  "missing_result call assistant =
     (let result =
        [(''role'', JStr ''toolResult''), (''toolCallId'', the (at_key call ''id'')), (''toolName'', the (at_key call ''name'')),
         (''content'', JArr [JObj [(''type'', JStr ''text''), (''text'', JStr missing_text)]]), (''isError'', JBool True),
         (''details'', JObj [(''reason'', JStr ''missing_result'')])]
      in JObj (case Option.bind (as_object assistant) (\<lambda>source. find_member source ''timestamp'') of
                 None \<Rightarrow> result
               | Some t \<Rightarrow> fst (emplace result ''timestamp'' t)))"

section \<open>Ordering tool results\<close>

text \<open>The tool calls of an assistant message that have an id and a name.\<close>

definition is_call :: "json \<Rightarrow> json members option" where
  "is_call block =
     Option.bind (as_object block) (\<lambda>ob.
       if string_member ob ''type'' = Some ''toolCall'' \<and> contains_key ob ''id'' \<and> contains_key ob ''name''
       then Some ob else None)"

definition message_calls :: "json \<Rightarrow> json members list" where
  "message_calls m =
     (case Option.bind (Option.bind (as_object m) (\<lambda>ob. find_member ob ''content'')) as_array of
        None \<Rightarrow> []
      | Some blocks \<Rightarrow> List.map_filter is_call blocks)"

text \<open>The results up to the next assistant message, the first of each call id.\<close>

definition result_id :: "json \<Rightarrow> string option" where
  "result_id m =
     (if context_role m = ''toolResult'' then Option.bind (as_object m) (\<lambda>ob. string_member ob ''toolCallId'') else None)"

fun collect_results :: "json list \<Rightarrow> (string \<times> json) list \<Rightarrow> (string \<times> json) list" where
  "collect_results [] results = results"
| "collect_results (m # ms) results =
     (if context_role m = ''assistant'' then results
      else (case result_id m of
              None \<Rightarrow> collect_results ms results
            | Some i \<Rightarrow> collect_results ms (if map_of results i = None then results @ [(i, m)] else results)))"

definition call_result :: "json \<Rightarrow> (string \<times> json) list \<Rightarrow> json members \<Rightarrow> json" where
  "call_result m results call =
     (case Option.bind (string_member call ''id'') (map_of results) of
        None \<Rightarrow> missing_result call m
      | Some r \<Rightarrow> r)"

fun order_tool_results :: "json list \<Rightarrow> json list" where
  "order_tool_results [] = []"
| "order_tool_results (m # ms) =
     (if context_role m = ''toolResult'' then order_tool_results ms
      else if context_role m \<noteq> ''assistant'' then m # order_tool_results ms
      else m # map (call_result m (collect_results ms [])) (message_calls m) @ order_tool_results ms)"

section \<open>The view\<close>

record context_view =
  vw_head :: "entry_record option"
  vw_tail :: "int option"
  vw_entries :: "entry_record list"
  vw_contributions :: "json list list"
  vw_messages :: "json list"

definition empty_view :: context_view where
  "empty_view = \<lparr>vw_head = None, vw_tail = None, vw_entries = [], vw_contributions = [], vw_messages = []\<rparr>"

type_synonym edit_map = "int \<Rightarrow> context_edit option"

definition collect_edits :: "entry_record list \<Rightarrow> edit_map" where
  "collect_edits es = fold (\<lambda>edit edits. edits(ce_target edit := Some edit)) (concat (map en_edits es)) (\<lambda>_. None)"

definition is_system_message :: "json \<Rightarrow> bool" where
  "is_system_message m \<longleftrightarrow> context_role m = ''system''"

definition brings_system :: "entry_record \<Rightarrow> bool" where
  "brings_system e \<longleftrightarrow>
     (\<exists>m\<in>set (en_model e). is_system_message m) \<or>
     (\<exists>edit\<in>set (en_edits e). ce_action edit = ''replace'' \<and> (\<exists>m\<in>set (ce_messages edit). is_system_message m))"

fun find_baseline :: "entry_record option \<Rightarrow> entry_record list \<Rightarrow> json option" where
  "find_baseline head [] = None"
| "find_baseline head (e # es) =
     (if (case head of None \<Rightarrow> False | Some h \<Rightarrow> en_id e \<le> en_id h) then find_baseline head es
      else if en_kind e = ''pi.system'' then find is_system_message (en_model e)
      else if head = None \<and> brings_system e then None
      else find_baseline head es)"

text \<open>An assistant message whose turn did not finish is left out.\<close>

definition unfinished :: "json \<Rightarrow> bool" where
  "unfinished m \<longleftrightarrow>
     context_role m = ''assistant'' \<and>
     (case Option.bind (as_object m) (\<lambda>ob. string_member ob ''stopReason'') of
        None \<Rightarrow> False
      | Some stop \<Rightarrow> stop = ''aborted'' \<or> stop = ''error'' \<or> stop = ''deferred'')"

definition edited_model :: "edit_map \<Rightarrow> entry_record \<Rightarrow> json list" where
  "edited_model edits e =
     (case edits (en_id e) of
        None \<Rightarrow> en_model e
      | Some edit \<Rightarrow>
          if ce_action edit = ''omit'' then []
          else if ce_action edit = ''replace'' then ce_messages edit else en_model e)"

definition contribution_of :: "edit_map \<Rightarrow> entry_record \<Rightarrow> json list" where
  "contribution_of edits e = filter (\<lambda>m. \<not> unfinished m) (edited_model edits e)"

text \<open>A system message that follows only user messages, or is the baseline, goes to the front.\<close>

definition lift_system :: "json option \<Rightarrow> json list \<Rightarrow> json list" where
  "lift_system baseline ms =
     (let prior = takeWhile (\<lambda>m. \<not> is_system_message m) ms
      in case drop (length prior) ms of
           [] \<Rightarrow> ms
         | system # rest \<Rightarrow>
             if prior \<noteq> [] \<and>
                ((\<forall>m\<in>set prior. context_role m = ''user'') \<or>
                 (case baseline of None \<Rightarrow> False | Some b \<Rightarrow> json_eq b system))
             then system # prior @ rest else ms)"

text \<open>The entries up to the selected one, oldest first.\<close>

definition selected_entries ::
    "storage \<Rightarrow> transaction \<Rightarrow> int \<Rightarrow> int option \<Rightarrow> (tx_error, entry_record list) result" where
  "selected_entries s tx c sel =
     bind_r (reject_read tx) (\<lambda>_.
     bind_r (storage_call (scan_entries s c kUnlimited)) (\<lambda>listed.
     let visible = rev listed
     in case sel of
          None \<Rightarrow> Inr visible
        | Some i \<Rightarrow>
            (case find (\<lambda>e. en_id e = i) visible of
               None \<Rightarrow> Inl (EntryNotVisibleFrom i c)
             | Some e \<Rightarrow> Inr (takeWhile (\<lambda>e. en_id e \<noteq> i) visible @ [e]))))"

text \<open>The entries from the one the newest head marker names.\<close>

definition from_head :: "entry_record option \<Rightarrow> entry_record list \<Rightarrow> (tx_error, entry_record list) result" where
  "from_head head visible =
     (case head of
        None \<Rightarrow> Inr visible
      | Some h \<Rightarrow>
          let rest = dropWhile (\<lambda>e. Some (en_id e) \<noteq> en_head h) visible
          in if rest = [] then Inl ContextHeadNotVisible else Inr rest)"

definition build_view :: "entry_record option \<Rightarrow> int \<Rightarrow> entry_record list \<Rightarrow> context_view" where
  "build_view head tail visible =
     (let edits = collect_edits visible;
          entries = (case head of None \<Rightarrow> [] | Some h \<Rightarrow> [h]) @ filter (\<lambda>e. head = None \<or> en_head e = None) visible;
          contributions = map (contribution_of edits) entries
      in \<lparr>vw_head = head, vw_tail = Some tail, vw_entries = entries, vw_contributions = contributions,
          vw_messages = lift_system (find_baseline head entries) (order_tool_results (concat contributions))\<rparr>)"

definition context_view_at ::
    "storage \<Rightarrow> transaction \<Rightarrow> int \<Rightarrow> int option \<Rightarrow> (tx_error, context_view) result" where
  "context_view_at s tx c sel =
     bind_r (selected_entries s tx c sel) (\<lambda>visible.
     if visible = [] then Inr empty_view
     else let head = find_last (\<lambda>e. en_head e \<noteq> None) visible
          in bind_r (from_head head visible) (\<lambda>active. Inr (build_view head (en_id (last visible)) active)))"

definition context_messages ::
    "storage \<Rightarrow> transaction \<Rightarrow> int \<Rightarrow> int option \<Rightarrow> (tx_error, json list) result" where
  "context_messages s tx c sel = bind_r (context_view_at s tx c sel) (\<lambda>view. Inr (vw_messages view))"

section \<open>The older projection\<close>

text \<open>One message of \<^verbatim>\<open>conversation_messages\<close>: \<open>(messages, open)\<close> are the two lists of the loop.\<close>

definition add_message :: "json \<Rightarrow> json list \<times> json list \<Rightarrow> json list \<times> json list" where
  "add_message m acc =
     (case Option.bind (as_object m) (\<lambda>ob. string_member ob ''role'') of
        None \<Rightarrow> acc
      | Some role \<Rightarrow>
          if role = ''assistant''
          then (if unfinished m then acc else (fst acc @ snd acc, [m]))
          else (fst acc, snd acc @ [m]))"

definition add_entry :: "int option \<Rightarrow> edit_map \<Rightarrow> entry_record \<Rightarrow> json list \<times> json list \<Rightarrow> json list \<times> json list" where
  "add_entry head edits e acc =
     (let acc1 = (if en_kind e = ''pi.reset'' then ([], []) else acc)
      in if en_head e \<noteq> None \<and> Some (en_id e) \<noteq> head then acc1
         else if (case edits (en_id e) of None \<Rightarrow> False | Some edit \<Rightarrow> ce_action edit = ''omit'') then acc1
         else fold add_message (edited_model edits e) acc1)"

definition conversation_messages :: "storage \<Rightarrow> transaction \<Rightarrow> int \<Rightarrow> (tx_error, json list) result" where
  "conversation_messages s tx c =
     bind_r (selected_entries s tx c None) (\<lambda>entries.
     let head = find_last (\<lambda>e. en_head e \<noteq> None) entries
     in bind_r (from_head head entries) (\<lambda>active.
          case fold (add_entry (Option.bind head en_head) (collect_edits active)) active ([], []) of
            (messages, pending) \<Rightarrow> Inr (messages @ pending)))"

end
