(* ===== verification/Int64_Double.thy ===== *)
theory Int64_Double
  imports Chord_Json
begin

text \<open>
  The conversions between 64-bit integers and doubles that the encodings use: an integer becomes the
  nearest double, a double is cut towards zero. The cast of a double outside the range is undefined
  in C++ and a parameter.
\<close>

text \<open>The number of bits of a natural number.\<close>

fun bit_size :: "nat \<Rightarrow> nat" where
  "bit_size n = (if n = 0 then 0 else Suc (bit_size (n div 2)))"

declare bit_size.simps [simp del]

text \<open>\<^verbatim>\<open>static_cast<double>\<close> of an integer: 53 significant bits, ties to even.\<close>

definition double_of_int :: "int \<Rightarrow> dbl" where
  "double_of_int i =
     (if \<bar>i\<bar> \<le> 2 ^ 53 then DFin (of_int i)
      else let unit = 2 ^ (bit_size (nat \<bar>i\<bar>) - 53);
               q = \<bar>i\<bar> div unit; r = \<bar>i\<bar> mod unit;
               q' = (if 2 * r > unit \<or> 2 * r = unit \<and> odd q then q + 1 else q)
           in DFin (of_int (sgn i * q' * unit)))"

text \<open>\<^verbatim>\<open>static_cast<std::int64_t>\<close> of a double.\<close>

definition int64_of :: "(dbl \<Rightarrow> int) \<Rightarrow> dbl \<Rightarrow> int" where
  "int64_of undefined_cast d =
     (case dbl_value d of
        None \<Rightarrow> undefined_cast d
      | Some q \<Rightarrow>
          let t = (if q < 0 then - \<lfloor>- q\<rfloor> else \<lfloor>q\<rfloor>)
          in if - (2 ^ 63) \<le> t \<and> t < 2 ^ 63 then t else undefined_cast d)"

text \<open>Integers that are doubles: the round trip is exact.\<close>

definition exact_int :: "int \<Rightarrow> bool" where
  "exact_int i \<longleftrightarrow> \<bar>i\<bar> \<le> 2 ^ 53"

lemma exact_int_double: "exact_int i \<Longrightarrow> double_of_int i = DFin (of_int i)"
  by (simp add: exact_int_def double_of_int_def)

lemma int64_of_exact [simp]: "exact_int i \<Longrightarrow> int64_of undefined_cast (double_of_int i) = i"
  by (auto simp: exact_int_double int64_of_def Let_def exact_int_def)

lemma double_of_int_finite [simp]: "isfinite (double_of_int i)"
  by (simp add: double_of_int_def isfinite_def Let_def)

end
