(* ===== verification/Committed_Context.thy ===== *)
theory Committed_Context
  imports Context_View Json_Text Bounded_Text Int64_Double
begin

text \<open>
  \<^verbatim>\<open>src/src/durable/CommittedContext.cpp\<close>: estimates of the size of a context, the cut a compaction makes
  and the texts it summarizes. The file's own \<^verbatim>\<open>order_tool_results\<close> and \<^verbatim>\<open>missing_result\<close> are the same
  code as those of \<^verbatim>\<open>Session.cpp\<close>. Token counts are integers without overflow. \<^verbatim>\<open>ceil(chars / 3.5)\<close> is
  computed exactly, as the double computation is for every length below \<open>2 ^ 50\<close>. The cast of a double
  outside \<^verbatim>\<open>int64_t\<close> is undefined in C++ and a parameter here, like \<^verbatim>\<open>std::to_chars\<close>.
\<close>

definition message_role :: "json \<Rightarrow> string" where
  "message_role m =
     (case Option.bind (as_object m) (\<lambda>ob. find_member ob ''role'') of
        None \<Rightarrow> []
      | Some r \<Rightarrow> (case as_string r of None \<Rightarrow> [] | Some s \<Rightarrow> s))"

section \<open>Estimates\<close>

definition line_break :: string where
  "line_break = [CHR 0x0A]"

text \<open>The text of a content block of the given type.\<close>

definition text_block :: "json \<Rightarrow> string option" where
  "text_block block =
     Option.bind (as_object block) (\<lambda>ob.
       if string_member ob ''type'' = Some ''text'' then string_member ob ''text'' else None)"

definition content_text :: "json \<Rightarrow> string" where
  "content_text content =
     (case as_string content of
        Some t \<Rightarrow> t
      | None \<Rightarrow>
          (case as_array content of
             None \<Rightarrow> []
           | Some blocks \<Rightarrow>
               foldl (\<lambda>acc block.
                   case text_block block of
                     None \<Rightarrow> acc
                   | Some body \<Rightarrow> (if acc \<noteq> [] then acc @ line_break else acc) @ body) [] blocks))"

definition estimate_chars :: "nat \<Rightarrow> int" where
  "estimate_chars chars = int ((2 * chars + 6) div 7)"

definition estimate_json_chars :: "(dbl \<Rightarrow> string) \<Rightarrow> json \<Rightarrow> int" where
  "estimate_json_chars to_chars v = estimate_chars (length (write_json to_chars (to_support v)))"

definition block_tokens :: "(dbl \<Rightarrow> string) \<Rightarrow> json \<Rightarrow> int" where
  "block_tokens to_chars block =
     (case as_object block of
        None \<Rightarrow> 0
      | Some ob \<Rightarrow>
          (case string_member ob ''type'' of
             None \<Rightarrow> 0
           | Some kind \<Rightarrow>
               if kind = ''text'' \<or> kind = ''thinking''
               then (case string_member ob ''text'' of None \<Rightarrow> 0 | Some body \<Rightarrow> estimate_chars (length body))
               else if kind = ''image'' then 4800
               else if kind = ''toolCall''
               then (case string_member ob ''name'' of None \<Rightarrow> 0 | Some name \<Rightarrow> estimate_chars (length name)) +
                    (case find_member ob ''arguments'' of None \<Rightarrow> 0 | Some arguments \<Rightarrow> estimate_json_chars to_chars arguments)
               else 0))"

definition estimate_blocks_tokens :: "(dbl \<Rightarrow> string) \<Rightarrow> json \<Rightarrow> int" where
  "estimate_blocks_tokens to_chars content =
     (case as_array content of
        None \<Rightarrow> estimate_chars (length (content_text content))
      | Some blocks \<Rightarrow> sum_list (map (block_tokens to_chars) blocks))"

definition estimate_message_tokens :: "(dbl \<Rightarrow> string) \<Rightarrow> json \<Rightarrow> int" where
  "estimate_message_tokens to_chars m =
     (case as_object m of
        None \<Rightarrow> 0
      | Some ob \<Rightarrow>
          if message_role m = ''system''
          then (case string_member ob ''content'' of None \<Rightarrow> 0 | Some t \<Rightarrow> estimate_chars (length t)) +
               estimate_json_chars to_chars (case find_member ob ''toolsAdded'' of None \<Rightarrow> JArr [] | Some tools \<Rightarrow> tools)
          else estimate_blocks_tokens to_chars (case find_member ob ''content'' of None \<Rightarrow> JNull | Some content \<Rightarrow> content) +
               (if message_role m = ''toolResult''
                then (case string_member ob ''toolCallId'' of None \<Rightarrow> 0 | Some i \<Rightarrow> estimate_chars (length i)) else 0))"

text \<open>The flag of an infinity is its sign.\<close>

definition dbl_positive :: "dbl \<Rightarrow> bool" where
  "dbl_positive d =
     (case d of
        DInf negative \<Rightarrow> \<not> negative
      | _ \<Rightarrow> (case dbl_value d of None \<Rightarrow> False | Some q \<Rightarrow> q > 0))"

definition usage_column_sum :: "(dbl \<Rightarrow> int) \<Rightarrow> json members \<Rightarrow> int" where
  "usage_column_sum undefined_cast ob =
     sum_list (map (\<lambda>key. case Option.bind (find_member ob key) as_number of
                            None \<Rightarrow> 0 | Some d \<Rightarrow> int64_of undefined_cast d)
       [''input'', ''output'', ''cacheRead'', ''cacheWrite''])"

definition usage_context_tokens :: "(dbl \<Rightarrow> int) \<Rightarrow> json \<Rightarrow> int" where
  "usage_context_tokens undefined_cast usage =
     (case as_object usage of
        None \<Rightarrow> 0
      | Some ob \<Rightarrow>
          (case Option.bind (find_member ob ''totalTokens'') as_number of
             Some d \<Rightarrow> if dbl_positive d then int64_of undefined_cast d else usage_column_sum undefined_cast ob
           | None \<Rightarrow> usage_column_sum undefined_cast ob))"

text \<open>The newest measured assistant message appended after the head marker.\<close>

definition measured_usage :: "(dbl \<Rightarrow> int) \<Rightarrow> json \<Rightarrow> int option" where
  "measured_usage undefined_cast m =
     (if message_role m \<noteq> ''assistant'' then None
      else Option.bind (Option.bind (as_object m) (\<lambda>ob. find_member ob ''usage''))
        (\<lambda>usage. if usage_context_tokens undefined_cast usage \<le> 0 then None
                  else Some (usage_context_tokens undefined_cast usage)))"

definition find_measured :: "(dbl \<Rightarrow> int) \<Rightarrow> context_view \<Rightarrow> json option" where
  "find_measured undefined_cast view =
     find (\<lambda>m. measured_usage undefined_cast m \<noteq> None)
       (concat (map (\<lambda>(e, ms). rev ms)
          (filter (\<lambda>(e, ms). case vw_head view of None \<Rightarrow> True | Some h \<Rightarrow> en_id e > en_id h)
             (rev (zip (vw_entries view) (vw_contributions view))))))"

definition estimate_context_tokens ::
    "(dbl \<Rightarrow> string) \<Rightarrow> (dbl \<Rightarrow> int) \<Rightarrow> context_view \<Rightarrow> json list \<Rightarrow> int" where
  "estimate_context_tokens to_chars undefined_cast view extra =
     (let estimate = (\<lambda>ms. sum_list (map (estimate_message_tokens to_chars) ms))
      in (case find_measured undefined_cast view of
            None \<Rightarrow> estimate (vw_messages view)
          | Some m \<Rightarrow>
              the (measured_usage undefined_cast m) +
              estimate (if \<exists>x\<in>set (vw_messages view). json_eq x m
                        then rev (takeWhile (\<lambda>x. \<not> json_eq x m) (rev (vw_messages view)))
                        else vw_messages view)) +
         estimate extra)"

section \<open>The cut of a compaction\<close>

definition assistant_call_ids :: "json list \<Rightarrow> string list" where
  "assistant_call_ids contribution =
     (case find (\<lambda>m. message_role m = ''assistant'') (rev contribution) of
        None \<Rightarrow> []
      | Some m \<Rightarrow>
          (case Option.bind (Option.bind (as_object m) (\<lambda>ob. find_member ob ''content'')) as_array of
             None \<Rightarrow> []
           | Some blocks \<Rightarrow>
               List.map_filter (\<lambda>block. Option.bind (as_object block) (\<lambda>ob.
                   if string_member ob ''type'' = Some ''toolCall'' then string_member ob ''id'' else None)) blocks))"

text \<open>
  The scan for a result of one of the calls: the messages from the candidate on, the first of which
  is the candidate's own and is not tested for being an assistant.
\<close>

fun no_result_before_assistant :: "string list \<Rightarrow> bool \<Rightarrow> json list \<Rightarrow> bool" where
  "no_result_before_assistant calls first [] = True"
| "no_result_before_assistant calls first (m # ms) =
     (if message_role m = ''assistant'' \<and> \<not> first then True
      else if (case result_id m of None \<Rightarrow> False | Some i \<Rightarrow> i \<in> set calls) then False
      else no_result_before_assistant calls False ms)"

definition preceding_calls :: "json list list \<Rightarrow> nat \<Rightarrow> string list" where
  "preceding_calls contributions index =
     (case find (\<lambda>c. \<exists>m\<in>set c. message_role m = ''assistant'') (rev (take index contributions)) of
        None \<Rightarrow> [] | Some c \<Rightarrow> assistant_call_ids c)"

definition is_candidate :: "json list list \<Rightarrow> nat \<Rightarrow> bool" where
  "is_candidate contributions index =
     (if index \<ge> length contributions \<or> contributions ! index = [] then False
      else let first = message_role (hd (contributions ! index))
           in if first = ''assistant'' then True
              else if first \<noteq> ''user'' then False
              else let calls = preceding_calls contributions index
                   in if calls = [] then True
                      else no_result_before_assistant calls True (concat (drop index contributions)))"

definition view_start :: "context_view \<Rightarrow> nat" where
  "view_start view = (if vw_head view = None then 0 else 1)"

text \<open>
  The loop from the newest entry down: the first index from which the kept messages reach the
  budget.
\<close>

fun budget_index :: "(json list \<Rightarrow> int) \<Rightarrow> json list list \<Rightarrow> nat \<Rightarrow> nat \<Rightarrow> int \<Rightarrow> int \<Rightarrow> nat option" where
  "budget_index tokens contributions start 0 kept keep = None"
| "budget_index tokens contributions start (Suc index) kept keep =
     (if Suc index \<le> start then None
      else let kept' = kept + tokens (contributions ! index)
           in if kept' < keep then budget_index tokens contributions start index kept' keep else Some index)"

definition select_cut :: "(dbl \<Rightarrow> string) \<Rightarrow> context_view \<Rightarrow> int \<Rightarrow> nat option" where
  "select_cut to_chars view keep_recent_tokens =
     (let contributions = vw_contributions view;
          start = view_start view;
          candidates = filter (is_candidate contributions) [start..<length contributions];
          tokens = (\<lambda>ms. sum_list (map (estimate_message_tokens to_chars) ms))
      in if candidates = [] then None
         else (case budget_index tokens contributions start (length contributions) 0 keep_recent_tokens of
                 None \<Rightarrow> None
               | Some index \<Rightarrow>
                   let cut = (case find (\<lambda>c. index \<le> c) candidates of None \<Rightarrow> last candidates | Some c \<Rightarrow> c)
                   in if \<exists>i\<in>set [start..<cut]. contributions ! i \<noteq> [] then Some cut else None))"

definition summarized_messages :: "context_view \<Rightarrow> nat \<Rightarrow> json list" where
  "summarized_messages view n = order_tool_results (concat (take n (vw_contributions view)))"

section \<open>The text for the summary\<close>

definition truncate_chars :: "string \<Rightarrow> nat \<Rightarrow> string" where
  "truncate_chars t max_chars =
     (let prefix = bounded_utf16_prefix t max_chars
      in if up_total_units prefix \<le> max_chars then up_text prefix
         else up_text prefix @ line_break @ line_break @ ''[... '' @ nat_digits (up_total_units prefix - max_chars) @
              '' more characters truncated]'')"

definition join_with :: "string \<Rightarrow> string list \<Rightarrow> string" where
  "join_with sep parts = foldl (\<lambda>acc part. (if acc \<noteq> [] then acc @ sep else acc) @ part) [] parts"

definition render_arguments :: "(dbl \<Rightarrow> string) \<Rightarrow> json \<Rightarrow> string" where
  "render_arguments to_chars arguments =
     (case as_object arguments of
        Some ob \<Rightarrow> join_with '', '' (map (\<lambda>(key, v). key @ ''='' @ write_json to_chars (to_support v)) ob)
      | None \<Rightarrow> write_json to_chars (to_support arguments))"

definition render_call :: "(dbl \<Rightarrow> string) \<Rightarrow> json \<Rightarrow> string option" where
  "render_call to_chars block =
     Option.bind (as_object block) (\<lambda>ob.
       if string_member ob ''type'' = Some ''toolCall''
       then Option.bind (find_member ob ''arguments'') (\<lambda>arguments.
              map_option (\<lambda>name. name @ ''('' @ render_arguments to_chars arguments @ '')'') (string_member ob ''name''))
       else None)"

definition message_parts :: "(dbl \<Rightarrow> string) \<Rightarrow> json \<Rightarrow> string list" where
  "message_parts to_chars m =
     (case as_object m of
        None \<Rightarrow> []
      | Some ob \<Rightarrow>
          let body = (case find_member ob ''content'' of None \<Rightarrow> JNull | Some content \<Rightarrow> content)
          in if message_role m = ''user''
             then (if content_text body \<noteq> [] then [''[User]: '' @ content_text body] else [])
             else if message_role m = ''assistant''
             then (let blocks = (case as_array body of None \<Rightarrow> [] | Some blocks \<Rightarrow> blocks);
                       texts = List.map_filter text_block blocks;
                       calls = List.map_filter (render_call to_chars) blocks
                   in (if texts \<noteq> [] then [''[Assistant]: '' @ join_with line_break texts] else []) @
                      (if calls \<noteq> [] then [''[Assistant tool calls]: '' @ join_with ''; '' calls] else []))
             else if message_role m = ''toolResult''
             then (if content_text body \<noteq> [] then [''[Tool result]: '' @ truncate_chars (content_text body) 2000] else [])
             else [])"

definition serialize_conversation :: "(dbl \<Rightarrow> string) \<Rightarrow> json list \<Rightarrow> string" where
  "serialize_conversation to_chars messages =
     join_with (line_break @ line_break) (concat (map (message_parts to_chars) messages))"

end
