(* ===== verification/Context_View_Laws.thy ===== *)
theory Context_View_Laws
  imports Context_View Session_Transaction_Laws
begin

text \<open>
  Deriving a context never fails on the entries a session has written: the entry a head marker names is
  always among the entries shown with the marker, in the conversation itself and in every fork.
\<close>

section \<open>Visibility through ancestry\<close>

lemma visible_loop_step:
  assumes "omap_find C cur = Some r" "cur \<notin> V"
  shows "entry_visible_loop C owner i V cur cut' \<longleftrightarrow>
    (if owner = cur then (case cut' of None \<Rightarrow> True | Some c \<Rightarrow> i \<le> c)
     else (case cv_parent r of None \<Rightarrow> False | Some (p, l) \<Rightarrow> entry_visible_loop C owner i (insert cur V) p (Some l)))"
  using assms by (subst entry_visible_loop.simps) (simp split: option.splits)

text \<open>The conversation at a position of the creation order, and the position of its parent.\<close>

lemma conversation_at:
  assumes "conversations_ok s" "k < length (st_conversation_ids s)"
  obtains r where "omap_find (st_conversations s) (st_conversation_ids s ! k) = Some r"
    "\<forall>p l. cv_parent r = Some (p, l) \<longrightarrow> (\<exists>j<k. st_conversation_ids s ! j = p)"
proof -
  let ?ids = "st_conversation_ids s"
  have "?ids ! k \<in> set ?ids" using assms(2) by simp
  then obtain r where r: "omap_find (st_conversations s) (?ids ! k) = Some r"
    using assms(1) by (fastforce simp: conversations_ok_def)
  moreover have "\<exists>j<k. ?ids ! j = p" if p: "cv_parent r = Some (p, l)" for p l
  proof -
    have "p \<in> set (take k ?ids)" using assms r p unfolding conversations_ok_def by blast
    then show ?thesis using assms(2) by (auto simp: in_set_conv_nth)
  qed
  ultimately show thesis using that by blast
qed

definition apart :: "storage \<Rightarrow> nat \<Rightarrow> int set \<Rightarrow> bool" where
  "apart s k V \<longleftrightarrow> V \<inter> set (take (Suc k) (st_conversation_ids s)) = {}"

lemma apart_step:
  assumes "conversations_ok s" "apart s k V" "j < k" "k < length (st_conversation_ids s)"
  shows "apart s j (insert (st_conversation_ids s ! k) V)" "st_conversation_ids s ! k \<notin> V"
    "st_conversation_ids s ! k \<notin> set (take (Suc j) (st_conversation_ids s))"
proof -
  let ?ids = "st_conversation_ids s"
  show new: "?ids ! k \<notin> set (take (Suc j) ?ids)"
    using assms by (auto simp: conversations_ok_def in_set_conv_nth distinct_conv_nth)
  have "set (take (Suc j) ?ids) \<subseteq> set (take (Suc k) ?ids)" by (rule set_take_subset_set_take) (use assms(3) in simp)
  then show "apart s j (insert (?ids ! k) V)" using new assms(2) by (auto simp: apart_def)
  show "?ids ! k \<notin> V" using assms(2,4) by (auto simp: apart_def take_Suc_nth)
qed

lemma apart_self: "apart s k V \<Longrightarrow> k < length (st_conversation_ids s) \<Longrightarrow> st_conversation_ids s ! k \<notin> V"
  by (auto simp: apart_def take_Suc_nth)

lemma visible_loop_visited:
  assumes "conversations_ok s"
  shows "k < length (st_conversation_ids s) \<Longrightarrow> apart s k V \<Longrightarrow> apart s k W \<Longrightarrow>
    entry_visible_loop (st_conversations s) owner i V (st_conversation_ids s ! k) cut' \<longleftrightarrow>
    entry_visible_loop (st_conversations s) owner i W (st_conversation_ids s ! k) cut'"
proof (induction k arbitrary: V W cut' rule: less_induct)
  case (less k)
  obtain r where r: "omap_find (st_conversations s) (st_conversation_ids s ! k) = Some r"
      "\<forall>p l. cv_parent r = Some (p, l) \<longrightarrow> (\<exists>j<k. st_conversation_ids s ! j = p)"
    using conversation_at [OF assms less.prems(1)] .
  note steps = visible_loop_step [OF r(1) apart_self [OF less.prems(2,1)]] visible_loop_step [OF r(1) apart_self [OF less.prems(3,1)]]
  show ?case
  proof (cases "cv_parent r")
    case None
    then show ?thesis by (simp add: steps)
  next
    case (Some pa)
    obtain p l where pa: "pa = (p, l)" by (cases pa)
    obtain j where j: "j < k" "st_conversation_ids s ! j = p" using r(2) Some pa by blast
    have "entry_visible_loop (st_conversations s) owner i (insert (st_conversation_ids s ! k) V) p (Some l) \<longleftrightarrow>
        entry_visible_loop (st_conversations s) owner i (insert (st_conversation_ids s ! k) W) p (Some l)"
      using less.IH [OF j(1) order_less_trans [OF j(1) less.prems(1)] apart_step(1) [OF assms less.prems(2) j(1) less.prems(1)]
          apart_step(1) [OF assms less.prems(3) j(1) less.prems(1)], of "Some l"]
      unfolding j(2) .
    then show ?thesis using Some pa by (simp add: steps)
  qed
qed

lemma visible_loop_owner:
  assumes "conversations_ok s"
  shows "k < length (st_conversation_ids s) \<Longrightarrow> apart s k V \<Longrightarrow>
    entry_visible_loop (st_conversations s) owner i V (st_conversation_ids s ! k) cut' \<Longrightarrow>
    owner \<in> set (take (Suc k) (st_conversation_ids s))"
proof (induction k arbitrary: V cut' rule: less_induct)
  case (less k)
  obtain r where r: "omap_find (st_conversations s) (st_conversation_ids s ! k) = Some r"
      "\<forall>p l. cv_parent r = Some (p, l) \<longrightarrow> (\<exists>j<k. st_conversation_ids s ! j = p)"
    using conversation_at [OF assms less.prems(1)] .
  note step = visible_loop_step [OF r(1) apart_self [OF less.prems(2,1)]]
  show ?case
  proof (cases "owner = st_conversation_ids s ! k")
    case True
    then show ?thesis using less.prems(1) by (simp add: take_Suc_nth)
  next
    case False
    then obtain p l where p: "cv_parent r = Some (p, l)"
        "entry_visible_loop (st_conversations s) owner i (insert (st_conversation_ids s ! k) V) p (Some l)"
      using less.prems(3) step by (auto split: option.splits)
    obtain j where j: "j < k" "st_conversation_ids s ! j = p" using r(2) p(1) by blast
    have "owner \<in> set (take (Suc j) (st_conversation_ids s))"
      using less.IH [OF j(1) order_less_trans [OF j(1) less.prems(1)] apart_step(1) [OF assms less.prems(2) j(1) less.prems(1)]] p(2)
      unfolding j(2) .
    moreover have "set (take (Suc j) (st_conversation_ids s)) \<subseteq> set (take (Suc k) (st_conversation_ids s))"
      by (rule set_take_subset_set_take) (use j in simp)
    ultimately show ?thesis by blast
  qed
qed

text \<open>What an earlier entry's conversation shows of it is shown wherever the entry is.\<close>

lemma visible_loop_trans:
  assumes "conversations_ok s" "entry_visible_loop (st_conversations s) oh h {} oe None" "h \<le> e"
  shows "k < length (st_conversation_ids s) \<Longrightarrow> apart s k V \<Longrightarrow>
    entry_visible_loop (st_conversations s) oe e V (st_conversation_ids s ! k) cut' \<Longrightarrow>
    entry_visible_loop (st_conversations s) oh h V (st_conversation_ids s ! k) cut'"
proof (induction k arbitrary: V cut' rule: less_induct)
  case (less k)
  let ?ids = "st_conversation_ids s"
  obtain r where r: "omap_find (st_conversations s) (?ids ! k) = Some r"
      "\<forall>p l. cv_parent r = Some (p, l) \<longrightarrow> (\<exists>j<k. ?ids ! j = p)"
    using conversation_at [OF assms(1) less.prems(1)] .
  note step = visible_loop_step [OF r(1) apart_self [OF less.prems(2,1)]]
  show ?case
  proof (cases "oe = ?ids ! k")
    case True
    have "entry_visible_loop (st_conversations s) oh h V (?ids ! k) None"
      using assms(2) True visible_loop_visited [OF assms(1) less.prems(1,2), of "{}"] by (simp add: apart_def)
    then show ?thesis using less.prems(3) True assms(3) by (auto simp: step split: if_splits option.splits)
  next
    case False
    then obtain p l where p: "cv_parent r = Some (p, l)"
        "entry_visible_loop (st_conversations s) oe e (insert (?ids ! k) V) p (Some l)"
      using less.prems(3) step by (auto split: option.splits)
    obtain j where j: "j < k" "?ids ! j = p" using r(2) p(1) by blast
    note ap = apart_step [OF assms(1) less.prems(2) j(1) less.prems(1)]
    have jl: "j < length ?ids" using j less.prems(1) by simp
    have "entry_visible_loop (st_conversations s) oh h (insert (?ids ! k) V) p (Some l)"
      using less.IH [OF j(1) jl ap(1)] p(2) j by simp
    moreover from visible_loop_owner [OF assms(1) jl ap(1)] this have "oh \<noteq> ?ids ! k" using j(2) ap(3) by blast
    ultimately show ?thesis using p(1) by (simp add: step)
  qed
qed

lemma entry_visible_trans:
  assumes "storage_ok s" "omap_find (st_entries s) i = Some e" "entry_visible c i (st_conversations s) (st_entries s)"
    "entry_visible (en_conversation (es_record e)) h (st_conversations s) (st_entries s)" "h \<le> i"
  shows "entry_visible c h (st_conversations s) (st_entries s)"
proof -
  have co: "conversations_ok s" using assms(1) by (simp add: storage_ok_def storage_inv_def)
  obtain f where f: "omap_find (st_entries s) h = Some f"
      "entry_visible_loop (st_conversations s) (en_conversation (es_record f)) h {} (en_conversation (es_record e)) None"
    using assms(4) by (auto simp: entry_visible_def split: option.splits)
  have v: "entry_visible_loop (st_conversations s) (en_conversation (es_record e)) i {} c None"
    using assms(2,3) by (simp add: entry_visible_def)
  then have "omap_find (st_conversations s) c \<noteq> None" by (subst (asm) entry_visible_loop.simps) (auto split: option.splits)
  then have "c \<in> set (st_conversation_ids s)" using co by (simp add: conversations_ok_def)
  then obtain k where "k < length (st_conversation_ids s)" "st_conversation_ids s ! k = c" by (auto simp: in_set_conv_nth)
  then show ?thesis
    using visible_loop_trans [OF co f(2) assms(5), of k "{}" None] v f(1) by (simp add: entry_visible_def apart_def)
qed

section \<open>Heads point back\<close>

definition heads_back :: "storage \<Rightarrow> bool" where
  "heads_back s \<longleftrightarrow>
     (\<forall>i e h. omap_find (st_entries s) i = Some e \<longrightarrow> en_head (es_record e) = Some h \<longrightarrow>
        h \<le> i \<and> entry_visible (en_conversation (es_record e)) h (st_conversations s) (st_entries s))"

text \<open>The entries a list of writes appends.\<close>

definition written_entry :: "storage_write \<Rightarrow> int option" where
  "written_entry w = (if sw_type w = ''entry'' then map_option en_id (sw_entry w) else None)"

definition entry_ids :: "storage_write list \<Rightarrow> int list" where
  "entry_ids ws = List.map_filter written_entry ws"

lemma entry_ids_simps [simp]:
  "entry_ids [] = []" "entry_ids (vs @ ws) = entry_ids vs @ entry_ids ws"
  "entry_ids (w # ws) = (case written_entry w of None \<Rightarrow> [] | Some i \<Rightarrow> [i]) @ entry_ids ws"
  by (simp_all add: entry_ids_def map_filter_simps map_filter_def split: option.split)

lemma entry_ids_none: "(\<And>w. w \<in> set ws \<Longrightarrow> written_entry w = None) \<Longrightarrow> entry_ids ws = []"
  by (induction ws) auto

lemma written_entry_simps [simp]:
  "written_entry (entry_write r) = Some (en_id r)" "written_entry (conversation_write c) = None"
  "written_entry (task_write t) = None" "written_entry (submission_write m) = None" "written_entry (copy_write d src) = None"
  by (simp_all add: written_entry_def entry_write_def conversation_write_def task_write_def submission_write_def
      copy_write_def empty_write_def)

text \<open>Visibility only grows.\<close>

lemma entry_visible_loop_mono:
  assumes "entry_visible_loop C owner i V cur cut'" "\<And>c r. omap_find C c = Some r \<Longrightarrow> omap_find D c = Some r"
  shows "entry_visible_loop D owner i V cur cut'"
  using assms
proof (induction C owner i V cur cut' rule: entry_visible_loop.induct)
  case (1 C owner i V cur cut')
  obtain r where r: "cur \<notin> V" "omap_find C cur = Some r"
    using 1(2) by (subst (asm) entry_visible_loop.simps) (auto split: if_splits option.splits)
  note steps = visible_loop_step [OF r(2,1)] visible_loop_step [OF 1(3) [OF r(2)] r(1)]
  show ?case
  proof (cases "owner = cur")
    case True
    then show ?thesis using 1(2) steps by simp
  next
    case False
    then obtain p l where p: "cv_parent r = Some (p, l)" "entry_visible_loop C owner i (insert cur V) p (Some l)"
      using 1(2) steps by (auto split: option.splits)
    have "entry_visible_loop D owner i (insert cur V) p (Some l)"
      using 1(1) [OF r False p(1) refl p(2) 1(3)] .
    then show ?thesis using p(1) False steps by simp
  qed
qed

lemma entry_visible_mono:
  assumes "entry_visible c i (st_conversations s) (st_entries s)"
    "\<And>c r. omap_find (st_conversations s) c = Some r \<Longrightarrow> omap_find (st_conversations t) c = Some r"
    "\<And>j e. omap_find (st_entries s) j = Some e \<Longrightarrow> omap_find (st_entries t) j = Some e"
  shows "entry_visible c i (st_conversations t) (st_entries t)"
proof -
  obtain e where e: "omap_find (st_entries s) i = Some e"
      "entry_visible_loop (st_conversations s) (en_conversation (es_record e)) i {} c None"
    using assms(1) by (auto simp: entry_visible_def split: option.splits)
  show ?thesis using entry_visible_loop_mono [OF e(2) assms(2)] assms(3) [OF e(1)] by (simp add: entry_visible_def)
qed

lemma apply_write_grows:
  assumes "apply_write b s w = Inr t"
  shows "omap_find (st_conversations s) c = Some r \<Longrightarrow> omap_find (st_conversations t) c = Some r"
    and "omap_find (st_entries s) j = Some e \<Longrightarrow> omap_find (st_entries t) j = Some e"
  using assms
  by (auto simp: apply_write_def write_conversation_def write_entry_def write_task_def write_submission_def
      write_document_create_def write_document_change_def write_document_retire_def Let_def
      split: if_splits option.splits sum.splits)

text \<open>The entry a write appends, with what the storage checked of its head.\<close>

lemma apply_write_entries:
  assumes "apply_write b s w = Inr t" "omap_find (st_entries t) i = Some e" "omap_find (st_entries s) i = None"
  shows "written_entry w = Some i \<and> en_id (es_record e) = i \<and>
    omap_find (st_conversations t) (en_conversation (es_record e)) \<noteq> None \<and>
    (\<forall>h. en_head (es_record e) = Some h \<longrightarrow> h = i \<or>
       omap_find (st_entries s) h \<noteq> None \<and> entry_visible (en_conversation (es_record e)) h (st_conversations s) (st_entries s))"
  using assms
  by (auto simp: apply_write_def write_conversation_def write_entry_def write_task_def write_submission_def
      write_document_create_def write_document_change_def write_document_retire_def Let_def written_entry_def
      split: if_splits option.splits sum.splits)

text \<open>Appending entries with ascending ids above the stored ones keeps heads pointing back.\<close>

definition entries_below :: "storage \<Rightarrow> int list \<Rightarrow> bool" where
  "entries_below s is \<longleftrightarrow> sorted_wrt (<) is \<and> (\<forall>j e. omap_find (st_entries s) j = Some e \<longrightarrow> (\<forall>i\<in>set is. j < i))"

lemma self_visible:
  assumes "omap_find (st_entries s) i = Some e" "omap_find (st_conversations s) (en_conversation (es_record e)) \<noteq> None"
  shows "entry_visible (en_conversation (es_record e)) i (st_conversations s) (st_entries s)"
proof -
  obtain r where "omap_find (st_conversations s) (en_conversation (es_record e)) = Some r" using assms(2) by blast
  then show ?thesis using assms(1) visible_loop_step by (simp add: entry_visible_def)
qed

lemma apply_write_heads:
  assumes run: "apply_write b s w = Inr t" and inv: "heads_back s" and below: "entries_below s (entry_ids (w # ws))"
  shows "heads_back t" "entries_below t (entry_ids ws)"
proof -
  note grows = apply_write_grows [OF run]
  have vis: "entry_visible c h (st_conversations t) (st_entries t)" if "entry_visible c h (st_conversations s) (st_entries s)" for c h
    using entry_visible_mono [OF that] grows by blast
  have small: "j < i" if "omap_find (st_entries s) j = Some e" "i \<in> set (entry_ids (w # ws))" for i j e
    using below that unfolding entries_below_def by blast
  show "heads_back t"
    unfolding heads_back_def
  proof (intro allI impI)
    fix i e h
    assume e: "omap_find (st_entries t) i = Some e" "en_head (es_record e) = Some h"
    show "h \<le> i \<and> entry_visible (en_conversation (es_record e)) h (st_conversations t) (st_entries t)"
    proof (cases "omap_find (st_entries s) i")
      case (Some f)
      then have "f = e" using grows(2) e(1) by fastforce
      then show ?thesis using inv Some e(2) vis unfolding heads_back_def by blast
    next
      case None
      note new = apply_write_entries [OF run e(1) None]
      show ?thesis
      proof (cases "h = i")
        case True
        then show ?thesis using self_visible [OF e(1)] new by simp
      next
        case False
        then obtain f where f: "omap_find (st_entries s) h = Some f"
            "entry_visible (en_conversation (es_record e)) h (st_conversations s) (st_entries s)"
          using new e(2) by blast
        have "h < i" using small [OF f(1), of i] new by simp
        then show ?thesis using vis f(2) by simp
      qed
    qed
  qed
  show "entries_below t (entry_ids ws)"
    unfolding entries_below_def
  proof (intro conjI allI impI ballI)
    show "sorted_wrt (<) (entry_ids ws)" using below by (simp add: entries_below_def sorted_wrt_append)
    fix j e i
    assume e: "omap_find (st_entries t) j = Some e" and i: "i \<in> set (entry_ids ws)"
    show "j < i"
    proof (cases "omap_find (st_entries s) j")
      case (Some f)
      then show ?thesis using small i by simp
    next
      case None
      then have "written_entry w = Some j" using apply_write_entries [OF run e] by simp
      then show ?thesis using below i by (simp add: entries_below_def)
    qed
  qed
qed

lemma run_heads:
  "fold_r (apply_write b) s ws = Inr t \<Longrightarrow> heads_back s \<Longrightarrow> entries_below s (entry_ids ws) \<Longrightarrow> heads_back t"
proof (induction ws arbitrary: s)
  case (Cons w ws)
  then obtain m where m: "apply_write b s w = Inr m" "fold_r (apply_write b) m ws = Inr t" by (auto split: sum.splits)
  show ?case using Cons.IH [OF m(2)] apply_write_heads [OF m(1) Cons.prems(2,3)] by blast
qed simp

section \<open>The entries of a transaction\<close>

definition entries_staged :: "storage \<Rightarrow> transaction \<Rightarrow> bool" where
  "entries_staged s tx \<longleftrightarrow> entries_below s (entry_ids (tx_writes tx)) \<and> (\<forall>i\<in>set (entry_ids (tx_writes tx)). i < st_next_id s)"

lemma stage_entry_ids:
  "entry_ids (tx_writes (stage_write w tx)) = entry_ids (tx_writes tx) @ (case written_entry w of None \<Rightarrow> [] | Some i \<Rightarrow> [i])"
  "tx_writes (stage_task r tx) = tx_writes tx" "tx_writes (stage_change c tx) = tx_writes tx"
  by (simp_all add: stage_write_def stage_task_def stage_change_def)

lemma fork_entry_ids:
  assumes "fork_conversation s tx parent entry_id = (s', tx', r)"
  shows "entry_ids (tx_writes tx') = entry_ids (tx_writes tx)"
proof -
  have "entry_ids ws = []" if "mint_copies u i copies = (v, Inr ws)" for u i copies v ws
    using mint_copies_copies [OF that] by (intro entry_ids_none) force
  then show ?thesis
    using assms by (auto simp: fork_conversation_def Let_def split: sum.splits prod.splits)
qed

lemma step_entry_ids:
  assumes "tx_step (s, tx) (s', tx')"
  shows "entry_ids (tx_writes tx') = entry_ids (tx_writes tx) \<or>
    entry_ids (tx_writes tx') = entry_ids (tx_writes tx) @ [st_next_id s] \<and> st_next_id s < st_next_id s'"
  using assms
proof cases
  case (step_fork parent entry_id r)
  then show ?thesis using fork_entry_ids by blast
next
  case (step_entry c kind dat head model by_task edits r)
  then show ?thesis
    by (auto simp: tx_append_entry_def Let_def stage_entry_ids split: sum.splits elim!: with_minted_cases)
next
  case (step_create_submission sub r)
  then show ?thesis
    by (auto simp: create_submission_def Let_def split: sum.splits elim!: with_minted_cases)
next
  case (step_create_task td input options r)
  then show ?thesis
    by (auto simp: create_task_def Let_def stage_entry_ids split: sum.splits elim!: with_minted_cases)
next
  case (step_owned owner r)
  then show ?thesis
    by (auto simp: create_owned_conversation_def Let_def stage_entry_ids split: sum.splits option.splits elim!: with_minted_cases)
next
  case (step_conversation r)
  then show ?thesis
    by (auto simp: create_conversation_def Let_def stage_entry_ids split: sum.splits elim!: with_minted_cases)
qed (auto simp: create_root_conversation_def set_task_def settle_submission_def place_submission_def
    Let_def stage_entry_ids split: sum.splits)

lemma stored_entry_below:
  assumes "storage_ok s" "omap_find (st_entries s) j = Some e"
  shows "j < st_next_id s"
proof -
  have "ids_ok s" using assms(1) by (simp add: storage_ok_def storage_inv_def)
  moreover have "j \<in> omap_keys (st_entries s)" using assms(2) omap_find_keys [of "st_entries s" j] by simp
  then have "j \<in> used_ids s" by (simp add: used_ids_def)
  ultimately show ?thesis by (simp add: ids_ok_def)
qed

lemma entries_staged_step:
  assumes "tx_step (s, tx) (s', tx')" "tx_inv s tx" "storage_ok s" "entries_staged s tx"
  shows "entries_staged s' tx'"
proof -
  have m: "mints s s'" using tx_step_effect [OF assms(1,2)] by simp
  note f = mints_fields [OF m]
  have old: "entries_below s' (entry_ids (tx_writes tx))" "\<forall>i\<in>set (entry_ids (tx_writes tx)). i < st_next_id s"
    using assms(4) f(2) by (simp_all add: entries_staged_def entries_below_def)
  from step_entry_ids [OF assms(1)] show ?thesis
  proof (elim disjE conjE)
    assume "entry_ids (tx_writes tx') = entry_ids (tx_writes tx)"
    then show ?thesis using old f(9) unfolding entries_staged_def by force
  next
    assume new: "entry_ids (tx_writes tx') = entry_ids (tx_writes tx) @ [st_next_id s]" "st_next_id s < st_next_id s'"
    have "\<forall>j e. omap_find (st_entries s') j = Some e \<longrightarrow> j < st_next_id s"
      using stored_entry_below [OF assms(3)] f(2) by simp
    then show ?thesis using old f(9) new
      unfolding entries_staged_def entries_below_def by (auto simp: sorted_wrt_append)
  qed
qed

lemma entries_staged_run:
  assumes "tx_run p q" "tx_inv (fst p) (snd p)" "storage_ok (fst p)" "entries_staged (fst p) (snd p)"
  shows "entries_staged (fst q) (snd q)"
  using assms
proof (induction rule: tx_run.induct)
  case (run_step p q r)
  have q: "tx_inv (fst q) (snd q)" "storage_ok (fst q)" using tx_run_inv [OF run_step.hyps(1)] run_step.prems by auto
  have "tx_step (fst q, snd q) (fst r, snd r)" using run_step.hyps(2) by simp
  then show ?case using entries_staged_step q run_step by blast
qed simp

lemma document_entry_ids: "entry_ids (concat (map document_writes gs)) = []"
  by (rule entry_ids_none)
    (auto simp: document_writes_def written_entry_def empty_write_def copy_write_def retire_write_def Let_def split: if_splits)

lemma commit_heads:
  assumes "commit_now s tx = (t, r)" "heads_back s" "entries_staged s tx"
  shows "heads_back t"
  using assms(1)
proof (cases rule: commit_now_cases)
  case (3 ws m)
  have "entry_ids ws = entry_ids (tx_writes tx)"
  proof (rule assemble_parts [OF 3(1)])
    fix u :: "submission_record omap"
    assume "ws = (tx_writes tx @ map (\<lambda>(_, r). submission_write r) u) @ concat (map document_writes (tx_documents tx))"
    moreover have "entry_ids (map (\<lambda>(_, r). submission_write r) u) = []" by (rule entry_ids_none) auto
    ultimately show ?thesis by (simp add: document_entry_ids)
  qed
  then have "heads_back m" using run_heads [OF 3(2) assms(2)] assms(3) by (simp add: entries_staged_def)
  then show ?thesis using 3(3) by (simp add: heads_back_def)
qed (use assms(2) in simp_all)

lemma heads_back_mints: "mints s t \<Longrightarrow> heads_back s \<Longrightarrow> heads_back t"
  by (simp add: heads_back_def mints_fields)

lemma session_heads:
  assumes "session_reaches s t" "storage_ok s" "heads_back s"
  shows "heads_back t"
  using assms
proof (induction rule: session_reaches.induct)
  case (session_commit s t u tx)
  have ok: "storage_ok t" using session_reaches_keeps [OF session_commit.hyps(1)] session_commit.prems by blast
  have h: "heads_back t" using session_commit by blast
  have init: "entries_staged t tx_init" by (simp add: entries_staged_def entries_below_def tx_init_def)
  have "mints t u" using tx_run_inv [OF session_commit.hyps(2)] ok by (simp add: tx_inv_init)
  then have "heads_back u" using h by (rule heads_back_mints)
  moreover have "entries_staged u tx" using entries_staged_run [OF session_commit.hyps(2)] ok init by (simp add: tx_inv_init)
  ultimately show ?case using commit_heads by (cases "commit_now u tx") simp
next
  case (session_abandon s t u tx)
  have ok: "storage_ok t" using session_reaches_keeps [OF session_abandon.hyps(1)] session_abandon.prems by blast
  have "mints t u" using tx_run_inv [OF session_abandon.hyps(2)] ok by (simp add: tx_inv_init)
  then show ?case by (rule heads_back_mints) (use session_abandon in blast)
next
  case (session_close s t)
  then show ?case by (simp add: heads_back_def close_storage_def)
qed simp

section \<open>Views\<close>

text \<open>The entries that are shown hold the head of each of them.\<close>

lemma head_selected:
  assumes "storage_ok s" "heads_back s"
    and rs: "\<forall>r. r \<in> set rs \<longleftrightarrow> (case sel of None \<Rightarrow> True | Some i \<Rightarrow> en_id r \<le> i) \<and>
       (\<exists>e. omap_find (st_entries s) (en_id r) = Some e \<and> es_record e = r \<and>
          entry_visible c (en_id r) (st_conversations s) (st_entries s))"
    and r: "r \<in> set rs" "en_head r = Some h"
  shows "\<exists>q\<in>set rs. en_id q = h"
proof -
  obtain e where e: "omap_find (st_entries s) (en_id r) = Some e" "es_record e = r"
      "entry_visible c (en_id r) (st_conversations s) (st_entries s)" "case sel of None \<Rightarrow> True | Some i \<Rightarrow> en_id r \<le> i"
    using rs [rule_format, of r] r(1) by blast
  have h: "h \<le> en_id r" "entry_visible (en_conversation (es_record e)) h (st_conversations s) (st_entries s)"
    using assms(2) e(1,2) r(2) unfolding heads_back_def by blast+
  have v: "entry_visible c h (st_conversations s) (st_entries s)" by (rule entry_visible_trans [OF assms(1) e(1,3) h(2,1)])
  then obtain f where f: "omap_find (st_entries s) h = Some f" by (auto simp: entry_visible_def split: option.splits)
  have id: "en_id (es_record f) = h" using assms(1) f by (simp add: storage_ok_def storage_inv_def entries_ok_def)
  have "case sel of None \<Rightarrow> True | Some i \<Rightarrow> h \<le> i" using e(4) h(1) by (auto split: option.splits)
  then have "es_record f \<in> set rs" using rs [rule_format, of "es_record f"] f v id by auto
  then show ?thesis using id by blast
qed

lemma listed_length:
  assumes "distinct (map en_id rs)" "\<And>r. r \<in> set rs \<Longrightarrow> omap_find (st_entries s) (en_id r) \<noteq> None"
  shows "length rs \<le> length (st_entries s)"
proof -
  have "set (map en_id rs) \<subseteq> set (map fst (st_entries s))"
    using assms(2) by (auto simp: omap_find_keys omap_keys_def)
  then have "card (set (map en_id rs)) \<le> card (set (map fst (st_entries s)))" by (rule card_mono [rotated]) simp
  also have "\<dots> \<le> length (st_entries s)" using card_length [of "map fst (st_entries s)"] by simp
  finally show ?thesis using distinct_card [OF assms(1)] by simp
qed

text \<open>The selected entries: oldest first, and everything visible up to the selected one.\<close>

lemma selected_entries_ok:
  assumes ok: "storage_ok s" "\<not> st_closed s" "omap_find (st_conversations s) c \<noteq> None"
    and size: "length (st_entries s) \<le> kUnlimited" and tx: "reject_read tx = Inr ()"
    and sel: "\<And>i. sel = Some i \<Longrightarrow> entry_visible c i (st_conversations s) (st_entries s)"
  shows "\<exists>rs. selected_entries s tx c sel = Inr rs \<and> sorted_wrt (<) (map en_id rs) \<and>
    (\<forall>r. r \<in> set rs \<longleftrightarrow> (case sel of None \<Rightarrow> True | Some i \<Rightarrow> en_id r \<le> i) \<and>
       (\<exists>e. omap_find (st_entries s) (en_id r) = Some e \<and> es_record e = r \<and>
          entry_visible c (en_id r) (st_conversations s) (st_entries s)))"
proof -
  obtain qs where qs: "\<And>limit. scan_entries s c limit = Inr (take limit qs)" "sorted_wrt (\<lambda>p q. en_id q < en_id p) qs"
      "\<And>r. r \<in> set qs \<longleftrightarrow> (\<exists>e. omap_find (st_entries s) (en_id r) = Some e \<and> es_record e = r \<and>
         entry_visible c (en_id r) (st_conversations s) (st_entries s))"
    using scan_visible [OF ok] by blast
  define vs where "vs = rev qs"
  have asc: "sorted_wrt (<) (map en_id vs)" using qs(2) by (simp add: vs_def sorted_wrt_map sorted_wrt_rev)
  then have dist: "distinct (map en_id vs)" by (simp add: strict_sorted_iff)
  have "distinct (map en_id qs)" using dist by (simp add: vs_def rev_map [symmetric])
  then have "length qs \<le> length (st_entries s)" using listed_length [of qs s] qs(3) by force
  then have scan: "scan_entries s c kUnlimited = Inr qs" using qs(1) size by simp
  have mem: "r \<in> set vs \<longleftrightarrow> (\<exists>e. omap_find (st_entries s) (en_id r) = Some e \<and> es_record e = r \<and>
         entry_visible c (en_id r) (st_conversations s) (st_entries s))" for r
    using qs(3) [of r] by (simp add: vs_def)
  show ?thesis
  proof (cases sel)
    case None
    then show ?thesis using scan tx asc mem by (intro exI [of _ vs]) (simp add: selected_entries_def storage_call_def vs_def)
  next
    case (Some i)
    obtain e where e: "omap_find (st_entries s) i = Some e"
      using sel [OF Some] by (auto simp: entry_visible_def split: option.splits)
    have id: "en_id (es_record e) = i" using ok(1) e by (simp add: storage_ok_def storage_inv_def entries_ok_def)
    have e_vs: "es_record e \<in> set vs" using mem [of "es_record e"] id e sel [OF Some] by simp
    then obtain k where k: "k < length vs" "vs ! k = es_record e" unfolding in_set_conv_nth by blast
    have less: "en_id (vs ! l) < i" if "l < k" for l
      using sorted_wrt_nth_less [OF asc that] k id that by simp
    have take: "takeWhile (\<lambda>e. en_id e \<noteq> i) vs = take k vs"
      by (rule takeWhile_eq_take_P_nth) (use less k id in \<open>auto dest: less\<close>)
    have "find (\<lambda>e. en_id e = i) vs = Some (es_record e)"
      unfolding find_Some_iff using k id less by (intro exI [of _ k]) force
    then have out: "selected_entries s tx c sel = Inr (take (Suc k) vs)"
      using scan tx Some take k by (simp add: selected_entries_def storage_call_def vs_def take_Suc_nth)
    have "r \<in> set (take (Suc k) vs) \<longleftrightarrow> en_id r \<le> i \<and> r \<in> set vs" for r
    proof
      assume "r \<in> set (take (Suc k) vs)"
      then obtain l where l: "l < Suc k" "l < length vs" "vs ! l = r" by (auto simp: in_set_conv_nth)
      then show "en_id r \<le> i \<and> r \<in> set vs" using less [of l] k id nth_mem [OF l(2)] by (cases "l = k") auto
    next
      assume r: "en_id r \<le> i \<and> r \<in> set vs"
      then obtain l where l: "l < length vs" "vs ! l = r" unfolding in_set_conv_nth by blast
      have "l \<le> k"
      proof (rule ccontr)
        assume "\<not> l \<le> k"
        then have "i < en_id r" using sorted_wrt_nth_less [OF asc, of k l] l k id by simp
        then show False using r by simp
      qed
      then show "r \<in> set (take (Suc k) vs)" using l by (auto simp: in_set_conv_nth)
    qed
    moreover have "sorted_wrt (<) (map en_id (take (Suc k) vs))" using asc by (metis sorted_wrt_take take_map)
    ultimately show ?thesis using out mem Some by auto
  qed
qed

lemma view_from_selected:
  assumes asc: "sorted_wrt (<) (map en_id rs)" and heads: "\<forall>r h. r \<in> set rs \<longrightarrow> en_head r = Some h \<longrightarrow> (\<exists>q\<in>set rs. en_id q = h)"
    and sel: "selected_entries s tx c sel = Inr rs"
  shows "\<exists>view. context_view_at s tx c sel = Inr view \<and> set (vw_entries view) \<subseteq> set rs \<and> distinct (map en_id (vw_entries view)) \<and>
    length (vw_contributions view) = length (vw_entries view) \<and> vw_head view = find_last (\<lambda>e. en_head e \<noteq> None) rs"
proof (cases "rs = []")
  case True
  then show ?thesis using sel by (intro exI [of _ empty_view]) (simp add: context_view_at_def empty_view_def)
next
  case False
  let ?head = "find_last (\<lambda>e. en_head e \<noteq> None) rs"
  have dist: "distinct (map en_id rs)" using asc by (simp add: strict_sorted_iff)
  have "\<exists>active. from_head ?head rs = Inr active \<and> set active \<subseteq> set rs \<and> distinct (map en_id active)"
  proof (cases ?head)
    case None
    then show ?thesis using dist by (simp add: from_head_def)
  next
    case (Some m)
    then obtain h where h: "m \<in> set rs" "en_head m = Some h" using find_last_mem [OF Some] by blast
    then obtain q where q: "q \<in> set rs" "en_id q = h" using heads by blast
    let ?rest = "dropWhile (\<lambda>e. Some (en_id e) \<noteq> en_head m) rs"
    have "?rest \<noteq> []" using q h(2) by (auto simp: dropWhile_eq_Nil_conv)
    moreover have "distinct (map en_id ?rest)" using dist distinct_dropWhile by (metis distinct_map inj_on_subset set_dropWhileD subsetI)
    ultimately show ?thesis using Some set_dropWhileD by (fastforce simp: from_head_def Let_def)
  qed
  then obtain active where a: "from_head ?head rs = Inr active" "set active \<subseteq> set rs" "distinct (map en_id active)" by blast
  let ?view = "build_view ?head (en_id (last rs)) active"
  have "set (vw_entries ?view) \<subseteq> set rs"
    using a(2) find_last_mem [of _ rs] by (auto simp: build_view_def Let_def split: option.splits)
  moreover have "distinct (map en_id (vw_entries ?view))"
  proof (cases ?head)
    case None
    then show ?thesis using a(3) by (simp add: build_view_def Let_def)
  next
    case (Some m)
    note m = conjunct1 [OF find_last_mem [OF Some]] conjunct2 [OF find_last_mem [OF Some]]
    have "r = m" if "r \<in> set active" "en_id r = en_id m" for r
      using dist that a(2) m(1) by (auto simp: distinct_map inj_on_def)
    then have "en_id m \<notin> en_id ` set (filter (\<lambda>e. en_head e = None) active)" using m(2) by auto
    then show ?thesis using Some a(3) by (simp add: build_view_def Let_def distinct_map_filter)
  qed
  moreover have "context_view_at s tx c sel = Inr ?view" using sel False a(1) by (simp add: context_view_at_def Let_def)
  ultimately show ?thesis by (intro exI [of _ ?view]) (simp add: build_view_def Let_def)
qed

section \<open>Properties\<close>

text \<open>
  C16. Deriving a context does not fail on what a session has written: in every storage a session produces,
  for every conversation and every entry visible from it, a transaction that may still read gets the
  context, whatever markers, forks and edits there are; in particular the entry a head marker
  names is always found. The view shows visible entries only, each at most once and none newer than
  the selected one, and has one contribution per entry.
\<close>

theorem context_view_succeeds:
  assumes "session_reaches storage_init s" "\<not> st_closed s" "omap_find (st_conversations s) c \<noteq> None"
    "length (st_entries s) \<le> kUnlimited" "reject_read tx = Inr ()"
    "sel = None \<or> (\<exists>i. sel = Some i \<and> entry_visible c i (st_conversations s) (st_entries s))"
  shows "\<exists>view. context_view_at s tx c sel = Inr view \<and> distinct (map en_id (vw_entries view)) \<and>
    length (vw_contributions view) = length (vw_entries view) \<and>
    (\<forall>r\<in>set (vw_entries view). entry_visible c (en_id r) (st_conversations s) (st_entries s) \<and>
       (case sel of None \<Rightarrow> True | Some i \<Rightarrow> en_id r \<le> i))"
proof -
  have ok: "storage_ok s" using session_reaches_keeps [OF assms(1) storage_init_ok] by blast
  have hb: "heads_back s"
    using session_heads [OF assms(1) storage_init_ok] by (simp add: heads_back_def storage_init_def)
  obtain rs where rs: "selected_entries s tx c sel = Inr rs" "sorted_wrt (<) (map en_id rs)"
      "\<forall>r. r \<in> set rs \<longleftrightarrow> (case sel of None \<Rightarrow> True | Some i \<Rightarrow> en_id r \<le> i) \<and>
         (\<exists>e. omap_find (st_entries s) (en_id r) = Some e \<and> es_record e = r \<and>
            entry_visible c (en_id r) (st_conversations s) (st_entries s))"
    using selected_entries_ok [OF ok assms(2-5), of sel] assms(6) by blast
  have "\<forall>r h. r \<in> set rs \<longrightarrow> en_head r = Some h \<longrightarrow> (\<exists>q\<in>set rs. en_id q = h)"
    using head_selected [OF ok hb rs(3)] by blast
  from view_from_selected [OF rs(2) this rs(1)] obtain view where view: "context_view_at s tx c sel = Inr view"
      "set (vw_entries view) \<subseteq> set rs" "distinct (map en_id (vw_entries view))"
      "length (vw_contributions view) = length (vw_entries view)"
    by blast
  have "entry_visible c (en_id r) (st_conversations s) (st_entries s) \<and> (case sel of None \<Rightarrow> True | Some i \<Rightarrow> en_id r \<le> i)"
    if "r \<in> set (vw_entries view)" for r
    using view(2) that rs(3) by blast
  then show ?thesis using view(1,3,4) by blast
qed

text \<open>A conversation with a user message and a marker that summarizes what came before it.\<close>

definition sample_message :: "string \<Rightarrow> string \<Rightarrow> json" where
  "sample_message role content = JObj [(''role'', JStr role), (''content'', JStr content)]"

definition sample_marked :: "entry_record tx_result" where
  "sample_marked =
     (case create_root_conversation storage_init tx_init of
        (s, tx, _) \<Rightarrow>
          (case tx_append_entry s tx 1 ''user'' JNull None [sample_message ''user'' ''a''] None [] of
             (s, tx, _) \<Rightarrow>
               tx_append_entry s tx 1 ''mark'' JNull (Some (ExistingHead 2)) [sample_message ''user'' ''sum''] None []))"

definition sample_conversation :: storage where
  "sample_conversation = (case sample_marked of (s, tx, _) \<Rightarrow> fst (commit_now s tx))"

lemma sample_conversation_reached: "session_reaches storage_init sample_conversation"
proof -
  obtain s1 tx1 r1 where 1: "create_root_conversation storage_init tx_init = (s1, tx1, r1)"
    by (cases "create_root_conversation storage_init tx_init")
  let ?e2 = "tx_append_entry s1 tx1 1 ''user'' JNull None [sample_message ''user'' ''a''] None []"
  obtain s2 tx2 r2 where 2: "?e2 = (s2, tx2, r2)" by (cases ?e2)
  let ?e3 = "tx_append_entry s2 tx2 1 ''mark'' JNull (Some (ExistingHead 2)) [sample_message ''user'' ''sum''] None []"
  obtain s3 tx3 r3 where 3: "?e3 = (s3, tx3, r3)" by (cases ?e3)
  have "tx_run (storage_init, tx_init) (s3, tx3)"
    using run_step [OF run_step [OF run_one [OF step_root [OF 1]] step_entry [OF 2]] step_entry [OF 3]] .
  from session_commit [OF session_refl this] show ?thesis
    by (simp add: sample_conversation_def sample_marked_def 1 2 3)
qed

theorem context_view_succeeds_witness:
  "\<exists>view. context_view_at sample_conversation tx_init 1 (Some 3) = Inr view \<and> length (vw_contributions view) = length (vw_entries view)"
proof -
  have a: "\<not> st_closed sample_conversation" by code_simp
  have b: "omap_find (st_conversations sample_conversation) 1 \<noteq> None" by code_simp
  have "length (st_entries sample_conversation) = 2" by code_simp
  then have c: "length (st_entries sample_conversation) \<le> kUnlimited" by (simp add: kUnlimited_def)
  have d: "reject_read tx_init = Inr ()" by code_simp
  have e: "entry_visible 1 3 (st_conversations sample_conversation) (st_entries sample_conversation)" by code_simp
  show ?thesis
    using context_view_succeeds [OF sample_conversation_reached a b c d, of "Some 3"] e by blast
qed

text \<open>The entries of the sample, as both projections read them.\<close>

lemma sample_selected:
  "\<exists>a m. selected_entries sample_conversation tx_init 1 None = Inr [a, m] \<and> en_id a = 2 \<and> en_head a = None \<and> en_edits a = [] \<and>
     en_kind a = ''user'' \<and> en_model a = [sample_message ''user'' ''a''] \<and>
     en_id m = 3 \<and> en_head m = Some 2 \<and> en_edits m = [] \<and> en_kind m = ''mark'' \<and> en_model m = [sample_message ''user'' ''sum'']"
proof -
  have ok: "storage_ok sample_conversation"
    using session_reaches_keeps [OF sample_conversation_reached storage_init_ok] by blast
  have cl: "\<not> st_closed sample_conversation" "omap_find (st_conversations sample_conversation) 1 \<noteq> None" by code_simp+
  obtain rs where rs: "\<And>limit. scan_entries sample_conversation 1 limit = Inr (take limit rs)"
    using scan_visible [OF ok cl] by blast
  have "(case scan_entries sample_conversation 1 5 of Inl e \<Rightarrow> False | Inr xs \<Rightarrow> (case xs of
      [m, a] \<Rightarrow> en_id a = 2 \<and> en_head a = None \<and> en_edits a = [] \<and> en_kind a = ''user'' \<and> en_model a = [sample_message ''user'' ''a''] \<and>
        en_id m = 3 \<and> en_head m = Some 2 \<and> en_edits m = [] \<and> en_kind m = ''mark'' \<and> en_model m = [sample_message ''user'' ''sum'']
      | _ \<Rightarrow> False))" by code_simp
  then obtain a m where am: "take 5 rs = [m, a]"
      "en_id a = 2" "en_head a = None" "en_edits a = []" "en_kind a = ''user''" "en_model a = [sample_message ''user'' ''a'']"
      "en_id m = 3" "en_head m = Some 2" "en_edits m = []" "en_kind m = ''mark''" "en_model m = [sample_message ''user'' ''sum'']"
    by (auto simp: rs split: list.splits)
  then have "min (length rs) 5 = 2" by (metis length_take length_Cons list.size(3) numeral_2_eq_2)
  then have "rs = [m, a]" using am(1) by (simp add: min_def split: if_splits)
  moreover have "(2::nat) \<le> kUnlimited" by (simp add: kUnlimited_def)
  ultimately have "scan_entries sample_conversation 1 kUnlimited = Inr [m, a]" using rs by simp
  moreover have "reject_read tx_init = Inr ()" by code_simp
  ultimately have "selected_entries sample_conversation tx_init 1 None = Inr [a, m]"
    by (simp add: selected_entries_def storage_call_def)
  then show ?thesis using am(2-) by blast
qed

text \<open>
  The older projection drops the messages of a marker whose head is another entry: the summary the
  marker brings is in the context, but not in the conversation's messages.
\<close>

lemma marker_messages_dropped:
  "context_messages sample_conversation tx_init 1 None = Inr [sample_message ''user'' ''sum'', sample_message ''user'' ''a''] \<and>
   conversation_messages sample_conversation tx_init 1 = Inr [sample_message ''user'' ''a'']"
proof -
  obtain a m where sel: "selected_entries sample_conversation tx_init 1 None = Inr [a, m]"
    and a: "en_id a = 2" "en_head a = None" "en_edits a = []" "en_kind a = ''user''" "en_model a = [sample_message ''user'' ''a'']"
    and m: "en_id m = 3" "en_head m = Some 2" "en_edits m = []" "en_kind m = ''mark''" "en_model m = [sample_message ''user'' ''sum'']"
    using sample_selected by blast
  have role: "context_role (sample_message ''user'' c) = ''user''" for c by (simp add: context_role_def sample_message_def)
  then have kept: "\<not> unfinished (sample_message ''user'' c)" for c by (simp add: unfinished_def)
  have add: "add_message (sample_message ''user'' c) acc = (fst acc, snd acc @ [sample_message ''user'' c])" for c acc
    by (simp add: add_message_def sample_message_def string_member_def)
  have edits: "collect_edits [a, m] = (\<lambda>_. None)" by (simp add: collect_edits_def a m)
  have head: "find_last (\<lambda>e. en_head e \<noteq> None) [a, m] = Some m" by (simp add: a m)
  have active: "from_head (Some m) [a, m] = Inr [a, m]" by (simp add: from_head_def a m)
  have "vw_messages (build_view (Some m) 3 [a, m]) = [sample_message ''user'' ''sum'', sample_message ''user'' ''a'']"
    by (simp add: build_view_def edits contribution_of_def edited_model_def kept role lift_system_def is_system_message_def a m)
  moreover have "fold (add_entry (Some 2) (\<lambda>_. None)) [a, m] ([], []) = ([], [sample_message ''user'' ''a''])"
    by (simp add: add_entry_def edited_model_def add a m)
  ultimately show ?thesis
    unfolding context_messages_def context_view_at_def conversation_messages_def sel
    using head active edits m by simp
qed

end
