(* ===== verification/Committed_Context_Laws.thy ===== *)
theory Committed_Context_Laws
  imports Committed_Context Context_View_Laws
begin

text \<open>
  Laws of the context of a conversation: every tool call is answered, a compaction never separates a
  call from its result, and the cut is the one the budget asks for.
\<close>

section \<open>Results of calls\<close>

lemma message_role_context: "message_role m = context_role m"
  by (auto simp: message_role_def context_role_def split: option.splits)

text \<open>The result a call with this id gets from the messages after it.\<close>

definition first_result :: "json list \<Rightarrow> string \<Rightarrow> json option" where
  "first_result ms i = find (\<lambda>m. result_id m = Some i) (takeWhile (\<lambda>m. context_role m \<noteq> ''assistant'') ms)"

lemma collect_results_first:
  "map_of (collect_results ms results) i = (case map_of results i of Some r \<Rightarrow> Some r | None \<Rightarrow> first_result ms i)"
  by (induction ms results rule: collect_results.induct)
    (auto simp: first_result_def map_add_Some_iff split: option.splits)

lemma call_result_first:
  "call_result m (collect_results ms []) call =
     (case Option.bind (string_member call ''id'') (first_result ms) of None \<Rightarrow> missing_result call m | Some r \<Rightarrow> r)"
  by (cases "string_member call ''id''") (simp_all add: call_result_def collect_results_first)

lemma first_result_append:
  "first_result (as @ bs) i =
     (if \<exists>m\<in>set as. context_role m = ''assistant'' then first_result as i
      else case first_result as i of None \<Rightarrow> first_result bs i | Some r \<Rightarrow> Some r)"
proof (cases "\<exists>m\<in>set as. context_role m = ''assistant''")
  case True
  then show ?thesis by (auto simp: first_result_def takeWhile_append1)
next
  case False
  then have whole: "takeWhile (\<lambda>m. context_role m \<noteq> ''assistant'') (as @ bs) = as @ takeWhile (\<lambda>m. context_role m \<noteq> ''assistant'') bs"
    "takeWhile (\<lambda>m. context_role m \<noteq> ''assistant'') as = as"
    by (auto simp: takeWhile_append2 takeWhile_eq_all_conv)
  show ?thesis unfolding first_result_def whole find_append using False by simp
qed

section \<open>Cuts\<close>

definition last_assistant :: "json list \<Rightarrow> json option" where
  "last_assistant ms = find (\<lambda>m. context_role m = ''assistant'') (rev ms)"

definition whole_calls_cut :: "json list \<Rightarrow> json list \<Rightarrow> bool" where
  "whole_calls_cut as bs \<longleftrightarrow>
     (\<forall>m call i. last_assistant as = Some m \<longrightarrow> call \<in> set (message_calls m) \<longrightarrow> string_member call ''id'' = Some i \<longrightarrow>
        first_result bs i = None)"

lemma call_ids_of_calls:
  assumes "call \<in> set (message_calls m)" "string_member call ''id'' = Some i" "last_assistant c = Some m"
  shows "i \<in> set (assistant_call_ids c)"
proof -
  obtain blocks where b: "Option.bind (Option.bind (as_object m) (\<lambda>ob. find_member ob ''content'')) as_array = Some blocks"
      "call \<in> set (List.map_filter is_call blocks)"
    using assms(1) by (auto simp: message_calls_def split: option.splits dest!: sym [of "Some _"])
  then obtain block where "block \<in> set blocks" "is_call block = Some call" by (auto simp: set_map_filter)
  then have "as_object block = Some call" "string_member call ''type'' = Some ''toolCall''"
    by (auto simp: is_call_def bind_eq_Some_conv split: if_splits)
  then have "\<exists>block\<in>set blocks. Option.bind (as_object block) (\<lambda>ob.
      if string_member ob ''type'' = Some ''toolCall'' then string_member ob ''id'' else None) = Some i"
    using assms(2) \<open>block \<in> _\<close> by (intro bexI [of _ block]) simp_all
  then show ?thesis
    using assms(3) b(1) by (simp add: assistant_call_ids_def last_assistant_def message_role_context set_map_filter)
qed

lemma order_append:
  "whole_calls_cut as bs \<Longrightarrow> order_tool_results (as @ bs) = order_tool_results as @ order_tool_results bs"
proof (induction as)
  case (Cons m as)
  show ?case
  proof (cases "\<exists>x\<in>set as. context_role x = ''assistant''")
    case True
    then have "last_assistant (m # as) = last_assistant as"
      by (auto simp: last_assistant_def find_append find_None_iff split: option.splits)
    then have "whole_calls_cut as bs" using Cons.prems by (simp add: whole_calls_cut_def)
    moreover have "call_result m (collect_results (as @ bs) []) = call_result m (collect_results as [])"
    proof
      fix c
      show "call_result m (collect_results (as @ bs) []) c = call_result m (collect_results as []) c"
        using True by (cases "string_member c ''id''") (simp_all add: call_result_first first_result_append)
    qed
    ultimately show ?thesis using Cons.IH by simp
  next
    case False
    then have none: "last_assistant as = None" by (auto simp: last_assistant_def find_None_iff)
    then have "whole_calls_cut as bs" by (simp add: whole_calls_cut_def)
    moreover have "call_result m (collect_results (as @ bs) []) c = call_result m (collect_results as []) c"
      if "context_role m = ''assistant''" "c \<in> set (message_calls m)" for c
    proof -
      have "last_assistant (m # as) = Some m"
        using none that(1) by (simp add: last_assistant_def find_append)
      then have "first_result bs i = None" if "string_member c ''id'' = Some i" for i
        using Cons.prems \<open>c \<in> _\<close> that unfolding whole_calls_cut_def by blast
      then show ?thesis
        using False by (cases "string_member c ''id''") (auto simp: call_result_first first_result_append split: option.splits)
    qed
    ultimately show ?thesis using Cons.IH by simp
  qed
qed simp

lemma no_result_first:
  "no_result_before_assistant calls first ms \<Longrightarrow> i \<in> set calls \<Longrightarrow> (first \<Longrightarrow> ms = [] \<or> context_role (hd ms) \<noteq> ''assistant'') \<Longrightarrow>
   first_result ms i = None"
  by (induction calls first ms rule: no_result_before_assistant.induct)
    (auto simp: first_result_def message_role_context split: if_splits option.splits)

lemma last_assistant_concat:
  "last_assistant (concat cs) =
     Option.bind (find (\<lambda>c. \<exists>m\<in>set c. message_role m = ''assistant'') (rev cs)) last_assistant"
proof -
  have "last_assistant (concat cs) = find (\<lambda>m. context_role m = ''assistant'') (concat (map rev (rev cs)))"
    by (simp add: last_assistant_def rev_concat)
  also have "\<dots> = Option.bind (find (\<lambda>xs. \<exists>x\<in>set xs. context_role x = ''assistant'') (map rev (rev cs)))
      (find (\<lambda>m. context_role m = ''assistant''))"
    by (rule find_concat)
  also have "find (\<lambda>xs. \<exists>x\<in>set xs. context_role x = ''assistant'') (map rev ds) =
      map_option rev (find (\<lambda>c. \<exists>m\<in>set c. message_role m = ''assistant'') ds)" for ds
    by (induction ds) (auto simp: message_role_context)
  finally show ?thesis
    by (cases "find (\<lambda>c. \<exists>m\<in>set c. message_role m = ''assistant'') (rev cs)") (simp_all add: last_assistant_def)
qed

lemma candidate_clean:
  assumes "is_candidate cs n"
  shows "whole_calls_cut (concat (take n cs)) (concat (drop n cs))"
  unfolding whole_calls_cut_def
proof (intro allI impI)
  fix m call i
  assume m: "last_assistant (concat (take n cs)) = Some m" and call: "call \<in> set (message_calls m)" "string_member call ''id'' = Some i"
  have n: "n < length cs" "cs ! n \<noteq> []" using assms by (auto simp: is_candidate_def split: if_splits)
  then have start: "concat (drop n cs) \<noteq> []" "hd (concat (drop n cs)) = hd (cs ! n)"
    by (simp_all add: Cons_nth_drop_Suc [symmetric])
  obtain c where c: "find (\<lambda>c. \<exists>m\<in>set c. message_role m = ''assistant'') (rev (take n cs)) = Some c" "last_assistant c = Some m"
    using m by (auto simp: last_assistant_concat bind_eq_Some_conv)
  have i: "i \<in> set (preceding_calls cs n)" using call_ids_of_calls [OF call c(2)] c(1) by (simp add: preceding_calls_def)
  show "first_result (concat (drop n cs)) i = None"
  proof (cases "context_role (hd (cs ! n)) = ''assistant''")
    case True
    then show ?thesis using start by (cases "concat (drop n cs)") (auto simp: first_result_def)
  next
    case False
    have "preceding_calls cs n \<noteq> []" using i by auto
    then have "no_result_before_assistant (preceding_calls cs n) True (concat (drop n cs))"
      using assms False n unfolding is_candidate_def message_role_context by (simp add: Let_def split: if_splits)
    then show ?thesis using no_result_first i False start by auto
  qed
qed

text \<open>The budget loop finds the last index from which the messages reach the budget.\<close>

definition tokens_from :: "(dbl \<Rightarrow> string) \<Rightarrow> json list list \<Rightarrow> nat \<Rightarrow> int" where
  "tokens_from to_chars cs i = sum_list (map (estimate_message_tokens to_chars) (concat (drop i cs)))"

lemma tokens_from_step:
  "i < length cs \<Longrightarrow> tokens_from to_chars cs i =
     sum_list (map (estimate_message_tokens to_chars) (cs ! i)) + tokens_from to_chars cs (Suc i)"
  by (simp add: tokens_from_def Cons_nth_drop_Suc [symmetric])

lemma budget_index_exact:
  assumes "n \<le> length cs"
  shows "budget_index (\<lambda>ms. sum_list (map (estimate_message_tokens to_chars) ms)) cs start n (tokens_from to_chars cs n) keep = Some k \<longleftrightarrow>
    start \<le> k \<and> k < n \<and> keep \<le> tokens_from to_chars cs k \<and> (\<forall>j. k < j \<longrightarrow> j < n \<longrightarrow> tokens_from to_chars cs j < keep)"
  using assms
proof (induction n)
  case (Suc n)
  have step: "tokens_from to_chars cs (Suc n) + sum_list (map (estimate_message_tokens to_chars) (cs ! n)) = tokens_from to_chars cs n"
    using tokens_from_step [of n cs] Suc.prems by simp
  show ?case
  proof (cases "Suc n \<le> start \<or> tokens_from to_chars cs n < keep")
    case True
    then show ?thesis using Suc step by (auto simp: Let_def less_Suc_eq)
  next
    case False
    then show ?thesis using step by (auto simp: Let_def less_Suc_eq)
  qed
qed simp

lemma find_sorted_candidates:
  assumes "find (\<lambda>c. k \<le> c) (filter P [start..<n]) = r" "start \<le> k"
  shows "case r of None \<Rightarrow> \<forall>c. k \<le> c \<longrightarrow> c < n \<longrightarrow> \<not> P c
    | Some c \<Rightarrow> P c \<and> k \<le> c \<and> c < n \<and> (\<forall>j. k \<le> j \<longrightarrow> j < c \<longrightarrow> \<not> P j)"
proof (cases r)
  case None
  then show ?thesis using assms by (auto simp: find_None_iff)
next
  case (Some c)
  let ?xs = "filter P [start..<n]"
  obtain i where i: "i < length ?xs" "k \<le> ?xs ! i" "c = ?xs ! i" "\<And>j. j < i \<Longrightarrow> \<not> k \<le> ?xs ! j"
    using assms(1) Some by (auto simp: find_Some_iff)
  have mem: "c \<in> set ?xs" unfolding i(3) by (rule nth_mem [OF i(1)])
  have "\<not> P j" if j: "k \<le> j" "j < c" for j
  proof
    assume "P j"
    then have "j \<in> set ?xs" using j mem assms(2) by auto
    then obtain l where l: "l < length ?xs" "?xs ! l = j" unfolding in_set_conv_nth by blast
    have "sorted ?xs" by (simp add: sorted_wrt_filter)
    then have "l < i" using l i j(2) by (metis linorder_not_le sorted_nth_mono)
    then show False using i(4) l j(1) by blast
  qed
  then show ?thesis using Some i(2,3) mem by auto
qed

lemma last_candidate:
  assumes "filter P [start..<n] \<noteq> []"
  shows "c = last (filter P [start..<n]) \<longleftrightarrow> start \<le> c \<and> c < n \<and> P c \<and> (\<forall>j. c < j \<longrightarrow> j < n \<longrightarrow> \<not> P j)"
proof -
  let ?xs = "filter P [start..<n]"
  have top: "x \<le> last ?xs" if q: "x \<in> set ?xs" for x
  proof -
    obtain l where l: "l < length ?xs" "?xs ! l = x" using q unfolding in_set_conv_nth by blast
    have "sorted ?xs" by (simp add: sorted_wrt_filter)
    moreover have "l \<le> length ?xs - 1" "length ?xs - 1 < length ?xs" using l(1) by linarith+
    ultimately have "?xs ! l \<le> ?xs ! (length ?xs - 1)" by (rule sorted_nth_mono)
    then show ?thesis unfolding l(2) last_conv_nth [OF assms] .
  qed
  have "last ?xs \<in> set ?xs" by (rule last_in_set [OF assms])
  then have l: "start \<le> last ?xs" "last ?xs < n" "P (last ?xs)" by auto
  have "\<not> P j" if "last ?xs < j" "j < n" for j using top that l(1) by fastforce
  then show ?thesis using l by (metis linorder_neqE_nat)
qed

lemma pick_candidate:
  assumes "filter P [start..<m] \<noteq> []" "start \<le> k"
  shows "(case find (\<lambda>c. k \<le> c) (filter P [start..<m]) of None \<Rightarrow> last (filter P [start..<m]) | Some c \<Rightarrow> c) = n \<longleftrightarrow>
    start \<le> n \<and> n < m \<and> P n \<and>
    (if \<exists>c. k \<le> c \<and> c < m \<and> P c then k \<le> n \<and> (\<forall>c. k \<le> c \<longrightarrow> c < n \<longrightarrow> \<not> P c)
     else \<forall>c. n < c \<longrightarrow> c < m \<longrightarrow> \<not> P c)"
proof (cases "find (\<lambda>c. k \<le> c) (filter P [start..<m])")
  case None
  have no: "\<not> (\<exists>c. k \<le> c \<and> c < m \<and> P c)"
    using find_sorted_candidates [OF None assms(2)] by simp
  show ?thesis
    unfolding None option.case if_not_P [OF no] using last_candidate [OF assms(1), of n] by auto
next
  case (Some c)
  have c: "P c" "k \<le> c" "c < m" "\<And>j. k \<le> j \<Longrightarrow> j < c \<Longrightarrow> \<not> P j"
    using find_sorted_candidates [OF Some assms(2)] by auto
  then have yes: "\<exists>c. k \<le> c \<and> c < m \<and> P c" by blast
  show ?thesis
    unfolding Some option.case if_P [OF yes]
  proof
    assume "c = n"
    then show "start \<le> n \<and> n < m \<and> P n \<and> k \<le> n \<and> (\<forall>c. k \<le> c \<longrightarrow> c < n \<longrightarrow> \<not> P c)" using c assms(2) by auto
  next
    assume "start \<le> n \<and> n < m \<and> P n \<and> k \<le> n \<and> (\<forall>c. k \<le> c \<longrightarrow> c < n \<longrightarrow> \<not> P c)"
    then show "c = n" using c by (metis linorder_neqE_nat)
  qed
qed

lemma select_cut_iff:
  fixes view
  defines "cs \<equiv> vw_contributions view" and "start \<equiv> view_start view"
  shows "select_cut to_chars view keep = Some n \<longleftrightarrow>
    (\<exists>k. start \<le> k \<and> k < length cs \<and> keep \<le> tokens_from to_chars cs k \<and>
       (\<forall>j. k < j \<longrightarrow> j < length cs \<longrightarrow> tokens_from to_chars cs j < keep) \<and>
       start \<le> n \<and> n < length cs \<and> is_candidate cs n \<and>
       (if \<exists>c. k \<le> c \<and> c < length cs \<and> is_candidate cs c
        then k \<le> n \<and> (\<forall>c. k \<le> c \<longrightarrow> c < n \<longrightarrow> \<not> is_candidate cs c)
        else \<forall>c. n < c \<longrightarrow> c < length cs \<longrightarrow> \<not> is_candidate cs c) \<and>
       (\<exists>i. start \<le> i \<and> i < n \<and> cs ! i \<noteq> []))"
proof -
  let ?cands = "filter (is_candidate cs) [start..<length cs]"
  let ?index = "budget_index (\<lambda>ms. sum_list (map (estimate_message_tokens to_chars) ms)) cs start (length cs) 0 keep"
  let ?pick = "\<lambda>k. case find (\<lambda>c. k \<le> c) ?cands of None \<Rightarrow> last ?cands | Some c \<Rightarrow> c"
  have "tokens_from to_chars cs (length cs) = 0" by (simp add: tokens_from_def)
  then have index: "?index = Some k \<longleftrightarrow> start \<le> k \<and> k < length cs \<and> keep \<le> tokens_from to_chars cs k \<and>
      (\<forall>j. k < j \<longrightarrow> j < length cs \<longrightarrow> tokens_from to_chars cs j < keep)" for k
    using budget_index_exact [of "length cs" cs to_chars start keep k] by simp
  have "select_cut to_chars view keep = Some n \<longleftrightarrow>
      ?cands \<noteq> [] \<and> (\<exists>k. ?index = Some k \<and> ?pick k = n \<and> (\<exists>i. start \<le> i \<and> i < n \<and> cs ! i \<noteq> []))"
    unfolding select_cut_def Let_def cs_def [symmetric] start_def [symmetric]
    by (cases ?index) (auto simp del: filter_empty_conv)
  moreover have "?cands \<noteq> [] \<and> ?pick k = n \<longleftrightarrow> start \<le> n \<and> n < length cs \<and> is_candidate cs n \<and>
      (if \<exists>c. k \<le> c \<and> c < length cs \<and> is_candidate cs c
        then k \<le> n \<and> (\<forall>c. k \<le> c \<longrightarrow> c < n \<longrightarrow> \<not> is_candidate cs c)
        else \<forall>c. n < c \<longrightarrow> c < length cs \<longrightarrow> \<not> is_candidate cs c)" if k: "?index = Some k" for k
  proof (cases "?cands = []")
    case True
    then show ?thesis by (auto simp: filter_empty_conv)
  next
    case False
    have "start \<le> k" using k index by blast
    then show ?thesis using pick_candidate [OF False, of k] False by blast
  qed
  ultimately show ?thesis unfolding index by blast
qed

section \<open>Answered transcripts\<close>

text \<open>A result that answers a call.\<close>

definition answers :: "json members \<Rightarrow> json \<Rightarrow> bool" where
  "answers call r \<longleftrightarrow>
     context_role r = ''toolResult'' \<and> (\<exists>ob. as_object r = Some ob \<and> find_member ob ''toolCallId'' = find_member call ''id'')"

text \<open>
  A transcript as the model providers require it: directly after an assistant message come the
  results of its calls, in the order of the calls, and there are no other results.
\<close>

function answered :: "json list \<Rightarrow> bool" where
  "answered [] = True"
| "answered (m # ms) =
     (context_role m \<noteq> ''toolResult'' \<and>
      (if context_role m = ''assistant''
       then list_all2 answers (message_calls m) (take (length (message_calls m)) ms) \<and>
            answered (drop (length (message_calls m)) ms)
       else answered ms))"
  by pat_completeness auto
termination
  by (relation "measure length") auto

lemma missing_result_answers:
  assumes "call \<in> set (message_calls m)"
  shows "answers call (missing_result call m)"
proof -
  obtain blocks block where "block \<in> set blocks" "is_call block = Some call"
    using assms by (auto simp: message_calls_def set_map_filter split: option.splits)
  then have "contains_key call ''id''" by (auto simp: is_call_def bind_eq_Some_conv split: if_splits)
  then obtain v where "find_member call ''id'' = Some v" by (auto simp: contains_key_iff)
  then show ?thesis
    by (auto simp: answers_def missing_result_def context_role_def at_key_find emplace_def Let_def split: option.splits)
qed

lemma call_result_answers:
  assumes "call \<in> set (message_calls m)"
  shows "answers call (call_result m (collect_results ms []) call)"
proof (cases "Option.bind (string_member call ''id'') (first_result ms)")
  case None
  then show ?thesis using missing_result_answers [OF assms] by (simp add: call_result_first)
next
  case (Some r)
  then obtain i where i: "string_member call ''id'' = Some i" "first_result ms i = Some r" by (auto simp: bind_eq_Some_conv)
  then have "result_id r = Some i" by (auto simp: first_result_def find_Some_iff)
  then have "answers call r"
    using i(1) by (auto simp: answers_def result_id_def string_member_def bind_eq_Some_conv as_Some split: if_splits)
  then show ?thesis using Some by (simp add: call_result_first)
qed

lemma answered_order: "answered (order_tool_results ms)"
proof (induction ms)
  case (Cons m ms)
  then show ?case using call_result_answers [of _ m] by (auto simp: list_all2_map2 list_all2_same)
qed simp

lemma kept_order:
  "filter (\<lambda>m. context_role m \<noteq> ''toolResult'') (order_tool_results ms) = filter (\<lambda>m. context_role m \<noteq> ''toolResult'') ms"
proof (induction ms)
  case (Cons m ms)
  have "filter (\<lambda>m. context_role m \<noteq> ''toolResult'') (map (call_result m (collect_results ms [])) (message_calls m)) = []"
    using call_result_answers [of _ m ms] by (auto simp: filter_empty_conv answers_def)
  then show ?case using Cons by simp
qed simp

text \<open>Taking a system message out of an answered transcript.\<close>

lemma answered_remove:
  assumes "answered (as @ x # bs)" "context_role x \<noteq> ''toolResult''" "context_role x \<noteq> ''assistant''"
  shows "answered (as @ bs)"
  using assms(1)
proof (induction as rule: length_induct)
  case (1 as)
  show ?case
  proof (cases as)
    case Nil
    then show ?thesis using 1 assms by simp
  next
    case (Cons m rest)
    let ?n = "length (message_calls m)"
    show ?thesis
    proof (cases "context_role m = ''assistant''")
      case False
      then show ?thesis using 1 Cons by simp
    next
      case True
      have a: "list_all2 answers (message_calls m) (take ?n (rest @ x # bs))" "answered (drop ?n (rest @ x # bs))"
        using 1(2) Cons True by simp_all
      have n: "?n \<le> length rest"
      proof (rule ccontr)
        assume no: "\<not> ?n \<le> length rest"
        have "length (take ?n (rest @ x # bs)) = ?n" using list_all2_lengthD [OF a(1)] by simp
        then have "answers (message_calls m ! length rest) (take ?n (rest @ x # bs) ! length rest)"
          using list_all2_nthD [OF a(1), of "length rest"] no by simp
        moreover have "take ?n (rest @ x # bs) ! length rest = x" using no by (subst nth_take) simp_all
        ultimately show False using assms(2) unfolding answers_def by metis
      qed
      have "answered (drop ?n rest @ bs)"
        using 1(1) [rule_format, of "drop ?n rest"] a(2) n Cons by simp
      moreover have "take ?n (rest @ bs) = take ?n (rest @ x # bs)" using n by simp
      ultimately show ?thesis using 1(2) Cons True a(1) n by simp
    qed
  qed
qed

lemma answered_lift:
  assumes "answered ms"
  shows "answered (lift_system baseline ms)"
proof -
  let ?prior = "takeWhile (\<lambda>m. \<not> is_system_message m) ms"
  show ?thesis
  proof (cases "drop (length ?prior) ms")
    case Nil
    then show ?thesis using assms by (simp add: lift_system_def Let_def)
  next
    case (Cons system rest)
    have ms: "ms = ?prior @ system # rest"
      by (metis Cons append_take_drop_id takeWhile_eq_take)
    have "is_system_message system" using Cons by (metis dropWhile_eq_drop dropWhile_eq_Cons_conv)
    then have r: "context_role system = ''system''" by (simp add: is_system_message_def)
    have "answered (?prior @ rest)"
      by (rule answered_remove [of ?prior system rest]) (use assms ms r in simp_all)
    then have "answered (system # ?prior @ rest)" using r by simp
    then show ?thesis using assms Cons by (simp add: lift_system_def Let_def del: answered.simps)
  qed
qed

section \<open>Properties\<close>

text \<open>A call whose result comes late, after another user message.\<close>

definition sample_call :: json where
  "sample_call = JObj [(''role'', JStr ''assistant''),
     (''content'', JArr [JObj [(''type'', JStr ''toolCall''), (''id'', JStr ''c''), (''name'', JStr ''n'')]])]"

definition sample_result :: json where
  "sample_result = JObj [(''role'', JStr ''toolResult''), (''toolCallId'', JStr ''c''), (''content'', JStr ''r'')]"

definition sample_view :: context_view where
  "sample_view = empty_view\<lparr>vw_contributions :=
     [[sample_message ''user'' ''a''], [sample_call], [sample_message ''user'' ''b''], [sample_result]]\<rparr>"

definition sample_digits :: "dbl \<Rightarrow> string" where
  "sample_digits = (\<lambda>_. ''0'')"

lemma sample_cut: "select_cut sample_digits sample_view 1 = Some 1"
  by code_simp

text \<open>
  C15. Every context the code derives is answered: whenever a context view is returned, directly after
  each assistant message come results for exactly its tool calls, in the order of the calls, and no
  other tool result occurs; a missing result is filled in and a stray or late one is dropped or moved.
\<close>

theorem context_is_answered:
  assumes "context_view_at s tx c sel = Inr view"
  shows "answered (vw_messages view)"
  using assms answered_lift [OF answered_order]
  by (auto simp: context_view_at_def build_view_def empty_view_def Let_def split: if_splits)

theorem context_is_answered_witness:
  "\<exists>view. context_view_at sample_conversation tx_init 1 None = Inr view \<and> answered (vw_messages view)"
proof -
  obtain view where "context_view_at sample_conversation tx_init 1 None = Inr view"
    using marker_messages_dropped by (cases "context_view_at sample_conversation tx_init 1 None") (auto simp: context_messages_def)
  with context_is_answered [OF this] show ?thesis by blast
qed

text \<open>
  C14. A compaction never separates a tool call from its result: at the cut it selects, the messages to be
  summarized and the messages that are kept, each ordered on its own, are together exactly the ordered
  messages of the whole range.
\<close>

theorem cut_keeps_calls_together:
  assumes "select_cut to_chars view keep = Some n"
  shows "summarized_messages view n @ order_tool_results (concat (drop n (vw_contributions view))) =
    order_tool_results (concat (vw_contributions view))"
proof -
  let ?cs = "vw_contributions view"
  have "is_candidate ?cs n" using assms unfolding select_cut_iff by blast
  then have "whole_calls_cut (concat (take n ?cs)) (concat (drop n ?cs))" by (rule candidate_clean)
  from order_append [OF this] show ?thesis
    by (simp add: summarized_messages_def flip: concat_append)
qed

theorem cut_keeps_calls_together_witness:
  "summarized_messages sample_view 1 @ order_tool_results [sample_call, sample_message ''user'' ''b'', sample_result] =
     [sample_message ''user'' ''a'', sample_call, sample_result, sample_message ''user'' ''b'']"
proof -
  have "order_tool_results (concat (vw_contributions sample_view)) =
      [sample_message ''user'' ''a'', sample_call, sample_result, sample_message ''user'' ''b'']"
    by code_simp
  with cut_keeps_calls_together [OF sample_cut] show ?thesis by (simp add: sample_view_def)
qed

text \<open>
  The cut is the one the budget asks for: let k be the last entry from which the messages reach the
  budget of recent tokens; the cut is the first entry from k on at which a kept range may start,
  or the last such entry before k if there is none, and it is made exactly if it summarizes something.
\<close>

theorem select_cut_exact:
  "select_cut to_chars view keep = Some n \<longleftrightarrow>
     (\<exists>k. view_start view \<le> k \<and> k < length (vw_contributions view) \<and>
        keep \<le> tokens_from to_chars (vw_contributions view) k \<and>
        (\<forall>j. k < j \<longrightarrow> j < length (vw_contributions view) \<longrightarrow> tokens_from to_chars (vw_contributions view) j < keep) \<and>
        view_start view \<le> n \<and> n < length (vw_contributions view) \<and> is_candidate (vw_contributions view) n \<and>
        (if \<exists>c. k \<le> c \<and> c < length (vw_contributions view) \<and> is_candidate (vw_contributions view) c
         then k \<le> n \<and> (\<forall>c. k \<le> c \<longrightarrow> c < n \<longrightarrow> \<not> is_candidate (vw_contributions view) c)
         else \<forall>c. n < c \<longrightarrow> c < length (vw_contributions view) \<longrightarrow> \<not> is_candidate (vw_contributions view) c) \<and>
        (\<exists>i. view_start view \<le> i \<and> i < n \<and> vw_contributions view ! i \<noteq> []))"
  by (rule select_cut_iff)

theorem select_cut_exact_witness:
  "\<exists>k<4. 1 \<le> tokens_from sample_digits (vw_contributions sample_view) k \<and> is_candidate (vw_contributions sample_view) 1"
proof -
  have "length (vw_contributions sample_view) = 4" by code_simp
  with sample_cut [unfolded select_cut_exact] show ?thesis by auto
qed

end
