(* ===== verification/Git_Ignore.thy ===== *)
theory Git_Ignore
  imports Bounded_Text
begin

text \<open>
  \<^verbatim>\<open>src/src/durable/GitIgnore.cpp\<close>: globs, rule files and the lookup of the global excludes file. A
  position in the glob or the path is the rest of the text from there; the parser also carries the
  character before it. Paths and globs are lists of bytes. The environment, the bounded read of a
  file and \<^verbatim>\<open>stat\<close> are parameters; a rule file is the list of chunks that \<^verbatim>\<open>read\<close> returns.
\<close>

section \<open>Globs\<close>

datatype token =
    LiteralByte char
  | AnyByte
  | Star
  | ByteClass bool "(char \<times> char) list"
  | RecursivePrefix
  | RecursiveSuffix
  | RecursiveZeroOrMore
  | Alternates "token list list"

definition backslash :: char where
  "backslash = CHR 0x5C"

definition is_separator :: "char \<Rightarrow> bool" where
  "is_separator c \<longleftrightarrow> c = CHR ''/''"

definition push_token :: "token \<Rightarrow> token list list \<Rightarrow> token list list" where
  "push_token t branches = butlast branches @ [last branches @ [t]]"

definition pop_token :: "token list list \<Rightarrow> token list list \<times> token" where
  "pop_token branches = (butlast branches @ [butlast (last branches)], last (last branches))"

text \<open>The scan of a class, after an optional negation.\<close>

datatype class_scan = ClassUnclosed | ClassInvalid | ClassClosed "(char \<times> char) list" string

definition close_range :: "char \<Rightarrow> (char \<times> char) list \<Rightarrow> (char \<times> char) list option" where
  "close_range c ranges =
     (if uchar c < uchar (fst (last ranges)) then None else Some (butlast ranges @ [(fst (last ranges), c)]))"

fun class_loop :: "bool \<Rightarrow> bool \<Rightarrow> (char \<times> char) list \<Rightarrow> string \<Rightarrow> class_scan" where
  "class_loop first in_range ranges [] = ClassUnclosed"
| "class_loop first in_range ranges (c # cs) =
     (if c = CHR '']''
      then (if first then class_loop False in_range (ranges @ [(c, c)]) cs
            else ClassClosed (if in_range then ranges @ [(CHR ''-'', CHR ''-'')] else ranges) cs)
      else if c = CHR ''-'' \<and> first then class_loop False in_range (ranges @ [(c, c)]) cs
      else if c = CHR ''-'' \<and> \<not> in_range then class_loop False True ranges cs
      else if in_range
      then (case close_range c ranges of None \<Rightarrow> ClassInvalid | Some ranges' \<Rightarrow> class_loop False False ranges' cs)
      else class_loop False False (ranges @ [(c, c)]) cs)"

definition parse_class :: "string \<Rightarrow> bool \<times> class_scan" where
  "parse_class cs =
     (case cs of
        c # rest \<Rightarrow>
          if c = CHR ''!'' \<or> c = CHR ''^'' then (True, class_loop True False [] rest) else (False, class_loop True False [] cs)
      | [] \<Rightarrow> (False, class_loop True False [] cs))"

text \<open>
  After a star with this character before it: the new branches, the character now before the
  position, and the rest.
\<close>

definition two_stars :: "token list list \<Rightarrow> string \<Rightarrow> token list list \<times> char \<times> string" where
  "two_stars branches cs = (push_token Star (push_token Star branches), CHR ''*'', cs)"

definition recursive_token :: "bool \<Rightarrow> token list list \<Rightarrow> token list list" where
  "recursive_token is_suffix branches =
     (case pop_token branches of
        (popped, previous) \<Rightarrow>
          push_token
            (if previous = RecursivePrefix then RecursivePrefix
             else if previous = RecursiveSuffix then RecursiveSuffix
             else if is_suffix then RecursiveSuffix else RecursiveZeroOrMore) popped)"

definition parse_star :: "char option \<Rightarrow> token list list \<Rightarrow> string \<Rightarrow> token list list \<times> char \<times> string" where
  "parse_star entry_prev branches cs =
     (case cs of
        star # rest \<Rightarrow>
          if star \<noteq> CHR ''*'' then (push_token Star branches, CHR ''*'', cs)
          else if last branches = []
          then (case rest of
                  after # rest' \<Rightarrow>
                    if \<not> is_separator after then two_stars branches rest
                    else (push_token RecursivePrefix branches, after, rest')
                | [] \<Rightarrow> (push_token RecursivePrefix branches, star, []))
          else if entry_prev \<noteq> Some CHR ''/'' \<and>
                  (length branches \<le> 1 \<or> entry_prev \<noteq> Some CHR '','' \<and> entry_prev \<noteq> Some CHR ''{'')
          then two_stars branches rest
          else (case rest of
                  [] \<Rightarrow> (recursive_token True branches, star, [])
                | after # rest' \<Rightarrow>
                    if (after = CHR '','' \<or> after = CHR ''}'') \<and> length branches \<ge> 2
                    then (recursive_token True branches, star, rest)
                    else if is_separator after then (recursive_token False branches, after, rest')
                    else two_stars branches rest)
      | [] \<Rightarrow> (push_token Star branches, CHR ''*'', []))"

lemma parse_star_shorter: "parse_star p b cs = (b', c', cs') \<Longrightarrow> length cs' \<le> length cs"
  by (auto simp: parse_star_def two_stars_def split: list.splits if_splits)

lemma class_loop_shorter: "class_loop f r rs cs = ClassClosed rs' cs' \<Longrightarrow> length cs' < length cs"
  by (induction f r rs cs rule: class_loop.induct) (auto split: if_splits option.splits)

lemma parse_class_shorter: "parse_class cs = (n, ClassClosed rs cs') \<Longrightarrow> length cs' < length cs"
  by (auto simp: parse_class_def split: list.splits if_splits dest!: class_loop_shorter)

definition pop_alternate :: "nat list \<Rightarrow> token list list \<Rightarrow> token list list" where
  "pop_alternate stack branches =
     push_token (Alternates (drop (hd stack) branches)) (take (hd stack) branches)"

function parse_loop :: "char option \<Rightarrow> bool \<Rightarrow> nat list \<Rightarrow> token list list \<Rightarrow> string \<Rightarrow> token list option" where
  "parse_loop prev unclosed stack branches [] =
     (if stack \<noteq> [] then None else if length branches \<noteq> 1 then None else Some (hd branches))"
| "parse_loop prev unclosed stack branches (c # cs) =
     (if c = CHR ''?'' then parse_loop (Some c) unclosed stack (push_token AnyByte branches) cs
      else if c = CHR ''*''
      then (case parse_star prev branches cs of
              (branches', c', cs') \<Rightarrow> parse_loop (Some c') unclosed stack branches' cs')
      else if c = CHR ''['' \<and> \<not> unclosed
      then (case parse_class cs of
              (negated, ClassUnclosed) \<Rightarrow> parse_loop (Some c) True stack (push_token (LiteralByte c) branches) cs
            | (negated, ClassInvalid) \<Rightarrow> None
            | (negated, ClassClosed ranges cs') \<Rightarrow>
                parse_loop (Some CHR '']'') unclosed stack (push_token (ByteClass negated ranges) branches) cs')
      else if c = CHR ''{'' then parse_loop (Some c) unclosed (length branches # stack) (branches @ [[]]) cs
      else if c = CHR ''}''
      then (if stack = [] then None
            else parse_loop (Some c) unclosed (tl stack) (pop_alternate stack branches) cs)
      else if c = CHR '',''
      then (if stack = [] then parse_loop (Some c) unclosed stack (push_token (LiteralByte c) branches) cs
            else parse_loop (Some c) unclosed stack (branches @ [[]]) cs)
      else if c = backslash
      then (case cs of
              [] \<Rightarrow> None
            | e # cs' \<Rightarrow> parse_loop (Some e) unclosed stack (push_token (LiteralByte e) branches) cs')
      else parse_loop (Some c) unclosed stack (push_token (LiteralByte c) branches) cs)"
  by pat_completeness auto
termination
  by (relation "measure (\<lambda>(_, _, _, _, cs). length cs)")
    (auto dest!: parse_star_shorter [OF sym] parse_class_shorter [OF sym])

declare parse_loop.simps [simp del]

definition parse_glob :: "string \<Rightarrow> token list option" where
  "parse_glob glob = parse_loop None False [] [[]] glob"

section \<open>Matching\<close>

definition in_class :: "char \<Rightarrow> (char \<times> char) list \<Rightarrow> bool" where
  "in_class c ranges = list_ex (\<lambda>(low, high). uchar low \<le> uchar c \<and> uchar c \<le> uchar high) ranges"

text \<open>The lengths a star tries, longest first, and the positions after each later separator.\<close>

definition star_lengths :: "string \<Rightarrow> nat list" where
  "star_lengths p = rev [0..<Suc (length (takeWhile (\<lambda>c. c \<noteq> CHR ''/'') p))]"

fun after_separators :: "string \<Rightarrow> string list" where
  "after_separators [] = []"
| "after_separators (c # p) = (if c = CHR ''/'' then [p] else []) @ after_separators p"

function match_from :: "token list \<Rightarrow> string \<Rightarrow> bool"
  and match_branch :: "token list \<Rightarrow> token list \<Rightarrow> string \<Rightarrow> bool" where
  "match_from [] p = (p = [])"
| "match_from (t # ts) p =
     (case t of
        LiteralByte b \<Rightarrow> (case p of [] \<Rightarrow> False | c # q \<Rightarrow> c = b \<and> match_from ts q)
      | AnyByte \<Rightarrow> (case p of [] \<Rightarrow> False | c # q \<Rightarrow> c \<noteq> CHR ''/'' \<and> match_from ts q)
      | Star \<Rightarrow> list_ex (\<lambda>n. match_from ts (drop n p)) (star_lengths p)
      | ByteClass negated ranges \<Rightarrow>
          (case p of [] \<Rightarrow> False | c # q \<Rightarrow> if in_class c ranges = negated then False else match_from ts q)
      | RecursivePrefix \<Rightarrow> match_from ts p \<or> list_ex (match_from ts) (after_separators p)
      | RecursiveSuffix \<Rightarrow> (case p of [] \<Rightarrow> False | c # q \<Rightarrow> c = CHR ''/'' \<and> match_from ts [])
      | RecursiveZeroOrMore \<Rightarrow>
          (case p of [] \<Rightarrow> False
           | c # q \<Rightarrow> c = CHR ''/'' \<and> (match_from ts q \<or> list_ex (match_from ts) (after_separators q)))
      | Alternates branches \<Rightarrow> list_ex (\<lambda>branch. match_branch branch ts p) branches)"
| "match_branch [] rest p = match_from rest p"
| "match_branch (t # ts) rest p =
     (case t of
        LiteralByte b \<Rightarrow> (case p of [] \<Rightarrow> False | c # q \<Rightarrow> c = b \<and> match_branch ts rest q)
      | AnyByte \<Rightarrow> (case p of [] \<Rightarrow> False | c # q \<Rightarrow> c \<noteq> CHR ''/'' \<and> match_branch ts rest q)
      | Star \<Rightarrow> list_ex (\<lambda>n. match_branch ts rest (drop n p)) (star_lengths p)
      | ByteClass negated ranges \<Rightarrow>
          (case p of [] \<Rightarrow> False | c # q \<Rightarrow> if in_class c ranges = negated then False else match_branch ts rest q)
      | _ \<Rightarrow> False)"
  by pat_completeness auto
termination
  by (relation "measures [\<lambda>x. case x of Inl (ts, _) \<Rightarrow> length ts | Inr (_, rest, _) \<Rightarrow> length rest,
      \<lambda>x. case x of Inl _ \<Rightarrow> 0 | Inr (branch, _, _) \<Rightarrow> Suc (length branch)]") auto

definition tokens_match_everything :: "token list \<Rightarrow> bool" where
  "tokens_match_everything ts \<longleftrightarrow> ts = [RecursivePrefix]"

definition token_match :: "token list \<Rightarrow> string \<Rightarrow> bool" where
  "token_match ts p \<longleftrightarrow> tokens_match_everything ts \<or> match_from ts p"

section \<open>Rule files\<close>

record rule =
  ru_tokens :: "token list"
  ru_whitelist :: bool
  ru_dir_only :: bool

record rule_budget =
  rb_max_rule_bytes :: nat
  rb_max_rules :: nat
  rb_rule_bytes :: nat
  rb_rules :: nat

datatype ignore_error = TooManyRules nat | TooManyRuleBytes nat

datatype ignore_match = MatchNone | MatchIgnore | MatchWhitelist

definition ends_with :: "string \<Rightarrow> string \<Rightarrow> bool" where
  "ends_with t u \<longleftrightarrow> length u \<le> length t \<and> drop (length t - length u) t = u"

definition starts_with :: "string \<Rightarrow> string \<Rightarrow> bool" where
  "starts_with t u \<longleftrightarrow> take (length u) t = u"

definition has_doublestar_prefix :: "string \<Rightarrow> bool" where
  "has_doublestar_prefix actual \<longleftrightarrow> actual = ''**'' \<or> starts_with actual ''**/''"

definition is_ascii_blank :: "char \<Rightarrow> bool" where
  "is_ascii_blank c \<longleftrightarrow> c \<in> {CHR '' '', CHR 0x09, CHR 0x0D, CHR 0x0B, CHR 0x0C}"

definition trim_ascii_end :: "string \<Rightarrow> string" where
  "trim_ascii_end line = rev (dropWhile is_ascii_blank (rev line))"

text \<open>The line without byte order mark and trailing blanks; \<open>None\<close> for a comment or an empty line.\<close>

definition rule_text :: "string \<Rightarrow> bool \<Rightarrow> string option" where
  "rule_text line first_line =
     (let line1 = (if first_line \<and> map uchar (take 3 line) = [0xef, 0xbb, 0xbf] then drop 3 line else line)
      in if line1 \<noteq> [] \<and> hd line1 = CHR ''#'' then None
         else let line2 = (if ends_with line1 [backslash, CHR '' ''] then line1 else trim_ascii_end line1)
              in if line2 = [] then None else Some line2)"

text \<open>Whitelist mark and leading separator: whether it whitelists, whether it is anchored, the rest.\<close>

definition rule_head :: "string \<Rightarrow> bool \<times> bool \<times> string" where
  "rule_head line =
     (if starts_with line [backslash, CHR ''!''] \<or> starts_with line [backslash, CHR ''#'']
      then (False, tl line \<noteq> [] \<and> hd (tl line) = CHR ''/'', tl line)
      else let whitelist = (line \<noteq> [] \<and> hd line = CHR ''!'');
               line1 = (if whitelist then tl line else line);
               absolute = (line1 \<noteq> [] \<and> hd line1 = CHR ''/'')
           in (whitelist, absolute, if absolute then tl line1 else line1))"

definition rule_dir_only :: "string \<Rightarrow> bool \<times> string" where
  "rule_dir_only line =
     (if line \<noteq> [] \<and> last line = CHR ''/''
      then let line1 = butlast line
           in (True, if line1 \<noteq> [] \<and> last line1 = backslash then butlast line1 else line1)
      else (False, line))"

definition rule_glob :: "bool \<Rightarrow> string \<Rightarrow> string" where
  "rule_glob absolute line =
     (let actual = (if \<not> absolute \<and> CHR ''/'' \<notin> set line \<and> \<not> has_doublestar_prefix line then ''**/'' @ line else line)
      in if length actual \<ge> 3 \<and> ends_with actual ''/**'' then actual @ ''/*'' else actual)"

definition add_line :: "string \<Rightarrow> bool \<Rightarrow> rule list \<times> rule_budget \<Rightarrow> (ignore_error, rule list \<times> rule_budget) result" where
  "add_line line first_line st =
     (case st of
        (rules, budget) \<Rightarrow>
          (case rule_text line first_line of
             None \<Rightarrow> Inr st
           | Some line1 \<Rightarrow>
               (case rule_head line1 of
                  (whitelist, absolute, line2) \<Rightarrow>
                    (case rule_dir_only line2 of
                       (dir_only, line3) \<Rightarrow>
                         let actual = rule_glob absolute line3
                         in (case parse_glob actual of
                               None \<Rightarrow> Inr st
                             | Some ts \<Rightarrow>
                                 if rb_rules budget \<ge> rb_max_rules budget then Inl (TooManyRules (rb_max_rules budget))
                                 else if rb_rule_bytes budget + length actual > rb_max_rule_bytes budget
                                 then Inl (TooManyRuleBytes (rb_max_rule_bytes budget))
                                 else Inr (rules @ [\<lparr>ru_tokens = ts, ru_whitelist = whitelist, ru_dir_only = dir_only\<rparr>],
                                           budget\<lparr>rb_rules := rb_rules budget + 1,
                                                  rb_rule_bytes := rb_rule_bytes budget + length actual\<rparr>))))))"

fun match_loop :: "rule list \<Rightarrow> string \<Rightarrow> bool \<Rightarrow> ignore_match" where
  "match_loop [] path is_dir = MatchNone"
| "match_loop (r # rs) path is_dir =
     (if ru_dir_only r \<and> \<not> is_dir then match_loop rs path is_dir
      else if token_match (ru_tokens r) path then (if ru_whitelist r then MatchWhitelist else MatchIgnore)
      else match_loop rs path is_dir)"

definition match_rules :: "rule list \<Rightarrow> string \<Rightarrow> bool \<Rightarrow> ignore_match" where
  "match_rules rules path is_dir = match_loop (rev rules) path is_dir"

text \<open>Loading a rule file chunk by chunk; a line keeps at most \<^verbatim>\<open>kRuleLineMaxBytes\<close>.\<close>

definition kRuleLineMaxBytes :: nat where
  "kRuleLineMaxBytes = 1024 * 1024"

record load_state =
  ld_line :: string
  ld_first :: bool
  ld_discard_tail :: bool
  ld_rules :: "rule list \<times> rule_budget"

definition drop_return :: "string \<Rightarrow> string" where
  "drop_return line = (if line \<noteq> [] \<and> last line = CHR 0x0D then butlast line else line)"

definition flush_line :: "load_state \<Rightarrow> (ignore_error, load_state) result" where
  "flush_line st =
     (case add_line (drop_return (ld_line st)) (ld_first st) (ld_rules st) of
        Inl e \<Rightarrow> Inl e
      | Inr rules \<Rightarrow> Inr (st\<lparr>ld_line := [], ld_first := False, ld_rules := rules\<rparr>))"

definition append_segment :: "nat \<Rightarrow> string \<Rightarrow> load_state \<Rightarrow> load_state" where
  "append_segment limit seg st =
     (if ld_discard_tail st then st
      else let room = limit - length (ld_line st)
           in st\<lparr>ld_line := ld_line st @ take room seg, ld_discard_tail := length seg > room\<rparr>)"

function load_chunk :: "nat \<Rightarrow> string \<Rightarrow> load_state \<Rightarrow> (ignore_error, load_state) result" where
  "load_chunk limit chunk st =
     (if chunk = [] then Inr st
      else let seg = takeWhile (\<lambda>c. c \<noteq> line_feed) chunk;
               rest = dropWhile (\<lambda>c. c \<noteq> line_feed) chunk;
               st1 = append_segment limit seg st
           in if rest = [] then Inr st1
              else bind_r (flush_line st1) (\<lambda>st2. load_chunk limit (tl rest) (st2\<lparr>ld_discard_tail := False\<rparr>)))"
  by pat_completeness auto
termination
proof (relation "measure (\<lambda>(_, chunk, _). length chunk)", goal_cases)
  case (2 limit chunk st seg rest st1 st2)
  have "length (dropWhile (\<lambda>c. c \<noteq> line_feed) chunk) \<le> length chunk" by (rule length_dropWhile_le)
  then show ?case using 2 by (cases "dropWhile (\<lambda>c. c \<noteq> line_feed) chunk") auto
qed simp

declare load_chunk.simps [simp del]

definition load_rule_file ::
    "nat \<Rightarrow> string list \<Rightarrow> rule list \<times> rule_budget \<Rightarrow> (ignore_error, rule list \<times> rule_budget) result" where
  "load_rule_file limit chunks rules =
     bind_r (fold_r (\<lambda>st chunk. load_chunk limit chunk st)
               \<lparr>ld_line = [], ld_first = True, ld_discard_tail = False, ld_rules = rules\<rparr> chunks) (\<lambda>st.
     if chunks \<noteq> [] \<and> (ld_line st \<noteq> [] \<or> ld_first st)
     then bind_r (flush_line st) (\<lambda>st'. Inr (ld_rules st')) else Inr (ld_rules st))"

end
