(* ===== verification/Git_Config.thy ===== *)
theory Git_Config
  imports Git_Ignore
begin

text \<open>
  \<^verbatim>\<open>src/src/durable/GitIgnore.cpp\<close>: where the global excludes file is, where a work tree's excludes are,
  and the rendering of names. \<^verbatim>\<open>getenv\<close>, the bytes a file yields (\<open>None\<close> if it does not open), the kind
  of a file and the home directory of the user's account are parameters.
\<close>

section \<open>The excludes file of a git configuration\<close>

definition is_space :: "char \<Rightarrow> bool" where
  "is_space c \<longleftrightarrow> c = CHR '' '' \<or> c = CHR 0x09"

definition skip_spaces :: "string \<Rightarrow> string" where
  "skip_spaces t = dropWhile is_space t"

definition skip_char :: "char \<Rightarrow> string \<Rightarrow> string" where
  "skip_char c t = (case t of [] \<Rightarrow> [] | d # u \<Rightarrow> if d = c then u else t)"

definition lower_ascii :: "char \<Rightarrow> char" where
  "lower_ascii c = (if 65 \<le> uchar c \<and> uchar c \<le> 90 then char_of (uchar c + 32) else c)"

definition excludes_key :: string where
  "excludes_key = ''excludesfile''"

definition scan_excludes_line :: "string \<Rightarrow> string option" where
  "scan_excludes_line line0 =
     (let line = skip_spaces (drop_return line0)
      in if map lower_ascii (take (length excludes_key) line) \<noteq> excludes_key then None
         else (case skip_spaces (drop (length excludes_key) line) of
                 [] \<Rightarrow> None
               | c # rest \<Rightarrow>
                   if c \<noteq> CHR ''='' then None
                   else let body = skip_spaces (skip_char (CHR 0x22) (skip_spaces rest));
                            tok = takeWhile (\<lambda>c. \<not> is_space c \<and> c \<noteq> CHR 0x22) body;
                            after = skip_spaces (skip_char (CHR 0x22) (drop (length tok) body))
                        in if tok \<noteq> [] \<and> after = [] then Some tok else None))"

function split_at_feeds :: "string \<Rightarrow> string list" where
  "split_at_feeds t =
     (case dropWhile (\<lambda>c. c \<noteq> line_feed) t of
        [] \<Rightarrow> [t]
      | _ # rest \<Rightarrow> takeWhile (\<lambda>c. c \<noteq> line_feed) t # split_at_feeds rest)"
  by pat_completeness auto
termination
proof (relation "measure length", goal_cases)
  case (2 t c rest)
  then show ?case using length_dropWhile_le [of "\<lambda>c. c \<noteq> line_feed" t] by simp
qed simp

declare split_at_feeds.simps [simp del]

fun first_some :: "('a \<Rightarrow> 'b option) \<Rightarrow> 'a list \<Rightarrow> 'b option" where
  "first_some f [] = None"
| "first_some f (x # xs) = (case f x of Some y \<Rightarrow> Some y | None \<Rightarrow> first_some f xs)"

definition scan_excludes_file :: "string \<Rightarrow> string option" where
  "scan_excludes_file contents = first_some scan_excludes_line (split_at_feeds contents)"

definition expand_tilde :: "string \<Rightarrow> string \<Rightarrow> string" where
  "expand_tilde home path =
     (if path \<noteq> ''~'' \<and> \<not> starts_with path ''~/'' then path
      else if home = [] then path
      else if path = ''~'' then home else home @ tl path)"

record file_system =
  fs_getenv :: "string \<Rightarrow> string option"
  fs_contents :: "string \<Rightarrow> string option"
  fs_is_regular :: "string \<Rightarrow> bool option"
  fs_passwd_home :: "string option"

definition kConfigMaxBytes :: nat where
  "kConfigMaxBytes = 1024 * 1024"

definition read_bounded_file :: "file_system \<Rightarrow> string \<Rightarrow> string option" where
  "read_bounded_file fs path =
     Option.bind (fs_contents fs path) (\<lambda>out. if length out > kConfigMaxBytes then None else Some out)"

definition home_dir :: "file_system \<Rightarrow> string" where
  "home_dir fs =
     (case fs_getenv fs ''HOME'' of
        Some home \<Rightarrow> if home \<noteq> [] then home else (case fs_passwd_home fs of None \<Rightarrow> [] | Some d \<Rightarrow> d)
      | None \<Rightarrow> (case fs_passwd_home fs of None \<Rightarrow> [] | Some d \<Rightarrow> d))"

definition env_value :: "file_system \<Rightarrow> string \<Rightarrow> string" where
  "env_value fs name = (case fs_getenv fs name of None \<Rightarrow> [] | Some v \<Rightarrow> v)"

definition excludes_file_from_config :: "file_system \<Rightarrow> string \<Rightarrow> string \<Rightarrow> string option" where
  "excludes_file_from_config fs env_name fallback_path =
     (let path = (if env_value fs env_name \<noteq> [] then env_value fs env_name else fallback_path)
      in if path = [] then None
         else Option.bind (read_bounded_file fs path) (\<lambda>contents.
              map_option (expand_tilde (home_dir fs)) (scan_excludes_file contents)))"

definition xdg_config :: "file_system \<Rightarrow> string" where
  "xdg_config fs = (if env_value fs ''XDG_CONFIG_HOME'' = [] then home_dir fs @ ''/.config'' else env_value fs ''XDG_CONFIG_HOME'')"

definition resolve_path :: "file_system \<Rightarrow> string" where
  "resolve_path fs =
     (case first_some (\<lambda>(name, fallback). excludes_file_from_config fs name fallback)
        [(''GIT_CONFIG_GLOBAL'', []),
         ([], home_dir fs @ ''/.gitconfig''),
         ([], xdg_config fs @ ''/git/config''),
         ([], if env_value fs ''GIT_CONFIG_SYSTEM'' \<noteq> [] then env_value fs ''GIT_CONFIG_SYSTEM'' else ''/etc/gitconfig'')] of
        Some v \<Rightarrow> v
      | None \<Rightarrow> xdg_config fs @ ''/git/ignore'')"

section \<open>The excludes of a work tree\<close>

definition first_line :: "string \<Rightarrow> string" where
  "first_line t = takeWhile (\<lambda>c. c \<noteq> line_feed) t"

definition gitdir_prefix :: string where
  "gitdir_prefix = ''gitdir: ''"

definition resolve_exclude_dir :: "file_system \<Rightarrow> string \<Rightarrow> string option" where
  "resolve_exclude_dir fs dir =
     (let dot_git = dir @ ''/.git''
      in case fs_is_regular fs dot_git of
           None \<Rightarrow> None
         | Some False \<Rightarrow> Some dot_git
         | Some True \<Rightarrow>
             Option.bind (read_bounded_file fs dot_git) (\<lambda>contents.
             if \<not> starts_with (first_line contents) gitdir_prefix then None
             else let git_dir = drop (length gitdir_prefix) (first_line contents)
                  in Some (case read_bounded_file fs (git_dir @ ''/commondir'') of
                             None \<Rightarrow> git_dir
                           | Some common \<Rightarrow>
                               (case first_line common of
                                  [] \<Rightarrow> git_dir
                                | c # rest \<Rightarrow> if c = CHR ''.'' then git_dir @ ''/'' @ c # rest else c # rest))))"

definition dir_has_vcs :: "file_system \<Rightarrow> string \<Rightarrow> bool" where
  "dir_has_vcs fs dir \<longleftrightarrow> fs_is_regular fs (dir @ ''/.git'') \<noteq> None \<or> fs_is_regular fs (dir @ ''/.jj'') \<noteq> None"

section \<open>Names\<close>

definition lossy_lead_length :: "nat \<Rightarrow> nat" where
  "lossy_lead_length lead =
     (if 0xc2 \<le> lead \<and> lead \<le> 0xdf then 2
      else if 0xe0 \<le> lead \<and> lead \<le> 0xef then 3
      else if 0xf0 \<le> lead \<and> lead \<le> 0xf4 then 4 else 0)"

definition continues :: "nat \<Rightarrow> nat \<Rightarrow> nat \<Rightarrow> bool" where
  "continues lead valid b \<longleftrightarrow>
     \<not> (b < 0x80 \<or> b > 0xbf \<or>
        valid = 1 \<and> (lead = 0xe0 \<and> b < 0xa0 \<or> lead = 0xed \<and> b > 0x9f \<or> lead = 0xf0 \<and> b < 0x90 \<or> lead = 0xf4 \<and> b > 0x8f))"

text \<open>The number of valid bytes of a sequence, given the bytes after its lead.\<close>

fun valid_bytes :: "nat \<Rightarrow> nat \<Rightarrow> nat \<Rightarrow> string \<Rightarrow> nat" where
  "valid_bytes lead len valid [] = valid"
| "valid_bytes lead len valid (c # cs) =
     (if valid < len \<and> continues lead valid (uchar c) then valid_bytes lead len (Suc valid) cs else valid)"

lemma valid_bytes_ge: "valid \<le> valid_bytes lead len valid cs"
  by (induction lead len valid cs rule: valid_bytes.induct) auto

function utf8_lossy :: "string \<Rightarrow> string" where
  "utf8_lossy [] = []"
| "utf8_lossy (c # cs) =
     (let lead = uchar c; len = lossy_lead_length lead; valid = valid_bytes lead len 1 cs
      in if lead < 0x80 then c # utf8_lossy cs
         else if len = 0 then replacement @ utf8_lossy cs
         else if valid = len then c # take (len - 1) cs @ utf8_lossy (drop (len - 1) cs)
         else replacement @ utf8_lossy (drop (valid - 1) cs))"
  by pat_completeness auto
termination
  by (relation "measure length") (auto simp: lossy_lead_length_def less_Suc_eq_le)

declare utf8_lossy.simps [simp del]

end
