(* ===== verification/Git_Ignore_Laws.thy ===== *)
theory Git_Ignore_Laws
  imports Git_Config
begin

text \<open>
  Laws of ignore rules: the backtracking matcher decides the language of a glob, an escaped name ignores
  exactly that name, and a rule file reads the same however it arrives in chunks.
\<close>

section \<open>The language of a glob\<close>

definition concatenation :: "string set list \<Rightarrow> string set" where
  "concatenation ls = foldr (\<lambda>l m. {u @ v |u v. u \<in> l \<and> v \<in> m}) ls {[]}"

fun token_lang :: "token \<Rightarrow> string set" where
  "token_lang (LiteralByte b) = {[b]}"
| "token_lang AnyByte = {[c] |c. c \<noteq> CHR ''/''}"
| "token_lang Star = {w. CHR ''/'' \<notin> set w}"
| "token_lang (ByteClass negated ranges) = {[c] |c. in_class c ranges \<noteq> negated}"
| "token_lang RecursivePrefix = insert [] {w @ ''/'' |w. True}"
| "token_lang RecursiveSuffix = {''/'' @ w |w. True}"
| "token_lang RecursiveZeroOrMore = insert ''/'' {''/'' @ w @ ''/'' |w. True}"
| "token_lang (Alternates branches) = (\<Union>branch\<in>set branches. concatenation (map token_lang branch))"

definition glob_lang :: "token list \<Rightarrow> string set" where
  "glob_lang ts = concatenation (map token_lang ts)"

lemma glob_lang_simps [simp]:
  "glob_lang [] = {[]}" "glob_lang (t # ts) = {u @ v |u v. u \<in> token_lang t \<and> v \<in> glob_lang ts}"
  by (simp_all add: glob_lang_def concatenation_def)

lemma token_lang_alternates: "token_lang (Alternates branches) = (\<Union>branch\<in>set branches. glob_lang branch)"
  by (simp add: glob_lang_def)

text \<open>
  The globs the matcher is made for: what follows a slash and two stars at the end is nothing, and
  the branches of alternates have only bytes, classes and stars.
\<close>

fun simple_token :: "token \<Rightarrow> bool" where
  "simple_token (LiteralByte b) = True"
| "simple_token AnyByte = True"
| "simple_token Star = True"
| "simple_token (ByteClass negated ranges) = True"
| "simple_token _ = False"

fun matchable :: "token list \<Rightarrow> bool" where
  "matchable [] = True"
| "matchable (RecursiveSuffix # ts) = (ts = [])"
| "matchable (Alternates branches # ts) = (list_all (list_all simple_token) branches \<and> matchable ts)"
| "matchable (t # ts) = matchable ts"

lemma star_splits:
  "list_ex (\<lambda>n. k (drop n p)) (star_lengths p) \<longleftrightarrow> (\<exists>u v. p = u @ v \<and> CHR ''/'' \<notin> set u \<and> k v)"
proof
  assume "list_ex (\<lambda>n. k (drop n p)) (star_lengths p)"
  then obtain n where mem: "n \<in> set (star_lengths p)" and n2: "k (drop n p)" by (auto simp: list_ex_iff)
  from mem have "n \<le> length (takeWhile (\<lambda>c. c \<noteq> CHR ''/'') p)"
    unfolding star_lengths_def set_rev set_upt atLeastLessThan_iff by (simp add: less_Suc_eq_le)
  note n = this n2
  have "take n p = take n (takeWhile (\<lambda>c. c \<noteq> CHR ''/'') p)"
    using n(1) by (metis append_take_drop_id min.absorb1 take_take takeWhile_eq_take)
  then have "CHR ''/'' \<notin> set (take n p)" by (metis in_set_takeD set_takeWhileD)
  then show "\<exists>u v. p = u @ v \<and> CHR ''/'' \<notin> set u \<and> k v"
    using n(2) append_take_drop_id [of n p] by metis
next
  assume "\<exists>u v. p = u @ v \<and> CHR ''/'' \<notin> set u \<and> k v"
  then obtain u v where uv: "p = u @ v" "CHR ''/'' \<notin> set u" "k v" by blast
  then have "takeWhile (\<lambda>c. c \<noteq> CHR ''/'') p = u @ takeWhile (\<lambda>c. c \<noteq> CHR ''/'') v"
    using takeWhile_append2 [of u "\<lambda>c. c \<noteq> CHR ''/''" v] by fastforce
  then show "list_ex (\<lambda>n. k (drop n p)) (star_lengths p)"
    using uv by (auto simp: star_lengths_def list_ex_iff intro!: bexI [of _ "length u"])
qed

lemma after_separators_iff: "q \<in> set (after_separators p) \<longleftrightarrow> (\<exists>w. p = w @ CHR ''/'' # q)"
proof (induction p)
  case (Cons c p)
  show ?case
  proof
    assume "q \<in> set (after_separators (c # p))"
    then have "c = CHR ''/'' \<and> q = p \<or> (\<exists>w. p = w @ CHR ''/'' # q)" using Cons by (auto split: if_splits)
    then show "\<exists>w. c # p = w @ CHR ''/'' # q" by (metis append_Cons append_Nil)
  next
    assume "\<exists>w. c # p = w @ CHR ''/'' # q"
    then obtain w where w: "c # p = w @ CHR ''/'' # q" by blast
    then show "q \<in> set (after_separators (c # p))" using Cons by (cases w) auto
  qed
qed simp

text \<open>One simple token with a continuation, as both matchers try it.\<close>

definition match_simple :: "token \<Rightarrow> (string \<Rightarrow> bool) \<Rightarrow> string \<Rightarrow> bool" where
  "match_simple t k p =
     (case t of
        LiteralByte b \<Rightarrow> (case p of [] \<Rightarrow> False | c # q \<Rightarrow> c = b \<and> k q)
      | AnyByte \<Rightarrow> (case p of [] \<Rightarrow> False | c # q \<Rightarrow> c \<noteq> CHR ''/'' \<and> k q)
      | Star \<Rightarrow> list_ex (\<lambda>n. k (drop n p)) (star_lengths p)
      | ByteClass negated ranges \<Rightarrow>
          (case p of [] \<Rightarrow> False | c # q \<Rightarrow> if in_class c ranges = negated then False else k q)
      | _ \<Rightarrow> False)"

lemma one_byte_split: "(\<exists>u v. p = u @ v \<and> u \<in> {[c] |c. P c} \<and> k v) \<longleftrightarrow> (case p of [] \<Rightarrow> False | c # q \<Rightarrow> P c \<and> k q)"
  by (cases p) (auto intro: exI [of _ "[_]"])

lemma match_simple_lang:
  "simple_token t \<Longrightarrow>
   match_simple t k p \<longleftrightarrow> (\<exists>u v. p = u @ v \<and> u \<in> token_lang t \<and> k v)"
proof (cases t)
  case (LiteralByte b)
  then show ?thesis using one_byte_split [of p "\<lambda>c. c = b" k] by (simp add: match_simple_def)
next
  case AnyByte
  then show ?thesis using one_byte_split [of p "\<lambda>c. c \<noteq> CHR ''/''" k] by (simp add: match_simple_def)
next
  case Star
  then show ?thesis by (simp add: match_simple_def star_splits)
next
  case (ByteClass negated ranges)
  then show ?thesis using one_byte_split [of p "\<lambda>c. in_class c ranges \<noteq> negated" k]
    by (auto simp: match_simple_def split: list.splits)
qed (simp_all add: match_simple_def)

lemma match_branch_lang:
  "list_all simple_token branch \<Longrightarrow>
   match_branch branch rest p \<longleftrightarrow> (\<exists>u v. p = u @ v \<and> u \<in> glob_lang branch \<and> match_from rest v)"
proof (induction branch arbitrary: p)
  case (Cons t branch)
  have "match_branch (t # branch) rest p = match_simple t (match_branch branch rest) p"
    using Cons.prems by (cases t) (simp_all add: match_simple_def)
  also have "\<dots> \<longleftrightarrow> (\<exists>u v. p = u @ v \<and> u \<in> token_lang t \<and> match_branch branch rest v)"
    using Cons.prems by (intro match_simple_lang) simp
  also have "\<dots> \<longleftrightarrow> (\<exists>u v w. p = u @ v @ w \<and> u \<in> token_lang t \<and> v \<in> glob_lang branch \<and> match_from rest w)"
    using Cons by fastforce
  also have "\<dots> \<longleftrightarrow> (\<exists>u v. p = u @ v \<and> u \<in> glob_lang (t # branch) \<and> match_from rest v)"
  proof
    assume "\<exists>u v w. p = u @ v @ w \<and> u \<in> token_lang t \<and> v \<in> glob_lang branch \<and> match_from rest w"
    then obtain u v w where "p = (u @ v) @ w" "u \<in> token_lang t" "v \<in> glob_lang branch" "match_from rest w" by auto
    then show "\<exists>u v. p = u @ v \<and> u \<in> glob_lang (t # branch) \<and> match_from rest v" unfolding glob_lang_simps by blast
  next
    assume "\<exists>u v. p = u @ v \<and> u \<in> glob_lang (t # branch) \<and> match_from rest v"
    then obtain u v w where "p = u @ v @ w" "u \<in> token_lang t" "v \<in> glob_lang branch" "match_from rest w" by auto
    then show "\<exists>u v w. p = u @ v @ w \<and> u \<in> token_lang t \<and> v \<in> glob_lang branch \<and> match_from rest w" by blast
  qed
  finally show ?case .
qed simp

lemma match_from_step:
  assumes "matchable (t # ts)" "t \<noteq> RecursiveSuffix"
  shows "match_from (t # ts) p \<longleftrightarrow> (\<exists>u v. p = u @ v \<and> u \<in> token_lang t \<and> match_from ts v)"
proof (cases "simple_token t")
  case True
  then have "match_from (t # ts) p = match_simple t (match_from ts) p" by (cases t) (simp_all add: match_simple_def)
  then show ?thesis using match_simple_lang [OF True] by simp
next
  case False
  show ?thesis
  proof (cases t)
    case RecursivePrefix
    then show ?thesis by (auto simp: list_ex_iff after_separators_iff) (metis append_assoc append_Cons append_Nil)+
  next
    case RecursiveZeroOrMore
    then show ?thesis
      by (cases p) (auto simp: list_ex_iff after_separators_iff, (metis append_assoc append_Cons append_Nil)+)
  next
    case (Alternates branches)
    then show ?thesis
      using assms(1) match_branch_lang by (auto simp: list_ex_iff list_all_iff token_lang_alternates simp del: token_lang.simps)
  qed (use False assms(2) in simp_all)
qed

lemma match_from_lang: "matchable ts \<Longrightarrow> match_from ts p \<longleftrightarrow> p \<in> glob_lang ts"
proof (induction ts arbitrary: p)
  case (Cons t ts)
  show ?case
  proof (cases "t = RecursiveSuffix")
    case True
    then show ?thesis using Cons.prems by (cases p) auto
  next
    case False
    have "matchable ts" using Cons.prems False by (cases t) auto
    then show ?thesis using match_from_step [OF Cons.prems False] Cons.IH by auto
  qed
qed simp


text \<open>A glob without braces parses to such a list.\<close>

definition flat_token :: "token \<Rightarrow> bool" where
  "flat_token t \<longleftrightarrow> simple_token t \<or> t = RecursivePrefix \<or> t = RecursiveZeroOrMore"

lemma flat_token_simps [simp]:
  "flat_token (LiteralByte b)" "flat_token AnyByte" "flat_token Star" "flat_token (ByteClass negated ranges)"
  "flat_token RecursivePrefix" "flat_token RecursiveZeroOrMore" "\<not> flat_token RecursiveSuffix"
  "\<not> flat_token (Alternates branches)"
  by (simp_all add: flat_token_def)

lemma matchable_flat: "list_all flat_token ts \<Longrightarrow> matchable (ts @ us) = matchable us"
proof (induction ts)
  case (Cons t ts)
  then show ?case by (cases t) auto
qed simp

lemma matchable_flat_all: "list_all flat_token ts \<Longrightarrow> matchable ts"
  using matchable_flat [of ts "[]"] by simp

lemma flat_butlast: "list_all flat_token ts \<Longrightarrow> list_all flat_token (butlast ts)"
  by (auto simp: list_all_iff dest: in_set_butlastD)

lemma push_token_one [simp]: "push_token t [ts] = [ts @ [t]]"
  by (simp add: push_token_def)

lemma flat_last: "list_all flat_token ts \<Longrightarrow> ts \<noteq> [] \<Longrightarrow> last ts \<noteq> RecursiveSuffix"
  by (metis flat_token_simps(7) last_in_set list_all_iff)

lemma recursive_token_one:
  assumes "list_all flat_token ts" "ts \<noteq> []"
  shows "recursive_token is_suffix [ts] =
         [butlast ts @ [if last ts = RecursivePrefix then RecursivePrefix
                        else if is_suffix then RecursiveSuffix else RecursiveZeroOrMore]]"
  using flat_last [OF assms] by (simp add: recursive_token_def pop_token_def)

lemma parse_star_flat:
  assumes "parse_star prev [ts] cs = (branches, c, cs')" "list_all flat_token ts"
  shows "set cs' \<subseteq> set cs \<and>
         (\<exists>us. branches = [us] \<and> (list_all flat_token us \<or> cs' = [] \<and> matchable us))"
  using assms
  by (auto simp: parse_star_def two_stars_def recursive_token_one flat_butlast matchable_flat
      split: list.splits if_splits)

lemma class_loop_rest: "class_loop first in_range ranges cs = ClassClosed ranges' cs' \<Longrightarrow> set cs' \<subseteq> set cs"
  by (induction first in_range ranges cs rule: class_loop.induct) (auto split: if_splits option.splits)

lemma parse_class_rest: "parse_class cs = (negated, ClassClosed ranges cs') \<Longrightarrow> set cs' \<subseteq> set cs"
  by (auto simp: parse_class_def split: list.splits if_splits dest!: class_loop_rest)

text \<open>One step of the parser outside braces leads to one more token list to continue from.\<close>

definition flat_step :: "token list option \<Rightarrow> string \<Rightarrow> bool" where
  "flat_step out rest \<longleftrightarrow>
     (\<exists>prev unclosed us cs. parse_loop prev unclosed [] [us] cs = out \<and> length cs \<le> length rest \<and> set cs \<subseteq> set rest \<and>
        (list_all flat_token us \<or> cs = [] \<and> matchable us))"

lemma flat_stepI:
  assumes "parse_loop prev unclosed [] [ts @ [t]] cs = out" "flat_token t" "list_all flat_token ts"
    "length cs \<le> length rest" "set cs \<subseteq> set rest"
  shows "flat_step out rest"
proof -
  have "list_all flat_token (ts @ [t])" using assms(2,3) by simp
  then show ?thesis using assms(1,4,5) unfolding flat_step_def by blast
qed

lemma flat_step_star:
  assumes "parse_loop prev unclosed [] [ts] (CHR ''*'' # rest) = out" "list_all flat_token ts"
  shows "flat_step out rest"
proof -
  obtain branches c' cs' where star: "parse_star prev [ts] rest = (branches, c', cs')" by (metis prod_cases3)
  obtain us where us: "branches = [us]" "set cs' \<subseteq> set rest" "list_all flat_token us \<or> cs' = [] \<and> matchable us"
    using parse_star_flat [OF star assms(2)] by blast
  have "parse_loop (Some c') unclosed [] [us] cs' = out"
    using assms(1) star us(1) by (simp add: parse_loop.simps(2))
  then show ?thesis using us parse_star_shorter [OF star] unfolding flat_step_def by blast
qed

lemma flat_step_class:
  assumes "parse_loop prev False [] [ts] (CHR ''['' # rest) = Some out" "list_all flat_token ts"
  shows "flat_step (Some out) rest"
proof -
  obtain negated scan where scan: "parse_class rest = (negated, scan)" by (metis prod.exhaust)
  show ?thesis
  proof (cases scan)
    case ClassUnclosed
    then have "parse_loop (Some CHR ''['') True [] [ts @ [LiteralByte CHR ''['']] rest = Some out"
      using assms(1) scan by (simp add: parse_loop.simps(2))
    from flat_stepI [OF this] show ?thesis using assms(2) by simp
  next
    case ClassInvalid
    then show ?thesis using assms(1) scan by (simp add: parse_loop.simps(2))
  next
    case (ClassClosed ranges cs')
    then have shut: "parse_class rest = (negated, ClassClosed ranges cs')" using scan by simp
    then have "parse_loop (Some CHR '']'') False [] [ts @ [ByteClass negated ranges]] cs' = Some out"
      using assms(1) by (simp add: parse_loop.simps(2))
    from flat_stepI [OF this] show ?thesis using assms(2) parse_class_rest [OF shut] parse_class_shorter [OF shut] by simp
  qed
qed

lemma parse_loop_flat_step:
  assumes out: "parse_loop prev unclosed [] [ts] (c # rest) = Some out" and "c \<noteq> CHR ''{''" and flat: "list_all flat_token ts"
  shows "flat_step (Some out) rest"
proof -
  consider "c = CHR ''*''" | "c = CHR ''[''" "\<not> unclosed" | "c = backslash"
    | "c \<noteq> CHR ''*''" "c \<noteq> CHR ''['' \<or> unclosed" "c \<noteq> backslash" by blast
  then show ?thesis
  proof cases
    case 1
    then show ?thesis using flat_step_star out flat by blast
  next
    case 2
    then show ?thesis using flat_step_class out flat by simp
  next
    case 3
    then obtain e cs' where "rest = e # cs'" "parse_loop (Some e) unclosed [] [ts @ [LiteralByte e]] cs' = Some out"
      using out by (auto simp: parse_loop.simps(2) backslash_def split: list.splits)
    then show ?thesis using flat by (intro flat_stepI) auto
  next
    case 4
    then obtain t where "parse_loop (Some c) unclosed [] [ts @ [t]] rest = Some out" "flat_token t"
      using out assms(2) by (auto simp: parse_loop.simps(2) split: if_splits)
    then show ?thesis using flat by (intro flat_stepI) auto
  qed
qed

lemma parse_loop_flat:
  "parse_loop prev unclosed [] [ts] cs = Some out \<Longrightarrow> CHR ''{'' \<notin> set cs \<Longrightarrow>
   list_all flat_token ts \<or> cs = [] \<and> matchable ts \<Longrightarrow> matchable out"
proof (induction "length cs" arbitrary: prev unclosed ts cs rule: less_induct)
  case less
  show ?case
  proof (cases cs)
    case Nil
    then show ?thesis using less.prems matchable_flat_all by (auto simp: parse_loop.simps(1))
  next
    case (Cons c rest)
    then have "flat_step (Some out) rest" using less.prems parse_loop_flat_step [of prev unclosed ts c rest out] by auto
    then obtain prev' unclosed' us cs' where "parse_loop prev' unclosed' [] [us] cs' = Some out" "length cs' < length cs"
        "set cs' \<subseteq> set rest" "list_all flat_token us \<or> cs' = [] \<and> matchable us"
      unfolding flat_step_def using Cons by (metis le_imp_less_Suc length_Cons)
    then show ?thesis using less.hyps [of cs' prev' unclosed' us] less.prems(2) Cons by auto
  qed
qed

lemma parse_glob_flat: "parse_glob g = Some ts \<Longrightarrow> CHR ''{'' \<notin> set g \<Longrightarrow> matchable ts"
  using parse_loop_flat [of None False "[]" g ts] by (simp add: parse_glob_def)

text \<open>
  C19. The matcher decides the language of the glob. For every list of tokens in which nothing follows
  a recursive suffix and branches of alternates hold bytes, classes and stars only -- every glob
  without braces parses to such a list -- the backtracking matcher accepts a path exactly if the path
  is in the language of the tokens, or the glob is two stars alone.
\<close>
theorem glob_matches_language:
  assumes "parse_glob g = Some ts"
  shows "(CHR ''{'' \<notin> set g \<longrightarrow> matchable ts) \<and>
         (matchable ts \<longrightarrow> (\<forall>p. token_match ts p \<longleftrightarrow> ts = [RecursivePrefix] \<or> p \<in> glob_lang ts))"
  using parse_glob_flat [OF assms] match_from_lang by (simp add: token_match_def tokens_match_everything_def)

theorem glob_matches_language_witness:
  "parse_glob ''a/**/[b-d]*'' =
     Some [LiteralByte CHR ''a'', RecursiveZeroOrMore, ByteClass False [(CHR ''b'', CHR ''d'')], Star] \<and>
   ''a/x/y/cat'' \<in> glob_lang [LiteralByte CHR ''a'', RecursiveZeroOrMore, ByteClass False [(CHR ''b'', CHR ''d'')], Star]"
proof -
  have parsed: "parse_glob ''a/**/[b-d]*'' =
     Some [LiteralByte CHR ''a'', RecursiveZeroOrMore, ByteClass False [(CHR ''b'', CHR ''d'')], Star]"
    by code_simp
  moreover have "token_match [LiteralByte CHR ''a'', RecursiveZeroOrMore, ByteClass False [(CHR ''b'', CHR ''d'')], Star]
     ''a/x/y/cat''" by code_simp
  ultimately show ?thesis using glob_matches_language [OF parsed] by auto
qed


text \<open>
  A branch with a recursive token has a language, and the matcher does not accept it: the comment in
  \<^verbatim>\<open>match_branch\<close> says no such branch occurs, and this rule line makes one.
\<close>
lemma branch_recursion_lost:
  "\<exists>ts budget. add_line ''{a/**,b}/c'' False ([], \<lparr>rb_max_rule_bytes = 100, rb_max_rules = 10, rb_rule_bytes = 0, rb_rules = 0\<rparr>) =
         Inr ([\<lparr>ru_tokens = ts, ru_whitelist = False, ru_dir_only = False\<rparr>], budget) \<and>
       ts = [Alternates [[LiteralByte CHR ''a'', RecursiveSuffix], [LiteralByte CHR ''b'']], LiteralByte CHR ''/'', LiteralByte CHR ''c''] \<and>
       ''a/x/c'' \<in> glob_lang ts \<and>
       match_rules [\<lparr>ru_tokens = ts, ru_whitelist = False, ru_dir_only = False\<rparr>] ''a/x/c'' False = MatchNone"
proof -
  let ?ts = "[Alternates [[LiteralByte CHR ''a'', RecursiveSuffix], [LiteralByte CHR ''b'']], LiteralByte CHR ''/'', LiteralByte CHR ''c'']"
  have "add_line ''{a/**,b}/c'' False ([], \<lparr>rb_max_rule_bytes = 100, rb_max_rules = 10, rb_rule_bytes = 0, rb_rules = 0\<rparr>) =
         Inr ([\<lparr>ru_tokens = ?ts, ru_whitelist = False, ru_dir_only = False\<rparr>],
              \<lparr>rb_max_rule_bytes = 100, rb_max_rules = 10, rb_rule_bytes = 10, rb_rules = 1\<rparr>)"
    by code_simp
  moreover have "''a/x'' \<in> token_lang (hd ?ts)" by (simp add: concatenation_def)
  then have "''a/x'' @ ''/c'' \<in> glob_lang ?ts" unfolding glob_lang_simps list.sel by fastforce
  moreover have "match_rules [\<lparr>ru_tokens = ?ts, ru_whitelist = False, ru_dir_only = False\<rparr>] ''a/x/c'' False = MatchNone"
    by code_simp
  ultimately show ?thesis by auto
qed

section \<open>A rule for one name\<close>

definition glob_special :: "char \<Rightarrow> bool" where
  "glob_special c \<longleftrightarrow> c \<in> {CHR ''?'', CHR ''*'', CHR ''['', CHR ''{'', CHR ''}'', backslash, CHR ''!'', CHR ''#'', CHR '' ''}"

definition escape_name :: "string \<Rightarrow> string" where
  "escape_name w = concat (map (\<lambda>c. if glob_special c then [backslash, c] else [c]) w)"

definition name_rule_line :: "bool \<Rightarrow> bool \<Rightarrow> bool \<Rightarrow> string \<Rightarrow> string" where
  "name_rule_line whitelist anchored dir_only w =
     (if whitelist then ''!'' else []) @ (if anchored then ''/'' else []) @ escape_name w @ (if dir_only then ''/'' else [])"

definition names_path :: "bool \<Rightarrow> string \<Rightarrow> string \<Rightarrow> bool" where
  "names_path anchored w path \<longleftrightarrow> path = w \<or> \<not> anchored \<and> (\<exists>u. path = u @ ''/'' @ w)"

definition plain_name :: "bool \<Rightarrow> bool \<Rightarrow> string \<Rightarrow> bool" where
  "plain_name anchored dir_only w \<longleftrightarrow>
     w \<noteq> [] \<and> last w \<noteq> CHR ''/'' \<and> (CHR ''/'' \<notin> set w \<or> anchored) \<and>
     (if dir_only then last w \<noteq> backslash else last w \<notin> {CHR 0x09, CHR 0x0D, CHR 0x0B, CHR 0x0C})"

lemma escape_name_simps [simp]:
  "escape_name [] = []"
  "escape_name (c # w) = (if glob_special c then [backslash, c] else [c]) @ escape_name w"
  "escape_name (v @ w) = escape_name v @ escape_name w"
  by (simp_all add: escape_name_def)

lemma escape_name_Nil [simp]: "escape_name w = [] \<longleftrightarrow> w = []"
  by (cases w) auto

lemma escape_name_slash [simp]: "CHR ''/'' \<in> set (escape_name w) \<longleftrightarrow> CHR ''/'' \<in> set w"
  by (induction w) (auto simp: backslash_def)

lemma escape_name_last [simp]: "w \<noteq> [] \<Longrightarrow> last (escape_name w) = last w"
  by (induction w rule: rev_induct) auto

text \<open>Parsing escaped text yields its bytes as literals.\<close>

lemma parse_loop_literal:
  assumes "\<not> glob_special c \<or> c = CHR ''!'' \<or> c = CHR ''#'' \<or> c = CHR '' ''"
  shows "parse_loop prev unclosed [] [ts] (c # cs) = parse_loop (Some c) unclosed [] [ts @ [LiteralByte c]] cs"
  using assms by (auto simp: parse_loop.simps(2) glob_special_def backslash_def)

lemma parse_loop_escaped:
  "parse_loop prev unclosed [] [ts] (backslash # c # cs) = parse_loop (Some c) unclosed [] [ts @ [LiteralByte c]] cs"
  by (simp add: parse_loop.simps(2) backslash_def)

lemma parse_loop_name: "parse_loop prev unclosed [] [ts] (escape_name w) = Some (ts @ map LiteralByte w)"
proof (induction w arbitrary: prev ts)
  case (Cons c w)
  then show ?case by (cases "glob_special c") (simp_all add: parse_loop_literal parse_loop_escaped)
qed (simp add: parse_loop.simps(1))


lemma parse_loop_name_tail:
  assumes "w \<noteq> []" "hd w = CHR ''!'' \<or> hd w = CHR ''#''"
  shows "parse_loop prev unclosed [] [ts] (tl (escape_name w)) = Some (ts @ map LiteralByte w)"
proof (cases w)
  case (Cons c v)
  then have c: "c = CHR ''!'' \<or> c = CHR ''#''" using assms(2) by simp
  then have "tl (escape_name w) = c # escape_name v" using Cons by (auto simp: glob_special_def)
  moreover have "parse_loop prev unclosed [] [ts] (c # escape_name v) = parse_loop (Some c) unclosed [] [ts @ [LiteralByte c]] (escape_name v)"
    using c by (intro parse_loop_literal) blast
  ultimately show ?thesis using Cons by (simp add: parse_loop_name)
qed (use assms(1) in simp)

lemma parse_glob_recursive: "parse_glob (''**/'' @ g) = parse_loop (Some CHR ''/'') False [] [[RecursivePrefix]] g"
  by (simp add: parse_glob_def parse_loop.simps(2) parse_star_def is_separator_def)

lemma literals_lang [simp]: "glob_lang (map LiteralByte w) = {w}"
  by (induction w) auto

lemma literals_flat: "list_all flat_token (map LiteralByte w)"
  by (simp add: list_all_iff)

lemma match_literals:
  "w \<noteq> [] \<Longrightarrow> token_match ((if anchored then [] else [RecursivePrefix]) @ map LiteralByte w) path \<longleftrightarrow> names_path anchored w path"
  using match_from_lang [OF matchable_flat_all, of "(if anchored then [] else [RecursivePrefix]) @ map LiteralByte w" path]
  by (auto simp: token_match_def tokens_match_everything_def names_path_def literals_flat split: if_splits)

text \<open>What the stages of \<open>add_line\<close> make of such a line.\<close>

lemma escape_name_hd: "w \<noteq> [] \<Longrightarrow> hd (escape_name w) = (if glob_special (hd w) then backslash else hd w)"
  by (cases w) auto

lemma ends_with_Cons2: "ends_with (u @ [a, b]) [c, d] \<longleftrightarrow> a = c \<and> b = d"
  by (auto simp: ends_with_def)

lemma rule_text_name:
  assumes "plain_name anchored dir_only w"
  shows "rule_text (name_rule_line whitelist anchored dir_only w) False = Some (name_rule_line whitelist anchored dir_only w)"
proof -
  let ?line = "name_rule_line whitelist anchored dir_only w"
  have w: "w \<noteq> []" using assms by (simp add: plain_name_def)
  have hd: "?line \<noteq> []" "hd ?line \<noteq> CHR ''#''"
    using w escape_name_hd [OF w] by (auto simp: name_rule_line_def hd_append glob_special_def backslash_def)
  have blank: "\<not> is_ascii_blank (last ?line)" if "\<not> ends_with ?line [backslash, CHR '' '']"
  proof (cases "dir_only")
    case True
    then show ?thesis by (simp add: name_rule_line_def is_ascii_blank_def)
  next
    case False
    have "last w \<noteq> CHR '' ''"
    proof
      assume sp: "last w = CHR '' ''"
      have "escape_name w = escape_name (butlast w) @ [backslash, CHR '' '']"
        using w sp by (cases w rule: rev_cases) (auto simp: glob_special_def)
      then have "\<exists>u. ?line = u @ [backslash, CHR '' '']" using False by (simp add: name_rule_line_def)
      then show False using that ends_with_Cons2 by metis
    qed
    then show ?thesis using False assms w by (auto simp: name_rule_line_def plain_name_def is_ascii_blank_def)
  qed
  have "trim_ascii_end ?line = ?line" if "\<not> ends_with ?line [backslash, CHR '' '']"
    using blank [OF that] hd(1) unfolding trim_ascii_end_def
    by (cases ?line rule: rev_cases) auto
  then show ?thesis using hd by (simp add: rule_text_def Let_def)
qed

lemma starts_with_Cons2: "starts_with line [a, b] \<longleftrightarrow> (\<exists>rest. line = a # b # rest)"
  by (cases line; cases "tl line") (auto simp: starts_with_def)

lemma starts_escaped: "starts_with (escape_name (c # v) @ t) [backslash, d] \<longleftrightarrow> glob_special c \<and> c = d"
  by (auto simp: starts_with_Cons2 glob_special_def)

lemma special_marks [simp]: "glob_special CHR ''!''" "glob_special CHR ''#''" "\<not> glob_special CHR ''/''" "glob_special backslash"
  by (simp_all add: glob_special_def backslash_def)

lemma backslash_neq [simp]: "backslash \<noteq> CHR ''!''" "backslash \<noteq> CHR ''/''" "backslash \<noteq> CHR ''#''"
  by (simp_all add: backslash_def)

text \<open>The head leaves the escaped name, or its tail behind a backslash that protected a first mark.\<close>

definition name_body :: "bool \<Rightarrow> bool \<Rightarrow> string \<Rightarrow> string" where
  "name_body whitelist anchored w =
     (if \<not> whitelist \<and> \<not> anchored \<and> (hd w = CHR ''!'' \<or> hd w = CHR ''#'') then tl (escape_name w) else escape_name w)"

lemma rule_head_name:
  assumes "plain_name anchored dir_only w"
  shows "rule_head (name_rule_line whitelist anchored dir_only w) =
         (whitelist, anchored, name_body whitelist anchored w @ (if dir_only then ''/'' else []))"
proof -
  have w: "w \<noteq> []" using assms by (simp add: plain_name_def)
  then obtain c v where cv: "w = c # v" by (cases w) auto
  have slash: "c = CHR ''/'' \<Longrightarrow> anchored" using assms cv by (auto simp: plain_name_def)
  have marks: "starts_with (CHR ''!'' # t) [backslash, d] = False" "starts_with (CHR ''/'' # t) [backslash, d] = False" for t d
    by (simp_all add: starts_with_Cons2 backslash_def)
  consider "whitelist" | "\<not> whitelist" "anchored" | "\<not> whitelist" "\<not> anchored" by blast
  then show ?thesis
  proof cases
    case 1
    then show ?thesis using slash by (auto simp: rule_head_def name_rule_line_def name_body_def marks cv Let_def)
  next
    case 2
    then show ?thesis by (simp add: rule_head_def name_rule_line_def name_body_def marks cv Let_def)
  next
    case 3
    have "c \<noteq> CHR ''/''" using slash 3 by blast
    then show ?thesis using 3 starts_escaped [of c v]
      by (auto simp: rule_head_def name_rule_line_def name_body_def cv Let_def simp del: append.append_Cons)
  qed
qed


lemma name_body_cases:
  assumes "w \<noteq> []"
  obtains "name_body whitelist anchored w = escape_name w"
  | c v where "w = c # v" "c = CHR ''!'' \<or> c = CHR ''#''" "name_body whitelist anchored w = c # escape_name v"
proof (cases "name_body whitelist anchored w = escape_name w")
  case False
  then have first: "hd w = CHR ''!'' \<or> hd w = CHR ''#''" "name_body whitelist anchored w = tl (escape_name w)"
    by (auto simp: name_body_def split: if_splits)
  obtain c v where "w = c # v" using assms by (cases w) auto
  then show ?thesis using first that(2) by auto
qed (use that in blast)

lemma name_body_shape:
  assumes "w \<noteq> []"
  shows "name_body whitelist anchored w \<noteq> []" "last (name_body whitelist anchored w) = last w"
    "CHR ''/'' \<in> set (name_body whitelist anchored w) \<longleftrightarrow> CHR ''/'' \<in> set w"
    "hd (name_body whitelist anchored w) \<noteq> CHR ''*''"
proof -
  have star: "hd (escape_name w) \<noteq> CHR ''*''" using escape_name_hd [OF assms] by (auto simp: glob_special_def backslash_def)
  consider "name_body whitelist anchored w = escape_name w"
    | c v where "w = c # v" "c = CHR ''!'' \<or> c = CHR ''#''" "name_body whitelist anchored w = c # escape_name v"
    using name_body_cases [OF assms] by metis
  then show "name_body whitelist anchored w \<noteq> []" "last (name_body whitelist anchored w) = last w"
    "CHR ''/'' \<in> set (name_body whitelist anchored w) \<longleftrightarrow> CHR ''/'' \<in> set w"
    "hd (name_body whitelist anchored w) \<noteq> CHR ''*''"
    by (cases; use assms star in auto)+
qed

lemma escape_name_star: "\<not> ends_with (u @ escape_name w) ''**''" if "w \<noteq> []"
proof (cases w rule: rev_cases)
  case (snoc v c)
  have split: "ends_with (t @ [a, b]) ''**'' \<longleftrightarrow> a = CHR ''*'' \<and> b = CHR ''*''" for t a b by (rule ends_with_Cons2)
  have last: "ends_with t ''**'' \<Longrightarrow> last t = CHR ''*''" for t
    unfolding ends_with_def by (metis append_take_drop_id last_ConsL last_ConsR last_appendR list.distinct(1))
  show ?thesis
    using snoc last [of "u @ escape_name w"] split [of "u @ escape_name v" backslash c]
    by (cases "glob_special c") (auto simp: backslash_def glob_special_def)
qed (use that in simp)

lemma name_body_star: "w \<noteq> [] \<Longrightarrow> \<not> ends_with (u @ name_body whitelist anchored w) ''**''"
proof (rule name_body_cases [of w whitelist anchored], assumption)
  fix c v
  assume "w = c # v" "c = CHR ''!'' \<or> c = CHR ''#''" "name_body whitelist anchored w = c # escape_name v"
  then show "\<not> ends_with (u @ name_body whitelist anchored w) ''**''"
    using escape_name_star [of v "u @ [c]"] ends_with_Cons2 [of "butlast u" "last u" c "CHR ''*''" "CHR ''*''"]
    by (cases "v = []"; cases "u = []") (auto simp: ends_with_def)
qed (simp add: escape_name_star)

lemma ends_with_append: "ends_with t u \<longleftrightarrow> (\<exists>v. t = v @ u)"
proof
  assume "ends_with t u"
  then have "t = take (length t - length u) t @ u" by (metis append_take_drop_id ends_with_def)
  then show "\<exists>v. t = v @ u" by blast
qed (auto simp: ends_with_def)

lemma ends_with_doublestar: "ends_with t ''/**'' \<Longrightarrow> ends_with t ''**''"
  unfolding ends_with_append by (metis append.assoc append_Cons append_Nil)

lemma rule_dir_only_name:
  assumes "plain_name anchored dir_only w"
  shows "rule_dir_only (name_body whitelist anchored w @ (if dir_only then ''/'' else [])) = (dir_only, name_body whitelist anchored w)"
  using assms name_body_shape [of w whitelist anchored] by (auto simp: rule_dir_only_def plain_name_def Let_def)

lemma rule_glob_name:
  assumes "plain_name anchored dir_only w"
  shows "rule_glob anchored (name_body whitelist anchored w) = (if anchored then [] else ''**/'') @ name_body whitelist anchored w"
proof -
  have w: "w \<noteq> []" "CHR ''/'' \<notin> set w \<or> anchored" using assms by (auto simp: plain_name_def)
  note shape = name_body_shape [OF w(1), of whitelist anchored]
  have "\<not> has_doublestar_prefix (name_body whitelist anchored w)"
    using shape(1,4) by (cases "name_body whitelist anchored w") (auto simp: has_doublestar_prefix_def starts_with_def)
  moreover have "\<not> ends_with (u @ name_body whitelist anchored w) ''/**''" for u
    using name_body_star [OF w(1)] ends_with_doublestar by blast
  from this [of "[]"] this [of "''**/''"]
  have "\<not> ends_with (name_body whitelist anchored w) ''/**''" "\<not> ends_with (''**/'' @ name_body whitelist anchored w) ''/**''"
    by simp_all
  ultimately show ?thesis using w(2) shape(3) by (auto simp: rule_glob_def Let_def)
qed

lemma parse_glob_name:
  assumes "w \<noteq> []"
  shows "parse_glob ((if anchored then [] else ''**/'') @ name_body whitelist anchored w) =
         Some ((if anchored then [] else [RecursivePrefix]) @ map LiteralByte w)"
proof -
  have "parse_loop prev False [] [ts] (name_body whitelist anchored w) = Some (ts @ map LiteralByte w)" for prev ts
    using parse_loop_name parse_loop_name_tail [OF assms] by (auto simp: name_body_def)
  then show ?thesis using parse_glob_recursive by (cases anchored) (simp_all add: parse_glob_def)
qed

lemma match_rules_snoc:
  "match_rules (rules @ [r]) path is_dir =
     (if (ru_dir_only r \<longrightarrow> is_dir) \<and> token_match (ru_tokens r) path
      then (if ru_whitelist r then MatchWhitelist else MatchIgnore) else match_rules rules path is_dir)"
  by (simp add: match_rules_def)

text \<open>
  C21. A rule can be written for any name. For every name, anchored or not, for directories only or
  not, ignoring or whitelisting, the line made of the marks and the name with its special bytes
  escaped adds one rule, charged to the budget; that rule decides the name itself and, unless it is
  anchored, the name below any directory, whatever rules came before, and leaves every other path to
  them. A name on a line must not end in a tab, return, vertical tab or form feed, and before a
  directory mark not in a backslash.
\<close>
theorem escaped_name_rule:
  assumes "plain_name anchored dir_only w"
    and "rb_rules budget < rb_max_rules budget"
    and "rb_rule_bytes budget + length (escape_name w) + 3 \<le> rb_max_rule_bytes budget"
  shows "\<exists>r budget'. add_line (name_rule_line whitelist anchored dir_only w) False (rules, budget) = Inr (rules @ [r], budget') \<and>
           rb_rules budget' = rb_rules budget + 1 \<and> rb_rule_bytes budget' \<le> rb_max_rule_bytes budget \<and>
           (\<forall>path is_dir. match_rules (rules @ [r]) path is_dir =
              (if (dir_only \<longrightarrow> is_dir) \<and> names_path anchored w path
               then (if whitelist then MatchWhitelist else MatchIgnore) else match_rules rules path is_dir))"
proof -
  have w: "w \<noteq> []" using assms(1) by (simp add: plain_name_def)
  let ?ts = "(if anchored then [] else [RecursivePrefix]) @ map LiteralByte w"
  let ?r = "\<lparr>ru_tokens = ?ts, ru_whitelist = whitelist, ru_dir_only = dir_only\<rparr>"
  let ?glob = "(if anchored then [] else ''**/'') @ name_body whitelist anchored w"
  let ?budget = "budget\<lparr>rb_rules := rb_rules budget + 1, rb_rule_bytes := rb_rule_bytes budget + length ?glob\<rparr>"
  have "length (name_body whitelist anchored w) \<le> length (escape_name w)" by (simp add: name_body_def)
  then have room: "rb_rule_bytes budget + length ?glob \<le> rb_max_rule_bytes budget" using assms(3) by auto
  then have "add_line (name_rule_line whitelist anchored dir_only w) False (rules, budget) = Inr (rules @ [?r], ?budget)"
    using assms(2) unfolding add_line_def
    by (simp add: rule_text_name [OF assms(1)] rule_head_name [OF assms(1)] rule_dir_only_name [OF assms(1)]
        rule_glob_name [OF assms(1)] parse_glob_name [OF w] Let_def del: append.append_Cons)
  then show ?thesis using room match_literals [OF w] by (intro exI [of _ ?r] exI [of _ ?budget]) (simp add: match_rules_snoc)
qed

theorem escaped_name_rule_witness:
  "\<exists>r budget'. add_line (name_rule_line True False True ''*.o'') False
         ([], \<lparr>rb_max_rule_bytes = 20, rb_max_rules = 1, rb_rule_bytes = 0, rb_rules = 0\<rparr>) = Inr ([r], budget') \<and>
       match_rules [r] ''build/*.o'' True = MatchWhitelist \<and> match_rules [r] ''build/a.o'' True = MatchNone"
proof -
  let ?budget = "\<lparr>rb_max_rule_bytes = 20, rb_max_rules = 1, rb_rule_bytes = 0, rb_rules = 0\<rparr>"
  have plain: "plain_name False True ''*.o''" by code_simp
  have room: "rb_rule_bytes ?budget + length (escape_name ''*.o'') + 3 \<le> rb_max_rule_bytes ?budget" by code_simp
  obtain r budget' where r: "add_line (name_rule_line True False True ''*.o'') False ([], ?budget) = Inr ([] @ [r], budget')"
      "match_rules ([] @ [r]) path is_dir =
         (if (True \<longrightarrow> is_dir) \<and> names_path False ''*.o'' path
          then (if True then MatchWhitelist else MatchIgnore) else match_rules [] path is_dir)" for path is_dir
    using escaped_name_rule [OF plain _ room, of True "[]"] by auto
  have "names_path False ''*.o'' ''build/*.o''" unfolding names_path_def by (auto intro: exI [of _ "''build''"])
  moreover have "\<not> names_path False ''*.o'' ''build/a.o''"
    unfolding names_path_def by (simp add: append_eq_Cons_conv Cons_eq_append_conv)
  moreover have "match_rules [] path is_dir = MatchNone" for path is_dir by (simp add: match_rules_def)
  ultimately show ?thesis using r(1) r(2) [of "''build/*.o''" True] r(2) [of "''build/a.o''" True] by auto
qed

section \<open>Rule files in chunks\<close>

text \<open>Reference: the lines of the whole text, each cut at the limit and freed of its return.\<close>

definition file_lines :: "nat \<Rightarrow> string \<Rightarrow> string list" where
  "file_lines limit t =
     (let ls = split_at_feeds t
      in map (\<lambda>l. drop_return (take limit l)) (if last ls = [] \<and> length ls > 1 then butlast ls else ls))"

fun add_lines :: "string list \<Rightarrow> bool \<Rightarrow> rule list \<times> rule_budget \<Rightarrow> (ignore_error, rule list \<times> rule_budget) result" where
  "add_lines [] first rules = Inr rules"
| "add_lines (l # ls) first rules = bind_r (add_line l first rules) (add_lines ls False)"

text \<open>A load state that holds the open line \<open>l\<close>.\<close>

definition open_line :: "nat \<Rightarrow> string \<Rightarrow> bool \<Rightarrow> rule list \<times> rule_budget \<Rightarrow> load_state" where
  "open_line limit l first rules =
     \<lparr>ld_line = take limit l, ld_first = first, ld_discard_tail = (length l > limit), ld_rules = rules\<rparr>"

lemma append_segment_open: "append_segment limit seg (open_line limit l first rules) = open_line limit (l @ seg) first rules"
  by (auto simp: append_segment_def open_line_def Let_def)

fun close_lines :: "nat \<Rightarrow> string list \<Rightarrow> bool \<Rightarrow> rule list \<times> rule_budget \<Rightarrow> (ignore_error, load_state) result" where
  "close_lines limit [] first rules = Inr (open_line limit [] first rules)"
| "close_lines limit [l] first rules = Inr (open_line limit l first rules)"
| "close_lines limit (l # ls) first rules =
     bind_r (add_line (drop_return (take limit l)) first rules) (\<lambda>rules'. close_lines limit ls False rules')"

lemma split_at_feeds_ne [simp]: "split_at_feeds t \<noteq> []"
  by (subst split_at_feeds.simps) (auto split: list.splits)

lemma split_at_feeds_append:
  "split_at_feeds (a @ b) = butlast (split_at_feeds a) @ (last (split_at_feeds a) @ hd (split_at_feeds b)) # tl (split_at_feeds b)"
proof (induction a rule: split_at_feeds.induct)
  case (1 a)
  show ?case
  proof (cases "dropWhile (\<lambda>c. c \<noteq> line_feed) a")
    case Nil
    then have "line_feed \<notin> set a" by (auto simp: dropWhile_eq_Nil_conv)
    then have "dropWhile (\<lambda>c. c \<noteq> line_feed) (a @ b) = dropWhile (\<lambda>c. c \<noteq> line_feed) b"
      "takeWhile (\<lambda>c. c \<noteq> line_feed) (a @ b) = a @ takeWhile (\<lambda>c. c \<noteq> line_feed) b"
      by (induction a) auto
    moreover have "split_at_feeds a = [a]" using Nil by (simp add: split_at_feeds.simps [of a] del: dropWhile_eq_Nil_conv)
    ultimately show ?thesis
      by (cases "dropWhile (\<lambda>c. c \<noteq> line_feed) b")
        (simp_all add: split_at_feeds.simps [of "a @ b"] split_at_feeds.simps [of b] del: dropWhile_eq_Nil_conv)
  next
    case (Cons c rest)
    then have "\<exists>x\<in>set a. x = line_feed" using dropWhile_eq_Nil_conv [of "\<lambda>c. c \<noteq> line_feed" a] by auto
    then have "dropWhile (\<lambda>c. c \<noteq> line_feed) (a @ b) = c # rest @ b"
      "takeWhile (\<lambda>c. c \<noteq> line_feed) (a @ b) = takeWhile (\<lambda>c. c \<noteq> line_feed) a"
      using Cons by (auto simp: dropWhile_append1 takeWhile_append1)
    then show ?thesis
      using "1.IH" [OF Cons] Cons by (simp add: split_at_feeds.simps [of "a @ b"] split_at_feeds.simps [of a])
  qed
qed

lemma close_lines_Cons:
  "ls \<noteq> [] \<Longrightarrow> close_lines limit (l # ls) first rules =
     bind_r (add_line (drop_return (take limit l)) first rules) (\<lambda>rules'. close_lines limit ls False rules')"
  by (cases ls) simp_all

lemma flush_open:
  "flush_line (open_line limit l first rules) =
     bind_r (add_line (drop_return (take limit l)) first rules) (\<lambda>rules'. Inr (open_line limit l False rules'\<lparr>ld_line := []\<rparr>))"
  by (auto simp: flush_line_def open_line_def bind_r_def split: sum.splits)

lemma load_chunk_open:
  "load_chunk limit t (open_line limit l first rules) =
   close_lines limit ((l @ hd (split_at_feeds t)) # tl (split_at_feeds t)) first rules"
proof (induction "length t" arbitrary: t l first rules rule: less_induct)
  case less
  show ?case
  proof (cases "dropWhile (\<lambda>c. c \<noteq> line_feed) t")
    case Nil
    then have whole: "takeWhile (\<lambda>c. c \<noteq> line_feed) t = t" by (metis append_Nil2 takeWhile_dropWhile_id)
    show ?thesis using Nil unfolding load_chunk.simps [of limit t] whole
      by (simp add: split_at_feeds.simps [of t] Let_def append_segment_open del: dropWhile_eq_Nil_conv)
  next
    case (Cons c rest)
    let ?seg = "takeWhile (\<lambda>c. c \<noteq> line_feed) t"
    have shorter: "length rest < length t" using Cons length_dropWhile_le [of "\<lambda>c. c \<noteq> line_feed" t] by simp
    have reset: "(open_line limit m False rules'\<lparr>ld_line := []\<rparr>)\<lparr>ld_discard_tail := False\<rparr> = open_line limit [] False rules'" for m rules'
      by (simp add: open_line_def)
    have "load_chunk limit t (open_line limit l first rules) =
          bind_r (add_line (drop_return (take limit (l @ ?seg))) first rules)
            (\<lambda>rules'. load_chunk limit rest (open_line limit [] False rules'))"
      using Cons by (auto simp: load_chunk.simps [of limit t] Let_def append_segment_open flush_open reset bind_r_def split: sum.splits)
    also have "\<dots> = bind_r (add_line (drop_return (take limit (l @ ?seg))) first rules)
            (\<lambda>rules'. close_lines limit (split_at_feeds rest) False rules')"
      using less [OF shorter, of "[]"] by simp
    also have "\<dots> = close_lines limit ((l @ hd (split_at_feeds t)) # tl (split_at_feeds t)) first rules"
      using Cons by (simp add: split_at_feeds.simps [of t] close_lines_Cons)
    finally show ?thesis .
  qed
qed

lemma close_lines_continue:
  "bind_r (close_lines limit (ls @ [l]) first rules) (load_chunk limit t) =
   close_lines limit (ls @ (l @ hd (split_at_feeds t)) # tl (split_at_feeds t)) first rules"
  by (induction ls arbitrary: first rules)
    (auto simp: load_chunk_open close_lines_Cons bind_r_def split: sum.splits)

text \<open>The budget bounds the rules a load keeps.\<close>

definition budget_kept :: "rule list \<times> rule_budget \<Rightarrow> bool" where
  "budget_kept st \<longleftrightarrow>
     length (fst st) \<le> rb_rules (snd st) \<and> rb_rules (snd st) \<le> rb_max_rules (snd st) \<and>
     rb_rule_bytes (snd st) \<le> rb_max_rule_bytes (snd st)"

lemma add_line_budget: "add_line l first st = Inr st' \<Longrightarrow> budget_kept st \<Longrightarrow> budget_kept st'"
  by (auto simp: add_line_def budget_kept_def Let_def split: prod.splits option.splits if_splits)

lemma load_chunk_budget: "load_chunk limit t st = Inr st' \<Longrightarrow> budget_kept (ld_rules st) \<Longrightarrow> budget_kept (ld_rules st')"
proof (induction limit t st arbitrary: st' rule: load_chunk.induct)
  case (1 limit t st)
  show ?case
  proof (cases "dropWhile (\<lambda>c. c \<noteq> line_feed) t")
    case Nil
    then show ?thesis using "1.prems"
      by (auto simp: load_chunk.simps [of limit t] Let_def append_segment_def simp del: dropWhile_eq_Nil_conv split: if_splits)
  next
    case (Cons c rest)
    then have ne: "t \<noteq> []" by auto
    let ?st1 = "append_segment limit (takeWhile (\<lambda>c. c \<noteq> line_feed) t) st"
    obtain st2 where st2: "flush_line ?st1 = Inr st2" "load_chunk limit rest (st2\<lparr>ld_discard_tail := False\<rparr>) = Inr st'"
      using "1.prems"(1) Cons ne by (auto simp: load_chunk.simps [of limit t] Let_def)
    have "budget_kept (ld_rules ?st1)" using "1.prems"(2) by (simp add: append_segment_def Let_def)
    then have "budget_kept (ld_rules st2)"
      using st2(1) add_line_budget [of _ _ "ld_rules ?st1"] by (auto simp del: split_paired_All simp: flush_line_def split: sum.splits)
    then show ?thesis using "1.IH" [OF ne refl refl refl _ st2(1)] Cons st2(2) by simp
  qed
qed

interpretation rule_load: fallible_steps "\<lambda>st chunk. load_chunk limit chunk st" "\<lambda>st. budget_kept (ld_rules st)" "\<lambda>_. True"
  for limit
  by unfold_locales (rule load_chunk_budget)

lemma load_chunks:
  "fold_r (\<lambda>st chunk. load_chunk limit chunk st) (open_line limit [] first rules) chunks =
   close_lines limit (split_at_feeds (concat chunks)) first rules"
proof (induction chunks rule: rev_induct)
  case Nil
  show ?case by (simp add: split_at_feeds.simps)
next
  case (snoc t chunks)
  let ?ls = "split_at_feeds (concat chunks)"
  have "fold_r (\<lambda>st chunk. load_chunk limit chunk st) (open_line limit [] first rules) (chunks @ [t]) =
        bind_r (close_lines limit (butlast ?ls @ [last ?ls]) first rules) (load_chunk limit t)"
    using snoc by (simp add: rule_load.run_snoc)
  then show ?case unfolding close_lines_continue by (simp add: split_at_feeds_append)
qed

text \<open>After the last chunk, the open line is a rule line unless it is empty and not the first.\<close>

definition finish_load :: "load_state \<Rightarrow> (ignore_error, rule list \<times> rule_budget) result" where
  "finish_load st =
     (if ld_line st \<noteq> [] \<or> ld_first st then bind_r (flush_line st) (\<lambda>st'. Inr (ld_rules st')) else Inr (ld_rules st))"

lemma finish_close:
  "0 < limit \<Longrightarrow> ls \<noteq> [] \<Longrightarrow>
   bind_r (close_lines limit ls first rules) finish_load =
   add_lines (map (\<lambda>l. drop_return (take limit l)) (if last ls = [] \<and> (length ls > 1 \<or> \<not> first) then butlast ls else ls)) first rules"
proof (induction ls arbitrary: first rules)
  case (Cons l ls)
  show ?case
  proof (cases "ls = []")
    case True
    then show ?thesis using Cons.prems(1)
      by (auto simp: finish_load_def flush_open open_line_def flush_line_def bind_r_def split: sum.splits)
  next
    case False
    then show ?thesis using Cons.IH [OF Cons.prems(1) False]
      by (auto simp: close_lines_Cons bind_r_def split: sum.splits)
  qed
qed simp

text \<open>
  C20. A rule file reads the same however it arrives. Loading a file in any non-empty chunks adds
  exactly the lines of the whole text, in order and until the first error of the budget: each line
  cut at the line limit, freed of a final return, the first one marked as such, and no line after a
  final line feed.
\<close>
theorem load_rule_file_chunks:
  assumes "[] \<notin> set chunks"
  shows "load_rule_file kRuleLineMaxBytes chunks rules =
         (if chunks = [] then Inr rules else add_lines (file_lines kRuleLineMaxBytes (concat chunks)) True rules)"
proof (cases "chunks = []")
  case False
  have "load_rule_file kRuleLineMaxBytes chunks rules =
        bind_r (fold_r (\<lambda>st chunk. load_chunk kRuleLineMaxBytes chunk st) (open_line kRuleLineMaxBytes [] True rules) chunks) finish_load"
    using False by (simp add: load_rule_file_def open_line_def finish_load_def bind_r_def split: sum.splits)
  moreover have "0 < kRuleLineMaxBytes" by (simp add: kRuleLineMaxBytes_def)
  ultimately show ?thesis using False by (simp add: load_chunks finish_close file_lines_def Let_def)
qed (simp add: load_rule_file_def)

theorem load_rule_file_chunks_witness:
  "load_rule_file kRuleLineMaxBytes [''*.'', ''o'' @ [line_feed] @ ''b''] ([], \<lparr>rb_max_rule_bytes = 20, rb_max_rules = 2, rb_rule_bytes = 0, rb_rules = 0\<rparr>)
   = load_rule_file kRuleLineMaxBytes [''*.o'' @ [line_feed], ''b''] ([], \<lparr>rb_max_rule_bytes = 20, rb_max_rules = 2, rb_rule_bytes = 0, rb_rules = 0\<rparr>)"
  using load_rule_file_chunks [of "[''*.'', ''o'' @ [line_feed] @ ''b'']" "([], \<lparr>rb_max_rule_bytes = 20, rb_max_rules = 2, rb_rule_bytes = 0, rb_rules = 0\<rparr>)"]
    load_rule_file_chunks [of "[''*.o'' @ [line_feed], ''b'']" "([], \<lparr>rb_max_rule_bytes = 20, rb_max_rules = 2, rb_rule_bytes = 0, rb_rules = 0\<rparr>)"] by simp

end
