(* ===== verification/Git_Config_Laws.thy ===== *)
theory Git_Config_Laws
  imports Git_Config Bounded_Text_Laws
begin

text \<open>
  Laws of the names: a rendered name is well-formed text, the same as the name where that is
  well-formed; the tests of this loop are those of the bounded texts.
\<close>

section \<open>Rendered names\<close>

lemma lossy_lead: "128 \<le> lead \<Longrightarrow> lossy_lead_length lead = lead_length lead"
  by (simp add: lossy_lead_length_def lead_length_def)

lemma valid_bytes_all:
  "valid \<le> len \<Longrightarrow> valid_bytes lead len valid cs = len \<longleftrightarrow>
     len - valid \<le> length cs \<and> (\<forall>i<len - valid. continues lead (valid + i) (uchar (cs ! i)))"
proof (induction cs arbitrary: valid)
  case (Cons c cs)
  show ?case
  proof (cases "valid < len")
    case True
    have split: "(\<forall>i<len - valid. Q i) \<longleftrightarrow> Q 0 \<and> (\<forall>i<len - Suc valid. Q (Suc i))" for Q :: "nat \<Rightarrow> bool"
    proof -
      have "len - valid = Suc (len - Suc valid)" using True by simp
      then show ?thesis by (metis less_Suc_eq_0_disj)
    qed
    show ?thesis using Cons.IH [of "Suc valid"] True unfolding split by auto
  qed (use Cons.prems in simp)
qed auto

definition second_byte :: "nat \<Rightarrow> nat \<Rightarrow> bool" where
  "second_byte lead b \<longleftrightarrow>
     \<not> (lead = 0xe0 \<and> b < 0xa0 \<or> lead = 0xed \<and> b > 0x9f \<or> lead = 0xf0 \<and> b < 0x90 \<or> lead = 0xf4 \<and> b > 0x8f)"

lemma continues_iff: "continues lead i b \<longleftrightarrow> valid_continuation b \<and> (i = 1 \<longrightarrow> second_byte lead b)"
  by (auto simp: continues_def valid_continuation_def second_byte_def)

lemma continues_all:
  assumes "0 < n"
  shows "(\<forall>i<n. continues lead (1 + i) (uchar (cs ! i))) \<longleftrightarrow>
         (\<forall>i<n. valid_continuation (uchar (cs ! i))) \<and> second_byte lead (uchar (cs ! 0))"
  using assms by (auto simp: continues_iff)

lemma sequence_second:
  assumes "lead_length lead = len" "cs \<noteq> []"
  shows "(\<not> (len = 3 \<and> (lead = 0xe0 \<and> (lead # map uchar cs) ! 1 < 0xa0 \<or> lead = 0xed \<and> (lead # map uchar cs) ! 1 \<ge> 0xa0)) \<and>
          \<not> (len = 4 \<and> (lead = 0xf0 \<and> (lead # map uchar cs) ! 1 < 0x90 \<or> lead = 0xf4 \<and> (lead # map uchar cs) ! 1 \<ge> 0x90))) \<longleftrightarrow>
         second_byte lead (uchar (cs ! 0))"
  using assms by (cases cs) (auto simp: second_byte_def lead_length_def split: if_splits)

lemma lossy_sequence:
  assumes "128 \<le> uchar c"
  shows "sequence_length (map uchar (c # cs)) =
         (if lossy_lead_length (uchar c) \<noteq> 0 \<and> valid_bytes (uchar c) (lossy_lead_length (uchar c)) 1 cs = lossy_lead_length (uchar c)
          then Some (lossy_lead_length (uchar c)) else None)"
proof (cases "lead_length (uchar c) = 0")
  case False
  define lead len where "lead = uchar c" and "len = lead_length lead"
  have len: "2 \<le> len" using False assms by (auto simp: lead_def len_def lead_length_def split: if_splits)
  have cont: "list_all valid_continuation (take (len - 1) (map uchar cs)) \<longleftrightarrow> (\<forall>i<len - 1. valid_continuation (uchar (cs ! i)))"
    if "len - 1 \<le> length cs"
    using that by (auto simp: list_all_length)
  have "valid_bytes lead len 1 cs = len \<longleftrightarrow>
        len - 1 \<le> length cs \<and> (\<forall>i<len - 1. valid_continuation (uchar (cs ! i))) \<and> second_byte lead (uchar (cs ! 0))"
    using len valid_bytes_all [of 1 len lead cs] continues_all [of "len - 1" lead cs] by simp
  also have "\<dots> \<longleftrightarrow> sequence_length (lead # map uchar cs) = Some len"
  proof (cases "len - 1 \<le> length cs")
    case True
    then have "cs \<noteq> []" "len \<le> length (lead # map uchar cs)" using len by auto
    then show ?thesis
      using sequence_second [OF len_def [symmetric] \<open>cs \<noteq> []\<close>] cont [OF True] True len
      unfolding sequence_length_def Let_def list.sel len_def [symmetric] by auto
  qed (use len in \<open>auto simp: sequence_length_def len_def [symmetric] Let_def\<close>)
  finally have *: "valid_bytes lead len 1 cs = len \<longleftrightarrow> sequence_length (lead # map uchar cs) = Some len" .
  moreover have "sequence_length (lead # map uchar cs) \<in> {None, Some len}"
    by (auto simp: sequence_length_def len_def [symmetric] Let_def)
  ultimately show ?thesis using len assms by (auto simp: lossy_lead lead_def [symmetric] len_def [symmetric])
qed (use assms in \<open>simp add: lossy_lead sequence_length_def\<close>)

lemma ascii_sequence: "uchar c < 128 \<Longrightarrow> sequence_length (map uchar (c # cs)) = Some 1"
  by (simp add: sequence_length_def lead_length_def)

text \<open>The loop in terms of whole sequences.\<close>

lemma utf8_lossy_some:
  assumes "sequence_length (map uchar s) = Some len" "s \<noteq> []"
  shows "utf8_lossy s = take len s @ utf8_lossy (drop len s)"
proof -
  obtain c cs where s: "s = c # cs" using assms(2) by (cases s) auto
  show ?thesis
  proof (cases "uchar c < 128")
    case True
    then show ?thesis using assms ascii_sequence [OF True, of cs] s by (simp add: utf8_lossy.simps)
  next
    case False
    then have "lossy_lead_length (uchar c) = len" "len \<noteq> 0" "valid_bytes (uchar c) len 1 cs = len"
      using assms(1) lossy_sequence [of c cs] s by (auto split: if_splits)
    then show ?thesis using False s by (cases len) (simp_all add: utf8_lossy.simps Let_def)
  qed
qed

lemma utf8_lossy_none:
  assumes "sequence_length (map uchar s) = None" "s \<noteq> []"
  shows "\<exists>n. 0 < n \<and> utf8_lossy s = replacement @ utf8_lossy (drop n s)"
proof -
  obtain c cs where s: "s = c # cs" using assms(2) by (cases s) auto
  have high: "\<not> uchar c < 128" using assms(1) ascii_sequence s by auto
  let ?len = "lossy_lead_length (uchar c)"
  show ?thesis
  proof (cases "?len = 0")
    case True
    then show ?thesis using high s by (intro exI [of _ 1]) (simp add: utf8_lossy.simps)
  next
    case False
    let ?n = "valid_bytes (uchar c) ?len 1 cs"
    have "?n \<noteq> ?len" using assms(1) lossy_sequence [of c cs] high False s by auto
    moreover have "1 \<le> ?n" by (rule valid_bytes_ge)
    ultimately show ?thesis using False high s by (intro exI [of _ ?n]) (cases ?n, simp_all add: utf8_lossy.simps Let_def)
  qed
qed

lemma utf8_lossy_well_formed: "\<exists>cps. (\<forall>cp\<in>set cps. scalar cp) \<and> map uchar (utf8_lossy s) = utf8_of cps"
proof (induction "length s" arbitrary: s rule: less_induct)
  case less
  show ?case
  proof (cases "s = []")
    case False
    obtain cp n where cp: "scalar cp" "0 < n" "map uchar (utf8_lossy s) = utf8_bytes cp @ map uchar (utf8_lossy (drop n s))"
    proof (cases "sequence_length (map uchar s)")
      case None
      then show ?thesis
        using utf8_lossy_none [OF None False] that [OF replacement_bytes(3)] by (auto simp: replacement_bytes(1))
    next
      case (Some len)
      then show ?thesis
        using utf8_lossy_some [OF Some False] sequence_accepted [OF Some] False that by (auto simp: take_map)
    qed
    have "length (drop n s) < length s" using cp(2) False by simp
    then obtain cps where "\<forall>cp\<in>set cps. scalar cp" "map uchar (utf8_lossy (drop n s)) = utf8_of cps" using less by blast
    then show ?thesis using cp by (intro exI [of _ "cp # cps"]) simp
  qed (auto simp: utf8_lossy.simps intro: exI [of _ "[]"])
qed

lemma utf8_lossy_same: "\<forall>cp\<in>set cps. scalar cp \<Longrightarrow> map uchar s = utf8_of cps \<Longrightarrow> utf8_lossy s = s"
proof (induction cps arbitrary: s)
  case (Cons cp cps)
  let ?n = "length (utf8_bytes cp)"
  have "sequence_length (map uchar s) = Some ?n" using Cons.prems sequence_of_scalar by simp
  moreover have "s \<noteq> []" using Cons.prems(2) utf8_bytes_nonempty [of cp] by auto
  moreover have "map uchar (drop ?n s) = utf8_of cps" using Cons.prems(2) by (simp add: drop_map [symmetric])
  ultimately show ?case using utf8_lossy_some [of s ?n] Cons.IH [of "drop ?n s"] Cons.prems(1) by simp
qed (simp add: utf8_lossy.simps)

text \<open>
  Names become well-formed text, and only broken names change. Whatever bytes a name has, its
  rendering decodes as UTF-8, and it is the name itself exactly if the name decodes.
\<close>
theorem utf8_lossy_valid:
  "decode_utf8 (utf8_lossy s) \<noteq> None \<and> (utf8_lossy s = s \<longleftrightarrow> decode_utf8 s \<noteq> None)"
proof -
  have "decode_utf8 (utf8_lossy s) \<noteq> None" using utf8_lossy_well_formed by (simp only: decode_valid_iff)
  moreover have "utf8_lossy s = s" if "decode_utf8 s \<noteq> None" using that utf8_lossy_same by (auto simp only: decode_valid_iff)
  ultimately show ?thesis by metis
qed

section \<open>The excludes file\<close>

lemma scan_excludes_line_some: "scan_excludes_line l = Some v \<Longrightarrow> v \<noteq> []"
  by (auto simp: scan_excludes_line_def Let_def split: if_splits list.splits)

lemma first_some_mem: "first_some f xs = Some y \<Longrightarrow> \<exists>x\<in>set xs. f x = Some y"
  by (induction xs) (auto split: option.splits)

lemma config_value_nonempty: "excludes_file_from_config fs env_name fallback = Some v \<Longrightarrow> v \<noteq> []"
proof -
  assume "excludes_file_from_config fs env_name fallback = Some v"
  then obtain contents where "map_option (expand_tilde (home_dir fs)) (scan_excludes_file contents) = Some v"
    by (auto simp: excludes_file_from_config_def Let_def bind_eq_Some_conv split: if_splits)
  then obtain tok where tok: "scan_excludes_file contents = Some tok" "v = expand_tilde (home_dir fs) tok" by auto
  then have "tok \<noteq> []" using first_some_mem scan_excludes_line_some unfolding scan_excludes_file_def by metis
  then show "v \<noteq> []" using tok(2) by (simp add: expand_tilde_def)
qed

text \<open>The lookup always names a file: without a configured value it is the default below the XDG directory.\<close>

lemma resolve_path_nonempty: "resolve_path fs \<noteq> []"
  using config_value_nonempty [of fs]
  by (auto simp: resolve_path_def split: option.split dest!: first_some_mem)

end
