(* ===== verification/Storage_Encoding.thy ===== *)
theory Storage_Encoding
  imports Int64_Double Storage_State Json_Text
begin

text \<open>
  \<^verbatim>\<open>src/src/durable/StorageEncoding.cpp\<close>: operations, tasks, conversations, entries and submissions as JSON
  values, and their decoding. The value of a cast that C++ leaves undefined is a parameter; the texts
  of error messages are left out.
\<close>

datatype encoding_error = Corruption | JsonFailed json_error | BatchInvalid delta_error

definition lift_json :: "(json_error, 'a) result \<Rightarrow> (encoding_error, 'a) result" where
  "lift_json r = (case r of Inl e \<Rightarrow> Inl (JsonFailed e) | Inr x \<Rightarrow> Inr x)"

definition or_corrupt :: "'a option \<Rightarrow> (encoding_error, 'a) result" where
  "or_corrupt v = (case v of None \<Rightarrow> Inl Corruption | Some x \<Rightarrow> Inr x)"

definition decode_json :: "support_json \<Rightarrow> (encoding_error, json) result" where
  "decode_json v = lift_json (from_support v)"

section \<open>Numbers\<close>

definition support_number :: "int \<Rightarrow> support_json" where
  "support_number i = SNum (double_of_int i)"

definition nonnegative_integer :: "(dbl \<Rightarrow> int) \<Rightarrow> support_json \<Rightarrow> int option" where
  "nonnegative_integer undefined_cast v =
     (case v of
        SNum d \<Rightarrow>
          (case dbl_value d of
             None \<Rightarrow> None
           | Some q \<Rightarrow>
               if q < 0 \<or> q > 2 ^ 63 \<or> of_int \<lfloor>q\<rfloor> \<noteq> q then None else Some (int64_of undefined_cast d))
      | _ \<Rightarrow> None)"

text \<open>\<^verbatim>\<open>static_cast<std::size_t>\<close> of a 64-bit integer.\<close>

definition size_of_int :: "int \<Rightarrow> nat" where
  "size_of_int i = nat (i mod 2 ^ 64)"

definition decode_size :: "(dbl \<Rightarrow> int) \<Rightarrow> support_json \<Rightarrow> (encoding_error, nat) result" where
  "decode_size undefined_cast v =
     (case nonnegative_integer undefined_cast v of
        None \<Rightarrow> Inl Corruption
      | Some i \<Rightarrow> if size_of_int i > size_max then Inl Corruption else Inr (size_of_int i))"

section \<open>Operations\<close>

definition path_value :: "path \<Rightarrow> support_json" where
  "path_value p = SArr (map (\<lambda>s. case s of PathKey k \<Rightarrow> SStr k | PathIndex i \<Rightarrow> support_number (int i)) p)"

fun op_value :: "op \<Rightarrow> support_json" where
  "op_value (ReplaceOp v) = SArr [SStr ''r'', to_support v]"
| "op_value (SetOp p v) = SArr [SStr ''s'', path_value p, to_support v]"
| "op_value (DeleteOp p) = SArr [SStr ''d'', path_value p]"
| "op_value (AppendOp p t) = SArr [SStr ''a'', path_value p, SStr t]"
| "op_value (TruncateOp p n) = SArr [SStr ''t'', path_value p, support_number (int n)]"
| "op_value (SpliceOp p i n items) =
     SArr [SStr ''p'', path_value p, support_number (int i), support_number (int n), SArr (map to_support items)]"
| "op_value (MoveOp p perm) =
     SArr [SStr ''m'', path_value p, SArr (map (\<lambda>i. support_number (int i)) perm)]"

definition ops_value :: "op list \<Rightarrow> support_json" where
  "ops_value ops = SArr (map op_value ops)"

definition support_array :: "support_json \<Rightarrow> support_json list option" where
  "support_array v = (case v of SArr a \<Rightarrow> Some a | _ \<Rightarrow> None)"

definition support_string :: "support_json \<Rightarrow> string option" where
  "support_string v = (case v of SStr s \<Rightarrow> Some s | _ \<Rightarrow> None)"

definition support_object :: "support_json \<Rightarrow> support_json members option" where
  "support_object v = (case v of SObj ob \<Rightarrow> Some ob | _ \<Rightarrow> None)"

definition decode_stored_segment :: "(dbl \<Rightarrow> int) \<Rightarrow> support_json \<Rightarrow> (encoding_error, segment) result" where
  "decode_stored_segment undefined_cast v =
     (case v of
        SStr k \<Rightarrow> Inr (PathKey k)
      | _ \<Rightarrow> bind_r (decode_size undefined_cast v) (\<lambda>i. Inr (PathIndex i)))"

definition decode_stored_path :: "(dbl \<Rightarrow> int) \<Rightarrow> support_json \<Rightarrow> (encoding_error, path) result" where
  "decode_stored_path undefined_cast v =
     bind_r (or_corrupt (support_array v)) (map_r (decode_stored_segment undefined_cast))"

text \<open>Any failure becomes the one error of an invalid operation.\<close>

definition corrupt :: "('e, 'a) result \<Rightarrow> (encoding_error, 'a) result" where
  "corrupt r = (case r of Inl _ \<Rightarrow> Inl Corruption | Inr x \<Rightarrow> Inr x)"

definition decode_stored_op :: "(dbl \<Rightarrow> int) \<Rightarrow> support_json \<Rightarrow> (encoding_error, op) result" where
  "decode_stored_op undefined_cast encoded =
     (let path = decode_stored_path undefined_cast; size = decode_size undefined_cast;
          whole = (\<lambda>v. bind_r (or_corrupt (nonnegative_integer undefined_cast v)) (\<lambda>i. Inr (size_of_int i)))
      in case encoded of
           SArr (SStr verb # args) \<Rightarrow>
             if verb = ''r'' \<and> length args = 1 then bind_r (decode_json (args ! 0)) (\<lambda>v. Inr (ReplaceOp v))
             else if verb = ''s'' \<and> length args = 2
             then bind_r (corrupt (path (args ! 0))) (\<lambda>p. bind_r (corrupt (decode_json (args ! 1))) (\<lambda>v. Inr (SetOp p v)))
             else if verb = ''d'' \<and> length args = 1 then bind_r (path (args ! 0)) (\<lambda>p. Inr (DeleteOp p))
             else if verb = ''a'' \<and> length args = 2
             then bind_r (corrupt (path (args ! 0))) (\<lambda>p. bind_r (or_corrupt (support_string (args ! 1))) (\<lambda>t. Inr (AppendOp p t)))
             else if verb = ''t'' \<and> length args = 2
             then bind_r (corrupt (path (args ! 0))) (\<lambda>p. bind_r (size (args ! 1)) (\<lambda>n. Inr (TruncateOp p n)))
             else if verb = ''p'' \<and> length args = 4
             then bind_r (corrupt (path (args ! 0))) (\<lambda>p. bind_r (whole (args ! 1)) (\<lambda>i. bind_r (whole (args ! 2)) (\<lambda>n.
                  bind_r (or_corrupt (support_array (args ! 3))) (\<lambda>items.
                  bind_r (map_r decode_json items) (\<lambda>vs. Inr (SpliceOp p i n vs))))))
             else if verb = ''m'' \<and> length args = 2
             then bind_r (corrupt (path (args ! 0))) (\<lambda>p. bind_r (or_corrupt (support_array (args ! 1))) (\<lambda>items.
                  bind_r (map_r size items) (\<lambda>perm. Inr (MoveOp p perm))))
             else Inl Corruption
         | _ \<Rightarrow> Inl Corruption)"

definition decode_stored_ops :: "(dbl \<Rightarrow> int) \<Rightarrow> support_json \<Rightarrow> (encoding_error, op list) result" where
  "decode_stored_ops undefined_cast v =
     bind_r (or_corrupt (support_array v)) (\<lambda>encoded.
     bind_r (map_r (decode_stored_op undefined_cast) encoded) (\<lambda>ops.
     case validate_batch ops of Inl e \<Rightarrow> Inl (BatchInvalid e) | Inr _ \<Rightarrow> Inr ops))"

section \<open>Records\<close>

definition json_int :: "int \<Rightarrow> json" where
  "json_int i = JNum (double_of_int i)"

text \<open>The member of a present value.\<close>

definition opt_member :: "string \<Rightarrow> ('a \<Rightarrow> 'v) \<Rightarrow> 'a option \<Rightarrow> 'v members" where
  "opt_member k f v = (case v of None \<Rightarrow> [] | Some x \<Rightarrow> [(k, f x)])"

definition when_member :: "bool \<Rightarrow> string \<Rightarrow> 'v \<Rightarrow> 'v members" where
  "when_member b k v = (if b then [(k, v)] else [])"

fun join_policy_name :: "join_policy \<Rightarrow> string" where
  "join_policy_name AllSettled = ''allSettled''"
| "join_policy_name FailFast = ''failFast''"

definition join_policy_from_name :: "string \<Rightarrow> join_policy option" where
  "join_policy_from_name name =
     (if name = ''allSettled'' then Some AllSettled else if name = ''failFast'' then Some FailFast else None)"

definition encode_outcome_error :: "task_outcome_error \<Rightarrow> json" where
  "encode_outcome_error e = JObj ((''message'', JStr (te_message e)) # opt_member ''detail'' id (te_detail e))"

definition encode_outcome :: "task_outcome \<Rightarrow> json" where
  "encode_outcome r =
     JObj ((''status'', JStr (to_status r)) # opt_member ''result'' id (to_result r) @
       opt_member ''reason'' JStr (to_reason r) @ opt_member ''error'' encode_outcome_error (to_error r))"

definition encode_task_state :: "task_state \<Rightarrow> json" where
  "encode_task_state st =
     JObj ((''status'', JStr (ts_status st)) # opt_member ''checkpoint'' id (ts_checkpoint st) @
       (if ts_status st = ''waiting''
        then (''on'', JArr (map json_int (ts_on st))) # opt_member ''policy'' (\<lambda>p. JStr (join_policy_name p)) (ts_policy st)
        else []) @
       opt_member ''outcome'' encode_outcome (ts_outcome st))"

definition encode_task_record :: "task_record \<Rightarrow> json" where
  "encode_task_record t =
     JObj ([(''id'', json_int (tk_id t)), (''conversationId'', json_int (tk_conversation t)), (''kind'', JStr (tk_kind t)),
            (''version'', json_int (tk_version t)), (''input'', tk_input t)] @
       opt_member ''owner'' json_int (tk_owner t) @ [(''background'', JBool (tk_background t))] @
       when_member (tk_abandon_on_restart t) ''abandonOnRestart'' (JBool True) @
       [(''abortRequested'', JBool (tk_abort_requested t))] @ opt_member ''abortReason'' JStr (tk_abort_reason t) @
       opt_member ''startedAt'' json_int (tk_started_at t) @ opt_member ''endedAt'' json_int (tk_ended_at t) @
       [(''state'', encode_task_state (tk_state t))] @
       when_member (tk_memos t \<noteq> []) ''memos'' (JObj (emplace_all (tk_memos t))))"

definition number_member :: "(dbl \<Rightarrow> int) \<Rightarrow> json members \<Rightarrow> string \<Rightarrow> int option" where
  "number_member undefined_cast ob k = map_option (int64_of undefined_cast) (Option.bind (find_member ob k) as_number)"

definition text_member :: "json members \<Rightarrow> string \<Rightarrow> string option" where
  "text_member ob k = Option.bind (find_member ob k) as_string"

definition flag_member :: "json members \<Rightarrow> string \<Rightarrow> bool" where
  "flag_member ob k = (case Option.bind (find_member ob k) as_boolean of None \<Rightarrow> False | Some b \<Rightarrow> b)"

definition text_or_empty :: "json members \<Rightarrow> string \<Rightarrow> string" where
  "text_or_empty ob k = (case text_member ob k of None \<Rightarrow> [] | Some s \<Rightarrow> s)"

definition decode_outcome_error :: "json members \<Rightarrow> task_outcome_error" where
  "decode_outcome_error ob = \<lparr>te_message = text_or_empty ob ''message'', te_detail = find_member ob ''detail''\<rparr>"

definition decode_outcome :: "json members \<Rightarrow> task_outcome" where
  "decode_outcome ob =
     \<lparr>to_status = text_or_empty ob ''status'', to_result = find_member ob ''result'',
      to_error = map_option decode_outcome_error (Option.bind (find_member ob ''error'') as_object),
      to_reason = text_member ob ''reason''\<rparr>"

definition decode_wait_list :: "(dbl \<Rightarrow> int) \<Rightarrow> json members \<Rightarrow> (encoding_error, int list) result" where
  "decode_wait_list undefined_cast ob =
     (case find_member ob ''on'' of
        None \<Rightarrow> Inr []
      | Some v \<Rightarrow>
          bind_r (or_corrupt (as_array v)) (map_r (\<lambda>e. or_corrupt (map_option (int64_of undefined_cast) (as_number e)))))"

definition decode_policy :: "json members \<Rightarrow> (encoding_error, join_policy option) result" where
  "decode_policy ob =
     (case find_member ob ''policy'' of
        None \<Rightarrow> Inr None
      | Some v \<Rightarrow> bind_r (or_corrupt (Option.bind (as_string v) join_policy_from_name)) (\<lambda>p. Inr (Some p)))"

definition decode_task_state :: "(dbl \<Rightarrow> int) \<Rightarrow> json members \<Rightarrow> (encoding_error, task_state) result" where
  "decode_task_state undefined_cast ob =
     bind_r (or_corrupt (text_member ob ''status'')) (\<lambda>status.
     bind_r (decode_wait_list undefined_cast ob) (\<lambda>on_tasks.
     bind_r (decode_policy ob) (\<lambda>policy.
     Inr \<lparr>ts_status = status, ts_checkpoint = find_member ob ''checkpoint'', ts_on = on_tasks, ts_policy = policy,
          ts_outcome = map_option decode_outcome (Option.bind (find_member ob ''outcome'') as_object)\<rparr>)))"

text \<open>\<^verbatim>\<open>std::map::emplace\<close> in the order of the keys.\<close>

fun sorted_emplace :: "string \<Rightarrow> 'v \<Rightarrow> 'v members \<Rightarrow> 'v members" where
  "sorted_emplace k v [] = [(k, v)]"
| "sorted_emplace k v ((l, w) # ms) =
     (if k = l then (l, w) # ms else if k < l then (k, v) # (l, w) # ms else (l, w) # sorted_emplace k v ms)"

definition decode_memos :: "json members \<Rightarrow> json members" where
  "decode_memos ob =
     (case Option.bind (find_member ob ''memos'') as_object of
        None \<Rightarrow> [] | Some ms \<Rightarrow> fold (\<lambda>(k, v) acc. sorted_emplace k v acc) ms [])"

definition decode_task_record :: "(dbl \<Rightarrow> int) \<Rightarrow> json \<Rightarrow> (encoding_error, task_record) result" where
  "decode_task_record undefined_cast j =
     bind_r (or_corrupt (as_object j)) (\<lambda>ob.
     bind_r (or_corrupt (number_member undefined_cast ob ''id'')) (\<lambda>i.
     bind_r (or_corrupt (number_member undefined_cast ob ''conversationId'')) (\<lambda>c.
     bind_r (or_corrupt (text_member ob ''kind'')) (\<lambda>kind.
     bind_r (or_corrupt (number_member undefined_cast ob ''version'')) (\<lambda>version.
     bind_r (or_corrupt (find_member ob ''input'')) (\<lambda>input.
     bind_r (or_corrupt (Option.bind (find_member ob ''state'') as_object)) (\<lambda>state_ob.
     bind_r (decode_task_state undefined_cast state_ob) (\<lambda>state.
     Inr \<lparr>tk_id = i, tk_conversation = c, tk_kind = kind, tk_version = version, tk_input = input,
          tk_owner = number_member undefined_cast ob ''owner'', tk_background = flag_member ob ''background'',
          tk_abandon_on_restart = flag_member ob ''abandonOnRestart'', tk_abort_requested = flag_member ob ''abortRequested'',
          tk_abort_reason = text_member ob ''abortReason'', tk_started_at = number_member undefined_cast ob ''startedAt'',
          tk_ended_at = number_member undefined_cast ob ''endedAt'', tk_state = state, tk_memos = decode_memos ob\<rparr>))))))))"

definition encode_edge :: "string \<Rightarrow> int \<times> int \<Rightarrow> json" where
  "encode_edge k e = JObj [(''conversationId'', json_int (fst e)), (k, json_int (snd e))]"

definition encode_conversation_record :: "conversation_record \<Rightarrow> json" where
  "encode_conversation_record c =
     JObj ((''id'', json_int (cv_id c)) # opt_member ''owner'' (encode_edge ''taskId'') (cv_owner c) @
       opt_member ''parent'' (encode_edge ''at'') (cv_parent c))"

definition decode_edge :: "(dbl \<Rightarrow> int) \<Rightarrow> json members \<Rightarrow> string \<Rightarrow> string \<Rightarrow> (encoding_error, (int \<times> int) option) result" where
  "decode_edge undefined_cast ob name k =
     (case find_member ob name of
        None \<Rightarrow> Inr None
      | Some v \<Rightarrow>
          bind_r (or_corrupt (as_object v)) (\<lambda>edge.
          bind_r (or_corrupt (number_member undefined_cast edge ''conversationId'')) (\<lambda>c.
          bind_r (or_corrupt (number_member undefined_cast edge k)) (\<lambda>x. Inr (Some (c, x))))))"

definition decode_conversation_record :: "(dbl \<Rightarrow> int) \<Rightarrow> json \<Rightarrow> (encoding_error, conversation_record) result" where
  "decode_conversation_record undefined_cast j =
     bind_r (or_corrupt (as_object j)) (\<lambda>ob.
     bind_r (or_corrupt (number_member undefined_cast ob ''id'')) (\<lambda>i.
     bind_r (decode_edge undefined_cast ob ''parent'' ''at'') (\<lambda>parent.
     bind_r (decode_edge undefined_cast ob ''owner'' ''taskId'') (\<lambda>owner.
     Inr \<lparr>cv_id = i, cv_parent = parent, cv_owner = owner\<rparr>))))"

definition encode_edit :: "context_edit \<Rightarrow> json" where
  "encode_edit e =
     JObj [(''target'', json_int (ce_target e)), (''action'', JStr (ce_action e)), (''messages'', JArr (ce_messages e))]"

definition encode_entry_record :: "entry_record \<Rightarrow> json" where
  "encode_entry_record e =
     JObj ([(''id'', json_int (en_id e)), (''conversationId'', json_int (en_conversation e)), (''kind'', JStr (en_kind e)),
            (''data'', en_data e)] @
       opt_member ''head'' json_int (en_head e) @ when_member (en_model e \<noteq> []) ''model'' (JArr (en_model e)) @
       opt_member ''byTaskId'' json_int (en_by_task e) @
       when_member (en_edits e \<noteq> []) ''edits'' (JArr (map encode_edit (en_edits e))))"

definition encode_submission_record :: "submission_record \<Rightarrow> json" where
  "encode_submission_record s =
     JObj ([(''id'', json_int (sm_id s)), (''conversationId'', json_int (sm_conversation s))] @
       opt_member ''requestId'' JStr (sm_request s) @ [(''type'', JStr (sm_type s)), (''status'', JStr (sm_status s))] @
       opt_member ''entry'' json_int (sm_entry s) @ opt_member ''answer'' json_int (sm_answer s) @
       opt_member ''reason'' JStr (sm_reason s) @ opt_member ''detail'' id (sm_detail s))"

definition decode_submission_record :: "(dbl \<Rightarrow> int) \<Rightarrow> json \<Rightarrow> (encoding_error, submission_record) result" where
  "decode_submission_record undefined_cast j =
     bind_r (or_corrupt (as_object j)) (\<lambda>ob.
     bind_r (or_corrupt (number_member undefined_cast ob ''id'')) (\<lambda>i.
     bind_r (or_corrupt (number_member undefined_cast ob ''conversationId'')) (\<lambda>c.
     bind_r (or_corrupt (text_member ob ''type'')) (\<lambda>ty.
     bind_r (or_corrupt (text_member ob ''status'')) (\<lambda>status.
     Inr \<lparr>sm_id = i, sm_conversation = c, sm_request = text_member ob ''requestId'', sm_type = ty, sm_status = status,
          sm_entry = number_member undefined_cast ob ''entry'', sm_answer = number_member undefined_cast ob ''answer'',
          sm_reason = text_member ob ''reason'', sm_detail = find_member ob ''detail''\<rparr>)))))"

end
