(* ===== verification/Jsonl_Records.thy ===== *)
theory Jsonl_Records
  imports Storage_Encoding Bounded_Text
begin

text \<open>
  \<^verbatim>\<open>src/src/durable/JsonlStorage.cpp\<close>, first part: the names of the files, their lines, and the records on
  the lines. A directory holds \<^verbatim>\<open>main.jsonl\<close> with one commit marker per line, and one sidecar file per
  document and live task. Parsing needs the rounding of \<^verbatim>\<open>std::from_chars\<close>, writing needs \<^verbatim>\<open>std::to_chars\<close>;
  both are parameters, as is the value of an undefined cast.
\<close>

section \<open>Members\<close>

definition json_object_member :: "support_json members \<Rightarrow> string \<Rightarrow> support_json members option" where
  "json_object_member ob k = Option.bind (find_member ob k) support_object"

definition json_array_member :: "support_json members \<Rightarrow> string \<Rightarrow> support_json list option" where
  "json_array_member ob k = Option.bind (find_member ob k) support_array"

definition json_string_member :: "support_json members \<Rightarrow> string \<Rightarrow> string option" where
  "json_string_member ob k = Option.bind (find_member ob k) support_string"

definition json_number_member :: "support_json members \<Rightarrow> string \<Rightarrow> dbl option" where
  "json_number_member ob k = Option.bind (find_member ob k) (\<lambda>v. case v of SNum d \<Rightarrow> Some d | _ \<Rightarrow> None)"

definition json_integer_member :: "(dbl \<Rightarrow> int) \<Rightarrow> support_json members \<Rightarrow> string \<Rightarrow> int option" where
  "json_integer_member undefined_cast ob k =
     Option.bind (json_number_member ob k) (\<lambda>d.
     Option.bind (dbl_value d) (\<lambda>q. if q < 0 \<or> q > 2 ^ 63 then None else Some (int64_of undefined_cast d)))"

section \<open>Names\<close>

definition main_file :: string where
  "main_file = ''main.jsonl''"

definition kReclaimSuffix :: string where
  "kReclaimSuffix = ''.reclaim''"

definition name_ends_with :: "string \<Rightarrow> string \<Rightarrow> bool" where
  "name_ends_with t u \<longleftrightarrow> length u \<le> length t \<and> drop (length t - length u) t = u"

definition document_file :: "int \<Rightarrow> string" where
  "document_file i = ''doc-'' @ to_string i @ ''.jsonl''"

definition task_file :: "int \<Rightarrow> string" where
  "task_file i = ''task-'' @ to_string i @ ''.jsonl''"

text \<open>\<^verbatim>\<open>std::from_chars\<close> of a 64-bit integer that has to take the whole text.\<close>

definition int64_from_chars :: "string \<Rightarrow> int option" where
  "int64_from_chars t =
     (let negative = (t \<noteq> [] \<and> hd t = CHR ''-''); ds = (if negative then tl t else t); v = int (digits_value ds)
      in if ds = [] \<or> \<not> list_all is_digit ds then None
         else if negative then (if v \<le> 2 ^ 63 then Some (- v) else None)
         else (if v < 2 ^ 63 then Some v else None))"

definition document_id_from_file :: "string \<Rightarrow> int option" where
  "document_id_from_file name =
     (if take 4 name \<noteq> ''doc-'' \<or> \<not> name_ends_with name ''.jsonl'' then None
      else let digits = take (length name - 10) (drop 4 name)
           in if digits = [] \<or> length digits > 1 \<and> hd digits = CHR ''0'' then None
              else Option.bind (int64_from_chars digits) (\<lambda>v. if v < 0 then None else Some v))"

definition task_id_from_file :: "string \<Rightarrow> int option" where
  "task_id_from_file name = (if take 5 name \<noteq> ''task-'' then None else document_id_from_file (''doc-'' @ drop 5 name))"

definition is_reclaim_file :: "string \<Rightarrow> bool" where
  "is_reclaim_file name \<longleftrightarrow>
     name_ends_with name kReclaimSuffix \<and>
     (let base = take (length name - length kReclaimSuffix) name
      in document_id_from_file base \<noteq> None \<or> task_id_from_file base \<noteq> None)"

definition sidecar_key :: "string \<Rightarrow> int \<Rightarrow> int \<Rightarrow> string" where
  "sidecar_key file seq ordinal = file @ [line_feed] @ to_string seq @ [line_feed] @ to_string ordinal"

section \<open>Lines\<close>

text \<open>The test for UTF-8: the length by the lead byte, the scalar value, and its range.\<close>

definition lead_size :: "nat \<Rightarrow> (nat \<times> nat) option" where
  "lead_size b =
     (if b div 32 = 6 then Some (2, b mod 32)
      else if b div 16 = 14 then Some (3, b mod 16)
      else if b div 8 = 30 then Some (4, b mod 8) else None)"

function valid_utf8_bytes :: "nat list \<Rightarrow> bool" where
  "valid_utf8_bytes [] = True"
| "valid_utf8_bytes (b # bs) =
     (if b < 0x80 then valid_utf8_bytes bs
      else (case lead_size b of
              None \<Rightarrow> False
            | Some (len, lead) \<Rightarrow>
                if len > Suc (length bs) then False
                else if \<not> list_all (\<lambda>c. c div 64 = 2) (take (len - 1) bs) then False
                else let cp = foldl (\<lambda>cp c. cp * 64 + c mod 64) lead (take (len - 1) bs);
                         minimum = (if len = 2 then 0x80 else if len = 3 then 0x800 else 0x10000)
                     in if cp < minimum \<or> cp > 0x10FFFF \<or> 0xD800 \<le> cp \<and> cp \<le> 0xDFFF then False
                        else valid_utf8_bytes (drop (len - 1) bs)))"
  by pat_completeness auto
termination
  by (relation "measure length") auto

declare valid_utf8_bytes.simps [simp del]

definition complete_prefix_size :: "string \<Rightarrow> nat" where
  "complete_prefix_size bytes =
     (if bytes = [] \<or> last bytes = line_feed then length bytes
      else length (dropWhile (\<lambda>c. c \<noteq> line_feed) (rev bytes)))"

text \<open>Complete lines with their offsets; a complete line must be well-formed.\<close>

function split_complete_lines :: "nat \<Rightarrow> string \<Rightarrow> (encoding_error, (string \<times> nat) list) result" where
  "split_complete_lines start bytes =
     (case dropWhile (\<lambda>c. c \<noteq> line_feed) bytes of
        [] \<Rightarrow> Inr []
      | _ # rest \<Rightarrow>
          let txt = takeWhile (\<lambda>c. c \<noteq> line_feed) bytes
          in if \<not> valid_utf8_bytes (map uchar txt) then Inl Corruption
             else bind_r (split_complete_lines (start + length txt + 1) rest) (\<lambda>ls. Inr ((txt, start) # ls)))"
  by pat_completeness auto
termination
proof (relation "measure (\<lambda>(_, bytes). length bytes)", goal_cases)
  case (2 start bytes c rest line)
  then show ?case using length_dropWhile_le [of "\<lambda>c. c \<noteq> line_feed" bytes] by simp
qed simp

declare split_complete_lines.simps [simp del]

text \<open>What reading leaves of a file, and its lines: a torn last line is cut off.\<close>

definition read_complete_lines :: "string \<Rightarrow> string \<times> (encoding_error, (string \<times> nat) list) result" where
  "read_complete_lines bytes =
     (let kept = take (complete_prefix_size bytes) bytes in (kept, split_complete_lines 0 kept))"

section \<open>Records\<close>

record document_content =
  dc_base :: bool
  dc_version :: nat
  dc_value :: json
  dc_ops :: "op list"

record sidecar_payload =
  sp_id :: int
  sp_content :: document_content
  sp_task :: "task_record option"

record sidecar_record =
  sr_seq :: int
  sr_ordinal :: int
  sr_payload :: sidecar_payload

datatype main_operation =
    MainConversation conversation_record
  | MainEntry entry_record
  | MainTask task_record
  | MainTaskSidecar int int
  | MainSubmission submission_record
  | MainDocumentCreate document_record int
  | MainDocumentCopy document_record document_copy_source int
  | MainDocumentChange int int
  | MainDocumentRetire int

record main_marker =
  mm_seq :: int
  mm_writes :: "main_operation list"

definition no_content :: document_content where
  "no_content = \<lparr>dc_base = True, dc_version = 1, dc_value = JNull, dc_ops = []\<rparr>"

definition is_format :: "support_json \<Rightarrow> bool" where
  "is_format v \<longleftrightarrow> (case v of SNum d \<Rightarrow> dbl_eq d (DFin 1) | _ \<Rightarrow> False)"

definition has_format :: "support_json members \<Rightarrow> bool" where
  "has_format ob \<longleftrightarrow> (case find_member ob ''format'' of None \<Rightarrow> False | Some v \<Rightarrow> is_format v)"

definition parse_content :: "(dbl \<Rightarrow> int) \<Rightarrow> support_json \<Rightarrow> (encoding_error, document_content) result" where
  "parse_content undefined_cast v =
     bind_r (or_corrupt (support_object v)) (\<lambda>content.
     bind_r (or_corrupt (json_integer_member undefined_cast content ''version'')) (\<lambda>version.
     bind_r (or_corrupt (json_string_member content ''kind'')) (\<lambda>kind.
     if version < 1 then Inl Corruption
     else if kind = ''base''
     then bind_r (or_corrupt (find_member content ''value'')) (\<lambda>base.
          bind_r (decode_json base) (\<lambda>decoded.
          Inr \<lparr>dc_base = True, dc_version = nat (version mod 2 ^ 32), dc_value = decoded, dc_ops = []\<rparr>))
     else if kind = ''delta''
     then bind_r (or_corrupt (find_member content ''ops'')) (\<lambda>ops.
          bind_r (decode_stored_ops undefined_cast ops) (\<lambda>decoded.
          Inr \<lparr>dc_base = False, dc_version = nat (version mod 2 ^ 32), dc_value = JNull, dc_ops = decoded\<rparr>))
     else Inl Corruption)))"

definition parse_text :: "(rat \<Rightarrow> dbl option) \<Rightarrow> string \<Rightarrow> (encoding_error, support_json members) result" where
  "parse_text round_double txt =
     (case read_json round_double txt of Inl _ \<Rightarrow> Inl Corruption | Inr v \<Rightarrow> or_corrupt (support_object v))"

definition parse_payload :: "(dbl \<Rightarrow> int) \<Rightarrow> support_json members \<Rightarrow> (encoding_error, sidecar_payload) result" where
  "parse_payload undefined_cast payload =
     (if json_string_member payload ''type'' = Some ''task''
      then bind_r (or_corrupt (find_member payload ''value'')) (\<lambda>v.
           bind_r (decode_json v) (\<lambda>j.
           bind_r (corrupt (decode_task_record undefined_cast j)) (\<lambda>task.
           if ts_status (tk_state task) = ''terminal'' then Inl Corruption
           else Inr \<lparr>sp_id = 0, sp_content = no_content, sp_task = Some task\<rparr>)))
      else if json_string_member payload ''type'' \<noteq> Some ''document'' then Inl Corruption
      else bind_r (or_corrupt (json_integer_member undefined_cast payload ''id'')) (\<lambda>i.
           bind_r (or_corrupt (find_member payload ''content'')) (\<lambda>content.
           bind_r (parse_content undefined_cast content) (\<lambda>decoded.
           Inr \<lparr>sp_id = i, sp_content = decoded, sp_task = None\<rparr>))))"

definition parse_sidecar ::
    "(dbl \<Rightarrow> int) \<Rightarrow> (rat \<Rightarrow> dbl option) \<Rightarrow> string \<Rightarrow> (encoding_error, sidecar_record) result" where
  "parse_sidecar undefined_cast round_double txt =
     bind_r (parse_text round_double txt) (\<lambda>ob.
     if \<not> has_format ob \<or> json_string_member ob ''type'' \<noteq> Some ''record'' then Inl Corruption
     else bind_r (or_corrupt (json_integer_member undefined_cast ob ''seq'')) (\<lambda>seq.
          bind_r (or_corrupt (json_integer_member undefined_cast ob ''ordinal'')) (\<lambda>ordinal.
          bind_r (or_corrupt (json_object_member ob ''payload'')) (\<lambda>payload.
          if seq < 1 \<or> ordinal < 0 then Inl Corruption
          else bind_r (parse_payload undefined_cast payload) (\<lambda>p.
               Inr \<lparr>sr_seq = seq, sr_ordinal = ordinal, sr_payload = p\<rparr>)))))"

definition parse_edit :: "(dbl \<Rightarrow> int) \<Rightarrow> support_json \<Rightarrow> (encoding_error, context_edit) result" where
  "parse_edit undefined_cast v =
     bind_r (or_corrupt (support_object v)) (\<lambda>ob.
     bind_r (or_corrupt (json_integer_member undefined_cast ob ''target'')) (\<lambda>target.
     bind_r (or_corrupt (json_string_member ob ''action'')) (\<lambda>action.
     bind_r (or_corrupt (json_array_member ob ''messages'')) (\<lambda>raw.
     bind_r (corrupt (map_r decode_json raw)) (\<lambda>messages.
     Inr \<lparr>ce_target = target, ce_action = action, ce_messages = messages\<rparr>)))))"

definition parse_head :: "(dbl \<Rightarrow> int) \<Rightarrow> support_json members \<Rightarrow> (encoding_error, int option) result" where
  "parse_head undefined_cast ob =
     (case find_member ob ''head'' of
        None \<Rightarrow> Inr None
      | Some SNull \<Rightarrow> Inr None
      | Some v \<Rightarrow> bind_r (or_corrupt (nonnegative_integer undefined_cast v)) (\<lambda>i. Inr (Some i)))"

text \<open>The payload of an entry: kept whole under \<^verbatim>\<open>data\<close>, or flattened beside the messages.\<close>

definition entry_payload :: "json option \<Rightarrow> json list \<Rightarrow> json" where
  "entry_payload data model =
     (case data of
        Some v \<Rightarrow>
          if model = [] \<or> (case as_object v of None \<Rightarrow> False | Some ob \<Rightarrow> contains_key ob ''model'') then v
          else JObj [(''data'', v), (''model'', JArr model)]
      | None \<Rightarrow> JObj (when_member (model \<noteq> []) ''model'' (JArr model)))"

definition parse_entry :: "(dbl \<Rightarrow> int) \<Rightarrow> support_json \<Rightarrow> (encoding_error, entry_record) result" where
  "parse_entry undefined_cast v =
     bind_r (or_corrupt (support_object v)) (\<lambda>ob.
     bind_r (or_corrupt (json_integer_member undefined_cast ob ''id'')) (\<lambda>i.
     bind_r (or_corrupt (json_integer_member undefined_cast ob ''conversationId'')) (\<lambda>c.
     bind_r (or_corrupt (json_string_member ob ''kind'')) (\<lambda>kind.
     bind_r (case find_member ob ''data'' of None \<Rightarrow> Inr None | Some d \<Rightarrow> bind_r (decode_json d) (\<lambda>j. Inr (Some j))) (\<lambda>data.
     bind_r (parse_head undefined_cast ob) (\<lambda>head.
     bind_r (case json_array_member ob ''model'' of None \<Rightarrow> Inr [] | Some ms \<Rightarrow> corrupt (map_r decode_json ms)) (\<lambda>model.
     bind_r (case json_array_member ob ''edits'' of None \<Rightarrow> Inr [] | Some es \<Rightarrow> map_r (parse_edit undefined_cast) es) (\<lambda>edits.
     Inr \<lparr>en_id = i, en_conversation = c, en_kind = kind, en_data = entry_payload data model, en_head = head,
          en_model = model, en_edits = edits, en_by_task = json_integer_member undefined_cast ob ''byTaskId''\<rparr>))))))))"

definition parse_history :: "support_json members \<Rightarrow> (encoding_error, document_history) result" where
  "parse_history ob =
     (if json_string_member ob ''history'' = Some ''rewindable'' then Inr RewindableHistory
      else if json_string_member ob ''history'' = Some ''latest'' then Inr LatestHistory else Inl Corruption)"

definition parse_fork :: "support_json members \<Rightarrow> (encoding_error, document_fork) result" where
  "parse_fork ob =
     (if json_string_member ob ''fork'' = Some ''asOf'' then Inr ForkAsOf
      else if json_string_member ob ''fork'' = Some ''initial'' then Inr ForkInitial
      else if json_string_member ob ''fork'' = Some ''current'' then Inr ForkCurrent else Inl Corruption)"

definition parse_document_record :: "(dbl \<Rightarrow> int) \<Rightarrow> support_json members \<Rightarrow> (encoding_error, document_record) result" where
  "parse_document_record undefined_cast ob =
     bind_r (or_corrupt (json_integer_member undefined_cast ob ''id'')) (\<lambda>i.
     bind_r (or_corrupt (json_string_member ob ''kind'')) (\<lambda>kind.
     bind_r (or_corrupt (json_object_member ob ''scope'')) (\<lambda>scope.
     bind_r (or_corrupt (json_string_member scope ''kind'')) (\<lambda>scope_kind.
     let parsed = \<lparr>dr_id = i, dr_kind = kind, dr_created_at = 0, dr_conversation = None, dr_task = None,
                   dr_key = json_string_member ob ''key'', dr_history = LatestHistory, dr_fork = ForkCurrent,
                   dr_retired_at = json_integer_member undefined_cast ob ''retiredAt''\<rparr>
     in if scope_kind = ''conversation''
        then bind_r (or_corrupt (json_integer_member undefined_cast scope ''conversationId'')) (\<lambda>c.
             bind_r (parse_history ob) (\<lambda>history.
             bind_r (parse_fork ob) (\<lambda>fork.
             Inr (parsed\<lparr>dr_conversation := Some c, dr_history := history, dr_fork := fork\<rparr>))))
        else if scope_kind = ''task''
        then bind_r (or_corrupt (json_integer_member undefined_cast scope ''taskId'')) (\<lambda>t. Inr (parsed\<lparr>dr_task := Some t\<rparr>))
        else if scope_kind = ''session'' then Inr parsed else Inl Corruption))))"

definition parse_document_copy_source ::
    "(dbl \<Rightarrow> int) \<Rightarrow> support_json members \<Rightarrow> (encoding_error, document_copy_source) result" where
  "parse_document_copy_source undefined_cast ob =
     bind_r (or_corrupt (json_integer_member undefined_cast ob ''id'')) (\<lambda>i.
     case find_member ob ''at'' of
       None \<Rightarrow> Inl Corruption
     | Some v \<Rightarrow>
         (case v of
            SNum d \<Rightarrow> Inr \<lparr>cs_id = i, cs_at = Some (int64_of undefined_cast d)\<rparr>
          | SStr name \<Rightarrow> if name = ''current'' then Inr \<lparr>cs_id = i, cs_at = None\<rparr> else Inl Corruption
          | _ \<Rightarrow> Inl Corruption))"

definition parse_ordinal :: "(dbl \<Rightarrow> int) \<Rightarrow> support_json members \<Rightarrow> (encoding_error, int) result" where
  "parse_ordinal undefined_cast ob =
     (case json_integer_member undefined_cast ob ''ordinal'' of
        None \<Rightarrow> Inl Corruption | Some i \<Rightarrow> if i < 0 then Inl Corruption else Inr i)"

definition parse_main_operation :: "(dbl \<Rightarrow> int) \<Rightarrow> support_json \<Rightarrow> (encoding_error, main_operation) result" where
  "parse_main_operation undefined_cast v =
     bind_r (or_corrupt (support_object v)) (\<lambda>ob.
     bind_r (or_corrupt (json_string_member ob ''type'')) (\<lambda>ty.
     let written = bind_r (or_corrupt (find_member ob ''value'')) decode_json;
         id_member = or_corrupt (json_integer_member undefined_cast ob ''id'')
     in if ty = ''conversation''
        then bind_r written (\<lambda>j. bind_r (decode_conversation_record undefined_cast j) (\<lambda>c. Inr (MainConversation c)))
        else if ty = ''entry''
        then bind_r (or_corrupt (find_member ob ''value'')) (\<lambda>r. bind_r (parse_entry undefined_cast r) (\<lambda>e. Inr (MainEntry e)))
        else if ty = ''task''
        then bind_r written (\<lambda>j. bind_r (decode_task_record undefined_cast j) (\<lambda>t. Inr (MainTask t)))
        else if ty = ''task.sidecar''
        then bind_r id_member (\<lambda>i. bind_r (parse_ordinal undefined_cast ob) (\<lambda>n.
             if i < 0 then Inl Corruption else Inr (MainTaskSidecar i n)))
        else if ty = ''submission''
        then bind_r written (\<lambda>j. bind_r (decode_submission_record undefined_cast j) (\<lambda>s. Inr (MainSubmission s)))
        else if ty = ''document.retire'' then bind_r id_member (\<lambda>i. Inr (MainDocumentRetire i))
        else if ty = ''document.create''
        then bind_r (or_corrupt (json_object_member ob ''record'')) (\<lambda>r.
             bind_r (parse_ordinal undefined_cast ob) (\<lambda>n.
             bind_r (parse_document_record undefined_cast r) (\<lambda>d. Inr (MainDocumentCreate d n))))
        else if ty = ''document.copy''
        then bind_r (or_corrupt (json_object_member ob ''record'')) (\<lambda>r.
             bind_r (parse_ordinal undefined_cast ob) (\<lambda>n.
             bind_r (or_corrupt (json_object_member ob ''source'')) (\<lambda>src.
             bind_r (parse_document_record undefined_cast r) (\<lambda>d.
             bind_r (parse_document_copy_source undefined_cast src) (\<lambda>source. Inr (MainDocumentCopy d source n))))))
        else if ty = ''document.change''
        then bind_r id_member (\<lambda>i. bind_r (parse_ordinal undefined_cast ob) (\<lambda>n. Inr (MainDocumentChange i n)))
        else Inl Corruption))"

definition parse_main_marker ::
    "(dbl \<Rightarrow> int) \<Rightarrow> (rat \<Rightarrow> dbl option) \<Rightarrow> string \<Rightarrow> (encoding_error, main_marker) result" where
  "parse_main_marker undefined_cast round_double txt =
     bind_r (parse_text round_double txt) (\<lambda>ob.
     if \<not> has_format ob \<or> json_string_member ob ''type'' \<noteq> Some ''commit'' then Inl Corruption
     else bind_r (or_corrupt (json_integer_member undefined_cast ob ''seq'')) (\<lambda>seq.
          bind_r (or_corrupt (json_array_member ob ''writes'')) (\<lambda>writes.
          if seq < 1 then Inl Corruption
          else bind_r (map_r (parse_main_operation undefined_cast) writes) (\<lambda>ops. Inr \<lparr>mm_seq = seq, mm_writes = ops\<rparr>))))"

section \<open>Writing\<close>

definition edit_value :: "context_edit \<Rightarrow> support_json" where
  "edit_value e =
     SObj [(''target'', support_number (ce_target e)), (''action'', SStr (ce_action e)),
           (''messages'', SArr (map to_support (ce_messages e)))]"

definition entry_value :: "entry_record \<Rightarrow> support_json" where
  "entry_value e =
     SObj ([(''id'', support_number (en_id e)), (''conversationId'', support_number (en_conversation e)),
            (''kind'', SStr (en_kind e)), (''data'', to_support (en_data e))] @
       opt_member ''head'' support_number (en_head e) @
       when_member (en_model e \<noteq> []) ''model'' (SArr (map to_support (en_model e))) @
       opt_member ''byTaskId'' support_number (en_by_task e) @
       when_member (en_edits e \<noteq> []) ''edits'' (SArr (map edit_value (en_edits e))))"

definition document_scope_value :: "document_record \<Rightarrow> support_json" where
  "document_scope_value r =
     (case dr_task r of
        Some t \<Rightarrow> SObj [(''kind'', SStr ''task''), (''taskId'', support_number t)]
      | None \<Rightarrow>
          (case dr_conversation r of
             Some c \<Rightarrow> SObj [(''kind'', SStr ''conversation''), (''conversationId'', support_number c)]
           | None \<Rightarrow> SObj [(''kind'', SStr ''session'')]))"

fun history_name :: "document_history \<Rightarrow> string" where
  "history_name RewindableHistory = ''rewindable''"
| "history_name LatestHistory = ''latest''"

fun fork_name :: "document_fork \<Rightarrow> string" where
  "fork_name ForkAsOf = ''asOf''"
| "fork_name ForkCurrent = ''current''"
| "fork_name ForkInitial = ''initial''"

definition document_record_value :: "document_record \<Rightarrow> support_json" where
  "document_record_value r =
     SObj ([(''id'', support_number (dr_id r)), (''kind'', SStr (dr_kind r))] @ opt_member ''key'' SStr (dr_key r) @
       [(''scope'', document_scope_value r)] @
       (if record_scope r = ConversationScope
        then [(''history'', SStr (history_name (dr_history r))), (''fork'', SStr (fork_name (dr_fork r)))] else []))"

definition content_value :: "document_content \<Rightarrow> support_json" where
  "content_value c =
     SObj [(''version'', SNum (DFin 1)), (''kind'', SStr (if dc_base c then ''base'' else ''delta'')),
           (if dc_base c then (''value'', to_support (dc_value c)) else (''ops'', ops_value (dc_ops c)))]"

definition payload_value :: "sidecar_payload \<Rightarrow> support_json" where
  "payload_value p =
     (case sp_task p of
        Some t \<Rightarrow> SObj [(''type'', SStr ''task''), (''value'', to_support (encode_task_record t))]
      | None \<Rightarrow>
          SObj [(''type'', SStr ''document''), (''id'', support_number (sp_id p)), (''content'', content_value (sp_content p))])"

definition sidecar_value :: "sidecar_record \<Rightarrow> support_json" where
  "sidecar_value r =
     SObj [(''format'', SNum (DFin 1)), (''type'', SStr ''record''), (''seq'', support_number (sr_seq r)),
           (''ordinal'', support_number (sr_ordinal r)), (''payload'', payload_value (sr_payload r))]"

definition sidecar_line :: "(dbl \<Rightarrow> string) \<Rightarrow> sidecar_record \<Rightarrow> string" where
  "sidecar_line to_chars r = write_json to_chars (sidecar_value r)"

end
