(* ===== verification/Jsonl_Storage.thy ===== *)
theory Jsonl_Storage
  imports Jsonl_Records
begin

text \<open>
  \<^verbatim>\<open>src/src/durable/JsonlStorage.cpp\<close>, second part: the encoding of a commit, the commit itself and the
  recovery of a directory. A directory is a list of regular files with their bytes. Symbolic links,
  hard links and files that another process substitutes are not modelled, so a task sidecar the
  store has observed is identified by its name. Every write and flush takes its outcome from a plan:
  it succeeds, does not open, or tears after some bytes. Recovery itself runs without failures.
\<close>

section \<open>Association lists in order of first insertion\<close>

definition assoc_put :: "'k \<Rightarrow> 'v \<Rightarrow> ('k \<times> 'v) list \<Rightarrow> ('k \<times> 'v) list" where
  "assoc_put k v xs =
     (if k \<in> fst ` set xs then map (\<lambda>(l, w). if l = k then (l, v) else (l, w)) xs else xs @ [(k, v)])"

definition add_new :: "'a \<Rightarrow> 'a list \<Rightarrow> 'a list" where
  "add_new x xs = (if x \<in> set xs then xs else xs @ [x])"

section \<open>The encoding of a commit\<close>

type_synonym directory = "string members"

definition file_bytes :: "directory \<Rightarrow> string \<Rightarrow> string" where
  "file_bytes d f = (case find_member d f of None \<Rightarrow> [] | Some b \<Rightarrow> b)"

definition has_file :: "directory \<Rightarrow> string \<Rightarrow> bool" where
  "has_file d f \<longleftrightarrow> find_member d f \<noteq> None"

definition put_file :: "directory \<Rightarrow> string \<Rightarrow> string \<Rightarrow> directory" where
  "put_file d f b = insert_or_assign d f b"

definition remove_file :: "directory \<Rightarrow> string \<Rightarrow> directory" where
  "remove_file d f = fst (erase_key d f)"

text \<open>Reading a file that exists cuts its torn tail off on disk.\<close>

definition read_file_lines :: "directory \<Rightarrow> string \<Rightarrow> directory \<times> (encoding_error, (string \<times> nat) list) result" where
  "read_file_lines d f =
     (case find_member d f of
        None \<Rightarrow> (d, Inr [])
      | Some b \<Rightarrow> (let (kept, lines) = read_complete_lines b in (put_file d f kept, lines)))"

record encode_state =
  ec_files :: directory
  ec_writes :: "support_json list"
  ec_sidecars :: "(string \<times> string) list"
  ec_retired :: "int list"
  ec_bases :: "(string \<times> nat) list"
  ec_ordinal :: int

record encoded_commit =
  eo_marker :: string
  eo_sidecars :: "(string \<times> string) list"
  eo_reclamations :: "(string \<times> string) list"

definition sidecar_text :: "encode_state \<Rightarrow> string \<Rightarrow> string" where
  "sidecar_text st f = (case map_of (ec_sidecars st) f of None \<Rightarrow> [] | Some t \<Rightarrow> t)"

definition add_sidecar :: "(dbl \<Rightarrow> string) \<Rightarrow> int \<Rightarrow> string \<Rightarrow> sidecar_payload \<Rightarrow> encode_state \<Rightarrow> encode_state" where
  "add_sidecar to_chars seq f payload st =
     (let r = \<lparr>sr_seq = seq, sr_ordinal = ec_ordinal st, sr_payload = payload\<rparr>
      in st\<lparr>ec_ordinal := ec_ordinal st + 1,
            ec_sidecars := assoc_put f (sidecar_text st f @ sidecar_line to_chars r @ [line_feed]) (ec_sidecars st)\<rparr>)"

definition add_main :: "support_json members \<Rightarrow> encode_state \<Rightarrow> encode_state" where
  "add_main ob st = st\<lparr>ec_writes := ec_writes st @ [SObj ob]\<rparr>"

definition document_payload :: "int \<Rightarrow> bool \<Rightarrow> nat \<Rightarrow> json \<Rightarrow> op list \<Rightarrow> sidecar_payload" where
  "document_payload i base version v ops =
     \<lparr>sp_id = i, sp_content = \<lparr>dc_base = base, dc_version = version, dc_value = v, dc_ops = ops\<rparr>, sp_task = None\<rparr>"

definition task_payload :: "task_record \<Rightarrow> sidecar_payload" where
  "task_payload t = \<lparr>sp_id = 0, sp_content = no_content, sp_task = Some t\<rparr>"

text \<open>The source of a copy: its revisions up to the point, replayed from the newest base.\<close>

fun source_base :: "sidecar_record list \<Rightarrow> nat \<Rightarrow> nat" where
  "source_base rs 0 = 0"
| "source_base rs (Suc n) = (if dc_base (sp_content (sr_payload (rs ! n))) then Suc n else source_base rs n)"

definition copied_content ::
    "document_copy_source \<Rightarrow> bool \<Rightarrow> sidecar_record list \<Rightarrow> (nat \<times> json) option" where
  "copied_content source current_only records =
     (let revisions =
        (case cs_at source of None \<Rightarrow> records | Some seq \<Rightarrow> takeWhile (\<lambda>r. sr_seq r \<le> seq) records);
          base = source_base revisions (length revisions)
      in if cs_at source \<noteq> None \<and> current_only then None
         else if base = 0 then None
         else let content = sp_content (sr_payload (revisions ! (base - 1)))
              in (case apply_immutable_batches (dc_value content) (map (\<lambda>r. dc_ops (sp_content (sr_payload r))) (drop base revisions)) of
                    Inl _ \<Rightarrow> None | Inr v \<Rightarrow> Some (dc_version content, v)))"

definition load_sidecar_records ::
    "(dbl \<Rightarrow> int) \<Rightarrow> (rat \<Rightarrow> dbl option) \<Rightarrow> directory \<Rightarrow> string \<Rightarrow> directory \<times> sidecar_record list option" where
  "load_sidecar_records undefined_cast round_double d f =
     (let (d', lines) = read_file_lines d f
      in (d', case bind_r lines (\<lambda>ls. map_r (\<lambda>l. parse_sidecar undefined_cast round_double (fst l)) ls) of
                Inl _ \<Rightarrow> None | Inr rs \<Rightarrow> Some rs))"

definition copy_source_value :: "document_copy_source \<Rightarrow> support_json" where
  "copy_source_value source =
     SObj [(''id'', support_number (cs_id source)),
           (''at'', case cs_at source of None \<Rightarrow> SStr ''current'' | Some seq \<Rightarrow> support_number seq)]"

text \<open>
  One write; \<open>None\<close> where the encoder gives the whole commit up. A write without the part its type
  needs does not pass the validation before.
\<close>

definition encode_create ::
    "(dbl \<Rightarrow> string) \<Rightarrow> int \<Rightarrow> document_record \<Rightarrow> nat \<Rightarrow> json \<Rightarrow> encode_state \<Rightarrow> encode_state" where
  "encode_create to_chars seq r version v st =
     add_main [(''type'', SStr ''document.create''), (''record'', document_record_value r), (''ordinal'', support_number (ec_ordinal st))]
       (add_sidecar to_chars seq (document_file (dr_id r)) (document_payload (dr_id r) True version v []) st)"

definition encode_copy ::
    "(dbl \<Rightarrow> string) \<Rightarrow> (dbl \<Rightarrow> int) \<Rightarrow> (rat \<Rightarrow> dbl option) \<Rightarrow> int \<Rightarrow> document_record \<Rightarrow> document_copy_source \<Rightarrow>
     encode_state \<Rightarrow> bool \<times> encode_state" where
  "encode_copy to_chars undefined_cast round_double seq r source st =
     (let (d, loaded) = load_sidecar_records undefined_cast round_double (ec_files st) (document_file (cs_id source));
          st1 = st\<lparr>ec_files := d\<rparr>
      in case Option.bind loaded (copied_content source (document_is_current_only r)) of
           None \<Rightarrow> (False, st1)
         | Some (version, v) \<Rightarrow>
             (True, add_main [(''type'', SStr ''document.copy''), (''record'', document_record_value r),
                              (''source'', copy_source_value source), (''ordinal'', support_number (ec_ordinal st1))]
                      (add_sidecar to_chars seq (document_file (dr_id r)) (document_payload (dr_id r) True version v []) st1)))"

definition encode_change ::
    "(dbl \<Rightarrow> string) \<Rightarrow> int \<Rightarrow> int \<Rightarrow> nat \<Rightarrow> json option \<Rightarrow> op list \<Rightarrow> encode_state \<Rightarrow> encode_state" where
  "encode_change to_chars seq i version v ops st =
     (let f = document_file i;
          base = (ops = []);
          st1 = (if base then st\<lparr>ec_bases := assoc_put f (length (sidecar_text st f)) (ec_bases st)\<rparr> else st)
      in add_main [(''type'', SStr ''document.change''), (''id'', support_number i), (''ordinal'', support_number (ec_ordinal st))]
           (add_sidecar to_chars seq f (document_payload i base version (case v of None \<Rightarrow> JNull | Some j \<Rightarrow> j) ops) st1))"

definition encode_task :: "(dbl \<Rightarrow> string) \<Rightarrow> int \<Rightarrow> task_record \<Rightarrow> encode_state \<Rightarrow> encode_state" where
  "encode_task to_chars seq t st =
     (if ts_status (tk_state t) = ''terminal''
      then add_main [(''type'', SStr ''task''), (''value'', to_support (encode_task_record t))] st
      else add_main [(''type'', SStr ''task.sidecar''), (''id'', support_number (tk_id t)), (''ordinal'', support_number (ec_ordinal st))]
             (add_sidecar to_chars seq (task_file (tk_id t)) (task_payload t) st))"

definition encode_write ::
    "(dbl \<Rightarrow> string) \<Rightarrow> (dbl \<Rightarrow> int) \<Rightarrow> (rat \<Rightarrow> dbl option) \<Rightarrow> int \<Rightarrow> encode_state \<Rightarrow> storage_write \<Rightarrow> bool \<times> encode_state" where
  "encode_write to_chars undefined_cast round_double seq st w =
     (if sw_type w = ''conversation''
      then (True, case sw_conversation w of None \<Rightarrow> st
                 | Some c \<Rightarrow> add_main [(''type'', SStr ''conversation''), (''value'', to_support (encode_conversation_record c))] st)
      else if sw_type w = ''entry''
      then (True, case sw_entry w of None \<Rightarrow> st | Some e \<Rightarrow> add_main [(''type'', SStr ''entry''), (''value'', entry_value e)] st)
      else if sw_type w = ''task''
      then (True, case sw_task w of None \<Rightarrow> st | Some t \<Rightarrow> encode_task to_chars seq t st)
      else if sw_type w = ''submission''
      then (True, case sw_submission w of None \<Rightarrow> st
                 | Some s \<Rightarrow> add_main [(''type'', SStr ''submission''), (''value'', to_support (encode_submission_record s))] st)
      else if sw_type w = ''document.create''
      then (True, case (sw_document_record w, sw_document_value w) of
                   (Some r, Some v) \<Rightarrow> encode_create to_chars seq r (sw_document_version w) v st
                 | _ \<Rightarrow> st)
      else if sw_type w = ''document.copy''
      then (case (sw_document_record w, sw_copy_source w) of
              (Some r, Some source) \<Rightarrow> encode_copy to_chars undefined_cast round_double seq r source st
            | _ \<Rightarrow> (True, st))
      else if sw_type w = ''document.change''
      then (True, case sw_document_id w of None \<Rightarrow> st
                 | Some i \<Rightarrow> encode_change to_chars seq i (sw_document_version w) (sw_document_value w) (sw_document_ops w) st)
      else if sw_type w = ''document.retire''
      then (True, case sw_document_id w of None \<Rightarrow> st
                 | Some i \<Rightarrow> add_main [(''type'', SStr ''document.retire''), (''id'', support_number i)]
                               (st\<lparr>ec_retired := add_new i (ec_retired st)\<rparr>))
      else (True, st))"

fun encode_writes ::
    "(dbl \<Rightarrow> string) \<Rightarrow> (dbl \<Rightarrow> int) \<Rightarrow> (rat \<Rightarrow> dbl option) \<Rightarrow> int \<Rightarrow> encode_state \<Rightarrow> storage_write list \<Rightarrow> bool \<times> encode_state" where
  "encode_writes to_chars undefined_cast round_double seq st [] = (True, st)"
| "encode_writes to_chars undefined_cast round_double seq st (w # ws) =
     (case encode_write to_chars undefined_cast round_double seq st w of
        (False, st') \<Rightarrow> (False, st')
      | (True, st') \<Rightarrow> encode_writes to_chars undefined_cast round_double seq st' ws)"

text \<open>The last state of each task, in the order of first occurrence.\<close>

definition final_tasks :: "storage_write list \<Rightarrow> (int \<times> bool) list" where
  "final_tasks writes =
     fold (\<lambda>w acc. if sw_type w = ''task''
                   then (case sw_task w of None \<Rightarrow> acc
                         | Some t \<Rightarrow> assoc_put (tk_id t) (ts_status (tk_state t) = ''terminal'') acc)
                   else acc) writes []"

definition marker_value :: "int \<Rightarrow> support_json list \<Rightarrow> support_json" where
  "marker_value seq writes =
     SObj [(''format'', SNum (DFin 1)), (''type'', SStr ''commit''), (''seq'', support_number seq), (''writes'', SArr writes)]"

definition commit_reclamations :: "storage_write list \<Rightarrow> int list \<Rightarrow> encode_state \<Rightarrow> (string \<times> string) list" where
  "commit_reclamations writes current_only st =
     map (\<lambda>i. (document_file i, [])) (filter (\<lambda>i. i \<in> set current_only) (ec_retired st)) @
     List.map_filter (\<lambda>(f, offset).
        case document_id_from_file f of
          None \<Rightarrow> None
        | Some i \<Rightarrow> if i \<in> set (ec_retired st) \<or> i \<notin> set current_only then None
                    else Some (f, drop offset (sidecar_text st f))) (ec_bases st) @
     map (\<lambda>(i, _). (task_file i, [])) (filter snd (final_tasks writes))"

definition encode_init :: "directory \<Rightarrow> encode_state" where
  "encode_init d = \<lparr>ec_files = d, ec_writes = [], ec_sidecars = [], ec_retired = [], ec_bases = [], ec_ordinal = 0\<rparr>"

definition encode_commit ::
    "(dbl \<Rightarrow> string) \<Rightarrow> (dbl \<Rightarrow> int) \<Rightarrow> (rat \<Rightarrow> dbl option) \<Rightarrow> int \<Rightarrow> storage_write list \<Rightarrow> int list \<Rightarrow> directory \<Rightarrow>
     directory \<times> encoded_commit" where
  "encode_commit to_chars undefined_cast round_double seq writes current_only d =
     (case encode_writes to_chars undefined_cast round_double seq (encode_init d) writes of
        (False, st) \<Rightarrow> (ec_files st, \<lparr>eo_marker = [], eo_sidecars = [], eo_reclamations = []\<rparr>)
      | (True, st) \<Rightarrow>
          (ec_files st,
           \<lparr>eo_marker = write_json to_chars (marker_value seq (ec_writes st)) @ [line_feed], eo_sidecars = ec_sidecars st,
            eo_reclamations = commit_reclamations writes current_only st\<rparr>))"

section \<open>Writing\<close>

datatype io_outcome = IoDone | IoNotOpened | IoTorn nat

text \<open>The next outcome of the plan; a plan that has run out succeeds.\<close>

definition next_io :: "io_outcome list \<Rightarrow> io_outcome \<times> io_outcome list" where
  "next_io plan = (case plan of [] \<Rightarrow> (IoDone, []) | o1 # rest \<Rightarrow> (o1, rest))"

definition append_file :: "io_outcome \<Rightarrow> directory \<Rightarrow> string \<Rightarrow> string \<Rightarrow> directory \<times> bool" where
  "append_file outcome d f content =
     (case outcome of
        IoDone \<Rightarrow> (put_file d f (file_bytes d f @ content), True)
      | IoNotOpened \<Rightarrow> (d, False)
      | IoTorn n \<Rightarrow> (put_file d f (file_bytes d f @ take n content), False))"

record jsonl =
  jl_files :: directory
  jl_known :: "string list"
  jl_state :: storage
  jl_poisoned :: bool
  jl_plan :: "io_outcome list"

datatype jsonl_error = Poisoned | Closed | StateFailed storage_error

definition unusable :: "jsonl \<Rightarrow> jsonl_error option" where
  "unusable j = (if jl_poisoned j then Some Poisoned else if st_closed (jl_state j) then Some Closed else None)"

text \<open>
  The append of one sidecar. A task file that the store has not observed is created and must not
  exist; one that it has observed must exist.
\<close>

definition append_sidecar :: "jsonl \<Rightarrow> string \<times> string \<Rightarrow> (jsonl, jsonl) result" where
  "append_sidecar j sidecar =
     (let (f, content) = sidecar; (outcome, plan) = next_io (jl_plan j); j1 = j\<lparr>jl_plan := plan\<rparr>
      in if task_id_from_file f \<noteq> None \<and> (f \<in> set (jl_known j)) \<noteq> has_file (jl_files j) f
         then Inl (j1\<lparr>jl_poisoned := True\<rparr>)
         else if outcome = IoNotOpened then Inl (j1\<lparr>jl_poisoned := True\<rparr>)
         else let (d, done) = append_file outcome (jl_files j) f content;
                  j2 = j1\<lparr>jl_files := d,
                          jl_known := (if task_id_from_file f \<noteq> None then add_new f (jl_known j) else jl_known j)\<rparr>
              in if done then Inr j2 else Inl (j2\<lparr>jl_poisoned := True\<rparr>))"

definition flush_one :: "jsonl \<Rightarrow> string \<times> string \<Rightarrow> (jsonl, jsonl) result" where
  "flush_one j sidecar =
     (let (outcome, plan) = next_io (jl_plan j); j1 = j\<lparr>jl_plan := plan\<rparr>
      in if outcome = IoDone then Inr j1 else Inl (j1\<lparr>jl_poisoned := True\<rparr>))"

text \<open>
  One reclamation, with one outcome for the writes it consists of; a failure leaves the file, or a
  scratch file beside it. A replacement is written to the scratch file and renamed.
\<close>

definition reclaim_one :: "jsonl \<Rightarrow> string \<times> string \<Rightarrow> jsonl" where
  "reclaim_one j repl =
     (let (f, content) = repl; (outcome, plan) = next_io (jl_plan j); j1 = j\<lparr>jl_plan := plan\<rparr>
      in if task_id_from_file f \<noteq> None
         then (if content \<noteq> [] \<or> f \<notin> set (jl_known j) then j1
               else if \<not> has_file (jl_files j) f then j1\<lparr>jl_known := remove1 f (jl_known j)\<rparr>
               else if outcome = IoDone
               then j1\<lparr>jl_files := remove_file (jl_files j) f, jl_known := remove1 f (jl_known j)\<rparr> else j1)
         else if content = []
         then (if outcome = IoDone then j1\<lparr>jl_files := remove_file (jl_files j) f\<rparr> else j1)
         else (case outcome of
                 IoDone \<Rightarrow> j1\<lparr>jl_files := put_file (remove_file (jl_files j) (f @ kReclaimSuffix)) f content\<rparr>
               | IoNotOpened \<Rightarrow> j1
               | IoTorn n \<Rightarrow> j1\<lparr>jl_files := put_file (jl_files j) (f @ kReclaimSuffix) (take n content)\<rparr>))"

definition reclaim_sidecars :: "bool \<Rightarrow> (string \<times> string) list \<Rightarrow> jsonl \<Rightarrow> jsonl" where
  "reclaim_sidecars fsync replacements j =
     (if replacements = [] then j
      else if fsync
      then (let (outcome, plan) = next_io (jl_plan j); j1 = j\<lparr>jl_plan := plan\<rparr>
            in if outcome = IoDone then foldl reclaim_one j1 replacements else j1)
      else foldl reclaim_one j replacements)"

text \<open>The current-only documents a batch touches.\<close>

definition current_only_documents :: "storage \<Rightarrow> storage_write list \<Rightarrow> int list" where
  "current_only_documents s writes =
     List.map_filter (\<lambda>w.
       if sw_type w = ''document.create'' \<or> sw_type w = ''document.copy''
       then (case sw_document_record w of None \<Rightarrow> None
             | Some r \<Rightarrow> if document_is_current_only r then Some (dr_id r) else None)
       else if sw_type w \<noteq> ''document.change'' \<and> sw_type w \<noteq> ''document.retire'' then None
       else (case sw_document_id w of None \<Rightarrow> None
             | Some i \<Rightarrow>
                 (case read_document s i None of
                    Inr (Some stored) \<Rightarrow> if document_is_current_only (sd_record stored) then Some i else None
                  | _ \<Rightarrow> None))) writes"

definition poisoned_commit :: "jsonl \<Rightarrow> jsonl \<times> (jsonl_error, int) result" where
  "poisoned_commit j = (j, Inl Poisoned)"

definition publish_marker :: "storage_write list \<Rightarrow> int \<Rightarrow> bool \<Rightarrow> encoded_commit \<Rightarrow> jsonl \<Rightarrow> jsonl \<times> (jsonl_error, int) result" where
  "publish_marker writes seq fsync encoded j =
     (let (outcome, plan) = next_io (jl_plan j);
          (d, done) = append_file outcome (jl_files j) main_file (eo_marker encoded);
          j1 = j\<lparr>jl_plan := plan, jl_files := d\<rparr>
      in if \<not> done then poisoned_commit (j1\<lparr>jl_poisoned := True\<rparr>)
         else (case apply_at (jl_state j1) writes seq of
                 (s, Inl e) \<Rightarrow> (j1\<lparr>jl_state := s, jl_poisoned := True\<rparr>, Inl (StateFailed e))
               | (s, Inr _) \<Rightarrow> (reclaim_sidecars fsync (eo_reclamations encoded) (j1\<lparr>jl_state := s\<rparr>), Inr seq)))"

definition jsonl_commit ::
    "(dbl \<Rightarrow> string) \<Rightarrow> (dbl \<Rightarrow> int) \<Rightarrow> (rat \<Rightarrow> dbl option) \<Rightarrow> bool \<Rightarrow> jsonl \<Rightarrow> storage_write list \<Rightarrow>
     jsonl \<times> (jsonl_error, int) result" where
  "jsonl_commit to_chars undefined_cast round_double fsync j writes =
     (case unusable j of
        Some e \<Rightarrow> (j, Inl e)
      | None \<Rightarrow>
          let seq = st_next_seq (jl_state j)
          in (case storage_validate (jl_state j) writes seq of
                (_, Inl e) \<Rightarrow> (j, Inl (StateFailed e))
              | (_, Inr _) \<Rightarrow>
                  if writes = [] then (j, Inr seq)
                  else let (d, encoded) = encode_commit to_chars undefined_cast round_double seq writes
                             (current_only_documents (jl_state j) writes) (jl_files j)
                       in (case fold_r append_sidecar (j\<lparr>jl_files := d\<rparr>) (eo_sidecars encoded) of
                             Inl j1 \<Rightarrow> poisoned_commit j1
                           | Inr j1 \<Rightarrow>
                               (case (if fsync then fold_r flush_one j1 (eo_sidecars encoded) else Inr j1) of
                                  Inl j2 \<Rightarrow> poisoned_commit j2
                                | Inr j2 \<Rightarrow> publish_marker writes seq fsync encoded j2))))"

section \<open>The other operations\<close>

definition state_failed :: "(storage_error, 'a) result \<Rightarrow> (jsonl_error, 'a) result" where
  "state_failed r = (case r of Inl e \<Rightarrow> Inl (StateFailed e) | Inr x \<Rightarrow> Inr x)"

definition jsonl_mint_id :: "jsonl \<Rightarrow> jsonl \<times> (jsonl_error, int) result" where
  "jsonl_mint_id j =
     (case unusable j of
        Some e \<Rightarrow> (j, Inl e)
      | None \<Rightarrow> (let (s, i) = reserve_id (jl_state j) in (j\<lparr>jl_state := s\<rparr>, Inr i)))"

definition jsonl_conversation :: "jsonl \<Rightarrow> int \<Rightarrow> (jsonl_error, conversation_record option) result" where
  "jsonl_conversation j i =
     (case unusable j of Some e \<Rightarrow> Inl e | None \<Rightarrow> state_failed (read_conversation (jl_state j) i))"

definition jsonl_entry :: "jsonl \<Rightarrow> int \<Rightarrow> (jsonl_error, stored_entry_state option) result" where
  "jsonl_entry j i = (case unusable j of Some e \<Rightarrow> Inl e | None \<Rightarrow> state_failed (read_entry (jl_state j) i))"

definition jsonl_scan_conversations :: "jsonl \<Rightarrow> nat \<Rightarrow> (jsonl_error, conversation_record list) result" where
  "jsonl_scan_conversations j limit =
     (case unusable j of Some e \<Rightarrow> Inl e | None \<Rightarrow> state_failed (scan_conversations (jl_state j) limit))"

definition jsonl_scan_entries :: "jsonl \<Rightarrow> int \<Rightarrow> nat \<Rightarrow> (jsonl_error, entry_record list) result" where
  "jsonl_scan_entries j conversation_id limit =
     (case unusable j of Some e \<Rightarrow> Inl e | None \<Rightarrow> state_failed (scan_entries (jl_state j) conversation_id limit))"

definition jsonl_scan_conversation_documents ::
    "jsonl \<Rightarrow> int \<Rightarrow> document_point \<Rightarrow> nat \<Rightarrow> (jsonl_error, document_record list) result" where
  "jsonl_scan_conversation_documents j conversation_id pt limit =
     (case unusable j of Some e \<Rightarrow> Inl e
      | None \<Rightarrow> state_failed (scan_conversation_documents (jl_state j) conversation_id pt limit))"

definition jsonl_find_document ::
    "jsonl \<Rightarrow> string \<Rightarrow> document_address \<Rightarrow> document_point \<Rightarrow> (jsonl_error, document_record option) result" where
  "jsonl_find_document j kind address pt =
     (case unusable j of Some e \<Rightarrow> Inl e | None \<Rightarrow> state_failed (find_document (jl_state j) kind address pt))"

definition jsonl_document :: "jsonl \<Rightarrow> int \<Rightarrow> document_point \<Rightarrow> (jsonl_error, stored_document option) result" where
  "jsonl_document j i pt = (case unusable j of Some e \<Rightarrow> Inl e | None \<Rightarrow> state_failed (read_document (jl_state j) i pt))"

definition jsonl_task :: "jsonl \<Rightarrow> int \<Rightarrow> (jsonl_error, task_record option) result" where
  "jsonl_task j i = (case unusable j of Some e \<Rightarrow> Inl e | None \<Rightarrow> state_failed (read_task (jl_state j) i))"

definition jsonl_scan_tasks :: "jsonl \<Rightarrow> nat \<Rightarrow> (jsonl_error, task_record list) result" where
  "jsonl_scan_tasks j limit = (case unusable j of Some e \<Rightarrow> Inl e | None \<Rightarrow> state_failed (scan_tasks (jl_state j) limit))"

definition jsonl_submission :: "jsonl \<Rightarrow> int \<Rightarrow> (jsonl_error, submission_record option) result" where
  "jsonl_submission j i = (case unusable j of Some e \<Rightarrow> Inl e | None \<Rightarrow> state_failed (read_submission (jl_state j) i))"

definition jsonl_submission_by_request ::
    "jsonl \<Rightarrow> int \<Rightarrow> string \<Rightarrow> (jsonl_error, submission_record option) result" where
  "jsonl_submission_by_request j conversation_id request =
     (case unusable j of Some e \<Rightarrow> Inl e
      | None \<Rightarrow> state_failed (submission_by_request (jl_state j) conversation_id request))"

definition jsonl_scan_submissions :: "jsonl \<Rightarrow> nat \<Rightarrow> (jsonl_error, submission_record list) result" where
  "jsonl_scan_submissions j limit =
     (case unusable j of Some e \<Rightarrow> Inl e | None \<Rightarrow> state_failed (scan_submissions (jl_state j) limit))"

definition jsonl_close :: "jsonl \<Rightarrow> jsonl" where
  "jsonl_close j = (if jl_poisoned j then j else j\<lparr>jl_state := close_storage (jl_state j)\<rparr>)"

end
