(* ===== verification/Jsonl_Recovery.thy ===== *)
theory Jsonl_Recovery
  imports Jsonl_Storage
begin

text \<open>
  \<^verbatim>\<open>src/src/durable/JsonlStorage.cpp\<close>, third part: \<^verbatim>\<open>recover\<close>. The markers of \<^verbatim>\<open>main.jsonl\<close> are read, every sidecar is
  read and checked, the confirmed writes are replayed into an empty storage, unconfirmed tails are
  cut off, and what no later read needs is reclaimed.
\<close>

section \<open>Reading\<close>

fun check_markers :: "int \<Rightarrow> main_marker list \<Rightarrow> bool" where
  "check_markers previous [] = True"
| "check_markers previous (m # ms) = (if mm_seq m \<le> previous then False else check_markers (mm_seq m) ms)"

definition read_markers ::
    "(dbl \<Rightarrow> int) \<Rightarrow> (rat \<Rightarrow> dbl option) \<Rightarrow> directory \<Rightarrow> directory \<times> (encoding_error, main_marker list) result" where
  "read_markers undefined_cast round_double d =
     (let (d', lines) = read_file_lines d main_file
      in (d', bind_r lines (\<lambda>ls.
              bind_r (map_r (\<lambda>l. parse_main_marker undefined_cast round_double (fst l)) ls) (\<lambda>ms.
              if check_markers 0 ms then Inr ms else Inl Corruption))))"

definition last_marker_seq :: "main_marker list \<Rightarrow> int" where
  "last_marker_seq ms = (if ms = [] then 0 else mm_seq (last ms))"

definition is_sidecar_file :: "string \<Rightarrow> bool" where
  "is_sidecar_file f \<longleftrightarrow> task_id_from_file f \<noteq> None \<or> \<not> is_reclaim_file f \<and> document_id_from_file f \<noteq> None"

definition sidecar_files :: "directory \<Rightarrow> string list" where
  "sidecar_files d = sort (filter is_sidecar_file (map fst d))"

definition remove_scratch :: "directory \<Rightarrow> directory" where
  "remove_scratch d = filter (\<lambda>(f, _). task_id_from_file f \<noteq> None \<or> \<not> is_reclaim_file f) d"

fun records_in_order :: "sidecar_record list \<Rightarrow> bool" where
  "records_in_order (r # r' # rs) \<longleftrightarrow>
     (if sr_seq r' < sr_seq r \<or> sr_seq r' = sr_seq r \<and> sr_ordinal r' \<le> sr_ordinal r then False else records_in_order (r' # rs))"
| "records_in_order _ \<longleftrightarrow> True"

type_synonym parsed_file = "(sidecar_record \<times> nat) list"

definition parse_sidecar_file ::
    "(dbl \<Rightarrow> int) \<Rightarrow> (rat \<Rightarrow> dbl option) \<Rightarrow> (string \<times> nat) list \<Rightarrow> (encoding_error, parsed_file) result" where
  "parse_sidecar_file undefined_cast round_double lines =
     bind_r (map_r (\<lambda>(l, start). bind_r (parse_sidecar undefined_cast round_double l) (\<lambda>r. Inr (r, start))) lines) (\<lambda>parsed.
     if records_in_order (map fst parsed) then Inr parsed else Inl Corruption)"

fun read_sidecars ::
    "(dbl \<Rightarrow> int) \<Rightarrow> (rat \<Rightarrow> dbl option) \<Rightarrow> string list \<Rightarrow> directory \<Rightarrow>
     (encoding_error, directory \<times> (string \<times> parsed_file) list) result" where
  "read_sidecars undefined_cast round_double [] d = Inr (d, [])"
| "read_sidecars undefined_cast round_double (f # fs) d =
     (case read_file_lines d f of
        (d', lines) \<Rightarrow>
          bind_r (bind_r lines (parse_sidecar_file undefined_cast round_double)) (\<lambda>parsed.
          bind_r (read_sidecars undefined_cast round_double fs d') (\<lambda>(d'', rest). Inr (d'', (f, parsed) # rest))))"

definition keyed_records :: "(string \<times> parsed_file) list \<Rightarrow> (string \<times> sidecar_record) list" where
  "keyed_records files =
     concat (map (\<lambda>(f, lines). map (\<lambda>(r, _). (sidecar_key f (sr_seq r) (sr_ordinal r), r)) lines) files)"

section \<open>Replaying\<close>

text \<open>The operations of all markers with their sequences.\<close>

definition all_operations :: "main_marker list \<Rightarrow> (int \<times> main_operation) list" where
  "all_operations ms = concat (map (\<lambda>m. map (\<lambda>w. (mm_seq m, w)) (mm_writes m)) ms)"

definition final_task_live :: "main_marker list \<Rightarrow> int \<Rightarrow> bool option" where
  "final_task_live ms =
     fold (\<lambda>(_, w) live. case w of
             MainTask t \<Rightarrow> live(tk_id t \<mapsto> False) | MainTaskSidecar i _ \<Rightarrow> live(i \<mapsto> True) | _ \<Rightarrow> live)
       (all_operations ms) Map.empty"

definition retired_ids :: "main_marker list \<Rightarrow> int list" where
  "retired_ids ms = List.map_filter (\<lambda>(_, w). case w of MainDocumentRetire i \<Rightarrow> Some i | _ \<Rightarrow> None) (all_operations ms)"

fun document_operation :: "main_operation \<Rightarrow> (int \<times> int) option" where
  "document_operation (MainDocumentCreate r n) = Some (dr_id r, n)"
| "document_operation (MainDocumentCopy r _ n) = Some (dr_id r, n)"
| "document_operation (MainDocumentChange i n) = Some (i, n)"
| "document_operation _ = None"

type_synonym base_map = "int \<Rightarrow> (int \<times> int) option"

definition note_base :: "(string \<times> sidecar_record) list \<Rightarrow> int \<times> main_operation \<Rightarrow> base_map \<Rightarrow> base_map" where
  "note_base keyed sw bases =
     (case sw of (seq, w) \<Rightarrow>
        (case document_operation w of
           None \<Rightarrow> bases
         | Some (i, n) \<Rightarrow>
             (case map_of keyed (sidecar_key (document_file i) seq n) of
                None \<Rightarrow> bases
              | Some r \<Rightarrow>
                  if sp_id (sr_payload r) \<noteq> i \<or> \<not> dc_base (sp_content (sr_payload r)) then bases
                  else (case bases i of
                          None \<Rightarrow> bases(i \<mapsto> (seq, n))
                        | Some (seq', n') \<Rightarrow> if seq > seq' \<or> seq = seq' \<and> n > n' then bases(i \<mapsto> (seq, n)) else bases))))"

definition latest_bases :: "(string \<times> sidecar_record) list \<Rightarrow> main_marker list \<Rightarrow> base_map" where
  "latest_bases keyed ms = fold (note_base keyed) (all_operations ms) Map.empty"

definition before_latest_base :: "base_map \<Rightarrow> int \<Rightarrow> int \<Rightarrow> int \<Rightarrow> bool" where
  "before_latest_base bases i seq n \<longleftrightarrow>
     (case bases i of None \<Rightarrow> False | Some (seq', n') \<Rightarrow> seq < seq' \<or> seq = seq' \<and> n < n')"

definition restored_write :: "string \<Rightarrow> storage_write" where
  "restored_write ty =
     \<lparr>sw_type = ty, sw_conversation = None, sw_entry = None, sw_task = None, sw_submission = None,
      sw_document_record = None, sw_document_id = None, sw_copy_source = None, sw_document_version = 1,
      sw_document_value = None, sw_document_ops = []\<rparr>"

text \<open>What a replay knows throughout: the records, the last task states, retired documents, the bases.\<close>

record replay_context =
  rc_keyed :: "(string \<times> sidecar_record) list"
  rc_live :: "int \<Rightarrow> bool option"
  rc_retired :: "int list"
  rc_bases :: base_map

text \<open>One operation: the confirmed keys, and the write it restores, if any.\<close>

definition replay_task_sidecar ::
    "replay_context \<Rightarrow> int \<Rightarrow> string list \<Rightarrow> int \<Rightarrow> int \<Rightarrow> (encoding_error, string list \<times> storage_write list) result" where
  "replay_task_sidecar rc seq confirmed i n =
     (let key = sidecar_key (task_file i) seq n; optional = (rc_live rc i = Some False)
      in if key \<in> set confirmed then Inl Corruption
         else (case map_of (rc_keyed rc) key of
                 None \<Rightarrow> if optional then Inr (confirmed, []) else Inl Corruption
               | Some r \<Rightarrow>
                   (case sp_task (sr_payload r) of
                      None \<Rightarrow> Inl Corruption
                    | Some t \<Rightarrow>
                        if tk_id t \<noteq> i then Inl Corruption
                        else Inr (confirmed @ [key], if optional then [] else [(restored_write ''task'')\<lparr>sw_task := Some t\<rparr>]))))"

definition restored_create :: "document_record \<Rightarrow> document_copy_source option \<Rightarrow> sidecar_record option \<Rightarrow> storage_write" where
  "restored_create d source record =
     (restored_write (if source = None then ''document.create'' else ''document.copy''))
       \<lparr>sw_document_record := Some d, sw_copy_source := source,
        sw_document_version := (case record of None \<Rightarrow> 1 | Some r \<Rightarrow> dc_version (sp_content (sr_payload r))),
        sw_document_value := Some (case record of None \<Rightarrow> JObj [] | Some r \<Rightarrow> dc_value (sp_content (sr_payload r)))\<rparr>"

definition restored_change ::
    "storage \<Rightarrow> int \<Rightarrow> sidecar_record \<Rightarrow> (encoding_error, storage_write list) result" where
  "restored_change s i r =
     (let content = sp_content (sr_payload r);
          w = (restored_write ''document.change'')\<lparr>sw_document_id := Some i, sw_document_version := dc_version content\<rparr>
      in if dc_base content then Inr [w\<lparr>sw_document_value := Some (dc_value content)\<rparr>]
         else (case read_document s i None of
                 Inr (Some stored) \<Rightarrow>
                   (case apply_immutable (sd_document_value stored) (dc_ops content) of
                      Inl _ \<Rightarrow> Inl Corruption
                    | Inr v \<Rightarrow> Inr [w\<lparr>sw_document_value := Some v, sw_document_ops := dc_ops content\<rparr>])
               | _ \<Rightarrow> Inl Corruption))"

definition replay_document ::
    "replay_context \<Rightarrow> storage \<Rightarrow> int \<Rightarrow> string list \<Rightarrow> main_operation \<Rightarrow> int \<Rightarrow> int \<Rightarrow>
     (encoding_error, string list \<times> storage_write list) result" where
  "replay_document rc s seq confirmed w i n =
     (let reclaimed = (i \<in> set (rc_retired rc) \<or> before_latest_base (rc_bases rc) i seq n);
          key = sidecar_key (document_file i) seq n;
          record = map_of (rc_keyed rc) key
      in if key \<in> set confirmed then Inl Corruption
         else if record = None \<and> \<not> reclaimed then Inl Corruption
         else if (case record of None \<Rightarrow> False | Some r \<Rightarrow> sp_task (sr_payload r) \<noteq> None \<or> sp_id (sr_payload r) \<noteq> i)
         then Inl Corruption
         else let confirmed' = (if record = None then confirmed else confirmed @ [key]);
                  created = (\<lambda>d source.
                    if (case record of None \<Rightarrow> False | Some r \<Rightarrow> \<not> dc_base (sp_content (sr_payload r))) then Inl Corruption
                    else Inr (confirmed', [restored_create d source record]))
              in (case w of
                    MainDocumentCreate d _ \<Rightarrow> created d None
                  | MainDocumentCopy d source _ \<Rightarrow> created d (Some source)
                  | _ \<Rightarrow>
                      (case record of
                         None \<Rightarrow> Inr (confirmed', [])
                       | Some r \<Rightarrow>
                           if reclaimed then Inr (confirmed', [])
                           else bind_r (restored_change s i r) (\<lambda>ws. Inr (confirmed', ws)))))"

definition replay_operation ::
    "replay_context \<Rightarrow> storage \<Rightarrow> int \<Rightarrow> string list \<Rightarrow> main_operation \<Rightarrow>
     (encoding_error, string list \<times> storage_write list) result" where
  "replay_operation rc s seq confirmed w =
     (case w of
        MainConversation c \<Rightarrow> Inr (confirmed, [(restored_write ''conversation'')\<lparr>sw_conversation := Some c\<rparr>])
      | MainEntry e \<Rightarrow> Inr (confirmed, [(restored_write ''entry'')\<lparr>sw_entry := Some e\<rparr>])
      | MainTask t \<Rightarrow> Inr (confirmed, [(restored_write ''task'')\<lparr>sw_task := Some t\<rparr>])
      | MainTaskSidecar i n \<Rightarrow> replay_task_sidecar rc seq confirmed i n
      | MainSubmission u \<Rightarrow> Inr (confirmed, [(restored_write ''submission'')\<lparr>sw_submission := Some u\<rparr>])
      | MainDocumentRetire i \<Rightarrow> Inr (confirmed, [(restored_write ''document.retire'')\<lparr>sw_document_id := Some i\<rparr>])
      | MainDocumentCreate d n \<Rightarrow> replay_document rc s seq confirmed w (dr_id d) n
      | MainDocumentCopy d _ n \<Rightarrow> replay_document rc s seq confirmed w (dr_id d) n
      | MainDocumentChange i n \<Rightarrow> replay_document rc s seq confirmed w i n)"

definition replay_marker ::
    "replay_context \<Rightarrow> string list \<times> storage \<Rightarrow> main_marker \<Rightarrow> (encoding_error, string list \<times> storage) result" where
  "replay_marker rc cs m =
     (case cs of (confirmed, s) \<Rightarrow>
        bind_r (fold_r (\<lambda>(conf, ws) w.
                   bind_r (replay_operation rc s (mm_seq m) conf w) (\<lambda>(conf', ws'). Inr (conf', ws @ ws')))
                 (confirmed, []) (mm_writes m)) (\<lambda>(confirmed', writes).
        case restore s writes (mm_seq m) of
          (s', Inl _) \<Rightarrow> Inl Corruption
        | (s', Inr _) \<Rightarrow> Inr (confirmed', s')))"

definition replay_markers ::
    "replay_context \<Rightarrow> main_marker list \<Rightarrow> (encoding_error, string list \<times> storage) result" where
  "replay_markers rc ms = fold_r (replay_marker rc) ([], storage_init) ms"

section \<open>Tails and reclamation\<close>

definition is_confirmed :: "string list \<Rightarrow> string \<Rightarrow> sidecar_record \<Rightarrow> bool" where
  "is_confirmed confirmed f r \<longleftrightarrow> sidecar_key f (sr_seq r) (sr_ordinal r) \<in> set confirmed"

text \<open>The confirmed head of a sidecar and the offset of its unconfirmed tail.\<close>

definition check_tail ::
    "string list \<Rightarrow> int \<Rightarrow> string \<times> parsed_file \<Rightarrow> (encoding_error, parsed_file \<times> nat option) result" where
  "check_tail confirmed previous file =
     (case file of (f, lines) \<Rightarrow>
        let head = takeWhile (\<lambda>(r, _). is_confirmed confirmed f r) lines;
            tail = dropWhile (\<lambda>(r, _). is_confirmed confirmed f r) lines
        in (case tail of
              [] \<Rightarrow> Inr (head, None)
            | (_, start) # later \<Rightarrow>
                if \<exists>(r, _)\<in>set later. is_confirmed confirmed f r then Inl Corruption
                else if \<exists>(r, _)\<in>set tail. sr_seq r \<le> previous then Inl Corruption
                else Inr (head, Some start)))"

definition file_reclamation ::
    "(dbl \<Rightarrow> string) \<Rightarrow> replay_context \<Rightarrow> string \<Rightarrow> parsed_file \<Rightarrow> (string \<times> string) option" where
  "file_reclamation to_chars rc f lines =
     (case task_id_from_file f of
        Some i \<Rightarrow> if lines = [] \<or> rc_live rc i = Some False then Some (f, []) else None
      | None \<Rightarrow>
          (case document_id_from_file f of
             None \<Rightarrow> None
           | Some i \<Rightarrow>
               if lines = [] \<or> i \<in> set (rc_retired rc) then Some (f, [])
               else (case rc_bases rc i of
                       None \<Rightarrow> None
                     | Some (seq, n) \<Rightarrow>
                         let retained = filter (\<lambda>(r, _). sr_seq r > seq \<or> sr_seq r = seq \<and> sr_ordinal r \<ge> n) lines
                         in if length retained = length lines then None
                            else if retained = [] then Some (f, [])
                            else Some (f, concat (map (\<lambda>(r, _). sidecar_line to_chars r @ [line_feed]) retained)))))"

fun settle_files ::
    "(dbl \<Rightarrow> string) \<Rightarrow> replay_context \<Rightarrow> string list \<Rightarrow> int \<Rightarrow> (string \<times> parsed_file) list \<Rightarrow> directory \<Rightarrow>
     (encoding_error, directory \<times> (string \<times> string) list) result" where
  "settle_files to_chars rc confirmed previous [] d = Inr (d, [])"
| "settle_files to_chars rc confirmed previous ((f, lines) # files) d =
     bind_r (check_tail confirmed previous (f, lines)) (\<lambda>(kept, cut_at).
     bind_r (settle_files to_chars rc confirmed previous files
               (case cut_at of None \<Rightarrow> d | Some start \<Rightarrow> put_file d f (take start (file_bytes d f)))) (\<lambda>(d', plan).
     Inr (d', (case file_reclamation to_chars rc f kept of None \<Rightarrow> plan | Some r \<Rightarrow> r # plan))))"

definition replay_context_of :: "(string \<times> parsed_file) list \<Rightarrow> main_marker list \<Rightarrow> replay_context" where
  "replay_context_of files ms =
     \<lparr>rc_keyed = keyed_records files, rc_live = final_task_live ms, rc_retired = retired_ids ms,
      rc_bases = latest_bases (keyed_records files) ms\<rparr>"

definition recover ::
    "(dbl \<Rightarrow> string) \<Rightarrow> (dbl \<Rightarrow> int) \<Rightarrow> (rat \<Rightarrow> dbl option) \<Rightarrow> bool \<Rightarrow> directory \<Rightarrow> (encoding_error, jsonl) result" where
  "recover to_chars undefined_cast round_double fsync d =
     (case read_markers undefined_cast round_double d of
        (d1, markers) \<Rightarrow>
          bind_r markers (\<lambda>ms.
          bind_r (read_sidecars undefined_cast round_double (sidecar_files d1) (remove_scratch d1)) (\<lambda>(d2, files).
          bind_r (replay_markers (replay_context_of files ms) ms) (\<lambda>(confirmed, s).
          bind_r (settle_files to_chars (replay_context_of files ms) confirmed (last_marker_seq ms) files d2) (\<lambda>(d3, plan).
          Inr (reclaim_sidecars fsync plan
                 \<lparr>jl_files = d3, jl_known = filter (\<lambda>f. task_id_from_file f \<noteq> None) (map fst files), jl_state = s,
                  jl_poisoned = False, jl_plan = []\<rparr>))))))"

end
