(* ===== verification/Storage_Encoding_Laws.thy ===== *)
theory Storage_Encoding_Laws
  imports Storage_Encoding
begin

text \<open>
  Laws of the storage encodings: decoding what was encoded gives the operations and records back, for
  integers that are exact as doubles and values that are strict JSON.
\<close>

section \<open>Operations\<close>

lemma or_corrupt_simps [simp]: "or_corrupt (Some x) = Inr x" "or_corrupt None = Inl Corruption"
  by (simp_all add: or_corrupt_def)

lemma corrupt_simps [simp]: "corrupt (Inr x) = Inr x" "corrupt (Inl e) = Inl Corruption"
  by (simp_all add: corrupt_def)

lemma support_views [simp]:
  "support_array (SArr a) = Some a" "support_string (SStr s) = Some s" "support_object (SObj ob) = Some ob"
  by (simp_all add: support_array_def support_string_def support_object_def)

definition exact_size :: "nat \<Rightarrow> bool" where
  "exact_size n \<longleftrightarrow> n \<le> 2 ^ 53"

lemma nonnegative_integer_exact:
  "0 \<le> i \<Longrightarrow> exact_int i \<Longrightarrow> nonnegative_integer undefined_cast (support_number i) = Some i"
  using int64_of_exact [of i undefined_cast]
  by (simp add: nonnegative_integer_def support_number_def exact_int_double exact_int_def)

lemma decode_size_exact [simp]: "exact_size n \<Longrightarrow> decode_size undefined_cast (support_number (int n)) = Inr n"
proof -
  assume n: "exact_size n"
  then have "int n \<le> 2 ^ 53" unfolding exact_size_def by (metis of_nat_le_iff of_nat_numeral of_nat_power)
  then have "exact_int (int n)" "int n mod 2 ^ 64 = int n" by (simp_all add: exact_int_def)
  moreover have "\<not> size_max < n" using n unfolding exact_size_def size_max_def by simp
  ultimately show ?thesis by (simp add: decode_size_def nonnegative_integer_exact size_of_int_def)
qed

definition strict_json :: "json \<Rightarrow> bool" where
  "strict_json v \<longleftrightarrow> json_wf v \<and> is_strict (to_support v)"

lemma decode_json_strict [simp]: "strict_json v \<Longrightarrow> decode_json (to_support v) = Inr v"
  by (simp add: decode_json_def strict_json_def lift_json_def to_support_strict)

definition exact_segment :: "segment \<Rightarrow> bool" where
  "exact_segment s \<longleftrightarrow> (case s of PathKey _ \<Rightarrow> True | PathIndex i \<Rightarrow> exact_size i)"

lemma decode_stored_path_exact [simp]:
  "list_all exact_segment p \<Longrightarrow> decode_stored_path undefined_cast (path_value p) = Inr p"
proof -
  have "decode_stored_segment undefined_cast (case s of PathKey k \<Rightarrow> SStr k | PathIndex i \<Rightarrow> support_number (int i)) = Inr s"
    if "exact_segment s" for s
    using that by (cases s) (simp_all add: decode_stored_segment_def exact_segment_def support_number_def
        decode_size_exact [unfolded support_number_def])
  then show "list_all exact_segment p \<Longrightarrow> decode_stored_path undefined_cast (path_value p) = Inr p"
    by (auto simp: decode_stored_path_def path_value_def map_r_ok list_all_length)
qed

fun exact_op :: "op \<Rightarrow> bool" where
  "exact_op (ReplaceOp v) = strict_json v"
| "exact_op (SetOp p v) = (list_all exact_segment p \<and> strict_json v)"
| "exact_op (DeleteOp p) = list_all exact_segment p"
| "exact_op (AppendOp p t) = list_all exact_segment p"
| "exact_op (TruncateOp p n) = (list_all exact_segment p \<and> exact_size n)"
| "exact_op (SpliceOp p i n items) = (list_all exact_segment p \<and> exact_size i \<and> exact_size n \<and> list_all strict_json items)"
| "exact_op (MoveOp p perm) = (list_all exact_segment p \<and> list_all exact_size perm)"

lemma decode_whole_exact:
  "exact_size n \<Longrightarrow> bind_r (or_corrupt (nonnegative_integer undefined_cast (support_number (int n)))) (\<lambda>i. Inr (size_of_int i)) = Inr n"
  using decode_size_exact [of n undefined_cast] unfolding decode_size_def
  by (auto split: option.splits if_splits)

lemma decode_stored_op_exact: "exact_op op \<Longrightarrow> decode_stored_op undefined_cast (op_value op) = Inr op"
proof (cases op)
  case (SpliceOp p i n items)
  assume "exact_op op"
  then have "map_r decode_json (map to_support items) = Inr items" "list_all exact_segment p" "exact_size i" "exact_size n"
    using SpliceOp by (auto simp: map_r_ok list_all_length)
  then show ?thesis using SpliceOp by (simp add: decode_stored_op_def decode_whole_exact)
next
  case (MoveOp p perm)
  assume "exact_op op"
  then have "map_r (decode_size undefined_cast) (map (\<lambda>i. support_number (int i)) perm) = Inr perm" "list_all exact_segment p"
    using MoveOp by (auto simp: map_r_ok list_all_length)
  then show ?thesis using MoveOp by (simp add: decode_stored_op_def)
qed (simp_all add: decode_stored_op_def)

lemma decode_stored_ops_exact:
  assumes "list_all exact_op ops"
  shows "decode_stored_ops undefined_cast (ops_value ops) =
         (case validate_batch ops of Inl e \<Rightarrow> Inl (BatchInvalid e) | Inr _ \<Rightarrow> Inr ops)"
proof -
  have "map_r (decode_stored_op undefined_cast) (map op_value ops) = Inr ops"
    using assms by (auto simp: map_r_ok list_all_length decode_stored_op_exact)
  then show ?thesis by (simp add: decode_stored_ops_def ops_value_def)
qed

section \<open>Records\<close>

lemma find_member_append:
  "find_member (a @ b) k = (case find_member a k of None \<Rightarrow> find_member b k | Some v \<Rightarrow> Some v)"
  by (simp add: find_member_map_of map_add_def split: option.splits)

lemma find_opt_member: "find_member (opt_member k f v) l = (if k = l then map_option f v else None)"
  by (cases v) (simp_all add: opt_member_def)

lemma find_when_member: "find_member (when_member b k v) l = (if k = l \<and> b then Some v else None)"
  by (simp add: when_member_def)

lemmas find_members = find_member_append find_opt_member find_when_member

definition exact_option :: "int option \<Rightarrow> bool" where
  "exact_option v \<longleftrightarrow> (case v of None \<Rightarrow> True | Some i \<Rightarrow> exact_int i)"

lemma number_member_exact:
  "exact_int i \<Longrightarrow> find_member ob k = Some (json_int i) \<Longrightarrow> number_member undefined_cast ob k = Some i"
  by (simp add: number_member_def json_int_def)

lemma number_member_option:
  "exact_option v \<Longrightarrow> find_member ob k = map_option json_int v \<Longrightarrow> number_member undefined_cast ob k = v"
  by (cases v) (simp_all add: number_member_def json_int_def exact_option_def)

lemma text_member_option: "find_member ob k = map_option JStr v \<Longrightarrow> text_member ob k = v"
  by (cases v) (simp_all add: text_member_def)

lemma text_member_Some: "find_member ob k = Some (JStr s) \<Longrightarrow> text_member ob k = Some s"
  by (simp add: text_member_def)

lemma as_boolean_JBool [simp]: "as_boolean (JBool b) = Some b"
  by (simp add: as_boolean_def)

lemma find_id_member: "find_member (opt_member k id v) l = (if k = l then v else None)"
  by (cases v) (simp_all add: opt_member_def)

lemma decode_outcome_error_encode: "map_option decode_outcome_error (as_object (encode_outcome_error e)) = Some e"
  by (simp add: encode_outcome_error_def decode_outcome_error_def text_or_empty_def text_member_def find_id_member)

lemma decode_outcome_encode: "map_option decode_outcome (as_object (encode_outcome r)) = Some r"
proof -
  let ?ob = "(''status'', JStr (to_status r)) # opt_member ''result'' id (to_result r) @
       opt_member ''reason'' JStr (to_reason r) @ opt_member ''error'' encode_outcome_error (to_error r)"
  have "text_or_empty ?ob ''status'' = to_status r" by (simp add: text_or_empty_def text_member_def)
  moreover have "find_member ?ob ''result'' = to_result r"
    by (simp add: find_members find_id_member split: option.split)
  moreover have "text_member ?ob ''reason'' = to_reason r"
    by (rule text_member_option) (simp add: find_members find_id_member split: option.split)
  moreover have "map_option decode_outcome_error (Option.bind (find_member ?ob ''error'') as_object) = to_error r"
    using decode_outcome_error_encode by (cases "to_error r") (simp_all add: find_members find_id_member split: option.split)
  ultimately show ?thesis by (simp add: encode_outcome_def decode_outcome_def)
qed

text \<open>What is stored of a state: the wait list and policy only of a waiting task.\<close>

definition stored_state :: "task_state \<Rightarrow> task_state" where
  "stored_state st = (if ts_status st = ''waiting'' then st else st\<lparr>ts_on := [], ts_policy := None\<rparr>)"

lemma decode_policy_name [simp]: "join_policy_from_name (join_policy_name p) = Some p"
  by (cases p) (simp_all add: join_policy_from_name_def)

lemma decode_task_state_encode:
  assumes "list_all exact_int (ts_on st)"
  shows "bind_r (or_corrupt (as_object (encode_task_state st))) (decode_task_state undefined_cast) = Inr (stored_state st)"
proof -
  define waits where "waits = (if ts_status st = ''waiting''
        then (''on'', JArr (map json_int (ts_on st))) # opt_member ''policy'' (\<lambda>p. JStr (join_policy_name p)) (ts_policy st)
        else [])"
  define ob where "ob = (''status'', JStr (ts_status st)) # opt_member ''checkpoint'' id (ts_checkpoint st) @ waits @
       opt_member ''outcome'' encode_outcome (ts_outcome st)"
  have waits: "find_member waits ''checkpoint'' = None" "find_member waits ''outcome'' = None"
    "find_member waits ''on'' = (if ts_status st = ''waiting'' then Some (JArr (map json_int (ts_on st))) else None)"
    "find_member waits ''policy'' = (if ts_status st = ''waiting'' then map_option (\<lambda>p. JStr (join_policy_name p)) (ts_policy st) else None)"
    by (simp_all add: waits_def find_members)
  have "text_member ob ''status'' = Some (ts_status st)" by (rule text_member_Some) (simp add: ob_def)
  moreover have "find_member ob ''checkpoint'' = ts_checkpoint st"
    by (simp add: ob_def find_members find_id_member waits split: option.split)
  moreover have "map_option decode_outcome (Option.bind (find_member ob ''outcome'') as_object) = ts_outcome st"
    using decode_outcome_encode by (cases "ts_outcome st") (simp_all add: ob_def find_members find_id_member waits)
  moreover have "find_member ob ''on'' = find_member waits ''on''"
    by (simp add: ob_def find_members find_id_member split: option.split)
  then have "decode_wait_list undefined_cast ob = Inr (ts_on (stored_state st))"
    using assms by (auto simp: decode_wait_list_def waits stored_state_def map_r_ok list_all_length json_int_def)
  moreover have "find_member ob ''policy'' = find_member waits ''policy''"
    by (simp add: ob_def find_members find_id_member split: option.split)
  then have "decode_policy ob = Inr (ts_policy (stored_state st))"
    by (cases "ts_policy st") (simp_all add: decode_policy_def waits stored_state_def)
  ultimately show ?thesis
    by (simp add: encode_task_state_def ob_def [symmetric] waits_def [symmetric] decode_task_state_def stored_state_def)
qed

text \<open>A \<^verbatim>\<open>std::map\<close> is rebuilt in its order.\<close>

lemma sorted_emplace_last: "\<forall>m\<in>set ms. fst m < k \<Longrightarrow> sorted_emplace k v ms = ms @ [(k, v)]"
  by (induction k v ms rule: sorted_emplace.induct) auto

lemma rebuild_sorted:
  "sorted_wrt (<) (map fst (acc @ ms)) \<Longrightarrow> fold (\<lambda>(k, v) acc. sorted_emplace k v acc) ms acc = acc @ ms"
proof (induction ms arbitrary: acc)
  case (Cons m ms)
  obtain k v where m: "m = (k, v)" by (cases m)
  have "\<forall>m\<in>set acc. fst m < k" using Cons.prems m by (auto simp: sorted_wrt_append)
  then show ?case using Cons.IH [of "acc @ [m]"] Cons.prems m by (simp add: sorted_emplace_last)
qed simp

lemma sorted_keys_unique: "sorted_wrt (<) (map fst ms) \<Longrightarrow> unique_keys ms"
  unfolding unique_keys_def by (metis strict_sorted_iff)

definition exact_task :: "task_record \<Rightarrow> bool" where
  "exact_task t \<longleftrightarrow>
     exact_int (tk_id t) \<and> exact_int (tk_conversation t) \<and> exact_int (tk_version t) \<and> exact_option (tk_owner t) \<and>
     exact_option (tk_started_at t) \<and> exact_option (tk_ended_at t) \<and> list_all exact_int (ts_on (tk_state t)) \<and>
     sorted_wrt (<) (map fst (tk_memos t))"

lemma decode_task_encode:
  assumes "exact_task t"
  shows "decode_task_record undefined_cast (encode_task_record t) = Inr (t\<lparr>tk_state := stored_state (tk_state t)\<rparr>)"
proof -
  define ob where "ob = [(''id'', json_int (tk_id t)), (''conversationId'', json_int (tk_conversation t)), (''kind'', JStr (tk_kind t)),
            (''version'', json_int (tk_version t)), (''input'', tk_input t)] @
       opt_member ''owner'' json_int (tk_owner t) @ [(''background'', JBool (tk_background t))] @
       when_member (tk_abandon_on_restart t) ''abandonOnRestart'' (JBool True) @
       [(''abortRequested'', JBool (tk_abort_requested t))] @ opt_member ''abortReason'' JStr (tk_abort_reason t) @
       opt_member ''startedAt'' json_int (tk_started_at t) @ opt_member ''endedAt'' json_int (tk_ended_at t) @
       [(''state'', encode_task_state (tk_state t))] @
       when_member (tk_memos t \<noteq> []) ''memos'' (JObj (emplace_all (tk_memos t)))"
  note ok = assms [unfolded exact_task_def]
  have numbers: "number_member undefined_cast ob ''id'' = Some (tk_id t)"
    "number_member undefined_cast ob ''conversationId'' = Some (tk_conversation t)"
    "number_member undefined_cast ob ''version'' = Some (tk_version t)"
    using ok by (auto intro!: number_member_exact simp: ob_def)
  have options: "number_member undefined_cast ob ''owner'' = tk_owner t"
    "number_member undefined_cast ob ''startedAt'' = tk_started_at t"
    "number_member undefined_cast ob ''endedAt'' = tk_ended_at t"
    using ok by (auto intro!: number_member_option simp: ob_def find_members split: option.split)
  have texts: "text_member ob ''kind'' = Some (tk_kind t)" "text_member ob ''abortReason'' = tk_abort_reason t"
    "find_member ob ''input'' = Some (tk_input t)" "find_member ob ''state'' = Some (encode_task_state (tk_state t))"
    by (auto intro!: text_member_Some text_member_option simp: ob_def find_members split: option.split)
  have flags: "flag_member ob ''background'' = tk_background t" "flag_member ob ''abandonOnRestart'' = tk_abandon_on_restart t"
    "flag_member ob ''abortRequested'' = tk_abort_requested t"
    by (simp_all add: flag_member_def ob_def find_members split: option.split)
  have "find_member ob ''memos'' = (if tk_memos t \<noteq> [] then Some (JObj (tk_memos t)) else None)"
    using ok by (simp add: ob_def find_members emplace_all_unique sorted_keys_unique split: option.split)
  then have memos: "decode_memos ob = tk_memos t"
    using rebuild_sorted [of "[]" "tk_memos t"] ok by (simp add: decode_memos_def)
  obtain state_ob where state_ob: "encode_task_state (tk_state t) = JObj state_ob" by (simp add: encode_task_state_def)
  then have "decode_task_state undefined_cast state_ob = Inr (stored_state (tk_state t))"
    using decode_task_state_encode [of "tk_state t" undefined_cast] ok by simp
  moreover have "encode_task_record t = JObj ob" by (simp only: encode_task_record_def ob_def)
  ultimately show ?thesis
    using numbers options texts flags memos state_ob by (simp add: decode_task_record_def task_record.equality)
qed

definition exact_edge :: "(int \<times> int) option \<Rightarrow> bool" where
  "exact_edge e \<longleftrightarrow> (case e of None \<Rightarrow> True | Some (a, b) \<Rightarrow> exact_int a \<and> exact_int b)"

definition exact_conversation :: "conversation_record \<Rightarrow> bool" where
  "exact_conversation c \<longleftrightarrow> exact_int (cv_id c) \<and> exact_edge (cv_parent c) \<and> exact_edge (cv_owner c)"

lemma decode_edge_encode:
  assumes "exact_edge e" "find_member ob name = map_option (encode_edge k) e" "k \<noteq> ''conversationId''"
  shows "decode_edge undefined_cast ob name k = Inr e"
proof (cases e)
  case (Some ab)
  then show ?thesis using assms
    by (cases ab) (auto simp: decode_edge_def encode_edge_def exact_edge_def number_member_def json_int_def)
qed (use assms in \<open>simp add: decode_edge_def\<close>)

lemma decode_conversation_encode:
  assumes "exact_conversation c"
  shows "decode_conversation_record undefined_cast (encode_conversation_record c) = Inr c"
proof -
  define ob where "ob = (''id'', json_int (cv_id c)) # opt_member ''owner'' (encode_edge ''taskId'') (cv_owner c) @
       opt_member ''parent'' (encode_edge ''at'') (cv_parent c)"
  note ok = assms [unfolded exact_conversation_def]
  have "number_member undefined_cast ob ''id'' = Some (cv_id c)" using ok by (auto intro!: number_member_exact simp: ob_def)
  moreover have "decode_edge undefined_cast ob ''parent'' ''at'' = Inr (cv_parent c)"
    using ok by (intro decode_edge_encode) (simp_all add: ob_def find_members split: option.split)
  moreover have "decode_edge undefined_cast ob ''owner'' ''taskId'' = Inr (cv_owner c)"
    using ok by (intro decode_edge_encode) (simp_all add: ob_def find_members split: option.split)
  moreover have "encode_conversation_record c = JObj ob" by (simp only: encode_conversation_record_def ob_def)
  ultimately show ?thesis by (simp add: decode_conversation_record_def)
qed

definition exact_submission :: "submission_record \<Rightarrow> bool" where
  "exact_submission s \<longleftrightarrow>
     exact_int (sm_id s) \<and> exact_int (sm_conversation s) \<and> exact_option (sm_entry s) \<and> exact_option (sm_answer s)"

lemma decode_submission_encode:
  assumes "exact_submission s"
  shows "decode_submission_record undefined_cast (encode_submission_record s) = Inr s"
proof -
  define ob where "ob = [(''id'', json_int (sm_id s)), (''conversationId'', json_int (sm_conversation s))] @
       opt_member ''requestId'' JStr (sm_request s) @ [(''type'', JStr (sm_type s)), (''status'', JStr (sm_status s))] @
       opt_member ''entry'' json_int (sm_entry s) @ opt_member ''answer'' json_int (sm_answer s) @
       opt_member ''reason'' JStr (sm_reason s) @ opt_member ''detail'' id (sm_detail s)"
  note ok = assms [unfolded exact_submission_def]
  have "number_member undefined_cast ob ''id'' = Some (sm_id s)" "number_member undefined_cast ob ''conversationId'' = Some (sm_conversation s)"
    using ok by (auto intro!: number_member_exact simp: ob_def)
  moreover have "number_member undefined_cast ob ''entry'' = sm_entry s" "number_member undefined_cast ob ''answer'' = sm_answer s"
    using ok by (auto intro!: number_member_option simp: ob_def find_members split: option.split)
  moreover have "text_member ob ''type'' = Some (sm_type s)" "text_member ob ''status'' = Some (sm_status s)"
    "text_member ob ''requestId'' = sm_request s" "text_member ob ''reason'' = sm_reason s"
    by (auto intro!: text_member_Some text_member_option simp: ob_def find_members split: option.split)
  moreover have "find_member ob ''detail'' = sm_detail s"
    by (simp add: ob_def find_members option.map_id split: option.split)
  moreover have "encode_submission_record s = JObj ob" by (simp only: encode_submission_record_def ob_def)
  ultimately show ?thesis by (simp add: decode_submission_record_def)
qed

text \<open>
  C25. What the storage encodes reads back. A batch of operations whose indexes and counts are exact as
  doubles and whose values are strict JSON decodes to itself if it is valid, and is rejected with the
  validator's error otherwise. A task, conversation or submission whose integers are exact decodes to
  itself, with every optional member, outcome, error and memo; of a task's state only the awaited
  tasks and the join policy may differ, which are kept for a waiting state and empty otherwise.
\<close>

theorem stored_records_round_trip:
  "(list_all exact_op ops \<longrightarrow>
      decode_stored_ops undefined_cast (ops_value ops) =
        (case validate_batch ops of Inl e \<Rightarrow> Inl (BatchInvalid e) | Inr _ \<Rightarrow> Inr ops)) \<and>
   (exact_task t \<longrightarrow>
      decode_task_record undefined_cast (encode_task_record t) = Inr (t\<lparr>tk_state := stored_state (tk_state t)\<rparr>)) \<and>
   (exact_conversation c \<longrightarrow> decode_conversation_record undefined_cast (encode_conversation_record c) = Inr c) \<and>
   (exact_submission u \<longrightarrow> decode_submission_record undefined_cast (encode_submission_record u) = Inr u)"
  by (simp add: decode_stored_ops_exact decode_task_encode decode_conversation_encode decode_submission_encode)

theorem stored_records_round_trip_witness:
  "decode_stored_ops (\<lambda>_. 0) (ops_value [SetOp [PathKey ''a'', PathIndex 2] (JStr ''x''), MoveOp [PathKey ''b''] [1, 0]]) =
     Inr [SetOp [PathKey ''a'', PathIndex 2] (JStr ''x''), MoveOp [PathKey ''b''] [1, 0]] \<and>
   decode_conversation_record (\<lambda>_. 0) (encode_conversation_record \<lparr>cv_id = 7, cv_parent = Some (3, 5), cv_owner = None\<rparr>) =
     Inr \<lparr>cv_id = 7, cv_parent = Some (3, 5), cv_owner = None\<rparr>"
proof -
  let ?ops = "[SetOp [PathKey ''a'', PathIndex 2] (JStr ''x''), MoveOp [PathKey ''b''] [1, 0]]"
  let ?c = "\<lparr>cv_id = 7, cv_parent = Some (3, 5), cv_owner = None\<rparr>"
  have "list_all exact_op ?ops" by (simp add: exact_segment_def exact_size_def strict_json_def)
  moreover have "validate_batch ?ops = Inr ()" by code_simp
  moreover have "exact_conversation ?c" by (simp add: exact_conversation_def exact_edge_def exact_int_def)
  ultimately show ?thesis using stored_records_round_trip [of ?ops "\<lambda>_. 0" _ ?c] by simp
qed

end
