(* ===== verification/Jsonl_Line_Laws.thy ===== *)
theory Jsonl_Line_Laws
  imports Jsonl_Records Storage_Encoding_Laws Json_Text_Laws Bounded_Text_Laws
begin

text \<open>
  Laws of the lines of a JSONL directory: a sidecar record that was written reads back, except for the
  version of its content; a written line is well-formed text without a line feed; reading a file
  that was appended to gives the old lines, the new ones, and nothing of a torn tail.
\<close>

section \<open>Written values read back\<close>

definition writable :: "(dbl \<Rightarrow> string) \<Rightarrow> (rat \<Rightarrow> dbl option) \<Rightarrow> support_json \<Rightarrow> bool" where
  "writable to_chars round_double v \<longleftrightarrow> support_wf v \<and> all_numbers (number_ok to_chars round_double) v"

lemma parse_text_write:
  assumes "writable to_chars round_double (SObj ob)"
  shows "parse_text round_double (write_json to_chars (SObj ob)) = Inr ob"
proof -
  have "text_of round_double (write_value to_chars InsertionOrder (SObj ob)) (arrange InsertionOrder (SObj ob))"
    using assms unfolding writable_def by (intro text_of_written) simp_all
  then show ?thesis by (simp add: parse_text_def write_json_def read_text arrange_insertion)
qed

lemma json_integer_exact:
  "0 \<le> i \<Longrightarrow> exact_int i \<Longrightarrow> find_member ob k = Some (support_number i) \<Longrightarrow> json_integer_member undefined_cast ob k = Some i"
  using int64_of_exact [of i undefined_cast]
  by (simp add: json_integer_member_def json_number_member_def support_number_def exact_int_double exact_int_def)

lemma has_format_one: "find_member ob ''format'' = Some (SNum (DFin 1)) \<Longrightarrow> has_format ob"
  by (simp add: has_format_def is_format_def)

lemma json_string_SStr: "find_member ob k = Some (SStr s) \<Longrightarrow> json_string_member ob k = Some s"
  by (simp add: json_string_member_def)

lemma json_object_SObj: "find_member ob k = Some (SObj m) \<Longrightarrow> json_object_member ob k = Some m"
  by (simp add: json_object_member_def)

lemma json_integer_one: "find_member ob k = Some (SNum (DFin 1)) \<Longrightarrow> json_integer_member undefined_cast ob k = Some 1"
  by (simp add: json_integer_member_def json_number_member_def int64_of_def Let_def)

text \<open>What a sidecar line keeps of a record: the version of a content is always written as 1.\<close>

definition stored_content :: "document_content \<Rightarrow> document_content" where
  "stored_content c = \<lparr>dc_base = dc_base c, dc_version = 1, dc_value = (if dc_base c then dc_value c else JNull),
     dc_ops = (if dc_base c then [] else dc_ops c)\<rparr>"

definition stored_payload :: "sidecar_payload \<Rightarrow> sidecar_payload" where
  "stored_payload p =
     (case sp_task p of
        Some t \<Rightarrow> \<lparr>sp_id = 0, sp_content = no_content, sp_task = Some (t\<lparr>tk_state := stored_state (tk_state t)\<rparr>)\<rparr>
      | None \<Rightarrow> p\<lparr>sp_content := stored_content (sp_content p)\<rparr>)"

definition stored_record :: "sidecar_record \<Rightarrow> sidecar_record" where
  "stored_record r = r\<lparr>sr_payload := stored_payload (sr_payload r)\<rparr>"

definition storable_content :: "document_content \<Rightarrow> bool" where
  "storable_content c \<longleftrightarrow>
     (if dc_base c then strict_json (dc_value c) else list_all exact_op (dc_ops c) \<and> validate_batch (dc_ops c) = Inr ())"

definition storable_payload :: "sidecar_payload \<Rightarrow> bool" where
  "storable_payload p \<longleftrightarrow>
     (case sp_task p of
        Some t \<Rightarrow> exact_task t \<and> strict_json (encode_task_record t) \<and> ts_status (tk_state t) \<noteq> ''terminal''
      | None \<Rightarrow> 0 \<le> sp_id p \<and> exact_int (sp_id p) \<and> storable_content (sp_content p))"

definition storable_record :: "(dbl \<Rightarrow> string) \<Rightarrow> (rat \<Rightarrow> dbl option) \<Rightarrow> sidecar_record \<Rightarrow> bool" where
  "storable_record to_chars round_double r \<longleftrightarrow>
     writable to_chars round_double (sidecar_value r) \<and> 1 \<le> sr_seq r \<and> exact_int (sr_seq r) \<and>
     0 \<le> sr_ordinal r \<and> exact_int (sr_ordinal r) \<and> storable_payload (sr_payload r)"

lemma parse_content_value:
  assumes "storable_content c"
  shows "parse_content undefined_cast (content_value c) = Inr (stored_content c)"
proof -
  let ?ob = "[(''version'', SNum (DFin 1)), (''kind'', SStr (if dc_base c then ''base'' else ''delta'')),
           (if dc_base c then (''value'', to_support (dc_value c)) else (''ops'', ops_value (dc_ops c)))]"
  have "json_integer_member undefined_cast ?ob ''version'' = Some 1" by (rule json_integer_one) simp
  moreover have "json_string_member ?ob ''kind'' = Some (if dc_base c then ''base'' else ''delta'')" by (rule json_string_SStr) simp
  moreover have "decode_stored_ops undefined_cast (ops_value (dc_ops c)) = Inr (dc_ops c)" if "\<not> dc_base c"
  proof -
    have "map_r (decode_stored_op undefined_cast) (map op_value (dc_ops c)) = Inr (dc_ops c)"
      using assms that by (auto simp: storable_content_def map_r_ok list_all_length decode_stored_op_exact)
    then show ?thesis using assms that by (simp add: decode_stored_ops_def ops_value_def storable_content_def)
  qed
  ultimately show ?thesis using assms
    by (auto simp: parse_content_def content_value_def stored_content_def storable_content_def)
qed

lemma parse_payload_value:
  assumes "storable_payload p"
  shows "\<exists>ob. payload_value p = SObj ob \<and> parse_payload undefined_cast ob = Inr (stored_payload p)"
proof (cases "sp_task p")
  case (Some t)
  then have "exact_task t" "strict_json (encode_task_record t)" "ts_status (tk_state t) \<noteq> ''terminal''"
    using assms by (simp_all add: storable_payload_def)
  then show ?thesis using Some
    by (simp add: payload_value_def parse_payload_def json_string_member_def decode_task_encode stored_state_def stored_payload_def)
next
  case None
  then have "0 \<le> sp_id p" "exact_int (sp_id p)" "storable_content (sp_content p)"
    using assms by (simp_all add: storable_payload_def)
  then show ?thesis using None
    by (simp add: payload_value_def parse_payload_def json_string_member_def json_integer_exact parse_content_value stored_payload_def)
qed

lemma parse_sidecar_line:
  assumes "storable_record to_chars round_double r"
  shows "parse_sidecar undefined_cast round_double (sidecar_line to_chars r) = Inr (stored_record r)"
proof -
  note ok = assms [unfolded storable_record_def]
  define ob where "ob = [(''format'', SNum (DFin 1)), (''type'', SStr ''record''), (''seq'', support_number (sr_seq r)),
           (''ordinal'', support_number (sr_ordinal r)), (''payload'', payload_value (sr_payload r))]"
  obtain payload where payload: "payload_value (sr_payload r) = SObj payload"
      "parse_payload undefined_cast payload = Inr (stored_payload (sr_payload r))"
    using ok parse_payload_value by blast
  have "parse_text round_double (sidecar_line to_chars r) = Inr ob"
    using ok parse_text_write [of to_chars round_double ob] by (simp add: sidecar_line_def sidecar_value_def ob_def)
  moreover have "has_format ob" by (rule has_format_one) (simp add: ob_def)
  moreover have "json_string_member ob ''type'' = Some ''record''" by (rule json_string_SStr) (simp add: ob_def)
  moreover have "json_integer_member undefined_cast ob ''seq'' = Some (sr_seq r)"
    "json_integer_member undefined_cast ob ''ordinal'' = Some (sr_ordinal r)"
    using ok by (auto intro!: json_integer_exact simp: ob_def)
  moreover have "json_object_member ob ''payload'' = Some payload" using payload by (intro json_object_SObj) (simp add: ob_def)
  ultimately show ?thesis using ok payload(2) by (simp add: parse_sidecar_def stored_record_def)
qed

text \<open>A record with conversions under which it is storable.\<close>

definition one_chars :: "dbl \<Rightarrow> string" where
  "one_chars d = ''1e+00''"

definition exact_double :: "rat \<Rightarrow> dbl option" where
  "exact_double q = Some (DFin q)"

definition zero_cast :: "dbl \<Rightarrow> int" where
  "zero_cast d = 0"

lemma one_chars_ok: "number_ok one_chars exact_double (DFin 1)"
proof -
  have "one_chars (DFin 1) = scientific_text False ''1'' 0" "all_digits ''1''" "scientific_value False ''1'' 0 = 1" by code_simp+
  then show ?thesis unfolding number_ok_def
    by (intro disjI2 exI [of _ 1] exI [of _ False] exI [of _ "''1''"] exI [of _ 0]) (simp add: exact_double_def)
qed

definition sample_record :: "nat \<Rightarrow> sidecar_record" where
  "sample_record version =
     \<lparr>sr_seq = 1, sr_ordinal = 0,
      sr_payload = \<lparr>sp_id = 1, sp_content = \<lparr>dc_base = True, dc_version = version, dc_value = JObj [], dc_ops = []\<rparr>, sp_task = None\<rparr>\<rparr>"

lemma sample_record_storable: "storable_record one_chars exact_double (sample_record version)"
proof -
  have "sidecar_value (sample_record version) = SObj [(''format'', SNum (DFin 1)), (''type'', SStr ''record''), (''seq'', SNum (DFin 1)),
      (''ordinal'', SNum (DFin 0)), (''payload'', SObj [(''type'', SStr ''document''), (''id'', SNum (DFin 1)),
        (''content'', SObj [(''version'', SNum (DFin 1)), (''kind'', SStr ''base''), (''value'', SObj [])])])]"
    by (simp add: sample_record_def sidecar_value_def payload_value_def content_value_def support_number_def double_of_int_def emplace_all_def)
  then have "writable one_chars exact_double (sidecar_value (sample_record version))"
    by (simp add: writable_def unique_keys_def one_chars_ok number_ok_def [of _ _ "DFin 0"])
  then show ?thesis
    by (simp add: sample_record_def storable_record_def exact_int_def storable_payload_def
        storable_content_def strict_json_def emplace_all_def unique_keys_def)
qed

text \<open>
  C24. A sidecar line reads back as the record it was written for, with one exception: the line of a
  document revision always has content version 1, whatever version the revision has, so a document
  that a newer definition wrote comes back from disk as if version 1 had written it. The members of
  a record that its kind does not use come back empty.
\<close>

theorem sidecar_line_round_trip:
  assumes "storable_record to_chars round_double r"
  shows "parse_sidecar undefined_cast round_double (sidecar_line to_chars r) = Inr (stored_record r) \<and>
     (sp_task (sr_payload r) = None \<longrightarrow> dc_version (sp_content (sr_payload (stored_record r))) = 1)"
  using parse_sidecar_line [OF assms]
  by (simp add: stored_record_def stored_payload_def stored_content_def)

theorem sidecar_line_round_trip_witness:
  "\<exists>r. parse_sidecar zero_cast exact_double (sidecar_line one_chars (sample_record 2)) = Inr r \<and>
     dc_version (sp_content (sr_payload (sample_record 2))) = 2 \<and> dc_version (sp_content (sr_payload r)) = 1"
  using sidecar_line_round_trip [OF sample_record_storable, of zero_cast 2] by (simp add: sample_record_def)

section \<open>Written text has no line feed\<close>

text \<open>The documented form of what \<^verbatim>\<open>std::to_chars\<close> writes in scientific format.\<close>

definition scientific_output :: "(dbl \<Rightarrow> string) \<Rightarrow> bool" where
  "scientific_output to_chars \<longleftrightarrow> (\<forall>d. \<exists>negative ds e. ds \<noteq> [] \<and> all_digits ds \<and> to_chars d = scientific_text negative ds e)"

lemma all_digits_no_feed: "all_digits ds \<Longrightarrow> line_feed \<notin> set ds"
  by (auto simp: all_digits_def list_all_iff is_digit_def line_feed_def)

lemma drop_trailing_zeros_digits:
  "ds \<noteq> [] \<Longrightarrow> all_digits ds \<Longrightarrow> all_digits (drop_trailing_zeros ds n) \<and> drop_trailing_zeros ds n \<noteq> []"
  by (rule drop_trailing_zeros_shape [of ds n]) (metis all_digits_simps(3))+

lemma format_number_no_feed:
  assumes "scientific_output to_chars"
  shows "line_feed \<notin> set (format_number to_chars d)"
proof -
  obtain negative ds e where ds: "ds \<noteq> []" "all_digits ds" "to_chars d = scientific_text negative ds e"
    using assms unfolding scientific_output_def by blast
  define zs where "zs = drop_trailing_zeros ds (length ds)"
  have zs: "zs \<noteq> []" "all_digits zs" using drop_trailing_zeros_digits [OF ds(1,2)] by (simp_all add: zs_def)
  then have "line_feed \<notin> set zs" "line_feed \<notin> set (tl zs)" "\<And>n. line_feed \<notin> set (take n zs)" "\<And>n. line_feed \<notin> set (drop n zs)"
    using all_digits_parts [OF zs(2)] all_digits_no_feed by auto
  moreover have "hd zs \<noteq> line_feed" using calculation(1) zs(1) by (metis hd_in_set)
  moreover have "line_feed \<notin> set (nat_digits n)" for n by (simp add: all_digits_no_feed)
  ultimately have "line_feed \<notin> set (layout_number \<lparr>np_negative = negative, np_digits = zs, np_exponent = e\<rparr>)"
    unfolding layout_number_def Let_def by (auto simp: line_feed_def)
  then show ?thesis
    using ds(3) split_scientific [OF ds(1,2), of negative e] by (cases d) (auto simp: format_number_def zs_def line_feed_def)
qed

lemma escape_char_no_feed: "line_feed \<notin> set (escape_char c)"
proof -
  have "list_all (\<lambda>m. kHexDigits ! m \<noteq> line_feed) [0..<16]" by code_simp
  then have hex: "m < 16 \<Longrightarrow> kHexDigits ! m \<noteq> line_feed" for m by (simp add: list_all_iff)
  have "(of_char c :: nat) div 16 < 16" using nat_of_char_less_256 [of c] by (simp add: less_mult_imp_div_less del: nat_of_char_less_256)
  then show ?thesis using hex [of "of_char c div 16"] hex [of "of_char c mod 16"]
    by (simp add: escape_char_def line_feed_def eq_commute)
qed

lemma write_string_no_feed: "line_feed \<notin> set (write_string s)"
  using escape_char_no_feed by (auto simp: write_string_def line_feed_def)

lemma comma_separated_no_feed: "\<forall>t\<in>set ts. line_feed \<notin> set t \<Longrightarrow> line_feed \<notin> set (comma_separated ts)"
  by (induction ts rule: comma_separated.induct) (auto simp: line_feed_def)

lemma write_value_no_feed:
  assumes "scientific_output to_chars"
  shows "line_feed \<notin> set (write_value to_chars InsertionOrder v)"
proof (induction v)
  case (SObj ob)
  have "line_feed \<notin> set (write_string (fst m) @ CHR '':'' # write_value to_chars InsertionOrder (snd m))" if "m \<in> set ob" for m
    using SObj.IH [OF that, of "snd m"] write_string_no_feed by (auto simp: line_feed_def prod_set_defs)
  then show ?case
    by (auto simp: Let_def write_object_def line_feed_def case_prod_beta intro!: comma_separated_no_feed [unfolded line_feed_def])
next
  case (SArr a)
  then show ?case
    by (auto simp: line_feed_def intro!: comma_separated_no_feed [unfolded line_feed_def])
qed (use write_string_no_feed format_number_no_feed [OF assms] in \<open>auto simp: line_feed_def\<close>)

lemma write_json_no_feed: "scientific_output to_chars \<Longrightarrow> line_feed \<notin> set (write_json to_chars v)"
  by (simp add: write_json_def write_value_no_feed)

section \<open>Lines of a file\<close>

definition complete_text :: "string \<Rightarrow> bool" where
  "complete_text b \<longleftrightarrow> b = [] \<or> last b = line_feed"

definition lines_text :: "string list \<Rightarrow> string" where
  "lines_text ls = concat (map (\<lambda>l. l @ [line_feed]) ls)"

lemma lines_text_simps [simp]:
  "lines_text [] = []" "lines_text (l # ls) = l @ line_feed # lines_text ls" "lines_text (ls @ ms) = lines_text ls @ lines_text ms"
  by (simp_all add: lines_text_def)

lemma complete_lines_text: "complete_text (lines_text ls)"
  by (cases ls rule: rev_cases) (simp_all add: complete_text_def)

lemma complete_text_append: "complete_text b \<Longrightarrow> complete_text c \<Longrightarrow> complete_text (b @ c)"
  by (cases "c = []") (auto simp: complete_text_def)

text \<open>A torn tail is cut off.\<close>

lemma complete_prefix_torn:
  assumes "complete_text b" "line_feed \<notin> set torn"
  shows "complete_prefix_size (b @ torn) = length b"
proof (cases "torn = []")
  case False
  have "dropWhile (\<lambda>c. c \<noteq> line_feed) (rev torn @ rev b) = dropWhile (\<lambda>c. c \<noteq> line_feed) (rev b)"
    using assms(2) by (intro dropWhile_append2) auto
  also have "\<dots> = rev b" using assms(1) by (cases b rule: rev_cases) (auto simp: complete_text_def)
  finally show ?thesis using False assms(2) by (auto simp: complete_prefix_size_def dest: last_in_set)
qed (use assms in \<open>simp add: complete_prefix_size_def complete_text_def\<close>)

lemma read_complete_lines_torn:
  "complete_text b \<Longrightarrow> line_feed \<notin> set torn \<Longrightarrow> read_complete_lines (b @ torn) = (b, split_complete_lines 0 b)"
  by (simp add: read_complete_lines_def complete_prefix_torn)

lemma split_lines_Nil [simp]: "split_complete_lines s [] = Inr []"
  by (simp add: split_complete_lines.simps)

lemma split_line_first:
  "line_feed \<notin> set l \<Longrightarrow> split_complete_lines s (l @ line_feed # rest) =
     (if valid_utf8_bytes (map uchar l)
      then bind_r (split_complete_lines (s + length l + 1) rest) (\<lambda>ls. Inr ((l, s) # ls)) else Inl Corruption)"
proof -
  assume l: "line_feed \<notin> set l"
  then have "dropWhile (\<lambda>c. c \<noteq> line_feed) (l @ line_feed # rest) = line_feed # rest"
    "takeWhile (\<lambda>c. c \<noteq> line_feed) (l @ line_feed # rest) = l"
    by (induction l) auto
  then show ?thesis by (subst split_complete_lines.simps) simp
qed

lemma complete_text_cases:
  assumes "complete_text b" "b \<noteq> []"
  obtains l rest where "b = l @ line_feed # rest" "line_feed \<notin> set l" "complete_text rest"
proof -
  have "line_feed \<in> set b" using assms by (auto simp: complete_text_def dest: last_in_set)
  then obtain l rest where l: "b = l @ line_feed # rest" "line_feed \<notin> set l" by (meson split_list_first)
  then have "complete_text rest" using assms(1) by (auto simp: complete_text_def split: if_splits)
  then show ?thesis using that l by blast
qed

lemma split_lines_append:
  assumes "complete_text b"
  shows "split_complete_lines s (b @ c) =
    bind_r (split_complete_lines s b) (\<lambda>ls. bind_r (split_complete_lines (s + length b) c) (\<lambda>ms. Inr (ls @ ms)))"
  using assms
proof (induction "length b" arbitrary: b s rule: less_induct)
  case less
  show ?case
  proof (cases "b = []")
    case True
    then show ?thesis by (cases "split_complete_lines s c") simp_all
  next
    case False
    obtain l rest where l: "b = l @ line_feed # rest" "line_feed \<notin> set l" "complete_text rest"
      using complete_text_cases [OF less.prems False] .
    note first = split_line_first [OF l(2), of s]
    show ?thesis using less.hyps [OF _ l(3), of "s + length l + 1"] l(1)
      by (cases "split_complete_lines (s + length l + 1) rest"; cases "split_complete_lines (s + length b) c")
        (simp_all add: first add.assoc)
  qed
qed

lemma split_lines_text:
  assumes "\<forall>l\<in>set ls. line_feed \<notin> set l \<and> valid_utf8_bytes (map uchar l)"
  shows "\<exists>ps. split_complete_lines s (lines_text ls) = Inr ps \<and> map fst ps = ls"
  using assms
proof (induction ls arbitrary: s)
  case (Cons l ls)
  obtain ps where "split_complete_lines (s + length l + 1) (lines_text ls) = Inr ps" "map fst ps = ls"
    using Cons.IH [of "s + length l + 1"] Cons.prems by auto
  then show ?case using Cons.prems by (intro exI [of _ "(l, s) # ps"]) (simp add: split_line_first)
qed simp

text \<open>A write that tears leaves some of the lines and a torn one.\<close>

lemma take_lines_text:
  assumes "\<forall>l\<in>set ls. line_feed \<notin> set l"
  shows "\<exists>k torn. take n (lines_text ls) = lines_text (take k ls) @ torn \<and> line_feed \<notin> set torn"
  using assms
proof (induction ls arbitrary: n)
  case (Cons l ls)
  show ?case
  proof (cases "n \<le> length l")
    case True
    then show ?thesis using Cons.prems by (intro exI [of _ 0] exI [of _ "take n l"]) (auto dest: in_set_takeD)
  next
    case False
    obtain k torn where "take (n - length l - 1) (lines_text ls) = lines_text (take k ls) @ torn" "line_feed \<notin> set torn"
      using Cons by fastforce
    then show ?thesis using False
      by (intro exI [of _ "Suc k"] exI [of _ torn]) (simp add: take_Cons' diff_Suc split: nat.splits)
  qed
qed auto

end
