(* ===== verification/Jsonl_Recovery_Laws.thy ===== *)
theory Jsonl_Recovery_Laws
  imports Jsonl_Recovery Jsonl_Line_Laws Document_Key
begin

text \<open>
  Laws of the recovery: which directories recover and to which state, in terms of the lines of each
  file; and that bytes which a commit wrote without publishing its marker do not change the
  recovered state.
\<close>

section \<open>Keys and lookups\<close>

lemma to_string_no_feed: "line_feed \<notin> set (to_string i)"
  using all_digits_no_feed [of "nat_digits n" for n] by (auto simp: to_string_def line_feed_def)

lemma split_at_last:
  "c \<notin> set us \<Longrightarrow> c \<notin> set vs \<Longrightarrow> xs @ c # us = ys @ c # vs \<longleftrightarrow> xs = ys \<and> us = vs"
  using split_at_first [of c "rev us" "rev vs" "rev xs" "rev ys"]
  by (metis rev_append rev_rev_ident set_rev rev.simps(2) append.assoc append_Cons append_Nil)

lemma sidecar_key_inject: "sidecar_key f s n = sidecar_key g t m \<longleftrightarrow> f = g \<and> s = t \<and> n = m"
proof -
  have "sidecar_key f s n = (f @ line_feed # to_string s) @ line_feed # to_string n" for f s n
    by (simp add: sidecar_key_def)
  then show ?thesis by (simp only: split_at_last to_string_no_feed not_False_eq_True to_string_inject) blast
qed

definition find_record :: "int \<Rightarrow> int \<Rightarrow> parsed_file \<Rightarrow> sidecar_record option" where
  "find_record s n lines = map_option fst (List.find (\<lambda>(r, _). sr_seq r = s \<and> sr_ordinal r = n) lines)"

lemma map_of_lines:
  "map_of (map (\<lambda>(r, _). (sidecar_key g (sr_seq r) (sr_ordinal r), r)) lines) (sidecar_key f s n) =
     (if f = g then find_record s n lines else None)"
  by (induction lines) (auto simp: find_record_def sidecar_key_inject)

lemma keyed_lookup:
  assumes "distinct (map fst files)"
  shows "map_of (keyed_records files) (sidecar_key f s n) = Option.bind (map_of files f) (find_record s n)"
  using assms
proof (induction files)
  case (Cons x files)
  obtain g lines where x: "x = (g, lines)" by (cases x)
  have "map_of files g = None" using Cons.prems x by (simp add: map_of_eq_None_iff)
  then show ?case using Cons x
    by (cases "find_record s n lines") (auto simp: keyed_records_def map_add_def map_of_lines split: option.splits)
qed (simp add: keyed_records_def)

section \<open>Replaying depends on the records of published sequences only\<close>

lemma fold_r_cong_set:
  "(\<And>s x. x \<in> set xs \<Longrightarrow> f s x = g s x) \<Longrightarrow> fold_r f s xs = fold_r g s xs"
  by (induction xs arbitrary: s) (auto split: sum.splits)

definition same_records :: "int set \<Rightarrow> (string \<times> sidecar_record) list \<Rightarrow> (string \<times> sidecar_record) list \<Rightarrow> bool" where
  "same_records S keyed keyed' \<longleftrightarrow>
     (\<forall>f n. \<forall>s\<in>S. map_of keyed (sidecar_key f s n) = map_of keyed' (sidecar_key f s n))"

lemma same_recordsD: "same_records S keyed keyed' \<Longrightarrow> s \<in> S \<Longrightarrow> map_of keyed' (sidecar_key f s n) = map_of keyed (sidecar_key f s n)"
  by (simp add: same_records_def)

lemma latest_bases_same:
  assumes "same_records (mm_seq ` set ms) keyed keyed'"
  shows "latest_bases keyed' ms = latest_bases keyed ms"
proof -
  have "note_base keyed' sw bases = note_base keyed sw bases" if "sw \<in> set (all_operations ms)" for sw bases
  proof -
    obtain s w where sw: "sw = (s, w)" by (cases sw)
    then have "s \<in> mm_seq ` set ms" using that by (auto simp: all_operations_def)
    then show ?thesis using same_recordsD [OF assms, of s] sw by (simp add: note_base_def split: option.split)
  qed
  then show ?thesis unfolding latest_bases_def by (intro fold_cong) (auto simp: fun_eq_iff)
qed

lemma replay_operation_same:
  assumes "same_records S (rc_keyed rc) keyed'" "s \<in> S"
  shows "replay_operation (rc\<lparr>rc_keyed := keyed'\<rparr>) st s conf w = replay_operation rc st s conf w"
  using same_recordsD [OF assms]
  by (cases w) (simp_all add: replay_operation_def replay_task_sidecar_def replay_document_def Let_def)

lemma replay_markers_same:
  assumes "same_records (mm_seq ` set ms) (keyed_records files) (keyed_records files')"
  shows "replay_markers (replay_context_of files' ms) ms = replay_markers (replay_context_of files ms) ms"
proof -
  let ?rc = "replay_context_of files ms"
  have rc': "replay_context_of files' ms = ?rc\<lparr>rc_keyed := keyed_records files'\<rparr>"
    using latest_bases_same [OF assms] by (simp add: replay_context_of_def)
  have "same_records (mm_seq ` set ms) (rc_keyed ?rc) (keyed_records files')" using assms by (simp add: replay_context_of_def)
  then have "replay_marker (?rc\<lparr>rc_keyed := keyed_records files'\<rparr>) cs m = replay_marker ?rc cs m" if "m \<in> set ms" for cs m
    using that by (simp add: replay_marker_def replay_operation_same)
  then show ?thesis unfolding rc' replay_markers_def by (intro fold_r_cong_set) simp
qed

section \<open>Confirmed records have published sequences\<close>

definition keys_of :: "int set \<Rightarrow> string set" where
  "keys_of S = {sidecar_key f s n | f s n. s \<in> S}"

lemma keys_ofI: "s \<in> S \<Longrightarrow> sidecar_key f s n \<in> keys_of S"
  by (auto simp: keys_of_def)

lemma replay_operation_confirms:
  "replay_operation rc st s conf w = Inr (conf', ws) \<Longrightarrow> s \<in> S \<Longrightarrow> set conf \<subseteq> keys_of S \<Longrightarrow> set conf' \<subseteq> keys_of S"
  by (cases w) (auto simp: replay_operation_def replay_task_sidecar_def replay_document_def Let_def
      intro: keys_ofI split: if_splits option.splits)

lemma fold_r_keeps:
  assumes "\<And>s x s'. x \<in> set xs \<Longrightarrow> P s \<Longrightarrow> f s x = Inr s' \<Longrightarrow> P s'"
  shows "P s \<Longrightarrow> fold_r f s xs = Inr s' \<Longrightarrow> P s'"
  using assms
proof (induction xs arbitrary: s)
  case (Cons x xs)
  then obtain m where "f s x = Inr m" "fold_r f m xs = Inr s'" by (auto split: sum.splits)
  then show ?case using Cons by (metis list.set_intros)
qed simp

lemma replay_markers_confirms:
  assumes "replay_markers rc ms = Inr (conf, s)"
  shows "set conf \<subseteq> keys_of (mm_seq ` set ms)"
proof -
  let ?P = "\<lambda>cs :: string list \<times> storage. set (fst cs) \<subseteq> keys_of (mm_seq ` set ms)"
  have step: "?P cs'" if m: "m \<in> set ms" and cs: "?P cs" and step: "replay_marker rc cs m = Inr cs'" for cs cs' m
  proof -
    obtain c st where cs': "cs = (c, st)" by (cases cs)
    let ?run = "fold_r (\<lambda>(conf, ws) w. bind_r (replay_operation rc st (mm_seq m) conf w) (\<lambda>(conf', ws'). Inr (conf', ws @ ws')))
          (c, []) (mm_writes m)"
    obtain c' ws where run: "?run = Inr (c', ws)" and restored: "(case restore st ws (mm_seq m) of
          (s', Inl _) \<Rightarrow> Inl Corruption | (s', Inr _) \<Rightarrow> Inr (c', s')) = Inr cs'"
      using step by (auto simp: replay_marker_def cs')
    have "fst cs' = c'" using restored by (auto split: prod.splits sum.splits)
    have c: "set c \<subseteq> keys_of (mm_seq ` set ms)" using cs cs' by simp
    have one: "set (fst b) \<subseteq> keys_of (mm_seq ` set ms)"
      if "set (fst a) \<subseteq> keys_of (mm_seq ` set ms)"
        and "(case a of (conf, ws) \<Rightarrow> \<lambda>w. bind_r (replay_operation rc st (mm_seq m) conf w) (\<lambda>(conf', ws'). Inr (conf', ws @ ws'))) w = Inr b"
      for a b :: "string list \<times> storage_write list" and w
      using that replay_operation_confirms [of rc st "mm_seq m" "fst a" w _ _ "mm_seq ` set ms"] m
      by (cases a) auto
    have "set (fst (c', ws)) \<subseteq> keys_of (mm_seq ` set ms)"
      by (rule fold_r_keeps [OF one _ run]) (simp_all add: c)
    then show ?thesis using \<open>fst cs' = c'\<close> by simp
  qed
  have "?P (conf, s)"
    by (rule fold_r_keeps [where P = ?P, OF step _ assms [unfolded replay_markers_def]]) simp_all
  then show ?thesis by simp
qed

lemma check_markers_bound:
  "check_markers p ms \<Longrightarrow> \<forall>m\<in>set ms. p < mm_seq m \<and> mm_seq m \<le> last_marker_seq ms"
proof (induction p ms rule: check_markers.induct)
  case (2 p m ms)
  then show ?case by (cases ms) (fastforce simp: last_marker_seq_def split: if_splits)+
qed simp

section \<open>Tails\<close>

lemma check_tail_extended:
  assumes "check_tail conf p (f, lines) = Inr y"
    and "\<forall>(r, _)\<in>set new. \<not> is_confirmed conf f r \<and> p < sr_seq r"
  shows "\<exists>z. check_tail conf p (f, lines @ new) = Inr z"
proof -
  let ?C = "\<lambda>(r :: sidecar_record, _ :: nat). is_confirmed conf f r"
  show ?thesis
  proof (cases "\<forall>x\<in>set lines. ?C x")
    case True
    then have dr: "dropWhile ?C (lines @ new) = dropWhile ?C new" by (intro dropWhile_append2) auto
    have "dropWhile ?C new = new" using assms(2) by (cases new) auto
    then show ?thesis using assms(2) unfolding check_tail_def Let_def prod.case dr
      by (cases new) (force split: prod.split)+
  next
    case False
    then obtain x where x: "x \<in> set lines" "\<not> ?C x" by blast
    then have dr: "dropWhile ?C (lines @ new) = dropWhile ?C lines @ new" by (rule dropWhile_append1)
    have "dropWhile ?C lines \<noteq> []" using x by (auto simp: dropWhile_eq_Nil_conv)
    then obtain u later where tl: "dropWhile ?C lines = u # later" by (cases "dropWhile ?C lines") auto
    have "\<not> (\<exists>(r, _)\<in>set later. is_confirmed conf f r)" "\<not> (\<exists>(r, _)\<in>set (u # later). sr_seq r \<le> p)"
      using assms(1) tl by (auto simp: check_tail_def split: prod.splits if_splits)
    then show ?thesis using assms(2) unfolding check_tail_def Let_def prod.case dr tl
      by (cases u) force
  qed
qed

lemma settle_files_ok:
  "(\<exists>d' plan. settle_files to_chars rc conf p files d = Inr (d', plan)) \<longleftrightarrow> (\<forall>x\<in>set files. \<exists>y. check_tail conf p x = Inr y)"
proof (induction files arbitrary: d)
  case (Cons x files)
  obtain f lines where x: "x = (f, lines)" by (cases x)
  show ?case unfolding x
    using Cons.IH by (cases "check_tail conf p (f, lines)") (fastforce split: prod.splits)+
qed simp

section \<open>What a recovery reads\<close>

definition lines_of :: "directory \<Rightarrow> string \<Rightarrow> (encoding_error, (string \<times> nat) list) result" where
  "lines_of d f = snd (read_complete_lines (file_bytes d f))"

definition records_of ::
    "(dbl \<Rightarrow> int) \<Rightarrow> (rat \<Rightarrow> dbl option) \<Rightarrow> directory \<Rightarrow> string \<Rightarrow> (encoding_error, parsed_file) result" where
  "records_of undefined_cast round_double d f = bind_r (lines_of d f) (parse_sidecar_file undefined_cast round_double)"

definition markers_of ::
    "(dbl \<Rightarrow> int) \<Rightarrow> (rat \<Rightarrow> dbl option) \<Rightarrow> directory \<Rightarrow> (encoding_error, main_marker list) result" where
  "markers_of undefined_cast round_double d =
     bind_r (lines_of d main_file) (\<lambda>ls.
     bind_r (map_r (\<lambda>l. parse_main_marker undefined_cast round_double (fst l)) ls) (\<lambda>ms.
     if check_markers 0 ms then Inr ms else Inl Corruption))"

lemma file_bytes_put: "file_bytes (put_file d f b) g = (if g = f then b else file_bytes d g)"
  by (simp add: file_bytes_def put_file_def find_insert_or_assign)

lemma read_complete_lines_Nil [simp]: "read_complete_lines [] = ([], Inr [])"
  by (simp add: read_complete_lines_def)

lemma read_file_lines_eq: "\<exists>d'. read_file_lines d f = (d', lines_of d f) \<and> map fst d' = map fst d \<and> (\<forall>g. g \<noteq> f \<longrightarrow> file_bytes d' g = file_bytes d g)"
proof (cases "find_member d f")
  case (Some b)
  obtain kept ls where r: "read_complete_lines b = (kept, ls)" by (cases "read_complete_lines b")
  have "f \<in> fst ` set d" using Some by (metis find_member_None option.distinct(1))
  then have "map fst (put_file d f kept) = map fst d" by (simp add: put_file_def keys_insert_or_assign)
  then show ?thesis using Some r
    by (intro exI [of _ "put_file d f kept"]) (simp add: read_file_lines_def lines_of_def file_bytes_def file_bytes_put [unfolded file_bytes_def])
qed (simp add: read_file_lines_def lines_of_def file_bytes_def)

lemma lines_of_cong: "file_bytes d' f = file_bytes d f \<Longrightarrow> lines_of d' f = lines_of d f"
  by (simp add: lines_of_def)

lemma read_sidecars_eq:
  assumes "distinct fs" "\<forall>f\<in>set fs. file_bytes d f = file_bytes d0 f"
  shows "(\<exists>d'. read_sidecars undefined_cast round_double fs d = Inr (d', files)) \<longleftrightarrow>
     map fst files = fs \<and> (\<forall>(f, lines)\<in>set files. records_of undefined_cast round_double d0 f = Inr lines)"
  using assms
proof (induction fs arbitrary: d files)
  case (Cons f fs)
  obtain d1 where d1: "read_file_lines d f = (d1, lines_of d f)" "\<forall>g. g \<noteq> f \<longrightarrow> file_bytes d1 g = file_bytes d g"
    using read_file_lines_eq by blast
  have "lines_of d f = lines_of d0 f" using Cons.prems(2) by (intro lines_of_cong) simp
  then have rec: "bind_r (lines_of d f) (parse_sidecar_file undefined_cast round_double) = records_of undefined_cast round_double d0 f"
    by (simp add: records_of_def)
  have "\<forall>g\<in>set fs. file_bytes d1 g = file_bytes d0 g" using Cons.prems d1(2) by fastforce
  then have IH: "(\<exists>d'. read_sidecars undefined_cast round_double fs d1 = Inr (d', rest)) \<longleftrightarrow>
      map fst rest = fs \<and> (\<forall>(f, lines)\<in>set rest. records_of undefined_cast round_double d0 f = Inr lines)" for rest
    using Cons.IH Cons.prems(1) by simp
  have "(\<exists>d'. read_sidecars undefined_cast round_double (f # fs) d = Inr (d', files)) \<longleftrightarrow>
      (\<exists>lines rest d'. files = (f, lines) # rest \<and> records_of undefined_cast round_double d0 f = Inr lines \<and>
         read_sidecars undefined_cast round_double fs d1 = Inr (d', rest))"
    by (auto simp: d1(1) rec)
  then show ?case using IH by (cases files) (auto simp: case_prod_beta)
qed auto

lemma file_bytes_remove_scratch: "is_sidecar_file f \<Longrightarrow> file_bytes (remove_scratch d) f = file_bytes d f"
proof -
  assume "is_sidecar_file f"
  then have "task_id_from_file f \<noteq> None \<or> \<not> is_reclaim_file f" by (auto simp: is_sidecar_file_def)
  then have "find_member (remove_scratch d) f = find_member d f"
    by (induction d) (auto simp: remove_scratch_def split: if_splits)
  then show ?thesis by (simp add: file_bytes_def)
qed

lemma reclaim_one_state [simp]: "jl_state (reclaim_one j repl) = jl_state j"
  by (auto simp: reclaim_one_def Let_def split: prod.splits io_outcome.splits)

lemma reclaim_sidecars_state [simp]: "jl_state (reclaim_sidecars fsync repls j) = jl_state j"
proof -
  have "jl_state (foldl reclaim_one j repls) = jl_state j" for j by (induction repls arbitrary: j) simp_all
  then show ?thesis by (simp add: reclaim_sidecars_def Let_def split: prod.splits)
qed

text \<open>The directories that recover to a state.\<close>

definition recovers_to ::
    "(dbl \<Rightarrow> int) \<Rightarrow> (rat \<Rightarrow> dbl option) \<Rightarrow> directory \<Rightarrow> main_marker list \<Rightarrow> (string \<times> parsed_file) list \<Rightarrow> string list \<Rightarrow> storage \<Rightarrow> bool" where
  "recovers_to undefined_cast round_double d ms files conf s \<longleftrightarrow>
     markers_of undefined_cast round_double d = Inr ms \<and> map fst files = sidecar_files d \<and>
     (\<forall>(f, lines)\<in>set files. records_of undefined_cast round_double d f = Inr lines) \<and>
     replay_markers (replay_context_of files ms) ms = Inr (conf, s) \<and>
     (\<forall>x\<in>set files. \<exists>y. check_tail conf (last_marker_seq ms) x = Inr y)"

lemma sidecar_files_set: "set (sidecar_files d) = {f \<in> fst ` set d. is_sidecar_file f}"
  by (auto simp: sidecar_files_def)

lemma main_no_sidecar: "\<not> is_sidecar_file main_file"
  by code_simp

lemma recover_state:
  assumes "unique_keys d"
  shows "(\<exists>j. recover to_chars undefined_cast round_double fsync d = Inr j \<and> jl_state j = s) \<longleftrightarrow>
     (\<exists>ms files conf. recovers_to undefined_cast round_double d ms files conf s)"
proof -
  obtain d1 where d1: "read_file_lines d main_file = (d1, lines_of d main_file)" "map fst d1 = map fst d"
      "\<forall>g. g \<noteq> main_file \<longrightarrow> file_bytes d1 g = file_bytes d g" using read_file_lines_eq by blast
  have mk: "read_markers undefined_cast round_double d = (d1, markers_of undefined_cast round_double d)"
    by (simp add: read_markers_def d1(1) markers_of_def)
  have fs: "sidecar_files d1 = sidecar_files d" by (simp add: sidecar_files_def d1(2))
  have dist: "distinct (sidecar_files d)" using assms by (simp add: sidecar_files_def unique_keys_def)
  have "\<forall>f\<in>set (sidecar_files d). file_bytes (remove_scratch d1) f = file_bytes d f"
  proof
    fix f
    assume "f \<in> set (sidecar_files d)"
    then have f: "is_sidecar_file f" by (simp add: sidecar_files_set)
    then have "f \<noteq> main_file" using main_no_sidecar by blast
    then show "file_bytes (remove_scratch d1) f = file_bytes d f" using d1(3) f by (simp add: file_bytes_remove_scratch)
  qed
  note read = read_sidecars_eq [OF dist this, of undefined_cast round_double]
  have "(\<exists>j. recover to_chars undefined_cast round_double fsync d = Inr j \<and> jl_state j = s) \<longleftrightarrow>
      (\<exists>ms files conf. markers_of undefined_cast round_double d = Inr ms \<and>
         (\<exists>d2. read_sidecars undefined_cast round_double (sidecar_files d) (remove_scratch d1) = Inr (d2, files) \<and>
           replay_markers (replay_context_of files ms) ms = Inr (conf, s) \<and>
           (\<exists>d3 plan. settle_files to_chars (replay_context_of files ms) conf (last_marker_seq ms) files d2 = Inr (d3, plan))))"
    by (fastforce simp: recover_def mk fs)
  then show ?thesis unfolding settle_files_ok recovers_to_def using read by auto
qed

end
