(* ===== verification/Jsonl_Crash.thy ===== *)
theory Jsonl_Crash
  imports Jsonl_Recovery_Laws
begin

text \<open>
  A commit that fails: the bytes it wrote before its marker was complete do not change what the
  directory recovers to.
\<close>

section \<open>Records of an extended file\<close>

definition earlier_record :: "sidecar_record \<Rightarrow> sidecar_record \<Rightarrow> bool" where
  "earlier_record r r' \<longleftrightarrow> sr_seq r < sr_seq r' \<or> sr_seq r = sr_seq r' \<and> sr_ordinal r < sr_ordinal r'"

lemma records_in_order_sorted: "records_in_order rs \<longleftrightarrow> sorted_wrt earlier_record rs"
proof (induction rs rule: records_in_order.induct)
  case (1 r r' rs)
  have "transp earlier_record" by (auto simp: transp_def earlier_record_def)
  then have "sorted_wrt earlier_record (r # r' # rs) \<longleftrightarrow> earlier_record r r' \<and> sorted_wrt earlier_record (r' # rs)"
    by (rule sorted_wrt2)
  moreover have "\<not> (sr_seq r' < sr_seq r \<or> sr_seq r' = sr_seq r \<and> sr_ordinal r' \<le> sr_ordinal r) \<longleftrightarrow> earlier_record r r'"
    by (auto simp: earlier_record_def)
  ultimately show ?case using 1 by (metis records_in_order.simps(1))
qed simp_all

lemma map_r_append: "map_r f (xs @ ys) = bind_r (map_r f xs) (\<lambda>us. bind_r (map_r f ys) (\<lambda>vs. Inr (us @ vs)))"
proof (induction xs)
  case Nil
  then show ?case by (cases "map_r f ys") simp_all
next
  case (Cons x xs)
  then show ?case by (cases "f x"; cases "map_r f xs"; cases "map_r f ys") simp_all
qed

definition storable_line :: "(dbl \<Rightarrow> string) \<Rightarrow> (rat \<Rightarrow> dbl option) \<Rightarrow> sidecar_record \<Rightarrow> bool" where
  "storable_line to_chars round_double r \<longleftrightarrow>
     storable_record to_chars round_double r \<and> valid_utf8_bytes (map uchar (sidecar_line to_chars r))"

text \<open>The lines of one commit in one file: its sequence, and increasing ordinals.\<close>

definition commit_lines :: "(dbl \<Rightarrow> string) \<Rightarrow> (rat \<Rightarrow> dbl option) \<Rightarrow> int \<Rightarrow> sidecar_record list \<Rightarrow> bool" where
  "commit_lines to_chars round_double seq rs \<longleftrightarrow>
     sorted_wrt (<) (map sr_ordinal rs) \<and> (\<forall>r\<in>set rs. sr_seq r = seq \<and> storable_line to_chars round_double r)"

definition unpublished :: "(dbl \<Rightarrow> string) \<Rightarrow> (rat \<Rightarrow> dbl option) \<Rightarrow> int \<Rightarrow> string \<Rightarrow> string \<Rightarrow> bool" where
  "unpublished to_chars round_double seq b b' \<longleftrightarrow>
     (\<exists>rs torn. b' = b @ lines_text (map (sidecar_line to_chars) rs) @ torn \<and> line_feed \<notin> set torn \<and>
        commit_lines to_chars round_double seq rs)"

lemma stored_record_order [simp]: "sr_seq (stored_record r) = sr_seq r" "sr_ordinal (stored_record r) = sr_ordinal r"
  by (simp_all add: stored_record_def)

lemma sidecar_line_no_feed: "scientific_output to_chars \<Longrightarrow> line_feed \<notin> set (sidecar_line to_chars r)"
  by (simp add: sidecar_line_def write_json_no_feed)

lemma parse_written_lines:
  assumes "map fst ps = map (sidecar_line to_chars) rs" "\<forall>r\<in>set rs. storable_record to_chars round_double r"
  shows "map_r (\<lambda>(l, start). bind_r (parse_sidecar undefined_cast round_double l) (\<lambda>r. Inr (r, start))) ps =
     Inr (zip (map stored_record rs) (map snd ps))"
  using assms
proof (induction ps arbitrary: rs)
  case (Cons p ps)
  then obtain r rs' where "rs = r # rs'" by (cases rs) auto
  then show ?case using Cons parse_sidecar_line [of to_chars round_double r undefined_cast] by (cases p) auto
qed simp

lemma records_extended:
  assumes sci: "scientific_output to_chars"
    and b: "complete_text (file_bytes d f)" and un: "unpublished to_chars round_double seq (file_bytes d f) (file_bytes d' f)"
    and old: "records_of undefined_cast round_double d f = Inr lines" "\<forall>(r, _)\<in>set lines. sr_seq r < seq"
  shows "\<exists>new. records_of undefined_cast round_double d' f = Inr (lines @ new) \<and> (\<forall>(r, _)\<in>set new. sr_seq r = seq)"
proof -
  let ?b = "file_bytes d f"
  let ?parse = "map_r (\<lambda>(l, start). bind_r (parse_sidecar undefined_cast round_double l) (\<lambda>r. Inr (r, start)))"
  obtain rs torn where rs: "file_bytes d' f = ?b @ lines_text (map (sidecar_line to_chars) rs) @ torn" "line_feed \<notin> set torn"
      "sorted_wrt (<) (map sr_ordinal rs)" "\<forall>r\<in>set rs. sr_seq r = seq \<and> storable_line to_chars round_double r"
    using un unfolding unpublished_def commit_lines_def by blast
  let ?text = "lines_text (map (sidecar_line to_chars) rs)"
  have "read_complete_lines (?b @ []) = (?b, split_complete_lines 0 ?b)"
    by (rule read_complete_lines_torn) (simp_all add: b)
  then obtain ls where ls: "split_complete_lines 0 ?b = Inr ls" "parse_sidecar_file undefined_cast round_double ls = Inr lines"
    using old(1) by (auto simp: records_of_def lines_of_def)
  obtain ps where ps: "split_complete_lines (length ?b) ?text = Inr ps" "map fst ps = map (sidecar_line to_chars) rs"
    using split_lines_text [of "map (sidecar_line to_chars) rs" "length ?b"] rs(4) sidecar_line_no_feed [OF sci]
    by (auto simp: storable_line_def)
  define new where "new = zip (map stored_record rs) (map snd ps)"
  have len: "length ps = length rs" using ps(2) by (metis length_map)
  then have news: "map fst new = map stored_record rs" by (simp add: new_def)
  have "read_complete_lines ((?b @ ?text) @ torn) = (?b @ ?text, split_complete_lines 0 (?b @ ?text))"
    using rs(2) b complete_lines_text complete_text_append by (intro read_complete_lines_torn) blast+
  then have "lines_of d' f = Inr (ls @ ps)"
    using ls(1) ps(1) split_lines_append [OF b, of 0 ?text] by (simp add: lines_of_def rs(1))
  moreover have "?parse ps = Inr new"
    using parse_written_lines [OF ps(2)] rs(4) by (auto simp: new_def storable_line_def)
  moreover have parsed: "?parse ls = Inr lines" "sorted_wrt earlier_record (map fst lines)"
    using ls(2) by (auto simp: parse_sidecar_file_def records_in_order_sorted split: if_splits)
  moreover have "sorted_wrt earlier_record (map fst (lines @ new))"
  proof -
    have "sorted_wrt (\<lambda>r r'. sr_ordinal r < sr_ordinal r') rs" using rs(3) by (simp add: sorted_wrt_map)
    then have "sorted_wrt (\<lambda>r r'. earlier_record (stored_record r) (stored_record r')) rs"
      by (rule sorted_wrt_mono_rel [rotated]) (use rs(4) in \<open>simp add: earlier_record_def\<close>)
    then have "sorted_wrt earlier_record (map fst new)" by (simp add: news sorted_wrt_map)
    moreover have "earlier_record r r'" if "r \<in> fst ` set lines" "r' \<in> set (map fst new)" for r r'
      using that old(2) rs(4) unfolding news by (fastforce simp: earlier_record_def)
    ultimately show ?thesis using parsed(2) by (auto simp: sorted_wrt_append)
  qed
  ultimately have "records_of undefined_cast round_double d' f = Inr (lines @ new)"
    by (simp add: records_of_def parse_sidecar_file_def map_r_append records_in_order_sorted)
  moreover have "\<forall>r\<in>set (map fst new). sr_seq r = seq" unfolding news using rs(4) by auto
  ultimately show ?thesis by (intro exI [of _ new]) auto
qed

section \<open>Recovery after an unfinished commit\<close>

text \<open>A directory between commits: whole lines, and only sequences below the next one.\<close>

definition settled :: "(dbl \<Rightarrow> int) \<Rightarrow> (rat \<Rightarrow> dbl option) \<Rightarrow> int \<Rightarrow> directory \<Rightarrow> bool" where
  "settled undefined_cast round_double seq d \<longleftrightarrow>
     unique_keys d \<and> (\<forall>f. f = main_file \<or> is_sidecar_file f \<or> (\<exists>i. f = document_file i) \<longrightarrow> complete_text (file_bytes d f)) \<and>
     (\<forall>ms. markers_of undefined_cast round_double d = Inr ms \<longrightarrow> last_marker_seq ms < seq) \<and>
     (\<forall>f lines. is_sidecar_file f \<longrightarrow> records_of undefined_cast round_double d f = Inr lines \<longrightarrow> (\<forall>(r, _)\<in>set lines. sr_seq r < seq))"

definition unfinished_commit :: "(dbl \<Rightarrow> string) \<Rightarrow> (rat \<Rightarrow> dbl option) \<Rightarrow> int \<Rightarrow> directory \<Rightarrow> directory \<Rightarrow> bool" where
  "unfinished_commit to_chars round_double seq d d' \<longleftrightarrow>
     unique_keys d' \<and> fst ` set d \<subseteq> fst ` set d' \<and>
     (\<exists>torn. file_bytes d' main_file = file_bytes d main_file @ torn \<and> line_feed \<notin> set torn) \<and>
     (\<forall>f. is_sidecar_file f \<longrightarrow> unpublished to_chars round_double seq (file_bytes d f) (file_bytes d' f))"

lemma markers_unfinished:
  assumes "settled undefined_cast round_double seq d" "unfinished_commit to_chars round_double seq d d'"
  shows "markers_of undefined_cast round_double d' = markers_of undefined_cast round_double d"
proof -
  have "complete_text (file_bytes d main_file)" using assms(1) by (simp add: settled_def)
  then have "lines_of d' main_file = lines_of d main_file"
    using assms(2) read_complete_lines_torn [of "file_bytes d main_file"] read_complete_lines_torn [of "file_bytes d main_file" "[]"]
    by (auto simp: unfinished_commit_def lines_of_def)
  then show ?thesis by (simp add: markers_of_def)
qed

lemma records_missing: "find_member d f = None \<Longrightarrow> records_of undefined_cast round_double d f = Inr []"
  by (simp add: records_of_def lines_of_def file_bytes_def parse_sidecar_file_def)

lemma find_record_new: "\<forall>(r, _)\<in>set new. sr_seq r \<noteq> s \<Longrightarrow> find_record s n (lines @ new) = find_record s n lines"
proof -
  assume new: "\<forall>(r, _)\<in>set new. sr_seq r \<noteq> s"
  have "List.find P (lines @ new) = List.find P lines" if "\<forall>x\<in>set new. \<not> P x" for P :: "sidecar_record \<times> nat \<Rightarrow> bool"
    using that by (induction lines) (auto simp: find_None_iff)
  moreover have "\<forall>x\<in>set new. \<not> (case x of (r, _) \<Rightarrow> sr_seq r = s \<and> sr_ordinal r = n)" using new by auto
  ultimately have "List.find (\<lambda>(r, _). sr_seq r = s \<and> sr_ordinal r = n) (lines @ new) = List.find (\<lambda>(r, _). sr_seq r = s \<and> sr_ordinal r = n) lines"
    by (rule meta_mp)
  then show ?thesis by (simp only: find_record_def)
qed

lemma unfinished_commit_recovers:
  assumes sci: "scientific_output to_chars" and d: "settled undefined_cast round_double seq d"
    and d': "unfinished_commit to_chars round_double seq d d'"
    and rec: "recovers_to undefined_cast round_double d ms files conf s"
  shows "\<exists>files'. recovers_to undefined_cast round_double d' ms files' conf s"
proof -
  note rec = rec [unfolded recovers_to_def]
  define old where "old f = (case map_of files f of None \<Rightarrow> [] | Some lines \<Rightarrow> lines)" for f
  have dist: "distinct (map fst files)" using rec d by (simp add: sidecar_files_def settled_def unique_keys_def)
  have old: "records_of undefined_cast round_double d f = Inr (old f)" if f: "is_sidecar_file f" for f
  proof (cases "map_of files f")
    case None
    then have "f \<notin> set (map fst files)" by (simp add: map_of_eq_None_iff)
    then have "f \<notin> fst ` set d" using rec f by (simp add: sidecar_files_set)
    then show ?thesis using None by (simp add: old_def records_missing find_member_None)
  next
    case (Some lines)
    then have "(f, lines) \<in> set files" by (rule map_of_SomeD)
    then show ?thesis using Some rec by (auto simp: old_def)
  qed
  have "\<exists>new. records_of undefined_cast round_double d' f = Inr (old f @ new) \<and> (\<forall>(r, _)\<in>set new. sr_seq r = seq)"
    if f: "is_sidecar_file f" for f
    using records_extended [OF sci _ _ old [OF f]] d d' old [OF f] f by (auto simp: settled_def unfinished_commit_def)
  then obtain new where new: "is_sidecar_file f \<Longrightarrow> records_of undefined_cast round_double d' f = Inr (old f @ new f)"
      "is_sidecar_file f \<Longrightarrow> \<forall>(r, _)\<in>set (new f). sr_seq r = seq" for f by metis
  define files' where "files' = map (\<lambda>f. (f, old f @ new f)) (sidecar_files d')"
  have side: "is_sidecar_file f" if "f \<in> set (sidecar_files d')" for f using that by (simp add: sidecar_files_set)
  have names: "map fst files' = sidecar_files d'" by (simp add: files'_def comp_def)
  have dist': "distinct (map fst files')" unfolding names using d' by (simp add: sidecar_files_def unfinished_commit_def unique_keys_def)
  have last: "last_marker_seq ms < seq" using rec d by (simp add: settled_def)
  have "check_markers 0 ms" using rec by (auto simp: markers_of_def split: if_splits)
  then have seqs: "\<forall>m\<in>set ms. mm_seq m < seq" using check_markers_bound last by fastforce
  have "same_records (mm_seq ` set ms) (keyed_records files) (keyed_records files')"
    unfolding same_records_def
  proof (intro allI ballI)
    fix f n t
    assume "t \<in> mm_seq ` set ms"
    then have t: "t \<noteq> seq" using seqs by auto
    have "Option.bind (map_of files' f) (find_record t n) = Option.bind (map_of files f) (find_record t n)"
    proof (cases "f \<in> set (sidecar_files d')")
      case True
      have "map_of files' f = Some (old f @ new f)"
        using True dist' by (intro map_of_is_SomeI) (auto simp: files'_def)
      moreover have "find_record t n (old f @ new f) = find_record t n (old f)"
        using new(2) [OF side [OF True]] t by (intro find_record_new) fastforce
      ultimately show ?thesis by (cases "map_of files f") (simp_all add: old_def find_record_def)
    next
      case False
      then have "map_of files' f = None" by (simp add: map_of_eq_None_iff files'_def image_image)
      moreover have "f \<notin> set (map fst files)"
        using False rec d' unfolding sidecar_files_set unfinished_commit_def by (metis (mono_tags, lifting) mem_Collect_eq sidecar_files_set subset_iff)
      then have "map_of files f = None" by (simp add: map_of_eq_None_iff)
      ultimately show ?thesis by simp
    qed
    then show "map_of (keyed_records files) (sidecar_key f t n) = map_of (keyed_records files') (sidecar_key f t n)"
      by (simp add: keyed_lookup dist dist')
  qed
  then have replay: "replay_markers (replay_context_of files' ms) ms = Inr (conf, s)" using rec replay_markers_same by simp
  have conf: "set conf \<subseteq> keys_of (mm_seq ` set ms)" using replay_markers_confirms [OF replay] .
  have tails: "\<exists>y. check_tail conf (last_marker_seq ms) x = Inr y" if "x \<in> set files'" for x
  proof -
    obtain f where f: "x = (f, old f @ new f)" "is_sidecar_file f" using \<open>x \<in> set files'\<close> side by (auto simp: files'_def)
    have "\<exists>y. check_tail conf (last_marker_seq ms) (f, old f) = Inr y"
    proof (cases "map_of files f")
      case (Some lines)
      then show ?thesis using rec map_of_SomeD [OF Some] by (auto simp: old_def)
    qed (simp add: old_def check_tail_def)
    moreover have "\<not> is_confirmed conf f r \<and> last_marker_seq ms < sr_seq r" if "(r, k) \<in> set (new f)" for r k
    proof -
      have "sr_seq r = seq" using new(2) [OF f(2)] that by auto
      moreover have "sidecar_key f seq (sr_ordinal r) \<notin> keys_of (mm_seq ` set ms)"
        using seqs by (auto simp: keys_of_def sidecar_key_inject)
      ultimately show ?thesis using conf last by (auto simp: is_confirmed_def)
    qed
    ultimately show ?thesis unfolding f(1) using check_tail_extended [of conf "last_marker_seq ms" f "old f" _ "new f"] by blast
  qed
  have "recovers_to undefined_cast round_double d' ms files' conf s"
    unfolding recovers_to_def names
    using markers_unfinished [OF d d'] rec replay tails new(1) side by (auto simp: files'_def)
  then show ?thesis by blast
qed

section \<open>The records a commit writes\<close>

text \<open>The record a write adds, with its file, and the records of a batch in order.\<close>

definition added_payload ::
    "(dbl \<Rightarrow> int) \<Rightarrow> (rat \<Rightarrow> dbl option) \<Rightarrow> directory \<Rightarrow> storage_write \<Rightarrow> (string \<times> sidecar_payload) option" where
  "added_payload undefined_cast round_double d w =
     (if sw_type w = ''task''
      then Option.bind (sw_task w) (\<lambda>t. if ts_status (tk_state t) = ''terminal'' then None else Some (task_file (tk_id t), task_payload t))
      else if sw_type w = ''document.create''
      then Option.bind (sw_document_record w) (\<lambda>r. map_option (\<lambda>v.
             (document_file (dr_id r), document_payload (dr_id r) True (sw_document_version w) v [])) (sw_document_value w))
      else if sw_type w = ''document.copy''
      then Option.bind (sw_document_record w) (\<lambda>r. Option.bind (sw_copy_source w) (\<lambda>source.
             map_option (\<lambda>(version, v). (document_file (dr_id r), document_payload (dr_id r) True version v []))
               (Option.bind (snd (load_sidecar_records undefined_cast round_double d (document_file (cs_id source))))
                  (copied_content source (document_is_current_only r)))))
      else if sw_type w = ''document.change''
      then map_option (\<lambda>i. (document_file i, document_payload i (sw_document_ops w = []) (sw_document_version w)
             (case sw_document_value w of None \<Rightarrow> JNull | Some j \<Rightarrow> j) (sw_document_ops w))) (sw_document_id w)
      else None)"

fun commit_records ::
    "(dbl \<Rightarrow> int) \<Rightarrow> (rat \<Rightarrow> dbl option) \<Rightarrow> int \<Rightarrow> directory \<Rightarrow> int \<Rightarrow> storage_write list \<Rightarrow> (string \<times> sidecar_record) list" where
  "commit_records undefined_cast round_double seq d n [] = []"
| "commit_records undefined_cast round_double seq d n (w # ws) =
     (case added_payload undefined_cast round_double d w of
        None \<Rightarrow> commit_records undefined_cast round_double seq d n ws
      | Some (f, p) \<Rightarrow>
          (f, \<lparr>sr_seq = seq, sr_ordinal = n, sr_payload = p\<rparr>) # commit_records undefined_cast round_double seq d (n + 1) ws)"

definition records_for :: "string \<Rightarrow> (string \<times> sidecar_record) list \<Rightarrow> sidecar_record list" where
  "records_for f recs = map snd (filter (\<lambda>x. fst x = f) recs)"

definition text_for :: "(dbl \<Rightarrow> string) \<Rightarrow> string \<Rightarrow> (string \<times> sidecar_record) list \<Rightarrow> string" where
  "text_for to_chars f recs = lines_text (map (sidecar_line to_chars) (records_for f recs))"

lemma commit_records_order:
  "sorted_wrt (<) (map (\<lambda>x. sr_ordinal (snd x)) (commit_records undefined_cast round_double seq d n ws)) \<and>
   (\<forall>x\<in>set (commit_records undefined_cast round_double seq d n ws). n \<le> sr_ordinal (snd x) \<and> sr_seq (snd x) = seq)"
  by (induction ws arbitrary: n) (auto split: option.splits, fastforce+)

lemma sorted_wrt_filter_map: "sorted_wrt P (map g xs) \<Longrightarrow> sorted_wrt P (map g (filter Q xs))"
  by (induction xs) auto

lemma commit_lines_records:
  assumes "\<forall>x\<in>set (commit_records undefined_cast round_double seq d n ws). storable_line to_chars round_double (snd x)"
  shows "commit_lines to_chars round_double seq (records_for f (commit_records undefined_cast round_double seq d n ws))"
  using assms commit_records_order [of undefined_cast round_double seq d n ws]
  by (auto simp: commit_lines_def records_for_def comp_def sorted_wrt_filter_map)

lemma main_no_document: "document_file i \<noteq> main_file" "task_file i \<noteq> main_file"
  by (simp_all add: document_file_def task_file_def main_file_def)

lemma commit_records_files:
  "(f, r) \<in> set (commit_records undefined_cast round_double seq d n ws) \<Longrightarrow> f \<noteq> main_file"
proof (induction ws arbitrary: n)
  case (Cons w ws)
  have "g \<noteq> main_file" if "added_payload undefined_cast round_double d w = Some (g, p)" for g p
    using that main_no_document
    by (auto simp: added_payload_def split: if_splits bind_splits)
  then show ?case using Cons by (auto split: option.splits)
qed simp

section \<open>The encoder writes these records\<close>

lemma map_of_assoc_put: "map_of (assoc_put k v xs) l = (if l = k then Some v else map_of xs l)"
proof -
  have "map_of (map (\<lambda>(l, w). if l = k then (l, v) else (l, w)) xs) l = (if l = k \<and> k \<in> fst ` set xs then Some v else map_of xs l)"
  proof (induction xs)
    case (Cons x xs)
    obtain k' w where "x = (k', w)" by (cases x)
    then show ?case using Cons by (cases "k' = k"; cases "l = k") simp_all
  qed simp
  moreover have "map_of xs k = None" if "k \<notin> fst ` set xs" using that by (simp add: map_of_eq_None_iff)
  ultimately show ?thesis by (cases "k \<in> fst ` set xs") (auto simp: assoc_put_def map_add_def split: option.splits)
qed

lemma assoc_put_keys:
  "fst ` set (assoc_put k v xs) = insert k (fst ` set xs)"
  "distinct (map fst xs) \<Longrightarrow> distinct (map fst (assoc_put k v xs))"
proof -
  have keys: "map fst (map (\<lambda>(l, w). if l = k then (l, v) else (l, w)) xs) = map fst xs" by (induction xs) auto
  have "fst ` set (map (\<lambda>(l, w). if l = k then (l, v) else (l, w)) xs) = fst ` set xs" using keys by (metis list.set_map)
  then show "fst ` set (assoc_put k v xs) = insert k (fst ` set xs)" by (auto simp: assoc_put_def)
  show "distinct (map fst xs) \<Longrightarrow> distinct (map fst (assoc_put k v xs))"
    by (auto simp: assoc_put_def keys rev_image_eqI simp del: map_map)
qed

definition encodes :: "(dbl \<Rightarrow> string) \<Rightarrow> (string \<times> sidecar_record) list \<Rightarrow> encode_state \<Rightarrow> bool" where
  "encodes to_chars recs st \<longleftrightarrow>
     distinct (map fst (ec_sidecars st)) \<and> fst ` set (ec_sidecars st) = fst ` set recs \<and>
     (\<forall>f. sidecar_text st f = text_for to_chars f recs)"

lemma add_sidecar_encodes:
  assumes "encodes to_chars recs st"
  shows "encodes to_chars (recs @ [(f, \<lparr>sr_seq = seq, sr_ordinal = ec_ordinal st, sr_payload = p\<rparr>)]) (add_sidecar to_chars seq f p st)"
  using assms
  by (auto simp: encodes_def add_sidecar_def assoc_put_keys sidecar_text_def map_of_assoc_put text_for_def records_for_def)

lemma sidecar_fields [simp]:
  "ec_ordinal (add_sidecar to_chars seq f p st) = ec_ordinal st + 1" "ec_files (add_sidecar to_chars seq f p st) = ec_files st"
  "ec_ordinal (add_main ob st) = ec_ordinal st" "ec_files (add_main ob st) = ec_files st"
  "ec_sidecars (add_main ob st) = ec_sidecars st"
  by (simp_all add: add_sidecar_def add_main_def Let_def)

lemma encodes_cong: "ec_sidecars st' = ec_sidecars st \<Longrightarrow> encodes to_chars recs st' \<longleftrightarrow> encodes to_chars recs st"
  by (simp add: encodes_def sidecar_text_def)

lemma load_unchanged:
  assumes "complete_text (file_bytes d f)"
  shows "fst (load_sidecar_records undefined_cast round_double d f) = d"
proof (cases "find_member d f")
  case (Some b)
  have "read_complete_lines (b @ []) = (b, split_complete_lines 0 b)"
    using assms Some by (intro read_complete_lines_torn) (simp_all add: file_bytes_def)
  moreover have "insert_or_assign d f b = d" using Some by (induction d) (auto split: if_splits)
  ultimately show ?thesis using Some by (simp add: load_sidecar_records_def read_file_lines_def put_file_def)
qed (simp add: load_sidecar_records_def read_file_lines_def)

text \<open>One write adds its record, or none.\<close>

definition adds :: "(dbl \<Rightarrow> string) \<Rightarrow> int \<Rightarrow> (string \<times> sidecar_payload) option \<Rightarrow> encode_state \<Rightarrow> encode_state \<Rightarrow> bool" where
  "adds to_chars seq added st st' \<longleftrightarrow>
     ec_files st' = ec_files st \<and>
     (case added of
        None \<Rightarrow> ec_sidecars st' = ec_sidecars st \<and> ec_ordinal st' = ec_ordinal st
      | Some (f, p) \<Rightarrow> ec_sidecars st' = ec_sidecars (add_sidecar to_chars seq f p st) \<and> ec_ordinal st' = ec_ordinal st + 1)"

lemma encode_write_adds:
  assumes "encode_write to_chars undefined_cast round_double seq st w = (ok, st')"
    and d: "\<And>i. complete_text (file_bytes (ec_files st) (document_file i))"
  shows "ec_files st' = ec_files st \<and> (ok \<longrightarrow> adds to_chars seq (added_payload undefined_cast round_double (ec_files st) w) st st')"
proof -
  have same: "st\<lparr>ec_files := fst (load_sidecar_records undefined_cast round_double (ec_files st) (document_file i))\<rparr> = st" for i
    using load_unchanged [OF d, of undefined_cast round_double i] by simp
  have copy: "encode_copy to_chars undefined_cast round_double seq r source st =
      (case Option.bind (snd (load_sidecar_records undefined_cast round_double (ec_files st) (document_file (cs_id source))))
          (copied_content source (document_is_current_only r)) of
         None \<Rightarrow> (False, st)
       | Some (version, v) \<Rightarrow>
           (True, add_main [(''type'', SStr ''document.copy''), (''record'', document_record_value r),
                            (''source'', copy_source_value source), (''ordinal'', support_number (ec_ordinal st))]
                    (add_sidecar to_chars seq (document_file (dr_id r)) (document_payload (dr_id r) True version v []) st)))" for r source
    using same [of "cs_id source"]
    by (cases "load_sidecar_records undefined_cast round_double (ec_files st) (document_file (cs_id source))")
      (simp add: encode_copy_def)
  note defs = encode_write_def adds_def added_payload_def
  consider "sw_type w = ''task''" | "sw_type w = ''document.create''" | "sw_type w = ''document.copy''" | "sw_type w = ''document.change''"
    | "sw_type w \<notin> {''task'', ''document.create'', ''document.copy'', ''document.change''}" by blast
  then show ?thesis
  proof cases
    case 1
    then show ?thesis using assms(1) by (auto simp: defs encode_task_def split: option.splits)
  next
    case 2
    then show ?thesis using assms(1) by (auto simp: defs encode_create_def split: option.splits)
  next
    case 3
    then show ?thesis using assms(1) by (auto simp: defs copy split: option.splits)
  next
    case 4
    then show ?thesis using assms(1) by (auto simp: defs encode_change_def Let_def add_sidecar_def add_main_def sidecar_text_def split: option.splits)
  next
    case 5
    then have no: "(sw_type w = ''task'') = False" "(sw_type w = ''document.create'') = False" "(sw_type w = ''document.copy'') = False"
      "(sw_type w = ''document.change'') = False" by simp_all
    define A where "A = (sw_type w = ''conversation'')"
    define B where "B = (sw_type w = ''entry'')"
    define C where "C = (sw_type w = ''submission'')"
    define D where "D = (sw_type w = ''document.retire'')"
    note run = assms(1) [unfolded encode_write_def no if_False, folded A_def B_def C_def D_def]
    show ?thesis unfolding adds_def added_payload_def no if_False option.case using run
      by (auto split: option.splits if_splits)
  qed
qed

lemma encode_writes_records:
  assumes "encode_writes to_chars undefined_cast round_double seq st ws = (ok, st')" "ec_files st = d"
    and "\<And>i. complete_text (file_bytes d (document_file i))" "encodes to_chars recs st"
  shows "ec_files st' = d \<and>
    (ok \<longrightarrow> encodes to_chars (recs @ commit_records undefined_cast round_double seq d (ec_ordinal st) ws) st')"
  using assms
proof (induction ws arbitrary: st recs)
  case (Cons w ws)
  obtain b st1 where w: "encode_write to_chars undefined_cast round_double seq st w = (b, st1)"
    by (cases "encode_write to_chars undefined_cast round_double seq st w")
  have step: "ec_files st1 = d" "b \<Longrightarrow> adds to_chars seq (added_payload undefined_cast round_double d w) st st1"
    using encode_write_adds [OF w, unfolded Cons.prems(2), OF Cons.prems(3)] by blast+
  show ?case
  proof (cases b)
    case False
    then show ?thesis using Cons.prems(1) w step(1) by simp
  next
    case True
    then have rest: "encode_writes to_chars undefined_cast round_double seq st1 ws = (ok, st')" using Cons.prems(1) w by simp
    show ?thesis
    proof (cases "added_payload undefined_cast round_double d w")
      case None
      then have same: "ec_sidecars st1 = ec_sidecars st" "ec_ordinal st1 = ec_ordinal st"
        using step(2) [OF True] by (simp_all add: adds_def)
      have "encodes to_chars recs st1" using encodes_cong [OF same(1)] Cons.prems(4) by simp
      note same = same(2) this
      then show ?thesis using Cons.IH [OF rest step(1) Cons.prems(3) same(2)] None same(1) by simp
    next
      case (Some fp)
      obtain f p where fp: "fp = (f, p)" by (cases fp)
      let ?r = "\<lparr>sr_seq = seq, sr_ordinal = ec_ordinal st, sr_payload = p\<rparr>"
      have one: "ec_sidecars st1 = ec_sidecars (add_sidecar to_chars seq f p st)" "ec_ordinal st1 = ec_ordinal st + 1"
        using step(2) [OF True] Some fp by (simp_all add: adds_def)
      have "encodes to_chars (recs @ [(f, ?r)]) st1"
        using encodes_cong [OF one(1)] add_sidecar_encodes [OF Cons.prems(4), of f seq p] by simp
      then show ?thesis using Cons.IH [OF rest step(1) Cons.prems(3)] Some fp one(2) by fastforce
    qed
  qed
qed simp

lemma encode_commit_sidecars:
  assumes "encode_commit to_chars undefined_cast round_double seq ws cur d = (d', e)"
    and "\<And>i. complete_text (file_bytes d (document_file i))"
  shows "d' = d \<and> distinct (map fst (eo_sidecars e)) \<and>
    (\<forall>(f, c)\<in>set (eo_sidecars e). f \<noteq> main_file \<and>
       c = text_for to_chars f (commit_records undefined_cast round_double seq d 0 ws))"
proof -
  obtain ok st where run: "encode_writes to_chars undefined_cast round_double seq (encode_init d) ws = (ok, st)"
    by (cases "encode_writes to_chars undefined_cast round_double seq (encode_init d) ws")
  have "encodes to_chars [] (encode_init d)" by (simp add: encodes_def encode_init_def sidecar_text_def text_for_def records_for_def)
  then have st: "ec_files st = d" "ok \<Longrightarrow> encodes to_chars (commit_records undefined_cast round_double seq d 0 ws) st"
    using encode_writes_records [OF run _ assms(2), of "[]"] by (auto simp: encode_init_def)
  show ?thesis
  proof (cases ok)
    case False
    then show ?thesis using assms(1) run st(1) by (auto simp: encode_commit_def)
  next
    case True
    note st = st(1) st(2) [OF True, unfolded encodes_def]
    have e: "eo_sidecars e = ec_sidecars st" "d' = d" using assms(1) run True st(1) by (auto simp: encode_commit_def)
    have "f \<noteq> main_file \<and> c = text_for to_chars f (commit_records undefined_cast round_double seq d 0 ws)"
      if m: "(f, c) \<in> set (ec_sidecars st)" for f c
    proof -
      have "f \<in> fst ` set (commit_records undefined_cast round_double seq d 0 ws)" using m st(2) by force
      moreover have "sidecar_text st f = c" using m st(2) by (simp add: sidecar_text_def map_of_is_SomeI)
      ultimately show ?thesis using commit_records_files st(2) by fastforce
    qed
    then show ?thesis using e st(2) by auto
  qed
qed

section \<open>A commit that fails\<close>

lemma unpublished_take:
  assumes "scientific_output to_chars" "commit_lines to_chars round_double seq rs"
  shows "unpublished to_chars round_double seq b (b @ take n (lines_text (map (sidecar_line to_chars) rs)))"
proof -
  have "\<forall>l\<in>set (map (sidecar_line to_chars) rs). line_feed \<notin> set l" using sidecar_line_no_feed [OF assms(1)] by simp
  from take_lines_text [OF this, of n]
  obtain k torn where k: "take n (lines_text (map (sidecar_line to_chars) rs)) = lines_text (map (sidecar_line to_chars) (take k rs)) @ torn"
      "line_feed \<notin> set torn" by (auto simp: take_map)
  have "sorted_wrt (<) (map sr_ordinal (take k rs))" using assms(2) by (simp add: commit_lines_def sorted_wrt_take flip: take_map)
  then have "commit_lines to_chars round_double seq (take k rs)"
    using assms(2) by (auto simp: commit_lines_def dest: in_set_takeD)
  then show ?thesis unfolding unpublished_def using k by blast
qed

lemma unpublished_refl: "unpublished to_chars round_double seq b b"
  unfolding unpublished_def by (intro exI [of _ "[]"]) (simp add: commit_lines_def)

lemma put_file_keys: "fst ` set (put_file d f b) = insert f (fst ` set d)"
  by (metis (no_types, lifting) keys_insert_or_assign list.set_map put_file_def set_append insert_absorb list.simps(15) Un_insert_right sup_bot.right_neutral empty_set)

lemma put_file_unique: "unique_keys d \<Longrightarrow> unique_keys (put_file d f b)"
  by (simp add: put_file_def unique_insert_or_assign)

text \<open>What holds while sidecars are appended: \<^verbatim>\<open>main.jsonl\<close> is untouched, and so are files whose turn is to come.\<close>

definition appending :: "(dbl \<Rightarrow> string) \<Rightarrow> (rat \<Rightarrow> dbl option) \<Rightarrow> int \<Rightarrow> directory \<Rightarrow> directory \<Rightarrow> bool" where
  "appending to_chars round_double seq d d' \<longleftrightarrow>
     unfinished_commit to_chars round_double seq d d' \<and> file_bytes d' main_file = file_bytes d main_file"

lemma appending_refl: "unique_keys d \<Longrightarrow> appending to_chars round_double seq d d"
  by (simp add: appending_def unfinished_commit_def unpublished_refl exI [of _ "[]"])

lemma appending_put:
  assumes "appending to_chars round_double seq d d'" "f \<noteq> main_file"
    and "unpublished to_chars round_double seq (file_bytes d f) b"
  shows "appending to_chars round_double seq d (put_file d' f b)"
  using assms by (auto simp: appending_def unfinished_commit_def put_file_keys put_file_unique file_bytes_put)

lemma append_sidecar_result:
  assumes "append_sidecar j (f, c) = r"
  defines "j' \<equiv> (case r of Inl j1 \<Rightarrow> j1 | Inr j1 \<Rightarrow> j1)"
  shows "jl_state j' = jl_state j \<and> (jl_poisoned j' \<longleftrightarrow> jl_poisoned j \<or> \<not> is_ok r) \<and>
    (jl_files j' = jl_files j \<and> \<not> is_ok r \<or> (\<exists>n. jl_files j' = put_file (jl_files j) f (file_bytes (jl_files j) f @ take n c)))"
  using assms(1) unfolding j'_def
  by (auto simp: append_sidecar_def append_file_def next_io_def Let_def split: if_splits prod.splits list.splits io_outcome.splits
      intro: exI [of _ "length c"])

lemma append_sidecars_appending:
  assumes sci: "scientific_output to_chars"
    and "appending to_chars round_double seq d (jl_files j)" "distinct (map fst xs)"
    and "\<forall>(f, c)\<in>set xs. f \<noteq> main_file \<and> file_bytes (jl_files j) f = file_bytes d f \<and>
           (\<exists>rs. commit_lines to_chars round_double seq rs \<and> c = lines_text (map (sidecar_line to_chars) rs))"
    and "fold_r append_sidecar j xs = r"
  shows "(case r of Inl j' \<Rightarrow> appending to_chars round_double seq d (jl_files j') \<and> jl_state j' = jl_state j \<and> jl_poisoned j'
            | Inr j' \<Rightarrow> appending to_chars round_double seq d (jl_files j') \<and> jl_state j' = jl_state j \<and> jl_poisoned j' = jl_poisoned j)"
  using assms(2-)
proof (induction xs arbitrary: j)
  case (Cons x xs)
  obtain f c where x: "x = (f, c)" by (cases x)
  obtain rs where f: "f \<noteq> main_file" "file_bytes (jl_files j) f = file_bytes d f" "commit_lines to_chars round_double seq rs"
      "c = lines_text (map (sidecar_line to_chars) rs)" using Cons.prems(3) x by auto
  have put: "appending to_chars round_double seq d (put_file (jl_files j) f (file_bytes (jl_files j) f @ take n c))" for n
    using appending_put [OF Cons.prems(1) f(1)] unpublished_take [OF sci f(3)] f(2,4) by simp
  show ?case
  proof (cases "append_sidecar j (f, c)")
    case (Inl j1)
    have "jl_state j1 = jl_state j \<and> jl_poisoned j1 \<and> appending to_chars round_double seq d (jl_files j1)"
      using append_sidecar_result [OF Inl] put Cons.prems(1) by auto
    moreover have "r = Inl j1" using Cons.prems(4) x Inl by simp
    ultimately show ?thesis by simp
  next
    case (Inr j1)
    obtain n where j1: "jl_files j1 = put_file (jl_files j) f (file_bytes (jl_files j) f @ take n c)"
        "jl_state j1 = jl_state j" "jl_poisoned j1 = jl_poisoned j" using append_sidecar_result [OF Inr] by auto
    have "f \<notin> fst ` set xs" using Cons.prems(2) x by simp
    then have "\<forall>(g, c)\<in>set xs. file_bytes (jl_files j1) g = file_bytes (jl_files j) g"
      by (auto simp: j1(1) file_bytes_put rev_image_eqI)
    then have "\<forall>(g, c)\<in>set xs. g \<noteq> main_file \<and> file_bytes (jl_files j1) g = file_bytes d g \<and>
           (\<exists>rs. commit_lines to_chars round_double seq rs \<and> c = lines_text (map (sidecar_line to_chars) rs))"
      using Cons.prems(3) by fastforce
    then show ?thesis
      using Cons.IH [of j1] Cons.prems(2,4) put [of n] j1 x Inr by (cases r) simp_all
  qed
qed auto

lemma flush_keeps:
  assumes "fold_r flush_one j xs = r"
  shows "(case r of Inl j' \<Rightarrow> jl_files j' = jl_files j \<and> jl_state j' = jl_state j \<and> jl_poisoned j'
            | Inr j' \<Rightarrow> jl_files j' = jl_files j \<and> jl_state j' = jl_state j \<and> jl_poisoned j' = jl_poisoned j)"
  using assms
proof (induction xs arbitrary: j)
  case (Cons x xs)
  show ?case
  proof (cases "flush_one j x")
    case (Inl j1)
    then show ?thesis using Cons.prems by (auto simp: flush_one_def Let_def split: prod.splits if_splits)
  next
    case (Inr j1)
    then have "jl_files j1 = jl_files j" "jl_state j1 = jl_state j" "jl_poisoned j1 = jl_poisoned j"
      by (auto simp: flush_one_def Let_def split: prod.splits if_splits)
    then show ?thesis using Cons.IH [of j1] Cons.prems Inr by (cases r) simp_all
  qed
qed auto

lemma publish_fails:
  assumes "publish_marker ws seq fsync e j = (j', Inl Poisoned)" "eo_marker e = [] \<or> (\<exists>l. eo_marker e = l @ [line_feed] \<and> line_feed \<notin> set l)"
    and d: "appending to_chars round_double seq' d (jl_files j)"
  shows "jl_poisoned j' \<and> jl_state j' = jl_state j \<and>
    (unfinished_commit to_chars round_double seq' d (jl_files j') \<or>
     eo_marker e \<noteq> [] \<and> file_bytes (jl_files j') main_file = file_bytes d main_file @ eo_marker e)"
proof -
  obtain o1 plan where io: "next_io (jl_plan j) = (o1, plan)" by (cases "next_io (jl_plan j)")
  obtain d1 ok where ap: "append_file o1 (jl_files j) main_file (eo_marker e) = (d1, ok)" by (cases "append_file o1 (jl_files j) main_file (eo_marker e)")
  have "\<not> ok" using assms(1) io ap
    by (auto simp: publish_marker_def poisoned_commit_def Let_def split: prod.splits sum.splits if_splits)
  then have j': "j' = j\<lparr>jl_plan := plan, jl_files := d1, jl_poisoned := True\<rparr>"
    using assms(1) io ap by (simp add: publish_marker_def poisoned_commit_def)
  consider "d1 = jl_files j" | n where "d1 = put_file (jl_files j) main_file (file_bytes (jl_files j) main_file @ take n (eo_marker e))"
    using ap \<open>\<not> ok\<close> by (cases o1) (auto simp: append_file_def)
  then show ?thesis
  proof cases
    case 1
    then show ?thesis using j' d by (simp add: appending_def)
  next
    case (2 n)
    note put = file_bytes_put put_file_keys put_file_unique
    show ?thesis
    proof (cases "line_feed \<in> set (take n (eo_marker e))")
      case True
      then obtain l where l: "eo_marker e = l @ [line_feed]" "line_feed \<notin> set l" using assms(2) by fastforce
      then have "length l < n" using True by (cases "n \<le> length l") (auto dest: in_set_takeD)
      then have "take n (eo_marker e) = eo_marker e" using l(1) by simp
      then show ?thesis using 2 j' d l by (simp add: appending_def put)
    next
      case False
      have "unfinished_commit to_chars round_double seq' d d1"
        using d False 2 main_no_sidecar by (auto simp: appending_def unfinished_commit_def put)
      then show ?thesis using j' by simp
    qed
  qed
qed

lemma commit_fails:
  assumes sci: "scientific_output to_chars"
    and d: "settled undefined_cast round_double (st_next_seq (jl_state j)) (jl_files j)"
    and ok: "\<forall>x\<in>set (commit_records undefined_cast round_double (st_next_seq (jl_state j)) (jl_files j) 0 ws). storable_line to_chars round_double (snd x)"
    and run: "jsonl_commit to_chars undefined_cast round_double fsync j ws = (j', Inl Poisoned)"
  defines "e \<equiv> snd (encode_commit to_chars undefined_cast round_double (st_next_seq (jl_state j)) ws
                  (current_only_documents (jl_state j) ws) (jl_files j))"
  shows "jl_poisoned j' \<and> jl_state j' = jl_state j \<and>
    (unfinished_commit to_chars round_double (st_next_seq (jl_state j)) (jl_files j) (jl_files j') \<or>
     eo_marker e \<noteq> [] \<and> file_bytes (jl_files j') main_file = file_bytes (jl_files j) main_file @ eo_marker e)"
proof -
  let ?seq = "st_next_seq (jl_state j)" and ?d = "jl_files j"
  note start = appending_refl [of ?d to_chars round_double ?seq]
  have unique: "unique_keys ?d" and docs: "complete_text (file_bytes ?d (document_file i))" for i using d by (auto simp: settled_def)
  show ?thesis
  proof (cases "unusable j")
    case (Some err)
    then have "j' = j" "jl_poisoned j" using run by (auto simp: jsonl_commit_def unusable_def split: if_splits)
    then show ?thesis using start [OF unique] by (simp add: appending_def)
  next
    case None
    then have alive: "\<not> jl_poisoned j" by (auto simp: unusable_def split: if_splits)
    obtain d1 e1 where enc: "encode_commit to_chars undefined_cast round_double ?seq ws (current_only_documents (jl_state j) ws) ?d = (d1, e1)"
      by (cases "encode_commit to_chars undefined_cast round_double ?seq ws (current_only_documents (jl_state j) ws) ?d")
    have e: "e = e1" by (simp add: e_def enc)
    have side: "d1 = ?d" "distinct (map fst (eo_sidecars e))"
        "\<forall>(f, c)\<in>set (eo_sidecars e). f \<noteq> main_file \<and> c = text_for to_chars f (commit_records undefined_cast round_double ?seq ?d 0 ws)"
      using encode_commit_sidecars [OF enc docs] e by blast+
    have lines: "\<forall>(f, c)\<in>set (eo_sidecars e). f \<noteq> main_file \<and> file_bytes ?d f = file_bytes ?d f \<and>
           (\<exists>rs. commit_lines to_chars round_double ?seq rs \<and> c = lines_text (map (sidecar_line to_chars) rs))"
      using side(3) commit_lines_records [OF ok] by (fastforce simp: text_for_def)
    have marker: "eo_marker e = [] \<or> (\<exists>l. eo_marker e = l @ [line_feed] \<and> line_feed \<notin> set l)"
      using enc write_json_no_feed [OF sci] by (auto simp: e encode_commit_def split: prod.splits bool.splits)
    define r1 where "r1 = fold_r append_sidecar j (eo_sidecars e)"
    note app = append_sidecars_appending [OF sci start [OF unique] side(2) lines r1_def [symmetric]]
    have run1: "(case r1 of Inl j1 \<Rightarrow> poisoned_commit j1
        | Inr j1 \<Rightarrow> (case (if fsync then fold_r flush_one j1 (eo_sidecars e) else Inr j1) of
             Inl j2 \<Rightarrow> poisoned_commit j2 | Inr j2 \<Rightarrow> publish_marker ws ?seq fsync e j2)) = (j', Inl Poisoned)"
    proof -
      have "\<not> (\<exists>s err. storage_validate (jl_state j) ws ?seq = (s, Inl err))" "ws \<noteq> []"
        using run None by (auto simp: jsonl_commit_def Let_def split: prod.splits sum.splits)
      then obtain s u where "storage_validate (jl_state j) ws ?seq = (s, Inr u)" "ws \<noteq> []"
        by (cases "storage_validate (jl_state j) ws ?seq"; cases "snd (storage_validate (jl_state j) ws ?seq)") auto
      then show ?thesis using run None unfolding r1_def e by (simp add: jsonl_commit_def enc side(1))
    qed
    show ?thesis
    proof (cases r1)
      case (Inl j1)
      then show ?thesis using run1 app by (simp add: poisoned_commit_def appending_def)
    next
      case (Inr j1)
      define r2 where "r2 = (if fsync then fold_r flush_one j1 (eo_sidecars e) else Inr j1)"
      have fl: "case r2 of Inl j2 \<Rightarrow> jl_files j2 = jl_files j1 \<and> jl_state j2 = jl_state j1 \<and> jl_poisoned j2
          | Inr j2 \<Rightarrow> jl_files j2 = jl_files j1 \<and> jl_state j2 = jl_state j1 \<and> jl_poisoned j2 = jl_poisoned j1"
        using flush_keeps [OF refl, of j1 "eo_sidecars e"] by (simp add: r2_def)
      show ?thesis
      proof (cases r2)
        case Inl': (Inl j2)
        then show ?thesis using run1 app fl Inr unfolding r2_def [symmetric] by (simp add: poisoned_commit_def appending_def r2_def [symmetric])
      next
        case Inr': (Inr j2)
        then have "publish_marker ws ?seq fsync e j2 = (j', Inl Poisoned)" using run1 Inr by (simp add: r2_def [symmetric])
        moreover have "appending to_chars round_double ?seq ?d (jl_files j2)" "jl_state j2 = jl_state j"
          using app fl Inr Inr' by simp_all
        ultimately show ?thesis using publish_fails [OF _ marker] by fastforce
      qed
    qed
  qed
qed

text \<open>A commit that creates one document in an empty directory.\<close>

definition crash_document :: document_record where
  "crash_document =
     \<lparr>dr_id = 1, dr_kind = ''k'', dr_created_at = 0, dr_conversation = None, dr_task = None, dr_key = None,
      dr_history = LatestHistory, dr_fork = ForkCurrent, dr_retired_at = None\<rparr>"

definition sample_batch :: "storage_write list" where
  "sample_batch =
     [(restored_write ''document.create'')\<lparr>sw_document_record := Some crash_document, sw_document_value := Some (JObj [])\<rparr>]"

definition sample_store :: "io_outcome list \<Rightarrow> jsonl" where
  "sample_store plan = \<lparr>jl_files = [], jl_known = [], jl_state = storage_init, jl_poisoned = False, jl_plan = plan\<rparr>"

lemma one_chars_scientific: "scientific_output one_chars"
proof -
  have "''1e+00'' = scientific_text False ''1'' 0" "all_digits ''1''" by code_simp+
  then show ?thesis unfolding scientific_output_def one_chars_def by blast
qed

lemma empty_settled: "settled zero_cast exact_double 1 []"
  by (simp add: settled_def unique_keys_def complete_text_def file_bytes_def markers_of_def lines_of_def records_of_def
      parse_sidecar_file_def last_marker_seq_def)

lemma empty_recovers: "recover to_chars undefined_cast round_double fsync [] = Inr (sample_store [])"
  by (simp add: recover_def read_markers_def read_file_lines_def sidecar_files_def remove_scratch_def replay_markers_def
      reclaim_sidecars_def sample_store_def)

lemma sample_storable:
  "\<forall>x\<in>set (commit_records zero_cast exact_double 1 [] 0 sample_batch). storable_line one_chars exact_double (snd x)"
proof -
  have "commit_records zero_cast exact_double 1 [] 0 sample_batch = [(document_file 1, sample_record 1)]"
    by (simp add: sample_batch_def crash_document_def added_payload_def restored_write_def sample_record_def document_payload_def)
  moreover have "valid_utf8_bytes (map uchar (sidecar_line one_chars (sample_record 1)))" by code_simp
  ultimately show ?thesis using sample_record_storable by (simp add: storable_line_def)
qed

text \<open>
  C1. A commit that fails is atomic: when writing stops anywhere, at a file that does not open, in the
  middle of a sidecar line, at a failed flush or in the middle of the marker, the storage in memory is
  unchanged, every later commit is refused and leaves the files alone, and the directory that is left
  recovers to the state it recovered to before, unless the whole marker reached the file. This holds
  for every directory of whole lines below the next sequence and every batch whose records are
  representable (integers exact as doubles, strict values, well-formed text).
\<close>

theorem failed_commit_is_atomic:
  assumes "scientific_output to_chars"
    and "settled undefined_cast round_double (st_next_seq (jl_state j)) (jl_files j)"
    and "recover to_chars undefined_cast round_double fsync (jl_files j) = Inr j0"
    and "\<forall>x\<in>set (commit_records undefined_cast round_double (st_next_seq (jl_state j)) (jl_files j) 0 ws). storable_line to_chars round_double (snd x)"
    and "jsonl_commit to_chars undefined_cast round_double fsync j ws = (j', Inl Poisoned)"
  shows "jl_state j' = jl_state j \<and>
    (\<forall>ws'. jsonl_commit to_chars undefined_cast round_double fsync j' ws' = (j', Inl Poisoned)) \<and>
    ((\<exists>j1. recover to_chars undefined_cast round_double fsync (jl_files j') = Inr j1 \<and> jl_state j1 = jl_state j0) \<or>
     file_bytes (jl_files j') main_file = file_bytes (jl_files j) main_file @
       eo_marker (snd (encode_commit to_chars undefined_cast round_double (st_next_seq (jl_state j)) ws
         (current_only_documents (jl_state j) ws) (jl_files j))))"
proof -
  let ?seq = "st_next_seq (jl_state j)"
  note res = commit_fails [OF assms(1,2,4,5)]
  have "unique_keys (jl_files j)" using assms(2) by (simp add: settled_def)
  from recover_state [OF this, of to_chars undefined_cast round_double fsync "jl_state j0"] assms(3)
  obtain ms files conf where "recovers_to undefined_cast round_double (jl_files j) ms files conf (jl_state j0)" by blast
  then have "\<exists>j1. recover to_chars undefined_cast round_double fsync (jl_files j') = Inr j1 \<and> jl_state j1 = jl_state j0"
    if un: "unfinished_commit to_chars round_double ?seq (jl_files j) (jl_files j')"
    using unfinished_commit_recovers [OF assms(1,2) un] recover_state un unfolding unfinished_commit_def by metis
  moreover have "jsonl_commit to_chars undefined_cast round_double fsync j' ws' = (j', Inl Poisoned)" for ws'
    using res by (simp add: jsonl_commit_def unusable_def)
  ultimately show ?thesis using res by blast
qed

theorem failed_commit_is_atomic_witness:
  "\<exists>j' j1. jsonl_commit one_chars zero_cast exact_double False (sample_store [IoTorn 3]) sample_batch = (j', Inl Poisoned) \<and>
     jl_files j' = [(document_file 1, ''{'' @ [CHR 0x22] @ ''f'')] \<and>
     recover one_chars zero_cast exact_double False (jl_files j') = Inr j1 \<and> jl_state j1 = storage_init"
proof -
  define j' where "j' = fst (jsonl_commit one_chars zero_cast exact_double False (sample_store [IoTorn 3]) sample_batch)"
  have "snd (jsonl_commit one_chars zero_cast exact_double False (sample_store [IoTorn 3]) sample_batch) = Inl Poisoned" by code_simp
  then have run: "jsonl_commit one_chars zero_cast exact_double False (sample_store [IoTorn 3]) sample_batch = (j', Inl Poisoned)"
    by (simp add: j'_def prod_eq_iff)
  have files: "jl_files j' = [(document_file 1, ''{'' @ [CHR 0x22] @ ''f'')]" unfolding j'_def by code_simp
  have "eo_marker (snd (encode_commit one_chars zero_cast exact_double (st_next_seq storage_init) sample_batch
      (current_only_documents storage_init sample_batch) [])) \<noteq> []" by code_simp
  moreover have "file_bytes (jl_files j') main_file = []" unfolding files by code_simp
  moreover have "st_next_seq storage_init = 1" by (simp add: storage_init_def)
  ultimately have "\<exists>j1. recover one_chars zero_cast exact_double False (jl_files j') = Inr j1 \<and> jl_state j1 = storage_init"
    using failed_commit_is_atomic [OF one_chars_scientific _ _ _ run, of "sample_store []"] empty_settled empty_recovers sample_storable
    by (auto simp: sample_store_def)
  then show ?thesis using run files by blast
qed

end
