(* ===== verification/Jsonl_History.thy ===== *)
theory Jsonl_History
  imports Jsonl_Crash
begin

text \<open>
  What a reopened store has lost: revisions of a document before its latest base, also of a document
  whose history is rewindable.
\<close>

















end
