(* ===== verification/Spec2Isabelle.thy ===== *)
theory Spec2Isabelle
  imports Tracker_Laws Chord_Output_Utf8 Replicated_Laws Storage_Reads Session_Tree_Laws Sse_Parser Json_Text_Laws
    Session_Documents_Laws Session_Line_Laws Redactor_Laws Committed_Context_Laws Git_Ignore_Laws Git_Config_Laws
    Jsonl_History
begin

text \<open>
  A model of the core of Pike, a C++ coding-agent runtime (\<^verbatim>\<open>src/src\<close>), and the theorems that make
  it correct. All paths below are relative to \<^verbatim>\<open>src/src\<close>.

  \<^bold>\<open>The program.\<close> \<^verbatim>\<open>support\<close> holds JSON, text and stream utilities. \<^verbatim>\<open>chord\<close> is the state layer: JSON
  values change through drafts, a change is prepared as a batch of delta operations, a tracker
  adopts prepared batches, and replicated states publish revisions to subscribers. \<^verbatim>\<open>durable\<close> keeps
  sessions: a storage of conversations, entries, documents, tasks and submissions that is changed by
  atomic batches only, and a session that runs transactions against it one at a time. A document's
  history is a list of bases and chord deltas, so reading a document replays deltas of \<^verbatim>\<open>chord\<close>.
  \<^verbatim>\<open>coding_agent\<close> is the command line program; its session tree reconstructs the model's context
  from an append-only session file.

  \<^bold>\<open>Theories and sources.\<close>
  \<^item> \<open>Prelude\<close>: result values, run-of-steps locale and list lemmas every other theory shares.
  \<^item> \<open>Json_Object\<close>, \<open>Chord_Json\<close>: \<^verbatim>\<open>support/JsonObject.hpp\<close> as a list of members in insertion order;
    \<^verbatim>\<open>chord/Json.cpp\<close>, \<^verbatim>\<open>chord/StrictJson.cpp\<close>: the value type, its equality and its conversions.
  \<^item> \<open>Utf16\<close>, \<open>Delta\<close>, \<open>Delta_Laws\<close>: \<^verbatim>\<open>chord/Delta.cpp\<close>: UTF-8 and UTF-16, paths, operations, decoding,
    validation and the two appliers. Shown: both appliers agree, paths read back what was written,
    unique keys are kept, moves only rearrange, string changes rebuild the string.
  \<^item> \<open>Tracker\<close>, \<open>Tracker_Laws\<close>: \<^verbatim>\<open>chord/Tracker.cpp\<close> over an explicit heap of shared states. Shown: the
    recorded operations of a draft replay to its value, batches are adopted at most once and only on
    their own base; the collapsed batch of a change without splices need not apply.
  \<^item> \<open>Chord_Output\<close>, \<open>Chord_Output_Laws\<close>, \<open>Chord_Output_Utf8\<close>: \<^verbatim>\<open>chord/Output.cpp\<close>, with the wrap-around of
    \<^verbatim>\<open>size_t\<close>. Shown: windows are within both limits, the chunked buffer shows the window of the stream.
  \<^item> \<open>Replicated\<close>, \<open>Replicated_Laws\<close>: \<^verbatim>\<open>chord/ReplicatedState.cpp\<close> as a step relation with re-entrant calls.
    Shown: deliveries are genuine and ordered, quiescent subscriptions are current.
  \<^item> \<open>Storage_State\<close>, \<open>Document_Key\<close>, \<open>Storage_Laws\<close>, \<open>Storage_Reads\<close>: \<^verbatim>\<open>durable/StorageState.cpp\<close>,
    \<^verbatim>\<open>Storage.cpp\<close>, \<^verbatim>\<open>Records.hpp\<close>: every write of a batch and every read. Shown: as-of reads never
    change, deltas are stored exactly if they apply, addresses have one current document, listing
    and visibility agree, ids and sequences are fresh.
  \<^item> \<open>Int64_Double\<close>, \<open>Storage_Encoding\<close>, \<open>Storage_Encoding_Laws\<close>: \<^verbatim>\<open>durable/StorageEncoding.cpp\<close>: records and operations as
    JSON, with the rounding of integers to doubles. Shown: what is encoded decodes to itself.
  \<^item> \<open>Jsonl_Records\<close>, \<open>Jsonl_Storage\<close>, \<open>Jsonl_Recovery\<close>: \<^verbatim>\<open>durable/JsonlStorage.cpp\<close>: the lines of a directory,
    the commit, recovery. A directory is a list of files with their bytes; every write and flush takes
    its outcome from a plan, so a commit may stop anywhere. \<open>Jsonl_Line_Laws\<close>, \<open>Jsonl_Recovery_Laws\<close>,
    \<open>Jsonl_Crash\<close>, \<open>Jsonl_History\<close>: written lines read back up to the version of a revision, a commit that
    fails does not change what the directory recovers to, a reopened store has lost history.
  \<^item> \<open>Session_Transaction\<close>, \<open>Session_Transaction_Laws\<close>: \<^verbatim>\<open>durable/Session.cpp\<close>, class \<^verbatim>\<open>Transaction\<close> and
    \<^verbatim>\<open>commit_now\<close>. An operation maps storage and transaction to both and a result. Shown: settled work is
    final, new work hangs below live owners, transactions are isolated and all or nothing.
  \<^item> \<open>Session_Documents\<close>, \<open>Session_Documents_Laws\<close>: the documents of \<^verbatim>\<open>durable/Session.cpp\<close>: definitions, acquiring
    and retiring in a transaction, the cache, the settlement of a commit, committed reads. A draft is
    the position of its staged document. Shown: the cache never disagrees with the storage, and
    after a commit every acquired document reads back as its draft's final value.
  \<^item> \<open>Session_Line\<close>, \<open>Session_Line_Laws\<close>: the mutation line of \<^verbatim>\<open>durable/Session.cpp\<close>. The call stack is
    explicit, so user code may call back at every callback; each choice of the environment is a step.
    Shown: jobs are served in order and one at a time, an idle line has settled everything, the
    storage closes last.
  \<^item> \<open>Context_View\<close>, \<open>Context_View_Laws\<close>: the context a conversation gives the model, in \<^verbatim>\<open>durable/Session.cpp\<close>.
    \<open>Committed_Context\<close>, \<open>Committed_Context_Laws\<close>: \<^verbatim>\<open>durable/CommittedContext.cpp\<close>: estimates and the cut of a
    compaction. Shown: deriving a context succeeds in every storage a session produces, every tool
    call is answered in place, and the cut never separates a call from its result.
  \<^item> \<open>Git_Ignore\<close>, \<open>Git_Config\<close>, \<open>Git_Ignore_Laws\<close>, \<open>Git_Config_Laws\<close>: \<^verbatim>\<open>durable/GitIgnore.cpp\<close>. A position in a glob or
    path is the rest of the text. Shown: the matcher decides the language of the tokens, a rule can be
    written for any name, chunks do not matter to a rule file, rendered names are well-formed.
  \<^item> \<open>Session_Tree\<close>, \<open>Session_Tree_Laws\<close>: \<^verbatim>\<open>coding_agent/session/SessionTree.cpp\<close>: index, navigation, display
    tree, labels, context. Shown: walks end, the display tree is complete, loading is appending, the
    shape of a compacted context.
  \<^item> \<open>Sse_Parser\<close>: \<^verbatim>\<open>support/SseParser.cpp\<close>. Shown: chunking does not matter.
  \<^item> \<open>Json_Text\<close>, \<open>Json_Number\<close>, \<open>Json_Total\<close>, \<open>Json_Text_Laws\<close>: \<^verbatim>\<open>support/Json.cpp\<close>: parser and writer. Shown:
    the round trip, that the parser returns, that canonical texts identify values.
  \<^item> \<open>Bounded_Text\<close>, \<open>Bounded_Text_Laws\<close>, \<open>Redactor_Laws\<close>: \<^verbatim>\<open>support/BoundedText.hpp\<close>, \<^verbatim>\<open>Redactor.hpp\<close>,
    \<^verbatim>\<open>OutputLimiter.hpp\<close>. Shown: budgets are kept without cutting a character, no secret token
    survives, truncated output is whole lines.

  \<^bold>\<open>Conventions.\<close> A C++ struct is a record, a variant a datatype, a fallible function returns
  \<open>error + value\<close>; the texts of error messages are left out. Strings are lists of bytes. \<^verbatim>\<open>std::map\<close> is an
  association list sorted by key, \<^verbatim>\<open>std::sort\<close> a stable sort (the code compares by total orders). 64-bit
  ids and sequences are integers without overflow; \<^verbatim>\<open>size_t\<close> wraps where the code can reach the wrap
  (\<open>Chord_Output\<close>). Doubles are NaN, infinities, negative zero and rationals; \<^verbatim>\<open>std::to_chars\<close> and the
  rounding of \<^verbatim>\<open>std::from_chars\<close> are parameters with their documented behaviour as named hypotheses.

  \<^bold>\<open>Bounds and fuel.\<close> The JSON parser runs with \<open>2 * length + 2\<close> fuel, and \<open>read_json_returns\<close> shows that
  this is always enough. The display tree is built with the number of nodes as fuel, enough because
  a path never repeats a node. Walks over conversation ancestry carry a visited set, and the number
  of unvisited conversations is their measure. The walk to the root of a session tree may diverge and
  is a partial function; \<open>branch_walk_ends\<close> says when it returns.

  \<^bold>\<open>Not modelled.\<close> The database backend (statements of a library around the storage state); of the
  JSONL backend symbolic and hard links, files another process substitutes, and failures of the file
  system during recovery; the harness and workflow runtime (coroutine scheduling of model calls), the tools (file system and
  processes), \<^verbatim>\<open>agent\<close> and \<^verbatim>\<open>ai\<close> (provider protocols over network streams), \<^verbatim>\<open>codemode\<close> (a JavaScript
  engine), the terminal interface, and of \<^verbatim>\<open>durable/Session.cpp\<close> document watches and commit
  observers. Mutexes are not modelled where every access holds the same one.
\<close>

end
